(* ===== verification/Prelude.thy ===== *)
theory Prelude
  imports Main "HOL-Library.Word" "HOL-Library.Multiset" "HOL-Library.AList"
begin

text \<open>
  What every component of the library shares: the types that stand for JavaScript
  values (bytes, 32-bit halves, big integers, thrown exceptions), the operations of
  JavaScript arrays, sets and maps that the sources use, and the generic lemmas about
  them.

  \<^item> A \<open>bigint\<close> is an \<^typ>\<open>int\<close>: both are unbounded and both read a negative
    number as an infinite two's complement bit string, so \<open>>>\<close>, \<open><<\<close>, \<open>&\<close> and
    \<open>|\<close> are \<^const>\<open>drop_bit\<close>, \<^const>\<open>push_bit\<close>, \<open>AND\<close> and \<open>OR\<close>.
  \<^item> A \<open>Uint8Array\<close> is a list of \<^typ>\<open>8 word\<close>; a store outside it is ignored, as
    \<^const>\<open>list_update\<close> ignores it.
  \<^item> \<open>throw\<close> is the left side of a sum (\<open>js_exn\<close>); the text of a message keeps its
    fixed prefix and drops the interpolated values.
  \<^item> \<open>xs[i] ?? d\<close> is \<open>nth_or\<close>.
  \<^item> A \<open>Set\<close> is the list of its elements in insertion order (\<open>js_set_add\<close>), a
    \<open>Map\<close> the association list of its entries in insertion order
    (\<^const>\<open>AList.update\<close> replaces in place and appends otherwise, as \<open>Map.set\<close>
    does).
\<close>

unbundle bit_operations_syntax

section \<open>Types\<close>

type_synonym u8 = "8 word"
type_synonym u32 = "32 word"
type_synonym u64 = "64 word"
type_synonym bytes = "u8 list"
type_synonym bigint = int

datatype js_exn = TypeError string | RangeError string | JsError string

type_synonym 'a js = "js_exn + 'a"

named_theorems len_simps \<open>lengths of byte strings and arrays\<close>
named_theorems bits_simps \<open>sub-fields of packed words\<close>

section \<open>Exceptions\<close>

definition js_bind :: "'a js \<Rightarrow> ('a \<Rightarrow> 'b js) \<Rightarrow> 'b js" where
  "js_bind m f = (case m of Inl e \<Rightarrow> Inl e | Inr x \<Rightarrow> f x)"

lemma js_bind_Inl [simp]: "js_bind (Inl e) f = Inl e"
  by (simp add: js_bind_def)

lemma js_bind_Inr [simp]: "js_bind (Inr x) f = f x"
  by (simp add: js_bind_def)

lemma js_bind_eq_Inr_iff: "js_bind m f = Inr y \<longleftrightarrow> (\<exists>x. m = Inr x \<and> f x = Inr y)"
  by (cases m) simp_all

fun js_map :: "('a \<Rightarrow> 'b js) \<Rightarrow> 'a list \<Rightarrow> 'b list js" where
  "js_map f [] = Inr []"
| "js_map f (x # xs) = js_bind (f x) (\<lambda>y. js_bind (js_map f xs) (\<lambda>ys. Inr (y # ys)))"

section \<open>Shifts of big integers\<close>

text \<open>\<open>x << n\<close> and \<open>x >> n\<close>: a negative count shifts the other way.\<close>

definition js_shl :: "bigint \<Rightarrow> int \<Rightarrow> bigint" where
  "js_shl x n = (if 0 \<le> n then push_bit (nat n) x else drop_bit (nat (- n)) x)"

definition js_shr :: "bigint \<Rightarrow> int \<Rightarrow> bigint" where
  "js_shr x n = js_shl x (- n)"

lemma js_shl_nat [simp]: "js_shl x (int n) = push_bit n x"
  by (simp add: js_shl_def)

lemma js_shr_nat [simp]: "js_shr x (int n) = drop_bit n x"
  by (cases n) (simp_all add: js_shr_def js_shl_def nat_add_distrib)

section \<open>Arrays, sets and maps\<close>

definition nth_or :: "'a \<Rightarrow> 'a list \<Rightarrow> nat \<Rightarrow> 'a" where
  "nth_or d xs i = (if i < length xs then xs ! i else d)"

lemma nth_or_nth [simp]: "i < length xs \<Longrightarrow> nth_or d xs i = xs ! i"
  by (simp add: nth_or_def)

lemma nth_or_beyond [simp]: "length xs \<le> i \<Longrightarrow> nth_or d xs i = d"
  by (simp add: nth_or_def)

lemma nth_or_update:
  "nth_or d (xs[i := v]) j = (if j = i \<and> i < length xs then v else nth_or d xs j)"
  by (auto simp: nth_or_def)

lemma nth_or_replicate [simp]: "nth_or d (replicate n d) i = d"
  by (simp add: nth_or_def)

text \<open>\<open>xs[i]\<close> where the index may be out of range: \<open>None\<close> is \<open>undefined\<close>.\<close>

definition nth_opt :: "'a list \<Rightarrow> nat \<Rightarrow> 'a option" where
  "nth_opt xs i = (if i < length xs then Some (xs ! i) else None)"

lemma nth_opt_Some [simp]: "i < length xs \<Longrightarrow> nth_opt xs i = Some (xs ! i)"
  by (simp add: nth_opt_def)

lemma nth_opt_None [simp]: "length xs \<le> i \<Longrightarrow> nth_opt xs i = None"
  by (simp add: nth_opt_def)

text \<open>\<open>xs[i] = v\<close> on an array: a store past the end extends it. The holes in between read as
  \<open>undefined\<close>, which every reader of a word array turns into zero.\<close>

definition js_array_set :: "bigint list \<Rightarrow> nat \<Rightarrow> bigint \<Rightarrow> bigint list" where
  "js_array_set xs i v = (if i < length xs then xs[i := v] else xs @ replicate (i - length xs) 0 @ [v])"

lemma js_array_set_in [simp]: "i < length xs \<Longrightarrow> js_array_set xs i v = xs[i := v]"
  by (simp add: js_array_set_def)

definition js_set_add :: "'a list \<Rightarrow> 'a \<Rightarrow> 'a list" where
  "js_set_add s x = (if x \<in> set s then s else s @ [x])"

lemma set_js_set_add [simp]: "set (js_set_add s x) = insert x (set s)"
  by (auto simp: js_set_add_def)

lemma distinct_js_set_add [simp]: "distinct (js_set_add s x) \<longleftrightarrow> distinct s"
  by (simp add: js_set_add_def)

lemma set_foldl_js_set_add [simp]:
  "set (foldl (\<lambda>s x. js_set_add s (f x)) s xs) = set s \<union> f ` set xs"
  by (induction xs arbitrary: s) auto

lemma distinct_foldl_js_set_add [simp]:
  "distinct (foldl (\<lambda>s x. js_set_add s (f x)) s xs) \<longleftrightarrow> distinct s"
  by (induction xs arbitrary: s) auto

section \<open>Packed words\<close>

text \<open>\<open>fits n v\<close>: the value needs at most \<open>n\<close> bits. The collection \<open>bits_simps\<close> reads a field of
  a disjunction of shifted values.\<close>

definition fits :: "nat \<Rightarrow> bigint \<Rightarrow> bool" where
  "fits n v \<longleftrightarrow> take_bit n v = v"

lemma fits_iff: "fits n v \<longleftrightarrow> 0 \<le> v \<and> v < 2 ^ n"
  by (auto simp: fits_def take_bit_int_eq_self_iff)

lemma fits_take: "fits n v \<Longrightarrow> n \<le> m \<Longrightarrow> take_bit m v = v"
  unfolding fits_def by (metis min.absorb2 take_bit_take_bit)

lemma fits_drop: "fits n v \<Longrightarrow> n \<le> m \<Longrightarrow> drop_bit m v = 0"
  by (auto simp: fits_iff drop_bit_eq_div intro!: div_pos_pos_trivial elim!: less_le_trans)

lemma fits_take_bit [simp]: "fits n (take_bit n v)"
  by (simp add: fits_def)

lemma fits_push_or:
  assumes "fits n v" "fits m u" "m \<le> l" "n + k \<le> l"
  shows "fits l (push_bit k v OR u)"
  using fits_take [OF assms(1), of "l - k"] fits_take [OF assms(2), of l] assms(3,4)
  by (simp add: fits_def take_bit_push_bit)

lemma drop_bit_zero_iff: "drop_bit n v = 0 \<longleftrightarrow> fits n v" for v :: bigint
proof -
  have "\<not> (v \<le> 0 \<and> 2 ^ n < v)" using zero_less_power [of "2::int" n] by linarith
  then show ?thesis by (auto simp: fits_iff drop_bit_eq_div zdiv_eq_0_iff)
qed

lemma split_bits: "take_bit (m + n) v = push_bit m (take_bit n (drop_bit m v)) OR take_bit m v" for v :: bigint
  by (rule bit_eqI) (auto simp: bit_take_bit_iff bit_or_iff bit_push_bit_iff bit_drop_bit_eq)

lemmas [bits_simps] = take_bit_or drop_bit_or take_bit_push_bit drop_bit_push_bit

end
