(* ===== verification/State_Types.thy ===== *)
theory State_Types
  imports Prelude
begin

text \<open>
  The types and constants of \<open>packages/coretex/src/state/types.ts\<close>: the 1024-word
  state, the patch object, the stable error codes, the patch-type bytes and the word
  ranges. Word ranges are natural numbers where they index the state and integers where
  the code compares them with an index taken from a patch.
\<close>

record CortexState =
  words :: "bigint list"

datatype PatchErrorCode =
    E01 \<comment> \<open>\<open>WRONG_PARENT_ROOT\<close>\<close>
  | E02 \<comment> \<open>\<open>WRONG_TYPE_FIELD\<close>\<close>
  | E03 \<comment> \<open>\<open>OVER_BUDGET\<close>\<close>
  | E04 \<comment> \<open>\<open>RESERVED_BIT_SET\<close>\<close>
  | E05 \<comment> \<open>\<open>NOOP_PATCH\<close>\<close>

text \<open>\<open>PatchResult\<close>: an error code on the left, the new state on the right.\<close>

type_synonym PatchResult = "PatchErrorCode + CortexState"

abbreviation (input) "KEY_UPDATE \<equiv> (0x01 :: int)"
abbreviation (input) "SLOT_REPLACE \<equiv> (0x02 :: int)"
abbreviation (input) "TEMPORAL_UPDATE \<equiv> (0x03 :: int)"
abbreviation (input) "RELATION_UPDATE \<equiv> (0x04 :: int)"
abbreviation (input) "CODEBOOK_UPDATE \<equiv> (0x05 :: int)"
abbreviation (input) "HEADER_UPDATE \<equiv> (0x06 :: int)"
abbreviation (input) "POLICY_UPDATE \<equiv> (0x07 :: int)"
abbreviation (input) "MIXED \<equiv> (0xFF :: int)"

record Patch =
  patchType :: int
  wordCount :: int
  scoreDelta :: bigint
  parentStateRoot :: bytes
  indices :: "int list"
  newWords :: "bigint list"

text \<open>Word ranges, first and last word included.\<close>

abbreviation (input) "WORD_COUNT \<equiv> 1024"
abbreviation (input) "HEADER_START \<equiv> 0"
abbreviation (input) "HEADER_END \<equiv> 31"
abbreviation (input) "MEMORY_INDEX_START \<equiv> 32"
abbreviation (input) "MEMORY_INDEX_END \<equiv> 383"
abbreviation (input) "RETRIEVAL_KEYS_START \<equiv> 384"
abbreviation (input) "RETRIEVAL_KEYS_END \<equiv> 671"
abbreviation (input) "RELATIONS_START \<equiv> 672"
abbreviation (input) "RELATIONS_END \<equiv> 799"
abbreviation (input) "TEMPORAL_START \<equiv> 800"
abbreviation (input) "TEMPORAL_END \<equiv> 895"
abbreviation (input) "CODEBOOK_START \<equiv> 896"
abbreviation (input) "CODEBOOK_END \<equiv> 991"
abbreviation (input) "RESERVED_START \<equiv> 992"
abbreviation (input) "RESERVED_END \<equiv> 1023"
abbreviation (input) "POLICY_EVIDENCE_START \<equiv> 384"
abbreviation (input) "POLICY_EVIDENCE_END \<equiv> 511"
abbreviation (input) "POLICY_CONFLICT_START \<equiv> 512"
abbreviation (input) "POLICY_CONFLICT_END \<equiv> 639"
abbreviation (input) "POLICY_ABSTENTION_START \<equiv> 640"
abbreviation (input) "POLICY_ABSTENTION_END \<equiv> 671"
abbreviation (input) "POLICY_RESERVED_START \<equiv> 896"
abbreviation (input) "POLICY_RESERVED_END \<equiv> 991"

text \<open>Type byte, first word, last word.\<close>

definition PATCH_TYPE_RANGE_TABLE :: "(int \<times> int \<times> int) list" where
  "PATCH_TYPE_RANGE_TABLE = [
    (KEY_UPDATE, RETRIEVAL_KEYS_START, RETRIEVAL_KEYS_END),
    (SLOT_REPLACE, MEMORY_INDEX_START, MEMORY_INDEX_END),
    (TEMPORAL_UPDATE, TEMPORAL_START, TEMPORAL_END),
    (RELATION_UPDATE, RELATIONS_START, RELATIONS_END),
    (CODEBOOK_UPDATE, CODEBOOK_START, CODEBOOK_END),
    (HEADER_UPDATE, HEADER_START, HEADER_END),
    (POLICY_UPDATE, POLICY_EVIDENCE_START, POLICY_ABSTENTION_END)]"

abbreviation (input) "MAGIC \<equiv> (0xC07E :: bigint)"
abbreviation (input) "SCHEMA_VERSION_CoreTex \<equiv> (0 :: bigint)"
abbreviation (input) "WORD_COUNT_VALUE \<equiv> (1024 :: bigint)"

section \<open>Well-formed states\<close>

definition u256 :: "bigint \<Rightarrow> bool" where
  "u256 w \<longleftrightarrow> 0 \<le> w \<and> w < 2 ^ 256"

definition wf_state :: "CortexState \<Rightarrow> bool" where
  "wf_state s \<longleftrightarrow> length (words s) = WORD_COUNT \<and> (\<forall>w\<in>set (words s). u256 w)"

lemma u256_take_bit: "u256 w \<longleftrightarrow> take_bit 256 w = w"
  by (auto simp: u256_def take_bit_int_eq_self_iff)

lemma u256_0 [simp]: "u256 0"
  by (simp add: u256_def)

lemma wf_state_length: "wf_state s \<Longrightarrow> length (words s) = WORD_COUNT"
  by (simp add: wf_state_def)

lemma wf_state_nth: "wf_state s \<Longrightarrow> i < WORD_COUNT \<Longrightarrow> u256 (words s ! i)"
  by (simp add: wf_state_def)

end
