(* ===== verification/Codec.thy ===== *)
theory Codec
  imports State_Types
begin

text \<open>
  \<open>packages/coretex/src/state/codec.ts\<close>: big-endian 256-bit words, the packing of a state
  into 32768 bytes, and the bit-field helpers; with the byte-string specification
  (\<open>be_bytes\<close>, \<open>be_val\<close>) that the loops implement and the round trips.
\<close>

section \<open>Implementation\<close>

fun write_be_loop :: "nat \<Rightarrow> bytes \<Rightarrow> nat \<Rightarrow> bigint \<Rightarrow> bytes" where
  "write_be_loop 0 out offset v = out"
| "write_be_loop (Suc b) out offset v =
     write_be_loop b (out[offset + b := word_of_int (v AND 0xff)]) offset (drop_bit 8 v)"

definition writeBigEndian32 :: "bytes \<Rightarrow> nat \<Rightarrow> bigint \<Rightarrow> bytes" where
  "writeBigEndian32 out offset value = write_be_loop 32 out offset (take_bit 256 value)"

definition readBigEndian32 :: "bytes \<Rightarrow> nat \<Rightarrow> bigint" where
  "readBigEndian32 bs offset =
     foldl (\<lambda>r b. push_bit 8 r OR uint (nth_or 0 bs (offset + b))) 0 [0..<32]"

definition PACKED_SIZE :: nat where
  "PACKED_SIZE = 32768"

definition pack :: "CortexState \<Rightarrow> bytes js" where
  "pack state =
     (if length (words state) \<noteq> WORD_COUNT then Inl (TypeError ''pack: expected 1024 words'')
      else Inr (foldl (\<lambda>out i. writeBigEndian32 out (i * 32) (nth_or 0 (words state) i))
             (replicate PACKED_SIZE 0) [0..<WORD_COUNT]))"

definition unpack :: "bytes \<Rightarrow> CortexState js" where
  "unpack bs =
     (if length bs \<noteq> PACKED_SIZE then Inl (RangeError ''unpack: expected 32768 bytes'')
      else Inr \<lparr>words = map (\<lambda>i. readBigEndian32 bs (i * 32)) [0..<WORD_COUNT]\<rparr>)"

text \<open>\<open>getField\<close> and \<open>setField\<close> at any two bit positions; a negative width shifts right.\<close>

definition field_mask :: "int \<Rightarrow> int \<Rightarrow> bigint" where
  "field_mask bitsHi bitsLo = js_shl 1 (bitsHi - bitsLo + 1) - 1"

definition getField :: "bigint \<Rightarrow> int \<Rightarrow> int \<Rightarrow> bigint" where
  "getField word bitsHi bitsLo = js_shr word bitsLo AND field_mask bitsHi bitsLo"

definition setField :: "bigint \<Rightarrow> int \<Rightarrow> int \<Rightarrow> bigint \<Rightarrow> bigint" where
  "setField word bitsHi bitsLo value =
     (let mask = field_mask bitsHi bitsLo; shift = bitsLo
      in (word AND NOT (js_shl mask shift)) OR js_shl (value AND mask) shift)"

section \<open>Big-endian byte strings\<close>

fun be_bytes :: "nat \<Rightarrow> bigint \<Rightarrow> bytes" where
  "be_bytes 0 v = []"
| "be_bytes (Suc n) v = be_bytes n (v div 256) @ [word_of_int v]"

definition be_val :: "bytes \<Rightarrow> bigint" where
  "be_val bs = foldl (\<lambda>r b. r * 256 + uint b) 0 bs"

lemma length_be_bytes [simp, len_simps]: "length (be_bytes n v) = n"
  by (induction n arbitrary: v) auto

lemma be_val_Nil [simp]: "be_val [] = 0"
  by (simp add: be_val_def)

lemma be_val_snoc [simp]: "be_val (bs @ [b]) = be_val bs * 256 + uint b"
  by (simp add: be_val_def)

lemma uint_u8: "0 \<le> uint (b :: u8)" "uint (b :: u8) < 256"
  using uint_lt2p [of b] by simp_all

lemma be_val_bounds: "0 \<le> be_val bs \<and> be_val bs < 256 ^ length bs"
proof (induction bs rule: rev_induct)
  case (snoc b bs)
  then show ?case using uint_u8 [of b] by simp
qed simp

lemma be_val_nonneg [simp]: "0 \<le> be_val bs"
  by (simp add: be_val_bounds)

lemma be_val_be_bytes: "be_val (be_bytes n v) = v mod 256 ^ n"
proof (induction n arbitrary: v)
  case (Suc n)
  have "v mod (256 ^ n * 256) = 256 * (v div 256 mod 256 ^ n) + v mod 256"
    using zmod_zmult2_eq [of "256 ^ n" v 256] by (simp add: mult.commute)
  then have "v mod 256 ^ Suc n = v div 256 mod 256 ^ n * 256 + v mod 256"
    by (simp only: power_Suc mult.commute)
  then show ?case by (simp add: Suc.IH unsigned_of_int take_bit_eq_mod)
qed simp

lemma be_bytes_be_val: "be_bytes (length bs) (be_val bs) = bs"
proof (induction bs rule: rev_induct)
  case (snoc b bs)
  have "(be_val bs * 256 + uint b) div 256 = be_val bs"
    using uint_u8 [of b] by simp
  moreover have "word_of_int (be_val bs * 256 + uint b) = b"
  proof -
    have "(word_of_int (be_val bs * 256 + uint b) :: u8) = word_of_int (uint b)"
      unfolding word_of_int_eq_iff by (simp add: take_bit_eq_mod)
    then show ?thesis by simp
  qed
  ultimately show ?case using snoc by simp
qed simp

lemma be_bytes_mod: "be_bytes n (v mod 256 ^ n) = be_bytes n v"
  using be_bytes_be_val [of "be_bytes n v"] by (simp add: be_val_be_bytes)

lemma be_val_inj: "length as = length bs \<Longrightarrow> be_val as = be_val bs \<Longrightarrow> as = bs"
  by (metis be_bytes_be_val)

section \<open>The loops compute them\<close>

lemma and_ff: "(v :: int) AND 0xff = v mod 256"
  using take_bit_eq_mask [of 8 v] by (simp add: take_bit_eq_mod mask_eq_exp_minus_1)

lemma byte_of_int_mod: "word_of_int (v mod 256) = (word_of_int v :: u8)"
  by (simp add: word_of_int_eq_iff take_bit_eq_mod)

lemma write_be_loop_eq:
  "offset + n \<le> length out \<Longrightarrow>
   write_be_loop n out offset v = take offset out @ be_bytes n v @ drop (offset + n) out"
proof (induction n arbitrary: out v)
  case (Suc n)
  have "write_be_loop (Suc n) out offset v
      = take offset out @ be_bytes n (v div 256) @ drop (offset + n) (out[offset + n := word_of_int v])"
    using Suc by (simp add: and_ff byte_of_int_mod drop_bit_eq_div)
  also have "drop (offset + n) (out[offset + n := word_of_int v]) = word_of_int v # drop (offset + Suc n) out"
    using Suc.prems by (simp add: drop_update_swap Cons_nth_drop_Suc [symmetric])
  finally show ?case by simp
qed simp

lemma be_bytes_take_bit: "be_bytes 32 (take_bit 256 v) = be_bytes 32 v"
  using be_bytes_mod [of 32 v] by (simp add: take_bit_eq_mod)

lemma writeBigEndian32_eq:
  "offset + 32 \<le> length out \<Longrightarrow>
   writeBigEndian32 out offset v = take offset out @ be_bytes 32 v @ drop (offset + 32) out"
  by (simp add: writeBigEndian32_def write_be_loop_eq be_bytes_take_bit)

lemma length_write_be_loop [simp, len_simps]: "length (write_be_loop n out offset v) = length out"
  by (induction n arbitrary: out v) auto

lemma length_writeBigEndian32 [simp, len_simps]: "length (writeBigEndian32 out offset v) = length out"
  by (simp add: writeBigEndian32_def)

lemma shift_or_byte: "push_bit 8 r OR uint (b :: u8) = r * 256 + uint b"
proof -
  have "push_bit 8 r + uint b = push_bit 8 r OR uint b"
    by (rule disjunctive_add) (auto simp: bit_push_bit_iff bit_uint_iff)
  then show ?thesis by (simp add: push_bit_eq_mult)
qed

lemma readBigEndian32_eq:
  assumes "offset + 32 \<le> length bs"
  shows "readBigEndian32 bs offset = be_val (take 32 (drop offset bs))"
proof -
  have "foldl (\<lambda>r b. push_bit 8 r OR uint (nth_or 0 bs (offset + b))) 0 [0..<n]
      = be_val (take n (drop offset bs))" if "n \<le> 32" for n
    using that
  proof (induction n)
    case (Suc n)
    then show ?case using assms by (simp add: shift_or_byte take_Suc_conv_app_nth)
  qed simp
  from this [of 32] show ?thesis by (simp add: readBigEndian32_def)
qed

lemma readBigEndian32_u256: "offset + 32 \<le> length bs \<Longrightarrow> u256 (readBigEndian32 bs offset)"
  using be_val_bounds [of "take 32 (drop offset bs)"] by (simp add: readBigEndian32_eq u256_def)

section \<open>Packing\<close>

lemma length_concat_be [simp]: "length (concat (map (be_bytes 32) ws)) = length ws * 32"
  by (induction ws) (simp_all del: be_bytes.simps)

lemma pack_loop:
  assumes "length ws = N" "n \<le> N"
  shows "foldl (\<lambda>out i. writeBigEndian32 out (i * 32) (nth_or 0 ws i)) (replicate (N * 32) 0) [0..<n]
     = concat (map (be_bytes 32) (take n ws)) @ replicate ((N - n) * 32) 0"
  using assms(2)
proof (induction n)
  case (Suc n)
  have "min (length ws) n = n" using Suc assms by simp
  then show ?case using Suc assms
    by (simp add: writeBigEndian32_eq take_Suc_conv_app_nth algebra_simps diff_mult_distrib del: be_bytes.simps)
qed simp

lemma pack_eq:
  "length (words s) = WORD_COUNT \<Longrightarrow> pack s = Inr (concat (map (be_bytes 32) (words s)))"
  using pack_loop [of "words s" WORD_COUNT WORD_COUNT] by (simp add: pack_def PACKED_SIZE_def)

lemma take_drop_concat_be:
  "i < length ws \<Longrightarrow> take 32 (drop (i * 32) (concat (map (be_bytes 32) ws))) = be_bytes 32 (ws ! i)"
proof (induction ws arbitrary: i)
  case (Cons w ws)
  then show ?case by (cases i) (simp_all del: be_bytes.simps add: drop_drop [symmetric] del: drop_drop)
qed simp


lemma unpack_concat_be:
  assumes "length ws = WORD_COUNT"
  shows "unpack (concat (map (be_bytes 32) ws)) = Inr \<lparr>words = map (take_bit 256) ws\<rparr>"
proof -
  have "readBigEndian32 (concat (map (be_bytes 32) ws)) (i * 32) = take_bit 256 (ws ! i)" if "i < WORD_COUNT" for i
    using that assms
    by (simp add: readBigEndian32_eq take_drop_concat_be be_val_be_bytes take_bit_eq_mod)
  then have "map (\<lambda>i. readBigEndian32 (concat (map (be_bytes 32) ws)) (i * 32)) [0..<WORD_COUNT] = map (take_bit 256) ws"
    using assms by (intro nth_equalityI) auto
  then show ?thesis using assms by (simp add: unpack_def PACKED_SIZE_def)
qed

lemma unpack_packed:
  assumes "wf_state s"
  shows "js_bind (pack s) unpack = Inr s"
proof -
  have "map (take_bit 256) (words s) = words s"
    using assms by (auto simp: wf_state_def u256_take_bit intro!: map_idI)
  then show ?thesis
    using assms by (simp add: wf_state_def pack_eq unpack_concat_be)
qed

lemma concat_be_chunks:
  assumes "length bs = n * 32"
  shows "concat (map (\<lambda>i. take 32 (drop (i * 32) bs)) [0..<n]) = bs"
proof -
  have "concat (map (\<lambda>i. take 32 (drop (i * 32) bs)) [0..<k]) = take (k * 32) bs" if "k \<le> n" for k
    using that
  proof (induction k)
    case (Suc k)
    then show ?case by (simp add: take_add add.commute [of 32])
  qed simp
  from this [of n] show ?thesis using assms by simp
qed

lemma pack_unpacked:
  assumes "length bs = PACKED_SIZE"
  shows "\<exists>s. unpack bs = Inr s \<and> wf_state s \<and> pack s = Inr bs"
proof -
  let ?ws = "map (\<lambda>i. readBigEndian32 bs (i * 32)) [0..<WORD_COUNT]"
  have len: "i * 32 + 32 \<le> length bs" if "i < WORD_COUNT" for i
    using that assms by (simp add: PACKED_SIZE_def)
  have "be_bytes 32 (readBigEndian32 bs (i * 32)) = take 32 (drop (i * 32) bs)" if "i < WORD_COUNT" for i
    using len [OF that] be_bytes_be_val [of "take 32 (drop (i * 32) bs)"] by (simp add: readBigEndian32_eq)
  then have "concat (map (be_bytes 32) ?ws) = concat (map (\<lambda>i. take 32 (drop (i * 32) bs)) [0..<WORD_COUNT])"
    by (intro arg_cong [where f = concat]) auto
  also have "\<dots> = bs" using assms by (intro concat_be_chunks) (simp add: PACKED_SIZE_def)
  finally have "pack \<lparr>words = ?ws\<rparr> = Inr bs" by (simp add: pack_eq)
  moreover have "wf_state \<lparr>words = ?ws\<rparr>"
    using len readBigEndian32_u256 by (auto simp: wf_state_def)
  ultimately show ?thesis using assms by (simp add: unpack_def)
qed

text \<open>Packing is a bijection between states and byte strings: for every state of 1024 256-bit words
  \<open>pack\<close> does not throw and \<open>unpack\<close> of its result is the state itself, and every byte
  string of the packed size is accepted by \<open>unpack\<close> as a well-formed state that packs to the same bytes.\<close>

lemma codec_bijection:
  assumes "wf_state s" "length bs = PACKED_SIZE"
  shows "js_bind (pack s) unpack = Inr s \<and> (\<exists>t. unpack bs = Inr t \<and> wf_state t \<and> pack t = Inr bs)"
  using unpack_packed [OF assms(1)] pack_unpacked [OF assms(2)] by blast

section \<open>Bit fields\<close>

lemma field_mask_eq: "lo \<le> hi + 1 \<Longrightarrow> field_mask hi lo = mask (nat (hi - lo + 1))"
  by (simp add: field_mask_def js_shl_def mask_eq_exp_minus_1 push_bit_eq_mult)

lemma u256_bit: "u256 w \<Longrightarrow> bit w n \<Longrightarrow> n < 256"
  unfolding u256_take_bit by (metis bit_take_bit_iff)

lemma bit_getField:
  assumes "0 \<le> lo" "lo \<le> hi"
  shows "bit (getField w hi lo) n \<longleftrightarrow> n \<le> nat (hi - lo) \<and> bit w (nat lo + n)"
  using assms js_shr_nat [of w "nat lo"]
  by (auto simp: getField_def field_mask_eq bit_and_iff bit_mask_iff bit_drop_bit_eq)

lemma bit_setField:
  assumes "0 \<le> lo" "lo \<le> hi"
  shows "bit (setField w hi lo v) n \<longleftrightarrow>
    (if nat lo \<le> n \<and> n \<le> nat hi then bit v (n - nat lo) else bit w n)"
  using assms js_shl_nat [of _ "nat lo"]
  by (auto simp: setField_def Let_def field_mask_eq bit_or_iff bit_and_iff bit_not_iff bit_mask_iff bit_push_bit_iff)

text \<open>\<open>setField\<close> writes its field and nothing else: reading the field back gives the
  value cut to the field's width, every disjoint field reads as before, and a 256-bit word
  stays one.\<close>

lemma setField_laws:
  assumes "0 \<le> lo" "lo \<le> hi" "hi < 256" "u256 w"
  shows "getField (setField w hi lo v) hi lo = v mod 2 ^ nat (hi - lo + 1) \<and>
    (\<forall>lo' hi'. 0 \<le> lo' \<and> lo' \<le> hi' \<and> (hi' < lo \<or> hi < lo') \<longrightarrow>
      getField (setField w hi lo v) hi' lo' = getField w hi' lo') \<and>
    u256 (setField w hi lo v) \<and> setField w hi lo (getField w hi lo) = w"
proof (intro conjI allI impI)
  show "getField (setField w hi lo v) hi lo = v mod 2 ^ nat (hi - lo + 1)"
    unfolding take_bit_eq_mod [symmetric]
    by (rule bit_eqI) (use assms in \<open>auto simp: bit_getField bit_setField bit_take_bit_iff\<close>)
  show "getField (setField w hi lo v) hi' lo' = getField w hi' lo'"
    if "0 \<le> lo' \<and> lo' \<le> hi' \<and> (hi' < lo \<or> hi < lo')" for lo' hi'
    by (rule bit_eqI) (use assms that in \<open>auto simp: bit_getField bit_setField\<close>)
  have "bit (setField w hi lo v) n \<Longrightarrow> n < 256" for n
    using u256_bit [OF assms(4), of n] assms(1-3) by (auto simp: bit_setField split: if_splits)
  then show "u256 (setField w hi lo v)"
    unfolding u256_take_bit bit_eq_iff by (auto simp: bit_take_bit_iff)
  show "setField w hi lo (getField w hi lo) = w"
    by (rule bit_eqI) (use assms in \<open>auto simp: bit_getField bit_setField\<close>)
qed

end
