(* ===== verification/Keccak.thy ===== *)
theory Keccak
  imports Prelude
begin

text \<open>
  The hash of \<open>packages/coretex/src/state/keccak256.ts\<close>: Keccak-256 over two arrays of
  32-bit halves, driven by the tables \<open>RC\<close>, \<open>RHO\<close> and \<open>PI\<close>.
\<close>

section \<open>The implementation\<close>

type_synonym halves = "u32 list \<times> u32 list" \<comment> \<open>\<open>stateHi\<close>, \<open>stateLo\<close>\<close>

definition RC :: "(u32 \<times> u32) list" where
  "RC = [
    (0x00000000, 0x00000001), (0x00000000, 0x00008082),
    (0x80000000, 0x0000808A), (0x80000000, 0x80008000),
    (0x00000000, 0x0000808B), (0x00000000, 0x80000001),
    (0x80000000, 0x80008081), (0x80000000, 0x00008009),
    (0x00000000, 0x0000008A), (0x00000000, 0x00000088),
    (0x00000000, 0x80008009), (0x00000000, 0x8000000A),
    (0x00000000, 0x8000808B), (0x80000000, 0x0000008B),
    (0x80000000, 0x00008089), (0x80000000, 0x00008003),
    (0x80000000, 0x00008002), (0x80000000, 0x00000080),
    (0x00000000, 0x0000800A), (0x80000000, 0x8000000A),
    (0x80000000, 0x80008081), (0x80000000, 0x00008080),
    (0x00000000, 0x80000001), (0x80000000, 0x80008008)]"

definition RHO :: "nat list" where
  "RHO = [
    0, 1, 62, 28, 27,
    36, 44, 6, 55, 20,
    3, 10, 43, 25, 39,
    41, 45, 15, 21, 8,
    18, 2, 61, 56, 14]"

definition PI :: "nat list" where
  "PI = [
    0, 10, 20, 5, 15,
    16, 1, 11, 21, 6,
    7, 17, 2, 12, 22,
    23, 8, 18, 3, 13,
    14, 24, 9, 19, 4]"

definition rot64 :: "u32 \<Rightarrow> u32 \<Rightarrow> nat \<Rightarrow> u32 \<times> u32" where
  "rot64 hi lo n0 =
     (let n = (n0 mod 64 + 64) mod 64 in
      if n = 0 then (hi, lo)
      else if n = 32 then (lo, hi)
      else if n < 32 then
        (push_bit n hi OR drop_bit (32 - n) lo,
         push_bit n lo OR drop_bit (32 - n) hi)
      else let n = n - 32 in
        (push_bit n lo OR drop_bit (32 - n) hi,
         push_bit n hi OR drop_bit (32 - n) lo))"

text \<open>Theta: the column parities \<open>BC\<close>, then each lane XORed with its column's correction.\<close>

definition theta_parity :: "u32 list \<Rightarrow> nat \<Rightarrow> u32" where
  "theta_parity s x = foldl (\<lambda>h y. h XOR s ! (x + 5 * y)) 0 [0..<5]"

definition theta_d :: "u32 list \<Rightarrow> u32 list \<Rightarrow> nat \<Rightarrow> u32 \<times> u32" where
  "theta_d BC_hi BC_lo x =
     (case rot64 (BC_hi ! ((x + 1) mod 5)) (BC_lo ! ((x + 1) mod 5)) 1 of (rh, rl) \<Rightarrow>
       (BC_hi ! ((x + 4) mod 5) XOR rh, BC_lo ! ((x + 4) mod 5) XOR rl))"

definition theta :: "halves \<Rightarrow> halves" where
  "theta s = (case s of (hi, lo) \<Rightarrow>
     let BC_hi = map (theta_parity hi) [0..<5];
         BC_lo = map (theta_parity lo) [0..<5]
     in (map (\<lambda>i. hi ! i XOR fst (theta_d BC_hi BC_lo (i mod 5))) [0..<25],
         map (\<lambda>i. lo ! i XOR snd (theta_d BC_hi BC_lo (i mod 5))) [0..<25]))"

text \<open>Rho and Pi combined: lane \<open>i\<close>, rotated, is stored at \<open>PI[i]\<close> of fresh arrays.\<close>

definition rho_pi :: "halves \<Rightarrow> halves" where
  "rho_pi s = (case s of (hi, lo) \<Rightarrow>
     foldl (\<lambda>(tmpHi, tmpLo) i.
        let (rh, rl) = rot64 (hi ! i) (lo ! i) (RHO ! i)
        in (tmpHi[PI ! i := rh], tmpLo[PI ! i := rl]))
       (replicate 25 0, replicate 25 0) [0..<25])"

definition chi_lane :: "u32 list \<Rightarrow> nat \<Rightarrow> u32" where
  "chi_lane tmp i = (let x = i mod 5; y = i div 5 in
     tmp ! i XOR (NOT (tmp ! ((x + 1) mod 5 + 5 * y)) AND tmp ! ((x + 2) mod 5 + 5 * y)))"

definition chi :: "halves \<Rightarrow> halves" where
  "chi s = (case s of (tmpHi, tmpLo) \<Rightarrow>
     (map (chi_lane tmpHi) [0..<25], map (chi_lane tmpLo) [0..<25]))"

definition iota :: "nat \<Rightarrow> halves \<Rightarrow> halves" where
  "iota round s = (case s of (hi, lo) \<Rightarrow>
     (hi[0 := hi ! 0 XOR fst (RC ! round)], lo[0 := lo ! 0 XOR snd (RC ! round)]))"

definition keccakF1600 :: "halves \<Rightarrow> halves" where
  "keccakF1600 s = foldl (\<lambda>s round. iota round (chi (rho_pi (theta s)))) s [0..<24]"

text \<open>XOR a block into the state, lane by lane (each lane is eight bytes, little-endian).\<close>

definition le_half :: "bytes \<Rightarrow> nat \<Rightarrow> u32" where
  "le_half dat base = foldl (\<lambda>w b. w OR push_bit (b * 8) (ucast (nth_or 0 dat (base + b)))) 0 [0..<4]"

definition absorbBlock :: "halves \<Rightarrow> bytes \<Rightarrow> nat \<Rightarrow> nat \<Rightarrow> halves" where
  "absorbBlock s dat offset rate =
     foldl (\<lambda>(hi, lo) i. let base = offset + i * 8 in
        (hi[i := hi ! i XOR le_half dat (base + 4)], lo[i := lo ! i XOR le_half dat base]))
       s [0..<rate div 8]"

function absorb_loop :: "halves \<Rightarrow> bytes \<Rightarrow> nat \<Rightarrow> halves \<times> nat" where
  "absorb_loop s dat offset =
     (if offset + 136 \<le> length dat
      then absorb_loop (keccakF1600 (absorbBlock s dat offset 136)) dat (offset + 136)
      else (s, offset))"
  by pat_completeness auto
termination
  by (relation "measure (\<lambda>(s, dat, offset). length dat - offset)") auto

declare absorb_loop.simps [simp del]

definition last_block :: "bytes \<Rightarrow> nat \<Rightarrow> bytes" where
  "last_block dat offset =
     (let last = drop offset dat @ replicate (136 - (length dat - offset)) 0;
          last = last[length dat - offset := 1]
      in last[135 := last ! 135 OR 0x80])"

definition squeeze_lane :: "u32 \<Rightarrow> u32 \<Rightarrow> bytes" where
  "squeeze_lane hi lo =
     [ucast (lo AND 255), ucast (drop_bit 8 lo AND 255),
      ucast (drop_bit 16 lo AND 255), ucast (drop_bit 24 lo AND 255),
      ucast (hi AND 255), ucast (drop_bit 8 hi AND 255),
      ucast (drop_bit 16 hi AND 255), ucast (drop_bit 24 hi AND 255)]"

definition keccak256 :: "bytes \<Rightarrow> bytes" where
  "keccak256 dat =
     (case absorb_loop (replicate 25 0, replicate 25 0) dat 0 of (s, offset) \<Rightarrow>
      case keccakF1600 (absorbBlock s (last_block dat offset) 0 136) of (hi, lo) \<Rightarrow>
      concat (map (\<lambda>i. squeeze_lane (hi ! i) (lo ! i)) [0..<4]))"

lemma length_keccak256 [simp, len_simps]: "length (keccak256 dat) = 32"
  by (simp add: keccak256_def squeeze_lane_def upt_rec split: prod.splits)

end
