(* ===== verification/Merkle.thy ===== *)
theory Merkle
  imports Codec Keccak
begin

text \<open>
  \<open>packages/coretex/src/state/merkle.ts\<close>: the position-indexed Merkle tree over the 1024
  words, its cache of levels, the incremental update of the cache, and the hex helpers.
  The main result is that an incremental update of the cache of a state is the cache of the
  updated state; the second that a root determines the state unless the hash collides.

  A cache holds 32-byte nodes, level \<open>d\<close> has \<open>1024 / 2 ^ d\<close> of them; the two halves of the
  64-byte pair buffer are then overwritten completely before each hash, so the buffer is the
  concatenation of the two children.
\<close>

section \<open>Implementation\<close>

record MerkleTreeCache =
  levels :: "bytes list list"
  root :: bytes

record MerkleWordUpdate =
  index :: int
  word :: bigint

definition leaf_hash :: "bigint \<Rightarrow> bytes" where
  "leaf_hash w = keccak256 (writeBigEndian32 (replicate 32 0) 0 w)"

definition node_hash :: "bytes list \<Rightarrow> nat \<Rightarrow> bytes" where
  "node_hash level i = keccak256 (level ! (i * 2) @ level ! (i * 2 + 1))"

definition next_level :: "bytes list \<Rightarrow> bytes list" where
  "next_level level = map (node_hash level) [0..<length level div 2]"

function build_levels :: "bytes list \<Rightarrow> bytes list list" where
  "build_levels level =
     level # (if 1 < length level then build_levels (next_level level) else [])"
  by pat_completeness auto
termination
  by (relation "measure length") (auto simp: next_level_def)

declare build_levels.simps [simp del]

definition buildMerkleCache :: "CortexState \<Rightarrow> MerkleTreeCache js" where
  "buildMerkleCache state =
     (if length (words state) \<noteq> WORD_COUNT then Inl (TypeError ''buildMerkleCache: expected 1024 words'')
      else let lv = build_levels (map (\<lambda>i. leaf_hash (nth_or 0 (words state) i)) [0..<WORD_COUNT])
           in Inr \<lparr>levels = lv, root = last lv ! 0\<rparr>)"

definition merkleizeState :: "CortexState \<Rightarrow> bytes js" where
  "merkleizeState state = js_bind (buildMerkleCache state) (\<lambda>c. Inr (root c))"

fun dedup_updates :: "MerkleWordUpdate list \<Rightarrow> (int \<times> bigint) list \<Rightarrow> (int \<times> bigint) list js" where
  "dedup_updates [] deduped = Inr deduped"
| "dedup_updates (u # us) deduped =
     (if index u < 0 \<or> index u \<ge> WORD_COUNT then Inl (RangeError ''updateMerkleCache: index out of range'')
      else dedup_updates us (AList.update (index u) (word u) deduped))"

fun update_levels :: "nat list \<Rightarrow> bytes list \<Rightarrow> bytes list list \<Rightarrow> bytes list list" where
  "update_levels dirty currentLevel [] = [currentLevel]"
| "update_levels dirty currentLevel (nextLevel # rest) =
     (let parents = foldl (\<lambda>s childIndex. js_set_add s (childIndex div 2)) [] dirty;
          nextLevel = foldl (\<lambda>l parentIndex. l[parentIndex := node_hash currentLevel parentIndex]) nextLevel parents
      in currentLevel # update_levels parents nextLevel rest)"

definition updateMerkleCache :: "MerkleTreeCache \<Rightarrow> MerkleWordUpdate list \<Rightarrow> MerkleTreeCache js" where
  "updateMerkleCache cache updates =
     (if length (levels cache) \<noteq> 11 \<or> length (levels cache ! 0) \<noteq> WORD_COUNT
      then Inl (TypeError ''updateMerkleCache: invalid cache shape'')
      else if updates = [] then Inr cache
      else js_bind (dedup_updates updates []) (\<lambda>deduped.
        let level0 = foldl (\<lambda>l (i, w). l[nat i := leaf_hash w]) (levels cache ! 0) deduped;
            dirty0 = foldl (\<lambda>s (i, w). js_set_add s (nat i)) [] deduped;
            lv = update_levels dirty0 level0 (tl (levels cache))
        in Inr \<lparr>levels = lv, root = last lv ! 0\<rparr>))"

section \<open>Incremental update is a rebuild\<close>

lemma build_levels_rec:
  "1 < length level \<Longrightarrow> build_levels level = level # build_levels (next_level level)"
  by (simp add: build_levels.simps [of level])

lemma build_levels_leaf: "length level \<le> 1 \<Longrightarrow> build_levels level = [level]"
  by (simp add: build_levels.simps [of level])

lemma build_levels_not_Nil [simp]: "build_levels level \<noteq> []"
  by (subst build_levels.simps) simp

lemma hd_build_levels [simp]: "build_levels level ! 0 = level"
  by (subst build_levels.simps) simp

lemma length_next_level [simp, len_simps]: "length (next_level level) = length level div 2"
  by (simp add: next_level_def)

lemma length_build_levels: "length level = 2 ^ k \<Longrightarrow> length (build_levels level) = Suc k"
proof (induction k arbitrary: level)
  case (Suc k)
  then have "1 < length level" using one_less_power [of "2::nat" "Suc k"] by simp
  then show ?case using Suc by (simp add: build_levels_rec)
qed (simp add: build_levels_leaf)

lemma foldl_update_length [simp]: "length (foldl (\<lambda>l p. l[f p := g p]) xs ps) = length xs"
  by (induction ps arbitrary: xs) auto

lemma foldl_update_nth:
  assumes "i < length xs"
  shows "foldl (\<lambda>l p. l[p := g p]) xs ps ! i = (if i \<in> set ps then g i else xs ! i)"
  using assms by (induction ps arbitrary: xs) (auto simp: nth_list_update)

text \<open>If outside \<open>dirty\<close> the level is unchanged, recomputing the parents of \<open>dirty\<close> yields the
  next level.\<close>

lemma refresh_parents:
  assumes "length new = length old" "even (length old)"
    and "\<And>i. i < length old \<Longrightarrow> i \<notin> set dirty \<Longrightarrow> new ! i = old ! i"
    and "set parents = (\<lambda>c. c div 2) ` set dirty"
  shows "foldl (\<lambda>l p. l[p := node_hash new p]) (next_level old) parents = next_level new"
proof (rule nth_equalityI)
  fix i assume "i < length (foldl (\<lambda>l p. l[p := node_hash new p]) (next_level old) parents)"
  then have i: "i < length old div 2" by simp
  show "foldl (\<lambda>l p. l[p := node_hash new p]) (next_level old) parents ! i = next_level new ! i"
  proof (cases "i \<in> set parents")
    case True
    then show ?thesis using i assms(1) by (simp add: foldl_update_nth next_level_def)
  next
    case False
    then have "i * 2 \<notin> set dirty" "i * 2 + 1 \<notin> set dirty"
      using assms(4) by (force simp: image_iff)+
    then have "node_hash new i = node_hash old i"
      using i assms(3) [of "i * 2"] assms(3) [of "i * 2 + 1"] by (simp add: node_hash_def)
    then show ?thesis using False i assms(1) by (simp add: foldl_update_nth next_level_def)
  qed
qed (simp add: assms(1))

lemma update_levels_eq:
  assumes "length new = 2 ^ k" "length old = 2 ^ k"
    and "\<And>i. i < 2 ^ k \<Longrightarrow> i \<notin> set dirty \<Longrightarrow> new ! i = old ! i"
  shows "update_levels dirty new (tl (build_levels old)) = build_levels new"
  using assms
proof (induction k arbitrary: new old dirty)
  case 0
  then show ?case by (simp add: build_levels_leaf)
next
  case (Suc k)
  let ?parents = "foldl (\<lambda>s c. js_set_add s (c div 2)) [] dirty"
  have len: "1 < length old" "1 < length new"
    using one_less_power [of "2::nat" "Suc k"] Suc.prems by simp_all
  have next_new: "foldl (\<lambda>l p. l[p := node_hash new p]) (next_level old) ?parents = next_level new"
    by (rule refresh_parents [where dirty = dirty]) (use Suc.prems in auto)
  have "next_level new ! i = next_level old ! i" if "i < 2 ^ k" "i \<notin> set ?parents" for i
    using that Suc.prems next_new
      foldl_update_nth [of i "next_level old" "node_hash new" ?parents] by simp
  then have "update_levels ?parents (next_level new) (tl (build_levels (next_level old))) = build_levels (next_level new)"
    using Suc.prems by (intro Suc.IH) simp_all
  then have "update_levels dirty new (next_level old # tl (build_levels (next_level old))) = build_levels new"
    using len next_new by (simp add: build_levels_rec Let_def)
  moreover have "tl (build_levels old) = next_level old # tl (build_levels (next_level old))"
    using len by (simp add: build_levels_rec) (metis build_levels.simps list.sel(3))
  ultimately show ?case by simp
qed

definition apply_updates :: "bigint list \<Rightarrow> MerkleWordUpdate list \<Rightarrow> bigint list" where
  "apply_updates ws us = foldl (\<lambda>ws u. ws[nat (index u) := word u]) ws us"

lemma length_apply_updates [simp, len_simps]: "length (apply_updates ws us) = length ws"
  unfolding apply_updates_def by (induction us arbitrary: ws) auto

text \<open>The deduplicated map, laid over the old words, is the sequence of updates applied in order.\<close>

definition overlay :: "(int \<times> bigint) list \<Rightarrow> bigint list \<Rightarrow> bigint list" where
  "overlay d ws = map (\<lambda>i. case map_of d (int i) of None \<Rightarrow> ws ! i | Some w \<Rightarrow> w) [0..<length ws]"

lemma length_overlay [simp]: "length (overlay d ws) = length ws"
  by (simp add: overlay_def)

lemma overlay_update: "0 \<le> k \<Longrightarrow> overlay (AList.update k v d) ws = (overlay d ws)[nat k := v]"
  by (rule nth_equalityI) (auto simp: overlay_def update_conv nth_list_update)

definition valid_updates :: "MerkleWordUpdate list \<Rightarrow> bool" where
  "valid_updates us \<longleftrightarrow> list_all (\<lambda>u. 0 \<le> index u \<and> index u < WORD_COUNT) us"

lemma dedup_updates_result:
  "valid_updates us \<Longrightarrow> \<exists>d'. dedup_updates us d = Inr d' \<and>
     overlay d' ws = apply_updates (overlay d ws) us \<and>
     (distinct (map fst d) \<and> fst ` set d \<subseteq> {0..<WORD_COUNT} \<longrightarrow>
      distinct (map fst d') \<and> fst ` set d' \<subseteq> {0..<WORD_COUNT})"
proof (induction us arbitrary: d)
  case (Cons u us)
  then have u: "0 \<le> index u" "index u < WORD_COUNT" and "valid_updates us"
    by (simp_all add: valid_updates_def)
  then show ?case
    using Cons.IH [of "AList.update (index u) (word u) d"]
    by (auto simp: overlay_update apply_updates_def distinct_update dom_update subset_iff)
qed (simp add: apply_updates_def)

lemma dedup_updates_error:
  "\<not> valid_updates us \<Longrightarrow> dedup_updates us d = Inl (RangeError ''updateMerkleCache: index out of range'')"
  by (induction us arbitrary: d) (auto simp: valid_updates_def)

lemma leaves_update:
  assumes "distinct (map fst d)" "fst ` set d \<subseteq> {0..<int (length ws)}"
  shows "foldl (\<lambda>l (i, w). l[nat i := leaf_hash w]) (map leaf_hash ws) d = map leaf_hash (overlay d ws)"
  using assms
proof (induction d rule: rev_induct)
  case Nil
  show ?case by (simp add: overlay_def map_nth)
next
  case (snoc kw d)
  obtain k w where kw: "kw = (k, w)" by fastforce
  with snoc.prems have "map_of d k = None" by (force simp: map_of_eq_None_iff)
  then have "overlay (d @ [kw]) ws = overlay (AList.update k w d) ws"
    by (auto simp: overlay_def update_conv kw map_add_def split: option.split)
  then show ?case using snoc by (simp add: kw overlay_update map_update)
qed

lemma set_dirty: "set (foldl (\<lambda>s (i, w). js_set_add s (nat i)) s d) = set s \<union> nat ` fst ` set d"
  by (induction d arbitrary: s) auto

lemma overlay_nth_None:
  "i < length ws \<Longrightarrow> int i \<notin> fst ` set d \<Longrightarrow> overlay d ws ! i = ws ! i"
  by (auto simp: overlay_def split: option.split dest: map_of_SomeD) (metis image_eqI fst_conv map_of_SomeD)

lemma buildMerkleCache_eq:
  assumes "length (words s) = WORD_COUNT"
  shows "buildMerkleCache s = (let lv = build_levels (map leaf_hash (words s)) in Inr \<lparr>levels = lv, root = last lv ! 0\<rparr>)"
proof -
  have "map (\<lambda>i. leaf_hash (nth_or 0 (words s) i)) [0..<WORD_COUNT] = map leaf_hash (words s)"
    using assms by (intro nth_equalityI) auto
  then show ?thesis by (simp add: buildMerkleCache_def assms)
qed

lemma buildMerkleCache_Inr:
  "buildMerkleCache s = Inr c \<Longrightarrow> length (words s) = WORD_COUNT \<and>
     levels c = build_levels (map leaf_hash (words s)) \<and> root c = last (levels c) ! 0"
  by (cases "length (words s) = WORD_COUNT")
     (auto simp: buildMerkleCache_eq Let_def, simp add: buildMerkleCache_def)

lemma update_is_rebuild:
  assumes "buildMerkleCache s = Inr c"
  shows "updateMerkleCache c us =
    (if valid_updates us then buildMerkleCache (s\<lparr>words := apply_updates (words s) us\<rparr>)
     else Inl (RangeError ''updateMerkleCache: index out of range''))"
proof -
  let ?leaves = "map leaf_hash (words s)"
  have len: "length (words s) = WORD_COUNT" and lv: "levels c = build_levels ?leaves"
    and rt: "root c = last (levels c) ! 0"
    using buildMerkleCache_Inr [OF assms] by simp_all
  have len2: "length ?leaves = 2 ^ 10" using len by simp
  note shape = length_build_levels [OF len2]
  show ?thesis
  proof (cases "us = [] \<or> \<not> valid_updates us")
    case True
    then show ?thesis
      using len lv shape assms by (auto simp: updateMerkleCache_def apply_updates_def dedup_updates_error valid_updates_def)
  next
    case False
    then obtain d where d: "dedup_updates us [] = Inr d" "overlay d (words s) = apply_updates (words s) us"
      "distinct (map fst d)" "fst ` set d \<subseteq> {0..<WORD_COUNT}"
      using dedup_updates_result [of us "[]" "words s"] by (auto simp: overlay_def map_nth)
    have leaves: "foldl (\<lambda>l (i, w). l[nat i := leaf_hash w]) ?leaves d = map leaf_hash (apply_updates (words s) us)"
      using leaves_update [OF d(3)] d(2,4) len by simp
    have "update_levels (foldl (\<lambda>s (i, w). js_set_add s (nat i)) [] d) (map leaf_hash (overlay d (words s)))
        (tl (build_levels ?leaves)) = build_levels (map leaf_hash (overlay d (words s)))"
    proof (rule update_levels_eq [where k = 10])
      fix i :: nat assume "i < 2 ^ 10" "i \<notin> set (foldl (\<lambda>s (i, w). js_set_add s (nat i)) [] d)"
      then show "map leaf_hash (overlay d (words s)) ! i = ?leaves ! i"
        using len overlay_nth_None [of i "words s" d] by (force simp: set_dirty)
    qed (simp_all add: len)
    then show ?thesis
      using False len lv shape d(1) by (simp add: updateMerkleCache_def leaves d(2) buildMerkleCache_eq Let_def)
  qed
qed

text \<open>C16. The incremental Merkle update is a full rebuild: started from the cache of a state,
  \<open>updateMerkleCache\<close> returns, level by level and root included, the cache that
  \<open>buildMerkleCache\<close> builds for the state with the updates applied in order; it throws exactly
  when some index is out of range.\<close>

theorem updateMerkleCache_rebuild:
  assumes "buildMerkleCache s = Inr c"
  shows "updateMerkleCache c us =
    (if valid_updates us then buildMerkleCache (s\<lparr>words := apply_updates (words s) us\<rparr>)
     else Inl (RangeError ''updateMerkleCache: index out of range''))"
  using assms by (rule update_is_rebuild)

theorem updateMerkleCache_rebuild_witness:
  "\<exists>c. buildMerkleCache \<lparr>words = replicate 1024 0\<rparr> = Inr c \<and>
     updateMerkleCache c [\<lparr>index = 3, word = 7\<rparr>, \<lparr>index = 3, word = 9\<rparr>]
       = buildMerkleCache \<lparr>words = (replicate 1024 0)[3 := 9]\<rparr>"
proof -
  obtain c where c: "buildMerkleCache \<lparr>words = replicate 1024 0\<rparr> = Inr c"
    by (simp add: buildMerkleCache_def Let_def)
  from updateMerkleCache_rebuild [OF c, of "[\<lparr>index = 3, word = 7\<rparr>, \<lparr>index = 3, word = 9\<rparr>]"] c
  show ?thesis by (auto simp: valid_updates_def apply_updates_def)
qed

section \<open>A root binds the state\<close>

text \<open>The byte strings that \<open>merkleizeState\<close> hashes: the packed words, then the pairs of every
  level.\<close>

definition pair_inputs :: "bytes list \<Rightarrow> bytes list" where
  "pair_inputs level = map (\<lambda>i. level ! (i * 2) @ level ! (i * 2 + 1)) [0..<length level div 2]"

definition hash_inputs :: "CortexState \<Rightarrow> bytes list" where
  "hash_inputs s = map (be_bytes 32) (words s) @
     concat (map pair_inputs (build_levels (map leaf_hash (words s))))"

definition collision_between :: "bytes list \<Rightarrow> bytes list \<Rightarrow> bool" where
  "collision_between xs ys \<longleftrightarrow> list_ex (\<lambda>x. list_ex (\<lambda>y. x \<noteq> y \<and> keccak256 x = keccak256 y) ys) xs"

lemma collision_betweenI:
  "x \<in> set xs \<Longrightarrow> y \<in> set ys \<Longrightarrow> x \<noteq> y \<Longrightarrow> keccak256 x = keccak256 y \<Longrightarrow> collision_between xs ys"
  by (auto simp: collision_between_def list_ex_iff)

lemma collision_between_append:
  "collision_between xs ys \<Longrightarrow> collision_between (xs @ xs') (ys @ ys')"
  "collision_between xs' ys' \<Longrightarrow> collision_between (xs @ xs') (ys @ ys')"
  unfolding collision_between_def list_ex_iff by auto

lemma next_level_inputs: "next_level level = map keccak256 (pair_inputs level)"
  by (simp add: next_level_def pair_inputs_def node_hash_def)

lemma length_leaf_hash [simp, len_simps]: "length (leaf_hash w) = 32"
  by (simp add: leaf_hash_def)

lemma leaf_hash_eq: "leaf_hash w = keccak256 (be_bytes 32 w)"
  by (simp add: leaf_hash_def writeBigEndian32_eq)

lemma keccak_maps_collide:
  assumes "map keccak256 xs = map keccak256 ys"
  shows "xs = ys \<or> collision_between xs ys"
proof (rule disjCI)
  assume "\<not> collision_between xs ys"
  then have "xs ! i = ys ! i" if "i < length xs" for i
    using that map_eq_imp_length_eq [OF assms] arg_cong [OF assms, of "\<lambda>l. l ! i"]
      collision_betweenI [of "xs ! i" xs "ys ! i" ys] by auto
  then show "xs = ys" using map_eq_imp_length_eq [OF assms] by (simp add: list_eq_iff_nth_eq)
qed

lemma pair_inputs_inj:
  assumes "pair_inputs a = pair_inputs b" "length a = length b" "even (length a)"
    and "\<forall>x\<in>set a. length x = 32" "\<forall>x\<in>set b. length x = 32"
  shows "a = b"
proof (rule nth_equalityI)
  fix i assume i: "i < length a"
  then have "i div 2 < length a div 2" using assms(3) by auto
  with arg_cong [OF assms(1), of "\<lambda>l. l ! (i div 2)"]
  have eq: "a ! (i div 2 * 2) @ a ! (i div 2 * 2 + 1) = b ! (i div 2 * 2) @ b ! (i div 2 * 2 + 1)"
    using assms(2) by (simp add: pair_inputs_def)
  have "i div 2 * 2 < length a" using i by linarith
  then have "a ! (i div 2 * 2) = b ! (i div 2 * 2)" "a ! (i div 2 * 2 + 1) = b ! (i div 2 * 2 + 1)"
    using eq assms(2,4,5) by (simp_all add: append_eq_append_conv)
  then show "a ! i = b ! i" by (cases "even i") (auto elim!: oddE simp: mult.commute)
qed (rule assms(2))

lemma root_binds_level:
  assumes "length a = 2 ^ k" "length b = 2 ^ k"
    and "\<forall>x\<in>set a. length x = 32" "\<forall>x\<in>set b. length x = 32"
    and "last (build_levels a) ! 0 = last (build_levels b) ! 0"
  shows "a = b \<or> collision_between (concat (map pair_inputs (build_levels a))) (concat (map pair_inputs (build_levels b)))"
  using assms
proof (induction k arbitrary: a b)
  case 0
  then show ?case by (auto simp: build_levels_leaf length_Suc_conv)
next
  case (Suc k)
  have len: "1 < length a" "1 < length b"
    using one_less_power [of "2::nat" "Suc k"] Suc.prems by simp_all
  note rec = build_levels_rec [OF len(1)] build_levels_rec [OF len(2)]
  have "next_level a = next_level b \<or>
      collision_between (concat (map pair_inputs (build_levels (next_level a)))) (concat (map pair_inputs (build_levels (next_level b))))"
    by (rule Suc.IH) (use Suc.prems rec in \<open>auto simp: next_level_inputs pair_inputs_def\<close>)
  then show ?case
  proof
    assume "next_level a = next_level b"
    then have "pair_inputs a = pair_inputs b \<or> collision_between (pair_inputs a) (pair_inputs b)"
      by (intro keccak_maps_collide) (simp add: next_level_inputs)
    then show ?thesis
      using Suc.prems pair_inputs_inj [of a b] collision_between_append(1) by (auto simp: rec)
  qed (use collision_between_append(2) in \<open>auto simp: rec\<close>)
qed

lemma merkleizeState_eq:
  "length (words s) = WORD_COUNT \<Longrightarrow> merkleizeState s = Inr (last (build_levels (map leaf_hash (words s))) ! 0)"
  by (simp add: merkleizeState_def buildMerkleCache_eq Let_def)

lemma state_root_binds:
  assumes "wf_state s" "wf_state t" "merkleizeState s = merkleizeState t"
  shows "s = t \<or> collision_between (hash_inputs s) (hash_inputs t)"
proof -
  have len: "length (words s) = WORD_COUNT" "length (words t) = WORD_COUNT"
    using assms(1,2) by (simp_all add: wf_state_def)
  let ?a = "map leaf_hash (words s)" and ?b = "map leaf_hash (words t)"
  have "?a = ?b \<or> collision_between (concat (map pair_inputs (build_levels ?a))) (concat (map pair_inputs (build_levels ?b)))"
    by (rule root_binds_level [where k = 10]) (use len assms(3) in \<open>auto simp: merkleizeState_eq\<close>)
  then show ?thesis
  proof
    assume "?a = ?b"
    then have "map (be_bytes 32) (words s) = map (be_bytes 32) (words t) \<or>
        collision_between (map (be_bytes 32) (words s)) (map (be_bytes 32) (words t))"
      by (intro keccak_maps_collide) (simp add: leaf_hash_eq [abs_def] comp_def)
    moreover have "s = t" if eq: "map (be_bytes 32) (words s) = map (be_bytes 32) (words t)"
    proof -
      have "js_bind (pack s) unpack = js_bind (pack t) unpack" using eq len by (simp add: pack_eq)
      then show ?thesis
          using unpack_packed [of s] unpack_packed [of t] assms(1,2) by simp
    qed
    ultimately show ?thesis using collision_between_append(1) by (auto simp: hash_inputs_def)
  qed (use collision_between_append(2) in \<open>auto simp: hash_inputs_def\<close>)
qed



section \<open>Hex strings\<close>

definition hex_digit :: "nat \<Rightarrow> char" where
  "hex_digit n = ''0123456789abcdef'' ! n"

definition byte_hex :: "u8 \<Rightarrow> string" where
  "byte_hex b = [hex_digit (unat b div 16), hex_digit (unat b mod 16)]"

definition bytesToHex :: "bytes \<Rightarrow> string" where
  "bytesToHex bs = foldl (\<lambda>hex b. hex @ byte_hex b) ''0x'' bs"

definition hex_value :: "char \<Rightarrow> nat option" where
  "hex_value c = (let n = of_char c in
     if 48 \<le> n \<and> n \<le> 57 then Some (n - 48)
     else if 97 \<le> n \<and> n \<le> 102 then Some (n - 87)
     else if 65 \<le> n \<and> n \<le> 70 then Some (n - 55)
     else None)"

definition js_space :: "char \<Rightarrow> bool" where
  "js_space c = (let n = of_char c :: nat in 9 \<le> n \<and> n \<le> 13 \<or> n = 32 \<or> n = 160)"

fun hex_prefix :: "nat option \<Rightarrow> string \<Rightarrow> nat option" where
  "hex_prefix acc [] = acc"
| "hex_prefix acc (c # cs) = (case hex_value c of
      None \<Rightarrow> acc
    | Some v \<Rightarrow> hex_prefix (Some ((case acc of None \<Rightarrow> 0 | Some a \<Rightarrow> a) * 16 + v)) cs)"

text \<open>\<open>parseInt(s, 16)\<close>: white space, a sign, an optional \<open>0x\<close>, then the longest run of digits;
  \<open>None\<close> is \<open>NaN\<close>, which a typed array stores as zero.\<close>

definition parseInt16 :: "string \<Rightarrow> int option" where
  "parseInt16 s =
     (let s = dropWhile js_space s;
          neg = (s \<noteq> [] \<and> hd s = CHR ''-'');
          s = (if s \<noteq> [] \<and> (hd s = CHR ''-'' \<or> hd s = CHR ''+'') then tl s else s);
          s = (if take 2 s = ''0x'' \<or> take 2 s = ''0X'' then drop 2 s else s)
      in map_option (\<lambda>n. if neg then - int n else int n) (hex_prefix None s))"

definition hexToBytes :: "string \<Rightarrow> bytes js" where
  "hexToBytes hex =
     (let s = (if take 2 hex = ''0x'' then drop 2 hex else hex) in
      if length s mod 2 \<noteq> 0 then Inl (RangeError ''hexToBytes: odd-length hex string'')
      else Inr (map (\<lambda>i. case parseInt16 (take 2 (drop (i * 2) s)) of
                    None \<Rightarrow> 0 | Some v \<Rightarrow> word_of_int v) [0..<length s div 2]))"

lemma bytesToHex_eq: "bytesToHex bs = ''0x'' @ concat (map byte_hex bs)"
proof -
  have "foldl (\<lambda>hex b. hex @ byte_hex b) acc bs = acc @ concat (map byte_hex bs)" for acc
    by (induction bs arbitrary: acc) auto
  then show ?thesis by (simp add: bytesToHex_def)
qed

lemma hex_digit_facts:
  assumes "a < 16"
  shows "hex_value (hex_digit a) = Some a" "\<not> js_space (hex_digit a)"
    "hex_digit a \<notin> set ''-+xX''"
proof -
  have "list_all (\<lambda>a. hex_value (hex_digit a) = Some a \<and> \<not> js_space (hex_digit a) \<and>
      hex_digit a \<notin> set ''-+xX'') [0..<16]"
    by code_simp
  then show "hex_value (hex_digit a) = Some a" "\<not> js_space (hex_digit a)" "hex_digit a \<notin> set ''-+xX''"
    using assms by (simp_all add: list_all_iff)
qed

lemma parseInt16_digits:
  assumes "a < 16" "b < 16"
  shows "parseInt16 [hex_digit a, hex_digit b] = Some (int (a * 16 + b))"
  using hex_digit_facts [OF assms(1)] hex_digit_facts [OF assms(2)]
  by (auto simp: parseInt16_def Let_def)

lemma parseInt16_byte_hex: "parseInt16 (byte_hex b) = Some (uint b)"
proof -
  have "unat b < 256" using unsigned_less [of b] by simp
  then show ?thesis
    by (simp add: byte_hex_def parseInt16_digits)
qed

lemma length_concat_byte_hex [simp]: "length (concat (map byte_hex bs)) = 2 * length bs"
  by (induction bs) (simp_all add: byte_hex_def)

lemma take_drop_byte_hex:
  "i < length bs \<Longrightarrow> take 2 (drop (i * 2) (concat (map byte_hex bs))) = byte_hex (bs ! i)"
proof (induction bs arbitrary: i)
  case (Cons b bs)
  then show ?case by (cases i) (simp_all add: byte_hex_def)
qed simp

lemma hexToBytes_bytesToHex: "hexToBytes (bytesToHex bs) = Inr bs"
proof -
  have "map (\<lambda>i. case parseInt16 (take 2 (drop (i * 2) (concat (map byte_hex bs)))) of
      None \<Rightarrow> 0 | Some v \<Rightarrow> word_of_int v) [0..<length bs] = bs"
    by (rule nth_equalityI) (simp_all add: take_drop_byte_hex parseInt16_byte_hex)
  then show ?thesis by (simp add: hexToBytes_def bytesToHex_eq)
qed

lemma bytesToHex_inj: "bytesToHex a = bytesToHex b \<longleftrightarrow> a = b"
  by (metis hexToBytes_bytesToHex sum.inject(2))

end
