(* ===== verification/Decoder.thy ===== *)
theory Decoder
  imports Complex_Main Merkle
begin

text \<open>
  \<open>packages/coretex/src/substrate/retrieval-decoder.ts\<close>, decoding side: the typed reading of
  the 1024 words (MemoryIndex, RetrievalKeys, Relations, Temporal, Codebook, the three
  PolicyAtom regions), and \<open>structural-validity.ts\<close>.

  Each region loop reads its entries one after the other and counts attempts and failures.
  An entry is one of four outcomes (\<open>outcome\<close>): an empty entry is skipped, a failed one is
  counted, an inactive one counts as an attempt only, a decoded one is returned. Numbers read
  from a word are integers. A binary32 number is kept as its 32-bit pattern.
\<close>

section \<open>Types\<close>

datatype RelationEdgeType = supports | supersedes | coreference_of | causes | derived_from | co_occurs_with

datatype SubstrateFamily = near_collision | temporal_family | long_horizon | multi_hop_relation

datatype CodeType = int8_scale_zero | pq

record MemoryIndexSlot =
  mi_slotIndex :: nat
  mi_recordId :: bigint
  mi_family :: SubstrateFamily
  mi_domainBits :: bigint
  mi_valid :: bool
  mi_revoked :: bool
  mi_protected :: bool
  mi_policyAnchor :: bool
  mi_retrievalSlot :: int
  mi_expiryEpoch :: bigint

record RetrievalKeySlot =
  rk_slotIndex :: nat
  rk_modelIdHash :: string
  rk_l2Norm :: u32
  rk_versionTag :: u8
  rk_quantizedBytes :: bytes

record RelationEdge =
  re_entryIndex :: nat
  re_weight :: int
  re_edgeType :: RelationEdgeType
  re_sourceSlot :: int
  re_targetSlot :: int

record RelationCategoryLens =
  cl_entryIndex :: nat
  cl_weight :: int
  cl_edgeType :: RelationEdgeType

record TemporalRecord =
  tr_recordIndex :: nat
  tr_memorySlot :: int
  tr_supersededBy :: int
  tr_validFromEpoch :: bigint
  tr_validUntilEpoch :: bigint
  tr_currentStaleFlag :: bool

record CodebookEntry =
  cb_entryIndex :: nat
  cb_code :: int
  cb_codeType :: CodeType
  cb_valid :: bool
  cb_payload :: bigint
  cb_payloadCont :: bigint

datatype PolicyAtomFamily = evidence_bundle | conflict_lifecycle | abstention
datatype PolicyAction = include_action | boost | suppress | bundle_action | abstain
datatype PolicyScope = entity | owner | relation_path | temporal_chain | conflict_set | aspect

text \<open>\<open>POLICY_SELECTOR\<close> and \<open>POLICY_EVIDENCE_FEATURE\<close>: the code points an atom may use.\<close>

definition VALID_SELECTOR :: "int list" where
  "VALID_SELECTOR = [0x1, 0x2, 0x3, 0x4]"

definition VALID_EVIDENCE_FEATURE :: "int list" where
  "VALID_EVIDENCE_FEATURE = [0x1, 0x2, 0x3, 0x4, 0x5, 0x6, 0x7]"

record PolicyAtom =
  pa_atomIndex :: nat
  pa_family :: PolicyAtomFamily
  pa_selector :: int
  pa_evidenceFeature :: int
  pa_action :: PolicyAction
  pa_scope :: PolicyScope
  pa_targetSlot :: int
  pa_budget :: int
  pa_flags :: int
  pa_validFromEpoch :: bigint
  pa_expiryEpoch :: bigint

abbreviation (input) "POLICY_TARGET_NONE \<equiv> (0xffff :: int)"
abbreviation (input) "POLICY_ANCHOR_SLOT_LIMIT \<equiv> (256 :: int)"
abbreviation (input) "MEMORY_INDEX_SLOT_COUNT \<equiv> 352"
abbreviation (input) "RETRIEVAL_KEY_SLOT_COUNT \<equiv> 36"
abbreviation (input) "RETRIEVAL_KEY_WORDS_PER_SLOT \<equiv> (8 :: nat)"
abbreviation (input) "RETRIEVAL_KEY_BYTES_PER_SLOT \<equiv> (256 :: nat)"
abbreviation (input) "RELATIONS_ENTRY_COUNT \<equiv> (128 :: nat)"
abbreviation (input) "TEMPORAL_RECORD_COUNT \<equiv> (96 :: nat)"
abbreviation (input) "CODEBOOK_ENTRY_COUNT \<equiv> (48 :: nat)"
abbreviation (input) "CODEBOOK_WORDS_PER_ENTRY \<equiv> (2 :: nat)"

section \<open>Enumerations and bit helpers\<close>

definition FAMILY_BY_BITS :: "int \<Rightarrow> SubstrateFamily option" where
  "FAMILY_BY_BITS = map_of [(0x0, near_collision), (0x1, temporal_family), (0x2, long_horizon), (0x3, multi_hop_relation)]"

definition RELATION_TYPE_BY_BITS :: "int \<Rightarrow> RelationEdgeType option" where
  "RELATION_TYPE_BY_BITS = map_of [(0x1, supports), (0x2, supersedes), (0x3, coreference_of),
     (0x4, causes), (0x5, derived_from), (0x6, co_occurs_with)]"

definition CODE_TYPE_BY_BITS :: "int \<Rightarrow> CodeType option" where
  "CODE_TYPE_BY_BITS = map_of [(0x1, int8_scale_zero), (0x2, pq)]"

definition POLICY_ACTION_BY_BITS :: "int \<Rightarrow> PolicyAction option" where
  "POLICY_ACTION_BY_BITS = map_of [(0x1, include_action), (0x2, boost), (0x3, suppress), (0x4, bundle_action), (0x5, abstain)]"

definition POLICY_SCOPE_BY_BITS :: "int \<Rightarrow> PolicyScope option" where
  "POLICY_SCOPE_BY_BITS = map_of [(0x1, entity), (0x2, owner), (0x3, relation_path), (0x4, temporal_chain),
     (0x5, conflict_set), (0x6, aspect)]"

definition MASK :: "nat \<Rightarrow> bigint" where
  "MASK n = push_bit n 1 - 1"

definition field :: "bigint \<Rightarrow> nat \<Rightarrow> bigint \<Rightarrow> bigint" where
  "field w shift m = drop_bit shift w AND m"

definition nthByte :: "bigint \<Rightarrow> nat \<Rightarrow> bigint" where
  "nthByte w byteOffset = drop_bit ((31 - byteOffset) * 8) w AND 0xff"

definition wordsToBytes :: "bigint list \<Rightarrow> nat \<Rightarrow> nat \<Rightarrow> bytes" where
  "wordsToBytes ws startWord n =
     concat (map (\<lambda>w. map (\<lambda>b. word_of_int (nthByte (nth_or 0 ws (startWord + w)) b)) [0..<32]) [0..<n])"

text \<open>\<open>readFloat32BE\<close>: the four bytes, most significant first, as a binary32 pattern.\<close>

definition readFloat32BE :: "bytes \<Rightarrow> nat \<Rightarrow> u32" where
  "readFloat32BE bs offset = word_of_int (be_val (take 4 (drop offset bs)))"

text \<open>\<open>Number.isFinite(x) && x > 0\<close> on a binary32 pattern: sign clear, exponent not all ones,
  not zero.\<close>

definition f32_finite :: "u32 \<Rightarrow> bool" where
  "f32_finite p = (take_bit 8 (drop_bit 23 p) \<noteq> 255)"

definition f32_positive :: "u32 \<Rightarrow> bool" where
  "f32_positive p = (\<not> bit p 31 \<and> p \<noteq> 0)"

definition js_lower_char :: "char \<Rightarrow> char" where
  "js_lower_char c = (let n = of_char c :: nat in
     if 65 \<le> n \<and> n \<le> 90 \<or> 192 \<le> n \<and> n \<le> 222 \<and> n \<noteq> 215 then char_of (n + 32) else c)"

definition js_toLowerCase :: "string \<Rightarrow> string" where
  "js_toLowerCase = map js_lower_char"

section \<open>Region loops\<close>

datatype 'a outcome = Empty | Failed | Inactive | Decoded 'a

definition attempts :: "'a outcome list \<Rightarrow> nat" where
  "attempts os = length (filter (\<lambda>r. r \<noteq> Empty) os)"

definition failures :: "'a outcome list \<Rightarrow> nat" where
  "failures os = length (filter (\<lambda>r. r = Failed) os)"

definition slot_of :: "'a outcome \<Rightarrow> 'a option" where
  "slot_of r = (case r of Decoded a \<Rightarrow> Some a | _ \<Rightarrow> None)"

definition decoded_list :: "'a outcome list \<Rightarrow> 'a list" where
  "decoded_list os = List.map_filter slot_of os"

definition decode_memory_word :: "nat \<Rightarrow> bigint \<Rightarrow> MemoryIndexSlot outcome" where
  "decode_memory_word s w0 =
     (if w0 = 0 then Empty
      else let recordId = field w0 128 (MASK 128) in
      if recordId = 0 then Failed
      else case FAMILY_BY_BITS (field w0 124 0xf) of None \<Rightarrow> Failed | Some family \<Rightarrow>
      let domainBits = field w0 64 (MASK 60);
          flags = field w0 48 (MASK 16);
          valid = (flags AND 0x0001 \<noteq> 0);
          revoked = (flags AND 0x0002 \<noteq> 0);
          isProtected = (flags AND 0x0004 \<noteq> 0);
          policyAnchor = (flags AND 0x0008 \<noteq> 0);
          retrievalSlot = field w0 40 (MASK 8)
      in if retrievalSlot \<ge> RETRIEVAL_KEY_SLOT_COUNT then Failed
      else let expiryEpoch = field w0 0 (MASK 40)
      in if \<not> valid then Inactive
      else Decoded \<lparr>mi_slotIndex = s, mi_recordId = recordId, mi_family = family, mi_domainBits = domainBits,
        mi_valid = valid, mi_revoked = revoked, mi_protected = isProtected, mi_policyAnchor = policyAnchor,
        mi_retrievalSlot = retrievalSlot, mi_expiryEpoch = expiryEpoch\<rparr>)"

definition decodeMemoryIndex :: "CortexState \<Rightarrow> MemoryIndexSlot outcome list" where
  "decodeMemoryIndex state =
     map (\<lambda>s. decode_memory_word s (nth_or 0 (words state) (MEMORY_INDEX_START + s))) [0..<MEMORY_INDEX_SLOT_COUNT]"

text \<open>\<open>lensCollapse\<close> stands for \<open>lensDiversityFloor\<close> and \<open>retrievalKeyLayout\<close>, present when both
  are: it tells of the payloads of the active lenses whether the mean pairwise cosine of the
  dequantized vectors exceeds the floor (floating-point arithmetic, not modelled further).\<close>

record DecoderOptions =
  policyAtomsMode :: bool
  biEncoderModelIdHash :: "string option"
  retrievalKeyHeaderBytes :: "nat option"
  lensCollapse :: "(bytes list \<Rightarrow> bool) option"

definition decode_key_slot :: "DecoderOptions \<Rightarrow> bigint list \<Rightarrow> nat \<Rightarrow> RetrievalKeySlot outcome" where
  "decode_key_slot opts ws s =
     (let headerBytes = (case retrievalKeyHeaderBytes opts of None \<Rightarrow> 9 | Some h \<Rightarrow> h);
          expectedHash = map_option js_toLowerCase (biEncoderModelIdHash opts);
          base = RETRIEVAL_KEYS_START + s * RETRIEVAL_KEY_WORDS_PER_SLOT
      in if list_all (\<lambda>off. nth_or 0 ws (base + off) = 0) [0..<RETRIEVAL_KEY_WORDS_PER_SLOT] then Empty
      else let slotBytes = wordsToBytes ws base RETRIEVAL_KEY_WORDS_PER_SLOT;
          versionTag = slotBytes ! 0;
          modelIdHash = bytesToHex (take 4 (drop 1 slotBytes));
          l2Norm = readFloat32BE slotBytes 5
      in if versionTag \<noteq> 0x01 then Failed
      else if expectedHash \<noteq> None \<and> Some (js_toLowerCase modelIdHash) \<noteq> expectedHash then Failed
      else if \<not> f32_finite l2Norm \<or> \<not> f32_positive l2Norm then Failed
      else if headerBytes < 9 \<or> headerBytes > RETRIEVAL_KEY_BYTES_PER_SLOT then Failed
      else if list_ex (\<lambda>i. slotBytes ! i \<noteq> 0) [9..<headerBytes] then Failed
      else Decoded \<lparr>rk_slotIndex = s, rk_modelIdHash = modelIdHash, rk_l2Norm = l2Norm,
        rk_versionTag = versionTag, rk_quantizedBytes = drop headerBytes slotBytes\<rparr>)"

definition decodeRetrievalKeys :: "CortexState \<Rightarrow> DecoderOptions \<Rightarrow> RetrievalKeySlot outcome list" where
  "decodeRetrievalKeys state opts = map (decode_key_slot opts (words state)) [0..<RETRIEVAL_KEY_SLOT_COUNT]"

datatype RelationEntry = Edge RelationEdge | Lens RelationCategoryLens

definition decode_relation_word :: "nat \<Rightarrow> bigint \<Rightarrow> RelationEntry outcome" where
  "decode_relation_word i w =
     (if w = 0 then Empty
      else let weight = field w 240 (MASK 16) in
      if weight = 0 then Failed
      else case RELATION_TYPE_BY_BITS (field w 224 (MASK 16)) of None \<Rightarrow> Failed | Some edgeType \<Rightarrow>
      let reservedField208 = field w 208 (MASK 16);
          isCategoryLens = (drop_bit 15 reservedField208 = 1)
      in if reservedField208 AND 0x7FFF \<noteq> 0 then Failed
      else if field w 192 (MASK 16) \<noteq> 0 then Failed
      else if isCategoryLens then
        if field w 96 (MASK 96) \<noteq> 0 \<or> field w 0 (MASK 96) \<noteq> 0 then Failed
        else Decoded (Lens \<lparr>cl_entryIndex = i, cl_weight = weight, cl_edgeType = edgeType\<rparr>)
      else let sourceField = field w 96 (MASK 96); targetField = field w 0 (MASK 96)
      in if drop_bit 8 sourceField \<noteq> 0 then Failed
      else if drop_bit 8 targetField \<noteq> 0 then Failed
      else let sourceSlot = sourceField AND MASK 8; targetSlot = targetField AND MASK 8
      in if sourceSlot \<ge> MEMORY_INDEX_SLOT_COUNT \<or> targetSlot \<ge> MEMORY_INDEX_SLOT_COUNT then Failed
      else Decoded (Edge \<lparr>re_entryIndex = i, re_weight = weight, re_edgeType = edgeType,
        re_sourceSlot = sourceSlot, re_targetSlot = targetSlot\<rparr>))"

definition decodeRelations :: "CortexState \<Rightarrow> RelationEntry outcome list" where
  "decodeRelations state =
     map (\<lambda>i. decode_relation_word i (nth_or 0 (words state) (RELATIONS_START + i))) [0..<RELATIONS_ENTRY_COUNT]"

definition relation_edges :: "RelationEntry outcome list \<Rightarrow> RelationEdge list" where
  "relation_edges os = List.map_filter (\<lambda>e. case e of Edge x \<Rightarrow> Some x | Lens _ \<Rightarrow> None) (decoded_list os)"

definition relation_lenses :: "RelationEntry outcome list \<Rightarrow> RelationCategoryLens list" where
  "relation_lenses os = List.map_filter (\<lambda>e. case e of Edge _ \<Rightarrow> None | Lens x \<Rightarrow> Some x) (decoded_list os)"

definition decode_temporal_word :: "nat \<Rightarrow> bigint \<Rightarrow> TemporalRecord outcome" where
  "decode_temporal_word r w0 =
     (if w0 = 0 then Empty
      else let memorySlot = field w0 248 (MASK 8);
          supersededBy = field w0 240 (MASK 8);
          validFromEpoch = field w0 200 (MASK 40);
          validUntilEpoch = field w0 160 (MASK 40);
          flags = field w0 152 (MASK 8)
      in if field w0 0 (MASK 152) \<noteq> 0 then Failed
      else if memorySlot \<ge> MEMORY_INDEX_SLOT_COUNT then Failed
      else if validFromEpoch > validUntilEpoch then Failed
      else Decoded \<lparr>tr_recordIndex = r, tr_memorySlot = memorySlot, tr_supersededBy = supersededBy,
        tr_validFromEpoch = validFromEpoch, tr_validUntilEpoch = validUntilEpoch,
        tr_currentStaleFlag = (flags AND 0x01 \<noteq> 0)\<rparr>)"

definition decodeTemporal :: "CortexState \<Rightarrow> TemporalRecord outcome list" where
  "decodeTemporal state =
     map (\<lambda>r. decode_temporal_word r (nth_or 0 (words state) (TEMPORAL_START + r))) [0..<TEMPORAL_RECORD_COUNT]"

definition decode_codebook_entry :: "nat \<Rightarrow> bigint \<Rightarrow> bigint \<Rightarrow> CodebookEntry outcome" where
  "decode_codebook_entry i w0 w1 =
     (if w0 = 0 \<and> w1 = 0 then Empty
      else let code = field w0 240 (MASK 16);
          flags = field w0 208 (MASK 16)
      in case CODE_TYPE_BY_BITS (field w0 224 (MASK 16)) of None \<Rightarrow> Failed | Some codeType \<Rightarrow>
      if code = 0 then Failed
      else if flags AND 0x0001 = 0 then Failed
      else Decoded \<lparr>cb_entryIndex = i, cb_code = code, cb_codeType = codeType, cb_valid = True,
        cb_payload = field w0 0 (MASK 208), cb_payloadCont = w1\<rparr>)"

definition decodeCodebook :: "CortexState \<Rightarrow> CodebookEntry outcome list" where
  "decodeCodebook state =
     map (\<lambda>i. let base = CODEBOOK_START + i * CODEBOOK_WORDS_PER_ENTRY in
        decode_codebook_entry i (nth_or 0 (words state) base) (nth_or 0 (words state) (base + 1))) [0..<CODEBOOK_ENTRY_COUNT]"

section \<open>PolicyAtoms\<close>

record PolicyRegionSpec =
  reg_start :: nat
  reg_count :: nat
  reg_allowed :: "PolicyAction list"

fun POLICY_REGIONS :: "PolicyAtomFamily \<Rightarrow> PolicyRegionSpec" where
  "POLICY_REGIONS evidence_bundle =
     \<lparr>reg_start = POLICY_EVIDENCE_START, reg_count = POLICY_EVIDENCE_END - POLICY_EVIDENCE_START + 1,
      reg_allowed = [include_action, boost, suppress, bundle_action]\<rparr>"
| "POLICY_REGIONS conflict_lifecycle =
     \<lparr>reg_start = POLICY_CONFLICT_START, reg_count = POLICY_CONFLICT_END - POLICY_CONFLICT_START + 1,
      reg_allowed = [boost, suppress]\<rparr>"
| "POLICY_REGIONS abstention =
     \<lparr>reg_start = POLICY_ABSTENTION_START, reg_count = POLICY_ABSTENTION_END - POLICY_ABSTENTION_START + 1,
      reg_allowed = [abstain]\<rparr>"

definition decode_atom_word :: "PolicyAtomFamily \<Rightarrow> nat \<Rightarrow> bigint \<Rightarrow> PolicyAtom outcome" where
  "decode_atom_word family k w0 =
     (if w0 = 0 then Empty
      else let selector = field w0 248 (MASK 8);
          evidenceFeature = field w0 240 (MASK 8);
          targetSlot = field w0 216 (MASK 16);
          budget = field w0 200 (MASK 16);
          flags = field w0 192 (MASK 8);
          validFromEpoch = field w0 152 (MASK 40);
          expiryEpoch = field w0 112 (MASK 40)
      in if field w0 0 (MASK 112) \<noteq> 0 then Failed
      else case (POLICY_ACTION_BY_BITS (field w0 236 (MASK 4)), POLICY_SCOPE_BY_BITS (field w0 232 (MASK 4))) of
        (Some action, Some scope) \<Rightarrow>
          if action \<notin> set (reg_allowed (POLICY_REGIONS family)) then Failed
          else if selector \<notin> set VALID_SELECTOR \<or> evidenceFeature \<notin> set VALID_EVIDENCE_FEATURE then Failed
          else if action = abstain \<and> targetSlot \<noteq> POLICY_TARGET_NONE \<and> targetSlot \<ge> POLICY_ANCHOR_SLOT_LIMIT then Failed
          else if action \<noteq> abstain \<and> (targetSlot = POLICY_TARGET_NONE \<or> targetSlot \<ge> POLICY_ANCHOR_SLOT_LIMIT) then Failed
          else if validFromEpoch > 0 \<and> expiryEpoch > 0 \<and> validFromEpoch > expiryEpoch then Failed
          else Decoded \<lparr>pa_atomIndex = k, pa_family = family, pa_selector = selector,
            pa_evidenceFeature = evidenceFeature, pa_action = action, pa_scope = scope,
            pa_targetSlot = targetSlot, pa_budget = budget, pa_flags = flags,
            pa_validFromEpoch = validFromEpoch, pa_expiryEpoch = expiryEpoch\<rparr>
      | _ \<Rightarrow> Failed)"

definition decodePolicyAtomRegion :: "CortexState \<Rightarrow> PolicyAtomFamily \<Rightarrow> PolicyAtom outcome list" where
  "decodePolicyAtomRegion state family =
     (let reg = POLICY_REGIONS family in
      map (\<lambda>k. decode_atom_word family k (nth_or 0 (words state) (reg_start reg + k))) [0..<reg_count reg])"

definition policyReservedNonZeroWords :: "CortexState \<Rightarrow> nat" where
  "policyReservedNonZeroWords state =
     foldl (\<lambda>n w. if nth_or 0 (words state) w \<noteq> 0 then n + 1 else n) 0
       [POLICY_RESERVED_START..<POLICY_RESERVED_END + 1]"

section \<open>The composite decoder\<close>

definition relationEdgeValid :: "RelationEdge \<Rightarrow> MemoryIndexSlot option list \<Rightarrow> bool" where
  "relationEdgeValid edge memoryIndex =
     (case (nth_or None memoryIndex (nat (re_sourceSlot edge)), nth_or None memoryIndex (nat (re_targetSlot edge))) of
        (Some src, Some tgt) \<Rightarrow>
          if \<not> mi_valid src \<or> \<not> mi_valid tgt then False
          else if mi_domainBits src = 0 \<or> mi_domainBits tgt = 0 then False
          else mi_domainBits src AND mi_domainBits tgt \<noteq> 0
      | _ \<Rightarrow> False)"

text \<open>\<open>checkLensDiversity(...).ok\<close>: fewer than two active keys always pass.\<close>

definition checkLensDiversity :: "RetrievalKeySlot option list \<Rightarrow> (bytes list \<Rightarrow> bool) \<Rightarrow> bool" where
  "checkLensDiversity keys collapse =
     (let active = List.map_filter id keys in
      if length active < 2 then True else \<not> collapse (map rk_quantizedBytes active))"

record DecodedSubstrate =
  memoryIndex :: "MemoryIndexSlot option list"
  retrievalKeys :: "RetrievalKeySlot option list"
  relations :: "RelationEdge list"
  categoryLenses :: "RelationCategoryLens list"
  temporal :: "TemporalRecord list"
  codebook :: "CodebookEntry option list"
  decodedSlots :: int
  decodeFailures :: nat
  decodeAttempts :: nat
  lensDiversityCheck :: "bool option"
  relationsDroppedByDomainPredicate :: nat
  evidenceBundleAtoms :: "PolicyAtom list"
  conflictLifecycleAtoms :: "PolicyAtom list"
  abstentionAtoms :: "PolicyAtom list"
  reservedNonZeroWords :: nat

definition temporal_cross_ok :: "MemoryIndexSlot option list \<Rightarrow> TemporalRecord \<Rightarrow> bool" where
  "temporal_cross_ok slots t =
     (case nth_or None slots (nat (tr_memorySlot t)) of
        None \<Rightarrow> False
      | Some slot \<Rightarrow> \<not> (tr_currentStaleFlag t \<and> \<not> mi_revoked slot))"

definition decodeSubstrate :: "CortexState \<Rightarrow> DecoderOptions \<Rightarrow> DecodedSubstrate" where
  "decodeSubstrate state opts =
     (let policyMode = policyAtomsMode opts;
          memory = decodeMemoryIndex state;
          slots = map slot_of memory;
          rels = decodeRelations state;
          tmps = decodeTemporal state;
          keys = (if policyMode then [] else decodeRetrievalKeys state opts);
          book = (if policyMode then [] else decodeCodebook state);
          eb = (if policyMode then decodePolicyAtomRegion state evidence_bundle else []);
          cl = (if policyMode then decodePolicyAtomRegion state conflict_lifecycle else []);
          ab = (if policyMode then decodePolicyAtomRegion state abstention else []);
          policyReservedNonZero = (if policyMode then policyReservedNonZeroWords state else 0);
          policyAttempts = attempts eb + attempts cl + attempts ab + policyReservedNonZero;
          policyFailures = failures eb + failures cl + failures ab + policyReservedNonZero;
          records = decoded_list tmps;
          crossAttempts = length records;
          filteredTemporal = filter (temporal_cross_ok slots) records;
          crossFailures = length (filter (\<lambda>t. \<not> temporal_cross_ok slots t) records);
          edges = relation_edges rels;
          filteredRelations = filter (\<lambda>e. relationEdgeValid e slots) edges;
          dropped = length (filter (\<lambda>e. \<not> relationEdgeValid e slots) edges);
          allAttempts = attempts memory + attempts keys + attempts rels + attempts tmps + attempts book
            + crossAttempts + policyAttempts;
          allFailures = failures memory + failures keys + failures rels + failures tmps + failures book
            + crossFailures + policyFailures
      in \<lparr>memoryIndex = slots, retrievalKeys = map slot_of keys, relations = filteredRelations,
          categoryLenses = relation_lenses rels, temporal = filteredTemporal, codebook = map slot_of book,
          decodedSlots = int allAttempts - int allFailures,
          decodeFailures = allFailures, decodeAttempts = allAttempts,
          lensDiversityCheck = map_option (checkLensDiversity (map slot_of keys)) (lensCollapse opts),
          relationsDroppedByDomainPredicate = dropped,
          evidenceBundleAtoms = decoded_list eb, conflictLifecycleAtoms = decoded_list cl,
          abstentionAtoms = decoded_list ab, reservedNonZeroWords = policyReservedNonZero\<rparr>)"

definition structuralValidity :: "DecodedSubstrate \<Rightarrow> rat" where
  "structuralValidity decoded =
     (if lensDiversityCheck decoded = Some False then 0
      else if decodeAttempts decoded \<le> 0 then 1
      else max 0 (1 - of_nat (decodeFailures decoded) / of_nat (decodeAttempts decoded)))"

section \<open>Counting\<close>

lemma failures_le_attempts: "failures os \<le> attempts os"
  unfolding failures_def attempts_def by (induction os) auto

lemma length_filter_not_le: "length (filter P xs) \<le> length xs"
  by simp

lemma failures_Nil [simp]: "failures [] = 0" and attempts_Nil [simp]: "attempts [] = 0"
  by (simp_all add: failures_def attempts_def)

text \<open>The decode counters are consistent: failures never exceed attempts, their difference is
  \<open>decodedSlots\<close>, and so the structural-validity score lies between 0 and 1, reaching 1 only
  without failures.\<close>

lemma decodeSubstrate_counters:
  "decodeFailures (decodeSubstrate s opts) \<le> decodeAttempts (decodeSubstrate s opts) \<and>
   decodedSlots (decodeSubstrate s opts)
     = int (decodeAttempts (decodeSubstrate s opts)) - int (decodeFailures (decodeSubstrate s opts)) \<and>
   0 \<le> structuralValidity (decodeSubstrate s opts) \<and> structuralValidity (decodeSubstrate s opts) \<le> 1 \<and>
   (structuralValidity (decodeSubstrate s opts) = 1 \<longleftrightarrow>
     decodeFailures (decodeSubstrate s opts) = 0 \<and> lensDiversityCheck (decodeSubstrate s opts) \<noteq> Some False)"
proof -
  let ?d = "decodeSubstrate s opts"
  have le: "decodeFailures ?d \<le> decodeAttempts ?d"
    by (simp add: decodeSubstrate_def Let_def add_mono failures_le_attempts)
  moreover have "decodedSlots ?d = int (decodeAttempts ?d) - int (decodeFailures ?d)"
    by (simp add: decodeSubstrate_def Let_def)
  moreover have "0 \<le> structuralValidity ?d" "structuralValidity ?d \<le> 1"
    by (simp_all add: structuralValidity_def)
  moreover have "structuralValidity ?d = 1 \<longleftrightarrow> decodeFailures ?d = 0 \<and> lensDiversityCheck ?d \<noteq> Some False"
    using le by (auto simp: structuralValidity_def max_def)
  ultimately show ?thesis by blast
qed

end
