(* ===== verification/Encoder.thy ===== *)
theory Encoder
  imports Decoder
begin

text \<open>
  \<open>packages/coretex/src/substrate/retrieval-decoder.ts\<close>, encoding side, and the agreement of
  the two sides: one contract for a word codec (\<open>word_codec\<close>), with the consequences for a
  region of such words, interpreted for PolicyAtoms, temporal records, relation edges,
  category lenses and MemoryIndex slots.
\<close>

section \<open>Encoders\<close>

fun POLICY_ACTION_TO_BITS :: "PolicyAction \<Rightarrow> int" where
  "POLICY_ACTION_TO_BITS include_action = 0x1"
| "POLICY_ACTION_TO_BITS boost = 0x2"
| "POLICY_ACTION_TO_BITS suppress = 0x3"
| "POLICY_ACTION_TO_BITS bundle_action = 0x4"
| "POLICY_ACTION_TO_BITS abstain = 0x5"

fun POLICY_SCOPE_TO_BITS :: "PolicyScope \<Rightarrow> int" where
  "POLICY_SCOPE_TO_BITS entity = 0x1"
| "POLICY_SCOPE_TO_BITS owner = 0x2"
| "POLICY_SCOPE_TO_BITS relation_path = 0x3"
| "POLICY_SCOPE_TO_BITS temporal_chain = 0x4"
| "POLICY_SCOPE_TO_BITS conflict_set = 0x5"
| "POLICY_SCOPE_TO_BITS aspect = 0x6"

fun familyToBits :: "SubstrateFamily \<Rightarrow> int" where
  "familyToBits near_collision = 0x0"
| "familyToBits temporal_family = 0x1"
| "familyToBits long_horizon = 0x2"
| "familyToBits multi_hop_relation = 0x3"

fun relationTypeToBits :: "RelationEdgeType \<Rightarrow> int" where
  "relationTypeToBits supports = 0x1"
| "relationTypeToBits supersedes = 0x2"
| "relationTypeToBits coreference_of = 0x3"
| "relationTypeToBits causes = 0x4"
| "relationTypeToBits derived_from = 0x5"
| "relationTypeToBits co_occurs_with = 0x6"

definition encodePolicyAtom :: "PolicyAtom \<Rightarrow> bigint js" where
  "encodePolicyAtom atom =
     (if pa_selector atom \<le> 0 \<or> pa_selector atom > 0xff then Inl (JsError ''encodePolicyAtom: selector out of range'')
      else if pa_evidenceFeature atom \<le> 0 \<or> pa_evidenceFeature atom > 0xff
        then Inl (JsError ''encodePolicyAtom: evidenceFeature out of range'')
      else if pa_targetSlot atom \<noteq> POLICY_TARGET_NONE \<and> (pa_targetSlot atom < 0 \<or> pa_targetSlot atom \<ge> POLICY_ANCHOR_SLOT_LIMIT)
        then Inl (JsError ''encodePolicyAtom: targetSlot out of range (0..255 or POLICY_TARGET_NONE)'')
      else if pa_budget atom < 0 \<or> pa_budget atom > 0xffff then Inl (JsError ''encodePolicyAtom: budget out of range'')
      else if pa_flags atom < 0 \<or> pa_flags atom > 0xff then Inl (JsError ''encodePolicyAtom: flags out of range'')
      else if drop_bit 40 (pa_validFromEpoch atom) \<noteq> 0 \<or> drop_bit 40 (pa_expiryEpoch atom) \<noteq> 0
        then Inl (JsError ''encodePolicyAtom: epoch exceeds 40 bits'')
      else Inr (push_bit 248 (pa_selector atom) OR push_bit 240 (pa_evidenceFeature atom)
        OR push_bit 236 (POLICY_ACTION_TO_BITS (pa_action atom)) OR push_bit 232 (POLICY_SCOPE_TO_BITS (pa_scope atom))
        OR push_bit 216 (pa_targetSlot atom) OR push_bit 200 (pa_budget atom) OR push_bit 192 (pa_flags atom)
        OR push_bit 152 (pa_validFromEpoch atom) OR push_bit 112 (pa_expiryEpoch atom)))"

definition memory_flags :: "MemoryIndexSlot \<Rightarrow> bigint" where
  "memory_flags slot = (if mi_valid slot then 0x0001 else 0) OR (if mi_revoked slot then 0x0002 else 0)
     OR (if mi_protected slot then 0x0004 else 0) OR (if mi_policyAnchor slot then 0x0008 else 0)"

definition encodeMemoryIndexSlot :: "MemoryIndexSlot \<Rightarrow> bigint list js" where
  "encodeMemoryIndexSlot slot =
     (if drop_bit 128 (mi_recordId slot) \<noteq> 0 then Inl (JsError ''encodeMemoryIndexSlot: recordId exceeds 128 bits'')
      else if drop_bit 60 (mi_domainBits slot) \<noteq> 0 then Inl (JsError ''encodeMemoryIndexSlot: domainBits exceeds 60 bits'')
      else let familyDomain = push_bit 60 (familyToBits (mi_family slot)) OR mi_domainBits slot;
          flags = memory_flags slot
      in if mi_retrievalSlot slot < 0 \<or> mi_retrievalSlot slot \<ge> RETRIEVAL_KEY_SLOT_COUNT
        then Inl (JsError ''encodeMemoryIndexSlot: retrievalSlot out of range'')
      else if drop_bit 40 (mi_expiryEpoch slot) \<noteq> 0 then Inl (JsError ''encodeMemoryIndexSlot: expiryEpoch exceeds 40 bits'')
      else Inr [push_bit 128 (mi_recordId slot) OR push_bit 64 familyDomain OR push_bit 48 flags
        OR push_bit 40 (mi_retrievalSlot slot) OR mi_expiryEpoch slot, 0, 0, 0, 0, 0, 0, 0])"

definition encodeRelationEdge :: "RelationEdge \<Rightarrow> bigint js" where
  "encodeRelationEdge edge =
     (if re_weight edge \<le> 0 \<or> re_weight edge > 0xffff then Inl (JsError ''encodeRelationEdge: weight out of range'')
      else if re_sourceSlot edge < 0 \<or> re_sourceSlot edge \<ge> MEMORY_INDEX_SLOT_COUNT
        then Inl (JsError ''encodeRelationEdge: sourceSlot out of range'')
      else if re_targetSlot edge < 0 \<or> re_targetSlot edge \<ge> MEMORY_INDEX_SLOT_COUNT
        then Inl (JsError ''encodeRelationEdge: targetSlot out of range'')
      else Inr (push_bit 240 (re_weight edge) OR push_bit 224 (relationTypeToBits (re_edgeType edge))
        OR push_bit 96 (re_sourceSlot edge) OR re_targetSlot edge))"

definition encodeRelationCategoryLens :: "RelationCategoryLens \<Rightarrow> bigint js" where
  "encodeRelationCategoryLens lens =
     (if cl_weight lens \<le> 0 \<or> cl_weight lens > 0xffff then Inl (JsError ''encodeRelationCategoryLens: weight out of range'')
      else Inr (push_bit 240 (cl_weight lens) OR push_bit 224 (relationTypeToBits (cl_edgeType lens)) OR push_bit 223 1))"

definition encodeTemporalRecord :: "TemporalRecord \<Rightarrow> bigint list js" where
  "encodeTemporalRecord rec =
     (if tr_memorySlot rec < 0 \<or> tr_memorySlot rec \<ge> MEMORY_INDEX_SLOT_COUNT
        then Inl (JsError ''encodeTemporalRecord: memorySlot out of range'')
      else if tr_supersededBy rec < 0 \<or> tr_supersededBy rec > 0xff
        then Inl (JsError ''encodeTemporalRecord: supersededBy out of range'')
      else if tr_validFromEpoch rec > tr_validUntilEpoch rec
        then Inl (JsError ''encodeTemporalRecord: validFromEpoch > validUntilEpoch'')
      else if drop_bit 40 (tr_validFromEpoch rec) \<noteq> 0 \<or> drop_bit 40 (tr_validUntilEpoch rec) \<noteq> 0
        then Inl (JsError ''encodeTemporalRecord: epoch exceeds 40 bits'')
      else let flags = (if tr_currentStaleFlag rec then 0x01 else 0) in
        Inr [push_bit 248 (tr_memorySlot rec) OR push_bit 240 (tr_supersededBy rec)
          OR push_bit 200 (tr_validFromEpoch rec) OR push_bit 160 (tr_validUntilEpoch rec) OR push_bit 152 flags])"

definition encodeCodebookEntry :: "CodebookEntry \<Rightarrow> bigint list js" where
  "encodeCodebookEntry entry =
     (if cb_code entry \<le> 0 \<or> cb_code entry > 0xffff then Inl (JsError ''encodeCodebookEntry: code out of range'')
      else let codeTypeBits = (if cb_codeType entry = int8_scale_zero then 0x1 else 0x2);
          flags = (if cb_valid entry then 0x0001 else 0)
      in if drop_bit 208 (cb_payload entry) \<noteq> 0 then Inl (JsError ''encodeCodebookEntry: payload exceeds 208 bits'')
      else Inr [push_bit 240 (cb_code entry) OR push_bit 224 codeTypeBits OR push_bit 208 flags OR cb_payload entry,
        cb_payloadCont entry])"

definition write_key_header :: "RetrievalKeySlot \<Rightarrow> string \<Rightarrow> bytes" where
  "write_key_header slot hashHex =
     (let out = (replicate RETRIEVAL_KEY_BYTES_PER_SLOT 0)[0 := rk_versionTag slot];
          out = foldl (\<lambda>out i. out[1 + i := (case parseInt16 (take 2 (drop (i * 2) hashHex)) of
               None \<Rightarrow> 0 | Some v \<Rightarrow> word_of_int v)]) out [0..<4]
      in take 5 out @ be_bytes 4 (uint (rk_l2Norm slot)) @ drop 9 out)"

definition encodeRetrievalKeySlot :: "RetrievalKeySlot \<Rightarrow> nat option \<Rightarrow> bigint list js" where
  "encodeRetrievalKeySlot slot hb =
     (let headerBytes = (case hb of None \<Rightarrow> 9 | Some h \<Rightarrow> h);
          hashHex = (if take 2 (rk_modelIdHash slot) = ''0x'' then drop 2 (rk_modelIdHash slot) else rk_modelIdHash slot)
      in if length hashHex \<noteq> 8 then Inl (JsError ''encodeRetrievalKeySlot: modelIdHash must be 4 bytes'')
      else let out = write_key_header slot hashHex
      in if int (length (rk_quantizedBytes slot)) > int RETRIEVAL_KEY_BYTES_PER_SLOT - int headerBytes
        then Inl (JsError ''encodeRetrievalKeySlot: quantizedBytes too long for layout'')
      else let out = take headerBytes out @ rk_quantizedBytes slot
               @ drop (headerBytes + length (rk_quantizedBytes slot)) out
      in Inr (map (\<lambda>w. be_val (take 32 (drop (w * 32) out))) [0..<RETRIEVAL_KEY_WORDS_PER_SLOT]))"

section \<open>Fields of packed words\<close>

lemma field_MASK [simp]: "field w s (MASK n) = take_bit n (drop_bit s w)"
  by (simp add: field_def MASK_def take_bit_eq_mask mask_eq_exp_minus_1 push_bit_eq_mult)

lemma and_MASK [simp]: "w AND MASK n = take_bit n w"
  by (simp add: MASK_def take_bit_eq_mask mask_eq_exp_minus_1 push_bit_eq_mult)

lemma action_bits [simp]:
  "POLICY_ACTION_BY_BITS (POLICY_ACTION_TO_BITS a) = Some a" "fits 4 (POLICY_ACTION_TO_BITS a)"
  by (cases a; simp add: POLICY_ACTION_BY_BITS_def fits_iff)+

lemma scope_bits [simp]:
  "POLICY_SCOPE_BY_BITS (POLICY_SCOPE_TO_BITS a) = Some a" "fits 4 (POLICY_SCOPE_TO_BITS a)"
  by (cases a; simp add: POLICY_SCOPE_BY_BITS_def fits_iff)+

lemma family_bits [simp]: "FAMILY_BY_BITS (familyToBits a) = Some a" "fits 4 (familyToBits a)"
  by (cases a; simp add: FAMILY_BY_BITS_def fits_iff)+

lemma relation_bits [simp]: "RELATION_TYPE_BY_BITS (relationTypeToBits a) = Some a" "fits 16 (relationTypeToBits a)"
  by (cases a; simp add: RELATION_TYPE_BY_BITS_def fits_iff)+

section \<open>PolicyAtoms\<close>

text \<open>What the grammar requires of an atom of a region.\<close>

definition atom_ok :: "PolicyAtomFamily \<Rightarrow> nat \<Rightarrow> PolicyAtom \<Rightarrow> bool" where
  "atom_ok family k a \<longleftrightarrow> pa_atomIndex a = k \<and> pa_family a = family \<and>
     pa_selector a \<in> set VALID_SELECTOR \<and> pa_evidenceFeature a \<in> set VALID_EVIDENCE_FEATURE \<and>
     pa_action a \<in> set (reg_allowed (POLICY_REGIONS family)) \<and>
     (0 \<le> pa_targetSlot a \<and> pa_targetSlot a < 256 \<or> pa_action a = abstain \<and> pa_targetSlot a = 0xffff) \<and>
     fits 16 (pa_budget a) \<and> fits 8 (pa_flags a) \<and> fits 40 (pa_validFromEpoch a) \<and> fits 40 (pa_expiryEpoch a) \<and>
     \<not> (pa_validFromEpoch a > 0 \<and> pa_expiryEpoch a > 0 \<and> pa_validFromEpoch a > pa_expiryEpoch a)"

definition atom_word :: "PolicyAtom \<Rightarrow> bigint" where
  "atom_word a = push_bit 248 (pa_selector a) OR push_bit 240 (pa_evidenceFeature a)
        OR push_bit 236 (POLICY_ACTION_TO_BITS (pa_action a)) OR push_bit 232 (POLICY_SCOPE_TO_BITS (pa_scope a))
        OR push_bit 216 (pa_targetSlot a) OR push_bit 200 (pa_budget a) OR push_bit 192 (pa_flags a)
        OR push_bit 152 (pa_validFromEpoch a) OR push_bit 112 (pa_expiryEpoch a)"

lemma valid_code_fits:
  "s \<in> set VALID_SELECTOR \<Longrightarrow> fits 8 s \<and> 0 < s" "s \<in> set VALID_EVIDENCE_FEATURE \<Longrightarrow> fits 8 s \<and> 0 < s"
  by (auto simp: VALID_SELECTOR_def VALID_EVIDENCE_FEATURE_def fits_iff)

lemma atom_ok_fits:
  assumes "atom_ok family k a"
  shows "fits 8 (pa_selector a)" "fits 8 (pa_evidenceFeature a)" "fits 16 (pa_targetSlot a)"
    "fits 16 (pa_budget a)" "fits 8 (pa_flags a)" "fits 40 (pa_validFromEpoch a)" "fits 40 (pa_expiryEpoch a)"
  using assms valid_code_fits by (auto simp: atom_ok_def) (auto simp: fits_iff)

lemma encodePolicyAtom_ok: "atom_ok family k a \<Longrightarrow> encodePolicyAtom a = Inr (atom_word a)"
  using valid_code_fits [of "pa_selector a"] valid_code_fits [of "pa_evidenceFeature a"]
  by (auto simp: atom_ok_def encodePolicyAtom_def atom_word_def drop_bit_zero_iff fits_iff)

lemma atom_word_fields:
  assumes "atom_ok family k a"
  shows "take_bit 8 (drop_bit 248 (atom_word a)) = pa_selector a"
    "take_bit 8 (drop_bit 240 (atom_word a)) = pa_evidenceFeature a"
    "take_bit 4 (drop_bit 236 (atom_word a)) = POLICY_ACTION_TO_BITS (pa_action a)"
    "take_bit 4 (drop_bit 232 (atom_word a)) = POLICY_SCOPE_TO_BITS (pa_scope a)"
    "take_bit 16 (drop_bit 216 (atom_word a)) = pa_targetSlot a"
    "take_bit 16 (drop_bit 200 (atom_word a)) = pa_budget a"
    "take_bit 8 (drop_bit 192 (atom_word a)) = pa_flags a"
    "take_bit 40 (drop_bit 152 (atom_word a)) = pa_validFromEpoch a"
    "take_bit 40 (drop_bit 112 (atom_word a)) = pa_expiryEpoch a"
    "take_bit 112 (atom_word a) = 0"
proof -
  note f = atom_ok_fits [OF assms] action_bits(2) [of "pa_action a"] scope_bits(2) [of "pa_scope a"]
  note [simp] = f [THEN fits_take] f [THEN fits_drop]
  show "take_bit 8 (drop_bit 248 (atom_word a)) = pa_selector a"
    "take_bit 8 (drop_bit 240 (atom_word a)) = pa_evidenceFeature a"
    "take_bit 4 (drop_bit 236 (atom_word a)) = POLICY_ACTION_TO_BITS (pa_action a)"
    "take_bit 4 (drop_bit 232 (atom_word a)) = POLICY_SCOPE_TO_BITS (pa_scope a)"
    "take_bit 16 (drop_bit 216 (atom_word a)) = pa_targetSlot a"
    "take_bit 16 (drop_bit 200 (atom_word a)) = pa_budget a"
    "take_bit 8 (drop_bit 192 (atom_word a)) = pa_flags a"
    "take_bit 40 (drop_bit 152 (atom_word a)) = pa_validFromEpoch a"
    "take_bit 40 (drop_bit 112 (atom_word a)) = pa_expiryEpoch a"
    "take_bit 112 (atom_word a) = 0"
    by (simp_all add: atom_word_def bits_simps)
qed

lemma decode_atom_word_enc:
  assumes "atom_ok family k a"
  shows "decode_atom_word family k (atom_word a) = Decoded a"
proof -
  have "atom_word a \<noteq> 0"
    using atom_word_fields(1) [OF assms] valid_code_fits assms by (force simp: atom_ok_def)
  then show ?thesis
    using assms by (auto simp: decode_atom_word_def atom_word_fields [OF assms] atom_ok_def)
qed

lemma action_bits_inv: "POLICY_ACTION_BY_BITS b = Some a \<Longrightarrow> POLICY_ACTION_TO_BITS a = b"
  by (auto simp: POLICY_ACTION_BY_BITS_def split: if_splits)

lemma scope_bits_inv: "POLICY_SCOPE_BY_BITS b = Some a \<Longrightarrow> POLICY_SCOPE_TO_BITS a = b"
  by (auto simp: POLICY_SCOPE_BY_BITS_def split: if_splits)

lemma relation_bits_inv: "RELATION_TYPE_BY_BITS b = Some a \<Longrightarrow> relationTypeToBits a = b"
  by (auto simp: RELATION_TYPE_BY_BITS_def split: if_splits)

lemma u256_fits: "u256 w \<longleftrightarrow> fits 256 w"
  by (simp add: u256_take_bit fits_def)

lemma atom_word_split:
  assumes "u256 w"
  shows "w = push_bit 248 (take_bit 8 (drop_bit 248 w)) OR push_bit 240 (take_bit 8 (drop_bit 240 w))
    OR push_bit 236 (take_bit 4 (drop_bit 236 w)) OR push_bit 232 (take_bit 4 (drop_bit 232 w))
    OR push_bit 216 (take_bit 16 (drop_bit 216 w)) OR push_bit 200 (take_bit 16 (drop_bit 200 w))
    OR push_bit 192 (take_bit 8 (drop_bit 192 w)) OR push_bit 152 (take_bit 40 (drop_bit 152 w))
    OR push_bit 112 (take_bit 40 (drop_bit 112 w)) OR take_bit 112 w"
  using split_bits [of 248 8 w] split_bits [of 240 8 w] split_bits [of 236 4 w] split_bits [of 232 4 w]
    split_bits [of 216 16 w] split_bits [of 200 16 w] split_bits [of 192 8 w] split_bits [of 152 40 w]
    split_bits [of 112 40 w] assms
  by (simp add: u256_take_bit)

lemma decode_atom_word_sound:
  assumes "decode_atom_word family k w = Decoded a"
  shows "atom_ok family k a \<and> (u256 w \<longrightarrow> atom_word a = w)"
proof -
  from assms obtain action scope where
    bits: "POLICY_ACTION_BY_BITS (take_bit 4 (drop_bit 236 w)) = Some action"
      "POLICY_SCOPE_BY_BITS (take_bit 4 (drop_bit 232 w)) = Some scope"
    and res: "take_bit 112 w = 0"
    and a: "a = \<lparr>pa_atomIndex = k, pa_family = family, pa_selector = take_bit 8 (drop_bit 248 w),
      pa_evidenceFeature = take_bit 8 (drop_bit 240 w), pa_action = action, pa_scope = scope,
      pa_targetSlot = take_bit 16 (drop_bit 216 w), pa_budget = take_bit 16 (drop_bit 200 w),
      pa_flags = take_bit 8 (drop_bit 192 w), pa_validFromEpoch = take_bit 40 (drop_bit 152 w),
      pa_expiryEpoch = take_bit 40 (drop_bit 112 w)\<rparr>"
    by (auto simp: decode_atom_word_def Let_def split: if_splits option.splits)
  have "atom_ok family k a"
    using assms bits by (auto simp: decode_atom_word_def Let_def a atom_ok_def split: if_splits)
  moreover have "atom_word a = w" if "u256 w"
    using atom_word_split [OF that] res
    by (simp add: atom_word_def a action_bits_inv [OF bits(1)] scope_bits_inv [OF bits(2)] or.assoc)
  ultimately show ?thesis by blast
qed

lemma atom_word_u256: "atom_ok family k a \<Longrightarrow> u256 (atom_word a)"
  by (simp add: u256_take_bit atom_word_def bits_simps
      atom_ok_fits [THEN fits_take] action_bits(2) [THEN fits_take] scope_bits(2) [THEN fits_take])

section \<open>The contract of a word codec\<close>

lemma failures_update_Decoded:
  "failures (os[k := Decoded a]) \<le> failures os"
proof (cases "k < length os")
  case True
  then show ?thesis
    by (subst (2) id_take_nth_drop [OF True], simp add: upd_conv_take_nth_drop failures_def)
qed (simp add: not_less list_update_beyond)

locale word_codec =
  fixes enc :: "'a \<Rightarrow> bigint js" and dec :: "nat \<Rightarrow> bigint \<Rightarrow> 'a outcome"
    and ok :: "nat \<Rightarrow> 'a \<Rightarrow> bool" and start count :: nat
  assumes enc_dec: "ok k a \<Longrightarrow> \<exists>w. enc a = Inr w \<and> u256 w \<and> dec k w = Decoded a"
    and dec_Empty: "dec k w = Empty \<longleftrightarrow> w = 0"
begin

definition region :: "bigint list \<Rightarrow> 'a outcome list" where
  "region ws = map (\<lambda>k. dec k (nth_or 0 ws (start + k))) [0..<count]"

lemma length_region [simp]: "length (region ws) = count"
  by (simp add: region_def)

lemma enc_inj: "ok k a \<Longrightarrow> ok k b \<Longrightarrow> enc a = enc b \<Longrightarrow> a = b"
  using enc_dec [of k a] enc_dec [of k b] by auto

lemma region_write:
  assumes "k < count" "start + count \<le> length ws"
  shows "region (ws[start + k := w]) = (region ws)[k := dec k w]"
  by (rule nth_equalityI) (use assms in \<open>auto simp: region_def nth_or_update nth_list_update\<close>)

lemma region_frame:
  assumes "i < start \<or> start + count \<le> i"
  shows "region (ws[i := w]) = region ws"
  using assms by (auto simp: region_def nth_or_update)

lemma write_read:
  assumes "k < count" "start + count \<le> length ws" "ok k a"
  shows "\<exists>w. enc a = Inr w \<and> region (ws[start + k := w]) = (region ws)[k := Decoded a]"
  using enc_dec [OF assms(3)] region_write [OF assms(1,2)] by auto

lemma write_no_new_failure:
  assumes "k < count" "start + count \<le> length ws" "ok k a" "enc a = Inr w"
  shows "failures (region (ws[start + k := w])) \<le> failures (region ws)"
  using write_read [OF assms(1-3)] assms(4) failures_update_Decoded by auto

lemma region_empty: "region (replicate n 0) = replicate count Empty"
  using dec_Empty by (auto simp: region_def intro!: nth_equalityI)

lemma clear_removes: 
  assumes "k < count" "start + count \<le> length ws"
  shows "region (ws[start + k := 0]) = (region ws)[k := Empty]"
  using region_write [OF assms] dec_Empty [of k 0] by simp

end

text \<open>A canonical codec has no second spelling of an entry.\<close>

locale canonical_codec = word_codec +
  assumes dec_ok: "dec k w = Decoded a \<Longrightarrow> ok k a"
    and dec_enc: "u256 w \<Longrightarrow> dec k w = Decoded a \<Longrightarrow> enc a = Inr w"
begin

lemma dec_inj: "u256 v \<Longrightarrow> u256 w \<Longrightarrow> dec k v = Decoded a \<Longrightarrow> dec k w = Decoded a \<Longrightarrow> v = w"
  using dec_enc [of v k a] dec_enc [of w k a] by simp

lemma decoded_iff: "u256 w \<Longrightarrow> dec k w = Decoded a \<longleftrightarrow> ok k a \<and> enc a = Inr w"
  using dec_enc dec_ok enc_dec by fastforce

end

lemma decode_atom_Empty: "decode_atom_word family k w = Empty \<longleftrightarrow> w = 0"
  by (auto simp: decode_atom_word_def Let_def split: if_splits option.splits)

interpretation atom: canonical_codec encodePolicyAtom "decode_atom_word family" "atom_ok family"
  "reg_start (POLICY_REGIONS family)" "reg_count (POLICY_REGIONS family)" for family
proof unfold_locales
  show "\<exists>w. encodePolicyAtom a = Inr w \<and> u256 w \<and> decode_atom_word family k w = Decoded a" if "atom_ok family k a" for k a
    using that encodePolicyAtom_ok atom_word_u256 decode_atom_word_enc by blast
  show "decode_atom_word family k w = Empty \<longleftrightarrow> w = 0" for k w
    by (rule decode_atom_Empty)
  show "atom_ok family k a" if "decode_atom_word family k w = Decoded a" for k w a
    using decode_atom_word_sound [OF that] by simp
  show "encodePolicyAtom a = Inr w" if "u256 w" "decode_atom_word family k w = Decoded a" for w k a
    using decode_atom_word_sound [OF that(2)] encodePolicyAtom_ok that(1) by blast
qed

section \<open>Relations\<close>

fun relation_ok :: "nat \<Rightarrow> RelationEntry \<Rightarrow> bool" where
  "relation_ok k (Edge e) \<longleftrightarrow> re_entryIndex e = k \<and> 0 < re_weight e \<and> fits 16 (re_weight e) \<and>
     fits 8 (re_sourceSlot e) \<and> fits 8 (re_targetSlot e)"
| "relation_ok k (Lens l) \<longleftrightarrow> cl_entryIndex l = k \<and> 0 < cl_weight l \<and> fits 16 (cl_weight l)"

fun encode_relation :: "RelationEntry \<Rightarrow> bigint js" where
  "encode_relation (Edge e) = encodeRelationEdge e"
| "encode_relation (Lens l) = encodeRelationCategoryLens l"

lemma and_mask_lits: "w AND 0x7FFF = take_bit 15 w" "w AND 0xf = take_bit 4 w" for w :: int
  by (simp_all add: take_bit_eq_mask mask_eq_exp_minus_1)

lemma field_lit: "field w s 0xf = take_bit 4 (drop_bit s w)"
  by (simp add: field_def and_mask_lits)

lemma decode_relation_edge:
  assumes "relation_ok k (Edge e)"
  shows "\<exists>w. encodeRelationEdge e = Inr w \<and> u256 w \<and> decode_relation_word k w = Decoded (Edge e)"
proof -
  have f: "fits 16 (re_weight e)" "fits 8 (re_sourceSlot e)" "fits 8 (re_targetSlot e)" "0 < re_weight e"
    using assms by simp_all
  note [simp] = f(1-3) [THEN fits_take] f(1-3) [THEN fits_drop] relation_bits(2) [THEN fits_take] relation_bits(2) [THEN fits_drop]
  let ?w = "push_bit 240 (re_weight e) OR push_bit 224 (relationTypeToBits (re_edgeType e))
    OR push_bit 96 (re_sourceSlot e) OR re_targetSlot e"
  have enc: "encodeRelationEdge e = Inr ?w"
    using f by (auto simp: encodeRelationEdge_def fits_iff)
  have u: "u256 ?w" by (simp add: u256_take_bit bits_simps)
  have w: "take_bit 16 (drop_bit 240 ?w) = re_weight e" by (simp add: bits_simps)
  then have nz: "?w \<noteq> 0" using f(4) by (metis drop_bit_of_0 less_irrefl take_bit_of_0)
  have "decode_relation_word k ?w = Decoded (Edge e)"
    unfolding decode_relation_word_def using nz w f assms
    by (simp add: Let_def bits_simps and_mask_lits fits_iff)
  with enc u show ?thesis by blast
qed

lemma decode_relation_lens:
  assumes "relation_ok k (Lens l)"
  shows "\<exists>w. encodeRelationCategoryLens l = Inr w \<and> u256 w \<and> decode_relation_word k w = Decoded (Lens l)"
proof -
  have f: "fits 16 (cl_weight l)" "0 < cl_weight l" using assms by simp_all
  note [simp] = f(1) [THEN fits_take] f(1) [THEN fits_drop] relation_bits(2) [THEN fits_take] relation_bits(2) [THEN fits_drop]
  let ?w = "push_bit 240 (cl_weight l) OR push_bit 224 (relationTypeToBits (cl_edgeType l)) OR push_bit 223 1"
  have enc: "encodeRelationCategoryLens l = Inr ?w"
    using f by (auto simp: encodeRelationCategoryLens_def fits_iff)
  have u: "u256 ?w" by (simp add: u256_take_bit bits_simps del: push_bit_of_1)
  have w: "take_bit 16 (drop_bit 240 ?w) = cl_weight l" by (simp add: bits_simps del: push_bit_of_1)
  then have nz: "?w \<noteq> 0" using f(2) by (metis drop_bit_of_0 less_irrefl take_bit_of_0)
  have "decode_relation_word k ?w = Decoded (Lens l)"
    unfolding decode_relation_word_def using nz w f assms
    by (simp add: Let_def bits_simps and_mask_lits del: push_bit_of_1)
  with enc u show ?thesis by blast
qed

lemma relation_word_split:
  assumes "u256 w"
  shows "w = push_bit 240 (take_bit 16 (drop_bit 240 w)) OR push_bit 224 (take_bit 16 (drop_bit 224 w))
    OR push_bit 208 (take_bit 16 (drop_bit 208 w)) OR push_bit 192 (take_bit 16 (drop_bit 192 w))
    OR push_bit 96 (take_bit 96 (drop_bit 96 w)) OR take_bit 96 w"
  using split_bits [of 240 16 w] split_bits [of 224 16 w] split_bits [of 208 16 w] split_bits [of 192 16 w]
    split_bits [of 96 96 w] assms
  by (simp add: u256_take_bit)

lemma top_bit_cases:
  fixes x :: int
  assumes "take_bit 15 (take_bit 16 x) = 0"
  shows "take_bit 16 x = (if drop_bit 15 (take_bit 16 x) = 1 then push_bit 15 1 else 0)"
proof -
  have 1: "take_bit 16 x = push_bit 15 (take_bit 1 (drop_bit 15 x)) OR take_bit 15 x"
    using split_bits [of 15 1 x] by simp
  have 2: "drop_bit 15 (take_bit 16 x) = take_bit 1 (drop_bit 15 x)"
    by (simp add: drop_bit_take_bit)
  have "take_bit 1 (drop_bit 15 x) = 0 \<or> take_bit 1 (drop_bit 15 x) = 1"
    by (simp add: take_bit_eq_mod) presburger
  then show ?thesis using 1 2 assms by auto
qed

lemma decode_relation_Edge_sound:
  assumes "decode_relation_word k w = Decoded (Edge e)"
  shows "relation_ok k (Edge e) \<and> (u256 w \<longrightarrow> encodeRelationEdge e = Inr w)"
proof -
  from assms obtain ty where
    ty: "RELATION_TYPE_BY_BITS (take_bit 16 (drop_bit 224 w)) = Some ty"
    and wt: "take_bit 16 (drop_bit 240 w) \<noteq> 0"
    and res: "take_bit 15 (take_bit 16 (drop_bit 208 w)) = 0" "drop_bit 15 (take_bit 16 (drop_bit 208 w)) \<noteq> 1"
      "take_bit 16 (drop_bit 192 w) = 0"
    and slots: "fits 8 (take_bit 96 (drop_bit 96 w))" "fits 8 (take_bit 96 w)"
    and e: "e = \<lparr>re_entryIndex = k, re_weight = take_bit 16 (drop_bit 240 w), re_edgeType = ty,
      re_sourceSlot = take_bit 8 (take_bit 96 (drop_bit 96 w)), re_targetSlot = take_bit 8 (take_bit 96 w)\<rparr>"
    by (auto simp: decode_relation_word_def Let_def and_mask_lits drop_bit_zero_iff split: if_splits option.splits)
  have wt': "0 < take_bit 16 (drop_bit 240 w)" using wt by (simp add: order_less_le)
  then have ok: "relation_ok k (Edge e)" by (simp add: e)
  moreover have "encodeRelationEdge e = Inr w" if "u256 w"
  proof -
    have "take_bit 16 (drop_bit 208 w) = 0" using top_bit_cases [OF res(1)] res(2) by simp
    then have "w = push_bit 240 (re_weight e) OR push_bit 224 (relationTypeToBits (re_edgeType e))
        OR push_bit 96 (re_sourceSlot e) OR re_targetSlot e"
      using relation_word_split [OF that] res(3) slots [THEN fits_take, of 8]
      by (simp add: e relation_bits_inv [OF ty] del: take_bit_take_bit)
    then show ?thesis using ok by (auto simp: encodeRelationEdge_def fits_iff)
  qed
  ultimately show ?thesis by blast
qed

lemma decode_relation_Lens_sound:
  assumes "decode_relation_word k w = Decoded (Lens l)"
  shows "relation_ok k (Lens l) \<and> (u256 w \<longrightarrow> encodeRelationCategoryLens l = Inr w)"
proof -
  from assms obtain ty where
    ty: "RELATION_TYPE_BY_BITS (take_bit 16 (drop_bit 224 w)) = Some ty"
    and wt: "take_bit 16 (drop_bit 240 w) \<noteq> 0"
    and res: "take_bit 15 (take_bit 16 (drop_bit 208 w)) = 0" "drop_bit 15 (take_bit 16 (drop_bit 208 w)) = 1"
      "take_bit 16 (drop_bit 192 w) = 0" "take_bit 96 (drop_bit 96 w) = 0" "take_bit 96 w = 0"
    and l: "l = \<lparr>cl_entryIndex = k, cl_weight = take_bit 16 (drop_bit 240 w), cl_edgeType = ty\<rparr>"
    by (auto simp: decode_relation_word_def Let_def and_mask_lits split: if_splits option.splits)
  have "0 < take_bit 16 (drop_bit 240 w)" using wt by (simp add: order_less_le)
  then have ok: "relation_ok k (Lens l)" by (simp add: l)
  moreover have "encodeRelationCategoryLens l = Inr w" if "u256 w"
  proof -
    have "push_bit 208 (take_bit 16 (drop_bit 208 w)) = push_bit 223 1"
      using top_bit_cases [OF res(1)] res(2) by (simp del: push_bit_of_1)
    then have "w = push_bit 240 (cl_weight l) OR push_bit 224 (relationTypeToBits (cl_edgeType l)) OR push_bit 223 1"
      using relation_word_split [OF that] res
      by (simp add: l relation_bits_inv [OF ty] del: push_bit_of_1)
    then show ?thesis using ok by (auto simp: encodeRelationCategoryLens_def fits_iff)
  qed
  ultimately show ?thesis by blast
qed

lemma decode_relation_Empty: "decode_relation_word k w = Empty \<longleftrightarrow> w = 0"
  by (auto simp: decode_relation_word_def Let_def split: if_splits option.splits)

interpretation relation: canonical_codec encode_relation decode_relation_word relation_ok RELATIONS_START RELATIONS_ENTRY_COUNT
proof unfold_locales
  show "\<exists>w. encode_relation a = Inr w \<and> u256 w \<and> decode_relation_word k w = Decoded a" if "relation_ok k a" for k a
    using that decode_relation_edge decode_relation_lens by (cases a) auto
  show "decode_relation_word k w = Empty \<longleftrightarrow> w = 0" for k w
    by (rule decode_relation_Empty)
  show "relation_ok k a" if "decode_relation_word k w = Decoded a" for k w a
    using that decode_relation_Edge_sound decode_relation_Lens_sound by (cases a) blast+
  show "encode_relation a = Inr w" if "u256 w" "decode_relation_word k w = Decoded a" for w k a
    using that decode_relation_Edge_sound decode_relation_Lens_sound by (cases a) auto
qed

section \<open>Temporal records\<close>

text \<open>The all-zero record encodes to the empty word, which the decoder skips.\<close>

definition temporal_ok :: "nat \<Rightarrow> TemporalRecord \<Rightarrow> bool" where
  "temporal_ok k r \<longleftrightarrow> tr_recordIndex r = k \<and> fits 8 (tr_memorySlot r) \<and> fits 8 (tr_supersededBy r) \<and>
     fits 40 (tr_validFromEpoch r) \<and> fits 40 (tr_validUntilEpoch r) \<and> tr_validFromEpoch r \<le> tr_validUntilEpoch r \<and>
     (tr_memorySlot r \<noteq> 0 \<or> tr_supersededBy r \<noteq> 0 \<or> tr_validUntilEpoch r \<noteq> 0 \<or> tr_currentStaleFlag r)"

definition encode_temporal :: "TemporalRecord \<Rightarrow> bigint js" where
  "encode_temporal r = js_bind (encodeTemporalRecord r) (\<lambda>ws. Inr (ws ! 0))"

lemma decode_temporal_enc:
  assumes "temporal_ok k r"
  shows "\<exists>w. encode_temporal r = Inr w \<and> u256 w \<and> decode_temporal_word k w = Decoded r"
proof -
  have f: "fits 8 (tr_memorySlot r)" "fits 8 (tr_supersededBy r)" "fits 40 (tr_validFromEpoch r)" "fits 40 (tr_validUntilEpoch r)"
    using assms by (simp_all add: temporal_ok_def)
  note [simp] = f [THEN fits_take] f [THEN fits_drop]
  define fl :: int where "fl = (if tr_currentStaleFlag r then 1 else 0)"
  have fl: "fits 8 fl" "fits 1 fl" "fl AND 1 \<noteq> 0 \<longleftrightarrow> tr_currentStaleFlag r" by (auto simp: fl_def fits_iff)
  note [simp] = fl(1) [THEN fits_take] fl(2) [THEN fits_drop]
  define w where "w = push_bit 248 (tr_memorySlot r) OR push_bit 240 (tr_supersededBy r)
    OR push_bit 200 (tr_validFromEpoch r) OR push_bit 160 (tr_validUntilEpoch r) OR push_bit 152 fl"
  have enc: "encode_temporal r = Inr w"
    using f assms by (auto simp: encode_temporal_def encodeTemporalRecord_def temporal_ok_def w_def fl_def
        drop_bit_zero_iff fits_iff)
  have u: "u256 w" by (simp add: u256_take_bit bits_simps w_def)
  have fields: "take_bit 8 (drop_bit 248 w) = tr_memorySlot r" "take_bit 8 (drop_bit 240 w) = tr_supersededBy r"
    "take_bit 40 (drop_bit 200 w) = tr_validFromEpoch r" "take_bit 40 (drop_bit 160 w) = tr_validUntilEpoch r"
    "take_bit 8 (drop_bit 152 w) = fl" "take_bit 152 w = 0"
    by (simp_all add: w_def bits_simps)
  have nz: "w \<noteq> 0"
  proof
    assume "w = 0"
    with fields have "tr_memorySlot r = 0" "tr_supersededBy r = 0" "tr_validUntilEpoch r = 0" "fl = 0" by auto
    with assms show False by (auto simp: temporal_ok_def fl_def)
  qed
  have "decode_temporal_word k w = Decoded r"
    using nz assms f fl(3) by (auto simp: decode_temporal_word_def fields temporal_ok_def fits_iff)
  with enc u show ?thesis by blast
qed

interpretation temporal: word_codec encode_temporal decode_temporal_word temporal_ok TEMPORAL_START TEMPORAL_RECORD_COUNT
proof unfold_locales
  show "\<exists>w. encode_temporal a = Inr w \<and> u256 w \<and> decode_temporal_word k w = Decoded a" if "temporal_ok k a" for k a
    using that by (rule decode_temporal_enc)
  show "decode_temporal_word k w = Empty \<longleftrightarrow> w = 0" for k w
    by (auto simp: decode_temporal_word_def Let_def split: if_splits)
qed

section \<open>MemoryIndex slots\<close>

definition memory_ok :: "nat \<Rightarrow> MemoryIndexSlot \<Rightarrow> bool" where
  "memory_ok k m \<longleftrightarrow> mi_slotIndex m = k \<and> mi_recordId m \<noteq> 0 \<and> fits 128 (mi_recordId m) \<and> fits 60 (mi_domainBits m) \<and>
     mi_valid m \<and> 0 \<le> mi_retrievalSlot m \<and> mi_retrievalSlot m < 36 \<and> fits 40 (mi_expiryEpoch m)"

definition encode_memory :: "MemoryIndexSlot \<Rightarrow> bigint js" where
  "encode_memory m = js_bind (encodeMemoryIndexSlot m) (\<lambda>ws. Inr (ws ! 0))"

lemma memory_flags_bits:
  "fits 4 (memory_flags m)" "memory_flags m AND 1 \<noteq> 0 \<longleftrightarrow> mi_valid m" "memory_flags m AND 2 \<noteq> 0 \<longleftrightarrow> mi_revoked m"
  "memory_flags m AND 4 \<noteq> 0 \<longleftrightarrow> mi_protected m" "memory_flags m AND 8 \<noteq> 0 \<longleftrightarrow> mi_policyAnchor m"
  by (simp_all add: memory_flags_def fits_iff)

lemma decode_memory_enc:
  assumes "memory_ok k m"
  shows "\<exists>w. encode_memory m = Inr w \<and> u256 w \<and> decode_memory_word k w = Decoded m"
proof -
  have f: "fits 128 (mi_recordId m)" "fits 60 (mi_domainBits m)" "fits 40 (mi_expiryEpoch m)" "fits 8 (mi_retrievalSlot m)"
    using assms by (auto simp: memory_ok_def fits_iff)
  let ?fl = "memory_flags m"
  note fl = memory_flags_bits [of m]
  note [simp] = f [THEN fits_take] f [THEN fits_drop] fl(1) [THEN fits_take] fl(1) [THEN fits_drop]
    family_bits(2) [THEN fits_take] family_bits(2) [THEN fits_drop]
  define w where "w = push_bit 128 (mi_recordId m) OR push_bit 64 (push_bit 60 (familyToBits (mi_family m)) OR mi_domainBits m)
    OR push_bit 48 ?fl OR push_bit 40 (mi_retrievalSlot m) OR mi_expiryEpoch m"
  have enc: "encode_memory m = Inr w"
    using assms f by (simp add: encode_memory_def encodeMemoryIndexSlot_def memory_ok_def w_def drop_bit_zero_iff)
  have u: "u256 w" by (simp add: u256_take_bit bits_simps w_def push_bit_or)
  have fields: "take_bit 128 (drop_bit 128 w) = mi_recordId m" "take_bit 4 (drop_bit 124 w) = familyToBits (mi_family m)"
    "take_bit 60 (drop_bit 64 w) = mi_domainBits m" "take_bit 16 (drop_bit 48 w) = ?fl"
    "take_bit 8 (drop_bit 40 w) = mi_retrievalSlot m" "take_bit 40 w = mi_expiryEpoch m"
    unfolding w_def push_bit_or push_bit_push_bit by (simp_all add: bits_simps)
  have nz: "w \<noteq> 0" using fields(1) assms by (auto simp: memory_ok_def)
  have "decode_memory_word k w = Decoded m"
    using nz assms fl(2-5) by (simp add: decode_memory_word_def Let_def fields field_lit memory_ok_def)
  with enc u show ?thesis by blast
qed

interpretation memory: word_codec encode_memory decode_memory_word memory_ok MEMORY_INDEX_START MEMORY_INDEX_SLOT_COUNT
proof unfold_locales
  show "\<exists>w. encode_memory a = Inr w \<and> u256 w \<and> decode_memory_word k w = Decoded a" if "memory_ok k a" for k a
    using that by (rule decode_memory_enc)
  show "decode_memory_word k w = Empty \<longleftrightarrow> w = 0" for k w
    by (auto simp: decode_memory_word_def Let_def split: if_splits option.splits)
qed

section \<open>Codebook entries\<close>

definition codebook_ok :: "nat \<Rightarrow> CodebookEntry \<Rightarrow> bool" where
  "codebook_ok k e \<longleftrightarrow> cb_entryIndex e = k \<and> 0 < cb_code e \<and> fits 16 (cb_code e) \<and> cb_valid e \<and> fits 208 (cb_payload e)"

lemma decode_codebook_enc:
  assumes "codebook_ok k e"
  shows "\<exists>w0 w1. encodeCodebookEntry e = Inr [w0, w1] \<and> decode_codebook_entry k w0 w1 = Decoded e"
proof -
  define ty :: int where "ty = (if cb_codeType e = int8_scale_zero then 1 else 2)"
  have ty: "fits 2 ty" "CODE_TYPE_BY_BITS ty = Some (cb_codeType e)"
    by (cases "cb_codeType e"; simp add: ty_def fits_iff CODE_TYPE_BY_BITS_def)+
  have f: "fits 16 (cb_code e)" "fits 208 (cb_payload e)" using assms by (simp_all add: codebook_ok_def)
  note [simp] = f [THEN fits_take] f [THEN fits_drop] ty(1) [THEN fits_take] ty(1) [THEN fits_drop]
  define w where "w = push_bit 240 (cb_code e) OR push_bit 224 ty OR push_bit 208 1 OR cb_payload e"
  have enc: "encodeCodebookEntry e = Inr [w, cb_payloadCont e]"
    using assms f by (auto simp: encodeCodebookEntry_def codebook_ok_def w_def ty_def Let_def drop_bit_zero_iff fits_iff)
  have fields: "take_bit 16 (drop_bit 240 w) = cb_code e" "take_bit 16 (drop_bit 224 w) = ty"
    "take_bit 16 (drop_bit 208 w) = 1" "take_bit 208 w = cb_payload e"
    by (simp_all add: w_def bits_simps del: push_bit_of_1)
  have "w \<noteq> 0" using fields(1) assms by (auto simp: codebook_ok_def)
  then have "decode_codebook_entry k w (cb_payloadCont e) = Decoded e"
    using assms by (auto simp: decode_codebook_entry_def fields ty(2) codebook_ok_def)
  with enc show ?thesis by blast
qed

section \<open>Retrieval keys\<close>

lemma be_bytes_map: "be_bytes n v = map (\<lambda>b. word_of_int (v div 256 ^ (n - 1 - b))) [0..<n]"
proof (induction n arbitrary: v)
  case (Suc n)
  have "(v div 256) div 256 ^ (n - 1 - b) = v div 256 ^ (n - b)" if "b < n" for b
  proof -
    have "256 ^ (n - b) = (256::int) * 256 ^ (n - 1 - b)"
      using that by (metis Suc_diff_Suc diff_Suc_1 diff_commute diff_diff_left plus_1_eq_Suc power_Suc)
    then show ?thesis by (simp add: zdiv_zmult2_eq)
  qed
  then show ?case by (simp add: Suc.IH)
qed simp

lemma nthByte_bytes: "map (\<lambda>b. word_of_int (nthByte w b)) [0..<32] = be_bytes 32 w"
proof -
  have "(word_of_int (nthByte w b) :: u8) = word_of_int (w div 256 ^ (31 - b))" for b
    by (simp add: nthByte_def and_ff byte_of_int_mod drop_bit_eq_div power_mult [symmetric] mult.commute
        flip: power_mult [of "2::int" 8, simplified])
  then show ?thesis by (simp add: be_bytes_map)
qed

lemma wordsToBytes_eq: "wordsToBytes ws start n = concat (map (\<lambda>w. be_bytes 32 (nth_or 0 ws (start + w))) [0..<n])"
  by (simp add: wordsToBytes_def nthByte_bytes)

definition key_slot_bytes :: "RetrievalKeySlot \<Rightarrow> bytes \<Rightarrow> nat \<Rightarrow> bytes" where
  "key_slot_bytes slot hash h = rk_versionTag slot # hash @ be_bytes 4 (uint (rk_l2Norm slot))
     @ replicate (h - 9) 0 @ rk_quantizedBytes slot"

definition key_ok :: "nat \<Rightarrow> nat \<Rightarrow> bytes \<Rightarrow> RetrievalKeySlot \<Rightarrow> bool" where
  "key_ok h k hash slot \<longleftrightarrow> rk_slotIndex slot = k \<and> length hash = 4 \<and> rk_modelIdHash slot = bytesToHex hash \<and>
     rk_versionTag slot = 1 \<and> f32_finite (rk_l2Norm slot) \<and> f32_positive (rk_l2Norm slot) \<and>
     9 \<le> h \<and> h \<le> 256 \<and> length (rk_quantizedBytes slot) = 256 - h"

lemma foldl_update_run:
  "k + n \<le> length out \<Longrightarrow> foldl (\<lambda>out i. out[k + i := f i]) out [0..<n] = take k out @ map f [0..<n] @ drop (k + n) out"
proof (induction n)
  case (Suc n)
  then show ?case
    by (simp add: list_update_append Cons_nth_drop_Suc [symmetric])
qed simp

lemma hash_bytes_loop:
  assumes "length hash = 4" "length out = 256"
  shows "foldl (\<lambda>out i. out[1 + i := (case parseInt16 (take 2 (drop (i * 2) (concat (map byte_hex hash)))) of
      None \<Rightarrow> 0 | Some v \<Rightarrow> word_of_int v)]) out [0..<4] = take 1 out @ hash @ drop 5 out"
proof -
  have "map (\<lambda>i. case parseInt16 (take 2 (drop (i * 2) (concat (map byte_hex hash)))) of
      None \<Rightarrow> 0 | Some v \<Rightarrow> word_of_int v) [0..<4] = hash"
    by (rule nth_equalityI) (use assms in \<open>simp_all add: take_drop_byte_hex parseInt16_byte_hex\<close>)
  then show ?thesis using assms by (subst foldl_update_run) simp_all
qed

lemma length_key_slot_bytes: "key_ok h k hash slot \<Longrightarrow> length (key_slot_bytes slot hash h) = 256"
  by (simp add: key_slot_bytes_def key_ok_def)

lemma write_key_header_eq:
  assumes "length hash = 4"
  shows "write_key_header slot (concat (map byte_hex hash))
    = rk_versionTag slot # hash @ be_bytes 4 (uint (rk_l2Norm slot)) @ replicate 247 0"
proof -
  have out: "(replicate 256 (0::u8))[0 := rk_versionTag slot] = rk_versionTag slot # replicate 255 0"
    using replicate_Suc [of 255 "0::u8"] by simp
  show ?thesis
    using assms by (simp add: write_key_header_def Let_def hash_bytes_loop [simplified] out)
qed

lemma encodeRetrievalKeySlot_eq:
  assumes "key_ok h k hash slot" "h = (case hb of None \<Rightarrow> 9 | Some h \<Rightarrow> h)"
  shows "encodeRetrievalKeySlot slot hb
    = Inr (map (\<lambda>w. be_val (take 32 (drop (w * 32) (key_slot_bytes slot hash h)))) [0..<8])"
proof -
  note ok = assms(1) [unfolded key_ok_def]
  have hex: "take 2 (rk_modelIdHash slot) = ''0x''" "drop 2 (rk_modelIdHash slot) = concat (map byte_hex hash)"
    "length hash = 4"
    using ok by (simp_all add: bytesToHex_eq)
  have q: "\<not> int (length (rk_quantizedBytes slot)) > int 256 - int h"
    using ok by (simp add: of_nat_diff)
  let ?out = "write_key_header slot (concat (map byte_hex hash))"
  obtain j where "h = 9 + j" using ok le_Suc_ex [of 9 h] by auto
  then have "take h ?out @ rk_quantizedBytes slot @ drop (h + length (rk_quantizedBytes slot)) ?out = key_slot_bytes slot hash h"
    using ok by (simp add: write_key_header_eq key_slot_bytes_def take_Cons' min_def)
  then show ?thesis
    using q by (simp add: encodeRetrievalKeySlot_def Let_def hex assms(2) [symmetric] del: take_append drop_append)
qed

lemma chunks_be:
  assumes "length bs = n * 32"
  shows "concat (map (\<lambda>w. be_bytes 32 (be_val (take 32 (drop (w * 32) bs)))) [0..<n]) = bs"
proof -
  have "be_bytes 32 (be_val (take 32 (drop (w * 32) bs))) = take 32 (drop (w * 32) bs)" if "w < n" for w
    using be_bytes_be_val [of "take 32 (drop (w * 32) bs)"] that assms by simp
  then have "map (\<lambda>w. be_bytes 32 (be_val (take 32 (drop (w * 32) bs)))) [0..<n] = map (\<lambda>w. take 32 (drop (w * 32) bs)) [0..<n]"
    by simp
  then show ?thesis by (simp only: concat_be_chunks [OF assms])
qed

lemma key_slot_fields:
  assumes "key_ok h k hash slot"
  defines "bs \<equiv> key_slot_bytes slot hash h"
  shows "bs ! 0 = 1" "take 4 (drop 1 bs) = hash" "readFloat32BE bs 5 = rk_l2Norm slot"
    "\<not> list_ex (\<lambda>i. bs ! i \<noteq> 0) [9..<h]" "drop h bs = rk_quantizedBytes slot"
proof -
  note ok = assms(1) [unfolded key_ok_def]
  show "bs ! 0 = 1" "take 4 (drop 1 bs) = hash" using ok by (simp_all add: bs_def key_slot_bytes_def)
  have "take 4 (drop 5 bs) = be_bytes 4 (uint (rk_l2Norm slot))"
    using ok by (simp add: bs_def key_slot_bytes_def)
  then show "readFloat32BE bs 5 = rk_l2Norm slot"
    using uint_lt2p [of "rk_l2Norm slot"] by (simp add: readFloat32BE_def be_val_be_bytes mod_pos_pos_trivial)
  have bs: "bs = (rk_versionTag slot # hash @ be_bytes 4 (uint (rk_l2Norm slot))) @ replicate (h - 9) 0 @ rk_quantizedBytes slot"
    by (simp add: bs_def key_slot_bytes_def)
  have len: "length (rk_versionTag slot # hash @ be_bytes 4 (uint (rk_l2Norm slot))) = 9" using ok by simp
  show "\<not> list_ex (\<lambda>i. bs ! i \<noteq> 0) [9..<h]"
    using len by (auto simp: bs list_ex_iff nth_append simp del: length_Cons length_append append_Cons be_bytes.simps)
  show "drop h bs = rk_quantizedBytes slot"
    using len ok by (simp add: bs del: length_Cons length_append append_Cons be_bytes.simps)
qed

lemma decode_key_slot_enc:
  assumes ok: "key_ok h k hash slot" and h: "h = (case retrievalKeyHeaderBytes opts of None \<Rightarrow> 9 | Some h \<Rightarrow> h)"
    and opt: "biEncoderModelIdHash opts = None \<or>
      map_option js_toLowerCase (biEncoderModelIdHash opts) = Some (js_toLowerCase (rk_modelIdHash slot))"
    and enc: "encodeRetrievalKeySlot slot (retrievalKeyHeaderBytes opts) = Inr kws"
    and at: "\<And>w. w < 8 \<Longrightarrow> nth_or 0 ws (384 + k * 8 + w) = kws ! w"
  shows "decode_key_slot opts ws k = Decoded slot"
proof -
  let ?bs = "key_slot_bytes slot hash h"
  have kws: "kws = map (\<lambda>w. be_val (take 32 (drop (w * 32) ?bs))) [0..<8]"
    using encodeRetrievalKeySlot_eq [OF ok h] enc by simp
  have "map (\<lambda>w. be_bytes 32 (nth_or 0 ws (384 + k * 8 + w))) [0..<8]
      = map (\<lambda>w. be_bytes 32 (be_val (take 32 (drop (w * 32) ?bs)))) [0..<8]"
    by (simp add: at kws)
  then have bs: "wordsToBytes ws (384 + k * 8) 8 = ?bs"
    by (simp only: wordsToBytes_eq chunks_be [of ?bs 8] length_key_slot_bytes [OF ok])
  have "\<not> list_all (\<lambda>off. nth_or 0 ws (384 + k * 8 + off) = 0) [0..<8]"
  proof
    assume "list_all (\<lambda>off. nth_or 0 ws (384 + k * 8 + off) = 0) [0..<8]"
    then have "nth_or 0 ws (384 + k * 8 + 0) = 0" unfolding list_all_iff by (rule bspec) simp
    then have "be_val (take 32 ?bs) = 0" using at [of 0] by (simp add: kws)
    then have "take 32 ?bs = be_bytes 32 0"
      using be_bytes_be_val [of "take 32 ?bs"] length_key_slot_bytes [OF ok] by simp
    moreover have "be_bytes n 0 = replicate n 0" for n
      by (induction n) (simp_all add: replicate_append_same)
    ultimately have "?bs ! 0 = 0" using nth_take [of 0 32 ?bs] by (simp del: nth_take)
    with key_slot_fields(1) [OF ok] show False by simp
  qed
  then show ?thesis
    using ok opt h [symmetric] key_slot_fields [OF ok]
    by (auto simp: decode_key_slot_def Let_def bs key_ok_def)
qed

section \<open>Properties\<close>

text \<open>The PolicyAtom grammar is exact and canonical: every atom that satisfies the grammar of its
  family encodes to a 256-bit word that decodes to it, and a 256-bit word decodes to an atom only
  if it is the encoding of that atom, so no atom has two spellings.\<close>

lemma policy_atom_codec:
  assumes "u256 w"
  shows "decode_atom_word family k w = Decoded a \<longleftrightarrow> atom_ok family k a \<and> encodePolicyAtom a = Inr w"
  using assms by (rule atom.decoded_iff)

text \<open>Relation entries (anchor edges and category lenses) are canonical too: a 256-bit word decodes
  to an entry exactly when it is the encoding of that entry and the entry is in range.\<close>

lemma relation_codec:
  assumes "u256 w"
  shows "decode_relation_word k w = Decoded e \<longleftrightarrow> relation_ok k e \<and> encode_relation e = Inr w"
  using assms by (rule relation.decoded_iff)

text \<open>MemoryIndex slots, temporal records and codebook entries survive a round trip: every valid
  one encodes without an error to words that decode to it.\<close>

lemma slot_round_trips:
  "(memory_ok k m \<longrightarrow> (\<exists>w. encodeMemoryIndexSlot m = Inr (w # replicate 7 0) \<and> decode_memory_word k w = Decoded m)) \<and>
   (temporal_ok k r \<longrightarrow> (\<exists>w. encodeTemporalRecord r = Inr [w] \<and> decode_temporal_word k w = Decoded r)) \<and>
   (codebook_ok k c \<longrightarrow> (\<exists>w0 w1. encodeCodebookEntry c = Inr [w0, w1] \<and> decode_codebook_entry k w0 w1 = Decoded c))"
proof -
  have m: "encodeMemoryIndexSlot m = Inr (w # replicate 7 0)" if "encode_memory m = Inr w" for w
    using that by (auto simp: encode_memory_def js_bind_eq_Inr_iff encodeMemoryIndexSlot_def Let_def numeral_eq_Suc
        split: if_splits)
  have t: "encodeTemporalRecord r = Inr [w]" if "encode_temporal r = Inr w" for w
    using that by (auto simp: encode_temporal_def js_bind_eq_Inr_iff encodeTemporalRecord_def Let_def split: if_splits)
  show ?thesis
    using m t memory.enc_dec [of k m] temporal.enc_dec [of k r] decode_codebook_enc [of k c] by blast
qed

text \<open>Retrieval keys survive a round trip: a well-formed 256-byte key record, written as eight words
  at its slot, decodes to itself under every decoder option that pins no other model.\<close>

lemma retrieval_key_round_trip:
  assumes "key_ok h k hash slot" and "h = (case retrievalKeyHeaderBytes opts of None \<Rightarrow> 9 | Some h \<Rightarrow> h)"
    and "biEncoderModelIdHash opts = None \<or>
      map_option js_toLowerCase (biEncoderModelIdHash opts) = Some (js_toLowerCase (rk_modelIdHash slot))"
    and "length ws = WORD_COUNT" "k < RETRIEVAL_KEY_SLOT_COUNT"
  shows "\<exists>kws. encodeRetrievalKeySlot slot (retrievalKeyHeaderBytes opts) = Inr kws \<and> length kws = 8 \<and>
     decode_key_slot opts (take (384 + k * 8) ws @ kws @ drop (384 + k * 8 + 8) ws) k = Decoded slot"
proof -
  obtain kws where kws: "encodeRetrievalKeySlot slot (retrievalKeyHeaderBytes opts) = Inr kws" "length kws = 8"
    using encodeRetrievalKeySlot_eq [OF assms(1,2)] by simp
  have "nth_or 0 (take (384 + k * 8) ws @ kws @ drop (384 + k * 8 + 8) ws) (384 + k * 8 + w) = kws ! w" if "w < 8" for w
    using assms(4,5) kws(2) that by (simp add: nth_append)
  then show ?thesis using decode_key_slot_enc [OF assms(1-3) kws(1)] kws by blast
qed

text \<open>The encoder of relation edges accepts slots that the decoder cannot read back: a source slot
  from 256 to 351 is encoded without an error into a word that every decode counts as a failure.\<close>

lemma relation_edge_unreadable:
  assumes "0 < re_weight e" "re_weight e \<le> 0xffff" "256 \<le> re_sourceSlot e" "re_sourceSlot e < 352"
    "0 \<le> re_targetSlot e" "re_targetSlot e < 352"
  shows "\<exists>w. encodeRelationEdge e = Inr w \<and> decode_relation_word k w = Failed"
proof -
  have f: "fits 16 (re_weight e)" "fits 9 (re_sourceSlot e)" "fits 9 (re_targetSlot e)"
    using assms by (simp_all add: fits_iff)
  note [simp] = f [THEN fits_take] f [THEN fits_drop] relation_bits(2) [THEN fits_take] relation_bits(2) [THEN fits_drop]
  let ?w = "push_bit 240 (re_weight e) OR push_bit 224 (relationTypeToBits (re_edgeType e))
    OR push_bit 96 (re_sourceSlot e) OR re_targetSlot e"
  have "\<not> fits 8 (re_sourceSlot e)" using assms(3) by (simp add: fits_iff)
  then have src: "drop_bit 8 (re_sourceSlot e) \<noteq> 0" by (simp add: drop_bit_zero_iff)
  have w: "take_bit 16 (drop_bit 240 ?w) = re_weight e" by (simp add: bits_simps)
  then have nz: "?w \<noteq> 0" using assms(1) by (metis drop_bit_of_0 less_irrefl take_bit_of_0)
  have "decode_relation_word k ?w = Failed"
    unfolding decode_relation_word_def using nz w src assms(1)
    by (simp add: Let_def bits_simps and_mask_lits)
  moreover have "encodeRelationEdge e = Inr ?w" using assms by (simp add: encodeRelationEdge_def)
  ultimately show ?thesis by blast
qed

end
