(* ===== verification/Validate.thy ===== *)
theory Validate
  imports Encoder
begin

text \<open>
  \<open>packages/coretex/src/state/validate.ts\<close>: the must-be-zero masks of every word and the
  hard-fail validator of the PolicyAtom regions, with a characterisation of what each accepts.
\<close>

section \<open>Implementation\<close>

definition UINT256_MAX :: bigint where
  "UINT256_MAX = push_bit 256 1 - 1"

definition flagsMask :: "nat \<Rightarrow> nat \<Rightarrow> bigint" where
  "flagsMask hiInclusive loInclusive =
     (if hiInclusive < loInclusive then 0
      else let width = hiInclusive - loInclusive + 1 in push_bit loInclusive (push_bit width 1 - 1))"

definition headerReservedMask :: "nat \<Rightarrow> bigint" where
  "headerReservedMask wordIdx =
     (if wordIdx = 0 then (push_bit 192 1 - 1) OR flagsMask 207 193
      else if wordIdx = 1 then push_bit 128 1 - 1
      else if wordIdx \<in> {2, 3, 4, 5, 6} then 0
      else if wordIdx = 7 then 0
      else if wordIdx = 8 then push_bit 64 1 - 1
      else if wordIdx \<in> {9, 10} then 0
      else UINT256_MAX)"

definition memoryIndexSlotReservedMask :: "nat \<Rightarrow> bigint" where
  "memoryIndexSlotReservedMask slotWord = (if slotWord = 0 then 0 else if slotWord = 1 then 0 else 0)"

definition retrievalKeySlotReservedMask :: "nat \<Rightarrow> bigint" where
  "retrievalKeySlotReservedMask slotWord = 0"

definition codebookSlotReservedMask :: "nat \<Rightarrow> bigint" where
  "codebookSlotReservedMask slotWord = 0"

definition reservedMask :: "nat \<Rightarrow> bigint" where
  "reservedMask wordIdx =
     (if RESERVED_START \<le> wordIdx \<and> wordIdx \<le> RESERVED_END then UINT256_MAX
      else if HEADER_START \<le> wordIdx \<and> wordIdx \<le> HEADER_END then headerReservedMask wordIdx
      else if MEMORY_INDEX_START \<le> wordIdx \<and> wordIdx \<le> MEMORY_INDEX_END then memoryIndexSlotReservedMask 0
      else if RETRIEVAL_KEYS_START \<le> wordIdx \<and> wordIdx \<le> RETRIEVAL_KEYS_END
        then retrievalKeySlotReservedMask ((wordIdx - RETRIEVAL_KEYS_START) mod 8)
      else if RELATIONS_START \<le> wordIdx \<and> wordIdx \<le> RELATIONS_END then 0
      else if TEMPORAL_START \<le> wordIdx \<and> wordIdx \<le> TEMPORAL_END then push_bit 152 1 - 1
      else if CODEBOOK_START \<le> wordIdx \<and> wordIdx \<le> CODEBOOK_END
        then codebookSlotReservedMask ((wordIdx - CODEBOOK_START) mod 2)
      else 0)"

definition RESERVED_MASKS :: "bigint list" where
  "RESERVED_MASKS = map reservedMask [0..<WORD_COUNT]"

definition hasNonZeroReservedBits :: "CortexState \<Rightarrow> bool" where
  "hasNonZeroReservedBits state =
     list_ex (\<lambda>i. let mask = nth_or 0 RESERVED_MASKS i in
        mask \<noteq> 0 \<and> nth_or 0 (words state) i AND mask \<noteq> 0) [0..<WORD_COUNT]"

definition validateReservedBits :: "CortexState \<Rightarrow> PatchErrorCode option" where
  "validateReservedBits state = (if hasNonZeroReservedBits state then Some E04 else None)"

fun validate_families :: "CortexState \<Rightarrow> PolicyAtomFamily list \<Rightarrow> PatchErrorCode option" where
  "validate_families state [] = None"
| "validate_families state (fam # fams) =
     (if failures (decodePolicyAtomRegion state fam) > 0 then Some E02 else validate_families state fams)"

definition validatePolicyRegions :: "CortexState \<Rightarrow> PatchErrorCode option" where
  "validatePolicyRegions state =
     (case validate_families state [evidence_bundle, conflict_lifecycle, abstention] of
        Some e \<Rightarrow> Some e
      | None \<Rightarrow> if policyReservedNonZeroWords state > 0 then Some E04 else None)"

section \<open>Reserved bits\<close>

lemma mask_lit: "push_bit n 1 - 1 = (mask n :: int)"
  by (simp add: mask_eq_exp_minus_1 push_bit_eq_mult)

lemma and_push_mask: "w AND (mask n :: int) = take_bit n w"
  by (simp add: take_bit_eq_mask)

text \<open>The bits of word \<open>i\<close> that must be zero.\<close>

definition reserved_zero :: "nat \<Rightarrow> bigint \<Rightarrow> bool" where
  "reserved_zero i w \<longleftrightarrow>
     (if 992 \<le> i \<or> 11 \<le> i \<and> i \<le> 31 then take_bit 256 w = 0
      else if i = 0 then take_bit 192 w = 0 \<and> take_bit 15 (drop_bit 193 w) = 0
      else if i = 1 then take_bit 128 w = 0
      else if i = 8 then take_bit 64 w = 0
      else if 800 \<le> i \<and> i \<le> 895 then take_bit 152 w = 0
      else True)"

lemma flags_zero_iff: "w AND (mask 192 OR flagsMask 207 193) = 0 \<longleftrightarrow> take_bit 192 w = 0 \<and> take_bit 15 (drop_bit 193 w) = 0"
proof -
  have "flagsMask 207 193 = push_bit 193 (mask 15)" by (simp add: flagsMask_def mask_eq_exp_minus_1)
  moreover have "w AND push_bit 193 (mask 15) = push_bit 193 (take_bit 15 (drop_bit 193 w))"
    by (rule bit_eqI) (auto simp: bit_and_iff bit_push_bit_iff bit_mask_iff bit_take_bit_iff bit_drop_bit_eq)
  moreover have "a OR b = 0 \<longleftrightarrow> a = 0 \<and> b = 0" for a b :: int
    by (rule or_eq_0_iff)
  ultimately show ?thesis
    by (simp add: bit.conj_disj_distrib and_push_mask push_bit_eq_mult)
qed

lemma headerReservedMask_zero_iff:
  "w AND headerReservedMask i = 0 \<longleftrightarrow>
     (if i = 0 then take_bit 192 w = 0 \<and> take_bit 15 (drop_bit 193 w) = 0
      else if i = 1 then take_bit 128 w = 0
      else if i = 8 then take_bit 64 w = 0
      else i \<in> {2, 3, 4, 5, 6, 7, 9, 10} \<or> take_bit 256 w = 0)"
  unfolding headerReservedMask_def mask_lit UINT256_MAX_def
  by (simp add: and_push_mask flags_zero_iff)

lemma reservedMask_zero_iff:
  assumes "i < WORD_COUNT"
  shows "w AND reservedMask i = 0 \<longleftrightarrow> reserved_zero i w"
proof -
  consider "992 \<le> i" | "i \<le> 31" | "32 \<le> i" "i < 800" | "800 \<le> i" "i \<le> 895" | "896 \<le> i" "i < 992" by linarith
  then show ?thesis
  proof cases
    case 2
    then have "i = 0 \<or> i = 1 \<or> i = 8 \<or> i \<in> {2, 3, 4, 5, 6, 7, 9, 10} \<or> 11 \<le> i" by simp arith
    with 2 show ?thesis by (auto simp: reservedMask_def reserved_zero_def headerReservedMask_zero_iff)
  qed (use assms in \<open>unfold reservedMask_def UINT256_MAX_def mask_lit memoryIndexSlotReservedMask_def
      retrievalKeySlotReservedMask_def codebookSlotReservedMask_def,
      simp_all add: and_push_mask reserved_zero_def\<close>)
qed

lemma nth_RESERVED_MASKS: "i < WORD_COUNT \<Longrightarrow> nth_or 0 RESERVED_MASKS i = reservedMask i"
  by (simp add: RESERVED_MASKS_def)

lemma reserved_bits_iff:
  "hasNonZeroReservedBits s \<longleftrightarrow> (\<exists>i<WORD_COUNT. \<not> reserved_zero i (nth_or 0 (words s) i))"
proof -
  have "(mask \<noteq> 0 \<and> w AND mask \<noteq> 0) \<longleftrightarrow> w AND mask \<noteq> 0" for mask w :: int by auto
  then show ?thesis
    by (auto simp: hasNonZeroReservedBits_def Let_def list_ex_iff nth_RESERVED_MASKS reservedMask_zero_iff)
qed

lemma reserved_zero_0 [simp]: "reserved_zero i 0"
  by (simp add: reserved_zero_def)

text \<open>The reserved-bit check is exactly the documented layout: it passes if and only if words
  992 to 1023 and 11 to 31 are empty, the reserved fields of header words 0, 1 and 8 are zero and the
  low 152 bits of every temporal word are zero.\<close>

lemma hasNonZeroReservedBits_iff:
  "hasNonZeroReservedBits s \<longleftrightarrow> (\<exists>i<WORD_COUNT. \<not> reserved_zero i (nth_or 0 (words s) i))"
  by (rule reserved_bits_iff)

section \<open>Policy regions\<close>

lemma failures_zero_iff: "failures os = 0 \<longleftrightarrow> Failed \<notin> set os"
  by (auto simp: failures_def filter_empty_conv)

lemma policyReservedNonZeroWords_eq:
  "policyReservedNonZeroWords s = length (filter (\<lambda>w. nth_or 0 (words s) w \<noteq> 0) [896..<992])"
proof -
  have "foldl (\<lambda>n w. if P w then n + 1 else n) n0 ws = n0 + length (filter P ws)" for P and n0 :: nat and ws :: "nat list"
    by (induction ws arbitrary: n0) auto
  then show ?thesis by (simp add: policyReservedNonZeroWords_def)
qed

text \<open>A word of a PolicyAtom region is empty or the encoding of an atom of the region's grammar.\<close>

definition policy_word_ok :: "PolicyAtomFamily \<Rightarrow> nat \<Rightarrow> bigint \<Rightarrow> bool" where
  "policy_word_ok family k w \<longleftrightarrow> w = 0 \<or> (\<exists>a. atom_ok family k a \<and> encodePolicyAtom a = Inr w)"

lemma decode_atom_not_Inactive: "decode_atom_word family k w \<noteq> Inactive"
  by (auto simp: decode_atom_word_def Let_def split: option.splits)

lemma decode_atom_not_Failed:
  assumes "u256 w"
  shows "decode_atom_word family k w \<noteq> Failed \<longleftrightarrow> policy_word_ok family k w"
proof -
  have "decode_atom_word family k w \<noteq> Failed \<longleftrightarrow> w = 0 \<or> (\<exists>a. decode_atom_word family k w = Decoded a)"
    using decode_atom_Empty [of family k w] decode_atom_not_Inactive [of family k w]
    by (cases "decode_atom_word family k w") auto
  then show ?thesis unfolding policy_word_ok_def atom.decoded_iff [OF assms] .
qed

definition policy_regions_ok :: "CortexState \<Rightarrow> bool" where
  "policy_regions_ok s \<longleftrightarrow>
     (\<forall>family. \<forall>k<reg_count (POLICY_REGIONS family).
        policy_word_ok family k (words s ! (reg_start (POLICY_REGIONS family) + k))) \<and>
     (\<forall>i. 896 \<le> i \<and> i < 992 \<longrightarrow> words s ! i = 0)"

lemma region_bound: "reg_start (POLICY_REGIONS family) + reg_count (POLICY_REGIONS family) \<le> WORD_COUNT"
  by (cases family) simp_all

lemma region_failures_zero:
  assumes "wf_state s"
  shows "failures (decodePolicyAtomRegion s family) = 0 \<longleftrightarrow>
    (\<forall>k<reg_count (POLICY_REGIONS family). policy_word_ok family k (words s ! (reg_start (POLICY_REGIONS family) + k)))"
proof -
  have in_range: "reg_start (POLICY_REGIONS family) + k < WORD_COUNT" if "k < reg_count (POLICY_REGIONS family)" for k
    using region_bound [of family] that by linarith
  have "decode_atom_word family k (nth_or 0 (words s) (reg_start (POLICY_REGIONS family) + k)) \<noteq> Failed \<longleftrightarrow>
      policy_word_ok family k (words s ! (reg_start (POLICY_REGIONS family) + k))" if "k < reg_count (POLICY_REGIONS family)" for k
    using decode_atom_not_Failed [OF wf_state_nth [OF assms in_range [OF that]]] in_range [OF that] assms
    by (simp add: wf_state_def)
  moreover have "x \<notin> set (map f [0..<n]) \<longleftrightarrow> (\<forall>k<n. f k \<noteq> x)" for f :: "nat \<Rightarrow> PolicyAtom outcome" and x n by auto
  ultimately show ?thesis by (simp add: failures_zero_iff decodePolicyAtomRegion_def Let_def del: set_map)
qed

lemma validatePolicyRegions_cases:
  assumes "wf_state s"
  shows "(validatePolicyRegions s = None \<longleftrightarrow> policy_regions_ok s) \<and>
    validatePolicyRegions s \<in> {None, Some E02, Some E04} \<and>
    (validatePolicyRegions s = Some E02 \<longleftrightarrow> (\<exists>family. failures (decodePolicyAtomRegion s family) > 0))"
proof -
  have ex: "(\<exists>family. P family) \<longleftrightarrow> P evidence_bundle \<or> P conflict_lifecycle \<or> P abstention" for P
    by (metis PolicyAtomFamily.exhaust)
  have all: "(\<forall>family. P family) \<longleftrightarrow> P evidence_bundle \<and> P conflict_lifecycle \<and> P abstention" for P
    by (metis PolicyAtomFamily.exhaust)
  have res: "policyReservedNonZeroWords s = 0 \<longleftrightarrow> (\<forall>i. 896 \<le> i \<and> i < 992 \<longrightarrow> words s ! i = 0)"
    using assms by (auto simp: policyReservedNonZeroWords_eq filter_empty_conv wf_state_def simp del: upt_rec_numeral)
  show ?thesis
    unfolding policy_regions_ok_def region_failures_zero [OF assms, symmetric] res [symmetric] ex all
    by (simp add: validatePolicyRegions_def)
qed

lemma validatePolicyRegions_iff_None: "wf_state s \<Longrightarrow> validatePolicyRegions s = None \<longleftrightarrow> policy_regions_ok s"
  using validatePolicyRegions_cases by blast

text \<open>C21. The policy validator accepts exactly the typed grammar: on a state of 256-bit words it returns
  no error if and only if every word of the three PolicyAtom regions is empty or the encoding of a
  well-formed atom of its family and the reserved policy words 896 to 991 are zero; and its errors
  are E02 (bad atom) and E04 (reserved word), in this order.\<close>

theorem validatePolicyRegions_iff:
  assumes "wf_state s"
  shows "(validatePolicyRegions s = None \<longleftrightarrow> policy_regions_ok s) \<and>
    validatePolicyRegions s \<in> {None, Some E02, Some E04} \<and>
    (validatePolicyRegions s = Some E02 \<longleftrightarrow> (\<exists>family. failures (decodePolicyAtomRegion s family) > 0))"
  using assms by (rule validatePolicyRegions_cases)

theorem validatePolicyRegions_iff_witness:
  "validatePolicyRegions \<lparr>words = replicate 1024 0\<rparr> = None \<longleftrightarrow> policy_regions_ok \<lparr>words = replicate 1024 0\<rparr>"
  using validatePolicyRegions_iff [of "\<lparr>words = replicate 1024 0\<rparr>"] by (simp add: wf_state_def)

end
