(* ===== verification/Patch.thy ===== *)
theory Patch
  imports Validate
begin

text \<open>
  \<open>packages/coretex/src/state/patch.ts\<close>: the wire format of a patch, its type grammar, and the
  two ways of applying it (\<open>applyPatch\<close> checks the parent root, \<open>applyPatchOntoCurrent\<close> is the
  reducer's path without that check).

  An index read from a patch is an \<^typ>\<open>int option\<close>: past the end of \<open>indices\<close> it is
  \<open>undefined\<close>, every comparison with it is false, and a store to it changes no word. The reason
  texts of \<open>validatePatchType\<close> and the message texts of \<open>patchError\<close> are not modelled; the
  error codes are.
\<close>

section \<open>Varints\<close>

function leb128_loop :: "u32 \<Rightarrow> bytes" where
  "leb128_loop n =
     (let b = ucast (n AND 0x7f) :: u8; n' = drop_bit 7 n
      in if n' \<noteq> 0 then (b OR 0x80) # leb128_loop n' else [b])"
  by pat_completeness auto
termination
proof (relation "measure unat", simp)
  fix n :: u32 and x n'
  assume n': "n' = drop_bit 7 n" "n' \<noteq> 0"
  then have "unat n' = unat n div 128" by (simp add: drop_bit_eq_div unat_div_distrib)
  moreover have "unat n' \<noteq> 0" using n'(2) by (simp add: unat_eq_zero)
  ultimately show "(n', n) \<in> measure unat" by simp
qed

declare leb128_loop.simps [simp del]

definition encodeLEB128 :: "int \<Rightarrow> bytes js" where
  "encodeLEB128 n =
     (if n < 0 then Inl (RangeError ''encodeLEB128: negative value'') else Inr (leb128_loop (word_of_int n)))"

definition decodeLEB128 :: "bytes \<Rightarrow> nat \<Rightarrow> (int \<times> nat) js" where
  "decodeLEB128 dat offset =
     (if offset \<ge> length dat then Inl (RangeError ''decodeLEB128: unexpected end of data'')
      else let first = dat ! offset; value = uint (first AND 0x7f)
      in if first AND 0x80 = 0 then Inr (value, 1)
      else if offset + 1 \<ge> length dat then Inl (RangeError ''decodeLEB128: unexpected end of data'')
      else let second = dat ! (offset + 1)
      in if second AND 0x80 \<noteq> 0 then Inl (RangeError ''decodeLEB128: varint too long'')
      else let value = value OR push_bit 7 (uint (second AND 0x7f))
      in if value < 128 then Inl (RangeError ''decodeLEB128: non-canonical word index'')
      else if value \<ge> WORD_COUNT then Inl (RangeError ''decodeLEB128: word index out of range'')
      else Inr (value, 2))"

section \<open>Patch types\<close>

definition patchTypeRange :: "int \<Rightarrow> (int \<times> int) option" where
  "patchTypeRange ty = map_option snd (find (\<lambda>r. fst r = ty) PATCH_TYPE_RANGE_TABLE)"

fun valid_indices :: "int list \<Rightarrow> int list \<Rightarrow> bool" where
  "valid_indices [] seen = True"
| "valid_indices (idx # is) seen =
     (if idx < 0 \<or> idx \<ge> WORD_COUNT then False
      else if idx \<ge> RESERVED_START \<and> idx \<le> RESERVED_END then False
      else if idx \<in> set seen then False
      else valid_indices is (js_set_add seen idx))"

definition validatePatchType :: "int \<Rightarrow> int list \<Rightarrow> bool" where
  "validatePatchType ty is =
     (if \<not> valid_indices is [] then False
      else if ty = MIXED then True
      else case patchTypeRange ty of
        None \<Rightarrow> False
      | Some (lo, hi) \<Rightarrow> list_all (\<lambda>idx. \<not> (idx < lo \<or> idx > hi)) is)"

section \<open>Wire format\<close>

definition MAX_WIRE_SCORE_DELTA :: bigint where
  "MAX_WIRE_SCORE_DELTA = push_bit 63 1 - 1"

definition u32_be :: "u32 \<Rightarrow> bytes" where
  "u32_be n = [ucast (drop_bit 24 n AND 0xff), ucast (drop_bit 16 n AND 0xff), ucast (drop_bit 8 n AND 0xff), ucast (n AND 0xff)]"

definition encodePatch :: "Patch \<Rightarrow> bytes js" where
  "encodePatch patch =
     (if wordCount patch < 1 \<or> wordCount patch > 4 then Inl (RangeError ''encodePatch: wordCount must be 1-4'')
      else if int (length (indices patch)) \<noteq> wordCount patch \<or> int (length (newWords patch)) \<noteq> wordCount patch
        then Inl (RangeError ''encodePatch: indices/newWords length mismatch with wordCount'')
      else if \<not> validatePatchType (patchType patch) (indices patch) then Inl (RangeError ''encodePatch: '')
      else js_bind (js_map encodeLEB128 (indices patch)) (\<lambda>encodedIndices.
        if scoreDelta patch < 0 \<or> scoreDelta patch > MAX_WIRE_SCORE_DELTA
          then Inl (RangeError ''encodePatch: scoreDelta outside non-negative int64 range'')
        else let sdHi = word_of_int (drop_bit 32 (scoreDelta patch)) :: u32;
            sdLo = word_of_int (scoreDelta patch AND 0xffffffff) :: u32
        in if length (parentStateRoot patch) \<noteq> 32 then Inl (RangeError ''encodePatch: parentStateRoot must be 32 bytes'')
        else Inr ([word_of_int (patchType patch AND 0xff), word_of_int (wordCount patch)]
          @ u32_be sdHi @ u32_be sdLo @ parentStateRoot patch
          @ concat (map (\<lambda>i. encodedIndices ! i @ writeBigEndian32 (replicate 32 0) 0 (nth_or 0 (newWords patch) i))
              [0..<nat (wordCount patch)]))))"

fun decode_words :: "nat \<Rightarrow> bytes \<Rightarrow> nat \<Rightarrow> int list \<Rightarrow> bigint list \<Rightarrow> (nat \<times> int list \<times> bigint list) js" where
  "decode_words 0 dat offset is ws = Inr (offset, is, ws)"
| "decode_words (Suc n) dat offset is ws =
     js_bind (decodeLEB128 dat offset) (\<lambda>(idx, bytesRead).
       let offset = offset + bytesRead in
       if offset + 32 > length dat then Inl (RangeError ''decodePatch: truncated at newWord'')
       else let newWord = readBigEndian32 dat offset
       in decode_words n dat (offset + 32) (is @ [idx]) (ws @ [newWord]))"

definition read_u32_be :: "bytes \<Rightarrow> nat \<Rightarrow> u32" where
  "read_u32_be dat offset = push_bit 24 (ucast (dat ! offset)) OR push_bit 16 (ucast (dat ! (offset + 1)))
     OR push_bit 8 (ucast (dat ! (offset + 2))) OR ucast (dat ! (offset + 3))"

definition decodePatch :: "bytes \<Rightarrow> Patch js" where
  "decodePatch dat =
     (if length dat < 42 then Inl (RangeError ''decodePatch: too short'')
      else let ty = uint (dat ! 0); wc = uint (dat ! 1)
      in if wc < 1 \<or> wc > 4 then Inl (RangeError ''decodePatch: invalid wordCount'')
      else let sd = push_bit 32 (uint (read_u32_be dat 2)) OR uint (read_u32_be dat 6)
      in if sd > MAX_WIRE_SCORE_DELTA then Inl (RangeError ''decodePatch: scoreDelta outside non-negative int64 range'')
      else let parent = take 32 (drop 10 dat)
      in js_bind (decode_words (nat wc) dat 42 [] []) (\<lambda>(offset, is, ws).
        if offset \<noteq> length dat then Inl (RangeError ''decodePatch: trailing bytes'')
        else if \<not> validatePatchType ty is then Inl (RangeError ''decodePatch: '')
        else Inr \<lparr>patchType = ty, wordCount = wc, scoreDelta = sd, parentStateRoot = parent, indices = is, newWords = ws\<rparr>))"

section \<open>Applying a patch\<close>

definition in_range :: "int option \<Rightarrow> int \<Rightarrow> int \<Rightarrow> bool" where
  "in_range idx lo hi = (case idx of None \<Rightarrow> False | Some i \<Rightarrow> i \<ge> lo \<and> i \<le> hi)"

definition word_at :: "bigint list \<Rightarrow> int option \<Rightarrow> bigint" where
  "word_at ws idx = (case idx of None \<Rightarrow> 0 | Some i \<Rightarrow> if i < 0 then 0 else nth_or 0 ws (nat i))"

definition patchTouchesHeader :: "Patch \<Rightarrow> bool" where
  "patchTouchesHeader patch =
     list_ex (\<lambda>i. in_range (nth_opt (indices patch) i) HEADER_START HEADER_END) [0..<nat (wordCount patch)]"

definition isPolicyMixedCompanionIndex :: "int option \<Rightarrow> bool" where
  "isPolicyMixedCompanionIndex idx =
     (in_range idx MEMORY_INDEX_START MEMORY_INDEX_END
      \<or> in_range idx RELATIONS_START RELATIONS_END
      \<or> in_range idx TEMPORAL_START TEMPORAL_END)"

definition policyWriteIsCanonical :: "Patch \<Rightarrow> bool" where
  "policyWriteIsCanonical patch =
     (let (touchesPolicy, touchesCompanion) = foldl (\<lambda>(touchesPolicy, touchesCompanion) i.
            let idx = nth_opt (indices patch) i in
            if in_range idx POLICY_EVIDENCE_START POLICY_ABSTENTION_END then (True, touchesCompanion)
            else if isPolicyMixedCompanionIndex idx then (touchesPolicy, True)
            else (touchesPolicy, touchesCompanion)) (False, False) [0..<nat (wordCount patch)]
      in if \<not> touchesPolicy then True
      else if patchType patch = POLICY_UPDATE then True
      else if patchType patch = MIXED then touchesCompanion
      else False)"

definition policyWriteIsCanonicalForState :: "CortexState \<Rightarrow> Patch \<Rightarrow> bool" where
  "policyWriteIsCanonicalForState state patch =
     (if \<not> policyWriteIsCanonical patch then False
      else let (touchesPolicy, changedCompanion) = foldl (\<lambda>(touchesPolicy, changedCompanion) i.
            let idx = nth_opt (indices patch) i in
            (touchesPolicy \<or> in_range idx POLICY_EVIDENCE_START POLICY_ABSTENTION_END,
             changedCompanion \<or> isPolicyMixedCompanionIndex idx \<and> word_at (words state) idx \<noteq> nth_or 0 (newWords patch) i))
            (False, False) [0..<nat (wordCount patch)]
      in if \<not> touchesPolicy \<or> patchType patch \<noteq> MIXED then True else changedCompanion)"

definition any_change :: "CortexState \<Rightarrow> Patch \<Rightarrow> bool" where
  "any_change state patch =
     list_ex (\<lambda>i. word_at (words state) (nth_opt (indices patch) i) \<noteq> nth_or 0 (newWords patch) i) [0..<nat (wordCount patch)]"

fun write_words :: "Patch \<Rightarrow> nat list \<Rightarrow> bigint list \<Rightarrow> PatchErrorCode + bigint list" where
  "write_words patch [] ws = Inr ws"
| "write_words patch (i # is) ws =
     (let idx = nth_opt (indices patch) i in
      if in_range idx RESERVED_START RESERVED_END then Inl E02
      else case idx of
        None \<Rightarrow> write_words patch is ws
      | Some k \<Rightarrow> if k < 0 \<or> k \<ge> WORD_COUNT then Inl E02
          else write_words patch is (js_array_set ws (nat k) (nth_or 0 (newWords patch) i)))"

text \<open>The common tail of \<open>applyPatch\<close> and \<open>applyPatchOntoCurrent\<close>: no-op check, writes, checks of
  the result.\<close>

definition write_and_check :: "CortexState \<Rightarrow> Patch \<Rightarrow> bool \<Rightarrow> PatchResult" where
  "write_and_check state patch policyMode =
     (if \<not> any_change state patch then Inl E05
      else case write_words patch [0..<nat (wordCount patch)] (words state) of
        Inl e \<Rightarrow> Inl e
      | Inr ws \<Rightarrow>
          let resultState = \<lparr>words = ws\<rparr> in
          if hasNonZeroReservedBits resultState then Inl E04
          else (case (if policyMode then validatePolicyRegions resultState else None) of
            Some e \<Rightarrow> Inl e
          | None \<Rightarrow> Inr resultState))"

definition bytesEqual :: "bytes \<Rightarrow> bytes \<Rightarrow> bool" where
  "bytesEqual a b = (if length a \<noteq> length b then False else list_all (\<lambda>i. a ! i = b ! i) [0..<length a])"

definition applyPatch :: "CortexState \<Rightarrow> Patch \<Rightarrow> bool \<Rightarrow> PatchResult js" where
  "applyPatch state patch policyMode =
     (if wordCount patch < 1 \<or> wordCount patch > 4 then Inr (Inl E03)
      else js_bind (merkleizeState state) (\<lambda>currentRoot. Inr (
        if \<not> bytesEqual (parentStateRoot patch) currentRoot then Inl E01
        else if \<not> validatePatchType (patchType patch) (indices patch) then Inl E02
        else if policyMode \<and> \<not> policyWriteIsCanonicalForState state patch then Inl E02
        else if policyMode \<and> patchTouchesHeader patch then Inl E02
        else write_and_check state patch policyMode)))"

definition applyPatchOntoCurrent :: "CortexState \<Rightarrow> Patch \<Rightarrow> bool \<Rightarrow> PatchResult" where
  "applyPatchOntoCurrent current patch policyMode =
     (if wordCount patch < 1 \<or> wordCount patch > 4 then Inl E03
      else if \<not> validatePatchType (patchType patch) (indices patch) then Inl E02
      else if policyMode \<and> patchTouchesHeader patch then Inl E02
      else if policyMode \<and> \<not> policyWriteIsCanonicalForState current patch then Inl E02
      else write_and_check current patch policyMode)"

definition patchMatchesEpochParent :: "Patch \<Rightarrow> bytes \<Rightarrow> bool" where
  "patchMatchesEpochParent patch epochParentRoot = bytesEqual (parentStateRoot patch) epochParentRoot"

definition PATCH_TYPE :: "(string \<times> int) list" where
  "PATCH_TYPE = [(''KEY_UPDATE'', KEY_UPDATE), (''SLOT_REPLACE'', SLOT_REPLACE), (''TEMPORAL_UPDATE'', TEMPORAL_UPDATE),
     (''RELATION_UPDATE'', RELATION_UPDATE), (''CODEBOOK_UPDATE'', CODEBOOK_UPDATE), (''HEADER_UPDATE'', HEADER_UPDATE),
     (''POLICY_UPDATE'', POLICY_UPDATE), (''MIXED'', MIXED)]"

definition buildAllowedPatchTypes :: "string option \<Rightarrow> (string \<times> int \<times> int \<times> int) list" where
  "buildAllowedPatchTypes pipelineVersion =
     (let r5 = (pipelineVersion = Some ''coretex-retrieval-v2-policy-r5'') in
      List.map_filter (\<lambda>(name, byte).
        if r5 \<and> byte \<in> {KEY_UPDATE, CODEBOOK_UPDATE, HEADER_UPDATE} then None
        else if byte = MIXED then Some (name, byte, if r5 then MEMORY_INDEX_START else 0, CODEBOOK_END)
        else map_option (\<lambda>(lo, hi). (name, byte, lo, hi)) (patchTypeRange byte)) PATCH_TYPE)"

section \<open>Varints of word indices\<close>

definition idx_bytes :: "int \<Rightarrow> bytes" where
  "idx_bytes n = (if n < 128 then [word_of_int n] else [word_of_int (n mod 128) OR 0x80, word_of_int (n div 128)])"

lemma byte_high_bit: "(b :: u8) AND 0x80 = 0 \<longleftrightarrow> \<not> bit b 7"
  using and_exp_eq_0_iff_not_bit [of b 7] by simp

lemma byte_low_bits: "(b :: u8) AND 0x7f = take_bit 7 b"
  by (simp add: take_bit_eq_mask mask_eq_exp_minus_1)

lemma uint_take7: "uint (take_bit 7 b) = uint b mod 128" for b :: u8
  by (simp add: unsigned_take_bit_eq) (simp add: take_bit_eq_mod)

lemma bit7_word_of_int: "0 \<le> m \<Longrightarrow> m < 128 \<Longrightarrow> \<not> bit (word_of_int m :: u8) 7"
  by (simp add: bit_word_of_int_iff) (simp add: bit_iff_odd)

lemma uint_small: "0 \<le> m \<Longrightarrow> m < 128 \<Longrightarrow> uint (word_of_int m :: u8) = m"
  by (simp add: unsigned_of_int take_bit_int_eq_self)

lemma or_high_bit: "bit ((b :: u8) OR 0x80) 7" "take_bit 7 ((b :: u8) OR 0x80) = take_bit 7 b"
proof -
  have 80: "(0x80 :: u8) = push_bit 7 1" by simp
  show "bit (b OR 0x80) 7" by (simp add: bit_or_iff)
  show "take_bit 7 (b OR 0x80) = take_bit 7 b" unfolding 80 by (simp add: bits_simps del: push_bit_of_1)
qed

lemma uint_or_high: "uint ((b :: u8) OR 0x80) mod 128 = uint b mod 128"
  using or_high_bit(2) [of b] uint_take7 [of b] uint_take7 [of "b OR 0x80"] by simp

lemma byte_low_only: "\<not> bit (b :: u8) 7 \<Longrightarrow> word_of_int (uint b mod 128) = b"
proof -
  assume "\<not> bit b 7"
  then have "take_bit 7 b = b"
    by (intro bit_word_eqI) (auto simp: bit_take_bit_iff less_Suc_eq numeral_eq_Suc)
  then show ?thesis by (metis uint_take7 word_of_int_uint)
qed

lemma byte_high_only: "bit (b :: u8) 7 \<Longrightarrow> word_of_int (uint b mod 128) OR 0x80 = b"
proof -
  assume b: "bit b 7"
  have "word_of_int (uint b mod 128) = take_bit 7 b" by (metis uint_take7 word_of_int_uint)
  moreover have "take_bit 7 b OR 0x80 = b"
  proof (rule bit_word_eqI)
    fix n assume "n < LENGTH(8)"
    then have "n < 7 \<or> n = 7" by auto
    moreover have "bit (0x80 :: u8) n \<longleftrightarrow> n = 7" using bit_exp_iff [of 7 n, where 'a = u8] by auto
    ultimately show "bit (take_bit 7 b OR 0x80) n = bit b n"
      using b by (auto simp: bit_or_iff bit_take_bit_iff)
  qed
  ultimately show ?thesis by simp
qed

lemma or_shift7: "0 \<le> a \<Longrightarrow> a < 128 \<Longrightarrow> a OR push_bit 7 b = a + 128 * b" for a b :: int
proof -
  assume a: "0 \<le> a" "a < 128"
  then have "take_bit 7 a = a" by (simp add: take_bit_int_eq_self)
  then have "\<not> bit a n" if "7 \<le> n" for n using that by (metis bit_take_bit_iff not_less)
  then have "a + push_bit 7 b = a OR push_bit 7 b" by (intro disjunctive_add) (auto simp: bit_push_bit_iff not_le)
  then show ?thesis by (simp add: push_bit_eq_mult)
qed

lemma leb128_index:
  assumes "0 \<le> n" "n < 1024"
  shows "leb128_loop (word_of_int n) = idx_bytes n"
proof -
  have drop: "drop_bit 7 (word_of_int k :: u32) = word_of_int (k div 128)" if "0 \<le> k" "k < 1024" for k
    using that by (simp add: drop_bit_eq_div word_div_def uint_word_of_int_eq take_bit_int_eq_self)
  have low: "(ucast ((word_of_int k :: u32) AND 0x7f) :: u8) = word_of_int (k mod 128)" for k
  proof -
    have "(word_of_int k :: u32) AND 0x7f = take_bit 7 (word_of_int k)"
      by (simp add: take_bit_eq_mask mask_eq_exp_minus_1)
    then show ?thesis
      by (intro bit_word_eqI) (auto simp: bit_ucast_iff bit_take_bit_iff bit_word_of_int_iff
          simp flip: take_bit_eq_mod [of 7 k, simplified])
  qed
  have z: "(word_of_int (k div 128) :: u32) = 0 \<longleftrightarrow> k div 128 = 0" if "0 \<le> k" "k < 1024" for k
    using that zdvd_imp_le [of 4294967296 "k div 128"] by (auto simp: word_of_int_eq_0_iff pos_imp_zdiv_pos_iff)
  have small: "n div 128 div 128 = 0" using assms by simp
  show ?thesis
    using assms small drop [OF assms] drop [of "n div 128"] z [OF assms] z [of "n div 128"] low [of n] low [of "n div 128"]
    by (auto simp: idx_bytes_def leb128_loop.simps [of "word_of_int n"] leb128_loop.simps [of "word_of_int (n div 128)"] Let_def)
qed

lemma decodeLEB128_idx:
  assumes "0 \<le> n" "n < 1024" "drop offset dat = idx_bytes n @ rest"
  shows "decodeLEB128 dat offset = Inr (n, length (idx_bytes n))"
proof -
  have len: "offset < length dat" using assms(3) by (auto simp: idx_bytes_def intro: ccontr split: if_splits)
  have at: "dat ! offset = hd (drop offset dat)" using len by (simp add: hd_drop_conv_nth)
  show ?thesis
  proof (cases "n < 128")
    case True
    then show ?thesis using assms len at
      by (simp add: decodeLEB128_def idx_bytes_def byte_high_bit byte_low_bits bit7_word_of_int uint_take7 uint_small)
  next
    case False
    then have "1 < length (drop offset dat)" using assms(3) by (simp add: idx_bytes_def)
    then have "offset + 1 < length dat" by simp
    moreover from this have "dat ! (offset + 1) = drop offset dat ! 1" by simp
    moreover have "uint (take_bit 7 (word_of_int (n mod 128) :: u8)) = n mod 128"
      by (simp add: uint_take7 uint_small)
    moreover have "n mod 128 OR push_bit 7 (n div 128) = n"
      using split_bits [of 7 4 n] assms(1,2)
      by (simp add: or.commute take_bit_eq_mod drop_bit_eq_div)
    ultimately show ?thesis using assms len at False
      by (simp add: decodeLEB128_def idx_bytes_def byte_high_bit byte_low_bits or_high_bit bit7_word_of_int uint_take7 uint_or_high uint_small Let_def)
  qed
qed

lemma decodeLEB128_inv:
  assumes "decodeLEB128 dat offset = Inr (v, n)"
  shows "0 \<le> v \<and> v < 1024 \<and> n = length (idx_bytes v) \<and> offset + n \<le> length dat \<and> take n (drop offset dat) = idx_bytes v"
proof -
  have len: "offset < length dat" using assms by (simp add: decodeLEB128_def split: if_splits)
  define f where "f = dat ! offset"
  have f: "drop offset dat = f # drop (offset + 1) dat" using len by (simp add: Cons_nth_drop_Suc f_def)
  show ?thesis
  proof (cases "bit f 7")
    case False
    have v: "v = uint f mod 128" "n = 1" using assms False len
      by (auto simp: decodeLEB128_def byte_high_bit byte_low_bits uint_take7 f_def Let_def split: if_splits)
    then have "v < 128" "0 \<le> v" by simp_all
    then show ?thesis using v f len byte_low_only [OF False] by (simp add: idx_bytes_def)
  next
    case True
    define s where "s = dat ! (offset + 1)"
    have v: "n = 2" "offset + 1 < length dat" "\<not> bit s 7" "128 \<le> v" "v < 1024"
      "v = uint f mod 128 OR push_bit 7 (uint s mod 128)"
      using assms True len
      by (auto simp: decodeLEB128_def byte_high_bit byte_low_bits uint_take7 f_def s_def Let_def split: if_splits)
    have "drop offset dat = f # s # drop (offset + 2) dat"
      using v(2) len by (simp add: f_def s_def Cons_nth_drop_Suc)
    moreover have "v mod 128 = uint f mod 128" "v div 128 = uint s mod 128"
      using v(6) or_shift7 [of "uint f mod 128" "uint s mod 128"] by simp_all
    ultimately show ?thesis
      using v byte_high_only [OF True] byte_low_only [OF v(3)] by (simp add: idx_bytes_def)
  qed
qed

section \<open>Round trips of the wire format\<close>

definition entry_bytes :: "int \<times> bigint \<Rightarrow> bytes" where
  "entry_bytes e = idx_bytes (fst e) @ be_bytes 32 (snd e)"

lemma entry_bytes_pair [simp]: "entry_bytes (i, w) = idx_bytes i @ be_bytes 32 w"
  by (simp add: entry_bytes_def)

definition entry_ok :: "int \<times> bigint \<Rightarrow> bool" where
  "entry_ok e \<longleftrightarrow> 0 \<le> fst e \<and> fst e < 1024 \<and> u256 (snd e)"

lemma decode_words_entries:
  assumes "list_all entry_ok es" "drop offset dat = concat (map entry_bytes es)" "offset \<le> length dat"
  shows "decode_words (length es) dat offset is ws = Inr (length dat, is @ map fst es, ws @ map snd es)"
  using assms
proof (induction es arbitrary: offset "is" ws)
  case (Cons e es)
  obtain i w where e: "e = (i, w)" by fastforce
  let ?o = "offset + length (idx_bytes i)"
  have ok: "0 \<le> i" "i < 1024" "u256 w" using Cons.prems(1) by (simp_all add: e entry_ok_def)
  have d: "drop offset dat = idx_bytes i @ be_bytes 32 w @ concat (map entry_bytes es)"
    using Cons.prems(2) by (simp add: e)
  then have "length dat - offset = length (idx_bytes i) + (32 + length (concat (map entry_bytes es)))"
    by (metis length_append length_be_bytes length_drop)
  then have len: "?o + 32 \<le> length dat" using Cons.prems(3) by linarith
  have d2: "drop ?o dat = be_bytes 32 w @ concat (map entry_bytes es)"
    using d by (metis add.commute append_eq_conv_conj drop_drop)
  then have d3: "drop (?o + 32) dat = concat (map entry_bytes es)"
    by (metis add.commute append_eq_conv_conj drop_drop length_be_bytes)
  have "readBigEndian32 dat ?o = w"
    using len d2 ok(3) by (simp add: readBigEndian32_eq be_val_be_bytes u256_def del: be_bytes.simps)
  then show ?case
    using Cons.IH [OF _ d3 len] Cons.prems(1) len
    by (simp add: e decodeLEB128_idx [OF ok(1,2) d])
qed simp

lemma decode_words_inv:
  assumes "decode_words n dat offset is ws = Inr (offset', is', ws')" "offset \<le> length dat"
  shows "\<exists>es. length es = n \<and> list_all entry_ok es \<and> is' = is @ map fst es \<and> ws' = ws @ map snd es \<and>
    offset \<le> offset' \<and> offset' \<le> length dat \<and> take (offset' - offset) (drop offset dat) = concat (map entry_bytes es)"
  using assms
proof (induction n arbitrary: offset "is" ws)
  case (Suc n)
  then obtain i m where im: "decodeLEB128 dat offset = Inr (i, m)"
    by (cases "decodeLEB128 dat offset") auto
  note inv = decodeLEB128_inv [OF im]
  let ?o = "offset + m" let ?w = "readBigEndian32 dat (offset + m)"
  have len: "?o + 32 \<le> length dat"
    and rec: "decode_words n dat (?o + 32) (is @ [i]) (ws @ [?w]) = Inr (offset', is', ws')"
    using Suc.prems(1) by (simp_all add: im Let_def split: if_splits)
  from Suc.IH [OF rec len] obtain es where es: "length es = n" "list_all entry_ok es" "is' = is @ i # map fst es"
    "ws' = ws @ ?w # map snd es" "?o + 32 \<le> offset'" "offset' \<le> length dat"
    "take (offset' - (?o + 32)) (drop (?o + 32) dat) = concat (map entry_bytes es)"
    by auto
  have "offset' - offset = m + (32 + (offset' - (?o + 32)))" using es(5) by linarith
  then have "take (offset' - offset) (drop offset dat)
      = take m (drop offset dat) @ take 32 (drop ?o dat) @ take (offset' - (?o + 32)) (drop (?o + 32) dat)"
    by (simp only: take_add drop_drop add.commute add.left_commute)
  moreover have "take 32 (drop ?o dat) = be_bytes 32 ?w"
    using be_bytes_be_val [of "take 32 (drop ?o dat)"] len by (simp add: readBigEndian32_eq)
  ultimately have "take (offset' - offset) (drop offset dat) = concat (map entry_bytes ((i, ?w) # es))"
    using inv [THEN conjunct2, THEN conjunct2, THEN conjunct2, THEN conjunct2] es(7) by simp
  moreover have "entry_ok (i, ?w)" using inv readBigEndian32_u256 [OF len] by (simp add: entry_ok_def)
  ultimately show ?case using es by (intro exI [of _ "(i, ?w) # es"]) simp
qed simp

lemma valid_indices_iff:
  "valid_indices is seen \<longleftrightarrow> list_all (\<lambda>i. 0 \<le> i \<and> i < RESERVED_START) is \<and> distinct is \<and> set is \<inter> set seen = {}"
  by (induction "is" arbitrary: seen) auto

lemma js_map_encodeLEB128:
  "list_all (\<lambda>i. 0 \<le> i \<and> i < 1024) is \<Longrightarrow> js_map encodeLEB128 is = Inr (map idx_bytes is)"
  by (induction "is") (simp_all add: encodeLEB128_def leb128_index)

lemma patchTypeRange_byte: "patchTypeRange ty = Some r \<Longrightarrow> 0 < ty \<and> ty < 8"
  by (auto simp: patchTypeRange_def PATCH_TYPE_RANGE_TABLE_def split: if_splits)

lemma validatePatchType_byte: "validatePatchType ty is \<Longrightarrow> 0 < ty \<and> ty \<le> 255"
  using patchTypeRange_byte by (fastforce simp: validatePatchType_def split: if_splits option.splits)

lemma validatePatchType_indices:
  "validatePatchType ty is \<Longrightarrow> list_all (\<lambda>i. 0 \<le> i \<and> i < RESERVED_START) is \<and> distinct is"
  by (simp add: validatePatchType_def valid_indices_iff split: if_splits)

lemma u32_be_eq: "u32_be (word_of_int v) = be_bytes 4 v"
proof -
  have *: "(ucast (drop_bit k (word_of_int v :: u32) AND 0xff) :: u8) = word_of_int (v div 2 ^ k)" if "k + 8 \<le> 32" for k
  proof -
    have ff: "drop_bit k (word_of_int v :: u32) AND 0xff = take_bit 8 (drop_bit k (word_of_int v))"
      by (simp add: take_bit_eq_mask mask_eq_exp_minus_1)
    show ?thesis unfolding ff drop_bit_eq_div [of k v, symmetric]
      by (rule bit_word_eqI) (use that in \<open>auto simp: bit_ucast_iff bit_take_bit_iff bit_drop_bit_eq bit_word_of_int_iff\<close>)
  qed
  have "be_bytes 4 v = [word_of_int (v div 2 ^ 24), word_of_int (v div 2 ^ 16), word_of_int (v div 2 ^ 8), word_of_int v]"
    by (simp add: be_bytes_map upt_rec)
  then show ?thesis
    using * [of 24] * [of 16] * [of 8] * [of 0] by (simp add: u32_be_def)
qed

lemma be_bytes_split: "be_bytes (m + n) v = be_bytes m (v div 256 ^ n) @ be_bytes n v"
proof (induction n arbitrary: v)
  case (Suc n)
  have "v div 256 div 256 ^ n = v div (256 * 256 ^ n)" by (simp add: zdiv_zmult2_eq)
  then show ?case using Suc [of "v div 256"] by simp
qed simp

lemma score_bytes:
  "u32_be (word_of_int (drop_bit 32 sd)) @ u32_be (word_of_int (sd AND 0xffffffff)) = be_bytes 8 sd"
proof -
  have "sd AND 0xffffffff = sd mod 256 ^ 4" for sd :: int
    using take_bit_eq_mask [of 32 sd] by (simp add: take_bit_eq_mod mask_eq_exp_minus_1)
  moreover have "drop_bit 32 sd = sd div 256 ^ 4" by (simp add: drop_bit_eq_div)
  ultimately show ?thesis
    using be_bytes_split [of 4 4 sd] by (simp only: u32_be_eq be_bytes_mod) simp
qed

lemma uint_read_u32_be:
  assumes "k + 4 \<le> length dat"
  shows "uint (read_u32_be dat k) = be_val (take 4 (drop k dat))"
proof -
  let ?a = "dat ! k" and ?b = "dat ! (k + 1)" and ?c = "dat ! (k + 2)" and ?d = "dat ! (k + 3)"
  have "drop k dat = ?a # ?b # ?c # ?d # drop (k + 4) dat"
    using assms Cons_nth_drop_Suc [of k dat] Cons_nth_drop_Suc [of "Suc k" dat]
      Cons_nth_drop_Suc [of "Suc (Suc k)" dat] Cons_nth_drop_Suc [of "Suc (Suc (Suc k))" dat]
    by (simp add: numeral_eq_Suc)
  then have val: "be_val (take 4 (drop k dat)) = ((uint ?a * 256 + uint ?b) * 256 + uint ?c) * 256 + uint ?d"
    by (simp add: be_val_def)
  have up: "uint (ucast x :: u32) = uint x" for x :: u8 using uint_u8 [of x] by (simp add: unsigned_ucast_eq take_bit_int_eq_self)
  have f: "fits 8 (uint x)" for x :: u8 using uint_u8 [of x] by (simp add: fits_iff)
  have "uint (read_u32_be dat k) = push_bit 24 (uint ?a) OR push_bit 16 (uint ?b) OR push_bit 8 (uint ?c) OR uint ?d"
    by (simp add: read_u32_be_def unsigned_or_eq unsigned_push_bit_eq up bits_simps f [THEN fits_take])
  also have "\<dots> = push_bit 8 (push_bit 8 (push_bit 8 (uint ?a) OR uint ?b) OR uint ?c) OR uint ?d"
    by (simp add: push_bit_or or.assoc)
  finally show ?thesis by (simp add: shift_or_byte val)
qed

lemma be_val_append: "be_val (as @ bs) = be_val as * 256 ^ length bs + be_val bs"
proof (induction bs rule: rev_induct)
  case (snoc b bs)
  then show ?case by (simp flip: append_assoc add: algebra_simps)
qed simp

lemma score_read:
  assumes "k + 8 \<le> length dat"
  shows "push_bit 32 (uint (read_u32_be dat k)) OR uint (read_u32_be dat (k + 4)) = be_val (take 8 (drop k dat))"
proof -
  have 8: "take 8 (drop k dat) = take 4 (drop k dat) @ take 4 (drop (k + 4) dat)"
    using take_add [of 4 4 "drop k dat"] by (simp add: add.commute)
  have "push_bit 32 h OR uint (l :: u32) = h * 2 ^ 32 + uint l" for h l
  proof -
    have "push_bit 32 h + uint l = push_bit 32 h OR uint l"
      by (rule disjunctive_add) (auto simp: bit_push_bit_iff bit_uint_iff)
    then show ?thesis by (simp add: push_bit_eq_mult)
  qed
  from this [of "uint (read_u32_be dat k)" "read_u32_be dat (k + 4)"] show ?thesis
    using assms by (simp add: 8 be_val_append uint_read_u32_be)
qed

definition wire_ok :: "Patch \<Rightarrow> bool" where
  "wire_ok p \<longleftrightarrow> 1 \<le> wordCount p \<and> wordCount p \<le> 4 \<and> int (length (indices p)) = wordCount p \<and>
     int (length (newWords p)) = wordCount p \<and> validatePatchType (patchType p) (indices p) \<and>
     0 \<le> scoreDelta p \<and> scoreDelta p < 2 ^ 63 \<and> length (parentStateRoot p) = 32"

definition patch_bytes :: "Patch \<Rightarrow> bytes" where
  "patch_bytes p = word_of_int (patchType p) # word_of_int (wordCount p) # be_bytes 8 (scoreDelta p) @ parentStateRoot p
     @ concat (map entry_bytes (zip (indices p) (newWords p)))"

lemma MAX_WIRE_iff: "sd > MAX_WIRE_SCORE_DELTA \<longleftrightarrow> sd \<ge> 2 ^ 63"
  by (simp add: MAX_WIRE_SCORE_DELTA_def) linarith

lemma encodePatch_ok:
  assumes "wire_ok p"
  shows "encodePatch p = Inr (patch_bytes p)"
proof -
  note ok = assms [unfolded wire_ok_def]
  have idx: "list_all (\<lambda>i. 0 \<le> i \<and> i < 1024) (indices p)"
    using validatePatchType_indices [of "patchType p" "indices p"] ok by (auto simp: list_all_iff)
  have ty: "(word_of_int (patchType p AND 0xff) :: u8) = word_of_int (patchType p)"
    by (simp add: and_ff byte_of_int_mod)
  have n: "nat (wordCount p) = length (indices p)" "length (newWords p) = length (indices p)" using ok by linarith+
  have "map (\<lambda>i. map idx_bytes (indices p) ! i @ writeBigEndian32 (replicate 32 0) 0 (nth_or 0 (newWords p) i))
      [0..<nat (wordCount p)] = map entry_bytes (zip (indices p) (newWords p))"
    by (rule nth_equalityI) (simp_all add: n writeBigEndian32_eq)
  then show ?thesis
    using ok score_bytes [of "scoreDelta p"]
    by (simp add: encodePatch_def patch_bytes_def js_map_encodeLEB128 [OF idx] ty MAX_WIRE_iff not_less Let_def)
qed

lemma encodePatch_Inr: "encodePatch p = Inr bs \<Longrightarrow> wire_ok p"
  by (auto simp: encodePatch_def wire_ok_def MAX_WIRE_iff js_bind_eq_Inr_iff Let_def split: if_splits)

lemma uint_byte: "0 \<le> n \<Longrightarrow> n < 256 \<Longrightarrow> uint (word_of_int n :: u8) = n"
  by (simp add: unsigned_of_int take_bit_int_eq_self)

lemma decodePatch_patch_bytes:
  assumes "wire_ok p" "list_all u256 (newWords p)"
  shows "decodePatch (patch_bytes p) = Inr p"
proof -
  note ok = assms(1) [unfolded wire_ok_def]
  let ?es = "zip (indices p) (newWords p)" and ?bs = "patch_bytes p"
  have len: "length (indices p) = nat (wordCount p)" "length (newWords p) = nat (wordCount p)" using ok by linarith+
  have es: "list_all entry_ok ?es"
  proof -
    have "\<forall>i\<in>set (indices p). 0 \<le> i \<and> i < 1024"
      using validatePatchType_indices [of "patchType p" "indices p"] ok by (force simp: list_all_iff)
    then show ?thesis
      using assms(2) by (auto simp: list_all_iff entry_ok_def dest: set_zip_leftD set_zip_rightD)
  qed
  have d42: "drop 42 ?bs = concat (map entry_bytes ?es)" and l42: "42 \<le> length ?bs"
    using ok by (simp_all add: patch_bytes_def)
  have dec: "decode_words (nat (wordCount p)) ?bs 42 [] [] = Inr (length ?bs, indices p, newWords p)"
    using decode_words_entries [OF es d42 l42, of "[]" "[]"] len by simp
  have "take 8 (drop 2 ?bs) = be_bytes 8 (scoreDelta p)" using ok by (simp add: patch_bytes_def)
  then have sd: "push_bit 32 (uint (read_u32_be ?bs 2)) OR uint (read_u32_be ?bs 6) = scoreDelta p"
    using score_read [of 2 ?bs] l42 ok by (simp add: be_val_be_bytes)
  have root: "take 32 (drop 10 ?bs) = parentStateRoot p" using ok by (simp add: patch_bytes_def)
  have ty: "uint (?bs ! 0) = patchType p" "uint (?bs ! 1) = wordCount p"
    using validatePatchType_byte [of "patchType p" "indices p"] ok by (simp_all add: patch_bytes_def uint_byte)
  show ?thesis
    unfolding decodePatch_def Let_def ty sd root using ok l42 by (simp add: dec MAX_WIRE_iff not_less)
qed

text \<open>The wire format loses nothing: every patch that \<open>encodePatch\<close> accepts, with 256-bit words,
  is returned unchanged by \<open>decodePatch\<close>.\<close>

lemma decodePatch_encodePatch:
  assumes "encodePatch p = Inr bs" "list_all u256 (newWords p)"
  shows "decodePatch bs = Inr p"
  using assms encodePatch_Inr [OF assms(1)] encodePatch_ok decodePatch_patch_bytes by fastforce

text \<open>A slot replacement and a temporal write, used as a concrete input.\<close>

definition demo_patch :: Patch where
  "demo_patch = \<lparr>patchType = MIXED, wordCount = 2, scoreDelta = 1500000, parentStateRoot = replicate 32 0x5A,
     indices = [33, 801], newWords = [push_bit 128 9, push_bit 152 1]\<rparr>"

lemma demo_patch_ok: "wire_ok demo_patch" "list_all u256 (newWords demo_patch)"
  by (simp_all add: wire_ok_def demo_patch_def validatePatchType_def u256_def)

lemma decodePatch_spelling:
  assumes "decodePatch bs = Inr p"
  shows "wire_ok p" "patch_bytes p = bs"
proof -
  from assms have len: "42 \<le> length bs" and wc: "1 \<le> uint (bs ! 1)" "uint (bs ! 1) \<le> 4"
    and dec: "decode_words (nat (uint (bs ! 1))) bs 42 [] [] = Inr (length bs, indices p, newWords p)"
    and ty: "validatePatchType (uint (bs ! 0)) (indices p)"
    and p: "patchType p = uint (bs ! 0)" "wordCount p = uint (bs ! 1)" "parentStateRoot p = take 32 (drop 10 bs)"
      "scoreDelta p = push_bit 32 (uint (read_u32_be bs 2)) OR uint (read_u32_be bs 6)"
    and sd: "\<not> scoreDelta p > MAX_WIRE_SCORE_DELTA"
    by (fastforce simp: decodePatch_def Let_def js_bind_eq_Inr_iff split: if_splits)+
  from decode_words_inv [OF dec len] obtain es where es: "length es = nat (uint (bs ! 1))"
    "indices p = map fst es" "newWords p = map snd es" "drop 42 bs = concat (map entry_bytes es)"
    by auto
  have sd2: "scoreDelta p = be_val (take 8 (drop 2 bs))" using p(4) score_read [of 2 bs] len by simp
  show "wire_ok p"
    using wc ty sd len es p(1-3) by (simp add: wire_ok_def sd2 MAX_WIRE_iff)
  have "zip (indices p) (newWords p) = es" by (simp add: es zip_map_fst_snd)
  moreover have "be_bytes 8 (scoreDelta p) = take 8 (drop 2 bs)"
    using be_bytes_be_val [of "take 8 (drop 2 bs)"] len by (simp add: sd2)
  ultimately have "patch_bytes p = bs ! 0 # bs ! 1 # take 8 (drop 2 bs) @ take 32 (drop 10 bs) @ drop 42 bs"
    by (simp add: patch_bytes_def p(1-3) es(4))
  also have "\<dots> = bs"
  proof -
    have "drop 2 bs = take 8 (drop 2 bs) @ take 32 (drop 10 bs) @ drop 42 bs"
      using append_take_drop_id [of 8 "drop 2 bs"] append_take_drop_id [of 32 "drop 10 bs"] by simp
    moreover have "bs = bs ! 0 # bs ! 1 # drop 2 bs"
    proof -
      have "0 < length bs" "1 < length bs" using len by linarith+
      then show ?thesis using Cons_nth_drop_Suc [of 0 bs] Cons_nth_drop_Suc [of 1 bs] by (simp add: numeral_2_eq_2)
    qed
    ultimately show ?thesis by simp
  qed
  finally show "patch_bytes p = bs" .
qed

lemma decode_words_u256:
  "decode_words n bs off is ws = Inr (e, is', ws') \<Longrightarrow> list_all u256 ws \<Longrightarrow> list_all u256 ws'"
proof (induction n arbitrary: off "is" ws)
  case (Suc n)
  then show ?case by (fastforce simp: js_bind_eq_Inr_iff Let_def readBigEndian32_u256 split: if_splits)
qed simp

lemma decodePatch_u256:
  assumes "decodePatch bs = Inr p"
  shows "list_all u256 (newWords p)"
proof -
  from assms obtain e where "decode_words (nat (uint (bs ! 1))) bs 42 [] [] = Inr (e, indices p, newWords p)"
    by (fastforce simp: decodePatch_def Let_def js_bind_eq_Inr_iff split: if_splits)
  then show ?thesis by (rule decode_words_u256) simp
qed

text \<open>C17. The wire format has one spelling per patch: whatever bytes \<open>decodePatch\<close> accepts are exactly
  the bytes that \<open>encodePatch\<close> writes for the decoded patch, so a relayed patch cannot be altered
  without changing its meaning.\<close>

theorem encodePatch_decodePatch:
  assumes "decodePatch bs = Inr p"
  shows "encodePatch p = Inr bs"
  using encodePatch_ok [OF decodePatch_spelling(1) [OF assms]] decodePatch_spelling(2) [OF assms] by simp

theorem encodePatch_decodePatch_witness:
  "encodePatch demo_patch = Inr (patch_bytes demo_patch)"
  by (rule encodePatch_decodePatch) (rule decodePatch_patch_bytes [OF demo_patch_ok])

section \<open>Application\<close>

text \<open>The words after the writes: the patched positions, in order, over the old words.\<close>

definition patched :: "CortexState \<Rightarrow> Patch \<Rightarrow> bigint list" where
  "patched s p = foldl (\<lambda>ws (i, w). ws[nat i := w]) (words s) (zip (indices p) (newWords p))"

text \<open>A patch whose three size fields agree and whose words are 256-bit; every decoded patch is one.\<close>

definition well_sized :: "Patch \<Rightarrow> bool" where
  "well_sized p \<longleftrightarrow> int (length (indices p)) = wordCount p \<and> int (length (newWords p)) = wordCount p \<and>
     list_all u256 (newWords p)"

lemma write_words_run:
  assumes "list_all (\<lambda>i. 0 \<le> i \<and> i < RESERVED_START) (indices p)" "length (newWords p) = length (indices p)"
    "length ws = WORD_COUNT" "n \<le> length (indices p)"
  shows "write_words p [n..<length (indices p)] ws
    = Inr (foldl (\<lambda>ws (i, w). ws[nat i := w]) ws (zip (drop n (indices p)) (drop n (newWords p))))"
  using assms(3,4)
proof (induction "length (indices p) - n" arbitrary: n ws)
  case (Suc k)
  then have n: "n < length (indices p)" by simp
  then have i: "0 \<le> indices p ! n" "indices p ! n < 992" using assms(1) by (simp_all add: list_all_length)
  let ?ws = "ws[nat (indices p ! n) := newWords p ! n]"
  have IH: "write_words p [Suc n..<length (indices p)] ?ws
      = Inr (foldl (\<lambda>ws (i, w). ws[nat i := w]) ?ws (zip (drop (Suc n) (indices p)) (drop (Suc n) (newWords p))))"
    using Suc n by (intro Suc.hyps(1)) simp_all
  have split: "zip (drop n (indices p)) (drop n (newWords p))
      = (indices p ! n, newWords p ! n) # zip (drop (Suc n) (indices p)) (drop (Suc n) (newWords p))"
    using n assms(2) by (simp flip: Cons_nth_drop_Suc)
  show ?case
    using IH i n Suc.prems(1) assms(2) by (simp add: upt_conv_Cons split in_range_def del: upt_Suc)
qed simp

lemma write_words_patched:
  assumes "validatePatchType (patchType p) (indices p)" "well_sized p" "length (words s) = WORD_COUNT"
  shows "write_words p [0..<nat (wordCount p)] (words s) = Inr (patched s p)"
proof -
  have "nat (wordCount p) = length (indices p)" "length (newWords p) = length (indices p)"
    using assms(2) by (auto simp: well_sized_def)
  then show ?thesis
    using write_words_run [of p "words s" 0] validatePatchType_indices [OF assms(1)] assms(3)
    by (simp add: patched_def)
qed

lemma length_foldl_zip_update [simp]:
  "length (foldl (\<lambda>ws (i, w). ws[nat i := w]) ws es) = length ws"
  by (induction es arbitrary: ws) auto

lemma foldl_zip_update_other:
  assumes "list_all (\<lambda>i. 0 \<le> i) is" "int k \<notin> set is"
  shows "foldl (\<lambda>ws (i, w). ws[nat i := w]) ws (zip is vs) ! k = ws ! k"
  using assms
proof (induction "is" arbitrary: ws vs)
  case (Cons i "is")
  then show ?case by (cases vs) auto
qed simp

lemma foldl_zip_update_at:
  assumes "distinct is" "list_all (\<lambda>i. 0 \<le> i \<and> nat i < length ws) is" "length is = length vs" "j < length is"
  shows "foldl (\<lambda>ws (i, w). ws[nat i := w]) ws (zip is vs) ! nat (is ! j) = vs ! j"
  using assms
proof (induction "is" arbitrary: ws vs j)
  case (Cons i "is")
  then obtain v vs' where vs: "vs = v # vs'" by (cases vs) auto
  show ?case
  proof (cases j)
    case 0
    then show ?thesis
      using Cons.prems vs foldl_zip_update_other [of "is" "nat i" "ws[nat i := v]" vs'] by (simp add: list_all_iff)
  next
    case (Suc m)
    then show ?thesis
      using Cons.prems vs Cons.IH [of "ws[nat i := v]" vs' m] by (simp add: list_all_iff)
  qed
qed simp

lemma patched_nth:
  assumes "validatePatchType (patchType p) (indices p)" "well_sized p" "length (words s) = WORD_COUNT"
  shows "length (patched s p) = WORD_COUNT"
    "int k \<notin> set (indices p) \<Longrightarrow> patched s p ! k = words s ! k"
    "j < length (indices p) \<Longrightarrow> patched s p ! nat (indices p ! j) = newWords p ! j"
proof -
  have i: "list_all (\<lambda>i. 0 \<le> i \<and> nat i < length (words s)) (indices p)" "distinct (indices p)"
    using validatePatchType_indices [OF assms(1)] assms(3) by (auto simp: list_all_iff)
  have l: "length (indices p) = length (newWords p)" using assms(2) by (simp add: well_sized_def)
  show "length (patched s p) = WORD_COUNT" by (simp add: patched_def assms(3))
  show "patched s p ! k = words s ! k" if "int k \<notin> set (indices p)"
    using foldl_zip_update_other [OF _ that] i by (simp add: patched_def list_all_iff)
  show "patched s p ! nat (indices p ! j) = newWords p ! j" if "j < length (indices p)"
    using foldl_zip_update_at [OF i(2,1) l that] by (simp add: patched_def)
qed

lemma well_sized_count: "well_sized p \<Longrightarrow> nat (wordCount p) = length (indices p) \<and> length (newWords p) = length (indices p)"
  by (auto simp: well_sized_def)

lemma index_nth:
  assumes "validatePatchType ty is" "j < length is"
  shows "0 \<le> is ! j" "is ! j < RESERVED_START"
  using validatePatchType_indices [OF assms(1)] assms(2) by (simp_all add: list_all_length)

lemma any_change_iff:
  assumes "validatePatchType (patchType p) (indices p)" "well_sized p" "length (words s) = WORD_COUNT"
  shows "any_change s p \<longleftrightarrow> patched s p \<noteq> words s"
proof -
  note wc = well_sized_count [OF assms(2)]
  have at: "word_at (words s) (Some (indices p ! j)) = words s ! nat (indices p ! j)" if "j < length (indices p)" for j
    using index_nth [OF assms(1) that] that assms(3) by (simp add: word_at_def)
  have "any_change s p \<longleftrightarrow> (\<exists>j<length (indices p). words s ! nat (indices p ! j) \<noteq> newWords p ! j)"
    using wc by (auto simp: any_change_def list_ex_iff at)
  also have "\<dots> \<longleftrightarrow> patched s p \<noteq> words s"
  proof
    assume "\<exists>j<length (indices p). words s ! nat (indices p ! j) \<noteq> newWords p ! j"
    then show "patched s p \<noteq> words s" using patched_nth(3) [OF assms] by auto
  next
    assume "patched s p \<noteq> words s"
    then obtain k where k: "k < WORD_COUNT" "patched s p ! k \<noteq> words s ! k"
      using patched_nth(1) [OF assms] assms(3) by (auto simp: list_eq_iff_nth_eq)
    then have "int k \<in> set (indices p)" using patched_nth(2) [OF assms] by blast
    then obtain j where "j < length (indices p)" "indices p ! j = int k" by (auto simp: in_set_conv_nth)
    then show "\<exists>j<length (indices p). words s ! nat (indices p ! j) \<noteq> newWords p ! j"
      using k patched_nth(3) [OF assms, of j] by force
  qed
  finally show ?thesis .
qed

text \<open>The guards of \<open>applyPatchOntoCurrent\<close> that come before the writes.\<close>

definition patch_admissible :: "CortexState \<Rightarrow> Patch \<Rightarrow> bool \<Rightarrow> bool" where
  "patch_admissible s p m \<longleftrightarrow> 1 \<le> wordCount p \<and> wordCount p \<le> 4 \<and> validatePatchType (patchType p) (indices p) \<and>
     (m \<longrightarrow> \<not> patchTouchesHeader p \<and> policyWriteIsCanonicalForState s p)"

lemma write_and_check_Inr:
  assumes "validatePatchType (patchType p) (indices p)" "well_sized p" "length (words s) = WORD_COUNT"
  shows "write_and_check s p m = Inr s' \<longleftrightarrow> patched s p \<noteq> words s \<and> \<not> hasNonZeroReservedBits \<lparr>words = patched s p\<rparr> \<and>
    (m \<longrightarrow> validatePolicyRegions \<lparr>words = patched s p\<rparr> = None) \<and> s' = \<lparr>words = patched s p\<rparr>"
  using any_change_iff [OF assms] write_words_patched [OF assms]
  by (auto simp: write_and_check_def Let_def split: option.splits)

lemma applyPatchOntoCurrent_Inr:
  assumes "well_sized p" "length (words s) = WORD_COUNT"
  shows "applyPatchOntoCurrent s p m = Inr s' \<longleftrightarrow> patch_admissible s p m \<and> patched s p \<noteq> words s \<and>
    \<not> hasNonZeroReservedBits \<lparr>words = patched s p\<rparr> \<and>
    (m \<longrightarrow> validatePolicyRegions \<lparr>words = patched s p\<rparr> = None) \<and> s' = \<lparr>words = patched s p\<rparr>"
  by (cases "validatePatchType (patchType p) (indices p)")
    (auto simp: applyPatchOntoCurrent_def patch_admissible_def write_and_check_Inr [OF _ assms] not_less)

lemma wf_patched:
  assumes "wf_state s" "well_sized p" "validatePatchType (patchType p) (indices p)"
  shows "wf_state \<lparr>words = patched s p\<rparr>"
proof -
  note a = assms(3,2) wf_state_length [OF assms(1)]
  have "u256 (patched s p ! k)" if "k < WORD_COUNT" for k
  proof (cases "int k \<in> set (indices p)")
    case True
    then obtain j where "j < length (indices p)" "indices p ! j = int k" by (auto simp: in_set_conv_nth)
    then show ?thesis
      using patched_nth(3) [OF a, of j] assms(2) by (simp add: well_sized_def list_all_length)
  qed (use patched_nth(2) [OF a] wf_state_nth [OF assms(1) that] in simp)
  then show ?thesis using patched_nth(1) [OF a] by (auto simp: wf_state_def in_set_conv_nth)
qed

lemma header_untouched:
  assumes "\<not> patchTouchesHeader p" "well_sized p" "i \<in> set (indices p)" "0 \<le> i"
  shows "32 \<le> i"
proof -
  obtain j where "j < length (indices p)" "indices p ! j = i" using assms(3) by (auto simp: in_set_conv_nth)
  then show ?thesis
    using assms well_sized_count [OF assms(2)] by (auto simp: patchTouchesHeader_def list_ex_iff in_range_def)
qed

text \<open>C18. What an accepted patch does: on a well-formed state it writes exactly its words and leaves
  every other word alone, changes the state, touches at most four words, none of them reserved and,
  under the policy mode, none of the header; the result is again well-formed, has clean reserved
  bits and, under the policy mode, well-typed policy regions.\<close>

theorem applyPatchOntoCurrent_effect:
  assumes "wf_state s" "well_sized p" "applyPatchOntoCurrent s p m = Inr s'"
  shows "wf_state s' \<and> s' \<noteq> s \<and> length (indices p) \<le> 4 \<and>
    (\<forall>j<length (indices p). words s' ! nat (indices p ! j) = newWords p ! j) \<and>
    (\<forall>k<WORD_COUNT. words s' ! k \<noteq> words s ! k \<longrightarrow> int k \<in> set (indices p) \<and> k < RESERVED_START \<and> (m \<longrightarrow> 32 \<le> k)) \<and>
    \<not> hasNonZeroReservedBits s' \<and> (m \<longrightarrow> policy_regions_ok s')"
proof -
  have adm: "patch_admissible s p m" and ne: "patched s p \<noteq> words s" and res: "\<not> hasNonZeroReservedBits s'"
    and pol: "m \<longrightarrow> validatePolicyRegions s' = None" and s': "s' = \<lparr>words = patched s p\<rparr>"
    using assms(3) applyPatchOntoCurrent_Inr [OF assms(2) wf_state_length [OF assms(1)]] by auto
  have ty: "validatePatchType (patchType p) (indices p)" using adm by (simp add: patch_admissible_def)
  note a = ty assms(2) wf_state_length [OF assms(1)]
  have wf: "wf_state s'" unfolding s' using assms(1,2) ty by (rule wf_patched)
  have touched: "int k \<in> set (indices p) \<and> k < 992 \<and> (m \<longrightarrow> 32 \<le> k)" if "words s' ! k \<noteq> words s ! k" for k
  proof -
    have "int k \<in> set (indices p)" using that patched_nth(2) [OF a] by (auto simp: s')
    moreover from this have "k < 992" using validatePatchType_indices [OF ty] by (auto simp: list_all_iff)
    moreover have "32 \<le> k" if m
      using header_untouched [OF _ assms(2) \<open>int k \<in> set (indices p)\<close>] that adm by (simp add: patch_admissible_def)
    ultimately show ?thesis by blast
  qed
  have "length (indices p) \<le> 4" using adm well_sized_count [OF assms(2)] by (auto simp: patch_admissible_def)
  moreover have "m \<longrightarrow> policy_regions_ok s'" using pol validatePolicyRegions_iff_None [OF wf] by simp
  moreover have "s' \<noteq> s" using ne s' by (metis CortexState.select_convs(1))
  ultimately show ?thesis using wf touched res patched_nth(3) [OF a] by (simp add: s')
qed

text \<open>The empty state and a slot write that applies to it.\<close>

definition zero_state :: CortexState where
  "zero_state = \<lparr>words = replicate 1024 0\<rparr>"

definition slot_patch :: "bytes \<Rightarrow> Patch" where
  "slot_patch parent = \<lparr>patchType = SLOT_REPLACE, wordCount = 1, scoreDelta = 10, parentStateRoot = parent,
     indices = [33], newWords = [push_bit 128 9]\<rparr>"

lemma zero_state_wf [simp]: "wf_state zero_state" "length (words zero_state) = WORD_COUNT"
  by (simp_all add: zero_state_def wf_state_def)

lemma slot_patch_sized [simp]: "well_sized (slot_patch r)"
  by (simp add: slot_patch_def well_sized_def u256_def)

lemma slot_patch_applies:
  "applyPatchOntoCurrent zero_state (slot_patch r) True = Inr \<lparr>words = (replicate 1024 0)[33 := push_bit 128 9]\<rparr>"
proof -
  let ?ws = "(replicate 1024 0)[33 := push_bit 128 (9::int)]"
  have p: "patched zero_state (slot_patch r) = ?ws"
    by (simp add: patched_def slot_patch_def zero_state_def)
  have r: "\<not> hasNonZeroReservedBits \<lparr>words = ?ws\<rparr>"
    by (simp add: reserved_bits_iff nth_or_update) (simp add: reserved_zero_def)
  have "?ws ! 33 \<noteq> replicate 1024 0 ! 33" by simp
  then have ne: "?ws \<noteq> words zero_state" unfolding zero_state_def by (metis CortexState.select_convs(1))
  have word: "?ws ! i = 0" if "i < 1024" "i \<noteq> 33" for i using that by simp
  have "policy_word_ok family k (?ws ! (reg_start (POLICY_REGIONS family) + k))" if "k < reg_count (POLICY_REGIONS family)" for family k
    using that by (cases family) (simp_all add: policy_word_ok_def word)
  then have pol: "policy_regions_ok \<lparr>words = ?ws\<rparr>" by (simp add: policy_regions_ok_def word)
  have ty: "validatePatchType (patchType (slot_patch r)) (indices (slot_patch r))"
    by (simp add: slot_patch_def validatePatchType_def patchTypeRange_def PATCH_TYPE_RANGE_TABLE_def)
  have wf: "wf_state \<lparr>words = ?ws\<rparr>" using wf_patched [OF zero_state_wf(1) slot_patch_sized ty] by (simp add: p)
  have adm: "patch_admissible zero_state (slot_patch r) True"
    by (simp add: patch_admissible_def slot_patch_def validatePatchType_def patchTypeRange_def PATCH_TYPE_RANGE_TABLE_def
        patchTouchesHeader_def in_range_def policyWriteIsCanonicalForState_def policyWriteIsCanonical_def)
  show ?thesis
    using applyPatchOntoCurrent_Inr [of "slot_patch r" zero_state True] adm ne r pol validatePolicyRegions_iff_None [OF wf]
    by (simp add: p)
qed

theorem applyPatchOntoCurrent_effect_witness:
  "\<exists>s'. applyPatchOntoCurrent zero_state (slot_patch []) True = Inr s' \<and> wf_state s' \<and> words s' ! 33 = push_bit 128 9 \<and>
     policy_regions_ok s'"
  using applyPatchOntoCurrent_effect [OF zero_state_wf(1) slot_patch_sized slot_patch_applies, of "[]"] slot_patch_applies [of "[]"]
  by (simp add: slot_patch_def)

section \<open>Parent roots, replays and advertised types\<close>

lemma bytesEqual_iff [simp]: "bytesEqual a b \<longleftrightarrow> a = b"
  unfolding bytesEqual_def list_eq_iff_nth_eq [of a b] list_all_iff by auto

lemma applyPatch_eq:
  assumes "length (words s) = WORD_COUNT"
  shows "\<exists>rt. merkleizeState s = Inr rt \<and> applyPatch s p m = Inr (
    if wordCount p < 1 \<or> wordCount p > 4 then Inl E03
    else if parentStateRoot p \<noteq> rt then Inl E01
    else applyPatchOntoCurrent s p m)"
  using merkleizeState_eq [OF assms] by (auto simp: applyPatch_def applyPatchOntoCurrent_def)

text \<open>\<open>applyPatch\<close> is the reducer's \<open>applyPatchOntoCurrent\<close> guarded by the parent root: on a state of
  1024 words it never throws, returns E03 for a budget violation, otherwise E01 if the patch was
  made for another root, and otherwise exactly the result of the unguarded application.\<close>

lemma applyPatch_is_guarded:
  assumes "length (words s) = WORD_COUNT"
  shows "\<exists>rt. merkleizeState s = Inr rt \<and> applyPatch s p m = Inr (
    if wordCount p < 1 \<or> wordCount p > 4 then Inl E03
    else if parentStateRoot p \<noteq> rt then Inl E01
    else applyPatchOntoCurrent s p m)"
  using assms by (rule applyPatch_eq)

text \<open>A patch applies at most once: applied again to its own result it is rejected, as a no-op (E05)
  or, for a mixed policy write whose companion no longer changes, as a non-canonical write (E02).\<close>

lemma patch_applies_once:
  assumes "length (words s) = WORD_COUNT" "well_sized p" "applyPatchOntoCurrent s p m = Inr s'"
  shows "applyPatchOntoCurrent s' p m \<in> {Inl E05, Inl E02}"
proof -
  have adm: "patch_admissible s p m" and s': "s' = \<lparr>words = patched s p\<rparr>"
    using assms(3) applyPatchOntoCurrent_Inr [OF assms(2,1)] by auto
  have ty: "validatePatchType (patchType p) (indices p)" using adm by (simp add: patch_admissible_def)
  note a = ty assms(2,1)
  have len: "length (words s') = WORD_COUNT" using patched_nth(1) [OF a] s' by simp
  have "patched s' p = words s'"
  proof (rule nth_equalityI)
    fix k assume k: "k < length (patched s' p)"
    show "patched s' p ! k = words s' ! k"
    proof (cases "int k \<in> set (indices p)")
      case True
      then obtain j where "j < length (indices p)" "indices p ! j = int k" by (auto simp: in_set_conv_nth)
      then show ?thesis
        using patched_nth(3) [OF ty assms(2) len, of j] patched_nth(3) [OF a, of j] by (simp add: s')
    qed (use patched_nth(2) [OF ty assms(2) len] in simp)
  qed (use patched_nth(1) [OF ty assms(2) len] len in simp)
  then have "\<not> any_change s' p" using any_change_iff [OF ty assms(2) len] by simp
  then have "write_and_check s' p m = Inl E05" by (simp add: write_and_check_def)
  then show ?thesis using adm by (auto simp: applyPatchOntoCurrent_def patch_admissible_def)
qed

end
