(* ===== verification/Seed.thy ===== *)
theory Seed
  imports Patch
begin

text \<open>
  \<open>packages/coretex/src/eval/seed-derivation.ts\<close>: domain-separated hashes of patches and the
  per-patch evaluation seeds. A string is hashed as its UTF-8 bytes; every string hashed here
  is ASCII, so these are its character codes.
\<close>

section \<open>Implementation\<close>

definition utf8 :: "string \<Rightarrow> bytes" where
  "utf8 s = map of_char s"

definition EVAL_SEED_GATE_DOMAIN_PREFIX :: string where
  "EVAL_SEED_GATE_DOMAIN_PREFIX = ''coretex-eval-v1-gate''"

definition EVAL_SEED_CONFIRM_DOMAIN_PREFIX :: string where
  "EVAL_SEED_CONFIRM_DOMAIN_PREFIX = ''coretex-eval-v1-confirm''"

definition DEDUP_KEY_DOMAIN_PREFIX :: string where
  "DEDUP_KEY_DOMAIN_PREFIX = ''coretex-dedup-key-v1''"

definition PATCH_HASH_DOMAIN_PREFIX :: string where
  "PATCH_HASH_DOMAIN_PREFIX = ''coretex-patch-hash-v1''"

record EvalSeedInput =
  epochSecret :: string
  blockhash :: string
  epochId :: bigint
  patchHash :: string
  parentRoot :: string
  corpusRoot :: string
  bundleHash :: string

definition concatU8 :: "bytes list \<Rightarrow> bytes" where
  "concatU8 parts = concat parts"

definition u64BE :: "bigint \<Rightarrow> bytes" where
  "u64BE v = write_be_loop 8 (replicate 8 0) 0 v"

text \<open>This module's own \<open>hexToBytes\<close> rejects what is not hex.\<close>

definition strip_0x :: "string \<Rightarrow> string" where
  "strip_0x hex = (if take 2 hex = ''0x'' \<or> take 2 hex = ''0X'' then drop 2 hex else hex)"

definition hexToBytes_strict :: "string \<Rightarrow> bytes js" where
  "hexToBytes_strict hex =
     (let clean = strip_0x hex in
      if length clean mod 2 \<noteq> 0 then Inl (JsError ''hexToBytes: odd length'')
      else js_map (\<lambda>i. case parseInt16 (take 2 (drop (i * 2) clean)) of
          None \<Rightarrow> Inl (JsError ''hexToBytes: invalid hex'')
        | Some v \<Rightarrow> Inr (word_of_int v)) [0..<length clean div 2])"

definition assertBytes32Hex :: "string \<Rightarrow> unit js" where
  "assertBytes32Hex value =
     (let clean = strip_0x value in
      if length clean \<noteq> 64 then Inl (JsError ''must be 32 bytes hex'')
      else if \<not> list_all (\<lambda>c. hex_value c \<noteq> None) clean then Inl (JsError ''non-hex characters'')
      else Inr ())"

text \<open>\<open>/^0x?0{64}$/i\<close>: a zero, an optional \<open>x\<close> of either case, then 64 zeros.\<close>

definition zero_blockhash :: "string \<Rightarrow> bool" where
  "zero_blockhash h = (h \<in> {''0'' @ replicate 64 (CHR ''0''), ''0x'' @ replicate 64 (CHR ''0''), ''0X'' @ replicate 64 (CHR ''0'')})"

definition deriveEvalSeedWithPrefix :: "string \<Rightarrow> EvalSeedInput \<Rightarrow> string js" where
  "deriveEvalSeedWithPrefix prefix input =
     js_bind (assertBytes32Hex (epochSecret input)) (\<lambda>_.
     js_bind (assertBytes32Hex (blockhash input)) (\<lambda>_.
     js_bind (assertBytes32Hex (patchHash input)) (\<lambda>_.
     js_bind (assertBytes32Hex (parentRoot input)) (\<lambda>_.
     js_bind (assertBytes32Hex (corpusRoot input)) (\<lambda>_.
     js_bind (assertBytes32Hex (bundleHash input)) (\<lambda>_.
     if zero_blockhash (blockhash input) then Inl (JsError ''deriveEvalSeed: blockhash is zero'')
     else js_bind (hexToBytes_strict (epochSecret input)) (\<lambda>secret.
     js_bind (hexToBytes_strict (blockhash input)) (\<lambda>bh.
     js_bind (hexToBytes_strict (patchHash input)) (\<lambda>ph.
     js_bind (hexToBytes_strict (parentRoot input)) (\<lambda>pr.
     js_bind (hexToBytes_strict (corpusRoot input)) (\<lambda>cr.
     js_bind (hexToBytes_strict (bundleHash input)) (\<lambda>bu.
     Inr (bytesToHex (keccak256 (concatU8 [utf8 prefix, secret, bh, u64BE (epochId input), ph, pr, cr, bu])))))))))))))))"

definition deriveGateEvalSeed :: "EvalSeedInput \<Rightarrow> string js" where
  "deriveGateEvalSeed input = deriveEvalSeedWithPrefix EVAL_SEED_GATE_DOMAIN_PREFIX input"

definition deriveConfirmEvalSeed :: "EvalSeedInput \<Rightarrow> string js" where
  "deriveConfirmEvalSeed input = deriveEvalSeedWithPrefix EVAL_SEED_CONFIRM_DOMAIN_PREFIX input"

definition computePatchHash :: "bytes \<Rightarrow> string" where
  "computePatchHash normalizedPatchBytes =
     bytesToHex (keccak256 (concatU8 [utf8 PATCH_HASH_DOMAIN_PREFIX, normalizedPatchBytes]))"

abbreviation (input) "SCORE_DELTA_WIRE_OFFSET \<equiv> (2 :: nat)"
abbreviation (input) "SCORE_DELTA_WIRE_BYTES \<equiv> (8 :: nat)"

text \<open>\<open>norm.fill(0, 2, 10)\<close>.\<close>

definition zero_score_delta :: "bytes \<Rightarrow> bytes" where
  "zero_score_delta bs = take SCORE_DELTA_WIRE_OFFSET bs @ replicate SCORE_DELTA_WIRE_BYTES 0
     @ drop (SCORE_DELTA_WIRE_OFFSET + SCORE_DELTA_WIRE_BYTES) bs"

definition semanticPatchHash :: "bytes \<Rightarrow> string js" where
  "semanticPatchHash compactPatchBytes =
     (if length compactPatchBytes < SCORE_DELTA_WIRE_OFFSET + SCORE_DELTA_WIRE_BYTES
      then Inl (JsError ''semanticPatchHash: compact patch shorter than the fixed header'')
      else Inr (computePatchHash (zero_score_delta compactPatchBytes)))"

definition computeDedupKey :: "string \<Rightarrow> bytes \<Rightarrow> string js" where
  "computeDedupKey parent normalizedPatchBytes =
     js_bind (assertBytes32Hex parent) (\<lambda>_.
     js_bind (hexToBytes_strict parent) (\<lambda>pr.
     Inr (bytesToHex (keccak256 (concatU8 [utf8 DEDUP_KEY_DOMAIN_PREFIX, pr, normalizedPatchBytes])))))"

section \<open>Semantic patch hashes\<close>

lemma length_entries: "length (patch_bytes p) \<ge> 10"
  by (simp add: patch_bytes_def)

lemma zero_score_delta_patch:
  "zero_score_delta (patch_bytes p) = patch_bytes (p\<lparr>scoreDelta := 0\<rparr>)"
proof -
  have z: "be_bytes 8 0 = replicate 8 0" by (simp add: be_bytes_map upt_rec numeral_eq_Suc)
  show ?thesis
    using z by (simp add: zero_score_delta_def patch_bytes_def numeral_2_eq_2)
qed

lemma wire_ok_score: "wire_ok p \<Longrightarrow> 0 \<le> d \<Longrightarrow> d < 2 ^ 63 \<Longrightarrow> wire_ok (p\<lparr>scoreDelta := d\<rparr>)"
  by (simp add: wire_ok_def)

lemma semanticPatchHash_patch:
  assumes "encodePatch p = Inr bs"
  shows "semanticPatchHash bs = Inr (computePatchHash (patch_bytes (p\<lparr>scoreDelta := 0\<rparr>)))"
proof -
  have "bs = patch_bytes p" using encodePatch_ok [OF encodePatch_Inr [OF assms]] assms by simp
  then show ?thesis using length_entries [of p] by (simp add: semanticPatchHash_def zero_score_delta_patch)
qed

text \<open>The strings that the semantic hash of a patch hashes.\<close>

definition semantic_preimage :: "Patch \<Rightarrow> bytes" where
  "semantic_preimage p = utf8 PATCH_HASH_DOMAIN_PREFIX @ patch_bytes (p\<lparr>scoreDelta := 0\<rparr>)"

lemma patch_bytes_inj:
  assumes "wire_ok p" "wire_ok q" "list_all u256 (newWords p)" "list_all u256 (newWords q)" "patch_bytes p = patch_bytes q"
  shows "p = q"
proof -
  have "Inr p = decodePatch (patch_bytes p)" using decodePatch_patch_bytes [OF assms(1,3)] by (rule sym)
  also have "\<dots> = Inr q" unfolding assms(5) by (rule decodePatch_patch_bytes [OF assms(2,4)])
  finally show ?thesis by (rule sum.inject(2) [THEN iffD1])
qed

text \<open>One semantic patch has one hash: the semantic hash of an encoded patch does not depend on the
  miner-chosen \<open>scoreDelta\<close>, and two patches with equal semantic hashes agree in everything else, or
  their two hashed strings are a Keccak-256 collision.\<close>

lemma semanticPatchHash_semantic:
  assumes "encodePatch p = Inr a" "encodePatch q = Inr b" "list_all u256 (newWords p)" "list_all u256 (newWords q)"
  shows "(p\<lparr>scoreDelta := 0\<rparr> = q\<lparr>scoreDelta := 0\<rparr> \<longrightarrow> semanticPatchHash a = semanticPatchHash b) \<and>
    (semanticPatchHash a = semanticPatchHash b \<longrightarrow>
      p\<lparr>scoreDelta := 0\<rparr> = q\<lparr>scoreDelta := 0\<rparr> \<or> collision_between [semantic_preimage p] [semantic_preimage q])"
proof -
  note h = semanticPatchHash_patch [OF assms(1)] semanticPatchHash_patch [OF assms(2)]
  have ok: "wire_ok (p\<lparr>scoreDelta := 0\<rparr>)" "wire_ok (q\<lparr>scoreDelta := 0\<rparr>)"
    using assms(1,2) encodePatch_Inr wire_ok_score by auto
  have "p\<lparr>scoreDelta := 0\<rparr> = q\<lparr>scoreDelta := 0\<rparr> \<or> collision_between [semantic_preimage p] [semantic_preimage q]"
    if eq: "semanticPatchHash a = semanticPatchHash b"
  proof (rule disjCI)
    assume "\<not> collision_between [semantic_preimage p] [semantic_preimage q]"
    moreover have "keccak256 (semantic_preimage p) = keccak256 (semantic_preimage q)"
      using eq by (simp add: h computePatchHash_def bytesToHex_inj concatU8_def semantic_preimage_def)
    ultimately have "semantic_preimage p = semantic_preimage q" by (auto simp: collision_between_def)
    then show "p\<lparr>scoreDelta := 0\<rparr> = q\<lparr>scoreDelta := 0\<rparr>"
      using ok assms(3,4) by (intro patch_bytes_inj) (simp_all add: semantic_preimage_def)
  qed
  then show ?thesis by (simp add: h)
qed

section \<open>Evaluation seeds\<close>

lemma assertBytes32Hex_Inr:
  "assertBytes32Hex s = Inr u \<longleftrightarrow> length (strip_0x s) = 64 \<and> list_all (\<lambda>c. hex_value c \<noteq> None) (strip_0x s)"
  by (auto simp: assertBytes32Hex_def Let_def)

text \<open>A hex digit is neither white space, a sign nor the \<open>x\<close> of a prefix, so two of them always parse.\<close>

lemma hex_value_char:
  assumes "hex_value c = Some v"
  shows "\<not> js_space c" "c \<noteq> CHR ''-''" "c \<noteq> CHR ''+''" "c \<noteq> CHR ''x''" "c \<noteq> CHR ''X''"
  using assms by (auto simp: hex_value_def js_space_def Let_def split: if_splits)

lemma parseInt16_hex_pair:
  assumes "hex_value a = Some v" "hex_value b = Some w"
  shows "parseInt16 [a, b] = Some (int (v * 16 + w))"
  using hex_value_char [OF assms(1)] hex_value_char [OF assms(2)] assms
  by (simp add: parseInt16_def)

lemma take2_drop: "Suc k < length s \<Longrightarrow> take 2 (drop k s) = [s ! k, s ! Suc k]"
  by (simp add: numeral_2_eq_2 take_Suc_conv_app_nth)

lemma js_map_total: "(\<And>x. x \<in> set xs \<Longrightarrow> \<exists>y. f x = Inr y) \<Longrightarrow> \<exists>ys. js_map f xs = Inr ys \<and> length ys = length xs"
  by (induction xs) fastforce+

lemma hexToBytes_strict_ok:
  assumes "assertBytes32Hex s = Inr u"
  shows "\<exists>bs. hexToBytes_strict s = Inr bs \<and> length bs = 32"
proof -
  let ?c = "strip_0x s"
  have len: "length ?c = 64" and hex: "\<And>c. c \<in> set ?c \<Longrightarrow> \<exists>v. hex_value c = Some v"
    using assms by (auto simp: assertBytes32Hex_Inr list_all_iff)
  have parse: "\<exists>v. parseInt16 (take 2 (drop (i * 2) ?c)) = Some v" if i: "i < 32" for i
    using hex [OF nth_mem, of "i * 2"] hex [OF nth_mem, of "Suc (i * 2)"] i len
    by (auto simp: take2_drop parseInt16_hex_pair)
  show ?thesis
    using js_map_total [of "[0..<length ?c div 2]" "\<lambda>i. case parseInt16 (take 2 (drop (i * 2) ?c)) of
        None \<Rightarrow> Inl (JsError ''hexToBytes: invalid hex'') | Some v \<Rightarrow> Inr (word_of_int v)"] parse len
    by (fastforce simp: hexToBytes_strict_def Let_def simp del: upt_rec_numeral)
qed

definition hex_bytes :: "string \<Rightarrow> bytes" where
  "hex_bytes s = (case hexToBytes_strict s of Inr bs \<Rightarrow> bs | Inl _ \<Rightarrow> [])"

definition seed_fields :: "EvalSeedInput \<Rightarrow> string list" where
  "seed_fields i = [epochSecret i, blockhash i, patchHash i, parentRoot i, corpusRoot i, bundleHash i]"

definition seed_preimage :: "string \<Rightarrow> EvalSeedInput \<Rightarrow> bytes" where
  "seed_preimage prefix i = utf8 prefix @ hex_bytes (epochSecret i) @ hex_bytes (blockhash i) @ u64BE (epochId i)
     @ hex_bytes (patchHash i) @ hex_bytes (parentRoot i) @ hex_bytes (corpusRoot i) @ hex_bytes (bundleHash i)"

lemma u64BE_eq: "u64BE v = be_bytes 8 v"
  using write_be_loop_eq [of 0 8 "replicate 8 0" v] by (simp add: u64BE_def)

lemma u64BE_inj: "u64BE a = u64BE b \<longleftrightarrow> a mod 2 ^ 64 = b mod 2 ^ 64"
proof -
  have "be_val (be_bytes 8 v) = v mod 2 ^ 64" for v by (simp only: be_val_be_bytes) simp
  then show ?thesis unfolding u64BE_eq
    by (metis be_bytes_be_val length_be_bytes)
qed

lemma hex_bytes_ok: "assertBytes32Hex s = Inr u \<Longrightarrow> hexToBytes_strict s = Inr (hex_bytes s)"
  "assertBytes32Hex s = Inr u \<Longrightarrow> length (hex_bytes s) = 32"
  using hexToBytes_strict_ok [of s u] by (auto simp: hex_bytes_def)

lemma deriveEvalSeedWithPrefix_Inr:
  "deriveEvalSeedWithPrefix prefix i = Inr seed \<longleftrightarrow>
     (\<forall>s \<in> set (seed_fields i). assertBytes32Hex s = Inr ()) \<and> \<not> zero_blockhash (blockhash i) \<and>
     seed = bytesToHex (keccak256 (seed_preimage prefix i))"
  unfolding deriveEvalSeedWithPrefix_def seed_fields_def
  by (auto simp: js_bind_eq_Inr_iff hex_bytes_ok concatU8_def seed_preimage_def)

definition seed_prefix :: "string \<Rightarrow> bool" where
  "seed_prefix p \<longleftrightarrow> p = EVAL_SEED_GATE_DOMAIN_PREFIX \<or> p = EVAL_SEED_CONFIRM_DOMAIN_PREFIX"

lemma seed_preimage_inj:
  assumes "\<forall>s \<in> set (seed_fields i). assertBytes32Hex s = Inr ()" "\<forall>s \<in> set (seed_fields j). assertBytes32Hex s = Inr ()"
    "seed_prefix p" "seed_prefix q" "seed_preimage p i = seed_preimage q j"
  shows "p = q \<and> map hex_bytes (seed_fields i) = map hex_bytes (seed_fields j) \<and> epochId i mod 2 ^ 64 = epochId j mod 2 ^ 64"
proof -
  have len: "\<And>s. s \<in> set (seed_fields i) \<union> set (seed_fields j) \<Longrightarrow> length (hex_bytes s) = 32"
    using assms(1,2) hex_bytes_ok(2) by blast
  have l8: "length (u64BE v) = 8" for v by (simp add: u64BE_eq)
  have "length (seed_preimage p i) = length (seed_preimage q j)" using assms(5) by simp
  then have "length p = length q"
    using len by (simp add: seed_preimage_def seed_fields_def utf8_def l8)
  then have "p = q"
    using assms(3,4) unfolding seed_prefix_def EVAL_SEED_GATE_DOMAIN_PREFIX_def EVAL_SEED_CONFIRM_DOMAIN_PREFIX_def
    by (elim disjE) simp_all
  then show ?thesis
    using assms(5) len by (simp add: seed_preimage_def seed_fields_def l8 u64BE_inj)
qed

lemma seed_binding_aux:
  assumes "deriveEvalSeedWithPrefix p i = Inr s" "deriveEvalSeedWithPrefix q j = Inr s" "seed_prefix p" "seed_prefix q"
  shows "p = q \<and> map hex_bytes (seed_fields i) = map hex_bytes (seed_fields j) \<and> epochId i mod 2 ^ 64 = epochId j mod 2 ^ 64
    \<or> collision_between [seed_preimage p i] [seed_preimage q j]"
  using assms seed_preimage_inj [of i j p q]
  by (auto simp: deriveEvalSeedWithPrefix_Inr bytesToHex_inj collision_between_def)

lemma prefixes_distinct: "EVAL_SEED_GATE_DOMAIN_PREFIX \<noteq> EVAL_SEED_CONFIRM_DOMAIN_PREFIX"
  by (simp add: EVAL_SEED_GATE_DOMAIN_PREFIX_def EVAL_SEED_CONFIRM_DOMAIN_PREFIX_def)

definition demo_seed :: EvalSeedInput where
  "demo_seed = \<lparr>epochSecret = ''0x'' @ replicate 64 (CHR ''a''), blockhash = ''0x'' @ replicate 64 (CHR ''7''), epochId = 12,
     patchHash = replicate 64 (CHR ''B''), parentRoot = replicate 64 (CHR ''3''), corpusRoot = replicate 64 (CHR ''4''),
     bundleHash = replicate 64 (CHR ''5'')\<rparr>"

lemma assertBytes32Hex_replicate: "hex_value c = Some v \<Longrightarrow> c \<noteq> CHR ''0'' \<Longrightarrow> assertBytes32Hex (replicate 64 c) = Inr ()"
  "hex_value c = Some v \<Longrightarrow> assertBytes32Hex (''0x'' @ replicate 64 c) = Inr ()"
  by (auto simp: assertBytes32Hex_def strip_0x_def list_all_iff numeral_2_eq_2 numeral_eq_Suc Let_def)

text \<open>C25. Evaluation seeds bind their inputs. The gate and the confirm seed of one input both exist or both
  fail; they differ; and inputs with one gate seed agree in the bytes of all six hash fields and in the
  low 64 bits of the epoch id: unless the named strings are a Keccak-256 collision.\<close>

theorem eval_seed_binding:
  assumes "deriveGateEvalSeed i = Inr g"
  shows "(\<exists>c. deriveConfirmEvalSeed i = Inr c \<and>
      (c \<noteq> g \<or> collision_between [seed_preimage EVAL_SEED_GATE_DOMAIN_PREFIX i] [seed_preimage EVAL_SEED_CONFIRM_DOMAIN_PREFIX i])) \<and>
    (deriveGateEvalSeed j = Inr g \<longrightarrow>
      map hex_bytes (seed_fields i) = map hex_bytes (seed_fields j) \<and> epochId i mod 2 ^ 64 = epochId j mod 2 ^ 64 \<or>
      collision_between [seed_preimage EVAL_SEED_GATE_DOMAIN_PREFIX i] [seed_preimage EVAL_SEED_GATE_DOMAIN_PREFIX j])"
proof -
  let ?G = EVAL_SEED_GATE_DOMAIN_PREFIX and ?C = EVAL_SEED_CONFIRM_DOMAIN_PREFIX
  have pre: "seed_prefix ?G" "seed_prefix ?C" by (simp_all add: seed_prefix_def)
  have gate: "deriveEvalSeedWithPrefix ?G i = Inr g" using assms by (simp add: deriveGateEvalSeed_def)
  then obtain c where c: "deriveEvalSeedWithPrefix ?C i = Inr c" by (simp add: deriveEvalSeedWithPrefix_Inr)
  have "c \<noteq> g \<or> collision_between [seed_preimage ?G i] [seed_preimage ?C i]"
    using seed_binding_aux [OF gate _ pre, of i] c prefixes_distinct by auto
  moreover have "map hex_bytes (seed_fields i) = map hex_bytes (seed_fields j) \<and> epochId i mod 2 ^ 64 = epochId j mod 2 ^ 64 \<or>
      collision_between [seed_preimage ?G i] [seed_preimage ?G j]" if "deriveEvalSeedWithPrefix ?G j = Inr g"
    using seed_binding_aux [OF gate that pre(1) pre(1)] by simp
  ultimately show ?thesis using c by (simp add: deriveGateEvalSeed_def deriveConfirmEvalSeed_def)
qed

lemma demo_seed_ok: "\<exists>g. deriveGateEvalSeed demo_seed = Inr g"
proof -
  have "\<forall>s \<in> set (seed_fields demo_seed). assertBytes32Hex s = Inr ()"
    unfolding seed_fields_def demo_seed_def
    by (simp add: assertBytes32Hex_replicate hex_value_def del: append_Cons append_Nil replicate_Suc)
  moreover have "\<not> zero_blockhash (blockhash demo_seed)"
    by (simp add: demo_seed_def zero_blockhash_def numeral_eq_Suc)
  ultimately show ?thesis by (simp add: deriveGateEvalSeed_def deriveEvalSeedWithPrefix_Inr)
qed

theorem eval_seed_binding_witness:
  "\<exists>c. deriveConfirmEvalSeed demo_seed = Inr c"
  using demo_seed_ok eval_seed_binding [of demo_seed _ demo_seed] by blast

text \<open>The guard against an unobserved block has a gap. A zero block hash is refused when it is written
  with its \<open>0x\<close>, but the same 32 zero bytes without the prefix pass every check and give a seed
  that depends on no block.\<close>

lemma zero_blockhash_guard_gap:
  assumes "deriveGateEvalSeed i = Inr g"
  shows "deriveGateEvalSeed (i\<lparr>blockhash := ''0x'' @ replicate 64 (CHR ''0'')\<rparr>) = Inl (JsError ''deriveEvalSeed: blockhash is zero'') \<and>
    (\<exists>s. deriveGateEvalSeed (i\<lparr>blockhash := replicate 64 (CHR ''0'')\<rparr>) = Inr s)"
proof -
  have zero: "assertBytes32Hex (''0x'' @ replicate 64 (CHR ''0'')) = Inr ()" "assertBytes32Hex (replicate 64 (CHR ''0'')) = Inr ()"
    by (simp_all add: assertBytes32Hex_def strip_0x_def list_all_iff numeral_2_eq_2 numeral_eq_Suc Let_def hex_value_def)
  have "\<forall>s \<in> set (seed_fields i). assertBytes32Hex s = Inr ()"
    using assms by (simp add: deriveGateEvalSeed_def deriveEvalSeedWithPrefix_Inr)
  then have ok: "assertBytes32Hex (epochSecret i) = Inr ()" "assertBytes32Hex (patchHash i) = Inr ()" "assertBytes32Hex (parentRoot i) = Inr ()"
    "assertBytes32Hex (corpusRoot i) = Inr ()" "assertBytes32Hex (bundleHash i) = Inr ()"
    by (simp_all add: seed_fields_def)
  have "zero_blockhash (''0x'' @ replicate 64 (CHR ''0''))" by (simp add: zero_blockhash_def)
  moreover have "\<not> zero_blockhash (replicate 64 (CHR ''0''))"
    by (auto simp: zero_blockhash_def dest: arg_cong [where f = length])
  ultimately show ?thesis
    using ok zero unfolding deriveGateEvalSeed_def
    by (simp add: deriveEvalSeedWithPrefix_Inr seed_fields_def)
       (simp add: deriveEvalSeedWithPrefix_def)
qed

end
