(* ===== verification/JsSort.thy ===== *)
theory JsSort
  imports Prelude "HOL-Library.Multiset"
begin

text \<open>
  \<open>Array.prototype.sort\<close> with a comparison function, as the engine implements it: a stable sort that
  only asks whether a comparison is negative. The locale \<open>js_comparator\<close> states what a comparator has to
  promise; every order of the program is interpreted in it and gets sortedness, conservation of the
  elements, stability and independence of the input order from here.
\<close>

fun js_insort :: "('a \<Rightarrow> 'a \<Rightarrow> int) \<Rightarrow> 'a \<Rightarrow> 'a list \<Rightarrow> 'a list" where
  "js_insort cmp x [] = [x]"
| "js_insort cmp x (y # ys) = (if cmp x y < 0 then x # y # ys else y # js_insort cmp x ys)"

definition js_sort :: "('a \<Rightarrow> 'a \<Rightarrow> int) \<Rightarrow> 'a list \<Rightarrow> 'a list" where
  "js_sort cmp xs = foldl (\<lambda>out x. js_insort cmp x out) [] xs"

text \<open>\<open>a < b\<close> on strings: code unit by code unit, a proper prefix first.\<close>

fun js_string_less :: "string \<Rightarrow> string \<Rightarrow> bool" where
  "js_string_less [] [] = False"
| "js_string_less [] (_ # _) = True"
| "js_string_less (_ # _) [] = False"
| "js_string_less (a # as) (b # bs) =
     (if (of_char a :: nat) < of_char b then True
      else if (of_char b :: nat) < of_char a then False
      else js_string_less as bs)"

section \<open>Conservation\<close>

lemma mset_js_insort [simp]: "mset (js_insort cmp x ys) = add_mset x (mset ys)"
  by (induction ys) auto

lemma mset_foldl_insort: "mset (foldl (\<lambda>out x. js_insort cmp x out) out xs) = mset out + mset xs"
  by (induction xs arbitrary: out) auto

lemma mset_js_sort [simp]: "mset (js_sort cmp xs) = mset xs"
  by (simp add: js_sort_def mset_foldl_insort)

lemma set_js_sort [simp]: "set (js_sort cmp xs) = set xs"
  by (rule mset_eq_setD) simp

lemma length_js_sort [simp, len_simps]: "length (js_sort cmp xs) = length xs"
  by (metis mset_js_sort size_mset)

lemma js_sort_snoc: "js_sort cmp (xs @ [x]) = js_insort cmp x (js_sort cmp xs)"
  by (simp add: js_sort_def)

lemma js_sort_Nil [simp]: "js_sort cmp [] = []"
  by (simp add: js_sort_def)

lemma js_insort_map:
  assumes "\<And>a b. P a \<Longrightarrow> P b \<Longrightarrow> cmp' (f a) (f b) < 0 \<longleftrightarrow> cmp a b < 0"
  shows "P x \<Longrightarrow> list_all P ys \<Longrightarrow> js_insort cmp' (f x) (map f ys) = map f (js_insort cmp x ys)"
  by (induction ys) (auto simp: assms)

lemma js_sort_map:
  assumes "\<And>a b. P a \<Longrightarrow> P b \<Longrightarrow> cmp' (f a) (f b) < 0 \<longleftrightarrow> cmp a b < 0"
  shows "list_all P xs \<Longrightarrow> js_sort cmp' (map f xs) = map f (js_sort cmp xs)"
proof (induction xs rule: rev_induct)
  case (snoc x xs)
  then show ?case by (simp add: js_sort_snoc js_insort_map [where P = P and f = f and cmp' = cmp' and cmp = cmp] assms list_all_iff)
qed simp

text \<open>A comparator whose sign follows a key sorts by that key.\<close>

lemma js_insort_keyed:
  fixes key :: "'a \<Rightarrow> 'b :: linorder"
  assumes "\<And>a b. cmp a b < 0 \<Longrightarrow> key a \<le> key b" "\<And>a b. \<not> cmp a b < 0 \<Longrightarrow> key b \<le> key a"
  shows "sorted_wrt (\<lambda>a b. key a \<le> key b) ys \<Longrightarrow> sorted_wrt (\<lambda>a b. key a \<le> key b) (js_insort cmp x ys)"
proof (induction ys)
  case (Cons y ys)
  have "set (js_insort cmp x ys) = insert x (set ys)" by (metis mset_js_insort set_mset_add_mset_insert set_mset_mset)
  then show ?case using Cons assms(1) [of x y] assms(2) [of x y] order_trans by auto
qed simp

lemma js_sort_keyed:
  fixes key :: "'a \<Rightarrow> 'b :: linorder"
  assumes "\<And>a b. cmp a b < 0 \<Longrightarrow> key a \<le> key b" "\<And>a b. \<not> cmp a b < 0 \<Longrightarrow> key b \<le> key a"
  shows "sorted_wrt (\<lambda>a b. key a \<le> key b) (js_sort cmp xs)"
  by (induction xs rule: rev_induct) (simp_all add: js_sort_snoc js_insort_keyed [of cmp key] assms)


section \<open>Comparators\<close>

locale js_comparator =
  fixes cmp :: "'a \<Rightarrow> 'a \<Rightarrow> int"
  assumes asym: "cmp x y < 0 \<Longrightarrow> \<not> cmp y x < 0"
    and neg_trans: "\<not> cmp y x < 0 \<Longrightarrow> \<not> cmp z y < 0 \<Longrightarrow> \<not> cmp z x < 0"
begin

definition le :: "'a \<Rightarrow> 'a \<Rightarrow> bool" where
  "le x y \<longleftrightarrow> \<not> cmp y x < 0"

lemma le_total: "le x y \<or> le y x"
  using asym le_def by blast

lemma le_trans: "le x y \<Longrightarrow> le y z \<Longrightarrow> le x z"
  using neg_trans le_def by blast

lemma sorted_js_insort: "sorted_wrt le ys \<Longrightarrow> sorted_wrt le (js_insort cmp x ys)"
proof (induction ys)
  case (Cons y ys)
  have set: "set (js_insort cmp x ys) = insert x (set ys)" by (metis mset_js_insort set_mset_add_mset_insert set_mset_mset)
  show ?case
  proof (cases "cmp x y < 0")
    case True
    then have "le x y" using asym le_def by blast
    then show ?thesis using True Cons.prems le_trans by auto
  next
    case False
    then have "le y x" by (simp add: le_def)
    then show ?thesis using False Cons set by auto
  qed
qed simp

lemma sorted_js_sort: "sorted_wrt le (js_sort cmp xs)"
  by (induction xs rule: rev_induct) (simp_all add: js_sort_snoc sorted_js_insort)

lemma filter_js_insort:
  "sorted_wrt le ys \<Longrightarrow> filter (\<lambda>y. le y k \<and> le k y) (js_insort cmp x ys) = filter (\<lambda>y. le y k \<and> le k y) (ys @ [x])"
proof (induction ys)
  case (Cons y ys)
  have "\<not> (le z k \<and> le k z)" if "cmp x y < 0" "le x k \<and> le k x" "z \<in> set (y # ys)" for z
  proof -
    have "le y z" using that(3) Cons.prems le_total [of y y] by auto
    moreover have "\<not> le y x" using that(1) by (simp add: le_def)
    ultimately show ?thesis using that(2) le_trans by blast
  qed
  then have none: "filter (\<lambda>y. le y k \<and> le k y) (y # ys) = []" if "cmp x y < 0" "le x k \<and> le k x"
    using that by (intro filter_False) blast
  have IH: "filter (\<lambda>y. le y k \<and> le k y) (js_insort cmp x ys) = filter (\<lambda>y. le y k \<and> le k y) (ys @ [x])"
    using Cons by simp
  show ?case
  proof (cases "cmp x y < 0")
    case True
    then show ?thesis using none [OF True] by (cases "le x k \<and> le k x") auto
  qed (use IH in simp)
qed simp

lemma js_sort_stable: "filter (\<lambda>y. le y k \<and> le k y) (js_sort cmp xs) = filter (\<lambda>y. le y k \<and> le k y) xs"
  by (induction xs rule: rev_induct) (simp_all add: js_sort_snoc filter_js_insort sorted_js_sort)

lemma sorted_unique:
  assumes "sorted_wrt le xs" "sorted_wrt le ys" "mset xs = mset ys"
    "\<And>x y. x \<in> set xs \<Longrightarrow> y \<in> set xs \<Longrightarrow> le x y \<Longrightarrow> le y x \<Longrightarrow> x = y"
  shows "xs = ys"
  using assms
proof (induction xs arbitrary: ys)
  case (Cons x xs)
  then obtain y zs where ys: "ys = y # zs" by (cases ys) auto
  have sets: "set ys = set (x # xs)" using Cons.prems(3) by (metis mset_eq_setD)
  have "x = y"
  proof (rule ccontr)
    assume ne: "x \<noteq> y"
    then have "y \<in> set xs" "x \<in> set zs" using sets ys by auto
    then have "le x y" "le y x" using Cons.prems(1,2) ys by auto
    then show False using ne Cons.prems(4) sets ys by auto
  qed
  moreover from this have "xs = zs" using Cons.prems ys by (intro Cons.IH) auto
  ultimately show ?case by (simp add: ys)
qed simp

text \<open>When the comparator separates the elements, the result does not depend on the input order.\<close>

lemma js_sort_perm:
  assumes "mset xs = mset ys" "\<And>x y. x \<in> set xs \<Longrightarrow> y \<in> set xs \<Longrightarrow> le x y \<Longrightarrow> le y x \<Longrightarrow> x = y"
  shows "js_sort cmp xs = js_sort cmp ys"
  using assms by (intro sorted_unique sorted_js_sort) simp_all

lemma js_sort_sorted: "sorted_wrt le xs \<Longrightarrow> js_sort cmp xs = xs"
proof (induction xs rule: rev_induct)
  case (snoc x xs)
  have "js_insort cmp x ys = ys @ [x]" if "\<forall>y \<in> set ys. le y x" for ys
    using that by (induction ys) (auto simp: le_def)
  then show ?case using snoc by (simp add: js_sort_snoc sorted_wrt_append)
qed simp

lemma js_sort_idem: "js_sort cmp (js_sort cmp xs) = js_sort cmp xs"
  by (simp add: js_sort_sorted sorted_js_sort)

end

section \<open>Strings\<close>

lemma js_string_less_irrefl [simp]: "\<not> js_string_less a a"
  by (induction a) auto

lemma js_string_less_trans: "js_string_less a b \<Longrightarrow> js_string_less b c \<Longrightarrow> js_string_less a c"
proof (induction a b arbitrary: c rule: js_string_less.induct)
  case (4 a as b bs)
  then show ?case by (cases c) (auto split: if_splits)
qed (metis js_string_less.simps neq_Nil_conv)+

lemma js_string_less_total: "a \<noteq> b \<Longrightarrow> js_string_less a b \<or> js_string_less b a"
  by (induction a b rule: js_string_less.induct) (auto simp: not_less_iff_gr_or_eq)

lemma js_string_less_asym: "js_string_less a b \<Longrightarrow> \<not> js_string_less b a"
  using js_string_less_trans js_string_less_irrefl by blast

lemma js_string_less_neg_trans: "\<not> js_string_less b a \<Longrightarrow> \<not> js_string_less c b \<Longrightarrow> \<not> js_string_less c a"
  using js_string_less_total js_string_less_trans by metis

end
