(* ===== verification/Reducer.thy ===== *)
theory Reducer
  imports Seed JsSort
begin

text \<open>
  The epoch reducer: \<open>packages/coretex/src/reducer/accept-core.ts\<close> and \<open>reducer.ts\<close>. The marginal
  evaluator is a caller-supplied pure function, so it is a field of the input as in the source.

  The locale \<open>patch_store\<close> is the interface between the reducers and patch application: what applying a
  patch promises about the words of the state. It is interpreted on \<open>applyPatchOntoCurrent\<close>.
\<close>

section \<open>Implementation\<close>

type_synonym MarginalEvaluator = "CortexState \<Rightarrow> Patch \<Rightarrow> bigint"

record 'c AcceptStepCodes =
  notImprovement :: 'c
  wrongParent :: 'c
  reservedBit :: 'c
  invalidTarget :: 'c

definition evaluateAndApplyOntoCurrent ::
  "CortexState \<Rightarrow> Patch \<Rightarrow> MarginalEvaluator \<Rightarrow> bigint \<Rightarrow> bool \<Rightarrow> bool \<Rightarrow> 'c AcceptStepCodes \<Rightarrow> 'c + CortexState \<times> bigint" where
  "evaluateAndApplyOntoCurrent current patch marginalEvaluator threshold strictImprovement policyMode codes =
     (let marginalGain = marginalEvaluator current patch;
          improves = (if strictImprovement then marginalGain > threshold else marginalGain \<ge> threshold) in
      if \<not> improves then Inl (notImprovement codes)
      else case applyPatchOntoCurrent current patch policyMode of
          Inl code \<Rightarrow> Inl (if code = E01 then wrongParent codes else if code = E04 then reservedBit codes
            else if code = E05 then notImprovement codes else invalidTarget codes)
        | Inr state \<Rightarrow> Inr (state, marginalGain))"

datatype RejectionCode = R01_TARGET_OVERLAP | R02_SEMANTIC_CONFLICT | R03_WRONG_PARENT_ROOT | R04_INVALID_TARGET | R05_RESERVED_BIT_SET

record ReducerInputPatch =
  ri_patch :: Patch
  ri_patchBytes :: bytes
  ri_scoreDelta :: bigint
  ri_marginalEvaluator :: MarginalEvaluator

definition stubMarginalEvaluator :: MarginalEvaluator where
  "stubMarginalEvaluator currentState patch = scoreDelta patch"

record AcceptedPatch =
  ap_patch :: Patch
  ap_patchBytes :: bytes
  ap_marginalGain :: bigint
  ap_acceptanceIndex :: nat

record RejectedPatch =
  rj_patch :: Patch
  rj_patchBytes :: bytes
  rj_reason :: RejectionCode

record ReducerOutput =
  ro_newState :: CortexState
  ro_patchSetRoot :: bytes
  ro_patchSetRootHex :: string
  ro_newStateRoot :: bytes
  ro_newStateRootHex :: string
  ro_accepted :: "AcceptedPatch list"
  ro_rejected :: "RejectedPatch list"

definition comparePatchPriority :: "ReducerInputPatch \<Rightarrow> ReducerInputPatch \<Rightarrow> int" where
  "comparePatchPriority a b =
     (if ri_scoreDelta b \<noteq> ri_scoreDelta a then (if ri_scoreDelta b > ri_scoreDelta a then 1 else -1)
      else if wordCount (ri_patch a) \<noteq> wordCount (ri_patch b) then wordCount (ri_patch a) - wordCount (ri_patch b)
      else let aHash = computePatchHash (ri_patchBytes a); bHash = computePatchHash (ri_patchBytes b) in
        if js_string_less aHash bHash then -1 else if js_string_less bHash aHash then 1 else 0)"

definition stableSort :: "'a list \<Rightarrow> ('a \<Rightarrow> 'a \<Rightarrow> int) \<Rightarrow> 'a list" where
  "stableSort arr cmp = js_sort cmp arr"

definition computePatchSetRoot :: "AcceptedPatch list \<Rightarrow> bytes" where
  "computePatchSetRoot accepted =
     (if accepted = [] then keccak256 [] else keccak256 (concat (map (\<lambda>a. keccak256 (ap_patchBytes a)) accepted)))"

definition reject :: "ReducerInputPatch \<Rightarrow> RejectionCode \<Rightarrow> RejectedPatch" where
  "reject item reason = \<lparr>rj_patch = ri_patch item, rj_patchBytes = ri_patchBytes item, rj_reason = reason\<rparr>"

definition batch_codes :: "RejectionCode AcceptStepCodes" where
  "batch_codes = \<lparr>notImprovement = R02_SEMANTIC_CONFLICT, wrongParent = R03_WRONG_PARENT_ROOT,
     reservedBit = R05_RESERVED_BIT_SET, invalidTarget = R04_INVALID_TARGET\<rparr>"

text \<open>The greedy loop: the current state, the accepted patches, their targets and the rejections.\<close>

fun reduce_loop :: "bigint \<Rightarrow> bool \<Rightarrow> ReducerInputPatch list \<Rightarrow> CortexState \<Rightarrow> AcceptedPatch list \<Rightarrow> int list \<Rightarrow> RejectedPatch list
    \<Rightarrow> CortexState \<times> AcceptedPatch list \<times> RejectedPatch list" where
  "reduce_loop threshold policyMode [] current acceptedSet acceptedTargets rejectedSet = (current, acceptedSet, rejectedSet)"
| "reduce_loop threshold policyMode (item # rest) current acceptedSet acceptedTargets rejectedSet =
     (if list_ex (\<lambda>i. i \<in> set acceptedTargets) (indices (ri_patch item))
      then reduce_loop threshold policyMode rest current acceptedSet acceptedTargets (rejectedSet @ [reject item R01_TARGET_OVERLAP])
      else case evaluateAndApplyOntoCurrent current (ri_patch item) (ri_marginalEvaluator item) threshold False policyMode batch_codes of
          Inl reason \<Rightarrow>
            reduce_loop threshold policyMode rest current acceptedSet acceptedTargets (rejectedSet @ [reject item reason])
        | Inr (state, marginalGain) \<Rightarrow>
            reduce_loop threshold policyMode rest state
              (acceptedSet @ [\<lparr>ap_patch = ri_patch item, ap_patchBytes = ri_patchBytes item,
                 ap_marginalGain = marginalGain, ap_acceptanceIndex = length acceptedSet\<rparr>])
              (foldl js_set_add acceptedTargets (indices (ri_patch item))) rejectedSet)"

definition reduce :: "CortexState \<Rightarrow> ReducerInputPatch list \<Rightarrow> bigint \<Rightarrow> bool \<Rightarrow> ReducerOutput js" where
  "reduce parentState patches threshold policyMode =
     js_bind (merkleizeState parentState) (\<lambda>epochParentRoot.
     let eligible = filter (\<lambda>item. patchMatchesEpochParent (ri_patch item) epochParentRoot) patches;
         rejectedSet = map (\<lambda>item. reject item R03_WRONG_PARENT_ROOT)
           (filter (\<lambda>item. \<not> patchMatchesEpochParent (ri_patch item) epochParentRoot) patches);
         ordered = stableSort eligible comparePatchPriority;
         (current, acceptedSet, rejected) = reduce_loop threshold policyMode ordered parentState [] [] rejectedSet;
         patchSetRoot = computePatchSetRoot acceptedSet
     in js_bind (merkleizeState current) (\<lambda>newStateRoot.
        Inr \<lparr>ro_newState = current, ro_patchSetRoot = patchSetRoot, ro_patchSetRootHex = bytesToHex patchSetRoot,
          ro_newStateRoot = newStateRoot, ro_newStateRootHex = bytesToHex newStateRoot,
          ro_accepted = acceptedSet, ro_rejected = rejected\<rparr>))"

definition makeReducerInput :: "Patch \<Rightarrow> bytes option \<Rightarrow> ReducerInputPatch js" where
  "makeReducerInput patch patchBytes =
     js_bind (case patchBytes of Some bs \<Rightarrow> Inr bs | None \<Rightarrow> encodePatch patch) (\<lambda>bs.
     Inr \<lparr>ri_patch = patch, ri_patchBytes = bs, ri_scoreDelta = scoreDelta patch, ri_marginalEvaluator = stubMarginalEvaluator\<rparr>)"

section \<open>What applying patches promises\<close>

text \<open>Applying a list of patches, each of which must succeed.\<close>

fun apply_all :: "('s \<Rightarrow> 'p \<Rightarrow> 'e + 's) \<Rightarrow> 's \<Rightarrow> 'p list \<Rightarrow> 'e + 's" where
  "apply_all f s [] = Inr s"
| "apply_all f s (p # ps) = (case f s p of Inl e \<Rightarrow> Inl e | Inr t \<Rightarrow> apply_all f t ps)"

lemma apply_all_snoc: "apply_all f s ps = Inr t \<Longrightarrow> apply_all f s (ps @ [p]) = f t p"
  by (induction ps arbitrary: s) (auto split: sum.splits)

locale patch_store =
  fixes apply_p :: "'s \<Rightarrow> 'p \<Rightarrow> 'e + 's"
    and targets :: "'p \<Rightarrow> int set"
    and new_word :: "'p \<Rightarrow> int \<Rightarrow> bigint"
    and read :: "'s \<Rightarrow> int \<Rightarrow> bigint"
    and inv :: "'s \<Rightarrow> bool"
    and ok :: "'p \<Rightarrow> bool"
  assumes keeps_inv: "inv s \<Longrightarrow> ok p \<Longrightarrow> apply_p s p = Inr s' \<Longrightarrow> inv s'"
    and written: "inv s \<Longrightarrow> ok p \<Longrightarrow> apply_p s p = Inr s' \<Longrightarrow> i \<in> targets p \<Longrightarrow> read s' i = new_word p i"
    and frame: "inv s \<Longrightarrow> ok p \<Longrightarrow> apply_p s p = Inr s' \<Longrightarrow> i \<notin> targets p \<Longrightarrow> read s' i = read s i"
begin

lemma all_inv: "apply_all apply_p s ps = Inr t \<Longrightarrow> inv s \<Longrightarrow> list_all ok ps \<Longrightarrow> inv t"
  by (induction ps arbitrary: s) (auto split: sum.splits intro: keeps_inv)

lemma all_frame:
  "apply_all apply_p s ps = Inr t \<Longrightarrow> inv s \<Longrightarrow> list_all ok ps \<Longrightarrow> \<forall>p \<in> set ps. i \<notin> targets p \<Longrightarrow> read t i = read s i"
proof (induction ps arbitrary: s)
  case (Cons p ps)
  then obtain u where u: "apply_p s p = Inr u" "apply_all apply_p u ps = Inr t" by (auto split: sum.splits)
  have "read t i = read u i" using Cons.prems u by (intro Cons.IH) (auto intro: keeps_inv)
  then show ?case using frame [OF _ _ u(1)] Cons.prems by simp
qed simp

lemma all_written:
  assumes "apply_all apply_p s ps = Inr t" "inv s" "list_all ok ps" "sorted_wrt (\<lambda>p q. targets p \<inter> targets q = {}) ps"
    "p \<in> set ps" "i \<in> targets p"
  shows "read t i = new_word p i"
  using assms
proof (induction ps arbitrary: s)
  case (Cons q ps)
  then obtain u where u: "apply_p s q = Inr u" "apply_all apply_p u ps = Inr t" by (auto split: sum.splits)
  have inv: "inv u" using keeps_inv [OF _ _ u(1)] Cons.prems by simp
  show ?case
  proof (cases "p \<in> set ps")
    case True
    then show ?thesis using Cons u(2) inv by simp
  next
    case False
    then have pq: "p = q" using Cons.prems(5) by simp
    then have "\<forall>q \<in> set ps. i \<notin> targets q" using Cons.prems(4,6) by auto
    then have "read t i = read u i" using all_frame [OF u(2) inv] Cons.prems(3) by simp
    then show ?thesis using written [OF _ _ u(1)] Cons.prems pq by simp
  qed
qed simp

text \<open>Patches with disjoint targets give one result in every order that succeeds.\<close>

lemma all_order:
  assumes "apply_all apply_p s ps = Inr t" "apply_all apply_p s qs = Inr u" "set ps = set qs" "inv s" "list_all ok ps"
    "sorted_wrt (\<lambda>p q. targets p \<inter> targets q = {}) ps" "sorted_wrt (\<lambda>p q. targets p \<inter> targets q = {}) qs"
  shows "read t i = read u i"
proof -
  have ok': "list_all ok qs" using assms(3,5) by (simp add: list_all_iff)
  show ?thesis
  proof (cases "\<exists>p \<in> set ps. i \<in> targets p")
    case True
    then show ?thesis
      using all_written [OF assms(1,4,5,6)] all_written [OF assms(2,4) ok' assms(7)] assms(3) by metis
  next
    case False
    then show ?thesis
      using all_frame [OF assms(1,4,5)] all_frame [OF assms(2,4) ok'] assms(3) by simp
  qed
qed

end

definition read_word :: "CortexState \<Rightarrow> int \<Rightarrow> bigint" where
  "read_word s i = (if 0 \<le> i \<and> i < 1024 then words s ! nat i else 0)"

definition patch_word :: "Patch \<Rightarrow> int \<Rightarrow> bigint" where
  "patch_word p i = (case map_of (zip (indices p) (newWords p)) i of Some w \<Rightarrow> w | None \<Rightarrow> 0)"

lemma applyPatchOntoCurrent_valid:
  "applyPatchOntoCurrent s p m = Inr t \<Longrightarrow> validatePatchType (patchType p) (indices p)"
  by (auto simp: applyPatchOntoCurrent_def split: if_splits)

lemma applyPatchOntoCurrent_patched:
  assumes "wf_state s" "well_sized p" "applyPatchOntoCurrent s p m = Inr t"
  shows "t = \<lparr>words = patched s p\<rparr>"
  using assms(3) applyPatchOntoCurrent_Inr [OF assms(2) wf_state_length [OF assms(1)]] by simp

interpretation store: patch_store "\<lambda>s p. applyPatchOntoCurrent s p m" "\<lambda>p. set (indices p)" patch_word read_word wf_state well_sized
  for m
proof
  fix s p t i
  assume a: "wf_state s" "well_sized p" "applyPatchOntoCurrent s p m = Inr t"
  note t = applyPatchOntoCurrent_patched [OF a] and v = applyPatchOntoCurrent_valid [OF a(3)]
  note nth = patched_nth [OF v a(2) wf_state_length [OF a(1)]]
  show "wf_state t" unfolding t by (rule wf_patched [OF a(1,2) v])
  show "read_word t i = patch_word p i" if i: "i \<in> set (indices p)"
  proof -
    obtain j where j: "j < length (indices p)" "indices p ! j = i" using i by (auto simp: in_set_conv_nth)
    have l: "length (indices p) = length (newWords p)" using a(2) by (simp add: well_sized_def)
    have "map_of (zip (indices p) (newWords p)) (indices p ! j) = Some (newWords p ! j)"
      using map_of_zip_nth [OF l] validatePatchType_indices [OF v] l j(1) by simp
    moreover have "0 \<le> i \<and> i < 1024" using validatePatchType_indices [OF v] i by (auto simp: list_all_iff)
    ultimately show ?thesis using nth(3) [OF j(1)] j(2) by (simp add: t read_word_def patch_word_def)
  qed
  show "read_word t i = read_word s i" if "i \<notin> set (indices p)"
    using nth(2) [of "nat i"] that by (simp add: t read_word_def)
qed

section \<open>The greedy loop\<close>

definition disjoint_patches :: "Patch \<Rightarrow> Patch \<Rightarrow> bool" where
  "disjoint_patches p q \<longleftrightarrow> set (indices p) \<inter> set (indices q) = {}"

abbreviation "apply_chain m \<equiv> apply_all (\<lambda>s p. applyPatchOntoCurrent s p m)"

text \<open>The \<open>k\<close>-th accepted entry is an input item evaluated and applied on the state that the entries before it reach.\<close>

definition accepted_at :: "CortexState \<Rightarrow> bigint \<Rightarrow> bool \<Rightarrow> ReducerInputPatch list \<Rightarrow> AcceptedPatch list \<Rightarrow> nat \<Rightarrow> bool" where
  "accepted_at s th m items acc k \<longleftrightarrow> (\<exists>item t. item \<in> set items \<and> apply_chain m s (map ap_patch (take k acc)) = Inr t \<and>
     acc ! k = \<lparr>ap_patch = ri_patch item, ap_patchBytes = ri_patchBytes item,
       ap_marginalGain = ri_marginalEvaluator item t (ri_patch item), ap_acceptanceIndex = k\<rparr> \<and>
     th \<le> ap_marginalGain (acc ! k))"

definition loop_inv :: "CortexState \<Rightarrow> bigint \<Rightarrow> bool \<Rightarrow> ReducerInputPatch list \<Rightarrow> CortexState \<Rightarrow> AcceptedPatch list \<Rightarrow> int list \<Rightarrow> bool" where
  "loop_inv s th m items cur acc tg \<longleftrightarrow> apply_chain m s (map ap_patch acc) = Inr cur \<and>
     sorted_wrt disjoint_patches (map ap_patch acc) \<and> set tg = (\<Union>a \<in> set acc. set (indices (ap_patch a))) \<and>
     (\<forall>k<length acc. accepted_at s th m items acc k)"

lemma step_Inr:
  "evaluateAndApplyOntoCurrent s p ev th str m codes = Inr (t, g) \<longleftrightarrow>
     g = ev s p \<and> (if str then th < g else th \<le> g) \<and> applyPatchOntoCurrent s p m = Inr t"
  by (auto simp: evaluateAndApplyOntoCurrent_def Let_def split: sum.splits)

lemma loop_inv_accept:
  assumes "loop_inv s th m items cur acc tg" "item \<in> set items" "\<not> list_ex (\<lambda>i. i \<in> set tg) (indices (ri_patch item))"
    "evaluateAndApplyOntoCurrent cur (ri_patch item) (ri_marginalEvaluator item) th False m batch_codes = Inr (t, g)"
  shows "loop_inv s th m items t (acc @ [\<lparr>ap_patch = ri_patch item, ap_patchBytes = ri_patchBytes item,
     ap_marginalGain = g, ap_acceptanceIndex = length acc\<rparr>]) (foldl js_set_add tg (indices (ri_patch item)))"
    (is "loop_inv s th m items t (acc @ [?a]) _")
proof -
  note inv = assms(1) [unfolded loop_inv_def] and st = assms(4) [unfolded step_Inr]
  have "accepted_at s th m items (acc @ [?a]) k" if "k < Suc (length acc)" for k
    using inv that st assms(2) by (cases "k = length acc") (auto simp: accepted_at_def nth_append)
  moreover have "sorted_wrt disjoint_patches (map ap_patch acc @ [ri_patch item])"
    using inv assms(3) by (auto simp: sorted_wrt_append disjoint_patches_def list_ex_iff)
  moreover have "apply_chain m s (map ap_patch acc @ [ri_patch item]) = Inr t"
    using inv st by (simp add: apply_all_snoc)
  ultimately show ?thesis
    using inv set_foldl_js_set_add [of "\<lambda>x. x"] by (auto simp: loop_inv_def)
qed

lemma reduce_loop_inv:
  assumes "reduce_loop th m xs cur acc tg rej = (cur', acc', rej')" "loop_inv s th m items cur acc tg" "set xs \<subseteq> set items"
  shows "\<exists>tg'. loop_inv s th m items cur' acc' tg'"
  using assms
proof (induction xs arbitrary: cur acc tg rej)
  case (Cons x xs)
  show ?case
  proof (cases "list_ex (\<lambda>i. i \<in> set tg) (indices (ri_patch x))")
    case True
    then show ?thesis using Cons.prems by (intro Cons.IH) auto
  next
    case no: False
    show ?thesis
    proof (cases "evaluateAndApplyOntoCurrent cur (ri_patch x) (ri_marginalEvaluator x) th False m batch_codes")
      case (Inl r)
      then show ?thesis using Cons.prems no by (intro Cons.IH) auto
    next
      case (Inr tgain)
      obtain t g where tg: "tgain = (t, g)" by force
      show ?thesis
        using Cons.prems no Inr tg by (intro Cons.IH [OF _ loop_inv_accept [OF Cons.prems(2) _ no, of t g]]) simp_all
    qed
  qed
qed auto

text \<open>Every patch that goes in comes out once, accepted or rejected; the rejections name why.\<close>

definition in_entry :: "ReducerInputPatch \<Rightarrow> Patch \<times> bytes" where
  "in_entry x = (ri_patch x, ri_patchBytes x)"

definition out_entries :: "AcceptedPatch list \<Rightarrow> RejectedPatch list \<Rightarrow> (Patch \<times> bytes) multiset" where
  "out_entries acc rej = mset (map (\<lambda>a. (ap_patch a, ap_patchBytes a)) acc) + mset (map (\<lambda>r. (rj_patch r, rj_patchBytes r)) rej)"

lemma reduce_loop_conserves:
  "reduce_loop th m xs cur acc tg rej = (cur', acc', rej') \<Longrightarrow>
   out_entries acc' rej' = out_entries acc rej + mset (map in_entry xs)"
  by (induction xs arbitrary: cur acc tg rej)
    (auto simp: out_entries_def in_entry_def reject_def split: if_splits sum.splits)

lemma reduce_loop_accepted_grows:
  "reduce_loop th m xs cur acc tg rej = (cur', acc', rej') \<Longrightarrow> set acc \<subseteq> set acc' \<and> set rej \<subseteq> set rej'"
  by (induction xs arbitrary: cur acc tg rej) (fastforce split: if_splits sum.splits)+

lemma reduce_loop_overlap:
  assumes "reduce_loop th m xs cur acc tg rej = (cur', acc', rej')" "loop_inv s th m items cur acc tg" "set xs \<subseteq> set items"
    "r \<in> set rej'" "r \<notin> set rej" "rj_reason r = R01_TARGET_OVERLAP"
  shows "\<exists>a \<in> set acc'. \<not> disjoint_patches (rj_patch r) (ap_patch a)"
  using assms(1-5)
proof (induction xs arbitrary: cur acc tg rej)
  case (Cons x xs)
  show ?case
  proof (cases "list_ex (\<lambda>i. i \<in> set tg) (indices (ri_patch x))")
    case True
    then obtain a where a: "a \<in> set acc" "\<not> disjoint_patches (ri_patch x) (ap_patch a)"
      using Cons.prems(2) by (auto simp: loop_inv_def list_ex_iff disjoint_patches_def)
    have rec: "reduce_loop th m xs cur acc tg (rej @ [reject x R01_TARGET_OVERLAP]) = (cur', acc', rej')"
      using Cons.prems(1) True by simp
    show ?thesis
    proof (cases "r = reject x R01_TARGET_OVERLAP")
      case True
      then show ?thesis using a reduce_loop_accepted_grows [OF rec] by (auto simp: reject_def)
    next
      case False
      then show ?thesis using Cons.prems by (intro Cons.IH [OF rec]) auto
    qed
  next
    case no: False
    show ?thesis
    proof (cases "evaluateAndApplyOntoCurrent cur (ri_patch x) (ri_marginalEvaluator x) th False m batch_codes")
      case (Inl c)
      have "c \<noteq> R01_TARGET_OVERLAP"
        using Inl by (auto simp: evaluateAndApplyOntoCurrent_def batch_codes_def Let_def split: if_splits sum.splits)
      then have "r \<noteq> reject x c" using assms(6) by (auto simp: reject_def)
      then show ?thesis using Cons.prems no Inl by (intro Cons.IH [of cur acc tg "rej @ [reject x c]"]) auto
    next
      case (Inr tgain)
      obtain t g where tg: "tgain = (t, g)" by force
      show ?thesis
        using Cons.prems no Inr tg by (intro Cons.IH [OF _ loop_inv_accept [OF Cons.prems(2) _ no, of t g]]) simp_all
    qed
  qed
qed simp

section \<open>The reducer\<close>

definition eligible :: "bytes \<Rightarrow> ReducerInputPatch list \<Rightarrow> ReducerInputPatch list" where
  "eligible rt ps = filter (\<lambda>x. parentStateRoot (ri_patch x) = rt) ps"

lemma reduce_Inr:
  assumes "length (words s) = WORD_COUNT"
  shows "\<exists>rt. merkleizeState s = Inr rt \<and>
    (reduce s ps th m = Inr out \<longleftrightarrow> (\<exists>cur acc rej nroot.
      reduce_loop th m (js_sort comparePatchPriority (eligible rt ps)) s [] []
        (map (\<lambda>x. reject x R03_WRONG_PARENT_ROOT) (filter (\<lambda>x. parentStateRoot (ri_patch x) \<noteq> rt) ps)) = (cur, acc, rej) \<and>
      merkleizeState cur = Inr nroot \<and>
      out = \<lparr>ro_newState = cur, ro_patchSetRoot = computePatchSetRoot acc, ro_patchSetRootHex = bytesToHex (computePatchSetRoot acc),
        ro_newStateRoot = nroot, ro_newStateRootHex = bytesToHex nroot, ro_accepted = acc, ro_rejected = rej\<rparr>))"
proof -
  obtain rt where rt: "merkleizeState s = Inr rt" using merkleizeState_eq [OF assms] by blast
  then show ?thesis
    by (auto simp: reduce_def patchMatchesEpochParent_def eligible_def stableSort_def js_bind_eq_Inr_iff Let_def split: prod.splits)
qed

lemma loop_inv_start: "loop_inv s th m items s [] []"
  by (simp add: loop_inv_def)

lemma reduce_inv:
  assumes "length (words s) = WORD_COUNT" "reduce s ps th m = Inr out"
  shows "\<exists>tg. loop_inv s th m ps (ro_newState out) (ro_accepted out) tg"
    "merkleizeState (ro_newState out) = Inr (ro_newStateRoot out)"
    "ro_patchSetRoot out = computePatchSetRoot (ro_accepted out)"
proof -
  obtain rt cur acc rej nroot where *: "reduce_loop th m (js_sort comparePatchPriority (eligible rt ps)) s [] []
      (map (\<lambda>x. reject x R03_WRONG_PARENT_ROOT) (filter (\<lambda>x. parentStateRoot (ri_patch x) \<noteq> rt) ps)) = (cur, acc, rej)"
    and out: "merkleizeState cur = Inr nroot" "ro_newState out = cur" "ro_accepted out = acc" "ro_newStateRoot out = nroot"
      "ro_patchSetRoot out = computePatchSetRoot acc"
    using reduce_Inr [OF assms(1), of ps th m out] assms(2) by auto
  have "set (js_sort comparePatchPriority (eligible rt ps)) \<subseteq> set ps" by (auto simp: eligible_def)
  then show "\<exists>tg. loop_inv s th m ps (ro_newState out) (ro_accepted out) tg"
    using reduce_loop_inv [OF * loop_inv_start] out by simp
  show "merkleizeState (ro_newState out) = Inr (ro_newStateRoot out)" "ro_patchSetRoot out = computePatchSetRoot (ro_accepted out)"
    using out by simp_all
qed

lemma accepted_well_sized:
  assumes "loop_inv s th m items cur acc tg" "\<forall>x \<in> set items. well_sized (ri_patch x)"
  shows "list_all well_sized (map ap_patch acc)"
  using assms by (fastforce simp: loop_inv_def list_all_length accepted_at_def)

lemma loop_inv_wf:
  assumes "loop_inv s th m items cur acc tg" "wf_state s" "\<forall>x \<in> set items. well_sized (ri_patch x)"
  shows "wf_state cur"
  using store.all_inv [OF _ assms(2) accepted_well_sized [OF assms(1,3)]] assms(1) by (auto simp: loop_inv_def)

text \<open>A concrete run: one submission for the empty state and one for another parent.\<close>

definition demo_item :: "bytes \<Rightarrow> ReducerInputPatch" where
  "demo_item rt = \<lparr>ri_patch = slot_patch rt, ri_patchBytes = [1, 2], ri_scoreDelta = 10, ri_marginalEvaluator = stubMarginalEvaluator\<rparr>"

definition demo_stale :: "bytes \<Rightarrow> ReducerInputPatch" where
  "demo_stale rt = \<lparr>ri_patch = slot_patch (0 # rt), ri_patchBytes = [3], ri_scoreDelta = 10, ri_marginalEvaluator = stubMarginalEvaluator\<rparr>"

lemma demo_reduce:
  assumes "merkleizeState zero_state = Inr rt" "ps = [demo_item rt, demo_stale rt] \<or> ps = [demo_stale rt, demo_item rt]"
  shows "\<exists>out. reduce zero_state ps 5 True = Inr out \<and>
    ro_accepted out = [\<lparr>ap_patch = slot_patch rt, ap_patchBytes = [1, 2], ap_marginalGain = 10, ap_acceptanceIndex = 0\<rparr>]"
proof -
  let ?s = "\<lparr>words = (replicate 1024 0)[33 := push_bit 128 9]\<rparr>"
  obtain nr where nr: "merkleizeState ?s = Inr nr" using merkleizeState_eq [of ?s] by auto
  have el: "eligible rt ps = [demo_item rt]" using assms(2) by (auto simp: eligible_def demo_item_def demo_stale_def slot_patch_def)
  have step: "evaluateAndApplyOntoCurrent zero_state (slot_patch rt) stubMarginalEvaluator 5 False True batch_codes = Inr (?s, 10)"
    by (simp add: step_Inr slot_patch_applies) (simp add: stubMarginalEvaluator_def slot_patch_def)
  have loop: "reduce_loop 5 True [demo_item rt] zero_state [] [] rej
     = (?s, [\<lparr>ap_patch = slot_patch rt, ap_patchBytes = [1, 2], ap_marginalGain = 10, ap_acceptanceIndex = 0\<rparr>], rej)" for rej
    using step by (simp add: demo_item_def list_ex_iff)
  show ?thesis
    unfolding reduce_def assms(1) js_bind_Inr Let_def patchMatchesEpochParent_def bytesEqual_iff eligible_def [symmetric] stableSort_def el
    using nr loop by (simp add: js_sort_def)
qed

lemma demo_sized: "\<forall>x \<in> set [demo_item rt, demo_stale rt]. well_sized (ri_patch x)"
  by (simp add: demo_item_def demo_stale_def)

lemma demo_root: "\<exists>rt. merkleizeState zero_state = Inr rt"
  using merkleizeState_eq [OF zero_state_wf(2)] by blast

text \<open>C22. The epoch state is the parent with exactly the accepted patches in it: accepted patches have disjoint
  targets; applied to the parent in their order they all succeed and give the new state, which is
  well-formed and whose Merkle root is the reported one; every word of every accepted patch stands in
  the new state, and every other word is the parent's.\<close>

theorem reduce_state:
  assumes "wf_state s" "\<forall>x \<in> set ps. well_sized (ri_patch x)" "reduce s ps th m = Inr out"
  shows "apply_all (\<lambda>s p. applyPatchOntoCurrent s p m) s (map ap_patch (ro_accepted out)) = Inr (ro_newState out) \<and>
    sorted_wrt disjoint_patches (map ap_patch (ro_accepted out)) \<and>
    wf_state (ro_newState out) \<and> merkleizeState (ro_newState out) = Inr (ro_newStateRoot out) \<and>
    (\<forall>a \<in> set (ro_accepted out). \<forall>i \<in> set (indices (ap_patch a)). read_word (ro_newState out) i = patch_word (ap_patch a) i) \<and>
    (\<forall>i. (\<forall>a \<in> set (ro_accepted out). i \<notin> set (indices (ap_patch a))) \<longrightarrow> read_word (ro_newState out) i = read_word s i)"
proof -
  note red = reduce_inv [OF wf_state_length [OF assms(1)] assms(3)]
  obtain tg where inv: "loop_inv s th m ps (ro_newState out) (ro_accepted out) tg" using red(1) by blast
  note ok = accepted_well_sized [OF inv assms(2)]
  have chain: "apply_chain m s (map ap_patch (ro_accepted out)) = Inr (ro_newState out)"
    and disj: "sorted_wrt disjoint_patches (map ap_patch (ro_accepted out))"
    using inv by (simp_all add: loop_inv_def)
  show ?thesis
    using chain disj loop_inv_wf [OF inv assms(1,2)] red(2) store.all_frame [OF chain assms(1) ok]
      store.all_written [OF chain assms(1) ok disj [unfolded disjoint_patches_def [abs_def]]]
    by simp
qed

theorem reduce_state_witness:
  "\<exists>rt out. reduce zero_state [demo_item rt, demo_stale rt] 5 True = Inr out \<and> read_word (ro_newState out) 33 = push_bit 128 9"
proof -
  obtain rt where rt: "merkleizeState zero_state = Inr rt" using demo_root by blast
  then obtain out where out: "reduce zero_state [demo_item rt, demo_stale rt] 5 True = Inr out" "map ap_patch (ro_accepted out) = [slot_patch rt]"
    using demo_reduce [OF rt disjI1 [OF refl]] by (metis AcceptedPatch.select_convs(1) list.map)
  from reduce_state [OF zero_state_wf(1) demo_sized out(1)]
  have "\<forall>p \<in> set (map ap_patch (ro_accepted out)). \<forall>i \<in> set (indices p). read_word (ro_newState out) i = patch_word p i"
    by (simp only: set_map ball_simps) blast
  then have "read_word (ro_newState out) 33 = push_bit 128 9"
    unfolding out(2) by (simp add: slot_patch_def patch_word_def)
  then show ?thesis using out(1) by blast
qed

text \<open>The gains are real: the \<open>k\<close>-th accepted entry carries index \<open>k\<close> and the value of its own evaluator on the
  state that the earlier accepted patches reach, and this gain is at least the threshold.\<close>

lemma reduce_gains:
  assumes "length (words s) = WORD_COUNT" "reduce s ps th m = Inr out" "k < length (ro_accepted out)"
  shows "\<exists>item t. item \<in> set ps \<and>
    apply_all (\<lambda>s p. applyPatchOntoCurrent s p m) s (map ap_patch (take k (ro_accepted out))) = Inr t \<and>
    ro_accepted out ! k = \<lparr>ap_patch = ri_patch item, ap_patchBytes = ri_patchBytes item,
      ap_marginalGain = ri_marginalEvaluator item t (ri_patch item), ap_acceptanceIndex = k\<rparr> \<and>
    th \<le> ap_marginalGain (ro_accepted out ! k)"
  using reduce_inv(1) [OF assms(1,2)] assms(3) by (fastforce simp: loop_inv_def accepted_at_def)

lemma reduce_returns:
  assumes "wf_state s" "\<forall>x \<in> set ps. well_sized (ri_patch x)"
  shows "\<exists>out. reduce s ps th m = Inr out"
proof -
  obtain rt where rt: "merkleizeState s = Inr rt" using merkleizeState_eq [OF wf_state_length [OF assms(1)]] by blast
  let ?xs = "js_sort comparePatchPriority (eligible rt ps)"
  let ?rej = "map (\<lambda>x. reject x R03_WRONG_PARENT_ROOT) (filter (\<lambda>x. parentStateRoot (ri_patch x) \<noteq> rt) ps)"
  obtain cur acc rej where loop: "reduce_loop th m ?xs s [] [] ?rej = (cur, acc, rej)" by (metis prod_cases3)
  have "set ?xs \<subseteq> set ps" by (auto simp: eligible_def)
  then have "wf_state cur" using reduce_loop_inv [OF loop loop_inv_start] loop_inv_wf [OF _ assms] by blast
  then obtain nroot where "merkleizeState cur = Inr nroot" using merkleizeState_eq [OF wf_state_length] by blast
  then show ?thesis
    using loop rt by (simp add: reduce_def patchMatchesEpochParent_def eligible_def [symmetric] stableSort_def Let_def)
qed

text \<open>C23. No patch is lost or duplicated and rejections are justified: on a well-formed parent the reducer
  always returns; accepted and rejected entries together are exactly the inputs; everything accepted
  names the parent's root; and a patch rejected for overlap does share a target with an accepted one.\<close>

theorem reduce_conservation:
  assumes "wf_state s" "\<forall>x \<in> set ps. well_sized (ri_patch x)"
  shows "\<exists>rt out. merkleizeState s = Inr rt \<and> reduce s ps th m = Inr out \<and>
    mset (map (\<lambda>a. (ap_patch a, ap_patchBytes a)) (ro_accepted out)) + mset (map (\<lambda>r. (rj_patch r, rj_patchBytes r)) (ro_rejected out))
      = mset (map (\<lambda>x. (ri_patch x, ri_patchBytes x)) ps) \<and>
    (\<forall>a \<in> set (ro_accepted out). parentStateRoot (ap_patch a) = rt) \<and>
    (\<forall>r \<in> set (ro_rejected out). rj_reason r = R01_TARGET_OVERLAP \<longrightarrow>
       (\<exists>a \<in> set (ro_accepted out). set (indices (rj_patch r)) \<inter> set (indices (ap_patch a)) \<noteq> {}))"
proof -
  obtain rt where rt: "merkleizeState s = Inr rt" using merkleizeState_eq [OF wf_state_length [OF assms(1)]] by blast
  let ?xs = "js_sort comparePatchPriority (eligible rt ps)"
  let ?rej = "map (\<lambda>x. reject x R03_WRONG_PARENT_ROOT) (filter (\<lambda>x. parentStateRoot (ri_patch x) \<noteq> rt) ps)"
  obtain cur acc rej where loop: "reduce_loop th m ?xs s [] [] ?rej = (cur, acc, rej)" by (metis prod_cases3)
  have sub: "set ?xs \<subseteq> set ?xs" by simp
  obtain tg where inv: "loop_inv s th m ?xs cur acc tg" using reduce_loop_inv [OF loop loop_inv_start sub] by blast
  have "wf_state cur" using loop_inv_wf [OF inv assms(1)] assms(2) by (simp add: eligible_def)
  then obtain nroot where "merkleizeState cur = Inr nroot" using merkleizeState_eq [OF wf_state_length] by blast
  then obtain out where out: "reduce s ps th m = Inr out" "ro_accepted out = acc" "ro_rejected out = rej"
    using loop rt by (simp add: reduce_def patchMatchesEpochParent_def eligible_def [symmetric] stableSort_def Let_def)
  have "mset (map in_entry (filter P ps)) + mset (map in_entry (filter (\<lambda>x. \<not> P x) ps)) = mset (map in_entry ps)" for P
    by (metis image_mset_union mset_filter mset_map multiset_partition)
  from this [of "\<lambda>x. parentStateRoot (ri_patch x) = rt"] have "out_entries acc rej = mset (map in_entry ps)"
    using reduce_loop_conserves [OF loop]
    by (simp add: out_entries_def reject_def comp_def in_entry_def [abs_def] eligible_def add.commute)
  moreover have "\<forall>a \<in> set acc. parentStateRoot (ap_patch a) = rt"
    using inv by (fastforce simp: loop_inv_def accepted_at_def in_set_conv_nth eligible_def)
  moreover have "\<exists>a \<in> set acc. \<not> disjoint_patches (rj_patch r) (ap_patch a)" if "r \<in> set rej" "rj_reason r = R01_TARGET_OVERLAP" for r
  proof -
    have "r \<notin> set ?rej" using that(2) by (auto simp: reject_def)
    then show ?thesis using reduce_loop_overlap [OF loop loop_inv_start sub that(1) _ that(2)] by blast
  qed
  ultimately show ?thesis
    using rt out by (auto simp: out_entries_def in_entry_def [abs_def] disjoint_patches_def)
qed

theorem reduce_conservation_witness:
  "\<exists>out. reduce zero_state [demo_item [], demo_stale []] 5 True = Inr out \<and> length (ro_accepted out) + length (ro_rejected out) = 2"
proof -
  obtain out where out: "reduce zero_state [demo_item [], demo_stale []] 5 True = Inr out"
    "mset (map (\<lambda>a. (ap_patch a, ap_patchBytes a)) (ro_accepted out)) + mset (map (\<lambda>r. (rj_patch r, rj_patchBytes r)) (ro_rejected out))
      = mset (map (\<lambda>x. (ri_patch x, ri_patchBytes x)) [demo_item [], demo_stale []])"
    using reduce_conservation [OF zero_state_wf(1) demo_sized, of "[]" 5 True] by blast
  from arg_cong [OF out(2), of size] out(1) show ?thesis by (auto simp del: mset_map)
qed

section \<open>The priority order\<close>

definition priority_tie :: "ReducerInputPatch \<Rightarrow> ReducerInputPatch \<Rightarrow> bool" where
  "priority_tie x y \<longleftrightarrow> ri_scoreDelta x = ri_scoreDelta y \<and> wordCount (ri_patch x) = wordCount (ri_patch y) \<and>
     computePatchHash (ri_patchBytes x) = computePatchHash (ri_patchBytes y)"

lemma comparePatchPriority_less:
  "comparePatchPriority x y < 0 \<longleftrightarrow> ri_scoreDelta y < ri_scoreDelta x \<or>
     ri_scoreDelta x = ri_scoreDelta y \<and> (wordCount (ri_patch x) < wordCount (ri_patch y) \<or>
       wordCount (ri_patch x) = wordCount (ri_patch y) \<and>
       js_string_less (computePatchHash (ri_patchBytes x)) (computePatchHash (ri_patchBytes y)))"
  by (auto simp: comparePatchPriority_def Let_def)

interpretation priority: js_comparator comparePatchPriority
proof
  fix x y z
  show "comparePatchPriority x y < 0 \<Longrightarrow> \<not> comparePatchPriority y x < 0"
    by (auto simp: comparePatchPriority_less dest: js_string_less_asym)
  show "\<not> comparePatchPriority y x < 0 \<Longrightarrow> \<not> comparePatchPriority z y < 0 \<Longrightarrow> \<not> comparePatchPriority z x < 0"
    unfolding comparePatchPriority_less by (auto dest: js_string_less_neg_trans)
qed

lemma priority_le_tie: "priority.le x y \<Longrightarrow> priority.le y x \<Longrightarrow> priority_tie x y"
  using js_string_less_total by (auto simp: priority.le_def comparePatchPriority_less priority_tie_def not_less)

lemma reduce_loop_rejected:
  "reduce_loop th m xs cur acc tg (r1 @ r2) = (let (c, a, r) = reduce_loop th m xs cur acc tg r2 in (c, a, r1 @ r))"
proof (induction xs arbitrary: cur acc tg r2)
  case (Cons x xs)
  show ?case using Cons.IH [of _ _ _ "r2 @ _"] Cons.IH [of _ _ _ r2] by (simp split: sum.splits prod.splits)
qed simp

text \<open>The strings whose hashes break ties.\<close>

definition hash_strings :: "ReducerInputPatch list \<Rightarrow> bytes list" where
  "hash_strings ps = map (\<lambda>x. utf8 PATCH_HASH_DOMAIN_PREFIX @ ri_patchBytes x) ps"

lemma tie_collision:
  assumes "x \<in> set ps" "y \<in> set ps" "priority_tie x y" "inj_on ri_patchBytes (set ps)" "x \<noteq> y"
  shows "collision_between (hash_strings ps) (hash_strings ps)"
proof (rule collision_betweenI)
  show "utf8 PATCH_HASH_DOMAIN_PREFIX @ ri_patchBytes x \<noteq> utf8 PATCH_HASH_DOMAIN_PREFIX @ ri_patchBytes y"
    using assms by (auto dest: inj_onD)
  show "keccak256 (utf8 PATCH_HASH_DOMAIN_PREFIX @ ri_patchBytes x) = keccak256 (utf8 PATCH_HASH_DOMAIN_PREFIX @ ri_patchBytes y)"
    using assms(3) by (simp add: priority_tie_def computePatchHash_def bytesToHex_inj concatU8_def)
qed (use assms in \<open>simp_all add: hash_strings_def\<close>)

text \<open>C24. The reducer does not depend on the arrival order: two orders of the same submissions, with different
  bytes for different submissions, give the same state, roots and accepted list and the same
  rejections as a multiset, unless two of the hashed byte strings are a Keccak-256 collision.\<close>

theorem reduce_order_independent:
  assumes "length (words s) = WORD_COUNT" "mset ps = mset qs" "inj_on ri_patchBytes (set ps)"
    "reduce s ps th m = Inr out" "reduce s qs th m = Inr out'"
  shows "ro_newState out' = ro_newState out \<and> ro_newStateRoot out' = ro_newStateRoot out \<and> ro_patchSetRoot out' = ro_patchSetRoot out \<and>
    ro_accepted out' = ro_accepted out \<and> mset (ro_rejected out') = mset (ro_rejected out)
    \<or> collision_between (hash_strings ps) (hash_strings ps)"
proof (rule disjCI)
  assume none: "\<not> collision_between (hash_strings ps) (hash_strings ps)"
  obtain rt where rt: "merkleizeState s = Inr rt" using merkleizeState_eq [OF assms(1)] by blast
  let ?rej = "\<lambda>ps. map (\<lambda>x. reject x R03_WRONG_PARENT_ROOT) (filter (\<lambda>x. parentStateRoot (ri_patch x) \<noteq> rt) ps)"
  have eq: "js_sort comparePatchPriority (eligible rt ps) = js_sort comparePatchPriority (eligible rt qs)"
  proof (rule priority.js_sort_perm)
    show "mset (eligible rt ps) = mset (eligible rt qs)" using assms(2) by (simp add: eligible_def)
    fix x y assume "x \<in> set (eligible rt ps)" "y \<in> set (eligible rt ps)" "priority.le x y" "priority.le y x"
    then show "x = y" using none tie_collision [OF _ _ priority_le_tie assms(3)] by (auto simp: eligible_def)
  qed
  obtain cur acc r where nil: "reduce_loop th m (js_sort comparePatchPriority (eligible rt qs)) s [] [] [] = (cur, acc, r)"
    by (metis prod_cases3)
  have loop: "reduce_loop th m (js_sort comparePatchPriority (eligible rt qs)) s [] [] r1 = (cur, acc, r1 @ r)" for r1
    using reduce_loop_rejected [of th m _ s "[]" "[]" r1 "[]"] nil by simp
  have "mset (?rej ps) = mset (?rej qs)" using assms(2) by simp
  then show "ro_newState out' = ro_newState out \<and> ro_newStateRoot out' = ro_newStateRoot out \<and> ro_patchSetRoot out' = ro_patchSetRoot out \<and>
    ro_accepted out' = ro_accepted out \<and> mset (ro_rejected out') = mset (ro_rejected out)"
    using reduce_Inr [OF assms(1), of ps th m out] reduce_Inr [OF assms(1), of qs th m out'] assms(4,5) rt
    by (auto simp: loop eq)
qed

theorem reduce_order_independent_witness:
  "\<exists>rt out out'. reduce zero_state [demo_item rt, demo_stale rt] 5 True = Inr out \<and> reduce zero_state [demo_stale rt, demo_item rt] 5 True = Inr out' \<and>
     (ro_newState out' = ro_newState out \<or> collision_between (hash_strings [demo_item rt, demo_stale rt]) (hash_strings [demo_item rt, demo_stale rt]))"
proof -
  obtain rt where rt: "merkleizeState zero_state = Inr rt" using demo_root by blast
  obtain out out' where out: "reduce zero_state [demo_item rt, demo_stale rt] 5 True = Inr out" "reduce zero_state [demo_stale rt, demo_item rt] 5 True = Inr out'"
    using demo_reduce [OF rt] by blast
  have "mset [demo_item rt, demo_stale rt] = mset [demo_stale rt, demo_item rt]" "inj_on ri_patchBytes (set [demo_item rt, demo_stale rt])"
    by (simp_all add: demo_item_def demo_stale_def)
  from reduce_order_independent [OF zero_state_wf(2) this out] out show ?thesis by blast
qed

end
