(* ===== verification/JsValues.thy ===== *)
theory JsValues
  imports Complex_Main Merkle
begin

text \<open>
  What the source uses of JavaScript's conversions between strings, numbers and big integers:
  \<open>toLowerCase\<close>, \<open>BigInt(s)\<close>, the \<open>string | bigint | number\<close> arguments of the reward code and truncating
  big-integer division.
\<close>

section \<open>Implementation\<close>

text \<open>\<open>toLowerCase\<close> on Latin-1 strings.\<close>

definition js_lower_char :: "char \<Rightarrow> char" where
  "js_lower_char c = (let n = of_char c :: nat in
     if 65 \<le> n \<and> n \<le> 90 \<or> 192 \<le> n \<and> n \<le> 222 \<and> n \<noteq> 215 then char_of (n + 32) else c)"

definition toLowerCase :: "string \<Rightarrow> string" where
  "toLowerCase s = map js_lower_char s"

text \<open>\<open>BigInt(s)\<close> of a string: white space around it, an empty string is 0, a sign only before decimal digits.\<close>

fun digits_acc :: "nat \<Rightarrow> int \<Rightarrow> string \<Rightarrow> int option" where
  "digits_acc radix acc [] = Some acc"
| "digits_acc radix acc (c # cs) = (case hex_value c of
     None \<Rightarrow> None
   | Some d \<Rightarrow> if d < radix then digits_acc radix (acc * int radix + int d) cs else None)"

definition digits_value :: "nat \<Rightarrow> string \<Rightarrow> int option" where
  "digits_value radix s = (if s = [] then None else digits_acc radix 0 s)"

definition js_BigInt :: "string \<Rightarrow> bigint js" where
  "js_BigInt s =
     (let s = rev (dropWhile js_space (rev (dropWhile js_space s)));
          v = (if s = [] then Some 0
               else if take 2 s = ''0x'' \<or> take 2 s = ''0X'' then digits_value 16 (drop 2 s)
               else if take 2 s = ''0o'' \<or> take 2 s = ''0O'' then digits_value 8 (drop 2 s)
               else if take 2 s = ''0b'' \<or> take 2 s = ''0B'' then digits_value 2 (drop 2 s)
               else if hd s = CHR ''-'' then map_option uminus (digits_value 10 (tl s))
               else if hd s = CHR ''+'' then digits_value 10 (tl s)
               else digits_value 10 s)
      in case v of None \<Rightarrow> Inl (JsError ''SyntaxError: Cannot convert to a BigInt'') | Some n \<Rightarrow> Inr n)"

text \<open>A \<open>string | bigint | number\<close> argument; \<open>ArgNonFinite\<close> is a number that is not finite.\<close>

datatype js_arg = ArgBig bigint | ArgNum rat | ArgNonFinite | ArgStr string

text \<open>A \<open>number\<close>, where it may be infinite or not a number.\<close>

datatype js_number = Fin rat | PosInf | NegInf | NaN

definition is_safe_integer :: "rat \<Rightarrow> bool" where
  "is_safe_integer r \<longleftrightarrow> r = of_int \<lfloor>r\<rfloor> \<and> \<bar>\<lfloor>r\<rfloor>\<bar> \<le> 2 ^ 53 - 1"

definition decimal_digit :: "char \<Rightarrow> bool" where
  "decimal_digit c \<longleftrightarrow> (let n = of_char c :: nat in 48 \<le> n \<and> n \<le> 57)"

text \<open>\<open>/^(0|[1-9][0-9]*)$/\<close>.\<close>

definition decimal_string :: "string \<Rightarrow> bool" where
  "decimal_string s \<longleftrightarrow> s = ''0'' \<or> s \<noteq> [] \<and> hd s \<noteq> CHR ''0'' \<and> list_all decimal_digit s"

definition js_require :: "bool \<Rightarrow> js_exn \<Rightarrow> unit js" where
  "js_require c e = (if c then Inr () else Inl e)"

text \<open>\<open>a / b\<close> on big integers rounds towards zero.\<close>

definition js_bigdiv :: "bigint \<Rightarrow> bigint \<Rightarrow> bigint js" where
  "js_bigdiv a b = (if b = 0 then Inl (RangeError ''Division by zero'') else Inr (sgn a * sgn b * (\<bar>a\<bar> div \<bar>b\<bar>)))"

section \<open>Facts\<close>

lemma js_require_Inr [simp]: "js_require c e = Inr u \<longleftrightarrow> c"
  by (simp add: js_require_def)

lemma js_bigdiv_nonneg: "0 \<le> a \<Longrightarrow> 0 < b \<Longrightarrow> js_bigdiv a b = Inr (a div b)"
  by (cases "a = 0") (simp_all add: js_bigdiv_def)

lemma of_char_lower: "js_lower_char (js_lower_char c) = js_lower_char c"
proof -
  have "(of_char c :: nat) < 256" by simp
  then show ?thesis by (auto simp: js_lower_char_def Let_def)
qed

lemma toLowerCase_idem [simp]: "toLowerCase (toLowerCase s) = toLowerCase s"
  by (simp add: toLowerCase_def of_char_lower)

lemma js_lower_hex_digits: "list_all (\<lambda>n. js_lower_char (hex_digit n) = hex_digit n) [0..<16]"
  by code_simp

lemma js_lower_hex_digit: "n < 16 \<Longrightarrow> js_lower_char (hex_digit n) = hex_digit n"
  using js_lower_hex_digits by (simp add: list_all_iff del: upt_rec_numeral)

lemma toLowerCase_bytesToHex [simp]: "toLowerCase (bytesToHex bs) = bytesToHex bs"
proof -
  have "map js_lower_char (byte_hex b) = byte_hex b" for b
  proof -
    have "unat b < 256" using unsigned_less [of b] by simp
    then show ?thesis by (simp add: byte_hex_def js_lower_hex_digit less_mult_imp_div_less)
  qed
  then have "map js_lower_char (concat (map byte_hex bs)) = concat (map byte_hex bs)"
    by (simp add: map_concat comp_def)
  then show ?thesis by (simp add: toLowerCase_def bytesToHex_eq js_lower_char_def)
qed

lemma digits_acc_bytes: "digits_acc 16 acc (concat (map byte_hex bs)) = Some (acc * 256 ^ length bs + be_val bs)"
proof (induction bs arbitrary: acc)
  case (Cons b bs)
  have "unat b < 256" using unsigned_less [of b] by simp
  then have b: "unat b div 16 < 16" "unat b mod 16 < 16" by (simp_all add: less_mult_imp_div_less)
  have "int (unat b div 16) * 16 + int (unat b mod 16) = uint b"
    by (metis div_mult_mod_eq of_nat_add of_nat_mult of_nat_numeral uint_nat)
  then have "digits_acc 16 acc (byte_hex b @ cs) = digits_acc 16 (acc * 256 + uint b) cs" for cs
    using hex_digit_facts(1) [OF b(1)] hex_digit_facts(1) [OF b(2)] b by (simp add: byte_hex_def) (rule arg_cong [where f = "\<lambda>v. digits_acc 16 v cs"], linarith)
  moreover have "be_val (b # bs) = uint b * 256 ^ length bs + be_val bs"
    using be_val_snoc [of "[]" b] by (induction bs rule: rev_induct) (simp_all add: algebra_simps flip: append_Cons)
  ultimately show ?case using Cons by (simp add: algebra_simps)
qed simp

lemma last_byte_hex: "bs \<noteq> [] \<Longrightarrow> \<exists>x<16. last (concat (map byte_hex bs)) = hex_digit x"
  by (induction bs rule: rev_induct) (auto simp: byte_hex_def intro!: exI [of _ "unat _ mod 16"])

lemma js_BigInt_bytesToHex: "bs \<noteq> [] \<Longrightarrow> js_BigInt (bytesToHex bs) = Inr (be_val bs)"
proof -
  assume ne: "bs \<noteq> []"
  let ?h = "concat (map byte_hex bs)"
  have h: "?h \<noteq> []" using ne by (cases bs) (auto simp: byte_hex_def)
  obtain x where "x < 16" "last ?h = hex_digit x" using last_byte_hex [OF ne] by blast
  then have sp: "\<not> js_space (last ?h)" using hex_digit_facts(2) by simp
  have "dropWhile js_space (rev (''0x'' @ ?h)) = rev (''0x'' @ ?h)"
    using h sp by (cases "rev ?h") (auto simp: hd_rev [symmetric])
  moreover have "dropWhile js_space (''0x'' @ ?h) = ''0x'' @ ?h" by (simp add: js_space_def)
  ultimately show ?thesis
    using h by (simp add: js_BigInt_def bytesToHex_eq Let_def digits_value_def digits_acc_bytes)
qed

end
