(* ===== verification/VerifyEpoch.thy ===== *)
theory VerifyEpoch
  imports Reducer JsValues
begin

text \<open>
  Public replay of one epoch: \<open>packages/coretex/src/verify-epoch/index.ts\<close>. Chain logs are decoded by hand
  and the reducer is rerun from chain data only. Offsets read from log data are numbers: beyond
  \<open>2^53\<close> they lose low bits, but any such offset lies outside the data, so natural numbers give the same slices.
\<close>

section \<open>Implementation\<close>

record PatchAcceptedEvent =
  pa_epoch :: bigint
  pa_miner :: string
  pa_parentStateRoot :: string
  pa_patchHash :: string
  pa_evalReportHash :: string
  pa_compactPatchBytes :: bytes

record EpochFinalizedEvent =
  ef_epoch :: bigint
  ef_parentStateRoot :: string
  ef_patchSetRoot :: string
  ef_newStateRoot :: string
  ef_coreVersionHash :: string
  ef_experienceCorpusRoot :: string

record StateSnapshotEvent =
  ss_epoch :: bigint
  ss_stateRoot :: string
  ss_fullStateBytes :: bytes

definition hexEq :: "string \<Rightarrow> string \<Rightarrow> bool" where
  "hexEq a b \<longleftrightarrow> toLowerCase a = toLowerCase b"

definition readSlice32 :: "bytes \<Rightarrow> nat \<Rightarrow> bytes" where
  "readSlice32 dat offset = take 32 (drop offset dat)"

definition readBigEndian32From :: "bytes \<Rightarrow> nat \<Rightarrow> bigint" where
  "readBigEndian32From dat offset = foldl (\<lambda>result b. push_bit 8 result OR uint (nth_or 0 dat (offset + b))) 0 [0..<32]"

definition decodeAddress :: "string \<Rightarrow> string" where
  "decodeAddress padded =
     (let s = (if take 2 padded = ''0x'' then drop 2 padded else padded)
      in ''0x'' @ toLowerCase (drop (length s - 40) s))"

definition log_data :: "string \<Rightarrow> bytes js" where
  "log_data dat = hexToBytes (if take 2 dat = ''0x'' then dat else ''0x'' @ dat)"

text \<open>The dynamic \<open>bytes\<close> argument whose offset stands at \<open>slot\<close>.\<close>

definition dynamic_bytes :: "bytes \<Rightarrow> nat \<Rightarrow> bytes" where
  "dynamic_bytes dat slot =
     (let dynamicOffset = nat (readBigEndian32From dat slot);
          byteLen = nat (readBigEndian32From dat dynamicOffset)
      in take byteLen (drop (dynamicOffset + 32) dat))"

definition decodePatchAcceptedLog :: "string list \<Rightarrow> string \<Rightarrow> PatchAcceptedEvent js" where
  "decodePatchAcceptedLog topics dat =
     js_bind (js_BigInt (nth_or ''0x0'' topics 1)) (\<lambda>epoch.
     let miner = decodeAddress (nth_or (''0x'' @ replicate 64 (CHR ''0'')) topics 2) in
     js_bind (log_data dat) (\<lambda>dataBytes.
     Inr \<lparr>pa_epoch = epoch, pa_miner = miner,
       pa_parentStateRoot = bytesToHex (readSlice32 dataBytes 0),
       pa_patchHash = bytesToHex (readSlice32 dataBytes 32),
       pa_evalReportHash = bytesToHex (readSlice32 dataBytes 64),
       pa_compactPatchBytes = dynamic_bytes dataBytes 96\<rparr>))"

definition decodeEpochFinalizedLog :: "string list \<Rightarrow> string \<Rightarrow> EpochFinalizedEvent js" where
  "decodeEpochFinalizedLog topics dat =
     js_bind (js_BigInt (nth_or ''0x0'' topics 1)) (\<lambda>epoch.
     js_bind (log_data dat) (\<lambda>dataBytes.
     Inr \<lparr>ef_epoch = epoch,
       ef_parentStateRoot = bytesToHex (readSlice32 dataBytes 0),
       ef_patchSetRoot = bytesToHex (readSlice32 dataBytes 32),
       ef_newStateRoot = bytesToHex (readSlice32 dataBytes 64),
       ef_coreVersionHash = bytesToHex (readSlice32 dataBytes 96),
       ef_experienceCorpusRoot = bytesToHex (readSlice32 dataBytes 128)\<rparr>))"

definition decodeStateSnapshotLog :: "string list \<Rightarrow> string \<Rightarrow> StateSnapshotEvent js" where
  "decodeStateSnapshotLog topics dat =
     js_bind (js_BigInt (nth_or ''0x0'' topics 1)) (\<lambda>epoch.
     js_bind (log_data dat) (\<lambda>dataBytes.
     Inr \<lparr>ss_epoch = epoch, ss_stateRoot = bytesToHex (readSlice32 dataBytes 0),
       ss_fullStateBytes = dynamic_bytes dataBytes 32\<rparr>))"

definition event_eligible :: "string \<Rightarrow> PatchAcceptedEvent \<Rightarrow> bool" where
  "event_eligible rootHex p =
     (if \<not> hexEq (pa_parentStateRoot p) rootHex then False
      else case decodePatch (pa_compactPatchBytes p) of
          Inl _ \<Rightarrow> False
        | Inr patch \<Rightarrow>
            if \<not> hexEq (bytesToHex (parentStateRoot patch)) rootHex then False
            else hexEq (pa_patchHash p) (computePatchHash (pa_compactPatchBytes p)))"

type_synonym decoded_event = "PatchAcceptedEvent \<times> Patch \<times> string"

definition compareDecoded :: "decoded_event \<Rightarrow> decoded_event \<Rightarrow> int" where
  "compareDecoded a b = (case (a, b) of ((_, p, aHash), (_, q, bHash)) \<Rightarrow>
     if scoreDelta p > scoreDelta q then -1
     else if scoreDelta p < scoreDelta q then 1
     else if wordCount p \<noteq> wordCount q then wordCount p - wordCount q
     else if js_string_less aHash bHash then -1 else 1)"

fun replay_loop :: "bool \<Rightarrow> decoded_event list \<Rightarrow> CortexState \<Rightarrow> int list \<Rightarrow> string list \<Rightarrow> CortexState \<times> string list" where
  "replay_loop policyMode [] currentState usedIndices acceptedHashes = (currentState, acceptedHashes)"
| "replay_loop policyMode ((ev, patch, computedPatchHash) # rest) currentState usedIndices acceptedHashes =
     (if list_ex (\<lambda>i. i \<in> set usedIndices) (indices patch) then replay_loop policyMode rest currentState usedIndices acceptedHashes
      else case applyPatchOntoCurrent currentState patch policyMode of
          Inl _ \<Rightarrow> replay_loop policyMode rest currentState usedIndices acceptedHashes
        | Inr state \<Rightarrow> replay_loop policyMode rest state (foldl js_set_add usedIndices (indices patch)) (acceptedHashes @ [computedPatchHash]))"

definition runReducer :: "CortexState \<Rightarrow> PatchAcceptedEvent list \<Rightarrow> bool \<Rightarrow> (CortexState \<times> string list) js" where
  "runReducer parentState patches policyMode =
     js_bind (merkleizeState parentState) (\<lambda>rt.
     let rootHex = bytesToHex rt; elig = filter (event_eligible rootHex) patches in
     js_bind (js_map (\<lambda>ev. js_bind (decodePatch (pa_compactPatchBytes ev)) (\<lambda>patch.
       Inr (ev, patch, computePatchHash (pa_compactPatchBytes ev)))) elig) (\<lambda>decoded.
     Inr (replay_loop policyMode (js_sort compareDecoded decoded) parentState [] [])))"

datatype verify_source = snapshot | genesis

datatype VerifyEpochError = NO_FINALIZED_EVENT | NO_SNAPSHOT_OR_GENESIS | SNAPSHOT_DECODE_ERROR

record VerifyEpochSuccess =
  ve_epoch :: bigint
  ve_reproducedStateRoot :: string
  ve_expectedStateRoot :: string
  ve_match :: bool
  ve_patchesProcessed :: nat
  ve_acceptedPatchHashes :: "string list"
  ve_source :: verify_source

record VerifyEpochInput =
  vi_epoch :: bigint
  vi_finalizedEvent :: "EpochFinalizedEvent option"
  vi_patchEvents :: "PatchAcceptedEvent list"
  vi_snapshotEvent :: "StateSnapshotEvent option"
  vi_genesisState :: "CortexState option"
  vi_policyAtomsMode :: bool

definition start_state :: "VerifyEpochInput \<Rightarrow> VerifyEpochError + CortexState \<times> verify_source" where
  "start_state input = (case vi_snapshotEvent input of
       Some snap \<Rightarrow> (case unpack (ss_fullStateBytes snap) of
           Inl _ \<Rightarrow> Inl SNAPSHOT_DECODE_ERROR
         | Inr s \<Rightarrow> Inr (s, snapshot))
     | None \<Rightarrow> (case vi_genesisState input of
           Some s \<Rightarrow> Inr (s, genesis)
         | None \<Rightarrow> Inl NO_SNAPSHOT_OR_GENESIS))"

definition verifyEpoch :: "VerifyEpochInput \<Rightarrow> (VerifyEpochError + VerifyEpochSuccess) js" where
  "verifyEpoch input = (case vi_finalizedEvent input of
       None \<Rightarrow> Inr (Inl NO_FINALIZED_EVENT)
     | Some fin \<Rightarrow> (case start_state input of
           Inl e \<Rightarrow> Inr (Inl e)
         | Inr (startState, source) \<Rightarrow>
             js_bind (runReducer startState (vi_patchEvents input) (vi_policyAtomsMode input)) (\<lambda>(finalState, acceptedHashes).
             js_bind (merkleizeState finalState) (\<lambda>rt.
             let reproduced = toLowerCase (bytesToHex rt); expected = toLowerCase (ef_newStateRoot fin) in
             Inr (Inr \<lparr>ve_epoch = vi_epoch input, ve_reproducedStateRoot = reproduced, ve_expectedStateRoot = expected,
               ve_match = (reproduced = expected), ve_patchesProcessed = length (vi_patchEvents input),
               ve_acceptedPatchHashes = acceptedHashes, ve_source = source\<rparr>)))))"

section \<open>The replay is the reducer\<close>

lemma hexEq_bytesToHex [simp]: "hexEq (bytesToHex a) (bytesToHex b) \<longleftrightarrow> a = b"
  by (simp add: hexEq_def bytesToHex_inj)

text \<open>The submission that a well-labelled event stands for: its metadata names the parent and the hash of its
  bytes, and the bytes decode.\<close>

definition event_item :: "string \<Rightarrow> PatchAcceptedEvent \<Rightarrow> ReducerInputPatch option" where
  "event_item rootHex ev =
     (if hexEq (pa_parentStateRoot ev) rootHex \<and> hexEq (pa_patchHash ev) (computePatchHash (pa_compactPatchBytes ev))
      then case decodePatch (pa_compactPatchBytes ev) of
          Inl _ \<Rightarrow> None
        | Inr p \<Rightarrow> Some \<lparr>ri_patch = p, ri_patchBytes = pa_compactPatchBytes ev, ri_scoreDelta = scoreDelta p,
            ri_marginalEvaluator = stubMarginalEvaluator\<rparr>
      else None)"

definition triple_item :: "decoded_event \<Rightarrow> ReducerInputPatch" where
  "triple_item = (\<lambda>(ev, p, h). \<lparr>ri_patch = p, ri_patchBytes = pa_compactPatchBytes ev, ri_scoreDelta = scoreDelta p,
     ri_marginalEvaluator = stubMarginalEvaluator\<rparr>)"

definition good_triple :: "decoded_event \<Rightarrow> bool" where
  "good_triple = (\<lambda>(ev, p, h). decodePatch (pa_compactPatchBytes ev) = Inr p \<and> h = computePatchHash (pa_compactPatchBytes ev))"

lemma event_eligible_iff:
  "event_eligible (bytesToHex rt) ev \<longleftrightarrow> (\<exists>x. event_item (bytesToHex rt) ev = Some x \<and> parentStateRoot (ri_patch x) = rt)"
  by (auto simp: event_eligible_def event_item_def split: sum.splits)

lemma event_item_triple:
  "event_item r ev = Some x \<Longrightarrow> \<exists>p. decodePatch (pa_compactPatchBytes ev) = Inr p \<and> x = triple_item (ev, p, h)"
  by (auto simp: event_item_def triple_item_def split: if_splits sum.splits)

lemma decoded_events:
  "\<exists>ts. js_map (\<lambda>ev. js_bind (decodePatch (pa_compactPatchBytes ev)) (\<lambda>p. Inr (ev, p, computePatchHash (pa_compactPatchBytes ev))))
      (filter (event_eligible (bytesToHex rt)) evs) = Inr ts \<and>
    map triple_item ts = eligible rt (List.map_filter (event_item (bytesToHex rt)) evs) \<and> list_all good_triple ts"
proof (induction evs)
  case (Cons ev evs)
  show ?case
  proof (cases "event_item (bytesToHex rt) ev")
    case None
    then show ?thesis using Cons by (simp add: event_eligible_iff List.map_filter_simps)
  next
    case (Some x)
    then obtain p where p: "decodePatch (pa_compactPatchBytes ev) = Inr p"
      "x = triple_item (ev, p, computePatchHash (pa_compactPatchBytes ev))" using event_item_triple by blast
    then show ?thesis
      using Cons Some by (auto simp: event_eligible_iff List.map_filter_simps eligible_def good_triple_def)
  qed
qed (simp add: eligible_def List.map_filter_simps)

lemma compareDecoded_priority:
  assumes "good_triple a" "good_triple b"
  shows "comparePatchPriority (triple_item a) (triple_item b) < 0 \<longleftrightarrow> compareDecoded a b < 0"
  using assms by (auto simp: comparePatchPriority_less triple_item_def compareDecoded_def good_triple_def split: prod.splits)

lemma good_triple_improves: "good_triple (ev, p, h) \<Longrightarrow> 0 \<le> scoreDelta p"
  using decodePatch_spelling(1) by (auto simp: good_triple_def wire_ok_def)

lemma replay_loop_reduce:
  assumes "list_all good_triple ts"
  shows "\<exists>cur' acc' rej'. reduce_loop 0 m (map triple_item ts) cur acc used rej = (cur', acc', rej') \<and>
    replay_loop m ts cur used (map (\<lambda>a. computePatchHash (ap_patchBytes a)) acc) = (cur', map (\<lambda>a. computePatchHash (ap_patchBytes a)) acc')"
  using assms
proof (induction ts arbitrary: cur acc used rej)
  case (Cons t ts)
  obtain ev p h where t: "t = (ev, p, h)" by (cases t)
  have h: "h = computePatchHash (pa_compactPatchBytes ev)" using Cons.prems by (simp add: t good_triple_def)
  have item: "triple_item (ev, p, h') = \<lparr>ri_patch = p, ri_patchBytes = pa_compactPatchBytes ev, ri_scoreDelta = scoreDelta p,
     ri_marginalEvaluator = stubMarginalEvaluator\<rparr>" for h' by (simp add: triple_item_def)
  have gain: "0 \<le> stubMarginalEvaluator cur p"
    using good_triple_improves [of ev p h] Cons.prems by (simp add: stubMarginalEvaluator_def t)
  have ok: "list_all good_triple ts" using Cons.prems by simp
  note IH = Cons.IH [OF ok]
  show ?case
  proof (cases "list_ex (\<lambda>i. i \<in> set used) (indices p)")
    case True
    then show ?thesis using IH [of cur acc used "rej @ _"] by (simp add: item t)
  next
    case False
    show ?thesis
    proof (cases "applyPatchOntoCurrent cur p m")
      case (Inl e)
      then show ?thesis using False gain IH [of cur acc used "rej @ _"] by (simp add: item t evaluateAndApplyOntoCurrent_def)
    next
      case (Inr s)
      let ?a = "\<lparr>ap_patch = p, ap_patchBytes = pa_compactPatchBytes ev, ap_marginalGain = stubMarginalEvaluator cur p,
        ap_acceptanceIndex = length acc\<rparr>"
      show ?thesis
        using False gain Inr IH [of s "acc @ [?a]" "foldl js_set_add used (indices p)" rej]
        by (simp add: item t evaluateAndApplyOntoCurrent_def h)
    qed
  qed
qed simp

lemma runReducer_reduce:
  assumes "wf_state s" "merkleizeState s = Inr rt"
  shows "\<exists>out. reduce s (List.map_filter (event_item (bytesToHex rt)) evs) 0 m = Inr out \<and>
    runReducer s evs m = Inr (ro_newState out, map (\<lambda>a. computePatchHash (ap_patchBytes a)) (ro_accepted out))"
proof -
  let ?items = "List.map_filter (event_item (bytesToHex rt)) evs"
  let ?rej = "map (\<lambda>x. reject x R03_WRONG_PARENT_ROOT) (filter (\<lambda>x. parentStateRoot (ri_patch x) \<noteq> rt) ?items)"
  obtain ts where ts: "js_map (\<lambda>ev. js_bind (decodePatch (pa_compactPatchBytes ev)) (\<lambda>p. Inr (ev, p, computePatchHash (pa_compactPatchBytes ev))))
      (filter (event_eligible (bytesToHex rt)) evs) = Inr ts" "map triple_item ts = eligible rt ?items" "list_all good_triple ts"
    using decoded_events by blast
  have sorted: "js_sort comparePatchPriority (eligible rt ?items) = map triple_item (js_sort compareDecoded ts)"
    unfolding ts(2) [symmetric] by (rule js_sort_map [where P = good_triple]) (simp_all add: compareDecoded_priority ts(3))
  have "list_all good_triple (js_sort compareDecoded ts)" using ts(3) by (simp add: list_all_iff)
  then obtain cur acc rej where loop: "reduce_loop 0 m (js_sort comparePatchPriority (eligible rt ?items)) s [] [] ?rej = (cur, acc, rej)"
    "replay_loop m (js_sort compareDecoded ts) s [] [] = (cur, map (\<lambda>a. computePatchHash (ap_patchBytes a)) acc)"
    using replay_loop_reduce [of "js_sort compareDecoded ts" m s "[]" "[]" ?rej] by (auto simp: sorted)
  have sized: "\<forall>x \<in> set ?items. well_sized (ri_patch x)"
    using decodePatch_spelling(1) decodePatch_u256
    by (fastforce simp: List.map_filter_def event_item_def well_sized_def wire_ok_def split: if_splits sum.splits)
  have "set (js_sort comparePatchPriority (eligible rt ?items)) \<subseteq> set ?items" by (auto simp: eligible_def)
  then have "wf_state cur"
    using reduce_loop_inv [OF loop(1) loop_inv_start] loop_inv_wf [OF _ assms(1) sized] by blast
  then obtain nr where "merkleizeState cur = Inr nr" using merkleizeState_eq [OF wf_state_length] by blast
  then show ?thesis
    using assms(2) loop ts(1)
    by (simp add: reduce_def patchMatchesEpochParent_def eligible_def [symmetric] stableSort_def Let_def runReducer_def)
qed

text \<open>Public replay and the epoch reducer compute the same epoch: on a well-formed start state, for any
  list of chain events, the replay never throws and its state and accepted hashes are those of \<open>reduce\<close>
  run with threshold 0 on exactly the submissions whose metadata is honest; forged hashes, undecodable
  bytes and foreign parents cannot influence it.\<close>

lemma runReducer_is_reduce:
  assumes "wf_state s"
  shows "\<exists>rt out. merkleizeState s = Inr rt \<and>
    reduce s (List.map_filter (event_item (bytesToHex rt)) evs) 0 m = Inr out \<and>
    runReducer s evs m = Inr (ro_newState out, map (\<lambda>a. computePatchHash (ap_patchBytes a)) (ro_accepted out))"
  using runReducer_reduce [OF assms] merkleizeState_eq [OF wf_state_length [OF assms]] by blast

text \<open>The chain's view of a submission.\<close>

definition honest_event :: "bigint \<Rightarrow> string \<Rightarrow> ReducerInputPatch \<Rightarrow> PatchAcceptedEvent" where
  "honest_event epoch miner x = \<lparr>pa_epoch = epoch, pa_miner = miner, pa_parentStateRoot = bytesToHex (parentStateRoot (ri_patch x)),
     pa_patchHash = computePatchHash (ri_patchBytes x), pa_evalReportHash = ''0x'', pa_compactPatchBytes = ri_patchBytes x\<rparr>"

definition wire_item :: "ReducerInputPatch \<Rightarrow> bool" where
  "wire_item x \<longleftrightarrow> decodePatch (ri_patchBytes x) = Inr (ri_patch x) \<and> ri_scoreDelta x = scoreDelta (ri_patch x) \<and>
     ri_marginalEvaluator x = stubMarginalEvaluator"

lemma hexEq_refl [simp]: "hexEq a a" by (simp add: hexEq_def)

lemma honest_event_item:
  "wire_item x \<Longrightarrow> parentStateRoot (ri_patch x) = rt \<Longrightarrow> event_item (bytesToHex rt) (honest_event e w x) = Some x"
  by (simp add: event_item_def honest_event_def wire_item_def)

text \<open>Honest epochs verify: when the submissions of an epoch, all for the start state, are emitted as events, and
  the finalisation event carries the root that \<open>reduce\<close> computed, \<open>verifyEpoch\<close> reports a match, from a
  snapshot of the start state just as from the state itself.\<close>

lemma verifyEpoch_honest:
  assumes "wf_state s" "merkleizeState s = Inr rt" "\<forall>x \<in> set ps. wire_item x \<and> parentStateRoot (ri_patch x) = rt"
    "reduce s ps 0 (vi_policyAtomsMode v) = Inr out" "vi_patchEvents v = map (honest_event (vi_epoch v) w) ps"
    "vi_finalizedEvent v = Some fin" "ef_newStateRoot fin = ro_newStateRootHex out"
    "vi_snapshotEvent v = None \<and> vi_genesisState v = Some s \<or> (\<exists>snap. vi_snapshotEvent v = Some snap \<and> pack s = Inr (ss_fullStateBytes snap))"
  shows "\<exists>r. verifyEpoch v = Inr (Inr r) \<and> ve_match r \<and>
    ve_acceptedPatchHashes r = map (\<lambda>a. computePatchHash (ap_patchBytes a)) (ro_accepted out)"
proof -
  have items: "List.map_filter (event_item (bytesToHex rt)) (map (honest_event (vi_epoch v) w) ps) = ps"
    using assms(3) by (induction ps) (simp_all add: List.map_filter_simps honest_event_item)
  have run: "runReducer s (vi_patchEvents v) (vi_policyAtomsMode v)
      = Inr (ro_newState out, map (\<lambda>a. computePatchHash (ap_patchBytes a)) (ro_accepted out))"
    using runReducer_reduce [OF assms(1,2), of "map (honest_event (vi_epoch v) w) ps" "vi_policyAtomsMode v"] assms(4,5) by (auto simp: items)
  have start: "\<exists>src. start_state v = Inr (s, src)"
    using assms(8) unpack_packed [OF assms(1)] by (auto simp: start_state_def)
  have root: "merkleizeState (ro_newState out) = Inr (ro_newStateRoot out)" "ro_newStateRootHex out = bytesToHex (ro_newStateRoot out)"
    using reduce_inv(2) [OF wf_state_length [OF assms(1)] assms(4)] reduce_Inr [OF wf_state_length [OF assms(1)], of ps 0 "vi_policyAtomsMode v" out] assms(4) by auto
  show ?thesis using start run root assms(6,7) by (auto simp: verifyEpoch_def Let_def)
qed

lemma length_top: "a \<noteq> [] \<Longrightarrow> \<forall>x \<in> set a. length x = 32 \<Longrightarrow> length (last (build_levels a) ! 0) = 32"
proof (induction a rule: build_levels.induct)
  case (1 level)
  show ?case
  proof (cases "1 < length level")
    case True
    then have "next_level level \<noteq> []" "\<forall>x \<in> set (next_level level). length x = 32"
      by (auto simp: next_level_def node_hash_def)
    then show ?thesis using 1 True by (simp add: build_levels_rec)
  next
    case False
    then show ?thesis using 1 by (auto simp: build_levels_leaf)
  qed
qed

lemma length_root: "merkleizeState s = Inr rt \<Longrightarrow> length (words s) = WORD_COUNT \<Longrightarrow> length rt = 32"
  using length_top [of "map leaf_hash (words s)"] by (cases "words s = []") (simp_all add: merkleizeState_eq)

definition demo_wire_item :: "bytes \<Rightarrow> ReducerInputPatch" where
  "demo_wire_item rt = \<lparr>ri_patch = slot_patch rt, ri_patchBytes = patch_bytes (slot_patch rt), ri_scoreDelta = 10,
     ri_marginalEvaluator = stubMarginalEvaluator\<rparr>"

lemma demo_wire_item_ok:
  assumes "length rt = 32"
  shows "wire_item (demo_wire_item rt)" "parentStateRoot (ri_patch (demo_wire_item rt)) = rt"
proof -
  have "validatePatchType (patchType (slot_patch rt)) (indices (slot_patch rt))"
    by (rule applyPatchOntoCurrent_valid [OF slot_patch_applies])
  then have "wire_ok (slot_patch rt)" using assms by (simp add: wire_ok_def slot_patch_def)
  moreover have "list_all u256 (newWords (slot_patch rt))" using slot_patch_sized [of rt] by (simp add: well_sized_def)
  ultimately show "wire_item (demo_wire_item rt)"
    using decodePatch_patch_bytes by (simp add: wire_item_def demo_wire_item_def) (simp add: slot_patch_def)
qed (simp add: demo_wire_item_def slot_patch_def)

definition demo_epoch :: "bytes \<Rightarrow> string \<Rightarrow> VerifyEpochInput" where
  "demo_epoch rt newRoot = \<lparr>vi_epoch = 3, vi_finalizedEvent = Some \<lparr>ef_epoch = 3, ef_parentStateRoot = ''0x'', ef_patchSetRoot = ''0x'',
     ef_newStateRoot = newRoot, ef_coreVersionHash = ''0x'', ef_experienceCorpusRoot = ''0x''\<rparr>,
     vi_patchEvents = [honest_event 3 ''0xm'' (demo_wire_item rt)], vi_snapshotEvent = None, vi_genesisState = Some zero_state,
     vi_policyAtomsMode = True\<rparr>"

section \<open>Logs\<close>

lemma readBigEndian32From_eq: "offset + 32 \<le> length bs \<Longrightarrow> readBigEndian32From bs offset = be_val (take 32 (drop offset bs))"
  by (simp only: readBigEndian32From_def readBigEndian32_def [symmetric] readBigEndian32_eq)

lemma log_data_bytes: "log_data (bytesToHex bs) = Inr bs"
  by (simp add: log_data_def hexToBytes_bytesToHex) (simp add: bytesToHex_eq)

lemma decodeAddress_padded: "length a = 20 \<Longrightarrow> decodeAddress (bytesToHex (replicate 12 0 @ a)) = bytesToHex a"
proof -
  assume len: "length a = 20"
  have "toLowerCase (concat (map byte_hex a)) = concat (map byte_hex a)"
    using toLowerCase_bytesToHex [of a] by (simp add: bytesToHex_eq toLowerCase_def)
  moreover have "drop 24 (concat (map byte_hex (replicate 12 0 @ a))) = concat (map byte_hex a)"
    using length_concat_byte_hex [of "replicate 12 0"] by simp
  ultimately show ?thesis using len by (simp add: decodeAddress_def bytesToHex_eq del: map_append concat_append)
qed

text \<open>The ABI layout of a log's data: static words, then the offset of the dynamic part, its length, its bytes and padding.\<close>

definition abi_log :: "bytes list \<Rightarrow> bytes \<Rightarrow> nat \<Rightarrow> bytes" where
  "abi_log heads payload pad = concat heads @ be_bytes 32 (int (length heads + 1) * 32) @ be_bytes 32 (int (length payload)) @ payload @ replicate pad 0"

lemma dynamic_bytes_abi:
  assumes "\<forall>h \<in> set heads. length h = 32" "length heads < 100" "int (length payload) < 2 ^ 256"
  shows "dynamic_bytes (abi_log heads payload pad) (length heads * 32) = payload"
proof -
  have len: "length (concat heads) = length heads * 32" using assms(1) by (induction heads) auto
  have off: "readBigEndian32From (abi_log heads payload pad) (length heads * 32) = int (length heads + 1) * 32"
    using assms(2) by (simp add: readBigEndian32From_eq abi_log_def len be_val_be_bytes del: be_bytes.simps)
  have "readBigEndian32From (abi_log heads payload pad) ((length heads + 1) * 32) = int (length payload)"
    using assms(3) by (simp add: readBigEndian32From_eq abi_log_def len be_val_be_bytes del: be_bytes.simps)
  moreover have "nat (int (length heads + 1) * 32) = (length heads + 1) * 32" by linarith
  ultimately have "dynamic_bytes (abi_log heads payload pad) (length heads * 32)
      = take (length payload) (drop ((length heads + 1) * 32 + 32) (abi_log heads payload pad))"
    unfolding dynamic_bytes_def Let_def off by simp
  then show ?thesis by (simp add: abi_log_def len)
qed

lemma readSlice32_abi:
  assumes "\<forall>h \<in> set heads. length h = 32" "k < length heads"
  shows "readSlice32 (concat heads @ rest) (k * 32) = heads ! k"
  using assms
proof (induction heads arbitrary: k)
  case (Cons h heads)
  then show ?case by (cases k) (simp_all add: readSlice32_def)
qed simp

text \<open>The hand-written log decoders read what the contracts emit: the ABI encoding of an accepted patch, a finalised
  epoch or a state snapshot, with any padding, decodes to the emitted values.\<close>

lemma log_round_trips:
  assumes "0 \<le> epoch" "epoch < 2 ^ 256" "length miner = 20" "\<forall>h \<in> set [a, b, c, d, e]. length h = 32" "int (length payload) < 2 ^ 256"
  shows "decodePatchAcceptedLog [sig, bytesToHex (be_bytes 32 epoch), bytesToHex (replicate 12 0 @ miner)] (bytesToHex (abi_log [a, b, c] payload pad))
      = Inr \<lparr>pa_epoch = epoch, pa_miner = bytesToHex miner, pa_parentStateRoot = bytesToHex a, pa_patchHash = bytesToHex b,
          pa_evalReportHash = bytesToHex c, pa_compactPatchBytes = payload\<rparr> \<and>
    decodeEpochFinalizedLog [sig, bytesToHex (be_bytes 32 epoch)] (bytesToHex (concat [a, b, c, d, e]))
      = Inr \<lparr>ef_epoch = epoch, ef_parentStateRoot = bytesToHex a, ef_patchSetRoot = bytesToHex b, ef_newStateRoot = bytesToHex c,
          ef_coreVersionHash = bytesToHex d, ef_experienceCorpusRoot = bytesToHex e\<rparr> \<and>
    decodeStateSnapshotLog [sig, bytesToHex (be_bytes 32 epoch)] (bytesToHex (abi_log [a] payload pad))
      = Inr \<lparr>ss_epoch = epoch, ss_stateRoot = bytesToHex a, ss_fullStateBytes = payload\<rparr>"
proof -
  have "be_bytes 32 epoch \<noteq> []" by (metis length_be_bytes list.size(3) zero_neq_numeral)
  then have ep: "js_BigInt (bytesToHex (be_bytes 32 epoch)) = Inr epoch"
    using assms(1,2) by (simp add: js_BigInt_bytesToHex be_val_be_bytes del: be_bytes.simps)
  have s3: "readSlice32 (abi_log [a, b, c] payload pad) 0 = a" "readSlice32 (abi_log [a, b, c] payload pad) 32 = b"
    "readSlice32 (abi_log [a, b, c] payload pad) 64 = c"
    using assms(4) readSlice32_abi [of "[a, b, c]" 0] readSlice32_abi [of "[a, b, c]" 1] readSlice32_abi [of "[a, b, c]" 2]
    by (simp_all add: abi_log_def)
  have s1: "readSlice32 (abi_log [a] payload pad) 0 = a"
    using assms(4) readSlice32_abi [of "[a]" 0] by (simp add: abi_log_def)
  have s5: "readSlice32 (concat [a, b, c, d, e]) 0 = a" "readSlice32 (concat [a, b, c, d, e]) 32 = b"
    "readSlice32 (concat [a, b, c, d, e]) 64 = c" "readSlice32 (concat [a, b, c, d, e]) 96 = d" "readSlice32 (concat [a, b, c, d, e]) 128 = e"
    using assms(4) by (simp_all add: readSlice32_def)
  have dyn: "dynamic_bytes (abi_log [a, b, c] payload pad) 96 = payload" "dynamic_bytes (abi_log [a] payload pad) 32 = payload"
    using dynamic_bytes_abi [of "[a, b, c]" payload pad] dynamic_bytes_abi [of "[a]" payload pad] assms(4,5) by simp_all
  have "decodePatchAcceptedLog [sig, bytesToHex (be_bytes 32 epoch), bytesToHex (replicate 12 0 @ miner)] (bytesToHex (abi_log [a, b, c] payload pad))
      = Inr \<lparr>pa_epoch = epoch, pa_miner = bytesToHex miner, pa_parentStateRoot = bytesToHex a, pa_patchHash = bytesToHex b,
          pa_evalReportHash = bytesToHex c, pa_compactPatchBytes = payload\<rparr>"
    unfolding decodePatchAcceptedLog_def by (simp add: nth_or_def ep log_data_bytes s3 dyn decodeAddress_padded assms(3) del: be_bytes.simps)
  moreover have "decodeEpochFinalizedLog [sig, bytesToHex (be_bytes 32 epoch)] (bytesToHex (concat [a, b, c, d, e]))
      = Inr \<lparr>ef_epoch = epoch, ef_parentStateRoot = bytesToHex a, ef_patchSetRoot = bytesToHex b, ef_newStateRoot = bytesToHex c,
          ef_coreVersionHash = bytesToHex d, ef_experienceCorpusRoot = bytesToHex e\<rparr>"
    unfolding decodeEpochFinalizedLog_def by (simp add: nth_or_def ep log_data_bytes s5 del: be_bytes.simps concat.simps)
  moreover have "decodeStateSnapshotLog [sig, bytesToHex (be_bytes 32 epoch)] (bytesToHex (abi_log [a] payload pad))
      = Inr \<lparr>ss_epoch = epoch, ss_stateRoot = bytesToHex a, ss_fullStateBytes = payload\<rparr>"
    unfolding decodeStateSnapshotLog_def by (simp add: nth_or_def ep log_data_bytes s1 dyn del: be_bytes.simps)
  ultimately show ?thesis by blast
qed

end
