(* ===== verification/RegistryReplay.thy ===== *)
theory RegistryReplay
  imports VerifyEpoch
begin

text \<open>
  Replay of the registry contract's logs: \<open>packages/coretex/src/replay/coretex-registry.ts\<close>. State advances are
  decoded, ordered by epoch and transition index and applied from a parent state; every label of every event is
  checked. Offsets and lengths read from log data are numbers: beyond \<open>2^53\<close> they are rounded, but any such
  offset lies outside the data, so natural numbers give the same slices. Message texts are not modelled.
\<close>

section \<open>Implementation\<close>

record RpcLog =
  rl_address :: "string option"
  rl_topics :: "string list"
  rl_data :: string
  rl_blockNumber :: "string option"
  rl_transactionHash :: "string option"
  rl_logIndex :: "string option"

definition SIG_STATE_ADVANCED :: string where
  "SIG_STATE_ADVANCED = ''CoreTexStateAdvanced(uint64,uint64,address,bytes32,bytes32,bytes32,bytes32,bytes32,bytes32,bytes32,uint256,uint16,bytes)''"

definition SIG_EPOCH_FINALIZED :: string where
  "SIG_EPOCH_FINALIZED = ''CoreTexEpochFinalized(uint64,bytes32,bytes32,bytes32,bytes32,bytes32,bytes32,bytes32,bytes32)''"

definition eventTopic :: "string \<Rightarrow> string" where
  "eventTopic sig = bytesToHex (keccak256 (utf8 sig))"

definition TOPIC_STATE_ADVANCED :: string where
  "TOPIC_STATE_ADVANCED = eventTopic SIG_STATE_ADVANCED"

definition TOPIC_EPOCH_FINALIZED :: string where
  "TOPIC_EPOCH_FINALIZED = eventTopic SIG_EPOCH_FINALIZED"

record CoreTexStateAdvancedEvent =
  ca_epoch :: bigint
  ca_transitionIndex :: bigint
  ca_miner :: string
  ca_parentStateRoot :: string
  ca_newStateRoot :: string
  ca_patchHash :: string
  ca_evalReportHash :: string
  ca_coreVersionHash :: string
  ca_corpusRoot :: string
  ca_activeFrontierRoot :: string
  ca_improvementCredits :: bigint
  ca_wordCount :: int
  ca_compactPatchBytes :: bytes

record CoreTexEpochFinalizedEvent =
  cf_epoch :: bigint
  cf_parentStateRoot :: string
  cf_finalStateRoot :: string
  cf_coreVersionHash :: string
  cf_corpusRoot :: string
  cf_activeFrontierRoot :: string
  cf_patchSetRoot :: string
  cf_scoreRoot :: string
  cf_baselineManifestHash :: string

definition eqHex :: "string option \<Rightarrow> string \<Rightarrow> bool" where
  "eqHex a b \<longleftrightarrow> toLowerCase (case a of None \<Rightarrow> [] | Some a \<Rightarrow> a) = toLowerCase b"

definition data_word :: "bytes \<Rightarrow> nat \<Rightarrow> string" where
  "data_word dat i = bytesToHex (take 32 (drop (i * 32) dat))"

text \<open>\<open>wordNum(data, off / 32)\<close>: the index is scaled by 32 again, which gives back the byte offset.\<close>

definition wordNum_at :: "bytes \<Rightarrow> nat \<Rightarrow> bigint" where
  "wordNum_at dat off = foldl (\<lambda>v j. push_bit 8 v OR uint (nth_or 0 dat (off + j))) 0 [0..<32]"

definition wordNum :: "bytes \<Rightarrow> nat \<Rightarrow> bigint" where
  "wordNum dat i = wordNum_at dat (i * 32)"

definition topicBig :: "string option \<Rightarrow> bigint js" where
  "topicBig t = js_BigInt (case t of None \<Rightarrow> ''0x0'' | Some t \<Rightarrow> t)"

definition topicAddr :: "string option \<Rightarrow> string" where
  "topicAddr t =
     (let t = (case t of None \<Rightarrow> ''0x'' @ replicate 64 (CHR ''0'') | Some t \<Rightarrow> t);
          h = (if take 2 t = ''0x'' then drop 2 t else t)
      in ''0x'' @ toLowerCase (drop (length h - 40) h))"

text \<open>\<open>Number(n)\<close> of a non-negative big integer: 53 significant bits, ties to even.\<close>

fun bit_length :: "nat \<Rightarrow> nat" where
  "bit_length n = (if n = 0 then 0 else Suc (bit_length (n div 2)))"

declare bit_length.simps [simp del]

definition js_Number :: "bigint \<Rightarrow> int" where
  "js_Number n =
     (let e = bit_length (nat n) - 53; q = drop_bit e n; r = take_bit e n;
          up = (2 * r > 2 ^ e \<or> 2 * r = 2 ^ e \<and> 0 < e \<and> odd q)
      in push_bit e (if up then q + 1 else q))"

definition decodeCoreTexStateAdvanced :: "RpcLog \<Rightarrow> CoreTexStateAdvancedEvent option js" where
  "decodeCoreTexStateAdvanced lg =
     (if \<not> eqHex (nth_opt (rl_topics lg) 0) TOPIC_STATE_ADVANCED then Inr None
      else js_bind (hexToBytes (rl_data lg)) (\<lambda>d.
        let off = nat (wordNum d 9);
            len = nat (wordNum_at d off);
            start = off + 32 in
        js_bind (topicBig (nth_opt (rl_topics lg) 1)) (\<lambda>epoch.
        js_bind (topicBig (nth_opt (rl_topics lg) 2)) (\<lambda>transitionIndex.
        Inr (Some \<lparr>ca_epoch = epoch, ca_transitionIndex = transitionIndex, ca_miner = topicAddr (nth_opt (rl_topics lg) 3),
          ca_parentStateRoot = data_word d 0, ca_newStateRoot = data_word d 1, ca_patchHash = data_word d 2,
          ca_evalReportHash = data_word d 3, ca_coreVersionHash = data_word d 4, ca_corpusRoot = data_word d 5,
          ca_activeFrontierRoot = data_word d 6, ca_improvementCredits = wordNum d 7, ca_wordCount = js_Number (wordNum d 8),
          ca_compactPatchBytes = take len (drop start d)\<rparr>)))))"

definition decodeCoreTexEpochFinalized :: "RpcLog \<Rightarrow> CoreTexEpochFinalizedEvent option js" where
  "decodeCoreTexEpochFinalized lg =
     (if \<not> eqHex (nth_opt (rl_topics lg) 0) TOPIC_EPOCH_FINALIZED then Inr None
      else js_bind (hexToBytes (rl_data lg)) (\<lambda>d.
        js_bind (topicBig (nth_opt (rl_topics lg) 1)) (\<lambda>epoch.
        Inr (Some \<lparr>cf_epoch = epoch, cf_parentStateRoot = data_word d 0, cf_finalStateRoot = data_word d 1,
          cf_coreVersionHash = data_word d 2, cf_corpusRoot = data_word d 3, cf_activeFrontierRoot = data_word d 4,
          cf_patchSetRoot = data_word d 5, cf_scoreRoot = data_word d 6, cf_baselineManifestHash = data_word d 7\<rparr>))))"

datatype replay_code = STATE_PARENT_MISMATCH | PATCH_HASH_MISMATCH | APPLY_FAILED | NEW_ROOT_MISMATCH | CORE_VERSION_MISMATCH
  | OUT_OF_ORDER | CORPUS_ROOT_MISMATCH | ACTIVE_FRONTIER_ROOT_MISMATCH | BASELINE_MANIFEST_HASH_MISMATCH
  | HIDDEN_SEED_COMMIT_MISMATCH | FINAL_ROOT_MISMATCH | NO_PATCH_BYTES

record CoreTexReplayResult =
  rr_ok :: bool
  rr_code :: "replay_code option"
  rr_transitions :: int
  rr_reproducedFinalRoot :: "string option"
  rr_onChainFinalRoot :: "string option"

definition replay_fail :: "replay_code \<Rightarrow> int \<Rightarrow> CoreTexReplayResult" where
  "replay_fail code n = \<lparr>rr_ok = False, rr_code = Some code, rr_transitions = n, rr_reproducedFinalRoot = None, rr_onChainFinalRoot = None\<rparr>"

definition cmpBig :: "bigint \<Rightarrow> bigint \<Rightarrow> int" where
  "cmpBig a b = (if a < b then -1 else if a > b then 1 else 0)"

definition compareAdvances :: "CoreTexStateAdvancedEvent \<Rightarrow> CoreTexStateAdvancedEvent \<Rightarrow> int" where
  "compareAdvances a b =
     (let c = cmpBig (ca_epoch a) (ca_epoch b) in if c \<noteq> 0 then c else cmpBig (ca_transitionIndex a) (ca_transitionIndex b))"

definition compareFinalized :: "CoreTexEpochFinalizedEvent \<Rightarrow> CoreTexEpochFinalizedEvent \<Rightarrow> int" where
  "compareFinalized a b = cmpBig (cf_epoch a) (cf_epoch b)"

record ResolvedEpochPins =
  pin_coreVersionHash :: "string option"
  pin_corpusRoot :: "string option"
  pin_activeFrontierRoot :: "string option"
  pin_baselineManifestHash :: "string option"

record ReplayOptions =
  op_expectedBundleHash :: "string option"
  op_expectedCorpusRoot :: "string option"
  op_expectedActiveFrontierRoot :: "string option"
  op_expectedBaselineManifestHash :: "string option"
  op_expectedHiddenSeedCommit :: "string option"
  op_expectedPinsForEpoch :: "(bigint \<Rightarrow> ResolvedEpochPins option) option"
  op_policyAtomsMode :: bool

definition truthy :: "string option \<Rightarrow> string option" where
  "truthy s = (if s = Some [] then None else s)"

definition resolveEpochPins :: "ReplayOptions \<Rightarrow> bigint \<Rightarrow> ResolvedEpochPins" where
  "resolveEpochPins opts epoch =
     (case (case op_expectedPinsForEpoch opts of None \<Rightarrow> None | Some f \<Rightarrow> f epoch) of
        Some perEpoch \<Rightarrow> perEpoch
      | None \<Rightarrow> \<lparr>pin_coreVersionHash = truthy (op_expectedBundleHash opts), pin_corpusRoot = truthy (op_expectedCorpusRoot opts),
          pin_activeFrontierRoot = truthy (op_expectedActiveFrontierRoot opts),
          pin_baselineManifestHash = truthy (op_expectedBaselineManifestHash opts)\<rparr>)"

text \<open>\<open>pins.x && !eqHex(v, pins.x)\<close>.\<close>

definition pin_mismatch :: "string option \<Rightarrow> string \<Rightarrow> bool" where
  "pin_mismatch pin v = (case truthy pin of None \<Rightarrow> False | Some p \<Rightarrow> \<not> eqHex (Some v) p)"

definition checkFinalizedPins :: "CoreTexEpochFinalizedEvent \<Rightarrow> ResolvedEpochPins \<Rightarrow> int \<Rightarrow> CoreTexReplayResult option" where
  "checkFinalizedPins finalized pins transitions =
     (if pin_mismatch (pin_coreVersionHash pins) (cf_coreVersionHash finalized) then Some (replay_fail CORE_VERSION_MISMATCH transitions)
      else if pin_mismatch (pin_corpusRoot pins) (cf_corpusRoot finalized) then Some (replay_fail CORPUS_ROOT_MISMATCH transitions)
      else if pin_mismatch (pin_activeFrontierRoot pins) (cf_activeFrontierRoot finalized) then Some (replay_fail ACTIVE_FRONTIER_ROOT_MISMATCH transitions)
      else if pin_mismatch (pin_baselineManifestHash pins) (cf_baselineManifestHash finalized)
        then Some (replay_fail BASELINE_MANIFEST_HASH_MISMATCH transitions)
      else None)"

fun registry_loop :: "ReplayOptions \<Rightarrow> CoreTexStateAdvancedEvent list \<Rightarrow> CortexState \<Rightarrow> string \<Rightarrow> nat \<Rightarrow> (bigint \<rightharpoonup> bigint)
    \<Rightarrow> (CoreTexReplayResult + CortexState \<times> string) js" where
  "registry_loop opts [] state rootHex transitions expectedIdxByEpoch = Inr (Inr (state, rootHex))"
| "registry_loop opts (adv # rest) state rootHex transitions expectedIdxByEpoch =
     (let expectedIdx = (case expectedIdxByEpoch (ca_epoch adv) of None \<Rightarrow> 0 | Some i \<Rightarrow> i);
          n = js_Number (ca_transitionIndex adv);
          advPins = resolveEpochPins opts (ca_epoch adv) in
      if ca_transitionIndex adv \<noteq> expectedIdx then Inr (Inl (replay_fail OUT_OF_ORDER (int transitions)))
      else if pin_mismatch (pin_coreVersionHash advPins) (ca_coreVersionHash adv) then Inr (Inl (replay_fail CORE_VERSION_MISMATCH n))
      else if pin_mismatch (pin_corpusRoot advPins) (ca_corpusRoot adv) then Inr (Inl (replay_fail CORPUS_ROOT_MISMATCH n))
      else if pin_mismatch (pin_activeFrontierRoot advPins) (ca_activeFrontierRoot adv) then Inr (Inl (replay_fail ACTIVE_FRONTIER_ROOT_MISMATCH n))
      else if \<not> eqHex (Some (ca_parentStateRoot adv)) rootHex then Inr (Inl (replay_fail STATE_PARENT_MISMATCH n))
      else if ca_compactPatchBytes adv = [] then Inr (Inl (replay_fail NO_PATCH_BYTES n))
      else if \<not> eqHex (Some (computePatchHash (ca_compactPatchBytes adv))) (ca_patchHash adv) then Inr (Inl (replay_fail PATCH_HASH_MISMATCH n))
      else js_bind (decodePatch (ca_compactPatchBytes adv)) (\<lambda>patch.
        js_bind (applyPatch state patch (op_policyAtomsMode opts)) (\<lambda>res. case res of
            Inl _ \<Rightarrow> Inr (Inl (replay_fail APPLY_FAILED n))
          | Inr state' \<Rightarrow> js_bind (merkleizeState state') (\<lambda>rt.
              let newRoot = bytesToHex rt in
              if \<not> eqHex (Some newRoot) (ca_newStateRoot adv) then Inr (Inl (replay_fail NEW_ROOT_MISMATCH n))
              else registry_loop opts rest state' newRoot (transitions + 1) (expectedIdxByEpoch(ca_epoch adv \<mapsto> expectedIdx + 1))))))"

definition present :: "'a option list \<Rightarrow> 'a list" where
  "present xs = List.map_filter id xs"

definition last_opt :: "'a list \<Rightarrow> 'a option" where
  "last_opt xs = (if xs = [] then None else Some (last xs))"

definition replayCoreTexFromLogs :: "CortexState \<Rightarrow> RpcLog list \<Rightarrow> ReplayOptions \<Rightarrow> CoreTexReplayResult js" where
  "replayCoreTexFromLogs parentState logs opts =
     js_bind (js_map decodeCoreTexStateAdvanced logs) (\<lambda>advs.
     let advances = js_sort compareAdvances (present advs) in
     js_bind (js_map decodeCoreTexEpochFinalized logs) (\<lambda>fins.
     let finalized = last_opt (js_sort compareFinalized (present fins)) in
     js_bind (merkleizeState parentState) (\<lambda>rt.
     js_bind (registry_loop opts advances parentState (bytesToHex rt) 0 Map.empty) (\<lambda>res. Inr (case res of
         Inl failure \<Rightarrow> failure
       | Inr (state, rootHex) \<Rightarrow>
           (case finalized of
              None \<Rightarrow> \<lparr>rr_ok = True, rr_code = None, rr_transitions = int (length advances), rr_reproducedFinalRoot = Some rootHex,
                rr_onChainFinalRoot = None\<rparr>
            | Some fin \<Rightarrow>
                (case checkFinalizedPins fin (resolveEpochPins opts (cf_epoch fin)) (int (length advances)) of
                   Some failure \<Rightarrow> failure
                 | None \<Rightarrow> if \<not> eqHex (Some (cf_finalStateRoot fin)) rootHex
                     then (replay_fail FINAL_ROOT_MISMATCH (int (length advances)))\<lparr>rr_reproducedFinalRoot := Some rootHex,
                       rr_onChainFinalRoot := Some (cf_finalStateRoot fin)\<rparr>
                     else \<lparr>rr_ok = True, rr_code = None, rr_transitions = int (length advances), rr_reproducedFinalRoot = Some rootHex,
                       rr_onChainFinalRoot = Some (cf_finalStateRoot fin)\<rparr>)))))))"

section \<open>The chain as a step relation\<close>

text \<open>What the registry promises of a sequence of advances: each one carries the next index of its epoch, the pins of
  its epoch, the true roots before and after, and a decodable patch for that parent with the right hash.\<close>

definition pins_match :: "ResolvedEpochPins \<Rightarrow> CoreTexStateAdvancedEvent \<Rightarrow> bool" where
  "pins_match pins a \<longleftrightarrow> \<not> pin_mismatch (pin_coreVersionHash pins) (ca_coreVersionHash a) \<and>
     \<not> pin_mismatch (pin_corpusRoot pins) (ca_corpusRoot a) \<and> \<not> pin_mismatch (pin_activeFrontierRoot pins) (ca_activeFrontierRoot a)"

inductive registry_step :: "ReplayOptions \<Rightarrow> CoreTexStateAdvancedEvent \<Rightarrow> CortexState \<times> (bigint \<rightharpoonup> bigint) \<Rightarrow> CortexState \<times> (bigint \<rightharpoonup> bigint) \<Rightarrow> bool"
  for opts a where
  advance: "registry_step opts a (s, nxt) (s', nxt(ca_epoch a \<mapsto> ca_transitionIndex a + 1))"
  if "ca_transitionIndex a = (case nxt (ca_epoch a) of None \<Rightarrow> 0 | Some i \<Rightarrow> i)" "pins_match (resolveEpochPins opts (ca_epoch a)) a"
    "merkleizeState s = Inr rt" "eqHex (Some (ca_parentStateRoot a)) (bytesToHex rt)"
    "eqHex (Some (computePatchHash (ca_compactPatchBytes a))) (ca_patchHash a)"
    "decodePatch (ca_compactPatchBytes a) = Inr p" "parentStateRoot p = rt"
    "applyPatchOntoCurrent s p (op_policyAtomsMode opts) = Inr s'" "merkleizeState s' = Inr rt'" "eqHex (Some (bytesToHex rt')) (ca_newStateRoot a)"

inductive registry_run :: "ReplayOptions \<Rightarrow> CoreTexStateAdvancedEvent list \<Rightarrow> CortexState \<times> (bigint \<rightharpoonup> bigint) \<Rightarrow> CortexState \<times> (bigint \<rightharpoonup> bigint) \<Rightarrow> bool"
  for opts where
  stop: "registry_run opts [] c c"
| step: "registry_step opts a c c' \<Longrightarrow> registry_run opts as c' c'' \<Longrightarrow> registry_run opts (a # as) c c''"

inductive_cases registry_stepE: "registry_step opts a (s, nxt) c'"
inductive_cases registry_run_ConsE: "registry_run opts (a # as) c c''"
inductive_cases registry_run_NilE: "registry_run opts [] c c''"
inductive_simps registry_run_simps: "registry_run opts [] c c''" "registry_run opts (a # as) c c''"

lemma decodePatch_not_Nil: "decodePatch [] = Inr p \<longleftrightarrow> False"
  by (simp add: decodePatch_def)

lemma applyPatch_accepts:
  assumes "length (words s) = WORD_COUNT" "merkleizeState s = Inr rt"
  shows "applyPatch s p pm = Inr (Inr s') \<longleftrightarrow> parentStateRoot p = rt \<and> applyPatchOntoCurrent s p pm = Inr s'"
proof -
  have "applyPatchOntoCurrent s p pm = Inl E03" if "wordCount p < 1 \<or> wordCount p > 4"
    using that by (simp add: applyPatchOntoCurrent_def)
  then show ?thesis using applyPatch_eq [OF assms(1), of p pm] assms(2) by (cases "wordCount p < 1 \<or> wordCount p > 4") auto
qed

lemma decodePatch_well_sized: "decodePatch bs = Inr p \<Longrightarrow> well_sized p"
  using decodePatch_spelling [of bs p] decodePatch_u256 [of bs p] by (simp add: wire_ok_def well_sized_def)

lemma applied_wf: "wf_state s \<Longrightarrow> decodePatch bs = Inr p \<Longrightarrow> applyPatchOntoCurrent s p pm = Inr s' \<Longrightarrow> wf_state s'"
  using store.keeps_inv decodePatch_well_sized by blast

lemma pins_match_iff:
  "pins_match pins a \<Longrightarrow> \<not> pin_mismatch (pin_coreVersionHash pins) (ca_coreVersionHash a)"
  "pins_match pins a \<Longrightarrow> \<not> pin_mismatch (pin_corpusRoot pins) (ca_corpusRoot a)"
  "pins_match pins a \<Longrightarrow> \<not> pin_mismatch (pin_activeFrontierRoot pins) (ca_activeFrontierRoot a)"
  by (simp_all add: pins_match_def)

text \<open>The loop accepts exactly the runs of the step relation.\<close>

lemma registry_loop_step:
  assumes "registry_step opts a (s, nxt) (s', nxt')" "wf_state s" "merkleizeState s = Inr rt"
  shows "\<exists>rt'. merkleizeState s' = Inr rt' \<and> wf_state s' \<and>
    registry_loop opts (a # as) s (bytesToHex rt) n nxt = registry_loop opts as s' (bytesToHex rt') (n + 1) nxt'"
proof -
  obtain p rt' where st: "ca_transitionIndex a = (case nxt (ca_epoch a) of None \<Rightarrow> 0 | Some i \<Rightarrow> i)" "pins_match (resolveEpochPins opts (ca_epoch a)) a"
      "eqHex (Some (ca_parentStateRoot a)) (bytesToHex rt)" "eqHex (Some (computePatchHash (ca_compactPatchBytes a))) (ca_patchHash a)"
      "decodePatch (ca_compactPatchBytes a) = Inr p" "parentStateRoot p = rt" "applyPatchOntoCurrent s p (op_policyAtomsMode opts) = Inr s'"
      "merkleizeState s' = Inr rt'" "eqHex (Some (bytesToHex rt')) (ca_newStateRoot a)" "nxt' = nxt(ca_epoch a \<mapsto> ca_transitionIndex a + 1)"
    using assms(1,3) by (auto elim!: registry_stepE)
  have ap: "applyPatch s p (op_policyAtomsMode opts) = Inr (Inr s')"
    using applyPatch_accepts [OF wf_state_length [OF assms(2)] assms(3)] st by simp
  have ne: "ca_compactPatchBytes a \<noteq> []" using st(5) decodePatch_not_Nil by metis
  have "wf_state s'" using applied_wf [OF assms(2)] st by blast
  moreover have "registry_loop opts (a # as) s (bytesToHex rt) n nxt = registry_loop opts as s' (bytesToHex rt') (n + 1) nxt'"
    unfolding registry_loop.simps Let_def using st pins_match_iff [OF st(2)] ap ne by simp
  ultimately show ?thesis using st by blast
qed

lemma registry_loop_complete:
  assumes "registry_run opts as c c'"
  shows "c = (s, nxt) \<Longrightarrow> c' = (t, nxt') \<Longrightarrow> wf_state s \<Longrightarrow> merkleizeState s = Inr rt \<Longrightarrow>
    \<exists>rt'. merkleizeState t = Inr rt' \<and> wf_state t \<and> registry_loop opts as s (bytesToHex rt) n nxt = Inr (Inr (t, bytesToHex rt'))"
  using assms
proof (induction arbitrary: s nxt rt n rule: registry_run.induct)
  case (step a c d as e)
  obtain s1 n1 where d: "d = (s1, n1)" by fastforce
  obtain r1 where r1: "merkleizeState s1 = Inr r1" "wf_state s1"
      "registry_loop opts (a # as) s (bytesToHex rt) n nxt = registry_loop opts as s1 (bytesToHex r1) (n + 1) n1"
    using registry_loop_step [of opts a s nxt s1 n1 rt as n] step.hyps(1) step.prems d by blast
  show ?case using step.IH [OF d step.prems(2) r1(2,1), of "n + 1"] r1(3) by simp
qed simp

lemma registry_loop_sound:
  "wf_state s \<Longrightarrow> merkleizeState s = Inr rt \<Longrightarrow> registry_loop opts as s (bytesToHex rt) n nxt = Inr (Inr (t, h)) \<Longrightarrow>
    \<exists>nxt'. registry_run opts as (s, nxt) (t, nxt')"
proof (induction as arbitrary: s rt n nxt)
  case (Cons a as)
  let ?i = "case nxt (ca_epoch a) of None \<Rightarrow> 0 | Some i \<Rightarrow> i"
  from Cons.prems(3) have idx: "ca_transitionIndex a = ?i" and pins: "pins_match (resolveEpochPins opts (ca_epoch a)) a"
      and par: "eqHex (Some (ca_parentStateRoot a)) (bytesToHex rt)" and hash: "eqHex (Some (computePatchHash (ca_compactPatchBytes a))) (ca_patchHash a)"
    by (simp_all add: Let_def pins_match_def split: if_splits)
  from Cons.prems(3) obtain p res where p: "decodePatch (ca_compactPatchBytes a) = Inr p" and res: "applyPatch s p (op_policyAtomsMode opts) = Inr res"
    by (auto simp: Let_def js_bind_eq_Inr_iff split: if_splits)
  from Cons.prems(3) p res obtain s' rt' where s': "res = Inr s'" "merkleizeState s' = Inr rt'" "eqHex (Some (bytesToHex rt')) (ca_newStateRoot a)"
      and rest: "registry_loop opts as s' (bytesToHex rt') (n + 1) (nxt(ca_epoch a \<mapsto> ca_transitionIndex a + 1)) = Inr (Inr (t, h))"
    by (auto simp: Let_def js_bind_eq_Inr_iff split: if_splits sum.splits)
  have ap: "parentStateRoot p = rt" "applyPatchOntoCurrent s p (op_policyAtomsMode opts) = Inr s'"
    using res s'(1) applyPatch_accepts [OF wf_state_length [OF Cons.prems(1)] Cons.prems(2)] by auto
  have "registry_step opts a (s, nxt) (s', nxt(ca_epoch a \<mapsto> ca_transitionIndex a + 1))"
    by (rule registry_step.advance) (fact idx pins Cons.prems(2) par hash p ap s'(2,3))+
  with Cons.IH [OF applied_wf [OF Cons.prems(1) p ap(2)] s'(2) rest] show ?case by (blast intro: registry_run.step)
qed (auto intro: registry_run.stop)

lemma registry_loop_fails: "registry_loop opts as s h n nxt = Inr (Inl f) \<Longrightarrow> \<not> rr_ok f"
proof (induction as arbitrary: s h n nxt)
  case (Cons a as)
  show ?case
  proof
    assume ok: "rr_ok f"
    with Cons.prems obtain p res where res: "decodePatch (ca_compactPatchBytes a) = Inr p" "applyPatch s p (op_policyAtomsMode opts) = Inr res"
      by (auto simp: Let_def js_bind_eq_Inr_iff replay_fail_def split: if_splits)
    with Cons.prems ok obtain s' where s': "res = Inr s'" by (cases res) (auto simp: Let_def replay_fail_def split: if_splits)
    from Cons.prems ok res s' have "\<exists>h' nxt'. registry_loop opts as s' h' (n + 1) nxt' = Inr (Inl f)"
      by (auto simp: Let_def js_bind_eq_Inr_iff replay_fail_def split: if_splits)
    with Cons.IH ok show False by blast
  qed
qed simp

section \<open>What a run says\<close>

lemma registry_run_patches:
  "registry_run opts as c c' \<Longrightarrow> wf_state (fst c) \<Longrightarrow>
    wf_state (fst c') \<and> (\<exists>ps. apply_all (\<lambda>s p. applyPatchOntoCurrent s p (op_policyAtomsMode opts)) (fst c) ps = Inr (fst c') \<and>
      list_all2 (\<lambda>a p. decodePatch (ca_compactPatchBytes a) = Inr p \<and> eqHex (Some (computePatchHash (ca_compactPatchBytes a))) (ca_patchHash a)) as ps)"
proof (induction rule: registry_run.induct)
  case (step a c d as e)
  from step.hyps(1) obtain p where p: "decodePatch (ca_compactPatchBytes a) = Inr p" "applyPatchOntoCurrent (fst c) p (op_policyAtomsMode opts) = Inr (fst d)"
      "eqHex (Some (computePatchHash (ca_compactPatchBytes a))) (ca_patchHash a)" by cases auto
  from step.IH applied_wf [OF step.prems p(1,2)] obtain ps where "wf_state (fst e)"
      "apply_all (\<lambda>s p. applyPatchOntoCurrent s p (op_policyAtomsMode opts)) (fst d) ps = Inr (fst e)"
      "list_all2 (\<lambda>a p. decodePatch (ca_compactPatchBytes a) = Inr p \<and> eqHex (Some (computePatchHash (ca_compactPatchBytes a))) (ca_patchHash a)) as ps"
    by blast
  with p show ?case by (intro conjI exI [of _ "p # ps"]) auto
qed (auto intro: exI [of _ "[]"])

text \<open>Within an epoch the indices are consecutive.\<close>

definition epoch_indices :: "bigint \<Rightarrow> CoreTexStateAdvancedEvent list \<Rightarrow> bigint list" where
  "epoch_indices e as = map ca_transitionIndex (filter (\<lambda>a. ca_epoch a = e) as)"

lemma registry_run_indices:
  "registry_run opts as c c' \<Longrightarrow> epoch_indices e as = map (\<lambda>k. (case snd c e of None \<Rightarrow> 0 | Some i \<Rightarrow> i) + int k) [0..<length (epoch_indices e as)]"
proof (induction rule: registry_run.induct)
  case (step a c d as c'')
  from step.hyps(1) have d: "snd d = (snd c)(ca_epoch a \<mapsto> ca_transitionIndex a + 1)" "ca_transitionIndex a = (case snd c (ca_epoch a) of None \<Rightarrow> 0 | Some i \<Rightarrow> i)"
    by (cases, auto)+
  show ?case
  proof (cases "ca_epoch a = e")
    case True
    let ?f = "case snd c e of None \<Rightarrow> 0 | Some i \<Rightarrow> i"
    have "epoch_indices e as = map (\<lambda>k. ?f + int (Suc k)) [0..<length (epoch_indices e as)]" using step.IH d True by (simp add: add.assoc)
    moreover have "epoch_indices e (a # as) = ?f # epoch_indices e as" using True d by (simp add: epoch_indices_def)
    ultimately show ?thesis by (simp add: map_Suc_upt [symmetric] upt_conv_Cons comp_def del: upt_Suc of_nat_Suc)
  next
    case False
    then show ?thesis using step.IH d by (simp add: epoch_indices_def)
  qed
qed (simp add: epoch_indices_def)

lemma registry_run_pins:
  "registry_run opts as c c' \<Longrightarrow> list_all (\<lambda>a. pins_match (resolveEpochPins opts (ca_epoch a)) a) as"
  by (induction rule: registry_run.induct) (auto elim: registry_step.cases)

section \<open>Soundness\<close>

lemma checkFinalizedPins_fails: "checkFinalizedPins f pins n = Some r \<Longrightarrow> \<not> rr_ok r"
  by (auto simp: checkFinalizedPins_def replay_fail_def split: if_splits)

lemma replay_ok_loop:
  assumes "replayCoreTexFromLogs s logs opts = Inr r" "rr_ok r"
  shows "\<exists>advs fins rt t h. js_map decodeCoreTexStateAdvanced logs = Inr advs \<and> js_map decodeCoreTexEpochFinalized logs = Inr fins \<and> merkleizeState s = Inr rt \<and>
    registry_loop opts (js_sort compareAdvances (present advs)) s (bytesToHex rt) 0 Map.empty = Inr (Inr (t, h)) \<and>
    rr_reproducedFinalRoot r = Some h \<and> rr_transitions r = int (length (present advs)) \<and>
    rr_onChainFinalRoot r = map_option cf_finalStateRoot (last_opt (js_sort compareFinalized (present fins))) \<and>
    (\<forall>f. last_opt (js_sort compareFinalized (present fins)) = Some f \<longrightarrow> eqHex (Some (cf_finalStateRoot f)) h)"
proof -
  obtain advs fins rt res where e: "js_map decodeCoreTexStateAdvanced logs = Inr advs" "js_map decodeCoreTexEpochFinalized logs = Inr fins" "merkleizeState s = Inr rt"
      "registry_loop opts (js_sort compareAdvances (present advs)) s (bytesToHex rt) 0 Map.empty = Inr res"
    using assms(1) unfolding replayCoreTexFromLogs_def Let_def js_bind_eq_Inr_iff by blast
  show ?thesis
  proof (cases res)
    case (Inl f)
    then have "r = f" using assms(1) e by (simp add: replayCoreTexFromLogs_def)
    then show ?thesis using registry_loop_fails e(4) Inl assms(2) by blast
  next
    case (Inr p)
    obtain t h where p: "p = (t, h)" by fastforce
    show ?thesis
      using assms e Inr p by (auto simp: replayCoreTexFromLogs_def replay_fail_def Let_def split: option.splits if_splits dest: checkFinalizedPins_fails)
  qed
qed

text \<open>C30. A replay that succeeds has proved the chain: the decoded advances, ordered by epoch and index, are a run of
  honest registry steps from the parent; their patches decode, carry the announced hashes and apply
  in order to a well-formed state whose true Merkle root is reported and equals the finalised one;
  indices are consecutive in every epoch and all pins are those expected.\<close>

theorem replay_sound:
  assumes "wf_state s" "replayCoreTexFromLogs s logs opts = Inr r" "rr_ok r"
  shows "\<exists>evs advs ps t rt. js_map decodeCoreTexStateAdvanced logs = Inr evs \<and> mset advs = mset (present evs) \<and>
    apply_all (\<lambda>s p. applyPatchOntoCurrent s p (op_policyAtomsMode opts)) s ps = Inr t \<and>
    list_all2 (\<lambda>a p. decodePatch (ca_compactPatchBytes a) = Inr p \<and> eqHex (Some (computePatchHash (ca_compactPatchBytes a))) (ca_patchHash a)) advs ps \<and>
    wf_state t \<and> merkleizeState t = Inr rt \<and> rr_reproducedFinalRoot r = Some (bytesToHex rt) \<and> rr_transitions r = int (length ps) \<and>
    (\<forall>f. rr_onChainFinalRoot r = Some f \<longrightarrow> eqHex (Some f) (bytesToHex rt)) \<and>
    (\<forall>e. epoch_indices e advs = map int [0..<length (epoch_indices e advs)]) \<and>
    list_all (\<lambda>a. pins_match (resolveEpochPins opts (ca_epoch a)) a) advs"
proof -
  from replay_ok_loop [OF assms(2,3)] obtain evs fins rt t h where e: "js_map decodeCoreTexStateAdvanced logs = Inr evs" "merkleizeState s = Inr rt"
      "registry_loop opts (js_sort compareAdvances (present evs)) s (bytesToHex rt) 0 Map.empty = Inr (Inr (t, h))"
      "rr_reproducedFinalRoot r = Some h" "rr_transitions r = int (length (present evs))"
      "rr_onChainFinalRoot r = map_option cf_finalStateRoot (last_opt (js_sort compareFinalized (present fins)))"
      "\<forall>f. last_opt (js_sort compareFinalized (present fins)) = Some f \<longrightarrow> eqHex (Some (cf_finalStateRoot f)) h" by blast
  let ?as = "js_sort compareAdvances (present evs)"
  obtain nxt where run: "registry_run opts ?as (s, Map.empty) (t, nxt)" using registry_loop_sound [OF assms(1) e(2,3)] by blast
  obtain rt' where rt': "merkleizeState t = Inr rt'" "h = bytesToHex rt'"
    using registry_loop_complete [OF run refl refl assms(1) e(2), of 0] e(3) by auto
  obtain ps where ps: "wf_state t" "apply_all (\<lambda>s p. applyPatchOntoCurrent s p (op_policyAtomsMode opts)) s ps = Inr t"
      "list_all2 (\<lambda>a p. decodePatch (ca_compactPatchBytes a) = Inr p \<and> eqHex (Some (computePatchHash (ca_compactPatchBytes a))) (ca_patchHash a)) ?as ps"
    using registry_run_patches [OF run] assms(1) by auto
  have idx: "epoch_indices k ?as = map int [0..<length (epoch_indices k ?as)]" for k
    using registry_run_indices [OF run, of k] by simp
  have "length ps = length (present evs)" using list_all2_lengthD [OF ps(3)] by simp
  then show ?thesis
    using e ps rt' registry_run_pins [OF run] idx by (intro exI [of _ evs] exI [of _ ?as] exI [of _ ps] exI [of _ t] exI [of _ rt']) auto
qed

section \<open>Completeness\<close>

interpretation advances: js_comparator compareAdvances
  by unfold_locales (auto simp: compareAdvances_def cmpBig_def Let_def split: if_splits)

interpretation finals: js_comparator compareFinalized
  by unfold_locales (auto simp: compareFinalized_def cmpBig_def split: if_splits)

definition advance_before :: "CoreTexStateAdvancedEvent \<Rightarrow> CoreTexStateAdvancedEvent \<Rightarrow> bool" where
  "advance_before a b \<longleftrightarrow> ca_epoch a < ca_epoch b \<or> ca_epoch a = ca_epoch b \<and> ca_transitionIndex a < ca_transitionIndex b"

lemma registry_run_ordered:
  "registry_run opts as c c' \<Longrightarrow> sorted_wrt (\<lambda>a b. ca_epoch a \<le> ca_epoch b) as \<Longrightarrow> sorted_wrt advance_before as"
proof (induction rule: registry_run.induct)
  case (step a c d as c'')
  from step.hyps(1) have d: "snd d (ca_epoch a) = Some (ca_transitionIndex a + 1)" by cases simp
  have "ca_transitionIndex a < ca_transitionIndex b" if "b \<in> set as" "ca_epoch b = ca_epoch a" for b
  proof -
    have "ca_transitionIndex b \<in> set (epoch_indices (ca_epoch a) as)" using that by (simp add: epoch_indices_def)
    then show ?thesis using arg_cong [OF registry_run_indices [OF step.hyps(2), of "ca_epoch a"], of set] d by auto
  qed
  then show ?case using step by (auto simp: advance_before_def)
qed simp

text \<open>The logs the contract emits for an event, with any padding of the dynamic argument.\<close>

definition uint_ok :: "nat \<Rightarrow> bigint \<Rightarrow> bool" where
  "uint_ok n v \<longleftrightarrow> 0 \<le> v \<and> v < 2 ^ n"

definition advance_logged :: "RpcLog \<Rightarrow> CoreTexStateAdvancedEvent \<Rightarrow> bool" where
  "advance_logged lg a \<longleftrightarrow> (\<exists>miner h0 h1 h2 h3 h4 h5 h6 pad. length miner = 20 \<and> list_all (\<lambda>h. length h = 32) [h0, h1, h2, h3, h4, h5, h6] \<and>
     uint_ok 64 (ca_epoch a) \<and> uint_ok 64 (ca_transitionIndex a) \<and> uint_ok 256 (ca_improvementCredits a) \<and> uint_ok 16 (ca_wordCount a) \<and>
     ca_miner a = bytesToHex miner \<and> ca_parentStateRoot a = bytesToHex h0 \<and> ca_newStateRoot a = bytesToHex h1 \<and> ca_patchHash a = bytesToHex h2 \<and>
     ca_evalReportHash a = bytesToHex h3 \<and> ca_coreVersionHash a = bytesToHex h4 \<and> ca_corpusRoot a = bytesToHex h5 \<and>
     ca_activeFrontierRoot a = bytesToHex h6 \<and> int (length (ca_compactPatchBytes a)) < 2 ^ 256 \<and>
     rl_topics lg = [TOPIC_STATE_ADVANCED, bytesToHex (be_bytes 32 (ca_epoch a)), bytesToHex (be_bytes 32 (ca_transitionIndex a)), bytesToHex (replicate 12 0 @ miner)] \<and>
     rl_data lg = bytesToHex (abi_log [h0, h1, h2, h3, h4, h5, h6, be_bytes 32 (ca_improvementCredits a), be_bytes 32 (ca_wordCount a)] (ca_compactPatchBytes a) pad))"

definition finalized_logged :: "RpcLog \<Rightarrow> CoreTexEpochFinalizedEvent \<Rightarrow> bool" where
  "finalized_logged lg f \<longleftrightarrow> (\<exists>h0 h1 h2 h3 h4 h5 h6 h7. list_all (\<lambda>h. length h = 32) [h0, h1, h2, h3, h4, h5, h6, h7] \<and> uint_ok 64 (cf_epoch f) \<and>
     cf_parentStateRoot f = bytesToHex h0 \<and> cf_finalStateRoot f = bytesToHex h1 \<and> cf_coreVersionHash f = bytesToHex h2 \<and> cf_corpusRoot f = bytesToHex h3 \<and>
     cf_activeFrontierRoot f = bytesToHex h4 \<and> cf_patchSetRoot f = bytesToHex h5 \<and> cf_scoreRoot f = bytesToHex h6 \<and> cf_baselineManifestHash f = bytesToHex h7 \<and>
     rl_topics lg = [TOPIC_EPOCH_FINALIZED, bytesToHex (be_bytes 32 (cf_epoch f))] \<and>
     rl_data lg = bytesToHex (concat [h0, h1, h2, h3, h4, h5, h6, h7]))"

lemma bit_length_le: "n < 2 ^ k \<Longrightarrow> bit_length n \<le> k"
proof (induction k arbitrary: n)
  case (Suc k)
  then show ?case by (subst bit_length.simps) auto
qed (simp add: bit_length.simps)

lemma js_Number_exact: "0 \<le> n \<Longrightarrow> n < 2 ^ 53 \<Longrightarrow> js_Number n = n"
  using bit_length_le [of "nat n" 53] by (simp add: js_Number_def nat_less_iff)

lemma topicBig_word: "uint_ok 64 v \<Longrightarrow> topicBig (Some (bytesToHex (be_bytes 32 v))) = Inr v"
proof -
  assume v: "uint_ok 64 v"
  have "be_bytes 32 v \<noteq> []" by (metis length_be_bytes list.size(3) zero_neq_numeral)
  then show ?thesis using v by (simp add: topicBig_def js_BigInt_bytesToHex be_val_be_bytes uint_ok_def del: be_bytes.simps)
qed

lemma topicAddr_padded: "length a = 20 \<Longrightarrow> topicAddr (Some (bytesToHex (replicate 12 0 @ a))) = bytesToHex a"
  using decodeAddress_padded [of a] by (simp add: topicAddr_def decodeAddress_def Let_def)

lemma topics_distinct:
  "TOPIC_STATE_ADVANCED = TOPIC_EPOCH_FINALIZED \<Longrightarrow> collision_between [utf8 SIG_STATE_ADVANCED] [utf8 SIG_EPOCH_FINALIZED]"
proof -
  assume eq: "TOPIC_STATE_ADVANCED = TOPIC_EPOCH_FINALIZED"
  have "utf8 SIG_STATE_ADVANCED \<noteq> utf8 SIG_EPOCH_FINALIZED" by code_simp
  then show ?thesis using eq by (simp add: collision_between_def TOPIC_STATE_ADVANCED_def TOPIC_EPOCH_FINALIZED_def eventTopic_def bytesToHex_inj)
qed

lemma eqHex_topic: "eqHex (Some TOPIC_STATE_ADVANCED) TOPIC_EPOCH_FINALIZED \<longleftrightarrow> TOPIC_STATE_ADVANCED = TOPIC_EPOCH_FINALIZED"
  "eqHex (Some TOPIC_EPOCH_FINALIZED) TOPIC_STATE_ADVANCED \<longleftrightarrow> TOPIC_STATE_ADVANCED = TOPIC_EPOCH_FINALIZED"
  by (auto simp: eqHex_def TOPIC_STATE_ADVANCED_def TOPIC_EPOCH_FINALIZED_def eventTopic_def)

lemma wordNum_head:
  assumes "\<forall>h \<in> set heads. length h = 32" "k < length heads"
  shows "wordNum (concat heads @ rest) k = be_val (heads ! k)"
proof -
  have "take 32 (drop (k * 32) (concat heads @ rest)) = heads ! k" using readSlice32_abi [OF assms] by (simp add: readSlice32_def)
  moreover have "length (concat heads) = length heads * 32" using assms(1) by (induction heads) auto
  ultimately show ?thesis
    using assms(2) readBigEndian32From_eq [of "k * 32" "concat heads @ rest"] by (simp add: wordNum_def wordNum_at_def readBigEndian32From_def)
qed

lemma data_word_head:
  "\<forall>h \<in> set heads. length h = 32 \<Longrightarrow> k < length heads \<Longrightarrow> data_word (concat heads @ rest) k = bytesToHex (heads ! k)"
  using readSlice32_abi [of heads k rest] by (simp add: data_word_def readSlice32_def)

lemma dynamic_payload:
  assumes "\<forall>h \<in> set heads. length h = 32" "length heads = 9" "int (length payload) < 2 ^ 256"
  shows "let d = abi_log heads payload pad; off = nat (wordNum d 9) in take (nat (wordNum_at d off)) (drop (off + 32) d) = payload"
  using dynamic_bytes_abi [of heads payload pad] assms
  by (simp add: dynamic_bytes_def wordNum_def wordNum_at_def readBigEndian32From_def Let_def)

lemma decode_advance_logged:
  assumes "advance_logged lg a" "TOPIC_STATE_ADVANCED \<noteq> TOPIC_EPOCH_FINALIZED"
  shows "decodeCoreTexStateAdvanced lg = Inr (Some a) \<and> decodeCoreTexEpochFinalized lg = Inr None"
proof -
  obtain miner h0 h1 h2 h3 h4 h5 h6 pad where m: "length miner = 20" and hs: "list_all (\<lambda>h. length h = 32) [h0, h1, h2, h3, h4, h5, h6]"
      and u: "uint_ok 64 (ca_epoch a)" "uint_ok 64 (ca_transitionIndex a)" "uint_ok 256 (ca_improvementCredits a)" "uint_ok 16 (ca_wordCount a)"
      and f: "ca_miner a = bytesToHex miner" "ca_parentStateRoot a = bytesToHex h0" "ca_newStateRoot a = bytesToHex h1" "ca_patchHash a = bytesToHex h2"
        "ca_evalReportHash a = bytesToHex h3" "ca_coreVersionHash a = bytesToHex h4" "ca_corpusRoot a = bytesToHex h5" "ca_activeFrontierRoot a = bytesToHex h6"
      and len: "int (length (ca_compactPatchBytes a)) < 2 ^ 256"
      and tp: "rl_topics lg = [TOPIC_STATE_ADVANCED, bytesToHex (be_bytes 32 (ca_epoch a)), bytesToHex (be_bytes 32 (ca_transitionIndex a)), bytesToHex (replicate 12 0 @ miner)]"
      and dt: "rl_data lg = bytesToHex (abi_log [h0, h1, h2, h3, h4, h5, h6, be_bytes 32 (ca_improvementCredits a), be_bytes 32 (ca_wordCount a)] (ca_compactPatchBytes a) pad)"
    using assms(1) unfolding advance_logged_def by blast
  define heads where "heads = [h0, h1, h2, h3, h4, h5, h6, be_bytes 32 (ca_improvementCredits a), be_bytes 32 (ca_wordCount a)]"
  define d where "d = abi_log heads (ca_compactPatchBytes a) pad"
  have ok: "\<forall>h \<in> set heads. length h = 32" and n: "length heads = 9" using hs by (simp_all add: heads_def del: be_bytes.simps)
  have dw: "data_word d k = bytesToHex (heads ! k)" "wordNum d k = be_val (heads ! k)" if "k < 9" for k
    using data_word_head [OF ok] wordNum_head [OF ok] that n unfolding d_def abi_log_def by simp_all
  have nums: "wordNum d 7 = ca_improvementCredits a" "js_Number (wordNum d 8) = ca_wordCount a"
    using u(3,4) by (simp_all add: dw heads_def be_val_be_bytes uint_ok_def js_Number_exact del: be_bytes.simps)
  have pl: "take (nat (wordNum_at d (nat (wordNum d 9)))) (drop (nat (wordNum d 9) + 32) d) = ca_compactPatchBytes a"
    using dynamic_payload [OF ok n len] by (simp add: d_def Let_def)
  have data: "hexToBytes (rl_data lg) = Inr d" by (simp add: dt hexToBytes_bytesToHex d_def heads_def)
  have tops: "nth_opt (rl_topics lg) 0 = Some TOPIC_STATE_ADVANCED" "nth_opt (rl_topics lg) 1 = Some (bytesToHex (be_bytes 32 (ca_epoch a)))"
      "nth_opt (rl_topics lg) 2 = Some (bytesToHex (be_bytes 32 (ca_transitionIndex a)))" "nth_opt (rl_topics lg) 3 = Some (bytesToHex (replicate 12 0 @ miner))"
    by (simp_all add: tp nth_opt_def)
  have "decodeCoreTexStateAdvanced lg = Inr (Some a)"
    unfolding decodeCoreTexStateAdvanced_def tops data
    by (simp add: eqHex_def topicBig_word [OF u(1)] topicBig_word [OF u(2)] topicAddr_padded [OF m] nums pl dw(1) Let_def del: be_bytes.simps)
      (simp add: heads_def f [symmetric] del: be_bytes.simps)
  then show ?thesis using assms(2) by (simp add: decodeCoreTexEpochFinalized_def tops eqHex_topic)
qed

lemma decode_finalized_logged:
  assumes "finalized_logged lg f" "TOPIC_STATE_ADVANCED \<noteq> TOPIC_EPOCH_FINALIZED"
  shows "decodeCoreTexStateAdvanced lg = Inr None \<and> decodeCoreTexEpochFinalized lg = Inr (Some f)"
proof -
  obtain h0 h1 h2 h3 h4 h5 h6 h7 where hs: "list_all (\<lambda>h. length h = 32) [h0, h1, h2, h3, h4, h5, h6, h7]" and u: "uint_ok 64 (cf_epoch f)"
      and e: "cf_parentStateRoot f = bytesToHex h0" "cf_finalStateRoot f = bytesToHex h1" "cf_coreVersionHash f = bytesToHex h2" "cf_corpusRoot f = bytesToHex h3"
        "cf_activeFrontierRoot f = bytesToHex h4" "cf_patchSetRoot f = bytesToHex h5" "cf_scoreRoot f = bytesToHex h6" "cf_baselineManifestHash f = bytesToHex h7"
      and tp: "rl_topics lg = [TOPIC_EPOCH_FINALIZED, bytesToHex (be_bytes 32 (cf_epoch f))]" and dt: "rl_data lg = bytesToHex (concat [h0, h1, h2, h3, h4, h5, h6, h7])"
    using assms(1) unfolding finalized_logged_def by blast
  define heads where "heads = [h0, h1, h2, h3, h4, h5, h6, h7]"
  have ok: "\<forall>h \<in> set heads. length h = 32" using hs by (simp add: heads_def)
  have dw: "data_word (concat heads) k = bytesToHex (heads ! k)" if "k < 8" for k
    using data_word_head [OF ok, of k "[]"] that by (simp add: heads_def)
  have data: "hexToBytes (rl_data lg) = Inr (concat heads)" by (simp only: dt hexToBytes_bytesToHex heads_def)
  have tops: "nth_opt (rl_topics lg) 0 = Some TOPIC_EPOCH_FINALIZED" "nth_opt (rl_topics lg) 1 = Some (bytesToHex (be_bytes 32 (cf_epoch f)))"
    by (simp_all add: tp nth_opt_def)
  have "decodeCoreTexEpochFinalized lg = Inr (Some f)"
    unfolding decodeCoreTexEpochFinalized_def tops data
    by (simp add: eqHex_def topicBig_word [OF u] dw del: be_bytes.simps) (simp add: heads_def e [symmetric])
  then show ?thesis using assms(2) by (simp add: decodeCoreTexStateAdvanced_def tops eqHex_topic)
qed

lemma sorted_wrt_separates: "sorted_wrt P xs \<Longrightarrow> x \<in> set xs \<Longrightarrow> y \<in> set xs \<Longrightarrow> x = y \<or> P x y \<or> P y x"
  by (induction xs) auto

text \<open>Decoding a set of logs in any order.\<close>

lemma decoded_perm:
  assumes "mset logs = mset (map fst xs @ map fst ys)" "\<forall>x \<in> set xs. dec (fst x) = Inr (Some (snd x))" "\<forall>y \<in> set ys. dec (fst y) = Inr None"
  shows "\<exists>es. js_map dec logs = Inr es \<and> mset (present es) = mset (map snd xs)"
proof -
  let ?g = "\<lambda>l. case dec l of Inr e \<Rightarrow> e | Inl _ \<Rightarrow> None"
  have sets: "set logs = fst ` set xs \<union> fst ` set ys" using arg_cong [OF assms(1), of set_mset] by simp
  have total: "\<exists>e. dec l = Inr e" if "l \<in> set logs" for l using that sets assms(2,3) by auto
  have "js_map dec ls = Inr (map ?g ls)" if "set ls \<subseteq> set logs" for ls
    using that by (induction ls) (use total in force)+
  then have es: "js_map dec logs = Inr (map ?g logs)" by simp
  have pres: "mset (present (map ?g ls)) = image_mset (\<lambda>l. the (?g l)) (filter_mset (\<lambda>l. ?g l \<noteq> None) (mset ls))" for ls
    by (simp add: present_def List.map_filter_def comp_def filter_map flip: mset_filter)
  have "present (map ?g (map fst xs @ map fst ys)) = map snd xs"
  proof -
    have "present (map ?g (map fst xs)) = map snd xs" using assms(2) by (induction xs) (simp_all add: present_def)
    moreover have "present (map ?g (map fst ys)) = []" using assms(3) by (induction ys) (simp_all add: present_def)
    ultimately show ?thesis by (simp add: present_def List.map_filter_def)
  qed
  then have "mset (present (map ?g logs)) = mset (map snd xs)" using pres [of logs] pres [of "map fst xs @ map fst ys"] assms(1) by simp
  then show ?thesis using es by blast
qed

definition final_matches :: "ReplayOptions \<Rightarrow> CortexState \<Rightarrow> CoreTexEpochFinalizedEvent \<Rightarrow> bool" where
  "final_matches opts t f \<longleftrightarrow> checkFinalizedPins f (resolveEpochPins opts (cf_epoch f)) 0 = None \<and>
     (\<exists>rt. merkleizeState t = Inr rt \<and> eqHex (Some (cf_finalStateRoot f)) (bytesToHex rt))"

lemma checkFinalizedPins_None: "checkFinalizedPins f pins n = None \<longleftrightarrow> checkFinalizedPins f pins m = None"
  by (simp add: checkFinalizedPins_def)

lemma replay_accepts:
  assumes "wf_state s" "registry_run opts (map snd xs) (s, Map.empty) (t, nxt)" "sorted_wrt (\<lambda>a b. ca_epoch a \<le> ca_epoch b) (map snd xs)"
    "list_all (\<lambda>(l, a). advance_logged l a) xs" "list_all (\<lambda>(l, f). finalized_logged l f) ys"
    "sorted_wrt (\<lambda>f g. cf_epoch f < cf_epoch g) (map snd ys)" "ys \<noteq> [] \<longrightarrow> final_matches opts t (snd (last ys))"
    "mset logs = mset (map fst xs @ map fst ys)"
  shows "(\<exists>rt. merkleizeState t = Inr rt \<and> replayCoreTexFromLogs s logs opts = Inr \<lparr>rr_ok = True, rr_code = None, rr_transitions = int (length xs),
      rr_reproducedFinalRoot = Some (bytesToHex rt), rr_onChainFinalRoot = (if ys = [] then None else Some (cf_finalStateRoot (snd (last ys))))\<rparr>)
    \<or> collision_between [utf8 SIG_STATE_ADVANCED] [utf8 SIG_EPOCH_FINALIZED]"
proof (rule disjCI)
  assume "\<not> collision_between [utf8 SIG_STATE_ADVANCED] [utf8 SIG_EPOCH_FINALIZED]"
  then have ne: "TOPIC_STATE_ADVANCED \<noteq> TOPIC_EPOCH_FINALIZED" using topics_distinct by blast
  have dx: "\<forall>x \<in> set xs. decodeCoreTexStateAdvanced (fst x) = Inr (Some (snd x)) \<and> decodeCoreTexEpochFinalized (fst x) = Inr None"
    using assms(4) decode_advance_logged [OF _ ne] by (fastforce simp: list_all_iff)
  have dy: "\<forall>y \<in> set ys. decodeCoreTexStateAdvanced (fst y) = Inr None \<and> decodeCoreTexEpochFinalized (fst y) = Inr (Some (snd y))"
    using assms(5) decode_finalized_logged [OF _ ne] by (fastforce simp: list_all_iff)
  obtain evs where evs: "js_map decodeCoreTexStateAdvanced logs = Inr evs" "mset (present evs) = mset (map snd xs)"
    using decoded_perm [OF assms(8), of decodeCoreTexStateAdvanced] dx dy by blast
  have "mset logs = mset (map fst ys @ map fst xs)" using assms(8) by (simp add: add.commute)
  then obtain fins where fins: "js_map decodeCoreTexEpochFinalized logs = Inr fins" "mset (present fins) = mset (map snd ys)"
    using decoded_perm [of logs ys xs decodeCoreTexEpochFinalized] dx dy by blast
  have "sorted_wrt advances.le (map snd xs)"
    by (rule sorted_wrt_mono_rel [OF _ registry_run_ordered [OF assms(2,3)]])
      (auto simp: advances.le_def compareAdvances_def cmpBig_def advance_before_def)
  moreover have "a = b" if "a \<in> set (map snd xs)" "b \<in> set (map snd xs)" "advances.le a b" "advances.le b a" for a b
    using sorted_wrt_separates [OF registry_run_ordered [OF assms(2,3)] that(1,2)] that(3,4)
    by (auto simp: advances.le_def compareAdvances_def cmpBig_def advance_before_def Let_def split: if_splits)
  ultimately have as: "js_sort compareAdvances (present evs) = map snd xs"
    using evs(2) advances.sorted_unique [OF _ advances.sorted_js_sort, of "map snd xs" "present evs"] by simp
  have "sorted_wrt finals.le (map snd ys)"
    by (rule sorted_wrt_mono_rel [OF _ assms(6)]) (auto simp: finals.le_def compareFinalized_def cmpBig_def)
  moreover have "f = g" if "f \<in> set (map snd ys)" "g \<in> set (map snd ys)" "finals.le f g" "finals.le g f" for f g
    using sorted_wrt_separates [OF assms(6) that(1,2)] that(3,4) by (auto simp: finals.le_def compareFinalized_def cmpBig_def split: if_splits)
  ultimately have fs: "js_sort compareFinalized (present fins) = map snd ys"
    using fins(2) finals.sorted_unique [OF _ finals.sorted_js_sort, of "map snd ys" "present fins"] by simp
  obtain rt where rt: "merkleizeState s = Inr rt" using merkleizeState_eq [OF wf_state_length [OF assms(1)]] by blast
  obtain rt' where rt': "merkleizeState t = Inr rt'" "registry_loop opts (map snd xs) s (bytesToHex rt) 0 Map.empty = Inr (Inr (t, bytesToHex rt'))"
    using registry_loop_complete [OF assms(2) refl refl assms(1) rt, of 0] by blast
  show "\<exists>rt. merkleizeState t = Inr rt \<and> replayCoreTexFromLogs s logs opts = Inr \<lparr>rr_ok = True, rr_code = None, rr_transitions = int (length xs),
      rr_reproducedFinalRoot = Some (bytesToHex rt), rr_onChainFinalRoot = (if ys = [] then None else Some (cf_finalStateRoot (snd (last ys))))\<rparr>"
  proof (cases "ys = []")
    case True
    then show ?thesis using rt'(1) by (simp add: replayCoreTexFromLogs_def evs(1) fins(1) as fs rt rt'(2) last_opt_def Let_def)
  next
    case False
    then have m: "checkFinalizedPins (snd (last ys)) (resolveEpochPins opts (cf_epoch (snd (last ys)))) n = None" "eqHex (Some (cf_finalStateRoot (snd (last ys)))) (bytesToHex rt')" for n
      using assms(7) rt'(1) checkFinalizedPins_None [of "snd (last ys)" _ 0 n] by (auto simp: final_matches_def)
    show ?thesis using rt'(1) False m by (simp add: replayCoreTexFromLogs_def evs(1) fins(1) as fs rt rt'(2) last_opt_def last_map Let_def)
  qed
qed

text \<open>C31. Honest chains replay from their logs in any order: for every run of honest registry steps with non-decreasing
  epochs, any arrangement of its logs, with or without finalisation logs of which the latest names
  the final root, replays successfully and reports the true final root and the number of transitions
  (unless the two event topics collide).\<close>

theorem replay_complete:
  assumes "wf_state s" "registry_run opts (map snd xs) (s, Map.empty) (t, nxt)" "sorted_wrt (\<lambda>a b. ca_epoch a \<le> ca_epoch b) (map snd xs)"
    "list_all (\<lambda>(l, a). advance_logged l a) xs" "list_all (\<lambda>(l, f). finalized_logged l f) ys"
    "sorted_wrt (\<lambda>f g. cf_epoch f < cf_epoch g) (map snd ys)" "ys \<noteq> [] \<longrightarrow> final_matches opts t (snd (last ys))"
    "mset logs = mset (map fst xs @ map fst ys)"
  shows "(\<exists>rt. merkleizeState t = Inr rt \<and> replayCoreTexFromLogs s logs opts = Inr \<lparr>rr_ok = True, rr_code = None, rr_transitions = int (length xs),
      rr_reproducedFinalRoot = Some (bytesToHex rt), rr_onChainFinalRoot = (if ys = [] then None else Some (cf_finalStateRoot (snd (last ys))))\<rparr>)
    \<or> collision_between [utf8 SIG_STATE_ADVANCED] [utf8 SIG_EPOCH_FINALIZED]"
  using assms by (rule replay_accepts)

section \<open>A concrete chain\<close>

definition demo_options :: ReplayOptions where
  "demo_options = \<lparr>op_expectedBundleHash = Some (bytesToHex (replicate 32 4)), op_expectedCorpusRoot = None, op_expectedActiveFrontierRoot = None,
     op_expectedBaselineManifestHash = None, op_expectedHiddenSeedCommit = None, op_expectedPinsForEpoch = None, op_policyAtomsMode = True\<rparr>"

definition demo_advance :: "bytes \<Rightarrow> bytes \<Rightarrow> CoreTexStateAdvancedEvent" where
  "demo_advance rt rt' = \<lparr>ca_epoch = 3, ca_transitionIndex = 0, ca_miner = bytesToHex (replicate 20 9), ca_parentStateRoot = bytesToHex rt,
     ca_newStateRoot = bytesToHex rt', ca_patchHash = computePatchHash (patch_bytes (slot_patch rt)), ca_evalReportHash = bytesToHex (replicate 32 3),
     ca_coreVersionHash = bytesToHex (replicate 32 4), ca_corpusRoot = bytesToHex (replicate 32 5), ca_activeFrontierRoot = bytesToHex (replicate 32 6),
     ca_improvementCredits = 30000, ca_wordCount = 1, ca_compactPatchBytes = patch_bytes (slot_patch rt)\<rparr>"

definition demo_advance_log :: "bytes \<Rightarrow> bytes \<Rightarrow> RpcLog" where
  "demo_advance_log rt rt' = \<lparr>rl_address = None,
     rl_topics = [TOPIC_STATE_ADVANCED, bytesToHex (be_bytes 32 3), bytesToHex (be_bytes 32 0), bytesToHex (replicate 12 0 @ replicate 20 9)],
     rl_data = bytesToHex (abi_log [rt, rt', keccak256 (concatU8 [utf8 PATCH_HASH_DOMAIN_PREFIX, patch_bytes (slot_patch rt)]), replicate 32 3, replicate 32 4,
       replicate 32 5, replicate 32 6, be_bytes 32 30000, be_bytes 32 1] (patch_bytes (slot_patch rt)) 7),
     rl_blockNumber = None, rl_transactionHash = None, rl_logIndex = None\<rparr>"

lemma demo_payload_length: "length rt = 32 \<Longrightarrow> int (length (patch_bytes (slot_patch rt))) < 2 ^ 256"
  by (simp add: patch_bytes_def slot_patch_def entry_bytes_def idx_bytes_def del: be_bytes.simps)

lemma demo_advance_logged:
  assumes "length rt = 32" "length rt' = 32"
  shows "advance_logged (demo_advance_log rt rt') (demo_advance rt rt')"
  unfolding advance_logged_def
  by (rule exI [of _ "replicate 20 9"], rule exI [of _ rt], rule exI [of _ rt'],
      rule exI [of _ "keccak256 (concatU8 [utf8 PATCH_HASH_DOMAIN_PREFIX, patch_bytes (slot_patch rt)])"],
      rule exI [of _ "replicate 32 3"], rule exI [of _ "replicate 32 4"], rule exI [of _ "replicate 32 5"], rule exI [of _ "replicate 32 6"], rule exI [of _ 7])
    (use assms demo_payload_length [OF assms(1)] in \<open>simp add: demo_advance_def demo_advance_log_def uint_ok_def computePatchHash_def del: be_bytes.simps\<close>)

lemma demo_chain:
  "\<exists>rt t rt' nxt. merkleizeState t = Inr rt' \<and> advance_logged (demo_advance_log rt rt') (demo_advance rt rt') \<and>
     registry_run demo_options [demo_advance rt rt'] (zero_state, Map.empty) (t, nxt)"
proof -
  obtain rt where rt: "merkleizeState zero_state = Inr rt" using demo_root by blast
  have len: "length rt = 32" by (rule length_root [OF rt zero_state_wf(2)])
  have dec: "decodePatch (patch_bytes (slot_patch rt)) = Inr (slot_patch rt)" using demo_wire_item_ok(1) [OF len] by (simp add: demo_wire_item_def wire_item_def)
  define t where "t = \<lparr>words = (replicate 1024 0)[33 := push_bit 128 9 :: int]\<rparr>"
  have ap: "applyPatchOntoCurrent zero_state (slot_patch rt) True = Inr t" using slot_patch_applies [of rt] by (simp add: t_def)
  have lt: "length (words t) = WORD_COUNT" by (simp add: t_def)
  obtain rt' where rt': "merkleizeState t = Inr rt'" using merkleizeState_eq [OF lt] by blast
  have len': "length rt' = 32" by (rule length_root [OF rt' lt])
  have "registry_step demo_options (demo_advance rt rt') (zero_state, Map.empty) (t, Map.empty(3 \<mapsto> 1))"
    using registry_step.advance [of "demo_advance rt rt'" Map.empty demo_options zero_state rt "slot_patch rt" t rt'] rt dec ap rt'
    by (simp add: demo_advance_def demo_options_def eqHex_def pins_match_def resolveEpochPins_def pin_mismatch_def truthy_def slot_patch_def)
  then have run: "registry_run demo_options [demo_advance rt rt'] (zero_state, Map.empty) (t, Map.empty(3 \<mapsto> 1))"
    by (rule registry_run.step [OF _ registry_run.stop])
  have "advance_logged (demo_advance_log rt rt') (demo_advance rt rt')" by (rule demo_advance_logged [OF len len'])
  then show ?thesis using rt' run by blast
qed

lemma demo_chain_logs:
  "\<exists>rt t rt' nxt. merkleizeState t = Inr rt' \<and> list_all (\<lambda>(l, a). advance_logged l a) [(demo_advance_log rt rt', demo_advance rt rt')] \<and>
     registry_run demo_options (map snd [(demo_advance_log rt rt', demo_advance rt rt')]) (zero_state, Map.empty) (t, nxt)"
  using demo_chain by auto

theorem replay_complete_witness:
  "(\<exists>rt rt' r. replayCoreTexFromLogs zero_state [demo_advance_log rt rt'] demo_options = Inr r \<and> rr_ok r \<and> rr_reproducedFinalRoot r = Some (bytesToHex rt'))
     \<or> collision_between [utf8 SIG_STATE_ADVANCED] [utf8 SIG_EPOCH_FINALIZED]"
proof -
  obtain rt t rt' nxt where d: "merkleizeState t = Inr rt'" "list_all (\<lambda>(l, a). advance_logged l a) [(demo_advance_log rt rt', demo_advance rt rt')]"
      "registry_run demo_options (map snd [(demo_advance_log rt rt', demo_advance rt rt')]) (zero_state, Map.empty) (t, nxt)"
    using demo_chain_logs by blast
  from replay_complete [OF zero_state_wf(1) d(3) _ d(2), of "[]" "[demo_advance_log rt rt']"] d(1) show ?thesis by fastforce
qed

theorem replay_sound_witness:
  "(\<exists>rt rt' r t ps. replayCoreTexFromLogs zero_state [demo_advance_log rt rt'] demo_options = Inr r \<and> rr_ok r \<and> length ps = 1 \<and>
      apply_all (\<lambda>s p. applyPatchOntoCurrent s p True) zero_state ps = Inr t \<and> wf_state t)
     \<or> collision_between [utf8 SIG_STATE_ADVANCED] [utf8 SIG_EPOCH_FINALIZED]"
proof (rule disjCI)
  assume nc: "\<not> collision_between [utf8 SIG_STATE_ADVANCED] [utf8 SIG_EPOCH_FINALIZED]"
  obtain rt t rt' nxt where d: "merkleizeState t = Inr rt'" "list_all (\<lambda>(l, a). advance_logged l a) [(demo_advance_log rt rt', demo_advance rt rt')]"
      "registry_run demo_options (map snd [(demo_advance_log rt rt', demo_advance rt rt')]) (zero_state, Map.empty) (t, nxt)"
    using demo_chain_logs by blast
  from replay_accepts [OF zero_state_wf(1) d(3) _ d(2), of "[]" "[demo_advance_log rt rt']"] nc
  obtain r where r: "replayCoreTexFromLogs zero_state [demo_advance_log rt rt'] demo_options = Inr r" "rr_ok r" "rr_transitions r = 1" by fastforce
  from replay_sound [OF zero_state_wf(1) r(1,2)] r(3) obtain ps u where "length ps = 1" "wf_state u"
      "apply_all (\<lambda>s p. applyPatchOntoCurrent s p (op_policyAtomsMode demo_options)) zero_state ps = Inr u" by fastforce
  moreover have "op_policyAtomsMode demo_options = True" by (simp add: demo_options_def)
  ultimately show "\<exists>rt rt' r t ps. replayCoreTexFromLogs zero_state [demo_advance_log rt rt'] demo_options = Inr r \<and> rr_ok r \<and> length ps = 1 \<and>
      apply_all (\<lambda>s p. applyPatchOntoCurrent s p True) zero_state ps = Inr t \<and> wf_state t"
    using r(1,2) by (intro exI [of _ rt] exI [of _ rt'] exI [of _ r] exI [of _ u] exI [of _ ps]) simp
qed

end
