(* ===== verification/WorkUnits.thy ===== *)
theory WorkUnits
  imports JsValues
begin

text \<open>
  The work-credit policy: \<open>packages/coretex/src/rewards/work-units.ts\<close>. Amounts are basis points and parts per
  million. The numeric fields of a policy are \<open>string | bigint | number\<close> and are converted, and range-checked,
  where the source converts them. Message labels are not modelled.
\<close>

section \<open>Implementation\<close>

abbreviation (input) "WORK_BPS_DIVISOR \<equiv> (10000 :: bigint)"
abbreviation (input) "LANE_CORETEX \<equiv> (2 :: int)"
abbreviation (input) "OUTCOME_CORETEX_SCREENER_PASS \<equiv> (1 :: int)"
abbreviation (input) "OUTCOME_CORETEX_STATE_ADVANCE \<equiv> (2 :: int)"
abbreviation (input) "CORTEX_RULES_VERSION \<equiv> (0xC0 :: int)"

record StateAdvanceWorkTier =
  minQualifiedScreenerPasses :: js_arg
  tier_workUnitsBps :: js_arg

record ScreenerCalibration =
  scoreScalePpm :: js_arg
  minDeltaPpm :: js_arg
  remainingHeadroomBps :: js_arg
  noiseFloorMultiplierBps :: js_arg
  plateauEasingMaxBps :: js_arg
  stateAdvanceThresholdFloorBps :: "js_arg option"
  antiGamingProbeMultiplierBps :: js_arg
  maxAntiGamingPenaltyBps :: js_arg
  maxThresholdPpm :: js_arg

record ScreenerPassPolicy =
  sp_outcome :: int
  sp_minLocalModelDeltaPpm :: js_arg
  sp_maxRelevantNearCollisionPpm :: js_arg
  sp_workUnitsBps :: js_arg
  sp_calibration :: ScreenerCalibration

record StateAdvancePolicy =
  sa_outcome :: int
  sa_minDeterministicDeltaPpm :: js_arg
  sa_minLocalModelDeltaPpm :: js_arg
  sa_requireLiveStateAdvance :: bool
  sa_difficultyCounter :: string
  sa_tiers :: "StateAdvanceWorkTier list"

record AntiGamingPolicy =
  currentParentStateRootRequired :: bool
  hiddenShardDerivedFromEpochSecret :: bool
  uniquePatchHashPerEpochMiner :: bool
  modelNoRegressionRequiredForStateAdvance :: bool

record CoreTexWorkPolicy =
  wp_name :: string
  wp_version :: int
  wp_rulesVersion :: int
  wp_lane :: int
  wp_bpsDivisor :: js_arg
  wp_screenerPass :: ScreenerPassPolicy
  wp_stateAdvance :: StateAdvancePolicy
  wp_antiGaming :: AntiGamingPolicy

definition toBigInt :: "js_arg \<Rightarrow> bigint js" where
  "toBigInt value = (case value of
       ArgBig v \<Rightarrow> if v < 0 then Inl (RangeError ''must be non-negative'') else Inr v
     | ArgNum r \<Rightarrow> if \<not> is_safe_integer r \<or> r < 0 then Inl (RangeError ''must be a non-negative safe integer'') else Inr \<lfloor>r\<rfloor>
     | ArgNonFinite \<Rightarrow> Inl (RangeError ''must be a non-negative safe integer'')
     | ArgStr s \<Rightarrow> if \<not> decimal_string s then Inl (RangeError ''must be a non-negative decimal string'') else js_BigInt s)"

definition toSignedBigInt :: "js_arg \<Rightarrow> bigint js" where
  "toSignedBigInt value = (case value of
       ArgBig v \<Rightarrow> Inr v
     | ArgNum r \<Rightarrow> if \<not> is_safe_integer r then Inl (RangeError ''must be a safe integer'') else Inr \<lfloor>r\<rfloor>
     | ArgNonFinite \<Rightarrow> Inl (RangeError ''must be a safe integer'')
     | ArgStr s \<Rightarrow> if \<not> decimal_string (if s \<noteq> [] \<and> hd s = CHR ''-'' then tl s else s)
         then Inl (RangeError ''must be a signed decimal string'') else js_BigInt s)"

definition clamp :: "bigint \<Rightarrow> bigint \<Rightarrow> bigint \<Rightarrow> bigint" where
  "clamp value lo hi = min (max value lo) hi"

definition ceilDiv :: "bigint \<Rightarrow> bigint \<Rightarrow> bigint js" where
  "ceilDiv numerator denominator =
     (if denominator \<le> 0 then Inl (RangeError ''ceilDiv denominator must be positive'')
      else js_bigdiv (numerator + denominator - 1) denominator)"

definition arg_or_zero :: "js_arg option \<Rightarrow> js_arg" where
  "arg_or_zero a = (case a of Some v \<Rightarrow> v | None \<Rightarrow> ArgBig 0)"

fun check_tiers :: "bigint \<Rightarrow> bigint \<Rightarrow> StateAdvanceWorkTier list \<Rightarrow> unit js" where
  "check_tiers prevMin prevBps [] = Inr ()"
| "check_tiers prevMin prevBps (tier # rest) =
     js_bind (toBigInt (minQualifiedScreenerPasses tier)) (\<lambda>mn.
     js_bind (toBigInt (tier_workUnitsBps tier)) (\<lambda>bps.
     js_bind (js_require (\<not> mn \<le> prevMin) (RangeError ''stateAdvance.tiers must have strictly increasing min counts'')) (\<lambda>_.
     js_bind (js_require (\<not> bps < 3 * WORK_BPS_DIVISOR) (RangeError ''state advance must be at least 3x'')) (\<lambda>_.
     js_bind (js_require (\<not> bps < prevBps) (RangeError ''stateAdvance.tiers bps must be nondecreasing'')) (\<lambda>_.
     check_tiers mn bps rest)))))"

definition check_calibration :: "ScreenerCalibration \<Rightarrow> unit js" where
  "check_calibration cal =
     js_bind (toBigInt (scoreScalePpm cal)) (\<lambda>scoreScale.
     js_bind (toBigInt (minDeltaPpm cal)) (\<lambda>minDelta.
     js_bind (toBigInt (maxThresholdPpm cal)) (\<lambda>maxThreshold.
     js_bind (toBigInt (plateauEasingMaxBps cal)) (\<lambda>plateau.
     js_bind (toBigInt (arg_or_zero (stateAdvanceThresholdFloorBps cal))) (\<lambda>floorBps.
     js_bind (toBigInt (maxAntiGamingPenaltyBps cal)) (\<lambda>penalty.
     js_bind (js_require (scoreScale = 1000000) (RangeError ''scoreScalePpm must be 1000000'')) (\<lambda>_.
     js_bind (js_require (\<not> minDelta < 10) (RangeError ''screener minimum delta is too low'')) (\<lambda>_.
     js_bind (js_require (\<not> maxThreshold < minDelta) (RangeError ''screener max threshold must be >= min delta'')) (\<lambda>_.
     js_bind (toBigInt (remainingHeadroomBps cal)) (\<lambda>headroom.
     js_bind (js_require (headroom \<noteq> 0) (RangeError ''remainingHeadroomBps must be positive'')) (\<lambda>_.
     js_bind (toBigInt (noiseFloorMultiplierBps cal)) (\<lambda>noise.
     js_bind (js_require (\<not> noise < WORK_BPS_DIVISOR) (RangeError ''noiseFloorMultiplierBps must be at least 1x'')) (\<lambda>_.
     js_bind (js_require (\<not> plateau > WORK_BPS_DIVISOR) (RangeError ''plateauEasingMaxBps must be <= 10000'')) (\<lambda>_.
     js_bind (js_require (\<not> floorBps > WORK_BPS_DIVISOR) (RangeError ''stateAdvanceThresholdFloorBps must be <= 10000'')) (\<lambda>_.
     js_bind (toBigInt (antiGamingProbeMultiplierBps cal)) (\<lambda>probe.
     js_bind (js_require (probe \<noteq> 0) (RangeError ''antiGamingProbeMultiplierBps must be positive'')) (\<lambda>_.
     js_require (\<not> penalty > 10 * WORK_BPS_DIVISOR) (RangeError ''maxAntiGamingPenaltyBps must be <= 100000''))))))))))))))))))"

definition assertValidCoreTexWorkPolicy :: "CoreTexWorkPolicy \<Rightarrow> unit js" where
  "assertValidCoreTexWorkPolicy policy =
     js_bind (js_require (wp_name policy \<noteq> []) (RangeError ''policy.name is required'')) (\<lambda>_.
     js_bind (js_require (\<not> wp_version policy \<le> 0) (RangeError ''policy.version must be positive'')) (\<lambda>_.
     js_bind (js_require (wp_rulesVersion policy = CORTEX_RULES_VERSION) (RangeError ''policy.rulesVersion must be 0xC0'')) (\<lambda>_.
     js_bind (js_require (wp_lane policy = LANE_CORETEX) (RangeError ''policy.lane must be CoreTex'')) (\<lambda>_.
     js_bind (toBigInt (wp_bpsDivisor policy)) (\<lambda>divisor.
     js_bind (js_require (divisor = WORK_BPS_DIVISOR) (RangeError ''policy.bpsDivisor must be 10000'')) (\<lambda>_.
     js_bind (js_require (sp_outcome (wp_screenerPass policy) = OUTCOME_CORETEX_SCREENER_PASS) (RangeError ''policy.screenerPass.outcome must be 1'')) (\<lambda>_.
     js_bind (check_calibration (sp_calibration (wp_screenerPass policy))) (\<lambda>_.
     js_bind (js_require (sa_outcome (wp_stateAdvance policy) = OUTCOME_CORETEX_STATE_ADVANCE) (RangeError ''policy.stateAdvance.outcome must be 2'')) (\<lambda>_.
     js_bind (toBigInt (sp_workUnitsBps (wp_screenerPass policy))) (\<lambda>screenerBps.
     js_bind (js_require (screenerBps = WORK_BPS_DIVISOR) (RangeError ''screener pass must stay exactly 1x'')) (\<lambda>_.
     js_bind (js_require (sa_tiers (wp_stateAdvance policy) \<noteq> []) (RangeError ''stateAdvance.tiers must not be empty'')) (\<lambda>_.
     js_bind (check_tiers (-1) 0 (sa_tiers (wp_stateAdvance policy))) (\<lambda>_.
     js_bind (toBigInt (minQualifiedScreenerPasses (hd (sa_tiers (wp_stateAdvance policy))))) (\<lambda>first.
     js_require (first = 0) (RangeError ''first stateAdvance tier must start at 0'')))))))))))))))"

definition DEFAULT_CORETEX_WORK_POLICY :: CoreTexWorkPolicy where
  "DEFAULT_CORETEX_WORK_POLICY = \<lparr>wp_name = ''botcoin-coretex-work-policy'', wp_version = 3, wp_rulesVersion = CORTEX_RULES_VERSION,
     wp_lane = LANE_CORETEX, wp_bpsDivisor = ArgStr ''10000'',
     wp_screenerPass = \<lparr>sp_outcome = OUTCOME_CORETEX_SCREENER_PASS, sp_minLocalModelDeltaPpm = ArgStr ''0'',
       sp_maxRelevantNearCollisionPpm = ArgStr ''250000'', sp_workUnitsBps = ArgStr ''10000'',
       sp_calibration = \<lparr>scoreScalePpm = ArgStr ''1000000'', minDeltaPpm = ArgStr ''50'', remainingHeadroomBps = ArgStr ''5'',
         noiseFloorMultiplierBps = ArgStr ''20000'', plateauEasingMaxBps = ArgStr ''5000'',
         stateAdvanceThresholdFloorBps = Some (ArgStr ''5000''), antiGamingProbeMultiplierBps = ArgStr ''20000'',
         maxAntiGamingPenaltyBps = ArgStr ''50000'', maxThresholdPpm = ArgStr ''150000''\<rparr>\<rparr>,
     wp_stateAdvance = \<lparr>sa_outcome = OUTCOME_CORETEX_STATE_ADVANCE, sa_minDeterministicDeltaPpm = ArgStr ''1'',
       sa_minLocalModelDeltaPpm = ArgStr ''0'', sa_requireLiveStateAdvance = True,
       sa_difficultyCounter = ''qualifiedScreenerPassesSinceLastStateAdvance'',
       sa_tiers = [\<lparr>minQualifiedScreenerPasses = ArgStr ''0'', tier_workUnitsBps = ArgStr ''30000''\<rparr>,
         \<lparr>minQualifiedScreenerPasses = ArgStr ''25'', tier_workUnitsBps = ArgStr ''40000''\<rparr>,
         \<lparr>minQualifiedScreenerPasses = ArgStr ''100'', tier_workUnitsBps = ArgStr ''60000''\<rparr>,
         \<lparr>minQualifiedScreenerPasses = ArgStr ''250'', tier_workUnitsBps = ArgStr ''90000''\<rparr>,
         \<lparr>minQualifiedScreenerPasses = ArgStr ''500'', tier_workUnitsBps = ArgStr ''120000''\<rparr>]\<rparr>,
     wp_antiGaming = \<lparr>currentParentStateRootRequired = True, hiddenShardDerivedFromEpochSecret = True,
       uniquePatchHashPerEpochMiner = True, modelNoRegressionRequiredForStateAdvance = True\<rparr>\<rparr>"

fun select_tier :: "bigint \<Rightarrow> bigint \<Rightarrow> StateAdvanceWorkTier list \<Rightarrow> bigint js" where
  "select_tier cnt selected [] = Inr selected"
| "select_tier cnt selected (tier # rest) =
     js_bind (toBigInt (minQualifiedScreenerPasses tier)) (\<lambda>mn.
     if cnt \<ge> mn then js_bind (toBigInt (tier_workUnitsBps tier)) (\<lambda>bps. select_tier cnt bps rest)
     else select_tier cnt selected rest)"

definition computeCoreTexWorkUnitsBps :: "int \<Rightarrow> js_arg option \<Rightarrow> CoreTexWorkPolicy option \<Rightarrow> bigint js" where
  "computeCoreTexWorkUnitsBps outcome passes policy_opt =
     (let policy = (case policy_opt of Some p \<Rightarrow> p | None \<Rightarrow> DEFAULT_CORETEX_WORK_POLICY) in
      js_bind (assertValidCoreTexWorkPolicy policy) (\<lambda>_.
      if outcome = sp_outcome (wp_screenerPass policy) then toBigInt (sp_workUnitsBps (wp_screenerPass policy))
      else if outcome \<noteq> sa_outcome (wp_stateAdvance policy) then Inl (RangeError ''unknown CoreTex outcome'')
      else js_bind (toBigInt (arg_or_zero passes)) (\<lambda>cnt.
        js_bind (toBigInt (tier_workUnitsBps (hd (sa_tiers (wp_stateAdvance policy))))) (\<lambda>selected.
        select_tier cnt selected (sa_tiers (wp_stateAdvance policy))))))"

record ScreenerThresholdInput =
  ti_baselineScorePpm :: "js_arg option"
  ti_recentNoiseFloorPpm :: "js_arg option"
  ti_recentScreenerPasses :: "js_arg option"
  ti_recentStateAdvances :: "js_arg option"
  ti_targetStateAdvances :: "js_arg option"
  ti_recentProbePassRatePpm :: "js_arg option"
  ti_stateAdvanceThresholdPpm :: "js_arg option"
  ti_policy :: "CoreTexWorkPolicy option"

definition eased_headroom :: "ScreenerThresholdInput \<Rightarrow> bigint \<Rightarrow> bigint \<Rightarrow> bigint js" where
  "eased_headroom input plateau headroomDelta =
     js_bind (toBigInt (arg_or_zero (ti_targetStateAdvances input))) (\<lambda>target.
     if target > 0 then
       js_bind (toBigInt (arg_or_zero (ti_recentStateAdvances input))) (\<lambda>recent.
       js_bind (toBigInt (arg_or_zero (ti_recentScreenerPasses input))) (\<lambda>passes.
       let recentStateAdvances = min recent target;
           stateAdvanceGap = target - recentStateAdvances;
           supportedGap = min passes stateAdvanceGap in
       js_bind (js_bigdiv (plateau * supportedGap) target) (\<lambda>q.
       let easingBps = min plateau q in
       js_bigdiv (headroomDelta * (WORK_BPS_DIVISOR - easingBps)) WORK_BPS_DIVISOR)))
     else Inr headroomDelta)"

definition computeCoreTexScreenerThresholdPpm :: "ScreenerThresholdInput \<Rightarrow> bigint js" where
  "computeCoreTexScreenerThresholdPpm input =
     (let policy = (case ti_policy input of Some p \<Rightarrow> p | None \<Rightarrow> DEFAULT_CORETEX_WORK_POLICY);
          cal = sp_calibration (wp_screenerPass policy) in
      js_bind (assertValidCoreTexWorkPolicy policy) (\<lambda>_.
      js_bind (toBigInt (scoreScalePpm cal)) (\<lambda>scale.
      js_bind (toBigInt (arg_or_zero (ti_baselineScorePpm input))) (\<lambda>base.
      let baseline = clamp base 0 scale; remaining = scale - baseline in
      js_bind (toBigInt (minDeltaPpm cal)) (\<lambda>minDelta.
      js_bind (toBigInt (remainingHeadroomBps cal)) (\<lambda>headroomBps.
      js_bind (js_bigdiv (remaining * headroomBps) WORK_BPS_DIVISOR) (\<lambda>headroomDelta.
      js_bind (toBigInt (arg_or_zero (ti_recentNoiseFloorPpm input))) (\<lambda>noise.
      js_bind (toBigInt (noiseFloorMultiplierBps cal)) (\<lambda>noiseMul.
      js_bind (js_bigdiv (noise * noiseMul) WORK_BPS_DIVISOR) (\<lambda>noiseDelta.
      js_bind (toBigInt (arg_or_zero (stateAdvanceThresholdFloorBps cal))) (\<lambda>floorBps.
      js_bind (js_require (\<not> (floorBps > 0 \<and> ti_stateAdvanceThresholdPpm input = None))
        (RangeError ''stateAdvanceThresholdPpm is required when stateAdvanceThresholdFloorBps is enabled'')) (\<lambda>_.
      js_bind (toBigInt (arg_or_zero (ti_stateAdvanceThresholdPpm input))) (\<lambda>sat.
      js_bind (js_require (\<not> (floorBps > 0 \<and> sat \<le> 0))
        (RangeError ''stateAdvanceThresholdPpm must be positive when stateAdvanceThresholdFloorBps is enabled'')) (\<lambda>_.
      js_bind (if sat > 0 \<and> floorBps > 0 then ceilDiv (sat * floorBps) WORK_BPS_DIVISOR else Inr 0) (\<lambda>floorDelta.
      js_bind (toBigInt (plateauEasingMaxBps cal)) (\<lambda>plateau.
      js_bind (eased_headroom input plateau headroomDelta) (\<lambda>adjustedHeadroomDelta.
      js_bind (toBigInt (arg_or_zero (ti_recentProbePassRatePpm input))) (\<lambda>probe.
      let probePassRate = clamp probe 0 scale in
      js_bind (toBigInt (maxAntiGamingPenaltyBps cal)) (\<lambda>maxPenalty.
      js_bind (toBigInt (antiGamingProbeMultiplierBps cal)) (\<lambda>probeMul.
      js_bind (js_bigdiv (probePassRate * probeMul) scale) (\<lambda>q.
      let antiGamingPenaltyBps = min maxPenalty q in
      js_bind (toBigInt (maxThresholdPpm cal)) (\<lambda>maxThreshold.
      let rawThreshold = max (max minDelta floorDelta) (max adjustedHeadroomDelta noiseDelta) in
      js_bind (js_bigdiv (rawThreshold * (WORK_BPS_DIVISOR + antiGamingPenaltyBps)) WORK_BPS_DIVISOR) (\<lambda>penalizedThreshold.
      let dynamicCeiling = (if sat > 0 then min maxThreshold sat else maxThreshold) in
      Inr (min penalizedThreshold dynamicCeiling))))))))))))))))))))))))"

datatype work_reason = W_OK | W01_UNKNOWN_OUTCOME | W02_STALE_PARENT | W03_DETERMINISTIC_DELTA_TOO_LOW
  | W04_LOCAL_MODEL_REGRESSION | W05_RELEVANT_NEAR_COLLISION | W06_STATE_NOT_ADVANCED

record CoreTexWorkQualification =
  q_qualified :: bool
  q_reason :: work_reason
  q_workUnitsBps :: bigint
  requiredDeterministicDeltaPpm :: bigint

record QualificationInput =
  qi_outcome :: int
  qi_passes :: "js_arg option"
  qi_threshold :: ScreenerThresholdInput
  qi_deterministicDeltaPpm :: js_arg
  qi_localModelDeltaPpm :: "js_arg option"
  qi_relevantNearCollisionPpm :: "js_arg option"
  qi_parentMatchesLiveRoot :: bool
  qi_liveStateAdvanced :: bool

definition unqualified :: "work_reason \<Rightarrow> bigint \<Rightarrow> CoreTexWorkQualification" where
  "unqualified r required = \<lparr>q_qualified = False, q_reason = r, q_workUnitsBps = 0, requiredDeterministicDeltaPpm = required\<rparr>"

definition near_collision :: "QualificationInput \<Rightarrow> CoreTexWorkPolicy \<Rightarrow> bool js" where
  "near_collision input policy = (case qi_relevantNearCollisionPpm input of
       None \<Rightarrow> Inr False
     | Some c \<Rightarrow> js_bind (toBigInt (sp_maxRelevantNearCollisionPpm (wp_screenerPass policy))) (\<lambda>maxCollision.
         js_bind (toBigInt c) (\<lambda>v. Inr (v > maxCollision))))"

definition required_delta :: "CoreTexWorkPolicy \<Rightarrow> bool \<Rightarrow> bigint \<Rightarrow> bigint \<Rightarrow> bigint js" where
  "required_delta policy isStateAdvance screenerThreshold stateAdvanceThreshold =
     (if isStateAdvance then
        js_bind (toBigInt (sa_minDeterministicDeltaPpm (wp_stateAdvance policy))) (\<lambda>m. Inr (max (max m screenerThreshold) stateAdvanceThreshold))
      else Inr screenerThreshold)"

definition grant_or_refuse :: "QualificationInput \<Rightarrow> CoreTexWorkPolicy \<Rightarrow> bool \<Rightarrow> bigint \<Rightarrow> bigint \<Rightarrow> bigint \<Rightarrow> bigint
    \<Rightarrow> CoreTexWorkQualification js" where
  "grant_or_refuse input policy isStateAdvance deterministicDelta localModelDelta minDeterministic minLocal =
     (if deterministicDelta < minDeterministic then Inr (unqualified W03_DETERMINISTIC_DELTA_TOO_LOW minDeterministic)
      else if localModelDelta < minLocal then Inr (unqualified W04_LOCAL_MODEL_REGRESSION minDeterministic)
      else js_bind (near_collision input policy) (\<lambda>collides.
        if collides then Inr (unqualified W05_RELEVANT_NEAR_COLLISION minDeterministic)
        else if isStateAdvance \<and> sa_requireLiveStateAdvance (wp_stateAdvance policy) \<and> \<not> qi_liveStateAdvanced input
          then Inr (unqualified W06_STATE_NOT_ADVANCED minDeterministic)
        else js_bind (computeCoreTexWorkUnitsBps (qi_outcome input) (qi_passes input) (ti_policy (qi_threshold input))) (\<lambda>units.
          Inr \<lparr>q_qualified = True, q_reason = W_OK, q_workUnitsBps = units, requiredDeterministicDeltaPpm = minDeterministic\<rparr>)))"

definition evaluateCoreTexWorkQualification :: "QualificationInput \<Rightarrow> CoreTexWorkQualification js" where
  "evaluateCoreTexWorkQualification input =
     (let policy = (case ti_policy (qi_threshold input) of Some p \<Rightarrow> p | None \<Rightarrow> DEFAULT_CORETEX_WORK_POLICY);
          isStateAdvance = (qi_outcome input = sa_outcome (wp_stateAdvance policy)) in
      js_bind (assertValidCoreTexWorkPolicy policy) (\<lambda>_.
      if qi_outcome input \<noteq> sp_outcome (wp_screenerPass policy) \<and> \<not> isStateAdvance then Inr (unqualified W01_UNKNOWN_OUTCOME 0)
      else if \<not> qi_parentMatchesLiveRoot input then Inr (unqualified W02_STALE_PARENT 0)
      else
        js_bind (toSignedBigInt (qi_deterministicDeltaPpm input)) (\<lambda>deterministicDelta.
        js_bind (toSignedBigInt (arg_or_zero (qi_localModelDeltaPpm input))) (\<lambda>localModelDelta.
        js_bind (computeCoreTexScreenerThresholdPpm ((qi_threshold input)\<lparr>ti_policy := Some policy\<rparr>)) (\<lambda>screenerThreshold.
        js_bind (toBigInt (arg_or_zero (ti_stateAdvanceThresholdPpm (qi_threshold input)))) (\<lambda>stateAdvanceThreshold.
        js_bind (required_delta policy isStateAdvance screenerThreshold stateAdvanceThreshold) (\<lambda>minDeterministic.
        js_bind (toBigInt (if isStateAdvance then sa_minLocalModelDeltaPpm (wp_stateAdvance policy)
            else sp_minLocalModelDeltaPpm (wp_screenerPass policy))) (\<lambda>minLocal.
        grant_or_refuse input policy isStateAdvance deterministicDelta localModelDelta minDeterministic minLocal))))))))"

section \<open>Conversions\<close>

lemma digits_acc_nonneg: "digits_acc r acc s = Some n \<Longrightarrow> 0 \<le> acc \<Longrightarrow> 0 \<le> n"
  by (induction s arbitrary: acc) (auto split: option.splits if_splits)

lemma decimal_head: "decimal_string s \<Longrightarrow> \<exists>c cs. s = c # cs \<and> decimal_digit c \<and> list_all decimal_digit cs"
  by (cases s) (auto simp: decimal_string_def decimal_digit_def)

lemma decimal_digit_plain:
  "decimal_digit c \<Longrightarrow> \<not> js_space c \<and> c \<noteq> CHR ''-'' \<and> c \<noteq> CHR ''+'' \<and> c \<noteq> CHR ''x'' \<and> c \<noteq> CHR ''X'' \<and> c \<noteq> CHR ''o''
    \<and> c \<noteq> CHR ''O'' \<and> c \<noteq> CHR ''b'' \<and> c \<noteq> CHR ''B''"
  by (auto simp: decimal_digit_def js_space_def Let_def)

lemma js_BigInt_decimal: "decimal_string s \<Longrightarrow> js_BigInt s = (case digits_value 10 s of None \<Rightarrow> Inl (JsError ''SyntaxError: Cannot convert to a BigInt'') | Some n \<Rightarrow> Inr n)"
proof -
  assume dec: "decimal_string s"
  then obtain c cs where s: "s = c # cs" "decimal_digit c" "list_all decimal_digit cs" using decimal_head by blast
  have "\<not> js_space (last s)" using s decimal_digit_plain by (auto simp: list_all_iff)
  then have "\<not> js_space (hd (rev s))" by (simp add: hd_rev)
  then have "dropWhile js_space (rev s) = rev s" by (cases "rev s") simp_all
  moreover have "dropWhile js_space s = s" using s decimal_digit_plain by auto
  moreover have "take 2 s \<notin> {''0x'', ''0X'', ''0o'', ''0O'', ''0b'', ''0B''}"
    using s decimal_digit_plain by (cases cs) auto
  ultimately show ?thesis using s decimal_digit_plain [OF s(2)] by (auto simp: js_BigInt_def Let_def)
qed

lemma toBigInt_nonneg [dest]: "toBigInt v = Inr n \<Longrightarrow> 0 \<le> n"
  by (auto simp: toBigInt_def js_BigInt_decimal digits_value_def split: js_arg.splits if_splits option.splits dest: digits_acc_nonneg)

lemma toBigInt_Big [simp]: "toBigInt (ArgBig n) = Inr m \<longleftrightarrow> 0 \<le> n \<and> m = n"
  by (auto simp: toBigInt_def)

section \<open>Valid policies\<close>

lemma default_policy_valid: "assertValidCoreTexWorkPolicy DEFAULT_CORETEX_WORK_POLICY = Inr ()"
  by code_simp

definition cal_ok :: "ScreenerCalibration \<Rightarrow> bool" where
  "cal_ok cal \<longleftrightarrow> toBigInt (scoreScalePpm cal) = Inr 1000000 \<and>
     (\<exists>minDelta maxT plateau floorBps penalty headroom noise probe.
       toBigInt (minDeltaPpm cal) = Inr minDelta \<and> 10 \<le> minDelta \<and>
       toBigInt (maxThresholdPpm cal) = Inr maxT \<and> minDelta \<le> maxT \<and>
       toBigInt (plateauEasingMaxBps cal) = Inr plateau \<and> plateau \<le> 10000 \<and>
       toBigInt (arg_or_zero (stateAdvanceThresholdFloorBps cal)) = Inr floorBps \<and> floorBps \<le> 10000 \<and>
       toBigInt (maxAntiGamingPenaltyBps cal) = Inr penalty \<and> penalty \<le> 100000 \<and>
       toBigInt (remainingHeadroomBps cal) = Inr headroom \<and> 0 < headroom \<and>
       toBigInt (noiseFloorMultiplierBps cal) = Inr noise \<and> 10000 \<le> noise \<and>
       toBigInt (antiGamingProbeMultiplierBps cal) = Inr probe \<and> 0 < probe)"

lemma check_calibration_ok: "check_calibration cal = Inr u \<longleftrightarrow> cal_ok cal"
  unfolding check_calibration_def cal_ok_def
  by (auto simp: js_bind_eq_Inr_iff not_less dest: toBigInt_nonneg) (metis le_less toBigInt_nonneg)+

text \<open>Tiers as numbers: strictly increasing minima, nondecreasing payments of at least 3x.\<close>

definition tier_values :: "StateAdvanceWorkTier list \<Rightarrow> (bigint \<times> bigint) list js" where
  "tier_values tiers = js_map (\<lambda>t. js_bind (toBigInt (minQualifiedScreenerPasses t)) (\<lambda>mn.
     js_bind (toBigInt (tier_workUnitsBps t)) (\<lambda>bps. Inr (mn, bps)))) tiers"

definition tiers_ok :: "bigint \<Rightarrow> bigint \<Rightarrow> (bigint \<times> bigint) list \<Rightarrow> bool" where
  "tiers_ok prevMin prevBps ts \<longleftrightarrow> sorted_wrt (\<lambda>a b. fst a < fst b \<and> snd a \<le> snd b) ((prevMin, prevBps) # ts) \<and>
     list_all (\<lambda>t. 30000 \<le> snd t) ts"

lemma tier_values_Cons: "tier_values (t # ts) = Inr vs \<longleftrightarrow> (\<exists>mn bps ws. vs = (mn, bps) # ws \<and>
   toBigInt (minQualifiedScreenerPasses t) = Inr mn \<and> toBigInt (tier_workUnitsBps t) = Inr bps \<and> tier_values ts = Inr ws)"
  by (auto simp: tier_values_def js_bind_eq_Inr_iff)

lemma tier_values_Nil [simp]: "tier_values [] = Inr []"
  by (simp add: tier_values_def)

lemma check_tiers_ok: "check_tiers pm pb ts = Inr u \<longleftrightarrow> (\<exists>vs. tier_values ts = Inr vs \<and> tiers_ok pm pb vs)"
proof (induction ts arbitrary: pm pb)
  case (Cons t ts)
  have ok: "tiers_ok pm pb ((mn, bps) # ws) \<longleftrightarrow> pm < mn \<and> 30000 \<le> bps \<and> pb \<le> bps \<and> tiers_ok mn bps ws" for mn bps ws
    by (fastforce simp: tiers_ok_def)
  have step: "check_tiers pm pb (t # ts) = Inr u \<longleftrightarrow> (\<exists>mn bps. toBigInt (minQualifiedScreenerPasses t) = Inr mn \<and>
      toBigInt (tier_workUnitsBps t) = Inr bps \<and> pm < mn \<and> 30000 \<le> bps \<and> pb \<le> bps \<and> check_tiers mn bps ts = Inr u)"
    by (simp add: js_bind_eq_Inr_iff not_le not_less)
  show ?case unfolding step Cons.IH tier_values_Cons by (auto simp: ok)
qed (simp add: tiers_ok_def)

lemma select_tier_value:
  "tier_values ts = Inr vs \<Longrightarrow> select_tier n sel ts = Inr (last (sel # map snd (filter (\<lambda>v. fst v \<le> n) vs)))"
proof (induction ts arbitrary: sel vs)
  case (Cons t ts)
  then obtain mn bps ws where v: "vs = (mn, bps) # ws" "toBigInt (minQualifiedScreenerPasses t) = Inr mn"
    "toBigInt (tier_workUnitsBps t) = Inr bps" "tier_values ts = Inr ws" unfolding tier_values_Cons by blast
  show ?case using Cons.IH [OF v(4)] by (simp add: v)
qed simp

lemma valid_policy:
  assumes "assertValidCoreTexWorkPolicy p = Inr u"
  shows "sp_outcome (wp_screenerPass p) = 1" "sa_outcome (wp_stateAdvance p) = 2" "cal_ok (sp_calibration (wp_screenerPass p))"
    "toBigInt (sp_workUnitsBps (wp_screenerPass p)) = Inr 10000"
    "\<exists>bps vs. tier_values (sa_tiers (wp_stateAdvance p)) = Inr ((0, bps) # vs) \<and> tiers_ok (-1) 0 ((0, bps) # vs) \<and>
       sa_tiers (wp_stateAdvance p) \<noteq> [] \<and> toBigInt (tier_workUnitsBps (hd (sa_tiers (wp_stateAdvance p)))) = Inr bps"
proof -
  note v = assms [unfolded assertValidCoreTexWorkPolicy_def js_bind_eq_Inr_iff js_require_Inr check_calibration_ok check_tiers_ok]
  show "sp_outcome (wp_screenerPass p) = 1" "sa_outcome (wp_stateAdvance p) = 2" "cal_ok (sp_calibration (wp_screenerPass p))"
    "toBigInt (sp_workUnitsBps (wp_screenerPass p)) = Inr 10000" using v by blast+
  obtain t ts where t: "sa_tiers (wp_stateAdvance p) = t # ts" using v by (cases "sa_tiers (wp_stateAdvance p)") auto
  obtain vs where vs: "tier_values (t # ts) = Inr vs" "tiers_ok (-1) 0 vs" "toBigInt (minQualifiedScreenerPasses t) = Inr 0"
    using v t by auto
  then show "\<exists>bps vs. tier_values (sa_tiers (wp_stateAdvance p)) = Inr ((0, bps) # vs) \<and> tiers_ok (-1) 0 ((0, bps) # vs) \<and>
       sa_tiers (wp_stateAdvance p) \<noteq> [] \<and> toBigInt (tier_workUnitsBps (hd (sa_tiers (wp_stateAdvance p)))) = Inr bps"
    using t by (auto simp: tier_values_Cons)
qed

section \<open>Work units\<close>

text \<open>What a state advance after \<open>n\<close> passes pays: the amount of the last tier that \<open>n\<close> reaches.\<close>

definition tier_amount :: "(bigint \<times> bigint) list \<Rightarrow> bigint \<Rightarrow> bigint" where
  "tier_amount vs n = snd (last (filter (\<lambda>v. fst v \<le> n) vs))"

lemma compute_advance:
  assumes "assertValidCoreTexWorkPolicy p = Inr u" "toBigInt (arg_or_zero passes) = Inr n"
  shows "\<exists>vs. tier_values (sa_tiers (wp_stateAdvance p)) = Inr vs \<and> tiers_ok (-1) 0 vs \<and> filter (\<lambda>v. fst v \<le> n) vs \<noteq> [] \<and>
    computeCoreTexWorkUnitsBps 2 passes (Some p) = Inr (tier_amount vs n)"
proof -
  obtain bps vs where v: "tier_values (sa_tiers (wp_stateAdvance p)) = Inr ((0, bps) # vs)" "tiers_ok (-1) 0 ((0, bps) # vs)"
      "toBigInt (tier_workUnitsBps (hd (sa_tiers (wp_stateAdvance p)))) = Inr bps"
    using valid_policy(5) [OF assms(1)] by blast
  have n: "0 \<le> n" using assms(2) by blast
  have "select_tier n bps (sa_tiers (wp_stateAdvance p)) = Inr (tier_amount ((0, bps) # vs) n)"
    using select_tier_value [OF v(1), of n bps] n by (simp add: tier_amount_def last_map)
  then show ?thesis
    using v n assms valid_policy(1,2) [OF assms(1)] by (auto simp: computeCoreTexWorkUnitsBps_def)
qed

lemma tier_amount_bounds:
  assumes "tiers_ok pm pb vs" "filter (\<lambda>v. fst v \<le> n) vs \<noteq> []"
  shows "30000 \<le> tier_amount vs n"
  using last_in_set [OF assms(2)] assms(1) by (auto simp: tier_amount_def tiers_ok_def list_all_iff)

lemma tier_amount_mono:
  assumes "tiers_ok pm pb vs" "filter (\<lambda>v. fst v \<le> n) vs \<noteq> []" "n \<le> m"
  shows "tier_amount vs n \<le> tier_amount vs m"
proof -
  have srt: "sorted_wrt (\<lambda>a b. fst a < fst b \<and> snd a \<le> snd b) vs" using assms(1) by (simp add: tiers_ok_def)
  have sub: "set (filter (\<lambda>v. fst v \<le> n) vs) \<subseteq> set (filter (\<lambda>v. fst v \<le> m) vs)" using assms(3) by auto
  let ?f = "filter (\<lambda>v. fst v \<le> m) vs"
  have ne: "?f \<noteq> []" using sub assms(2) by (metis set_empty subset_empty)
  have "x = last ?f \<or> snd x \<le> snd (last ?f)" if "x \<in> set ?f" for x
  proof -
    have "sorted_wrt (\<lambda>a b. fst a < fst b \<and> snd a \<le> snd b) (butlast ?f @ [last ?f])"
      using srt ne by (simp add: sorted_wrt_filter)
    moreover have "x \<in> set (butlast ?f) \<or> x = last ?f" using that ne by (metis append_butlast_last_id in_set_conv_decomp rotate1.simps(2) set_ConsD set_rotate1)
    ultimately show ?thesis by (auto simp: sorted_wrt_append)
  qed
  then show ?thesis using last_in_set [OF assms(2)] sub unfolding tier_amount_def by fastforce
qed

text \<open>C29. Payments follow the policy: under any valid policy a screener pass pays exactly 1x, a state advance pays the
  amount of the last tier that the pass counter reaches, at least 3x and never less for a higher
  counter, and any other outcome is an error.\<close>

theorem workUnits_pay:
  assumes "assertValidCoreTexWorkPolicy p = Inr ()" "toBigInt (arg_or_zero a) = Inr n" "toBigInt (arg_or_zero b) = Inr m" "n \<le> m"
  shows "computeCoreTexWorkUnitsBps 1 a (Some p) = Inr 10000 \<and>
    (\<exists>x y vs. computeCoreTexWorkUnitsBps 2 a (Some p) = Inr x \<and> computeCoreTexWorkUnitsBps 2 b (Some p) = Inr y \<and>
      tier_values (sa_tiers (wp_stateAdvance p)) = Inr vs \<and> x = tier_amount vs n \<and> 30000 \<le> x \<and> x \<le> y) \<and>
    (\<forall>k. k \<noteq> 1 \<and> k \<noteq> 2 \<longrightarrow> computeCoreTexWorkUnitsBps k a (Some p) = Inl (RangeError ''unknown CoreTex outcome''))"
proof -
  note v = valid_policy [OF assms(1)]
  obtain vs where vs: "tier_values (sa_tiers (wp_stateAdvance p)) = Inr vs" "tiers_ok (-1) 0 vs" "filter (\<lambda>v. fst v \<le> n) vs \<noteq> []"
    "computeCoreTexWorkUnitsBps 2 a (Some p) = Inr (tier_amount vs n)" using compute_advance [OF assms(1,2)] by blast
  have "computeCoreTexWorkUnitsBps 2 b (Some p) = Inr (tier_amount vs m)" using compute_advance [OF assms(1,3)] vs(1) by auto
  moreover have "computeCoreTexWorkUnitsBps 1 a (Some p) = Inr 10000" using v assms(1) by (simp add: computeCoreTexWorkUnitsBps_def)
  moreover have "computeCoreTexWorkUnitsBps k a (Some p) = Inl (RangeError ''unknown CoreTex outcome'')" if "k \<noteq> 1 \<and> k \<noteq> 2" for k
    using that v assms(1) by (simp add: computeCoreTexWorkUnitsBps_def)
  ultimately show ?thesis using vs tier_amount_bounds [OF vs(2,3)] tier_amount_mono [OF vs(2,3) assms(4)] by blast
qed

theorem workUnits_pay_witness:
  "computeCoreTexWorkUnitsBps 1 (Some (ArgBig 99)) (Some DEFAULT_CORETEX_WORK_POLICY) = Inr 10000"
  using workUnits_pay [OF default_policy_valid, of "Some (ArgBig 99)" 99 "Some (ArgBig 100)" 100] by (simp add: arg_or_zero_def)

section \<open>Screener threshold\<close>

text \<open>The numbers of a calibration and of a threshold input.\<close>

record cal_values =
  cv_minDelta :: int
  cv_maxThreshold :: int
  cv_plateau :: int
  cv_floorBps :: int
  cv_penalty :: int
  cv_headroom :: int
  cv_noise :: int
  cv_probe :: int

definition cal_reads :: "ScreenerCalibration \<Rightarrow> cal_values \<Rightarrow> bool" where
  "cal_reads cal v \<longleftrightarrow> toBigInt (scoreScalePpm cal) = Inr 1000000 \<and> toBigInt (minDeltaPpm cal) = Inr (cv_minDelta v) \<and>
     toBigInt (maxThresholdPpm cal) = Inr (cv_maxThreshold v) \<and> toBigInt (plateauEasingMaxBps cal) = Inr (cv_plateau v) \<and>
     toBigInt (arg_or_zero (stateAdvanceThresholdFloorBps cal)) = Inr (cv_floorBps v) \<and>
     toBigInt (maxAntiGamingPenaltyBps cal) = Inr (cv_penalty v) \<and> toBigInt (remainingHeadroomBps cal) = Inr (cv_headroom v) \<and>
     toBigInt (noiseFloorMultiplierBps cal) = Inr (cv_noise v) \<and> toBigInt (antiGamingProbeMultiplierBps cal) = Inr (cv_probe v)"

definition cal_in_range :: "cal_values \<Rightarrow> bool" where
  "cal_in_range v \<longleftrightarrow> 10 \<le> cv_minDelta v \<and> cv_minDelta v \<le> cv_maxThreshold v \<and> 0 \<le> cv_plateau v \<and> cv_plateau v \<le> 10000 \<and>
     0 \<le> cv_floorBps v \<and> cv_floorBps v \<le> 10000 \<and> 0 \<le> cv_penalty v \<and> cv_penalty v \<le> 100000 \<and> 0 < cv_headroom v \<and>
     10000 \<le> cv_noise v \<and> 0 < cv_probe v"

lemma cal_ok_reads: "cal_ok cal \<Longrightarrow> \<exists>v. cal_reads cal v \<and> cal_in_range v"
proof -
  assume "cal_ok cal"
  then obtain minDelta maxT plateau floorBps penalty headroom noise probe where
    c: "toBigInt (scoreScalePpm cal) = Inr 1000000" "toBigInt (minDeltaPpm cal) = Inr minDelta" "10 \<le> minDelta"
      "toBigInt (maxThresholdPpm cal) = Inr maxT" "minDelta \<le> maxT"
      "toBigInt (plateauEasingMaxBps cal) = Inr plateau" "plateau \<le> 10000"
      "toBigInt (arg_or_zero (stateAdvanceThresholdFloorBps cal)) = Inr floorBps" "floorBps \<le> 10000"
      "toBigInt (maxAntiGamingPenaltyBps cal) = Inr penalty" "penalty \<le> 100000"
      "toBigInt (remainingHeadroomBps cal) = Inr headroom" "0 < headroom"
      "toBigInt (noiseFloorMultiplierBps cal) = Inr noise" "10000 \<le> noise"
      "toBigInt (antiGamingProbeMultiplierBps cal) = Inr probe" "0 < probe"
    unfolding cal_ok_def by blast
  have "0 \<le> plateau" "0 \<le> floorBps" "0 \<le> penalty" using c(6,8,10) by blast+
  then show ?thesis using c
    by (intro exI [of _ "\<lparr>cv_minDelta = minDelta, cv_maxThreshold = maxT, cv_plateau = plateau, cv_floorBps = floorBps,
        cv_penalty = penalty, cv_headroom = headroom, cv_noise = noise, cv_probe = probe\<rparr>"])
      (simp add: cal_reads_def cal_in_range_def)
qed

record threshold_values =
  tv_base :: int
  tv_noise :: int
  tv_passes :: int
  tv_recent :: int
  tv_target :: int
  tv_probe :: int
  tv_sat :: int

definition threshold_reads :: "ScreenerThresholdInput \<Rightarrow> threshold_values \<Rightarrow> bool" where
  "threshold_reads i t \<longleftrightarrow> toBigInt (arg_or_zero (ti_baselineScorePpm i)) = Inr (tv_base t) \<and>
     toBigInt (arg_or_zero (ti_recentNoiseFloorPpm i)) = Inr (tv_noise t) \<and>
     toBigInt (arg_or_zero (ti_recentScreenerPasses i)) = Inr (tv_passes t) \<and>
     toBigInt (arg_or_zero (ti_recentStateAdvances i)) = Inr (tv_recent t) \<and>
     toBigInt (arg_or_zero (ti_targetStateAdvances i)) = Inr (tv_target t) \<and>
     toBigInt (arg_or_zero (ti_recentProbePassRatePpm i)) = Inr (tv_probe t) \<and>
     toBigInt (arg_or_zero (ti_stateAdvanceThresholdPpm i)) = Inr (tv_sat t)"

definition easing :: "cal_values \<Rightarrow> threshold_values \<Rightarrow> int" where
  "easing v t = (if 0 < tv_target t then
     min (cv_plateau v) (cv_plateau v * min (tv_passes t) (tv_target t - min (tv_recent t) (tv_target t)) div tv_target t) else 0)"

definition headroom_delta :: "cal_values \<Rightarrow> threshold_values \<Rightarrow> int" where
  "headroom_delta v t = (1000000 - min (max (tv_base t) 0) 1000000) * cv_headroom v div 10000"

definition floor_delta :: "cal_values \<Rightarrow> threshold_values \<Rightarrow> int" where
  "floor_delta v t = (if 0 < tv_sat t \<and> 0 < cv_floorBps v then (tv_sat t * cv_floorBps v + 9999) div 10000 else 0)"

definition raw_threshold :: "cal_values \<Rightarrow> threshold_values \<Rightarrow> int" where
  "raw_threshold v t = max (max (cv_minDelta v) (floor_delta v t))
     (max (headroom_delta v t * (10000 - easing v t) div 10000) (tv_noise t * cv_noise v div 10000))"

definition penalty_bps :: "cal_values \<Rightarrow> threshold_values \<Rightarrow> int" where
  "penalty_bps v t = min (cv_penalty v) (min (max (tv_probe t) 0) 1000000 * cv_probe v div 1000000)"

definition threshold_ceiling :: "cal_values \<Rightarrow> threshold_values \<Rightarrow> int" where
  "threshold_ceiling v t = (if 0 < tv_sat t then min (cv_maxThreshold v) (tv_sat t) else cv_maxThreshold v)"

definition screener_threshold :: "cal_values \<Rightarrow> threshold_values \<Rightarrow> int" where
  "screener_threshold v t = min (raw_threshold v t * (10000 + penalty_bps v t) div 10000) (threshold_ceiling v t)"

lemma easing_bounds: "cal_in_range v \<Longrightarrow> threshold_reads i t \<Longrightarrow> 0 \<le> easing v t \<and> easing v t \<le> 10000"
proof -
  assume c: "cal_in_range v" and r: "threshold_reads i t"
  have "0 \<le> tv_passes t" using r by (auto simp: threshold_reads_def)
  then have "0 \<le> cv_plateau v * min (tv_passes t) (tv_target t - min (tv_recent t) (tv_target t))"
    using c by (simp add: cal_in_range_def)
  then show ?thesis using c by (auto simp: easing_def cal_in_range_def min_def pos_imp_zdiv_nonneg_iff)
qed

lemma eased_headroom_value:
  assumes "cal_in_range v" "threshold_reads i t" "0 \<le> h"
  shows "eased_headroom i (cv_plateau v) h = Inr (h * (10000 - easing v t) div 10000)"
proof -
  have nn: "0 \<le> tv_passes t" using assms(2) by (auto simp: threshold_reads_def)
  then have "0 \<le> cv_plateau v * min (tv_passes t) (tv_target t - min (tv_recent t) (tv_target t))"
    using assms(1) by (simp add: cal_in_range_def)
  then show ?thesis
    using assms easing_bounds [OF assms(1,2)]
    by (auto simp: eased_headroom_def threshold_reads_def js_bigdiv_nonneg easing_def Let_def)
qed

lemma headroom_delta_nonneg: "cal_in_range v \<Longrightarrow> 0 \<le> headroom_delta v t"
  by (simp add: headroom_delta_def cal_in_range_def pos_imp_zdiv_nonneg_iff)

lemma threshold_eq:
  assumes "assertValidCoreTexWorkPolicy p = Inr ()" "ti_policy i = Some p" "cal_reads (sp_calibration (wp_screenerPass p)) v" "cal_in_range v"
    "threshold_reads i t" "0 < cv_floorBps v \<longrightarrow> 0 < tv_sat t"
  shows "computeCoreTexScreenerThresholdPpm i = Inr (screener_threshold v t)"
proof -
  note c = assms(3) [unfolded cal_reads_def] and r = assms(5) [unfolded threshold_reads_def]
  have nn: "0 \<le> tv_noise t" "0 \<le> tv_sat t" using r by auto
  have some: "ti_stateAdvanceThresholdPpm i \<noteq> None" if "0 < cv_floorBps v"
  proof
    assume "ti_stateAdvanceThresholdPpm i = None"
    then have "tv_sat t = 0" using r by (simp add: arg_or_zero_def)
    then show False using assms(6) that by simp
  qed
  have nle: "\<not> tv_sat t \<le> 0" if "0 < cv_floorBps v" using assms(6) that by simp
  have head: "js_bigdiv ((1000000 - clamp (tv_base t) 0 1000000) * cv_headroom v) 10000 = Inr (headroom_delta v t)"
    using assms(4) by (simp add: js_bigdiv_nonneg headroom_delta_def cal_in_range_def clamp_def)
  have noise: "js_bigdiv (tv_noise t * cv_noise v) 10000 = Inr (tv_noise t * cv_noise v div 10000)"
    using nn assms(4) by (simp add: js_bigdiv_nonneg cal_in_range_def)
  have flr: "(if 0 < tv_sat t \<and> 0 < cv_floorBps v then ceilDiv (tv_sat t * cv_floorBps v) 10000 else Inr 0) = Inr (floor_delta v t)"
    using nn by (simp add: ceilDiv_def js_bigdiv_nonneg floor_delta_def add.commute)
  have probe: "js_bigdiv (clamp (tv_probe t) 0 1000000 * cv_probe v) 1000000 = Inr (min (max (tv_probe t) 0) 1000000 * cv_probe v div 1000000)"
    using assms(4) by (simp add: js_bigdiv_nonneg cal_in_range_def clamp_def)
  have raw: "0 \<le> raw_threshold v t" using assms(4) by (simp add: raw_threshold_def cal_in_range_def le_max_iff_disj)
  have pen: "0 \<le> penalty_bps v t" using assms(4) by (simp add: penalty_bps_def cal_in_range_def pos_imp_zdiv_nonneg_iff)
  have last: "js_bigdiv (raw_threshold v t * (10000 + penalty_bps v t)) 10000 = Inr (raw_threshold v t * (10000 + penalty_bps v t) div 10000)"
    using raw pen by (simp add: js_bigdiv_nonneg)
  show ?thesis
    unfolding computeCoreTexScreenerThresholdPpm_def Let_def assms(2) option.case assms(1) js_bind_Inr
    using c r head noise flr probe last some nle eased_headroom_value [OF assms(4,5) headroom_delta_nonneg [OF assms(4)]]
    by (simp add: js_require_def raw_threshold_def [symmetric] penalty_bps_def [symmetric] screener_threshold_def threshold_ceiling_def)
qed

lemma penalty_mono:
  "cal_in_range v \<Longrightarrow> tv_probe t \<le> pr \<Longrightarrow> 0 \<le> penalty_bps v t \<and> penalty_bps v t \<le> penalty_bps v (t\<lparr>tv_probe := pr\<rparr>)"
proof -
  assume c: "cal_in_range v" and le: "tv_probe t \<le> pr"
  have "penalty_bps v t \<le> penalty_bps v (t\<lparr>tv_probe := pr\<rparr>)"
    unfolding penalty_bps_def using c le
    by (intro min.mono zdiv_mono1 mult_right_mono max.mono order_refl) (simp_all add: cal_in_range_def)
  moreover have "0 \<le> penalty_bps v t" using c by (simp add: penalty_bps_def cal_in_range_def pos_imp_zdiv_nonneg_iff)
  ultimately show ?thesis by simp
qed

lemma raw_threshold_probe [simp]: "raw_threshold v (t\<lparr>tv_probe := pr\<rparr>) = raw_threshold v t"
  "threshold_ceiling v (t\<lparr>tv_probe := pr\<rparr>) = threshold_ceiling v t"
  by (cases t; simp only: raw_threshold_def floor_delta_def headroom_delta_def easing_def threshold_ceiling_def threshold_values.simps)+

lemma raw_threshold_min: "cv_minDelta v \<le> raw_threshold v t" "floor_delta v t \<le> raw_threshold v t"
  by (simp_all add: raw_threshold_def le_max_iff_disj)

lemma screener_threshold_bounds:
  assumes "cal_in_range v" "0 \<le> tv_sat t"
  shows "min (raw_threshold v t) (threshold_ceiling v t) \<le> screener_threshold v t" "screener_threshold v t \<le> threshold_ceiling v t"
    "tv_probe t \<le> pr \<Longrightarrow> screener_threshold v t \<le> screener_threshold v (t\<lparr>tv_probe := pr\<rparr>)"
proof -
  have raw: "0 \<le> raw_threshold v t" using raw_threshold_min(1) [of v t] assms(1) by (simp add: cal_in_range_def)
  have pen: "0 \<le> penalty_bps v t" using penalty_mono [OF assms(1)] by blast
  have "raw_threshold v t * 10000 div 10000 \<le> raw_threshold v t * (10000 + penalty_bps v t) div 10000"
    using raw pen by (intro zdiv_mono1 mult_left_mono) simp_all
  then show "min (raw_threshold v t) (threshold_ceiling v t) \<le> screener_threshold v t" by (simp add: screener_threshold_def min.coboundedI1)
  show "screener_threshold v t \<le> threshold_ceiling v t" by (simp add: screener_threshold_def)
  assume "tv_probe t \<le> pr"
  then show "screener_threshold v t \<le> screener_threshold v (t\<lparr>tv_probe := pr\<rparr>)"
    unfolding screener_threshold_def raw_threshold_probe
    using raw penalty_mono [OF assms(1), of t pr] by (intro min.mono zdiv_mono1 mult_left_mono order_refl) simp_all
qed

lemma floor_delta_bounds:
  assumes "cal_in_range v" "0 < tv_sat t"
  shows "tv_sat t * cv_floorBps v \<le> 10000 * floor_delta v t" "floor_delta v t \<le> tv_sat t"
proof -
  have le: "tv_sat t * cv_floorBps v \<le> tv_sat t * 10000" using assms by (intro mult_left_mono) (simp_all add: cal_in_range_def)
  have nn: "0 \<le> cv_floorBps v" using assms(1) by (simp add: cal_in_range_def)
  have "(tv_sat t * cv_floorBps v + 9999) div 10000 \<le> (tv_sat t * 10000 + 9999) div 10000" using le by (intro zdiv_mono1) simp_all
  then show "floor_delta v t \<le> tv_sat t" using assms(2) by (simp add: floor_delta_def)
  show "tv_sat t * cv_floorBps v \<le> 10000 * floor_delta v t" using assms(2) nn by (auto simp: floor_delta_def)
qed

text \<open>The screener threshold stays between its floor and the state-advance line: whenever the inputs are numbers, it
  is positive, at most the policy's maximum and the state-advance threshold, at least the required
  fraction of the latter unless capped, and it never falls when abuse probes pass more often.\<close>

lemma screener_threshold_spec:
  assumes "assertValidCoreTexWorkPolicy p = Inr ()" "ti_policy i = Some p" "cal_reads (sp_calibration (wp_screenerPass p)) v"
    "threshold_reads i t" "0 < cv_floorBps v \<longrightarrow> 0 < tv_sat t" "toBigInt x = Inr pr" "tv_probe t \<le> pr"
  shows "\<exists>th th'. computeCoreTexScreenerThresholdPpm i = Inr th \<and>
    computeCoreTexScreenerThresholdPpm (i\<lparr>ti_recentProbePassRatePpm := Some x\<rparr>) = Inr th' \<and> th \<le> th' \<and>
    0 < th \<and> th \<le> cv_maxThreshold v \<and> (0 < tv_sat t \<longrightarrow> th \<le> tv_sat t) \<and> min (cv_minDelta v) (threshold_ceiling v t) \<le> th \<and>
    (tv_sat t * cv_floorBps v \<le> 10000 * th \<or> th = cv_maxThreshold v)"
proof -
  obtain w where w: "cal_reads (sp_calibration (wp_screenerPass p)) w" "cal_in_range w"
    using cal_ok_reads [OF valid_policy(3) [OF assms(1)]] by blast
  then have "w = v" using assms(3) by (simp add: cal_reads_def)
  then have rng: "cal_in_range v" using w by simp
  have sat: "0 \<le> tv_sat t" using assms(4) by (auto simp: threshold_reads_def)
  note b = screener_threshold_bounds [OF rng sat]
  have reads': "threshold_reads (i\<lparr>ti_recentProbePassRatePpm := Some x\<rparr>) (t\<lparr>tv_probe := pr\<rparr>)"
    using assms(4,6) by (simp add: threshold_reads_def) (simp add: arg_or_zero_def)
  have eq: "computeCoreTexScreenerThresholdPpm i = Inr (screener_threshold v t)"
    using assms(5) by (intro threshold_eq [OF assms(1,2,3) rng assms(4)])
  have eq': "computeCoreTexScreenerThresholdPpm (i\<lparr>ti_recentProbePassRatePpm := Some x\<rparr>) = Inr (screener_threshold v (t\<lparr>tv_probe := pr\<rparr>))"
    using assms(2,5) by (intro threshold_eq [OF assms(1) _ assms(3) rng reads']) simp_all
  have ceil: "10 \<le> cv_minDelta v" "cv_minDelta v \<le> cv_maxThreshold v" using rng by (simp_all add: cal_in_range_def)
  have lo: "min (cv_minDelta v) (threshold_ceiling v t) \<le> screener_threshold v t"
    using b(1) raw_threshold_min(1) [of v t] by linarith
  have "tv_sat t * cv_floorBps v \<le> 10000 * screener_threshold v t \<or> screener_threshold v t = cv_maxThreshold v"
  proof (cases "0 < tv_sat t")
    case True
    then have "tv_sat t * cv_floorBps v \<le> tv_sat t * 10000" using rng by (intro mult_left_mono) (simp_all add: cal_in_range_def)
    then show ?thesis
      using True b(1,2) raw_threshold_min(2) [of v t] floor_delta_bounds [OF rng True] by (auto simp: threshold_ceiling_def min_def split: if_splits)
  qed (use sat assms(5) rng lo ceil in \<open>auto simp: cal_in_range_def threshold_ceiling_def\<close>)
  then show ?thesis
    using eq eq' b(2) b(3) [OF assms(7)] lo ceil by (auto simp: threshold_ceiling_def split: if_splits)
qed

definition demo_threshold :: ScreenerThresholdInput where
  "demo_threshold = \<lparr>ti_baselineScorePpm = Some (ArgBig 400000), ti_recentNoiseFloorPpm = None, ti_recentScreenerPasses = Some (ArgBig 8),
     ti_recentStateAdvances = Some (ArgBig 1), ti_targetStateAdvances = Some (ArgBig 4), ti_recentProbePassRatePpm = None,
     ti_stateAdvanceThresholdPpm = Some (ArgBig 2500), ti_policy = Some DEFAULT_CORETEX_WORK_POLICY\<rparr>"

definition default_cal :: cal_values where
  "default_cal = \<lparr>cv_minDelta = 50, cv_maxThreshold = 150000, cv_plateau = 5000, cv_floorBps = 5000, cv_penalty = 50000,
     cv_headroom = 5, cv_noise = 20000, cv_probe = 20000\<rparr>"

section \<open>Qualification\<close>

text \<open>The two ways a qualification ends: refused with a reason, or granted after every gate.\<close>

lemma grant_or_refuse_ends:
  assumes "grant_or_refuse q p adv d l m ml = Inr r" "ti_policy (qi_threshold q) = Some p"
  shows "(\<exists>w n. w \<noteq> W_OK \<and> r = unqualified w n) \<or>
     (\<exists>u. m \<le> d \<and> (adv \<and> sa_requireLiveStateAdvance (wp_stateAdvance p) \<longrightarrow> qi_liveStateAdvanced q) \<and>
       computeCoreTexWorkUnitsBps (qi_outcome q) (qi_passes q) (Some p) = Inr u \<and>
       r = \<lparr>q_qualified = True, q_reason = W_OK, q_workUnitsBps = u, requiredDeterministicDeltaPpm = m\<rparr>)"
  using assms unfolding grant_or_refuse_def by (auto simp: js_bind_eq_Inr_iff not_less split: if_splits)

lemma required_delta_bounds:
  "required_delta p adv th sat = Inr m \<Longrightarrow> th \<le> m \<and> (adv \<longrightarrow> sat \<le> m)"
  by (auto simp: required_delta_def js_bind_eq_Inr_iff split: if_splits)

lemma qualification_ends:
  assumes "evaluateCoreTexWorkQualification q = Inr r" "ti_policy (qi_threshold q) = Some p"
  shows "(\<exists>w n. w \<noteq> W_OK \<and> r = unqualified w n) \<or>
     (\<exists>d l th sat m ml. (qi_outcome q = 1 \<or> qi_outcome q = 2) \<and> qi_parentMatchesLiveRoot q \<and>
       toSignedBigInt (qi_deterministicDeltaPpm q) = Inr d \<and> computeCoreTexScreenerThresholdPpm (qi_threshold q) = Inr th \<and>
       toBigInt (arg_or_zero (ti_stateAdvanceThresholdPpm (qi_threshold q))) = Inr sat \<and>
       required_delta p (qi_outcome q = 2) th sat = Inr m \<and> grant_or_refuse q p (qi_outcome q = 2) d l m ml = Inr r)"
proof -
  have same: "(qi_threshold q)\<lparr>ti_policy := Some p\<rparr> = qi_threshold q" using assms(2) by (cases "qi_threshold q") simp
  note e = assms(1) [unfolded evaluateCoreTexWorkQualification_def Let_def assms(2) option.case same js_bind_eq_Inr_iff]
  obtain u where v: "assertValidCoreTexWorkPolicy p = Inr u" using e by blast
  note e' = e [unfolded valid_policy(1,2) [OF v]]
  consider "qi_outcome q \<noteq> 1 \<and> qi_outcome q \<noteq> 2" | "qi_outcome q = 1 \<or> qi_outcome q = 2" "\<not> qi_parentMatchesLiveRoot q"
    | "qi_outcome q = 1 \<or> qi_outcome q = 2" "qi_parentMatchesLiveRoot q" by blast
  then show ?thesis
  proof cases
    case 3
    then have c: "(qi_outcome q \<noteq> 1 \<and> qi_outcome q \<noteq> 2) = False" by blast
    show ?thesis using e' 3 unfolding c if_False not_True_eq_False js_bind_eq_Inr_iff by (simp only: not_True_eq_False if_False js_bind_eq_Inr_iff) blast
  next
    case 1
    then have "r = unqualified W01_UNKNOWN_OUTCOME 0" using e' by auto
    then show ?thesis by (intro disjI1 exI [of _ W01_UNKNOWN_OUTCOME] exI [of _ 0]) simp
  next
    case 2
    then have "r = unqualified W02_STALE_PARENT 0" using e' by auto
    then show ?thesis by (intro disjI1 exI [of _ W02_STALE_PARENT] exI [of _ 0]) simp
  qed
qed

text \<open>Credit needs every gate: a qualification pays if and only if its reason is OK, unqualified work pays nothing, and
  qualified work had a known outcome, the live parent, a deterministic delta of at least the
  required one and, for a state advance, a required delta of at least both thresholds and a live advance.\<close>

lemma qualification_sound:
  assumes "evaluateCoreTexWorkQualification q = Inr r" "ti_policy (qi_threshold q) = Some p"
  shows "(q_qualified r \<longleftrightarrow> q_reason r = W_OK) \<and> (\<not> q_qualified r \<longrightarrow> q_workUnitsBps r = 0) \<and>
    (q_qualified r \<longrightarrow> (qi_outcome q = 1 \<or> qi_outcome q = 2) \<and> qi_parentMatchesLiveRoot q \<and>
      computeCoreTexWorkUnitsBps (qi_outcome q) (qi_passes q) (Some p) = Inr (q_workUnitsBps r) \<and>
      (\<exists>d th. toSignedBigInt (qi_deterministicDeltaPpm q) = Inr d \<and> requiredDeterministicDeltaPpm r \<le> d \<and>
        computeCoreTexScreenerThresholdPpm (qi_threshold q) = Inr th \<and> th \<le> requiredDeterministicDeltaPpm r) \<and>
      (qi_outcome q = 2 \<longrightarrow> (sa_requireLiveStateAdvance (wp_stateAdvance p) \<longrightarrow> qi_liveStateAdvanced q) \<and>
        (\<exists>sat. toBigInt (arg_or_zero (ti_stateAdvanceThresholdPpm (qi_threshold q))) = Inr sat \<and> sat \<le> requiredDeterministicDeltaPpm r)))"
proof (cases "\<exists>w n. w \<noteq> W_OK \<and> r = unqualified w n")
  case True
  then show ?thesis by (auto simp: unqualified_def)
next
  case False
  then obtain d l th sat m ml where e: "qi_outcome q = 1 \<or> qi_outcome q = 2" "qi_parentMatchesLiveRoot q"
      "toSignedBigInt (qi_deterministicDeltaPpm q) = Inr d" "computeCoreTexScreenerThresholdPpm (qi_threshold q) = Inr th"
      "toBigInt (arg_or_zero (ti_stateAdvanceThresholdPpm (qi_threshold q))) = Inr sat"
      "required_delta p (qi_outcome q = 2) th sat = Inr m" "grant_or_refuse q p (qi_outcome q = 2) d l m ml = Inr r"
    using qualification_ends [OF assms] by blast
  then show ?thesis using False grant_or_refuse_ends [OF e(7) assms(2)] required_delta_bounds [OF e(6)] by auto
qed

definition demo_work :: QualificationInput where
  "demo_work = \<lparr>qi_outcome = 2, qi_passes = Some (ArgBig 30), qi_threshold = demo_threshold, qi_deterministicDeltaPpm = ArgStr ''2600'',
     qi_localModelDeltaPpm = None, qi_relevantNearCollisionPpm = None, qi_parentMatchesLiveRoot = True, qi_liveStateAdvanced = True\<rparr>"

end
