(* ===== verification/Coordinator.thy ===== *)
theory Coordinator
  imports RegistryReplay WorkUnits JsSort "HOL-Library.Sublist"
begin

text \<open>
  The state of the coordinator core and its chain watcher: \<open>packages/coretex/src/coordinator/coretex-coordinator-core.ts\<close>
  (\<open>boot\<close>, \<open>tick\<close>, the application of chain events, reorganisations, the parity gate, the pending receipts and
  their expiry, the lookup of receipts and substrates). Everything here runs under the core's mutex, so an
  operation is a function of the state and of the answers that the chain client gave; every answer may be a
  failure. The clock is an argument as well. The texts of reasons and messages are not modelled; the tests
  of the source on them are (\<open>isAwaitingFinality\<close>, \<open>isTransientChainReadError\<close>).
  Block numbers and counters are integers below \<open>2^53\<close>.
\<close>

section \<open>Data\<close>

record ChainEvent =
  ev_blockNumber :: bigint
  ev_blockHash :: string
  ev_logIndex :: bigint
  ev_epoch :: bigint
  ev_transitionIndex :: bigint
  ev_miner :: string
  ev_parent :: string
  ev_newRoot :: string
  ev_patchHash :: string
  ev_evalReportHash :: string
  ev_coreV :: string
  ev_corpus :: string
  ev_frontier :: string
  ev_credits :: bigint
  ev_wordCount :: int
  ev_compactPatchBytes :: string

record RegistryEpochPins =
  pn_parentStateRoot :: string
  pn_coreVersionHash :: string
  pn_corpusRoot :: string
  pn_activeFrontierRoot :: string
  pn_baselineManifestHash :: string
  pn_hiddenSeedCommit :: string

datatype VarianceSource = rotating_pack | broad_sampling | unavailable

record CoordConfig =
  cc_maxQueuedSubmits :: "int option"
  cc_maxQueuedSubmitsPerMiner :: "int option"
  cc_epoch :: bigint
  cc_expectedChainId :: bigint
  cc_miningContractAddress :: "string option"
  cc_v4Address :: "string option"
  cc_registryAddress :: string
  cc_expectedCoordinatorSigner :: string
  cc_expectedEpochPins :: RegistryEpochPins
  cc_confirmationDepth :: int
  cc_replayFromBlock :: "int option"
  cc_receiptTtlSec :: int
  cc_perMinerScreenerCap :: "int option"
  cc_screenerThresholdPpm :: "int option"
  cc_minImprovementPpm :: "int option"
  cc_replayTolerancePpm :: "int option"
  cc_maxPatchBytes :: "int option"
  cc_baselineScorePpm :: "int option"
  cc_baselineParentScorePpm :: "int option"
  cc_baselineVariancePpm :: "int option"
  cc_baselineVarianceSource :: "VarianceSource option"
  cc_fixedPackRepeatabilityPpm :: "int option"
  cc_recentNoiseFloorPpm :: "int option"
  cc_targetBlockOffset :: "int option"
  cc_rulesVersion :: "int option"
  cc_workPolicyHash :: "string option"
  cc_workPolicy :: "CoreTexWorkPolicy option"

datatype PendingState = st_pending | st_confirmed | st_stale | st_expired

record PendingReceipt =
  pr_originalPatchHash :: string
  pr_signedPatchHash :: string
  pr_parentRoot :: string
  pr_expectedNewRoot :: string
  pr_compactPatchBytes :: string
  pr_miner :: string
  pr_issuedAt :: int
  pr_expiresAt :: int
  pr_scoreAfterPpm :: "int option"
  pr_state :: PendingState

record ReceiptEnvelope =
  re_stateAdvance :: bool
  re_patchHash :: string
  re_evalReportHash :: string
  re_workUnitsBps :: bigint
  re_newStateRoot :: string
  re_transactionTo :: string
  re_transactionChainId :: bigint
  re_transactionData :: string
  re_issuedAt :: int
  re_expiresAt :: int

record Snapshot =
  sp_transitionIndex :: bigint
  sp_blockNumber :: bigint
  sp_blockHash :: string
  sp_parent :: string
  sp_root :: string
  sp_patchHash :: string
  sp_state :: CortexState

record CoordMetrics =
  mt_reorgRollbackCount :: nat
  mt_parityMismatchCount :: nat
  mt_epochMismatchCount :: nat
  mt_receiptExpiryCount :: nat
  mt_staleReceiptCount :: nat
  mt_evalFailureCount :: nat
  mt_signerFailureCount :: nat
  mt_watcherFaultCount :: nat
  mt_submitRejectedByCode :: "(string \<times> nat) list"

record ChainReservation =
  cr_nextIndex :: bigint
  cr_lastReceiptHash :: "string option"
  cr_expiresAt :: int

datatype UnhealthyReason = StartupReplayPending | ReorgUnrecoverable | ReorgReconciling | WatcherFault | ParityMismatch
  | AwaitingFinality | EpochMismatch | EpochCheckFailed

record core =
  co_liveState :: CortexState
  co_liveRoot :: string
  co_parentState :: CortexState
  co_parentRoot :: string
  co_lastTransitionIndex :: bigint
  co_stateByRoot :: "(string \<times> CortexState) list"
  co_snapshots :: "Snapshot list"
  co_signingEnabled :: bool
  co_unhealthyReason :: "UnhealthyReason option"
  co_chainLiveRoot :: string
  co_chainTransitionCount :: int
  co_lastScannedBlock :: int
  co_replayFromBlock :: int
  co_finalityLagBlocks :: int
  co_lastEpochMismatch :: "bigint option"
  co_transientChainFailureSinceMs :: "int option"
  co_currentBaselineVariancePpm :: "int option"
  co_frozen :: bool
  co_frozenReason :: "string option"
  co_freezeGeneration :: nat
  co_minerChainReservations :: "(string \<times> ChainReservation) list"
  co_baselineByRoot :: "(string \<times> int) list"
  co_pendingByPatchHash :: "(string \<times> PendingReceipt) list"
  co_receiptCache :: "(string \<times> ReceiptEnvelope) list"
  co_expiredReceiptTombstones :: "(string \<times> int) list"
  co_submitDedup :: "(string \<times> int) list"
  co_metrics :: CoordMetrics

text \<open>A rejection of the chain client carries a code and a message; an exception of the core's own code does not pass
  the test for transient faults.\<close>

datatype fault = RpcFault string string | CoreFault js_exn

type_synonym 'a chain = "fault + 'a"

section \<open>Implementation\<close>

definition initial_core :: "CoordConfig \<Rightarrow> core" where
  "initial_core cfg = \<lparr>co_liveState = \<lparr>words = []\<rparr>, co_liveRoot = [], co_parentState = \<lparr>words = []\<rparr>, co_parentRoot = [],
     co_lastTransitionIndex = -1, co_stateByRoot = [], co_snapshots = [], co_signingEnabled = False,
     co_unhealthyReason = Some StartupReplayPending, co_chainLiveRoot = [], co_chainTransitionCount = 0, co_lastScannedBlock = 0,
     co_replayFromBlock = 0, co_finalityLagBlocks = 0, co_lastEpochMismatch = None, co_transientChainFailureSinceMs = None,
     co_currentBaselineVariancePpm = (case cc_baselineVarianceSource cfg of
         Some rotating_pack \<Rightarrow> cc_baselineVariancePpm cfg | Some broad_sampling \<Rightarrow> cc_baselineVariancePpm cfg | _ \<Rightarrow> None),
     co_frozen = False, co_frozenReason = None, co_freezeGeneration = 0, co_minerChainReservations = [], co_baselineByRoot = [],
     co_pendingByPatchHash = [], co_receiptCache = [], co_expiredReceiptTombstones = [], co_submitDedup = [],
     co_metrics = \<lparr>mt_reorgRollbackCount = 0, mt_parityMismatchCount = 0, mt_epochMismatchCount = 0, mt_receiptExpiryCount = 0,
       mt_staleReceiptCount = 0, mt_evalFailureCount = 0, mt_signerFailureCount = 0, mt_watcherFaultCount = 0, mt_submitRejectedByCode = []\<rparr>\<rparr>"

definition MAX_SNAPSHOTS :: nat where
  "MAX_SNAPSHOTS = 64"

definition TRANSIENT_CHAIN_FAILURE_GRACE_MS :: int where
  "TRANSIENT_CHAIN_FAILURE_GRACE_MS = 60000"

definition bump :: "(CoordMetrics \<Rightarrow> CoordMetrics) \<Rightarrow> core \<Rightarrow> core" where
  "bump f c = c\<lparr>co_metrics := f (co_metrics c)\<rparr>"

text \<open>The file's own \<open>hexToBytes\<close>: an odd number of digits is padded on the left, a pair that is not a number is zero.\<close>

definition coord_hexToBytes :: "string \<Rightarrow> bytes" where
  "coord_hexToBytes h =
     (let s = (if take 2 h = ''0x'' then drop 2 h else h);
          padded = (if length s mod 2 \<noteq> 0 then ''0'' @ s else s)
      in map (\<lambda>i. case parseInt16 (take 2 (drop (i * 2) padded)) of None \<Rightarrow> 0 | Some v \<Rightarrow> word_of_int v) [0..<length padded div 2])"

subsection \<open>Chain events\<close>

definition event_compare :: "ChainEvent \<Rightarrow> ChainEvent \<Rightarrow> int" where
  "event_compare a b =
     (let db = ev_blockNumber a - ev_blockNumber b in if db \<noteq> 0 then db else ev_logIndex a - ev_logIndex b)"

text \<open>What a confirmed advance does to one pending receipt.\<close>

definition settle_pending :: "ChainEvent \<Rightarrow> PendingReceipt \<Rightarrow> PendingReceipt" where
  "settle_pending ev p =
     (if pr_state p \<noteq> st_pending then p
      else if toLowerCase (pr_parentRoot p) = toLowerCase (ev_parent ev) \<and> toLowerCase (pr_signedPatchHash p) = toLowerCase (ev_patchHash ev)
      then p\<lparr>pr_state := st_confirmed\<rparr>
      else if toLowerCase (pr_parentRoot p) = toLowerCase (ev_parent ev) then p\<lparr>pr_state := st_stale\<rparr>
      else p)"

definition settle_receipts :: "ChainEvent \<Rightarrow> string \<Rightarrow> core \<Rightarrow> core" where
  "settle_receipts ev newRoot c =
     (let ps = map snd (co_pendingByPatchHash c);
          confirmed = filter (\<lambda>p. pr_state p = st_pending \<and> pr_state (settle_pending ev p) = st_confirmed) ps;
          staled = filter (\<lambda>p. pr_state p = st_pending \<and> pr_state (settle_pending ev p) = st_stale) ps
      in bump (\<lambda>m. m\<lparr>mt_staleReceiptCount := mt_staleReceiptCount m + length staled\<rparr>)
        (c\<lparr>co_pendingByPatchHash := map (\<lambda>(k, p). (k, settle_pending ev p)) (co_pendingByPatchHash c),
           co_baselineByRoot := foldl (\<lambda>b p. case pr_scoreAfterPpm p of None \<Rightarrow> b | Some s \<Rightarrow> AList.update newRoot s b)
             (co_baselineByRoot c) confirmed\<rparr>))"

definition commit_advance :: "ChainEvent \<Rightarrow> CortexState \<Rightarrow> string \<Rightarrow> core \<Rightarrow> core" where
  "commit_advance ev s newRoot c =
     (let snaps = co_snapshots c @ [\<lparr>sp_transitionIndex = ev_transitionIndex ev, sp_blockNumber = ev_blockNumber ev,
            sp_blockHash = ev_blockHash ev, sp_parent = toLowerCase (ev_parent ev), sp_root = newRoot,
            sp_patchHash = toLowerCase (ev_patchHash ev), sp_state = s\<rparr>];
          snaps = (if length snaps > MAX_SNAPSHOTS then tl snaps else snaps)
      in c\<lparr>co_liveState := s, co_liveRoot := newRoot, co_lastTransitionIndex := ev_transitionIndex ev,
           co_stateByRoot := AList.update newRoot s (co_stateByRoot c), co_snapshots := snaps\<rparr>)"

definition watcher_error :: "string \<Rightarrow> 'a chain" where
  "watcher_error msg = Inl (CoreFault (JsError msg))"

definition of_js :: "'a js \<Rightarrow> 'a chain" where
  "of_js r = (case r of Inl e \<Rightarrow> Inl (CoreFault e) | Inr x \<Rightarrow> Inr x)"

definition chain_bind :: "'a chain \<Rightarrow> ('a \<Rightarrow> 'b chain) \<Rightarrow> 'b chain" where
  "chain_bind m f = (case m of Inl e \<Rightarrow> Inl e | Inr x \<Rightarrow> f x)"

definition applyChainEvent :: "CoordConfig \<Rightarrow> ChainEvent \<Rightarrow> core \<Rightarrow> core chain" where
  "applyChainEvent cfg ev c =
     (let pins = cc_expectedEpochPins cfg in
      if ev_epoch ev < cc_epoch cfg then Inr c
      else if ev_epoch ev \<noteq> cc_epoch cfg then watcher_error ''watcher: event epoch''
      else if ev_transitionIndex ev \<noteq> co_lastTransitionIndex c + 1 then watcher_error ''watcher: non-contiguous transitionIndex''
      else if toLowerCase (ev_parent ev) \<noteq> toLowerCase (co_liveRoot c) then watcher_error ''watcher: event parent''
      else if toLowerCase (ev_coreV ev) \<noteq> toLowerCase (pn_coreVersionHash pins) then watcher_error ''watcher: event coreVersionHash''
      else if toLowerCase (ev_corpus ev) \<noteq> toLowerCase (pn_corpusRoot pins) then watcher_error ''watcher: event corpusRoot''
      else if toLowerCase (ev_frontier ev) \<noteq> toLowerCase (pn_activeFrontierRoot pins) then watcher_error ''watcher: event activeFrontierRoot''
      else let bytes = coord_hexToBytes (ev_compactPatchBytes ev) in
        if toLowerCase (computePatchHash bytes) \<noteq> toLowerCase (ev_patchHash ev) then watcher_error ''watcher: patchHash mismatch''
        else chain_bind (of_js (decodePatch bytes)) (\<lambda>decoded.
        chain_bind (of_js (applyPatch (co_liveState c) decoded True)) (\<lambda>applied.
        case applied of
          Inl _ \<Rightarrow> watcher_error ''watcher: applyPatch failed''
        | Inr s \<Rightarrow>
            if ev_wordCount ev \<noteq> wordCount decoded then watcher_error ''watcher: event wordCount''
            else chain_bind (of_js (merkleizeState s)) (\<lambda>rt.
              let newRoot = toLowerCase (bytesToHex rt) in
              if newRoot \<noteq> toLowerCase (ev_newRoot ev) then watcher_error ''watcher: newStateRoot mismatch''
              else Inr (settle_receipts ev newRoot (commit_advance ev s newRoot c))))))"

text \<open>The loop over a batch stops at the first exception and keeps what it has committed.\<close>

fun apply_events :: "CoordConfig \<Rightarrow> ChainEvent list \<Rightarrow> core \<Rightarrow> core \<times> fault option" where
  "apply_events cfg [] c = (c, None)"
| "apply_events cfg (ev # evs) c = (case applyChainEvent cfg ev c of
      Inl e \<Rightarrow> (c, Some e)
    | Inr c' \<Rightarrow> apply_events cfg evs c')"

subsection \<open>Pending receipts\<close>

definition markPendingStale :: "PendingReceipt \<Rightarrow> PendingReceipt" where
  "markPendingStale p = p\<lparr>pr_state := st_stale\<rparr>"

definition auditReceiptCacheAgainstCanonicalRoots :: "core \<Rightarrow> core" where
  "auditReceiptCacheAgainstCanonicalRoots c =
     (let orphan = (\<lambda>p. pr_state p = st_pending \<and> toLowerCase (pr_parentRoot p) \<notin> fst ` set (co_stateByRoot c))
      in bump (\<lambda>m. m\<lparr>mt_staleReceiptCount := mt_staleReceiptCount m + length (filter (\<lambda>(k, p). orphan p) (co_pendingByPatchHash c))\<rparr>)
        (c\<lparr>co_pendingByPatchHash := map (\<lambda>(k, p). (k, if orphan p then markPendingStale p else p)) (co_pendingByPatchHash c)\<rparr>))"

definition reconcile_one :: "Snapshot list \<Rightarrow> PendingReceipt \<Rightarrow> PendingReceipt" where
  "reconcile_one snaps p = foldl (\<lambda>p snap.
       if pr_state p \<noteq> st_pending then p
       else if toLowerCase (pr_parentRoot p) \<noteq> toLowerCase (sp_parent snap) then p
       else p\<lparr>pr_state := (if toLowerCase (pr_signedPatchHash p) = toLowerCase (sp_patchHash snap) then st_confirmed else st_stale)\<rparr>)
     (if pr_state p \<noteq> st_expired then p\<lparr>pr_state := st_pending\<rparr> else p) snaps"

definition reconcilePendingFromCanonicalSnapshots :: "core \<Rightarrow> core" where
  "reconcilePendingFromCanonicalSnapshots c =
     c\<lparr>co_pendingByPatchHash := map (\<lambda>(k, p). (k, reconcile_one (co_snapshots c) p)) (co_pendingByPatchHash c)\<rparr>"

definition markExpiredReceiptHash :: "CoordConfig \<Rightarrow> string \<Rightarrow> int \<Rightarrow> core \<Rightarrow> core" where
  "markExpiredReceiptHash cfg hash nowSec c =
     c\<lparr>co_expiredReceiptTombstones := AList.update (toLowerCase hash) (nowSec + cc_receiptTtlSec cfg) (co_expiredReceiptTombstones c)\<rparr>"

definition forget_receipt :: "string \<Rightarrow> core \<Rightarrow> core" where
  "forget_receipt hash c = c\<lparr>co_receiptCache := AList.delete (toLowerCase hash) (co_receiptCache c)\<rparr>"

definition dedup_key :: "string \<Rightarrow> string \<Rightarrow> string" where
  "dedup_key rootHex hash = toLowerCase rootHex @ ''|'' @ toLowerCase hash"

definition expire_pending :: "CoordConfig \<Rightarrow> int \<Rightarrow> core \<Rightarrow> string \<times> PendingReceipt \<Rightarrow> core" where
  "expire_pending cfg nowSec c entry =
     (let (k, p) = entry in
      if pr_state p = st_pending \<and> pr_expiresAt p \<le> nowSec then
        let c = c\<lparr>co_pendingByPatchHash := AList.update k (p\<lparr>pr_state := st_expired\<rparr>) (co_pendingByPatchHash c)\<rparr>;
            c = bump (\<lambda>m. m\<lparr>mt_receiptExpiryCount := mt_receiptExpiryCount m + 1\<rparr>) c;
            c = c\<lparr>co_submitDedup := AList.delete (dedup_key (pr_parentRoot p) (pr_originalPatchHash p)) (co_submitDedup c)\<rparr>;
            c = markExpiredReceiptHash cfg (pr_signedPatchHash p) nowSec c;
            c = markExpiredReceiptHash cfg (pr_originalPatchHash p) nowSec c;
            c = forget_receipt (pr_signedPatchHash p) c;
            c = forget_receipt (pr_originalPatchHash p) c
        in c\<lparr>co_pendingByPatchHash := AList.delete (toLowerCase (pr_signedPatchHash p)) (co_pendingByPatchHash c)\<rparr>
      else c)"

definition expire_receipt :: "CoordConfig \<Rightarrow> int \<Rightarrow> core \<Rightarrow> string \<times> ReceiptEnvelope \<Rightarrow> core" where
  "expire_receipt cfg nowSec c entry =
     (let (hash, env) = entry in
      case map_of (co_pendingByPatchHash c) (toLowerCase (re_patchHash env)) of
        Some p \<Rightarrow>
          if pr_state p = st_expired then
            let c = markExpiredReceiptHash cfg (pr_signedPatchHash p) nowSec c;
                c = markExpiredReceiptHash cfg (pr_originalPatchHash p) nowSec c;
                c = forget_receipt (pr_signedPatchHash p) c
            in forget_receipt (pr_originalPatchHash p) c
          else c
      | None \<Rightarrow>
          if re_expiresAt env \<le> nowSec then
            let c = c\<lparr>co_receiptCache := AList.delete hash (co_receiptCache c)\<rparr>;
                c = markExpiredReceiptHash cfg hash nowSec c
            in bump (\<lambda>m. m\<lparr>mt_receiptExpiryCount := mt_receiptExpiryCount m + 1\<rparr>) c
          else c)"

definition gcPending :: "CoordConfig \<Rightarrow> int \<Rightarrow> core \<Rightarrow> core" where
  "gcPending cfg nowSec c =
     (let c = foldl (expire_pending cfg nowSec) c (co_pendingByPatchHash c);
          c = foldl (expire_receipt cfg nowSec) c (co_receiptCache c)
      in c\<lparr>co_submitDedup := filter (\<lambda>(k, expiresAt). \<not> expiresAt \<le> nowSec) (co_submitDedup c),
           co_expiredReceiptTombstones := filter (\<lambda>(k, until). \<not> until \<le> nowSec) (co_expiredReceiptTombstones c),
           co_minerChainReservations := filter (\<lambda>(k, r). \<not> cr_expiresAt r \<le> nowSec) (co_minerChainReservations c)\<rparr>)"


subsection \<open>Reorganisations\<close>

text \<open>A block hash that the chain client reports; \<open>null\<close> and the empty string count as no answer.\<close>

definition known_hash :: "string option \<Rightarrow> string option" where
  "known_hash h = (case h of Some s \<Rightarrow> if s = [] then None else Some (toLowerCase s) | None \<Rightarrow> None)"

text \<open>The number of snapshots up to the latest canonical one; the argument lists the snapshots from the latest.\<close>

fun canonical_count :: "(int \<Rightarrow> string option chain) \<Rightarrow> Snapshot list \<Rightarrow> nat chain" where
  "canonical_count getBlockHashAt [] = Inr 0"
| "canonical_count getBlockHashAt (snap # older) = (case getBlockHashAt (sp_blockNumber snap) of
      Inl e \<Rightarrow> Inl e
    | Inr h \<Rightarrow> if known_hash h = Some (toLowerCase (sp_blockHash snap)) then Inr (length older + 1)
        else canonical_count getBlockHashAt older)"

definition rollback :: "nat \<Rightarrow> core \<Rightarrow> core" where
  "rollback kept c =
     (if kept > 0 then
        let snap = co_snapshots c ! (kept - 1) in
        c\<lparr>co_snapshots := take kept (co_snapshots c), co_liveState := sp_state snap, co_liveRoot := toLowerCase (sp_root snap),
          co_lastTransitionIndex := sp_transitionIndex snap, co_lastScannedBlock := sp_blockNumber snap\<rparr>
      else c\<lparr>co_snapshots := [], co_liveState := co_parentState c, co_liveRoot := toLowerCase (co_parentRoot c),
          co_lastTransitionIndex := -1, co_lastScannedBlock := max 0 (co_replayFromBlock c - 1)\<rparr>)"

definition prune_states :: "core \<Rightarrow> core" where
  "prune_states c =
     (let keep = insert (toLowerCase (co_parentRoot c)) (set (map (\<lambda>s. toLowerCase (sp_root s)) (co_snapshots c)))
      in c\<lparr>co_stateByRoot := filter (\<lambda>(k, _). k \<in> keep) (co_stateByRoot c)\<rparr>)"

definition handleReorg :: "(int \<Rightarrow> string option chain) \<Rightarrow> core \<Rightarrow> (bool \<times> core) chain" where
  "handleReorg getBlockHashAt c = chain_bind (canonical_count getBlockHashAt (rev (co_snapshots c))) (\<lambda>kept.
     let c = prune_states (rollback kept c);
         c = reconcilePendingFromCanonicalSnapshots c;
         c = auditReceiptCacheAgainstCanonicalRoots c;
         c = c\<lparr>co_signingEnabled := False, co_unhealthyReason := Some ReorgReconciling\<rparr>
     in Inr (True, bump (\<lambda>m. m\<lparr>mt_reorgRollbackCount := mt_reorgRollbackCount m + 1\<rparr>) c))"

subsection \<open>Gates\<close>

record RegistryEpoch =
  rg_liveStateRoot :: string
  rg_transitionCount :: int

definition parityCheck :: "RegistryEpoch \<Rightarrow> core \<Rightarrow> bool \<times> core" where
  "parityCheck reg c =
     (let c = c\<lparr>co_chainLiveRoot := toLowerCase (rg_liveStateRoot reg), co_chainTransitionCount := rg_transitionCount reg\<rparr>;
          coordCount = co_lastTransitionIndex c + 1;
          mismatch = bump (\<lambda>m. m\<lparr>mt_parityMismatchCount := mt_parityMismatchCount m + 1\<rparr>)
            (c\<lparr>co_signingEnabled := False, co_unhealthyReason := Some ParityMismatch\<rparr>)
      in if coordCount > rg_transitionCount reg then (False, mismatch)
         else if coordCount < rg_transitionCount reg
         then (False, c\<lparr>co_signingEnabled := False, co_unhealthyReason := Some AwaitingFinality\<rparr>)
         else if toLowerCase (rg_liveStateRoot reg) \<noteq> toLowerCase (co_liveRoot c) then (False, mismatch)
         else (True, c))"

text \<open>\<open>message.includes(s)\<close>.\<close>

definition js_includes :: "string \<Rightarrow> string \<Rightarrow> bool" where
  "js_includes msg s \<longleftrightarrow> list_ex (prefix s) (suffixes msg)"

fun isTransientChainReadError :: "fault \<Rightarrow> bool" where
  "isTransientChainReadError (RpcFault code message) \<longleftrightarrow> code = ''TIMEOUT'' \<or> code = ''RPC_BUSY'' \<or>
     js_includes message ''RPC timeout after'' \<or> js_includes message ''RPC queue wait exceeded'' \<or>
     js_includes message ''RPC queue full'' \<or> js_includes message ''request timeout''"
| "isTransientChainReadError (CoreFault _) \<longleftrightarrow> False"

definition withinTransientChainGrace :: "int \<Rightarrow> core \<Rightarrow> bool \<times> core" where
  "withinTransientChainGrace nowMs c =
     (let since = (case co_transientChainFailureSinceMs c of None \<Rightarrow> nowMs | Some t \<Rightarrow> t)
      in (nowMs - since < TRANSIENT_CHAIN_FAILURE_GRACE_MS, c\<lparr>co_transientChainFailureSinceMs := Some since\<rparr>))"

definition markChainReadHealthy :: "core \<Rightarrow> core" where
  "markChainReadHealthy c = c\<lparr>co_transientChainFailureSinceMs := None\<rparr>"

definition checkEpochStillCurrent :: "CoordConfig \<Rightarrow> bigint \<Rightarrow> core \<Rightarrow> bool \<times> core" where
  "checkEpochStillCurrent cfg v4Epoch c =
     (if v4Epoch = cc_epoch cfg then (True, c\<lparr>co_lastEpochMismatch := None\<rparr>)
      else let c = c\<lparr>co_signingEnabled := False, co_unhealthyReason := Some EpochMismatch\<rparr> in
        (False, if co_lastEpochMismatch c \<noteq> Some v4Epoch
          then bump (\<lambda>m. m\<lparr>mt_epochMismatchCount := mt_epochMismatchCount m + 1\<rparr>) (c\<lparr>co_lastEpochMismatch := Some v4Epoch\<rparr>) else c))"

definition isAwaitingFinality :: "core \<Rightarrow> bool" where
  "isAwaitingFinality c \<longleftrightarrow> co_unhealthyReason c = Some AwaitingFinality"

subsection \<open>The watcher\<close>

text \<open>The answers of the chain client during one tick, in the order in which they are asked for: the block of the deepest
  snapshot is looked up once before a reorganisation is handled and again while it is.\<close>

record TickView =
  tv_v4Epoch :: "bigint chain"
  tv_blockNumber :: "int chain"
  tv_deepestHash :: "int \<Rightarrow> string option chain"
  tv_blockHashAt :: "int \<Rightarrow> string option chain"
  tv_events :: "int \<Rightarrow> int \<Rightarrow> ChainEvent list chain"
  tv_registryEpoch :: "RegistryEpoch chain"
  tv_nowSec :: int
  tv_nowMs :: int

text \<open>\<open>Inl\<close> in the second component ends the tick: with \<open>None\<close> by an early return, with a fault by an exception.\<close>

definition reorg_phase :: "TickView \<Rightarrow> core \<Rightarrow> core \<times> (fault option + unit)" where
  "reorg_phase v c =
     (if co_snapshots c = [] then (c, Inr ())
      else let deepest = last (co_snapshots c) in
        case tv_deepestHash v (sp_blockNumber deepest) of
          Inl e \<Rightarrow> (c, Inl (Some e))
        | Inr h \<Rightarrow>
            if known_hash h \<noteq> None \<and> known_hash h \<noteq> Some (toLowerCase (sp_blockHash deepest)) then
              (case handleReorg (tv_blockHashAt v) c of
                 Inl e \<Rightarrow> (c, Inl (Some e))
               | Inr (ok, c) \<Rightarrow> if \<not> ok then (c\<lparr>co_signingEnabled := False, co_unhealthyReason := Some ReorgUnrecoverable\<rparr>, Inl None)
                   else (c, Inr ()))
            else (c, Inr ()))"

definition scan_phase :: "CoordConfig \<Rightarrow> TickView \<Rightarrow> int \<Rightarrow> core \<Rightarrow> core \<times> fault option" where
  "scan_phase cfg v safeHead c =
     (if safeHead > co_lastScannedBlock c then
        case tv_events v (co_lastScannedBlock c + 1) safeHead of
          Inl e \<Rightarrow> (c, Some e)
        | Inr events \<Rightarrow> (case apply_events cfg (js_sort event_compare events) c of
              (c, Some e) \<Rightarrow> (c, Some e)
            | (c, None) \<Rightarrow> (c\<lparr>co_lastScannedBlock := safeHead\<rparr>, None))
      else (c, None))"

definition parity_phase :: "CoordConfig \<Rightarrow> TickView \<Rightarrow> core \<Rightarrow> core \<times> fault option" where
  "parity_phase cfg v c = (case tv_registryEpoch v of
       Inl e \<Rightarrow> (c, Some e)
     | Inr reg \<Rightarrow>
         let (available, c) = parityCheck reg c;
             c = (if available then (auditReceiptCacheAgainstCanonicalRoots c)\<lparr>co_signingEnabled := True, co_unhealthyReason := None\<rparr> else c);
             c = markChainReadHealthy c
         in (gcPending cfg (tv_nowSec v) c, None))"

definition tick_body :: "CoordConfig \<Rightarrow> TickView \<Rightarrow> core \<Rightarrow> core \<times> fault option" where
  "tick_body cfg v c = (case tv_v4Epoch v of
       Inl e \<Rightarrow> (c, Some e)
     | Inr v4Epoch \<Rightarrow>
         (let (current, c) = checkEpochStillCurrent cfg v4Epoch c in
          if \<not> current then (gcPending cfg (tv_nowSec v) c, None)
          else (case tv_blockNumber v of
              Inl e \<Rightarrow> (c, Some e)
            | Inr head \<Rightarrow>
                (let safeHead = head - cc_confirmationDepth cfg;
                     c = c\<lparr>co_finalityLagBlocks := head - co_lastScannedBlock c\<rparr>
                 in (case reorg_phase v c of
                       (c, Inl r) \<Rightarrow> (c, r)
                     | (c, Inr _) \<Rightarrow> (case scan_phase cfg v safeHead c of
                           (c, Some e) \<Rightarrow> (c, Some e)
                         | (c, None) \<Rightarrow> parity_phase cfg v c))))))"

definition tickInner :: "CoordConfig \<Rightarrow> TickView \<Rightarrow> core \<Rightarrow> core" where
  "tickInner cfg v c =
     (if co_frozen c then c
      else case tick_body cfg v c of
        (c, None) \<Rightarrow> c
      | (c, Some e) \<Rightarrow>
          let c = bump (\<lambda>m. m\<lparr>mt_watcherFaultCount := mt_watcherFaultCount m + 1\<rparr>) c;
              closed = (\<lambda>c. c\<lparr>co_signingEnabled := False, co_unhealthyReason := Some WatcherFault\<rparr>)
          in if isTransientChainReadError e \<and> co_signingEnabled c
             then let (graced, c) = withinTransientChainGrace (tv_nowMs v) c in if graced then c else closed c
             else closed c)"


subsection \<open>Boot\<close>

definition hex_chars :: "string \<Rightarrow> bool" where
  "hex_chars s \<longleftrightarrow> list_all (\<lambda>ch. hex_value ch \<noteq> None) s"

definition isHex :: "string \<Rightarrow> bool" where
  "isHex s \<longleftrightarrow> take 2 s = ''0x'' \<and> hex_chars (drop 2 s)"

definition isAddress :: "string \<Rightarrow> bool" where
  "isAddress s \<longleftrightarrow> isHex s \<and> length s = 42"

definition isBytes32 :: "string \<Rightarrow> bool" where
  "isBytes32 s \<longleftrightarrow> isHex s \<and> length s = 66"

definition miningContractAddress :: "CoordConfig \<Rightarrow> string" where
  "miningContractAddress cfg = (case cc_miningContractAddress cfg of Some a \<Rightarrow> a
     | None \<Rightarrow> (case cc_v4Address cfg of Some a \<Rightarrow> a | None \<Rightarrow> []))"

definition launchBaselinePpm :: "CoordConfig \<Rightarrow> int chain" where
  "launchBaselinePpm cfg = (case (case cc_baselineParentScorePpm cfg of Some b \<Rightarrow> Some b | None \<Rightarrow> cc_baselineScorePpm cfg) of
       Some b \<Rightarrow> if \<bar>b\<bar> < 2 ^ 53 \<and> 0 \<le> b then Inr b else watcher_error ''coord: launch baselineParentScorePpm''
     | None \<Rightarrow> watcher_error ''coord: launch baselineParentScorePpm'')"

definition opt_all :: "('a \<Rightarrow> bool) \<Rightarrow> 'a option \<Rightarrow> bool" where
  "opt_all P x = (case x of None \<Rightarrow> True | Some v \<Rightarrow> P v)"

definition chain_require :: "bool \<Rightarrow> string \<Rightarrow> unit chain" where
  "chain_require b msg = (if b then Inr () else watcher_error msg)"

definition validateStaticConfig :: "CoordConfig \<Rightarrow> unit chain" where
  "validateStaticConfig cfg =
     chain_bind (chain_require (isAddress (miningContractAddress cfg)) ''coord: miningContractAddress'') (\<lambda>_.
     chain_bind (chain_require (isAddress (cc_registryAddress cfg)) ''coord: registryAddress'') (\<lambda>_.
     chain_bind (chain_require (0 \<le> cc_confirmationDepth cfg) ''coord: confirmationDepth'') (\<lambda>_.
     chain_bind (chain_require (0 < cc_receiptTtlSec cfg) ''coord: receiptTtlSec'') (\<lambda>_.
     chain_bind (chain_require (\<exists>v \<in> set_option (cc_rulesVersion cfg). 0 < v) ''coord: rulesVersion'') (\<lambda>_.
     chain_bind (chain_require (\<exists>h \<in> set_option (cc_workPolicyHash cfg). isBytes32 h) ''coord: workPolicyHash'') (\<lambda>_.
     chain_bind (chain_require (opt_all (\<lambda>n. 1 \<le> n) (cc_perMinerScreenerCap cfg)) ''coord: perMinerScreenerCap'') (\<lambda>_.
     chain_bind (chain_require (opt_all (\<lambda>n. 42 \<le> n) (cc_maxPatchBytes cfg)) ''coord: maxPatchBytes'') (\<lambda>_.
     chain_bind (chain_require (opt_all (\<lambda>n. 0 < n) (cc_targetBlockOffset cfg)) ''coord: targetBlockOffset'') (\<lambda>_.
     chain_bind (launchBaselinePpm cfg) (\<lambda>_.
     chain_bind (chain_require (opt_all (\<lambda>n. 0 \<le> n) (cc_screenerThresholdPpm cfg)) ''coord: screenerThresholdPpm'') (\<lambda>_.
     chain_bind (chain_require (opt_all (\<lambda>n. 0 \<le> n) (cc_baselineVariancePpm cfg)) ''coord: baselineVariancePpm'') (\<lambda>_.
     chain_require (opt_all (\<lambda>n. 0 \<le> n) (cc_fixedPackRepeatabilityPpm cfg)) ''coord: fixedPackRepeatabilityPpm''))))))))))))"

record BootView =
  bv_chainId :: "bigint chain"
  bv_v4Epoch :: "bigint chain"
  bv_v4EpochCommit :: "string chain"
  bv_v4CoordinatorSigner :: "string chain"
  bv_v4CoreTexRegistry :: "string chain"
  bv_registryEpochPins :: "RegistryEpochPins chain"
  bv_parentLoader :: "string \<Rightarrow> CortexState chain"
  bv_blockNumber :: "int chain"
  bv_events :: "int \<Rightarrow> int \<Rightarrow> ChainEvent list chain"
  bv_registryEpoch :: "RegistryEpoch chain"

definition pins_agree :: "RegistryEpochPins \<Rightarrow> RegistryEpochPins \<Rightarrow> bool" where
  "pins_agree a b \<longleftrightarrow> list_all (\<lambda>f. toLowerCase (f a) = toLowerCase (f b))
     [pn_parentStateRoot, pn_coreVersionHash, pn_corpusRoot, pn_activeFrontierRoot, pn_baselineManifestHash, pn_hiddenSeedCommit]"

text \<open>The checks of the wiring, then the parent substrate.\<close>

definition boot_parent :: "CoordConfig \<Rightarrow> BootView \<Rightarrow> (CortexState \<times> string) chain" where
  "boot_parent cfg v =
     chain_bind (validateStaticConfig cfg) (\<lambda>_.
     chain_bind (bv_chainId v) (\<lambda>chainId.
     chain_bind (chain_require (chainId = cc_expectedChainId cfg) ''coord: chainId'') (\<lambda>_.
     chain_bind (bv_v4Epoch v) (\<lambda>v4Epoch.
     chain_bind (chain_require (v4Epoch = cc_epoch cfg) ''coord: V4.currentEpoch'') (\<lambda>_.
     chain_bind (bv_v4EpochCommit v) (\<lambda>commit.
     chain_bind (chain_require (commit \<noteq> ''0x'' @ replicate 64 (CHR ''0'')) ''coord: V4.epochCommit is zero'') (\<lambda>_.
     chain_bind (bv_v4CoordinatorSigner v) (\<lambda>signer.
     chain_bind (chain_require (toLowerCase signer = toLowerCase (cc_expectedCoordinatorSigner cfg)) ''coord: V4.coordinatorSigner'') (\<lambda>_.
     chain_bind (bv_v4CoreTexRegistry v) (\<lambda>registry.
     chain_bind (chain_require (toLowerCase registry = toLowerCase (cc_registryAddress cfg)) ''coord: V4.coreTexRegistry'') (\<lambda>_.
     chain_bind (bv_registryEpochPins v) (\<lambda>pins.
     chain_bind (chain_require (pins_agree pins (cc_expectedEpochPins cfg)) ''coord: registry pin'') (\<lambda>_.
     chain_bind (bv_parentLoader v (pn_parentStateRoot pins)) (\<lambda>parent.
     chain_bind (of_js (merkleizeState parent)) (\<lambda>rt.
     chain_bind (chain_require (toLowerCase (bytesToHex rt) = toLowerCase (pn_parentStateRoot pins)) ''coord: parent substrate'') (\<lambda>_.
     Inr (parent, toLowerCase (pn_parentStateRoot pins))))))))))))))))))"

definition boot_replay :: "CoordConfig \<Rightarrow> BootView \<Rightarrow> core \<Rightarrow> core chain" where
  "boot_replay cfg v c =
     (let from = max 0 (case cc_replayFromBlock cfg of None \<Rightarrow> 0 | Some b \<Rightarrow> b);
          c = c\<lparr>co_replayFromBlock := from\<rparr> in
      chain_bind (bv_blockNumber v) (\<lambda>replayHead.
      let safeHead = max from (replayHead - cc_confirmationDepth cfg) in
      chain_bind (bv_events v from safeHead) (\<lambda>events.
      case apply_events cfg (js_sort event_compare events) c of
        (c, Some e) \<Rightarrow> Inl e
      | (c, None) \<Rightarrow>
          chain_bind (bv_registryEpoch v) (\<lambda>reg.
          let (available, c) = parityCheck reg (c\<lparr>co_lastScannedBlock := safeHead\<rparr>) in
          if available then Inr (c\<lparr>co_signingEnabled := True, co_unhealthyReason := None\<rparr>)
          else if isAwaitingFinality c then Inr c
          else watcher_error ''coord: HARD-FAIL post-replay parity''))))"

definition boot :: "CoordConfig \<Rightarrow> BootView \<Rightarrow> core chain" where
  "boot cfg v =
     chain_bind (boot_parent cfg v) (\<lambda>(parent, parentRootHex).
     chain_bind (launchBaselinePpm cfg) (\<lambda>baseline.
     boot_replay cfg v ((initial_core cfg)\<lparr>co_liveState := parent, co_liveRoot := parentRootHex, co_parentState := parent,
       co_parentRoot := parentRootHex, co_stateByRoot := [(parentRootHex, parent)], co_baselineByRoot := [(parentRootHex, baseline)]\<rparr>)))"

subsection \<open>Lookups and the cutover surface\<close>

datatype ReceiptLookup = ReceiptExpired | ReceiptUnknown | ReceiptStale ReceiptEnvelope | ReceiptFound ReceiptEnvelope "PendingState option"

definition lookup_status :: "ReceiptLookup \<Rightarrow> int" where
  "lookup_status r = (case r of ReceiptFound _ _ \<Rightarrow> 200 | ReceiptStale _ \<Rightarrow> 409 | _ \<Rightarrow> 404)"

definition getReceiptByHash :: "CoordConfig \<Rightarrow> int \<Rightarrow> string \<Rightarrow> core \<Rightarrow> ReceiptLookup \<times> core" where
  "getReceiptByHash cfg now hash c =
     (let c = gcPending cfg now c; h = toLowerCase hash in
      case map_of (co_receiptCache c) h of
        None \<Rightarrow> (case map_of (co_expiredReceiptTombstones c) h of
            Some until \<Rightarrow> (if until > now then ReceiptExpired else ReceiptUnknown, c)
          | None \<Rightarrow> (ReceiptUnknown, c))
      | Some cached \<Rightarrow> (case map_of (co_pendingByPatchHash c) (toLowerCase (re_patchHash cached)) of
            Some p \<Rightarrow>
              if pr_state p = st_stale then (ReceiptStale cached, c)
              else if pr_state p = st_expired then
                (ReceiptExpired, forget_receipt (pr_originalPatchHash p) (forget_receipt (pr_signedPatchHash p) c))
              else (ReceiptFound cached (Some (pr_state p)), c)
          | None \<Rightarrow>
              if re_expiresAt cached \<le> now then
                (ReceiptExpired, markExpiredReceiptHash cfg h now (c\<lparr>co_receiptCache := AList.delete h (co_receiptCache c)\<rparr>))
              else (ReceiptFound cached None, c)))"

definition statePackedHex :: "CortexState \<Rightarrow> string" where
  "statePackedHex s = bytesToHex (concat (map (\<lambda>i. be_bytes 32 (nth_or 0 (words s) i)) [0..<1024]))"

definition getSubstrate :: "string \<Rightarrow> core \<Rightarrow> (string \<times> string) option" where
  "getSubstrate stateRoot c = (case map_of (co_stateByRoot c) (toLowerCase stateRoot) of
       None \<Rightarrow> None
     | Some s \<Rightarrow> Some (toLowerCase stateRoot, statePackedHex s))"

definition freeze :: "string \<Rightarrow> core \<Rightarrow> core" where
  "freeze why c = c\<lparr>co_frozen := True, co_frozenReason := Some why, co_freezeGeneration := co_freezeGeneration c + 1\<rparr>"

definition unfreeze :: "core \<Rightarrow> core" where
  "unfreeze c = c\<lparr>co_frozen := False, co_frozenReason := None\<rparr>"

definition setRecomputedBaseline :: "string \<Rightarrow> int \<Rightarrow> int option \<Rightarrow> core \<Rightarrow> core \<times> fault option" where
  "setRecomputedBaseline stateRoot baseline variance c =
     (if \<not> isBytes32 stateRoot then (c, Some (CoreFault (JsError ''coord: setRecomputedBaseline stateRoot'')))
      else if \<not> (\<bar>baseline\<bar> < 2 ^ 53 \<and> 0 \<le> baseline) then (c, Some (CoreFault (JsError ''coord: setRecomputedBaseline baselineParentScorePpm'')))
      else let c = c\<lparr>co_baselineByRoot := AList.update (toLowerCase stateRoot) baseline (co_baselineByRoot c)\<rparr> in
        case variance of
          None \<Rightarrow> (c, None)
        | Some v \<Rightarrow> if \<not> (\<bar>v\<bar> < 2 ^ 53 \<and> 0 \<le> v) then (c, Some (CoreFault (JsError ''coord: setRecomputedBaseline baselineVariancePpm'')))
            else (c\<lparr>co_currentBaselineVariancePpm := Some v\<rparr>, None))"

definition invalidateBaselines :: "core \<Rightarrow> core" where
  "invalidateBaselines c = c\<lparr>co_baselineByRoot := [], co_currentBaselineVariancePpm := None\<rparr>"

definition effectiveBaselinePpm :: "core \<Rightarrow> int option" where
  "effectiveBaselinePpm c = map_of (co_baselineByRoot c) (toLowerCase (co_liveRoot c))"

definition isAcceptingSubmissions :: "core \<Rightarrow> bool" where
  "isAcceptingSubmissions c \<longleftrightarrow> co_signingEnabled c \<and> \<not> co_frozen c \<and> effectiveBaselinePpm c \<noteq> None"

end
