(* ===== verification/Watcher.thy ===== *)
theory Watcher
  imports Coordinator
begin

text \<open>
  What the coordinator's watcher guarantees. The state that mirrors the chain (\<open>chain_part\<close>) satisfies \<open>core_inv\<close>:
  roots are true roots and the live state is explained by a history of patches from the pinned parent. The locale
  \<open>watcher_invariant\<close> (with the clock readings at which an invariant survives the expiry sweep) lifts an invariant of the single operations to a whole tick and to boot.
\<close>

section \<open>The tracked chain\<close>

text \<open>The part of the state that mirrors the chain.\<close>

definition chain_part :: "core \<Rightarrow> CortexState \<times> string \<times> CortexState \<times> string \<times> bigint \<times> (string \<times> CortexState) list \<times> Snapshot list" where
  "chain_part c = (co_liveState c, co_liveRoot c, co_parentState c, co_parentRoot c, co_lastTransitionIndex c, co_stateByRoot c, co_snapshots c)"

lemma chain_part_bump [simp]: "chain_part (bump f c) = chain_part c"
  by (simp add: chain_part_def bump_def)

lemma chain_part_receipts [simp]:
  "chain_part (settle_receipts ev r c) = chain_part c" "chain_part (auditReceiptCacheAgainstCanonicalRoots c) = chain_part c"
  "chain_part (reconcilePendingFromCanonicalSnapshots c) = chain_part c" "chain_part (markExpiredReceiptHash cfg h n c) = chain_part c"
  "chain_part (forget_receipt h c) = chain_part c"
  by (simp_all add: settle_receipts_def auditReceiptCacheAgainstCanonicalRoots_def reconcilePendingFromCanonicalSnapshots_def
    markExpiredReceiptHash_def forget_receipt_def Let_def chain_part_def bump_def)

lemma chain_part_updates [simp]:
  "chain_part (c\<lparr>co_pendingByPatchHash := x1\<rparr>) = chain_part c" "chain_part (c\<lparr>co_submitDedup := x2\<rparr>) = chain_part c"
  "chain_part (c\<lparr>co_receiptCache := x3\<rparr>) = chain_part c" "chain_part (c\<lparr>co_signingEnabled := x4\<rparr>) = chain_part c"
  "chain_part (c\<lparr>co_unhealthyReason := x5\<rparr>) = chain_part c" "chain_part (c\<lparr>co_finalityLagBlocks := x6\<rparr>) = chain_part c"
  "chain_part (c\<lparr>co_lastScannedBlock := x7\<rparr>) = chain_part c" "chain_part (c\<lparr>co_transientChainFailureSinceMs := x8\<rparr>) = chain_part c"
  "chain_part (c\<lparr>co_expiredReceiptTombstones := x9\<rparr>) = chain_part c" "chain_part (c\<lparr>co_minerChainReservations := x10\<rparr>) = chain_part c"
  "chain_part (c\<lparr>co_chainLiveRoot := x11\<rparr>) = chain_part c" "chain_part (c\<lparr>co_chainTransitionCount := x12\<rparr>) = chain_part c"
  "chain_part (c\<lparr>co_lastEpochMismatch := x13\<rparr>) = chain_part c" "chain_part (c\<lparr>co_replayFromBlock := x14\<rparr>) = chain_part c"
  "chain_part (c\<lparr>co_baselineByRoot := x15\<rparr>) = chain_part c" "chain_part (c\<lparr>co_currentBaselineVariancePpm := x16\<rparr>) = chain_part c"
  "chain_part (c\<lparr>co_frozen := x17\<rparr>) = chain_part c" "chain_part (c\<lparr>co_frozenReason := x18\<rparr>) = chain_part c"
  "chain_part (c\<lparr>co_freezeGeneration := x19\<rparr>) = chain_part c" "chain_part (c\<lparr>co_metrics := x20\<rparr>) = chain_part c"
  by (simp_all add: chain_part_def)

lemma foldl_keeps: "(\<And>c x. f (g c x) = f c) \<Longrightarrow> f (foldl g c xs) = f c"
  by (induction xs arbitrary: c) simp_all

lemma chain_part_expire [simp]: "chain_part (expire_pending cfg n c e) = chain_part c" "chain_part (expire_receipt cfg n c e') = chain_part c"
  by (simp_all add: expire_pending_def expire_receipt_def Let_def split: prod.splits option.splits)

lemma chain_part_gc [simp]: "chain_part (gcPending cfg n c) = chain_part c"
  by (simp add: gcPending_def Let_def foldl_keeps [where f = chain_part])

lemma chain_part_gates [simp]:
  "chain_part (snd (parityCheck reg c)) = chain_part c" "chain_part (snd (checkEpochStillCurrent cfg e c)) = chain_part c"
  "chain_part (snd (withinTransientChainGrace n c)) = chain_part c" "chain_part (markChainReadHealthy c) = chain_part c"
  by (simp_all add: parityCheck_def checkEpochStillCurrent_def withinTransientChainGrace_def markChainReadHealthy_def Let_def)

lemma chain_part_surface [simp]:
  "chain_part (freeze w c) = chain_part c" "chain_part (unfreeze c) = chain_part c" "chain_part (invalidateBaselines c) = chain_part c"
  "chain_part (fst (setRecomputedBaseline r b vr c)) = chain_part c" "chain_part (snd (getReceiptByHash cfg n h c)) = chain_part c"
  by (simp_all add: freeze_def unfreeze_def invalidateBaselines_def setRecomputedBaseline_def getReceiptByHash_def Let_def split: option.splits)


definition root_of :: "CortexState \<Rightarrow> string \<Rightarrow> bool" where
  "root_of s r \<longleftrightarrow> wf_state s \<and> (\<exists>rt. merkleizeState s = Inr rt \<and> r = bytesToHex rt)"

lemma root_of_lower [simp]: "root_of s r \<Longrightarrow> toLowerCase r = r"
  by (auto simp: root_of_def)

text \<open>The snapshots are the latest states that a list of patches reaches from the parent.\<close>

definition snaps_ok :: "CortexState \<Rightarrow> Patch list \<Rightarrow> Snapshot list \<Rightarrow> bool" where
  "snaps_ok parent hist snaps \<longleftrightarrow> length snaps \<le> length hist \<and>
     (\<forall>i < length snaps. let k = length hist - length snaps + i + 1 in
        sp_transitionIndex (snaps ! i) + 1 = int k \<and> apply_chain True parent (take k hist) = Inr (sp_state (snaps ! i)))"

lemma snaps_ok_nth:
  assumes "snaps_ok parent hist snaps" "i < length snaps" "k = length hist - length snaps + i + 1"
  shows "sp_transitionIndex (snaps ! i) + 1 = int k" "apply_chain True parent (take k hist) = Inr (sp_state (snaps ! i))"
  using assms by (simp_all only: snaps_ok_def Let_def)

lemma snaps_okI:
  assumes "length snaps \<le> length hist"
    "\<And>i k. i < length snaps \<Longrightarrow> k = length hist - length snaps + i + 1 \<Longrightarrow>
      sp_transitionIndex (snaps ! i) + 1 = int k \<and> apply_chain True parent (take k hist) = Inr (sp_state (snaps ! i))"
  shows "snaps_ok parent hist snaps"
  using assms by (simp only: snaps_ok_def Let_def) blast

lemma snaps_ok_length: "snaps_ok parent hist snaps \<Longrightarrow> length snaps \<le> length hist"
  by (simp add: snaps_ok_def)

lemma snaps_ok_Nil [simp]: "snaps_ok parent hist []"
  by (simp add: snaps_ok_def)

lemma snaps_ok_snoc:
  assumes "snaps_ok parent hist snaps" "apply_chain True parent (hist @ [p]) = Inr (sp_state sn)" "sp_transitionIndex sn = int (length hist)"
  shows "snaps_ok parent (hist @ [p]) (snaps @ [sn])"
proof (rule snaps_okI)
  note len = snaps_ok_length [OF assms(1)]
  then show "length (snaps @ [sn]) \<le> length (hist @ [p])" by simp
  fix i k assume i: "i < length (snaps @ [sn])" "k = length (hist @ [p]) - length (snaps @ [sn]) + i + 1"
  show "sp_transitionIndex ((snaps @ [sn]) ! i) + 1 = int k \<and> apply_chain True parent (take k (hist @ [p])) = Inr (sp_state ((snaps @ [sn]) ! i))"
  proof (cases "i < length snaps")
    case True
    then have "k \<le> length hist" "k = length hist - length snaps + i + 1" using i(2) len by simp_all
    with snaps_ok_nth [OF assms(1) True] True show ?thesis by (simp add: nth_append)
  next
    case False
    then have "i = length snaps" "k = Suc (length hist)" using i len by simp_all
    then show ?thesis using assms(2,3) by simp
  qed
qed

lemma snaps_ok_tl: "snaps_ok parent hist snaps \<Longrightarrow> snaps_ok parent hist (tl snaps)"
proof (cases snaps)
  case (Cons s snaps')
  assume ok: "snaps_ok parent hist snaps"
  have len: "length snaps' < length hist" using snaps_ok_length [OF ok] Cons by simp
  have "snaps_ok parent hist snaps'"
  proof (rule snaps_okI)
    show "length snaps' \<le> length hist" using len by simp
    fix i k assume i: "i < length snaps'" "k = length hist - length snaps' + i + 1"
    have "k = length hist - length snaps + Suc i + 1" "Suc i < length snaps" using i len Cons by simp_all
    from snaps_ok_nth [OF ok this(2,1)]
    show "sp_transitionIndex (snaps' ! i) + 1 = int k \<and> apply_chain True parent (take k hist) = Inr (sp_state (snaps' ! i))" using Cons by simp
  qed
  then show ?thesis using Cons by simp
qed simp

lemma snaps_ok_take:
  assumes "snaps_ok parent hist snaps" "0 < n" "n \<le> length snaps" "m = length hist - length snaps + n"
  shows "snaps_ok parent (take m hist) (take n snaps)"
proof (rule snaps_okI)
  note len = snaps_ok_length [OF assms(1)]
  show "length (take n snaps) \<le> length (take m hist)" using assms len by simp
  fix i k assume i: "i < length (take n snaps)" "k = length (take m hist) - length (take n snaps) + i + 1"
  then have "i < length snaps" "k = length hist - length snaps + i + 1" "k \<le> m" using assms len by simp_all
  with snaps_ok_nth [OF assms(1) this(1,2)] i(1)
  show "sp_transitionIndex (take n snaps ! i) + 1 = int k \<and> apply_chain True parent (take k (take m hist)) = Inr (sp_state (take n snaps ! i))"
    by simp
qed

text \<open>A history explains the tracked state: its patches lead from the parent to the live state, one per transition.\<close>

definition history_ok :: "core \<Rightarrow> Patch list \<Rightarrow> bool" where
  "history_ok c hist \<longleftrightarrow> co_lastTransitionIndex c + 1 = int (length hist) \<and> list_all well_sized hist \<and>
     apply_chain True (co_parentState c) hist = Inr (co_liveState c) \<and>
     snaps_ok (co_parentState c) hist (co_snapshots c) \<and> (co_snapshots c = [] \<longrightarrow> hist = [])"

definition core_inv :: "core \<Rightarrow> bool" where
  "core_inv c \<longleftrightarrow> root_of (co_liveState c) (co_liveRoot c) \<and> root_of (co_parentState c) (co_parentRoot c) \<and>
     (\<forall>(r, s) \<in> set (co_stateByRoot c). root_of s r) \<and> (\<forall>sn \<in> set (co_snapshots c). root_of (sp_state sn) (sp_root sn)) \<and>
     insert (co_parentRoot c) (sp_root ` set (co_snapshots c)) \<subseteq> fst ` set (co_stateByRoot c) \<and>
     length (co_snapshots c) \<le> MAX_SNAPSHOTS \<and> (\<exists>hist. history_ok c hist)"

lemma core_invI:
  assumes "root_of (co_liveState c) (co_liveRoot c)" "root_of (co_parentState c) (co_parentRoot c)"
    "\<And>r s. (r, s) \<in> set (co_stateByRoot c) \<Longrightarrow> root_of s r" "\<And>sn. sn \<in> set (co_snapshots c) \<Longrightarrow> root_of (sp_state sn) (sp_root sn)"
    "co_parentRoot c \<in> fst ` set (co_stateByRoot c)" "\<And>sn. sn \<in> set (co_snapshots c) \<Longrightarrow> sp_root sn \<in> fst ` set (co_stateByRoot c)"
    "length (co_snapshots c) \<le> MAX_SNAPSHOTS" "history_ok c hist"
  shows "core_inv c"
  unfolding core_inv_def using assms by blast

lemma core_invD:
  assumes "core_inv c"
  shows "root_of (co_liveState c) (co_liveRoot c)" "root_of (co_parentState c) (co_parentRoot c)"
    "\<And>r s. (r, s) \<in> set (co_stateByRoot c) \<Longrightarrow> root_of s r" "\<And>sn. sn \<in> set (co_snapshots c) \<Longrightarrow> root_of (sp_state sn) (sp_root sn)"
    "co_parentRoot c \<in> fst ` set (co_stateByRoot c)" "\<And>sn. sn \<in> set (co_snapshots c) \<Longrightarrow> sp_root sn \<in> fst ` set (co_stateByRoot c)"
    "length (co_snapshots c) \<le> MAX_SNAPSHOTS" "\<exists>hist. history_ok c hist"
  using assms unfolding core_inv_def by blast+

lemma core_lower:
  assumes "core_inv c"
  shows "toLowerCase (co_parentRoot c) = co_parentRoot c" "toLowerCase (co_liveRoot c) = co_liveRoot c"
    "sn \<in> set (co_snapshots c) \<Longrightarrow> toLowerCase (sp_root sn) = sp_root sn"
  using core_invD(1,2) [OF assms] core_invD(4) [OF assms, of sn] by simp_all

lemma root_of_inj: "root_of s r \<Longrightarrow> root_of s r' \<Longrightarrow> r = r'"
  by (auto simp: root_of_def)

text \<open>The live root is the root of the latest snapshot, or of the parent when there is none.\<close>

lemma live_tracked:
  assumes "core_inv c"
  shows "if co_snapshots c = [] then co_liveRoot c = co_parentRoot c \<and> co_liveState c = co_parentState c \<and> co_lastTransitionIndex c = -1
    else co_liveRoot c = sp_root (last (co_snapshots c)) \<and> co_liveState c = sp_state (last (co_snapshots c))"
proof -
  obtain hist where h: "history_ok c hist" using core_invD(8) [OF assms] by blast
  show ?thesis
  proof (cases "co_snapshots c = []")
    case True
    then have "co_liveState c = co_parentState c" "co_lastTransitionIndex c = -1" using h by (auto simp: history_ok_def)
    then show ?thesis using True root_of_inj core_invD(1,2) [OF assms] by simp
  next
    case False
    have ok: "snaps_ok (co_parentState c) hist (co_snapshots c)" using h by (simp add: history_ok_def)
    have "length (co_snapshots c) - 1 < length (co_snapshots c)" "length hist = length hist - length (co_snapshots c) + (length (co_snapshots c) - 1) + 1"
      using False snaps_ok_length [OF ok] by (cases "co_snapshots c"; simp)+
    from snaps_ok_nth(2) [OF ok this] have "apply_chain True (co_parentState c) hist = Inr (sp_state (last (co_snapshots c)))"
      using False by (simp add: last_conv_nth)
    then have "co_liveState c = sp_state (last (co_snapshots c))" using h by (simp add: history_ok_def)
    then show ?thesis using False root_of_inj core_invD(1) [OF assms] core_invD(4) [OF assms] by (metis last_in_set)
  qed
qed

lemma chain_part_eqD:
  assumes "chain_part c = chain_part d"
  shows "co_liveState c = co_liveState d" "co_liveRoot c = co_liveRoot d" "co_parentState c = co_parentState d" "co_parentRoot c = co_parentRoot d"
    "co_lastTransitionIndex c = co_lastTransitionIndex d" "co_stateByRoot c = co_stateByRoot d" "co_snapshots c = co_snapshots d"
  using assms by (simp_all add: chain_part_def)

lemma core_inv_cong: "chain_part c = chain_part d \<Longrightarrow> core_inv c = core_inv d"
  by (simp add: core_inv_def history_ok_def chain_part_eqD [of c d])

lemma chain_bind_Inr: "chain_bind m f = Inr y \<longleftrightarrow> (\<exists>x. m = Inr x \<and> f x = Inr y)"
  by (cases m) (simp_all add: chain_bind_def)

lemma of_js_Inr [simp]: "of_js r = Inr x \<longleftrightarrow> r = Inr x"
  by (cases r) (simp_all add: of_js_def)

lemma watcher_error_Inr [simp]: "watcher_error m \<noteq> Inr x" "Inr x \<noteq> watcher_error m"
  by (simp_all add: watcher_error_def)

text \<open>An event that changes the state has passed every check.\<close>

definition event_verified :: "CoordConfig \<Rightarrow> core \<Rightarrow> ChainEvent \<Rightarrow> Patch \<Rightarrow> CortexState \<Rightarrow> bytes \<Rightarrow> bool" where
  "event_verified cfg c ev p s rt \<longleftrightarrow> ev_epoch ev = cc_epoch cfg \<and> ev_transitionIndex ev = co_lastTransitionIndex c + 1 \<and>
     toLowerCase (ev_parent ev) = toLowerCase (co_liveRoot c) \<and>
     toLowerCase (ev_coreV ev) = toLowerCase (pn_coreVersionHash (cc_expectedEpochPins cfg)) \<and>
     toLowerCase (ev_corpus ev) = toLowerCase (pn_corpusRoot (cc_expectedEpochPins cfg)) \<and>
     toLowerCase (ev_frontier ev) = toLowerCase (pn_activeFrontierRoot (cc_expectedEpochPins cfg)) \<and>
     computePatchHash (coord_hexToBytes (ev_compactPatchBytes ev)) = toLowerCase (ev_patchHash ev) \<and>
     decodePatch (coord_hexToBytes (ev_compactPatchBytes ev)) = Inr p \<and> applyPatch (co_liveState c) p True = Inr (Inr s) \<and>
     ev_wordCount ev = wordCount p \<and> merkleizeState s = Inr rt \<and> bytesToHex rt = toLowerCase (ev_newRoot ev)"

lemma toLowerCase_computePatchHash [simp]: "toLowerCase (computePatchHash bs) = computePatchHash bs"
  by (simp add: computePatchHash_def)

lemma guarded_Inr:
  "(if b then watcher_error m else x) = Inr y \<longleftrightarrow> \<not> b \<and> x = Inr y"
  "(case r of Inl e \<Rightarrow> watcher_error m | Inr s \<Rightarrow> f s) = Inr y \<longleftrightarrow> (\<exists>s. r = Inr s \<and> f s = Inr y)"
  by (auto split: sum.splits)

lemma applyChainEvent_Inr:
  "applyChainEvent cfg ev c = Inr c' \<longleftrightarrow> (if ev_epoch ev < cc_epoch cfg then c' = c
     else \<exists>p s rt. event_verified cfg c ev p s rt \<and> c' = settle_receipts ev (bytesToHex rt) (commit_advance ev s (bytesToHex rt) c))"
  unfolding applyChainEvent_def event_verified_def Let_def guarded_Inr chain_bind_Inr of_js_Inr by (auto simp: guarded_Inr chain_bind_Inr)

lemma commit_fields [simp]:
  "co_liveState (commit_advance ev s r c) = s" "co_liveRoot (commit_advance ev s r c) = r"
  "co_parentState (commit_advance ev s r c) = co_parentState c" "co_parentRoot (commit_advance ev s r c) = co_parentRoot c"
  "co_lastTransitionIndex (commit_advance ev s r c) = ev_transitionIndex ev"
  "co_stateByRoot (commit_advance ev s r c) = AList.update r s (co_stateByRoot c)"
  by (simp_all add: commit_advance_def Let_def)

lemma commit_snapshots:
  "set (co_snapshots (commit_advance ev s r c)) \<subseteq> insert \<lparr>sp_transitionIndex = ev_transitionIndex ev, sp_blockNumber = ev_blockNumber ev,
     sp_blockHash = ev_blockHash ev, sp_parent = toLowerCase (ev_parent ev), sp_root = r, sp_patchHash = toLowerCase (ev_patchHash ev), sp_state = s\<rparr>
     (set (co_snapshots c))"
  "length (co_snapshots c) \<le> MAX_SNAPSHOTS \<Longrightarrow> length (co_snapshots (commit_advance ev s r c)) \<le> MAX_SNAPSHOTS"
  by (auto simp: commit_advance_def Let_def dest: list.set_sel(2) [rotated])

lemma commit_history:
  assumes "history_ok c hist" "applyPatchOntoCurrent (co_liveState c) p True = Inr s" "well_sized p"
    "ev_transitionIndex ev = co_lastTransitionIndex c + 1"
  shows "history_ok (commit_advance ev s r c) (hist @ [p])"
proof -
  have run: "apply_chain True (co_parentState c) (hist @ [p]) = Inr s"
    using apply_all_snoc [of "\<lambda>s p. applyPatchOntoCurrent s p True"] assms(1,2) by (simp add: history_ok_def)
  define sn where "sn = \<lparr>sp_transitionIndex = ev_transitionIndex ev, sp_blockNumber = ev_blockNumber ev,
    sp_blockHash = ev_blockHash ev, sp_parent = toLowerCase (ev_parent ev), sp_root = r, sp_patchHash = toLowerCase (ev_patchHash ev), sp_state = s\<rparr>"
  have "snaps_ok (co_parentState c) (hist @ [p]) (co_snapshots c @ [sn])"
    by (rule snaps_ok_snoc) (use assms run in \<open>simp_all add: history_ok_def sn_def\<close>)
  then have "snaps_ok (co_parentState c) (hist @ [p]) (co_snapshots (commit_advance ev s r c))"
    using snaps_ok_tl by (simp add: commit_advance_def Let_def sn_def)
  moreover have "co_snapshots (commit_advance ev s r c) \<noteq> []" by (cases "co_snapshots c") (simp_all add: commit_advance_def MAX_SNAPSHOTS_def Let_def)
  ultimately show ?thesis
    using assms run by (simp add: history_ok_def)
qed

lemma set_update: "set (AList.update k v al) \<subseteq> insert (k, v) (set al)"
  by (induction al) auto

lemma applyChainEvent_inv:
  assumes "core_inv c" "applyChainEvent cfg ev c = Inr c'"
  shows "core_inv c'"
proof (cases "ev_epoch ev < cc_epoch cfg")
  case True
  then show ?thesis using assms by (simp add: applyChainEvent_Inr)
next
  case False
  then obtain p s rt where v: "event_verified cfg c ev p s rt" and c': "c' = settle_receipts ev (bytesToHex rt) (commit_advance ev s (bytesToHex rt) c)"
    using assms(2) by (auto simp: applyChainEvent_Inr)
  let ?d = "commit_advance ev s (bytesToHex rt) c"
  obtain hist where hist: "history_ok c hist" using core_invD(8) [OF assms(1)] by blast
  have live: "wf_state (co_liveState c)" using core_invD(1) [OF assms(1)] by (simp add: root_of_def)
  have dec: "decodePatch (coord_hexToBytes (ev_compactPatchBytes ev)) = Inr p" and app: "applyPatch (co_liveState c) p True = Inr (Inr s)"
    using v by (simp_all add: event_verified_def)
  have onto: "applyPatchOntoCurrent (co_liveState c) p True = Inr s"
    using app applyPatch_accepts [OF wf_state_length [OF live]] merkleizeState_eq [OF wf_state_length [OF live]] by blast
  have s: "root_of s (bytesToHex rt)" using applied_wf [OF live dec onto] v by (simp add: root_of_def event_verified_def)
  have "history_ok ?d (hist @ [p])"
    by (rule commit_history [OF hist onto decodePatch_well_sized [OF dec]]) (use v in \<open>simp add: event_verified_def\<close>)
  moreover have "root_of s' r" if "(r, s') \<in> set (co_stateByRoot ?d)" for r s'
    using that set_update [of "bytesToHex rt" s "co_stateByRoot c"] s core_invD(3) [OF assms(1)] by auto
  moreover have "root_of (sp_state sn) (sp_root sn) \<and> sp_root sn \<in> fst ` set (co_stateByRoot ?d)" if "sn \<in> set (co_snapshots ?d)" for sn
    using subsetD [OF commit_snapshots(1) that] s core_invD(4,6) [OF assms(1)] by (auto simp: dom_update)
  moreover have "co_parentRoot ?d \<in> fst ` set (co_stateByRoot ?d)" using core_invD(5) [OF assms(1)] by (simp add: dom_update)
  ultimately have "core_inv ?d"
    using s core_invD(2) [OF assms(1)] commit_snapshots(2) [OF core_invD(7) [OF assms(1)]] by (intro core_invI) auto
  then show ?thesis using core_inv_cong [of c' ?d] c' by simp
qed

lemma canonical_count_spec:
  "canonical_count rd (rev snaps) = Inr n \<Longrightarrow> n \<le> length snaps \<and>
     (\<forall>i < length snaps. n \<le> i \<longrightarrow> (\<exists>h. rd (sp_blockNumber (snaps ! i)) = Inr h \<and> known_hash h \<noteq> Some (toLowerCase (sp_blockHash (snaps ! i))))) \<and>
     (0 < n \<longrightarrow> (\<exists>h. rd (sp_blockNumber (snaps ! (n - 1))) = Inr h \<and> known_hash h = Some (toLowerCase (sp_blockHash (snaps ! (n - 1))))))"
proof (induction snaps rule: rev_induct)
  case (snoc sn snaps)
  obtain h where h: "rd (sp_blockNumber sn) = Inr h" using snoc.prems by (cases "rd (sp_blockNumber sn)") simp_all
  show ?case
  proof (cases "known_hash h = Some (toLowerCase (sp_blockHash sn))")
    case True
    then have "n = Suc (length snaps)" using snoc.prems h by simp
    then show ?thesis using True h by simp
  next
    case False
    then have "canonical_count rd (rev snaps) = Inr n" using snoc.prems h by simp
    with snoc.IH have IH: "n \<le> length snaps" "\<And>i. i < length snaps \<Longrightarrow> n \<le> i \<Longrightarrow> \<exists>h. rd (sp_blockNumber (snaps ! i)) = Inr h \<and> known_hash h \<noteq> Some (toLowerCase (sp_blockHash (snaps ! i)))"
      "0 < n \<longrightarrow> (\<exists>h. rd (sp_blockNumber (snaps ! (n - 1))) = Inr h \<and> known_hash h = Some (toLowerCase (sp_blockHash (snaps ! (n - 1)))))" by auto
    show ?thesis using IH False h by (auto simp: nth_append)
  qed
qed simp

lemma rollback_fields [simp]:
  "co_parentState (rollback n c) = co_parentState c" "co_parentRoot (rollback n c) = co_parentRoot c" "co_stateByRoot (rollback n c) = co_stateByRoot c"
  "co_snapshots (rollback n c) = take n (co_snapshots c)"
  by (simp_all add: rollback_def Let_def)

lemma rollback_live:
  assumes "core_inv c"
  shows "co_liveState (rollback 0 c) = co_parentState c" "co_liveRoot (rollback 0 c) = co_parentRoot c" "co_lastTransitionIndex (rollback 0 c) = -1"
    "0 < n \<Longrightarrow> n \<le> length (co_snapshots c) \<Longrightarrow> co_liveState (rollback n c) = sp_state (co_snapshots c ! (n - 1)) \<and>
      co_liveRoot (rollback n c) = sp_root (co_snapshots c ! (n - 1)) \<and> co_lastTransitionIndex (rollback n c) = sp_transitionIndex (co_snapshots c ! (n - 1))"
  using core_lower(1) [OF assms] core_lower(3) [OF assms nth_mem, of "n - 1"] by (simp_all add: rollback_def Let_def)

lemma prune_fields [simp]:
  "co_liveState (prune_states c) = co_liveState c" "co_liveRoot (prune_states c) = co_liveRoot c" "co_parentState (prune_states c) = co_parentState c"
  "co_parentRoot (prune_states c) = co_parentRoot c" "co_lastTransitionIndex (prune_states c) = co_lastTransitionIndex c" "co_snapshots (prune_states c) = co_snapshots c"
  by (simp_all add: prune_states_def Let_def)

lemma rollback_inv:
  assumes "core_inv c" "n \<le> length (co_snapshots c)"
  shows "core_inv (rollback n c)"
proof (cases "0 < n")
  case True
  let ?sn = "co_snapshots c ! (n - 1)"
  obtain hist where hist: "history_ok c hist" using core_invD(8) [OF assms(1)] by blast
  have ok: "snaps_ok (co_parentState c) hist (co_snapshots c)" using hist by (simp add: history_ok_def)
  define m where "m = length hist - length (co_snapshots c) + n"
  have mem: "?sn \<in> set (co_snapshots c)" using True assms(2) by simp
  have live: "co_liveState (rollback n c) = sp_state ?sn" "co_liveRoot (rollback n c) = sp_root ?sn" "co_lastTransitionIndex (rollback n c) = sp_transitionIndex ?sn"
    using rollback_live(4) [OF assms(1) True assms(2)] by simp_all
  have "n - 1 < length (co_snapshots c)" "m = length hist - length (co_snapshots c) + (n - 1) + 1" using True assms(2) by (simp_all add: m_def)
  note sn = snaps_ok_nth [OF ok this]
  have "m \<le> length hist" using snaps_ok_length [OF ok] assms(2) by (simp add: m_def)
  then have "history_ok (rollback n c) (take m hist)"
    using hist sn snaps_ok_take [OF ok True assms(2) m_def] True assms(2) mem live
    by (auto simp: history_ok_def list_all_iff dest: in_set_takeD)
  then show ?thesis
    using live core_invD [OF assms(1)] mem by (intro core_invI) (auto dest: in_set_takeD)
next
  case False
  then have live: "co_liveState (rollback n c) = co_parentState c" "co_liveRoot (rollback n c) = co_parentRoot c" "co_lastTransitionIndex (rollback n c) = -1"
    using rollback_live(1-3) [OF assms(1)] by simp_all
  then have "history_ok (rollback n c) []" using False by (simp add: history_ok_def)
  then show ?thesis using live False core_invD [OF assms(1)] by (intro core_invI) auto
qed

lemma prune_inv:
  assumes "core_inv c"
  shows "core_inv (prune_states c)"
proof -
  note eq = core_lower(1,3) [OF assms]
  obtain hist where "history_ok c hist" using core_invD(8) [OF assms] by blast
  then have "history_ok (prune_states c) hist" by (simp add: history_ok_def prune_states_def)
  then show ?thesis
  proof (rule core_invI [rotated -1])
    have keep: "k \<in> fst ` set (co_stateByRoot (prune_states c))" if "k \<in> insert (co_parentRoot c) (sp_root ` set (co_snapshots c))" for k
    proof -
      have "k \<in> fst ` set (co_stateByRoot c)" using that core_invD(5,6) [OF assms] by auto
      then show ?thesis using that eq by (force simp: prune_states_def Let_def)
    qed
    show "co_parentRoot (prune_states c) \<in> fst ` set (co_stateByRoot (prune_states c))" using keep by (simp add: prune_states_def Let_def)
    show "sp_root sn \<in> fst ` set (co_stateByRoot (prune_states c))" if "sn \<in> set (co_snapshots (prune_states c))" for sn
      using keep that by (simp add: prune_states_def Let_def)
  qed (use core_invD(1-4,7) [OF assms] in \<open>auto simp: prune_states_def Let_def\<close>)
qed


lemma handleReorg_Inr:
  "handleReorg rd c = Inr (ok, c') \<longleftrightarrow> (\<exists>n. canonical_count rd (rev (co_snapshots c)) = Inr n \<and> ok \<and>
     c' = bump (\<lambda>m. m\<lparr>mt_reorgRollbackCount := mt_reorgRollbackCount m + 1\<rparr>)
       ((auditReceiptCacheAgainstCanonicalRoots (reconcilePendingFromCanonicalSnapshots (prune_states (rollback n c))))
         \<lparr>co_signingEnabled := False, co_unhealthyReason := Some ReorgReconciling\<rparr>))"
  by (auto simp: handleReorg_def chain_bind_Inr Let_def)

lemma handleReorg_inv:
  assumes "core_inv c" "handleReorg rd c = Inr (ok, c')"
  shows "core_inv c'"
proof -
  obtain n where n: "canonical_count rd (rev (co_snapshots c)) = Inr n" "chain_part c' = chain_part (prune_states (rollback n c))"
    using assms(2) by (auto simp: handleReorg_Inr)
  have "core_inv (prune_states (rollback n c))"
    using canonical_count_spec [OF n(1)] by (intro prune_inv rollback_inv [OF assms(1)]) simp
  then show ?thesis using core_inv_cong [OF n(2)] by simp
qed

section \<open>Invariants of the watcher\<close>

lemma batch_Inr:
  "(case x of (c, Some e) \<Rightarrow> Inl e | (c, None) \<Rightarrow> f c) = Inr y \<longleftrightarrow> (\<exists>c. x = (c, None) \<and> f c = Inr y)"
  "(case x of (c, None) \<Rightarrow> f c | (c, Some e) \<Rightarrow> Inl e) = Inr y \<longleftrightarrow> (\<exists>c. x = (c, None) \<and> f c = Inr y)"
  by (auto split: prod.splits option.splits)

text \<open>Everything but the fields that only steer the watcher and report on it.\<close>

definition data_part :: "core \<Rightarrow> _" where
  "data_part c = (chain_part c, co_currentBaselineVariancePpm c, co_frozen c, co_frozenReason c, co_freezeGeneration c,
     co_minerChainReservations c, co_baselineByRoot c, co_pendingByPatchHash c, co_receiptCache c, co_expiredReceiptTombstones c, co_submitDedup c)"

lemma data_part_updates [simp]:
  "data_part (bump f c) = data_part c" "data_part (c\<lparr>co_signingEnabled := x1\<rparr>) = data_part c" "data_part (c\<lparr>co_unhealthyReason := x2\<rparr>) = data_part c"
  "data_part (c\<lparr>co_finalityLagBlocks := x3\<rparr>) = data_part c" "data_part (c\<lparr>co_lastScannedBlock := x4\<rparr>) = data_part c"
  "data_part (c\<lparr>co_transientChainFailureSinceMs := x5\<rparr>) = data_part c" "data_part (c\<lparr>co_chainLiveRoot := x6\<rparr>) = data_part c"
  "data_part (c\<lparr>co_chainTransitionCount := x7\<rparr>) = data_part c" "data_part (c\<lparr>co_lastEpochMismatch := x8\<rparr>) = data_part c"
  "data_part (c\<lparr>co_replayFromBlock := x9\<rparr>) = data_part c"
  by (simp_all add: data_part_def chain_part_def bump_def)

lemma data_part_gates [simp]:
  "data_part (snd (parityCheck reg c)) = data_part c" "data_part (snd (checkEpochStillCurrent cfg e c)) = data_part c"
  "data_part (snd (withinTransientChainGrace n c)) = data_part c" "data_part (markChainReadHealthy c) = data_part c"
  by (simp_all add: parityCheck_def checkEpochStillCurrent_def withinTransientChainGrace_def markChainReadHealthy_def Let_def)

locale watcher_invariant =
  fixes cfg :: CoordConfig and inv :: "core \<Rightarrow> bool" and clock :: "int set"
  assumes steer: "data_part c = data_part d \<Longrightarrow> inv c \<longleftrightarrow> inv d"
    and event: "inv c \<Longrightarrow> applyChainEvent cfg ev c = Inr c' \<Longrightarrow> inv c'"
    and reorg: "inv c \<Longrightarrow> handleReorg rd c = Inr (ok, c') \<Longrightarrow> inv c'"
    and audit: "inv c \<Longrightarrow> inv (auditReceiptCacheAgainstCanonicalRoots c)"
    and gc: "now \<in> clock \<Longrightarrow> inv c \<Longrightarrow> inv (gcPending cfg now c)"
begin

lemma updates [simp]:
  "inv (bump f c) = inv c" "inv (c\<lparr>co_signingEnabled := x1\<rparr>) = inv c" "inv (c\<lparr>co_unhealthyReason := x2\<rparr>) = inv c"
  "inv (c\<lparr>co_finalityLagBlocks := x3\<rparr>) = inv c" "inv (c\<lparr>co_lastScannedBlock := x4\<rparr>) = inv c" "inv (markChainReadHealthy c) = inv c"
  "inv (snd (parityCheck reg c)) = inv c" "inv (snd (checkEpochStillCurrent cfg' e c)) = inv c" "inv (snd (withinTransientChainGrace n c)) = inv c"
  by (rule steer, simp)+

lemma events: "inv c \<Longrightarrow> inv (fst (apply_events cfg evs c))"
  by (induction evs arbitrary: c) (auto split: sum.splits dest: event)

lemma reorg_phase_keeps: "inv c \<Longrightarrow> reorg_phase v c = (c', r) \<Longrightarrow> inv c'"
  by (auto simp: reorg_phase_def Let_def split: sum.splits if_splits prod.splits dest: reorg)

lemma scan_phase_keeps: "inv c \<Longrightarrow> scan_phase cfg v h c = (c', r) \<Longrightarrow> inv c'"
  using events [of c] by (auto simp: scan_phase_def split: sum.splits if_splits prod.splits option.splits) (metis fst_conv)+

lemma parity_phase_keeps: "tv_nowSec v \<in> clock \<Longrightarrow> inv c \<Longrightarrow> parity_phase cfg v c = (c', r) \<Longrightarrow> inv c'"
  using updates(7) by (auto simp: parity_phase_def Let_def split: sum.splits prod.splits) (metis snd_conv audit gc updates)+

lemma tick_body_keeps:
  assumes "inv c" "tick_body cfg v c = (c', r)" "tv_nowSec v \<in> clock"
  shows "inv c'"
proof (cases "tv_v4Epoch v")
  case (Inr e)
  obtain cur d where d: "checkEpochStillCurrent cfg e c = (cur, d)" by fastforce
  then have inv_d: "inv d" using updates(8) [of cfg e c] assms(1) by simp
  show ?thesis
  proof (cases "cur \<and> (\<exists>h. tv_blockNumber v = Inr h)")
    case True
    then obtain h where h: "tv_blockNumber v = Inr h" "cur" by blast
    obtain e r1 where e: "reorg_phase v (d\<lparr>co_finalityLagBlocks := h - co_lastScannedBlock d\<rparr>) = (e, r1)" by fastforce
    have "inv e" by (rule reorg_phase_keeps [OF _ e]) (simp add: inv_d)
    moreover obtain f r2 where f: "scan_phase cfg v (h - cc_confirmationDepth cfg) e = (f, r2)" by fastforce
    ultimately have "inv f" by (rule scan_phase_keeps)
    show ?thesis
      using assms(2) Inr d h e f \<open>inv e\<close> \<open>inv f\<close> parity_phase_keeps [of v f c' r] assms(3)
      by (auto simp: tick_body_def split: sum.splits option.splits)
  next
    case False
    then show ?thesis using assms(2,3) Inr d inv_d gc by (auto simp: tick_body_def split: sum.splits if_splits)
  qed
qed (use assms in \<open>simp add: tick_body_def\<close>)

lemma tick:
  assumes "inv c" "tv_nowSec v \<in> clock"
  shows "inv (tickInner cfg v c)"
proof -
  obtain d r where d: "tick_body cfg v c = (d, r)" by fastforce
  obtain g e where g: "withinTransientChainGrace (tv_nowMs v) (bump (\<lambda>m. m\<lparr>mt_watcherFaultCount := mt_watcherFaultCount m + 1\<rparr>) d) = (g, e)" by fastforce
  have "inv d" by (rule tick_body_keeps [OF assms(1) d assms(2)])
  moreover from this have "inv e" using updates(9) [of "tv_nowMs v" "bump (\<lambda>m. m\<lparr>mt_watcherFaultCount := mt_watcherFaultCount m + 1\<rparr>) d"] unfolding g by simp
  ultimately show ?thesis using assms d g by (simp add: tickInner_def Let_def split: option.splits)
qed

lemma boot_replay_keeps:
  assumes "inv c" "boot_replay cfg v c = Inr c'"
  shows "inv c'"
proof -
  let ?from = "max 0 (case cc_replayFromBlock cfg of None \<Rightarrow> 0 | Some b \<Rightarrow> b)"
  obtain evs d h where run: "apply_events cfg evs (c\<lparr>co_replayFromBlock := ?from\<rparr>) = (d, None)"
      and parity: "chain_bind (bv_registryEpoch v) (\<lambda>reg. let (available, c) = parityCheck reg (d\<lparr>co_lastScannedBlock := h\<rparr>) in
          if available then Inr (c\<lparr>co_signingEnabled := True, co_unhealthyReason := None\<rparr>)
          else if isAwaitingFinality c then Inr c else watcher_error ''coord: HARD-FAIL post-replay parity'') = Inr c'"
    using assms(2) unfolding boot_replay_def Let_def chain_bind_Inr batch_Inr by blast
  have "inv (c\<lparr>co_replayFromBlock := ?from\<rparr>) = inv c" by (rule steer) simp
  with events [of "c\<lparr>co_replayFromBlock := ?from\<rparr>" evs] run assms(1) have d: "inv d" by simp
  obtain reg where reg: "bv_registryEpoch v = Inr reg" using parity unfolding chain_bind_Inr by blast
  obtain ok e where par: "parityCheck reg (d\<lparr>co_lastScannedBlock := h\<rparr>) = (ok, e)" by fastforce
  have c': "c' = e \<or> c' = e\<lparr>co_signingEnabled := True, co_unhealthyReason := None\<rparr>"
    using parity reg par by (auto simp: chain_bind_def split: if_splits)
  have "inv e" using updates(7) [of reg "d\<lparr>co_lastScannedBlock := h\<rparr>"] par d by simp
  then show ?thesis using c' by auto
qed

end

interpretation tracked: watcher_invariant cfg core_inv UNIV for cfg
proof
  fix c d c' :: core and ev rd ok now
  show "core_inv c \<longleftrightarrow> core_inv d" if "data_part c = data_part d"
    by (rule core_inv_cong) (use that in \<open>simp only: data_part_def prod.inject\<close>)
  show "core_inv c'" if "core_inv c" "applyChainEvent cfg ev c = Inr c'" using applyChainEvent_inv that by blast
  show "core_inv c'" if "core_inv c" "handleReorg rd c = Inr (ok, c')" using handleReorg_inv that by blast
  show "core_inv (auditReceiptCacheAgainstCanonicalRoots c)" "core_inv (gcPending cfg now c)" if "core_inv c"
    using that core_inv_cong by (metis chain_part_receipts(2), metis chain_part_gc)
qed


lemma boot_inv:
  assumes "boot cfg v = Inr c" "\<And>r s. bv_parentLoader v r = Inr s \<Longrightarrow> wf_state s"
  shows "core_inv c"
proof -
  obtain parent r b where p: "boot_parent cfg v = Inr (parent, r)" "launchBaselinePpm cfg = Inr b"
      and rep: "boot_replay cfg v ((initial_core cfg)\<lparr>co_liveState := parent, co_liveRoot := r, co_parentState := parent,
        co_parentRoot := r, co_stateByRoot := [(r, parent)], co_baselineByRoot := [(r, b)]\<rparr>) = Inr c"
    using assms(1) by (auto simp: boot_def chain_bind_Inr)
  let ?c0 = "(initial_core cfg)\<lparr>co_liveState := parent, co_liveRoot := r, co_parentState := parent, co_parentRoot := r,
    co_stateByRoot := [(r, parent)], co_baselineByRoot := [(r, b)]\<rparr>"
  have root: "root_of parent r"
    using p(1) assms(2) unfolding boot_parent_def chain_bind_Inr by (auto simp: chain_bind_Inr chain_require_def root_of_def split: if_splits)
  have "history_ok ?c0 []" by (simp add: history_ok_def initial_core_def)
  then have inv0: "core_inv ?c0" using root by (intro core_invI) (simp_all add: initial_core_def MAX_SNAPSHOTS_def)
  show ?thesis by (rule tracked.boot_replay_keeps [OF inv0 rep])
qed


section \<open>The parity gate\<close>

definition health :: "core \<Rightarrow> bool \<times> int option" where
  "health c = (co_signingEnabled c, co_transientChainFailureSinceMs c)"

lemma health_receipts [simp]:
  "health (bump f c) = health c" "health (settle_receipts ev r c) = health c" "health (commit_advance ev s r c) = health c"
  "health (auditReceiptCacheAgainstCanonicalRoots c) = health c" "health (reconcilePendingFromCanonicalSnapshots c) = health c"
  "health (markExpiredReceiptHash cfg h n c) = health c" "health (forget_receipt h c) = health c" "health (rollback k c) = health c" "health (prune_states c) = health c"
  by (simp_all add: health_def bump_def settle_receipts_def commit_advance_def auditReceiptCacheAgainstCanonicalRoots_def rollback_def prune_states_def
    reconcilePendingFromCanonicalSnapshots_def markExpiredReceiptHash_def forget_receipt_def Let_def)

lemma health_updates [simp]:
  "health (c\<lparr>co_pendingByPatchHash := x1\<rparr>) = health c" "health (c\<lparr>co_submitDedup := x2\<rparr>) = health c" "health (c\<lparr>co_receiptCache := x3\<rparr>) = health c"
  "health (c\<lparr>co_finalityLagBlocks := x4\<rparr>) = health c" "health (c\<lparr>co_lastScannedBlock := x5\<rparr>) = health c" "health (c\<lparr>co_unhealthyReason := x6\<rparr>) = health c"
  "health (c\<lparr>co_expiredReceiptTombstones := x7\<rparr>) = health c" "health (c\<lparr>co_minerChainReservations := x8\<rparr>) = health c"
  by (simp_all add: health_def)

lemma health_gc [simp]: "health (gcPending cfg n c) = health c"
proof -
  have "health (expire_pending cfg n c e) = health c" "health (expire_receipt cfg n c e') = health c" for c e e'
    by (simp_all add: expire_pending_def expire_receipt_def Let_def split: prod.splits option.splits)
  then show ?thesis by (simp add: gcPending_def Let_def foldl_keeps [where f = health])
qed

lemma signing_gc [simp]: "co_signingEnabled (gcPending cfg n c) = co_signingEnabled c"
  using health_gc [of cfg n c] by (simp add: health_def)

lemma health_events: "health (fst (apply_events cfg evs c)) = health c"
proof (induction evs arbitrary: c)
  case (Cons ev evs)
  have "health c' = health c" if "applyChainEvent cfg ev c = Inr c'" for c'
    using that by (auto simp: applyChainEvent_Inr split: if_splits)
  then show ?case using Cons.IH by (auto split: sum.splits)
qed simp

definition no_healthier :: "core \<Rightarrow> core \<Rightarrow> bool" where
  "no_healthier d c \<longleftrightarrow> co_transientChainFailureSinceMs d = co_transientChainFailureSinceMs c \<and> (co_signingEnabled d \<longrightarrow> co_signingEnabled c)"

lemma no_healthier_trans: "no_healthier e d \<Longrightarrow> no_healthier d c \<Longrightarrow> no_healthier e c"
  by (simp add: no_healthier_def)

lemma no_healthier_same: "health d = health c \<Longrightarrow> no_healthier d c"
  by (simp add: health_def no_healthier_def)

lemma reorg_phase_health: "reorg_phase v c = (d, r) \<Longrightarrow> no_healthier d c"
proof -
  have "no_healthier d c" if "handleReorg rd c = Inr (ok, d)" for rd ok d
    using that health_receipts by (auto simp: handleReorg_Inr no_healthier_def health_def)
  then show "reorg_phase v c = (d, r) \<Longrightarrow> no_healthier d c"
    by (fastforce simp: reorg_phase_def Let_def no_healthier_def split: sum.splits if_splits prod.splits)
qed

lemma scan_phase_health:
  assumes "scan_phase cfg v h c = (d, r)"
  shows "no_healthier d c"
proof -
  have "health d' = health c" if "apply_events cfg evs c = (d', r')" for evs d' r' using health_events [of cfg evs c] that by simp
  then show ?thesis using assms no_healthier_same by (fastforce simp: scan_phase_def split: sum.splits if_splits prod.splits option.splits)
qed


definition in_parity :: "CoordConfig \<Rightarrow> TickView \<Rightarrow> core \<Rightarrow> bool" where
  "in_parity cfg v c \<longleftrightarrow> (\<exists>reg. tv_registryEpoch v = Inr reg \<and> rg_transitionCount reg = co_lastTransitionIndex c + 1 \<and>
     toLowerCase (rg_liveStateRoot reg) = toLowerCase (co_liveRoot c))"

lemma parity_phase_end:
  assumes "parity_phase cfg v c = (d, r)"
  shows "if r = None then co_signingEnabled d \<longrightarrow> in_parity cfg v d else d = c"
proof (cases "tv_registryEpoch v")
  case (Inr reg)
  obtain ok e where e: "parityCheck reg c = (ok, e)" by fastforce
  let ?f = "if ok then (auditReceiptCacheAgainstCanonicalRoots e)\<lparr>co_signingEnabled := True, co_unhealthyReason := None\<rparr> else e"
  have d: "d = gcPending cfg (tv_nowSec v) (markChainReadHealthy ?f)" "r = None" using assms Inr e by (auto simp: parity_phase_def Let_def)
  have "chain_part d = chain_part c" using d(1) chain_part_gates(1) [of reg c] e by simp
  note cd = chain_part_eqD [OF this]
  show ?thesis
  proof (cases ok)
    case True
    then have "rg_transitionCount reg = co_lastTransitionIndex c + 1" "toLowerCase (rg_liveStateRoot reg) = toLowerCase (co_liveRoot c)"
      using e by (auto simp: parityCheck_def Let_def split: if_splits)
    then show ?thesis using Inr d(2) cd by (simp add: in_parity_def)
  next
    case False
    then have "\<not> co_signingEnabled e" using e by (auto simp: parityCheck_def bump_def Let_def split: if_splits)
    then show ?thesis using False d by (simp add: markChainReadHealthy_def)
  qed
qed (use assms in \<open>auto simp: parity_phase_def\<close>)

lemma tick_body_end:
  assumes "tick_body cfg v c = (d, r)"
  shows "if r = None then co_signingEnabled d \<longrightarrow> tv_v4Epoch v = Inr (cc_epoch cfg) \<and> in_parity cfg v d else no_healthier d c"
proof (cases "tv_v4Epoch v")
  case (Inr e)
  obtain cur d0 where d0: "checkEpochStillCurrent cfg e c = (cur, d0)" by fastforce
  have h0: "no_healthier d0 c" "cur \<longleftrightarrow> e = cc_epoch cfg" "\<not> cur \<Longrightarrow> \<not> co_signingEnabled d0"
    using d0 by (auto simp: checkEpochStillCurrent_def no_healthier_def bump_def Let_def split: if_splits)
  consider "\<not> cur" | "cur" "\<exists>x. tv_blockNumber v = Inl x" | h where "cur" "tv_blockNumber v = Inr h" by (cases "tv_blockNumber v") auto
  then show ?thesis
  proof cases
    case 1
    then have "d = gcPending cfg (tv_nowSec v) d0" "r = None" using assms Inr d0 by (auto simp: tick_body_def)
    then show ?thesis using h0(3) 1 by simp
  next
    case 2
    then show ?thesis using assms Inr d0 h0 by (auto simp: tick_body_def)
  next
    case 3
    obtain d1 r1 where d1: "reorg_phase v (d0\<lparr>co_finalityLagBlocks := h - co_lastScannedBlock d0\<rparr>) = (d1, r1)" by fastforce
    obtain d2 r2 where d2: "scan_phase cfg v (h - cc_confirmationDepth cfg) d1 = (d2, r2)" by fastforce
    have h1: "no_healthier d1 c"
      using reorg_phase_health [OF d1] h0(1) by (auto simp: no_healthier_def)
    note h2 = no_healthier_trans [OF scan_phase_health [OF d2] h1]
    have stop: "r1 = Inl None \<Longrightarrow> \<not> co_signingEnabled d1"
      using d1 by (auto simp: reorg_phase_def Let_def split: sum.splits if_splits prod.splits)
    consider x where "r1 = Inl x" "d = d1" "r = x" | x where "r2 = Some x" "d = d2" "r = r2" | "parity_phase cfg v d2 = (d, r)"
      using assms Inr d0 3 d1 d2 by (cases r1; cases r2) (auto simp: tick_body_def)
    then show ?thesis
    proof cases
      case 3
      from parity_phase_end [OF this] show ?thesis using \<open>cur\<close> h0(2) Inr h2 by (auto split: if_splits)
    qed (use h1 h2 stop in auto)
  qed
qed (use assms in \<open>auto simp: tick_body_def no_healthier_def\<close>)

text \<open>C36. The parity gate: whenever signing is enabled after a tick of a core that is not frozen, either this very tick saw
  the configured epoch and a registry whose transition count and live root are those of the core, or
  signing was already enabled and the tick met a transient read fault less than a minute after the first one of the streak.\<close>

theorem tick_parity_gate:
  assumes "\<not> co_frozen c" "co_signingEnabled (tickInner cfg v c)"
  shows "tv_v4Epoch v = Inr (cc_epoch cfg) \<and> (\<exists>reg. tv_registryEpoch v = Inr reg \<and>
      rg_transitionCount reg = co_lastTransitionIndex (tickInner cfg v c) + 1 \<and>
      toLowerCase (rg_liveStateRoot reg) = toLowerCase (co_liveRoot (tickInner cfg v c))) \<or>
    co_signingEnabled c \<and> (\<exists>e since. snd (tick_body cfg v c) = Some e \<and> isTransientChainReadError e \<and>
      since = (case co_transientChainFailureSinceMs c of None \<Rightarrow> tv_nowMs v | Some t \<Rightarrow> t) \<and> tv_nowMs v - since < 60000)"
proof -
  obtain d r where d: "tick_body cfg v c = (d, r)" by fastforce
  note e = tick_body_end [OF d]
  show ?thesis
  proof (cases r)
    case None
    then show ?thesis using assms d e by (simp add: tickInner_def in_parity_def)
  next
    case (Some x)
    then show ?thesis
      using assms d e by (auto simp: tickInner_def withinTransientChainGrace_def no_healthier_def bump_def TRANSIENT_CHAIN_FAILURE_GRACE_MS_def Let_def split: if_splits)
  qed
qed


section \<open>Reorganisations\<close>

lemma reconcile_confirmed:
  assumes "pr_state (reconcile_one snaps p) = st_confirmed"
  shows "\<exists>sn \<in> set snaps. toLowerCase (pr_parentRoot p) = toLowerCase (sp_parent sn) \<and> toLowerCase (pr_signedPatchHash p) = toLowerCase (sp_patchHash sn)"
  using assms
proof (induction snaps rule: rev_induct)
  case (snoc sn snaps)
  have fixed: "pr_parentRoot (reconcile_one snaps p) = pr_parentRoot p" "pr_signedPatchHash (reconcile_one snaps p) = pr_signedPatchHash p"
    unfolding reconcile_one_def by (induction snaps rule: rev_induct) simp_all
  have step: "reconcile_one (snaps @ [sn]) p = (let q = reconcile_one snaps p in
      if pr_state q \<noteq> st_pending then q else if toLowerCase (pr_parentRoot q) \<noteq> toLowerCase (sp_parent sn) then q
      else q\<lparr>pr_state := (if toLowerCase (pr_signedPatchHash q) = toLowerCase (sp_patchHash sn) then st_confirmed else st_stale)\<rparr>)"
    by (simp add: reconcile_one_def Let_def)
  show ?case
    using snoc.IH snoc.prems fixed by (auto simp: step Let_def split: if_splits)
qed (simp add: reconcile_one_def split: if_splits)

lemma audit_confirmed:
  "(k, p) \<in> set (co_pendingByPatchHash (auditReceiptCacheAgainstCanonicalRoots c)) \<Longrightarrow> pr_state p = st_confirmed \<Longrightarrow> (k, p) \<in> set (co_pendingByPatchHash c)"
  by (auto simp: auditReceiptCacheAgainstCanonicalRoots_def bump_def markPendingStale_def Let_def split: if_splits)

text \<open>A reorganisation rolls back to the truth: of the snapshots exactly those up to the latest one whose block is still
  canonical are kept; the live state, root and transition index are that snapshot's (the pinned parent's
  if none is left); substrates of other roots are no longer served; receipts count as confirmed only
  by a kept snapshot; signing is off.\<close>

lemma reorg_rolls_back:
  assumes "core_inv c" "handleReorg rd c = Inr (ok, c')"
  shows "\<exists>n \<le> length (co_snapshots c). co_snapshots c' = take n (co_snapshots c) \<and>
    (\<forall>i < length (co_snapshots c). n \<le> i \<longrightarrow> (\<exists>h. rd (sp_blockNumber (co_snapshots c ! i)) = Inr h \<and>
      known_hash h \<noteq> Some (toLowerCase (sp_blockHash (co_snapshots c ! i))))) \<and>
    (if n = 0 then co_liveState c' = co_parentState c \<and> co_liveRoot c' = co_parentRoot c \<and> co_lastTransitionIndex c' = -1
     else let sn = co_snapshots c ! (n - 1) in
       (\<exists>h. rd (sp_blockNumber sn) = Inr h \<and> known_hash h = Some (toLowerCase (sp_blockHash sn))) \<and>
       co_liveState c' = sp_state sn \<and> co_liveRoot c' = sp_root sn \<and> co_lastTransitionIndex c' = sp_transitionIndex sn) \<and>
    fst ` set (co_stateByRoot c') = insert (co_parentRoot c) (sp_root ` set (co_snapshots c')) \<and>
    (\<forall>(k, p) \<in> set (co_pendingByPatchHash c'). pr_state p = st_confirmed \<longrightarrow> (\<exists>sn \<in> set (co_snapshots c').
      toLowerCase (pr_parentRoot p) = toLowerCase (sp_parent sn) \<and> toLowerCase (pr_signedPatchHash p) = toLowerCase (sp_patchHash sn))) \<and>
    ok \<and> \<not> co_signingEnabled c' \<and> core_inv c'"
proof -
  obtain n where n: "canonical_count rd (rev (co_snapshots c)) = Inr n" "ok" and c': "c' = bump (\<lambda>m. m\<lparr>mt_reorgRollbackCount := mt_reorgRollbackCount m + 1\<rparr>)
       ((auditReceiptCacheAgainstCanonicalRoots (reconcilePendingFromCanonicalSnapshots (prune_states (rollback n c))))
         \<lparr>co_signingEnabled := False, co_unhealthyReason := Some ReorgReconciling\<rparr>)"
    using assms(2) unfolding handleReorg_Inr by blast
  note spec = canonical_count_spec [OF n(1)]
  let ?d = "prune_states (rollback n c)"
  have chain: "chain_part c' = chain_part ?d" using c' by simp
  note eq = chain_part_eqD [OF chain]
  have inv': "core_inv c'" by (rule handleReorg_inv [OF assms])
  have snaps: "co_snapshots c' = take n (co_snapshots c)" using eq by simp
  have live: "if n = 0 then co_liveState c' = co_parentState c \<and> co_liveRoot c' = co_parentRoot c \<and> co_lastTransitionIndex c' = -1
     else co_liveState c' = sp_state (co_snapshots c ! (n - 1)) \<and> co_liveRoot c' = sp_root (co_snapshots c ! (n - 1)) \<and>
       co_lastTransitionIndex c' = sp_transitionIndex (co_snapshots c ! (n - 1))"
    using rollback_live(1-3) [OF assms(1)] rollback_live(4) [OF assms(1), of n] spec eq(1,2,5) by (cases "n = 0") simp_all
  have keep: "fst ` set (co_stateByRoot c') = insert (co_parentRoot c) (sp_root ` set (co_snapshots c'))"
  proof -
    have par: "co_parentRoot c' = co_parentRoot c" using eq by simp
    have "k \<in> insert (co_parentRoot c) (sp_root ` set (co_snapshots c'))" if "k \<in> fst ` set (co_stateByRoot c')" for k
    proof -
      have "k \<in> insert (toLowerCase (co_parentRoot c)) ((\<lambda>s. toLowerCase (sp_root s)) ` set (co_snapshots c'))"
        using that unfolding eq(6) snaps by (auto simp: prune_states_def Let_def)
      then show ?thesis using core_lower(1) [OF assms(1)] core_lower(3) [OF inv'] by auto
    qed
    then show ?thesis using core_invD(5,6) [OF inv'] par by auto
  qed
  have conf: "\<exists>sn \<in> set (co_snapshots c'). toLowerCase (pr_parentRoot p) = toLowerCase (sp_parent sn) \<and> toLowerCase (pr_signedPatchHash p) = toLowerCase (sp_patchHash sn)"
    if "(k, p) \<in> set (co_pendingByPatchHash c')" "pr_state p = st_confirmed" for k p
  proof -
    have "(k, p) \<in> set (co_pendingByPatchHash (auditReceiptCacheAgainstCanonicalRoots (reconcilePendingFromCanonicalSnapshots ?d)))" using that(1) c' by (simp add: bump_def)
    from audit_confirmed [OF this that(2)] obtain q where "p = reconcile_one (co_snapshots ?d) q" by (auto simp: reconcilePendingFromCanonicalSnapshots_def)
    moreover have "pr_parentRoot (reconcile_one s q) = pr_parentRoot q" "pr_signedPatchHash (reconcile_one s q) = pr_signedPatchHash q" for s
      unfolding reconcile_one_def by (induction s rule: rev_induct) simp_all
    ultimately show ?thesis using reconcile_confirmed [of "co_snapshots ?d" q] that(2) eq(7) by simp
  qed
  have "\<not> co_signingEnabled c'" using c' by (simp add: bump_def)
  then show ?thesis
    using spec snaps live keep conf inv' n(2) by (intro exI [of _ n]) (auto simp: Let_def)
qed


section \<open>Receipts\<close>

definition receipts_inv :: "core \<Rightarrow> bool" where
  "receipts_inv c \<longleftrightarrow> distinct (map fst (co_pendingByPatchHash c)) \<and>
     (\<forall>(k, p) \<in> set (co_pendingByPatchHash c). k = toLowerCase (pr_signedPatchHash p) \<and> pr_state p \<noteq> st_expired)"

definition due :: "int \<Rightarrow> PendingReceipt \<Rightarrow> bool" where
  "due now p \<longleftrightarrow> pr_state p = st_pending \<and> pr_expiresAt p \<le> now"

lemma pending_marks [simp]:
  "co_pendingByPatchHash (bump f c) = co_pendingByPatchHash c" "co_pendingByPatchHash (markExpiredReceiptHash cfg h n c) = co_pendingByPatchHash c"
  "co_pendingByPatchHash (forget_receipt h c) = co_pendingByPatchHash c"
  by (simp_all add: bump_def markExpiredReceiptHash_def forget_receipt_def)

lemma pending_expire_receipt: "co_pendingByPatchHash (expire_receipt cfg n c e) = co_pendingByPatchHash c"
  by (simp add: expire_receipt_def Let_def split: prod.splits option.splits)

lemma update_present: "k \<notin> fst ` set pre \<Longrightarrow> AList.update k v (pre @ (k, u) # post) = pre @ (k, v) # post"
  by (induction pre) auto

lemma delete_present: "k \<notin> fst ` set pre \<Longrightarrow> k \<notin> fst ` set post \<Longrightarrow> AList.delete k (pre @ (k, u) # post) = pre @ post"
  by (induction pre) auto

lemma expire_pending_fold:
  assumes "co_pendingByPatchHash c = pre @ xs" "distinct (map fst (pre @ xs))"
    "\<forall>(k, p) \<in> set xs. k = toLowerCase (pr_signedPatchHash p)"
  shows "co_pendingByPatchHash (foldl (expire_pending cfg now) c xs) = pre @ filter (\<lambda>(k, p). \<not> due now p) xs"
  using assms
proof (induction xs arbitrary: pre c)
  case (Cons x xs)
  obtain k p where x: "x = (k, p)" by fastforce
  have k: "k = toLowerCase (pr_signedPatchHash p)" "k \<notin> fst ` set pre" "k \<notin> fst ` set xs" using Cons.prems x by auto
  show ?case
  proof (cases "due now p")
    case True
    then have "co_pendingByPatchHash (expire_pending cfg now c x) = AList.delete k (AList.update k (p\<lparr>pr_state := st_expired\<rparr>) (pre @ (k, p) # xs))"
      using Cons.prems(1) x k(1) by (simp add: expire_pending_def due_def Let_def)
    then have "co_pendingByPatchHash (expire_pending cfg now c x) = pre @ xs"
      using k(2,3) by (simp add: update_present delete_present)
    from Cons.IH [OF this] Cons.prems x True show ?thesis by simp
  next
    case False
    then have "expire_pending cfg now c x = c" using x by (auto simp: expire_pending_def due_def)
    with Cons.IH [of c "pre @ [x]"] Cons.prems x False show ?thesis by simp
  qed
qed simp

lemma gc_pending:
  assumes "receipts_inv c"
  shows "co_pendingByPatchHash (gcPending cfg now c) = filter (\<lambda>(k, p). \<not> due now p) (co_pendingByPatchHash c)"
proof -
  have "co_pendingByPatchHash (foldl (expire_receipt cfg now) d es) = co_pendingByPatchHash d" for d es
    by (rule foldl_keeps) (rule pending_expire_receipt)
  moreover have "distinct (map fst ([] @ co_pendingByPatchHash c))" "\<forall>(k, p) \<in> set (co_pendingByPatchHash c). k = toLowerCase (pr_signedPatchHash p)"
    using assms by (auto simp: receipts_inv_def)
  ultimately show ?thesis
    using expire_pending_fold [of c "[]" "co_pendingByPatchHash c" cfg now] by (simp add: gcPending_def Let_def)
qed

lemma gc_receipts: "receipts_inv c \<Longrightarrow> receipts_inv (gcPending cfg now c)"
  by (auto simp: receipts_inv_def gc_pending distinct_map_filter)

lemma map_pending_inv:
  assumes "receipts_inv c" "co_pendingByPatchHash d = map (\<lambda>(k, p). (k, f p)) (co_pendingByPatchHash c)"
    "\<And>p. pr_signedPatchHash (f p) = pr_signedPatchHash p" "\<And>p. pr_state p \<noteq> st_expired \<Longrightarrow> pr_state (f p) \<noteq> st_expired"
  shows "receipts_inv d"
proof -
  have "map fst (co_pendingByPatchHash d) = map fst (co_pendingByPatchHash c)" using assms(2) by (simp add: case_prod_beta comp_def)
  moreover have "k = toLowerCase (pr_signedPatchHash p) \<and> pr_state p \<noteq> st_expired" if "(k, p) \<in> set (co_pendingByPatchHash d)" for k p
    using that assms by (auto simp: receipts_inv_def)
  ultimately show ?thesis using assms(1) unfolding receipts_inv_def by auto
qed

lemma reconcile_fields:
  "pr_parentRoot (reconcile_one s q) = pr_parentRoot q" "pr_signedPatchHash (reconcile_one s q) = pr_signedPatchHash q"
  "pr_state q \<noteq> st_expired \<Longrightarrow> pr_state (reconcile_one s q) \<noteq> st_expired"
  unfolding reconcile_one_def by (induction s rule: rev_induct) simp_all

interpretation receipts: watcher_invariant cfg receipts_inv UNIV for cfg
proof
  fix c d c' :: core and ev rd ok now
  show "receipts_inv c \<longleftrightarrow> receipts_inv d" if "data_part c = data_part d"
    using that by (simp add: receipts_inv_def data_part_def)
  show aud: "receipts_inv (auditReceiptCacheAgainstCanonicalRoots c)" if "receipts_inv c" for c
    by (rule map_pending_inv [OF that, where f = "\<lambda>p. if pr_state p = st_pending \<and> toLowerCase (pr_parentRoot p) \<notin> fst ` set (co_stateByRoot c) then markPendingStale p else p"])
      (auto simp: auditReceiptCacheAgainstCanonicalRoots_def markPendingStale_def Let_def)
  show "receipts_inv (gcPending cfg now c)" if "receipts_inv c" using that by (rule gc_receipts)
  show "receipts_inv c'" if inv: "receipts_inv c" and app: "applyChainEvent cfg ev c = Inr c'"
  proof (cases "c' = c")
    case False
    then obtain s r where "c' = settle_receipts ev r (commit_advance ev s r c)" using app by (auto simp: applyChainEvent_Inr split: if_splits)
    then have "co_pendingByPatchHash c' = map (\<lambda>(k, p). (k, settle_pending ev p)) (co_pendingByPatchHash c)"
      by (simp add: settle_receipts_def commit_advance_def Let_def)
    then show ?thesis by (rule map_pending_inv [OF inv]) (auto simp: settle_pending_def)
  qed (use inv in simp)
  show "receipts_inv c'" if inv: "receipts_inv c" and r: "handleReorg rd c = Inr (ok, c')"
  proof -
    obtain n where c': "co_pendingByPatchHash c' = co_pendingByPatchHash (auditReceiptCacheAgainstCanonicalRoots (reconcilePendingFromCanonicalSnapshots (prune_states (rollback n c))))"
      using r by (auto simp: handleReorg_Inr)
    have "co_pendingByPatchHash (prune_states (rollback n c)) = co_pendingByPatchHash c" by (simp add: prune_states_def rollback_def Let_def)
    then have "receipts_inv (reconcilePendingFromCanonicalSnapshots (prune_states (rollback n c)))"
      using reconcile_fields by (intro map_pending_inv [OF inv, where f = "reconcile_one (co_snapshots (prune_states (rollback n c)))"]) (simp_all add: reconcilePendingFromCanonicalSnapshots_def)
    from aud [OF this] c' show ?thesis by (simp add: receipts_inv_def)
  qed
qed

text \<open>A receipt lookup hands back only usable receipts: with status 200 the receipt is cached under the hash; if a state
  advance is pending for it, it is confirmed or still pending and not yet expired, and without one the
  receipt itself has not expired. A stale receipt is never handed back.\<close>

lemma receipt_lookup_usable:
  assumes "receipts_inv c" "getReceiptByHash cfg now hash c = (ReceiptFound env st, c')"
  shows "map_of (co_receiptCache c') (toLowerCase hash) = Some env \<and>
    (case map_of (co_pendingByPatchHash c') (toLowerCase (re_patchHash env)) of
       Some p \<Rightarrow> st = Some (pr_state p) \<and> (pr_state p = st_confirmed \<or> pr_state p = st_pending \<and> now < pr_expiresAt p)
     | None \<Rightarrow> st = None \<and> now < re_expiresAt env)"
proof -
  define d where "d = gcPending cfg now c"
  have found: "map_of (co_receiptCache d) (toLowerCase hash) = Some env" "c' = d"
    and cases: "case map_of (co_pendingByPatchHash d) (toLowerCase (re_patchHash env)) of
      Some p \<Rightarrow> st = Some (pr_state p) \<and> pr_state p \<noteq> st_stale \<and> pr_state p \<noteq> st_expired | None \<Rightarrow> st = None \<and> now < re_expiresAt env"
    using assms(2) by (auto simp: getReceiptByHash_def d_def [symmetric] Let_def split: option.splits if_splits)
  have live: "\<not> due now p" if "map_of (co_pendingByPatchHash d) k = Some p" for k p
    using map_of_SomeD [OF that] gc_pending [OF assms(1), of cfg now] by (auto simp: d_def)
  show ?thesis
  proof (cases "map_of (co_pendingByPatchHash d) (toLowerCase (re_patchHash env))")
    case (Some p)
    then show ?thesis using found cases live [OF Some] by (cases "pr_state p") (auto simp: due_def)
  qed (use found cases in simp)
qed


section \<open>Partly applied batches\<close>

text \<open>A view of the chain in which nothing was reorganised and the watcher, asking again from its last scanned block, gets a
  batch that starts with the event \<open>ev\<close>.\<close>

definition rescans :: "CoordConfig \<Rightarrow> ChainEvent \<Rightarrow> core \<Rightarrow> TickView \<Rightarrow> bool" where
  "rescans cfg ev c v \<longleftrightarrow> tv_v4Epoch v = Inr (cc_epoch cfg) \<and>
     (co_snapshots c \<noteq> [] \<longrightarrow> tv_deepestHash v (sp_blockNumber (last (co_snapshots c))) = Inr (Some (sp_blockHash (last (co_snapshots c))))) \<and>
     (\<exists>head evs rest. tv_blockNumber v = Inr head \<and> co_lastScannedBlock c < head - cc_confirmationDepth cfg \<and>
       tv_events v (co_lastScannedBlock c + 1) (head - cc_confirmationDepth cfg) = Inr evs \<and> js_sort event_compare evs = ev # rest)"

lemma event_control [simp]:
  "co_lastScannedBlock (settle_receipts ev r c) = co_lastScannedBlock c" "co_frozen (settle_receipts ev r c) = co_frozen c"
  "co_lastTransitionIndex (settle_receipts ev r c) = co_lastTransitionIndex c"
  "co_lastScannedBlock (commit_advance ev s r c) = co_lastScannedBlock c" "co_frozen (commit_advance ev s r c) = co_frozen c"
  by (simp_all add: settle_receipts_def commit_advance_def bump_def Let_def)

lemma old_event_refused:
  "ev_epoch ev = cc_epoch cfg \<Longrightarrow> ev_transitionIndex ev \<le> co_lastTransitionIndex c \<Longrightarrow> \<exists>e. applyChainEvent cfg ev c = Inl (CoreFault e)"
  by (simp add: applyChainEvent_def watcher_error_def)

lemma rescan_tick:
  assumes "\<not> co_frozen c" "rescans cfg ev c v" "ev_epoch ev = cc_epoch cfg" "ev_transitionIndex ev \<le> co_lastTransitionIndex c"
  shows "chain_part (tickInner cfg v c) = chain_part c" "co_lastScannedBlock (tickInner cfg v c) = co_lastScannedBlock c"
    "\<not> co_signingEnabled (tickInner cfg v c)" "\<not> co_frozen (tickInner cfg v c)"
proof -
  obtain head evs rest where h: "tv_blockNumber v = Inr head" "co_lastScannedBlock c < head - cc_confirmationDepth cfg"
      "tv_events v (co_lastScannedBlock c + 1) (head - cc_confirmationDepth cfg) = Inr evs" "js_sort event_compare evs = ev # rest"
    using assms(2) by (auto simp: rescans_def)
  define d where "d = c\<lparr>co_lastEpochMismatch := None, co_finalityLagBlocks := head - co_lastScannedBlock c\<rparr>"
  have d: "chain_part d = chain_part c" "co_lastScannedBlock d = co_lastScannedBlock c" "\<not> co_frozen d" "co_snapshots d = co_snapshots c"
      "co_lastTransitionIndex d = co_lastTransitionIndex c"
    using assms(1) by (simp_all add: d_def)
  have "known_hash (Some s) \<noteq> None \<Longrightarrow> known_hash (Some s) = Some (toLowerCase s)" for s by (simp add: known_hash_def split: if_splits)
  then have reorg: "reorg_phase v d = (d, Inr ())" using assms(2) d(4) by (auto simp: reorg_phase_def rescans_def Let_def)
  obtain x where x: "applyChainEvent cfg ev d = Inl (CoreFault x)" using old_event_refused [OF assms(3), of d] assms(4) d(5) by auto
  have scan: "scan_phase cfg v (head - cc_confirmationDepth cfg) d = (d, Some (CoreFault x))" using h d(2) x by (simp add: scan_phase_def)
  have "tick_body cfg v c = (d, Some (CoreFault x))"
    using assms(2) h(1) reorg scan by (simp add: tick_body_def rescans_def checkEpochStillCurrent_def d_def)
  then have "tickInner cfg v c = (bump (\<lambda>m. m\<lparr>mt_watcherFaultCount := mt_watcherFaultCount m + 1\<rparr>) d)\<lparr>co_signingEnabled := False, co_unhealthyReason := Some WatcherFault\<rparr>"
    using assms(1) by (simp add: tickInner_def Let_def)
  then show "chain_part (tickInner cfg v c) = chain_part c" "co_lastScannedBlock (tickInner cfg v c) = co_lastScannedBlock c"
    "\<not> co_signingEnabled (tickInner cfg v c)" "\<not> co_frozen (tickInner cfg v c)" using d by (simp_all add: bump_def)
qed

text \<open>C37. A batch that fails half-way leaves the watcher stuck. If an event of the batch was applied before another one of it
  was refused, the last scanned block has not moved; as long as the chain is not reorganised, every further tick reads
  the applied event again, refuses it as out of order and keeps signing disabled, for ever.\<close>

theorem partial_batch_sticks:
  assumes "applyChainEvent cfg ev c = Inr c1" "ev_epoch ev = cc_epoch cfg" "apply_events cfg evs c1 = (c2, Some flt)" "\<not> co_frozen c"
    "\<forall>v \<in> set vs. rescans cfg ev c2 v"
  shows "co_lastScannedBlock c2 = co_lastScannedBlock c \<and>
    chain_part (foldl (\<lambda>c v. tickInner cfg v c) c2 vs) = chain_part c2 \<and> (vs \<noteq> [] \<longrightarrow> \<not> co_signingEnabled (foldl (\<lambda>c v. tickInner cfg v c) c2 vs))"
proof -
  let ?keeps = "\<lambda>c c'. co_lastScannedBlock c' = co_lastScannedBlock c \<and> co_frozen c' = co_frozen c \<and> co_lastTransitionIndex c \<le> co_lastTransitionIndex c'"
  have one: "?keeps c c' \<and> (ev_epoch ev = cc_epoch cfg \<longrightarrow> co_lastTransitionIndex c' = ev_transitionIndex ev)" if app: "applyChainEvent cfg ev c = Inr c'" for ev c c'
  proof (cases "ev_epoch ev < cc_epoch cfg")
    case False
    then obtain p s rt where "event_verified cfg c ev p s rt" "c' = settle_receipts ev (bytesToHex rt) (commit_advance ev s (bytesToHex rt) c)"
      using app by (auto simp: applyChainEvent_Inr)
    then show ?thesis by (simp add: event_verified_def)
  qed (use app in \<open>simp add: applyChainEvent_Inr\<close>)
  have "?keeps c (fst (apply_events cfg evs c))" for evs c
  proof (induction evs arbitrary: c)
    case (Cons e evs)
    show ?case
    proof (cases "applyChainEvent cfg e c")
      case (Inr c')
      then show ?thesis using Cons.IH [of c'] one [OF Inr] by auto
    qed simp
  qed simp
  from this [of evs c1] one [OF assms(1)] assms
  have c2: "co_lastScannedBlock c2 = co_lastScannedBlock c" "\<not> co_frozen c2" "ev_transitionIndex ev \<le> co_lastTransitionIndex c2" by auto
  have "chain_part d = chain_part c2 \<and> co_lastScannedBlock d = co_lastScannedBlock c2 \<and> \<not> co_frozen d \<and> (vs \<noteq> [] \<longrightarrow> \<not> co_signingEnabled d)"
    if "\<forall>v \<in> set vs. rescans cfg ev c2 v" "d = foldl (\<lambda>c v. tickInner cfg v c) c2 vs" for vs d
    using that
  proof (induction vs arbitrary: d rule: rev_induct)
    case (snoc v vs)
    let ?c = "foldl (\<lambda>c v. tickInner cfg v c) c2 vs"
    have IH: "chain_part ?c = chain_part c2" "co_lastScannedBlock ?c = co_lastScannedBlock c2" "\<not> co_frozen ?c" using snoc by auto
    have "rescans cfg ev ?c v" using snoc.prems(1) IH chain_part_eqD(7) [OF IH(1)] by (simp add: rescans_def)
    from rescan_tick [OF IH(3) this assms(2)] c2(3) chain_part_eqD(5) [OF IH(1)] IH snoc.prems(2) show ?case by simp
  qed (use c2 in simp)
  from this [OF assms(5) refl] c2(1) show ?thesis by simp
qed


section \<open>An example\<close>

lemma coord_hexToBytes_bytesToHex: "coord_hexToBytes (bytesToHex bs) = bs"
proof -
  have "hexToBytes h = Inr bs \<Longrightarrow> coord_hexToBytes h = bs" for h
    by (auto simp: hexToBytes_def coord_hexToBytes_def Let_def split: if_splits)
  then show ?thesis using hexToBytes_bytesToHex by blast
qed

definition demo_pins :: "string \<Rightarrow> RegistryEpochPins" where
  "demo_pins r = \<lparr>pn_parentStateRoot = r, pn_coreVersionHash = ''0xaa'', pn_corpusRoot = ''0xbb'', pn_activeFrontierRoot = ''0xcc'',
     pn_baselineManifestHash = ''0xdd'', pn_hiddenSeedCommit = ''0xee''\<rparr>"

definition demo_coord :: "string \<Rightarrow> CoordConfig" where
  "demo_coord r = \<lparr>cc_maxQueuedSubmits = None, cc_maxQueuedSubmitsPerMiner = None, cc_epoch = 3, cc_expectedChainId = 8453, cc_miningContractAddress = None,
     cc_v4Address = None, cc_registryAddress = [], cc_expectedCoordinatorSigner = [], cc_expectedEpochPins = demo_pins r, cc_confirmationDepth = 2,
     cc_replayFromBlock = None, cc_receiptTtlSec = 600, cc_perMinerScreenerCap = None, cc_screenerThresholdPpm = None, cc_minImprovementPpm = None,
     cc_replayTolerancePpm = None, cc_maxPatchBytes = None, cc_baselineScorePpm = Some 500000, cc_baselineParentScorePpm = None,
     cc_baselineVariancePpm = None, cc_baselineVarianceSource = None, cc_fixedPackRepeatabilityPpm = None, cc_recentNoiseFloorPpm = None,
     cc_targetBlockOffset = None, cc_rulesVersion = Some 1, cc_workPolicyHash = Some (bytesToHex (replicate 32 1)), cc_workPolicy = None\<rparr>"

definition demo_core :: "string \<Rightarrow> core" where
  "demo_core r = (initial_core (demo_coord r))\<lparr>co_liveState := zero_state, co_liveRoot := r, co_parentState := zero_state, co_parentRoot := r,
     co_stateByRoot := [(r, zero_state)], co_baselineByRoot := [(r, 500000)]\<rparr>"

definition demo_event :: "bytes \<Rightarrow> bytes \<Rightarrow> ChainEvent" where
  "demo_event rt rt' = \<lparr>ev_blockNumber = 7, ev_blockHash = ''0x77'', ev_logIndex = 0, ev_epoch = 3, ev_transitionIndex = 0, ev_miner = ''0x99'',
     ev_parent = bytesToHex rt, ev_newRoot = bytesToHex rt', ev_patchHash = computePatchHash (patch_bytes (slot_patch rt)), ev_evalReportHash = [],
     ev_coreV = ''0xaa'', ev_corpus = ''0xbb'', ev_frontier = ''0xcc'', ev_credits = 1, ev_wordCount = 1,
     ev_compactPatchBytes = bytesToHex (patch_bytes (slot_patch rt))\<rparr>"

definition demo_view :: "bytes \<Rightarrow> ChainEvent list \<Rightarrow> TickView" where
  "demo_view rt evs = \<lparr>tv_v4Epoch = Inr 3, tv_blockNumber = Inr 10, tv_deepestHash = (\<lambda>_. Inr (Some ''0x77'')), tv_blockHashAt = (\<lambda>_. Inr None),
     tv_events = (\<lambda>_ _. Inr evs), tv_registryEpoch = Inr \<lparr>rg_liveStateRoot = bytesToHex rt, rg_transitionCount = 0\<rparr>, tv_nowSec = 100, tv_nowMs = 100000\<rparr>"

lemma demo_core_inv:
  assumes "merkleizeState zero_state = Inr rt"
  shows "core_inv (demo_core (bytesToHex rt))"
proof -
  have "history_ok (demo_core (bytesToHex rt)) []" by (simp add: history_ok_def demo_core_def initial_core_def)
  then show ?thesis
    by (rule core_invI [rotated -1]) (simp_all add: demo_core_def initial_core_def root_of_def assms MAX_SNAPSHOTS_def)
qed

lemma demo_event_applies:
  assumes "merkleizeState zero_state = Inr rt"
  obtains rt' c1 where "applyChainEvent (demo_coord (bytesToHex rt)) (demo_event rt rt') (demo_core (bytesToHex rt)) = Inr c1"
    "co_frozen c1 = False" "co_lastTransitionIndex c1 = 0" "co_lastScannedBlock c1 = 0" "length (co_snapshots c1) = 1"
    "sp_blockHash (last (co_snapshots c1)) = ''0x77''"
proof -
  define s where "s = \<lparr>words = (replicate 1024 0)[33 := push_bit 128 9 :: int]\<rparr>"
  have len: "length rt = 32" by (rule length_root [OF assms zero_state_wf(2)])
  have dec: "decodePatch (patch_bytes (slot_patch rt)) = Inr (slot_patch rt)"
    using demo_wire_item_ok(1) [OF len] by (simp add: demo_wire_item_def wire_item_def)
  have app: "applyPatch zero_state (slot_patch rt) True = Inr (Inr s)"
    using applyPatch_accepts [OF zero_state_wf(2) assms, of "slot_patch rt" True s] slot_patch_applies [of rt] by (simp add: slot_patch_def s_def)
  obtain rt' where rt': "merkleizeState s = Inr rt'" using merkleizeState_eq [of s] by (simp add: s_def)
  let ?c = "demo_core (bytesToHex rt)"
  have ver: "event_verified (demo_coord (bytesToHex rt)) ?c (demo_event rt rt') (slot_patch rt) s rt'"
    using dec app rt' by (simp add: event_verified_def demo_coord_def demo_core_def demo_event_def demo_pins_def initial_core_def coord_hexToBytes_bytesToHex)
      (simp add: slot_patch_def)
  let ?c1 = "settle_receipts (demo_event rt rt') (bytesToHex rt') (commit_advance (demo_event rt rt') s (bytesToHex rt') ?c)"
  have "applyChainEvent (demo_coord (bytesToHex rt)) (demo_event rt rt') ?c = Inr ?c1"
    using ver by (auto simp: applyChainEvent_Inr demo_event_def demo_coord_def)
  moreover have "co_snapshots ?c1 = co_snapshots (commit_advance (demo_event rt rt') s (bytesToHex rt') ?c)"
    by (rule chain_part_eqD(7)) simp
  ultimately show thesis
    by (intro that) (simp_all, simp_all add: demo_core_def initial_core_def demo_event_def commit_advance_def MAX_SNAPSHOTS_def)
qed

theorem tick_parity_gate_witness:
  "\<exists>rt. co_signingEnabled (tickInner (demo_coord (bytesToHex rt)) (demo_view rt []) (demo_core (bytesToHex rt))) \<and>
    (\<exists>reg. tv_registryEpoch (demo_view rt []) = Inr reg \<and> rg_transitionCount reg = 0)"
proof -
  obtain rt where "merkleizeState zero_state = Inr rt" using demo_root by blast
  let ?cfg = "demo_coord (bytesToHex rt)" and ?v = "demo_view rt []" and ?c = "demo_core (bytesToHex rt)"
  have fields: "co_snapshots ?c = []" "co_lastScannedBlock ?c = 0" "\<not> co_frozen ?c" "\<not> co_signingEnabled ?c" by (simp_all add: demo_core_def initial_core_def)
  have chain: "tv_v4Epoch ?v = Inr (cc_epoch ?cfg)" "tv_blockNumber ?v = Inr 10" "cc_confirmationDepth ?cfg = 2" "\<And>i j. tv_events ?v i j = Inr []"
      "tv_registryEpoch ?v = Inr \<lparr>rg_liveStateRoot = bytesToHex rt, rg_transitionCount = 0\<rparr>" "co_lastTransitionIndex ?c = -1" "co_liveRoot ?c = bytesToHex rt"
    by (simp_all add: demo_view_def demo_coord_def demo_core_def initial_core_def)
  have on: "co_signingEnabled (tickInner ?cfg ?v ?c)"
    by (simp add: tickInner_def fields chain tick_body_def checkEpochStillCurrent_def reorg_phase_def scan_phase_def parity_phase_def parityCheck_def
      markChainReadHealthy_def)
  from tick_parity_gate [OF fields(3) on] fields(4) have "\<exists>reg. tv_registryEpoch ?v = Inr reg" by blast
  then show ?thesis using on chain(5) by auto
qed

theorem partial_batch_sticks_witness:
  "\<exists>rt rt' c1 e. let cfg = demo_coord (bytesToHex rt); ev = demo_event rt rt' in
    apply_events cfg [ev, ev] (demo_core (bytesToHex rt)) = (c1, Some e) \<and> \<not> co_signingEnabled (tickInner cfg (demo_view rt [ev]) c1)"
proof -
  obtain rt where rt: "merkleizeState zero_state = Inr rt" using demo_root by blast
  obtain rt' c1 where c1: "applyChainEvent (demo_coord (bytesToHex rt)) (demo_event rt rt') (demo_core (bytesToHex rt)) = Inr c1" "co_lastTransitionIndex c1 = 0"
      "co_lastScannedBlock c1 = 0" "sp_blockHash (last (co_snapshots c1)) = ''0x77''"
    using demo_event_applies [OF rt] by metis
  let ?cfg = "demo_coord (bytesToHex rt)" and ?ev = "demo_event rt rt'"
  have ev: "ev_epoch ?ev = cc_epoch ?cfg" "\<not> co_frozen (demo_core (bytesToHex rt))" by (simp_all add: demo_event_def demo_coord_def demo_core_def initial_core_def)
  obtain e where e: "applyChainEvent ?cfg ?ev c1 = Inl (CoreFault e)" using old_event_refused [OF ev(1), of c1] c1(2) by (auto simp: demo_event_def)
  have "rescans ?cfg ?ev c1 (demo_view rt [?ev])" using c1 by (simp add: rescans_def demo_view_def demo_coord_def js_sort_def)
  then have "\<not> co_signingEnabled (tickInner ?cfg (demo_view rt [?ev]) c1)"
    using partial_batch_sticks [OF c1(1) ev(1), of "[?ev]" c1 "CoreFault e" "[demo_view rt [?ev]]"] e ev(2) by simp
  then show ?thesis using c1(1) e by (intro exI [of _ rt] exI [of _ rt'] exI [of _ c1] exI [of _ "CoreFault e"]) (simp add: Let_def)
qed

end
