(* ===== verification/CanonicalJson.thy ===== *)
theory CanonicalJson
  imports JsValues JsSort "HOL-Library.AList"
begin

text \<open>
  \<open>packages/coretex/src/canonical/json.ts\<close>: the serialiser behind every hash and signature of a JSON value. A character of the model is a
  UTF-16 code unit below 256; the decimal text of a number that is not an integer below \<open>10^21\<close> is a
  parameter. The section after the code gives each value its normal form and shows that two values have the same text
  exactly when they have the same normal form.
\<close>

section \<open>Implementation\<close>

text \<open>A JavaScript value; \<open>JOther\<close> is a symbol or a function. An object or a \<open>Map\<close> lists its members in insertion order.\<close>

datatype js_value =
  JUndefined | JOther | JNull | JBool bool | JNumber js_number | JString string | JBigInt bigint | JBytes bytes
  | JMap "(string \<times> js_value) list" | JArray "js_value list" | JObject "(string \<times> js_value) list"

fun dec_digits :: "nat \<Rightarrow> string" where
  "dec_digits n = (if n < 10 then [char_of (48 + n)] else dec_digits (n div 10) @ [char_of (48 + n mod 10)])"

declare dec_digits.simps [simp del]

definition big_string :: "bigint \<Rightarrow> string" where
  "big_string n = (if n < 0 then ''-'' @ dec_digits (nat (- n)) else dec_digits (nat n))"

definition bytesToBareHex :: "bytes \<Rightarrow> string" where
  "bytesToBareHex bs = concat (map byte_hex bs)"

text \<open>\<open>JSON.stringify\<close> of a string and of a finite number.\<close>

definition json_escape :: "char \<Rightarrow> string" where
  "json_escape c = (let n = of_char c :: nat in
     if n = 34 then [CHR 0x5C, CHR 0x22] else if n = 92 then [CHR 0x5C, CHR 0x5C]
     else if n = 8 then [CHR 0x5C, CHR ''b''] else if n = 12 then [CHR 0x5C, CHR ''f'']
     else if n = 10 then [CHR 0x5C, CHR ''n''] else if n = 13 then [CHR 0x5C, CHR ''r'']
     else if n = 9 then [CHR 0x5C, CHR ''t'']
     else if n < 32 then [CHR 0x5C, CHR ''u'', CHR ''0'', CHR ''0'', hex_digit (n div 16), hex_digit (n mod 16)]
     else [c])"

definition json_string :: "string \<Rightarrow> string" where
  "json_string s = CHR 0x22 # concat (map json_escape s) @ [CHR 0x22]"

definition json_number :: "(rat \<Rightarrow> string) \<Rightarrow> rat \<Rightarrow> string" where
  "json_number fmt r = (if r = of_int \<lfloor>r\<rfloor> \<and> \<bar>r\<bar> < 10 ^ 21 then big_string \<lfloor>r\<rfloor> else fmt r)"

fun join_comma :: "string list \<Rightarrow> string" where
  "join_comma [] = []"
| "join_comma [s] = s"
| "join_comma (s # ss) = s @ CHR '','' # join_comma ss"

text \<open>The order of \<open>Object.keys(obj).sort()\<close>, on the members.\<close>

definition member_compare :: "string \<times> 'a \<Rightarrow> string \<times> 'a \<Rightarrow> int" where
  "member_compare a b = (if js_string_less (fst a) (fst b) then -1 else if js_string_less (fst b) (fst a) then 1 else 0)"

definition map_members :: "(string \<times> 'a) list \<Rightarrow> (string \<times> 'a) list" where
  "map_members kvs = foldl (\<lambda>obj (k, v). AList.update k v obj) [] kvs"

record CanonicalJsonOptions =
  safeIntegers :: bool

lemma js_map_cong [fundef_cong]: "xs = ys \<Longrightarrow> (\<And>x. x \<in> set ys \<Longrightarrow> f x = g x) \<Longrightarrow> js_map f xs = js_map g ys"
  by (induction xs arbitrary: ys) auto

lemma size_update: "size_list g (AList.update k v obj) \<le> Suc (g (k, v)) + size_list g obj" if "\<And>w. g (k, w) = g' w" for g g'
  using that by (induction obj) auto

lemma size_map_members: "size_list (size_prod (\<lambda>_. 0) f) (map_members kvs) \<le> size_list (size_prod (\<lambda>_. 0) f) kvs"
proof -
  let ?g = "size_prod (\<lambda>_. 0) f"
  have "size_list ?g (foldl (\<lambda>obj (k, v). AList.update k v obj) out kvs) \<le> size_list ?g out + size_list ?g kvs" for out
  proof (induction kvs arbitrary: out)
    case (Cons kv kvs)
    obtain k v where kv: "kv = (k, v)" by fastforce
    have "size_list ?g (AList.update k v out) \<le> Suc (?g (k, v)) + size_list ?g out" by (rule size_update) simp
    then show ?case using Cons.IH [of "AList.update k v out"] kv by simp
  qed simp
  from this [of "[]"] show ?thesis by (simp add: map_members_def)
qed

lemma size_member: "(k, v) \<in> set kvs \<Longrightarrow> f v < Suc (size_list (size_prod (\<lambda>_. 0) f) kvs)"
  by (induction kvs) auto

function serialize :: "(rat \<Rightarrow> string) \<Rightarrow> CanonicalJsonOptions \<Rightarrow> js_value \<Rightarrow> string js" where
  "serialize fmt opts JNull = Inr ''null''"
| "serialize fmt opts (JBool b) = Inr (if b then ''true'' else ''false'')"
| "serialize fmt opts (JNumber x) = (case x of
     Fin r \<Rightarrow> if safeIntegers opts \<and> \<not> is_safe_integer r then Inl (TypeError ''canonicalJson: numbers must be safe integers'')
              else Inr (json_number fmt r)
   | _ \<Rightarrow> Inl (TypeError ''canonicalJson: non-finite number''))"
| "serialize fmt opts (JString s) = Inr (json_string s)"
| "serialize fmt opts (JBigInt n) = Inr (json_string (big_string n))"
| "serialize fmt opts (JBytes bs) = Inr (json_string (bytesToBareHex bs))"
| "serialize fmt opts (JMap kvs) = serialize fmt opts (JObject (map_members kvs))"
| "serialize fmt opts (JArray vs) =
     js_bind (js_map (\<lambda>v. if v = JUndefined then Inr ''null'' else serialize fmt opts v) vs) (\<lambda>parts.
     Inr (CHR ''['' # join_comma parts @ '']''))"
| "serialize fmt opts (JObject kvs) =
     js_bind (js_map (\<lambda>(k, v). js_bind (serialize fmt opts v) (\<lambda>s. Inr (json_string k @ CHR '':'' # s)))
       (filter (\<lambda>(k, v). v \<noteq> JUndefined) (js_sort member_compare kvs))) (\<lambda>parts.
     Inr (CHR ''{'' # join_comma parts @ ''}''))"
| "serialize fmt opts JUndefined = Inl (TypeError ''canonicalJson: unsupported'')"
| "serialize fmt opts JOther = Inl (TypeError ''canonicalJson: unsupported'')"
  by pat_completeness auto
termination
proof (relation "measures [\<lambda>(_, _, v). size v, \<lambda>(_, _, v). case v of JMap _ \<Rightarrow> 1 | _ \<Rightarrow> 0]")
  show "((fmt, opts, JObject (map_members kvs)), fmt, opts, JMap kvs)
      \<in> measures [\<lambda>(_, _, v). size v, \<lambda>(_, _, v). case v of JMap _ \<Rightarrow> 1 | _ \<Rightarrow> 0]" for fmt :: "rat \<Rightarrow> string" and opts :: CanonicalJsonOptions and kvs
    using size_map_members [of size kvs] by (auto simp: less_Suc_eq_le le_less)
qed (auto dest: size_member [of _ _ _ size] simp: size_list_estimation' less_Suc_eq_le size_list_pointwise)

definition canonicalJson :: "(rat \<Rightarrow> string) \<Rightarrow> CanonicalJsonOptions \<Rightarrow> js_value \<Rightarrow> string js" where
  "canonicalJson fmt opts v =
     (if v = JUndefined then Inl (TypeError ''canonicalJson: top-level undefined is not serializable'') else serialize fmt opts v)"

section \<open>Text and normal form\<close>

text \<open>What a serialised value is: an object is a finite map, whatever the order of its members.\<close>

datatype json = NullV | BoolV bool | IntV int | StrV string | ArrV "json list" | ObjV "string \<Rightarrow> json option"

text \<open>The values in question: numbers are integers below \<open>10^21\<close>, the keys of an object are distinct, nothing is unsupported.\<close>

definition defined_members :: "(string \<times> js_value) list \<Rightarrow> (string \<times> js_value) list" where
  "defined_members kvs = filter (\<lambda>(k, v). v \<noteq> JUndefined) kvs"

lemma size_defined_members: "size_list (size_prod (\<lambda>_. 0) f) (defined_members kvs) \<le> size_list (size_prod (\<lambda>_. 0) f) kvs"
  by (induction kvs) (auto simp: defined_members_def)

lemma size_member_map: "(k, v) \<in> set (map_members kvs) \<Longrightarrow> f v < Suc (size_list (size_prod (\<lambda>_. 0) f) kvs)"
  using size_member [of k v "map_members kvs" f] size_map_members [of f kvs] by simp

function plain :: "js_value \<Rightarrow> bool" where
  "plain JUndefined = False"
| "plain JOther = False"
| "plain JNull = True"
| "plain (JBool b) = True"
| "plain (JNumber x) = (case x of Fin r \<Rightarrow> r = of_int \<lfloor>r\<rfloor> \<and> \<bar>r\<bar> < 10 ^ 21 | _ \<Rightarrow> False)"
| "plain (JString s) = True"
| "plain (JBigInt n) = True"
| "plain (JBytes bs) = True"
| "plain (JMap kvs) = list_all (\<lambda>(k, v). v = JUndefined \<or> plain v) (map_members kvs)"
| "plain (JArray vs) = list_all (\<lambda>v. v = JUndefined \<or> plain v) vs"
| "plain (JObject kvs) \<longleftrightarrow> distinct (map fst kvs) \<and> list_all (\<lambda>(k, v). v = JUndefined \<or> plain v) kvs"
  by pat_completeness auto
termination
  by (relation "measure size") (auto dest: size_member [of _ _ _ size] size_member_map [of _ _ _ size] simp: size_list_estimation' less_Suc_eq_le)

function meaning :: "js_value \<Rightarrow> json" where
  "meaning JUndefined = NullV"
| "meaning JOther = NullV"
| "meaning JNull = NullV"
| "meaning (JBool b) = BoolV b"
| "meaning (JNumber x) = (case x of Fin r \<Rightarrow> IntV \<lfloor>r\<rfloor> | _ \<Rightarrow> NullV)"
| "meaning (JString s) = StrV s"
| "meaning (JBigInt n) = StrV (big_string n)"
| "meaning (JBytes bs) = StrV (bytesToBareHex bs)"
| "meaning (JMap kvs) = ObjV (map_of (map (\<lambda>(k, v). (k, meaning v)) (defined_members (map_members kvs))))"
| "meaning (JArray vs) = ArrV (map meaning vs)"
| "meaning (JObject kvs) = ObjV (map_of (map (\<lambda>(k, v). (k, meaning v)) (defined_members kvs)))"
  by pat_completeness auto
termination
  by (relation "measure size") (auto dest: size_member [of _ _ _ size] size_member_map [of _ _ _ size] simp: defined_members_def size_list_estimation' less_Suc_eq_le)

text \<open>The normal form in between: objects list their members in the order of the text.\<close>

datatype jtext = TNull | TBool bool | TInt int | TStr string | TArr "jtext list" | TObj "(string \<times> jtext) list"

function render :: "jtext \<Rightarrow> string" where
  "render TNull = ''null''"
| "render (TBool b) = (if b then ''true'' else ''false'')"
| "render (TInt n) = big_string n"
| "render (TStr s) = json_string s"
| "render (TArr ts) = CHR ''['' # join_comma (map render ts) @ '']''"
| "render (TObj kts) = CHR ''{'' # join_comma (map (\<lambda>(k, t). json_string k @ CHR '':'' # render t) kts) @ ''}''"
  by pat_completeness auto
termination
  by (relation "measure size") (auto dest: size_member [of _ _ _ size] simp: size_list_estimation' less_Suc_eq_le)

function text_value :: "jtext \<Rightarrow> json" where
  "text_value TNull = NullV"
| "text_value (TBool b) = BoolV b"
| "text_value (TInt n) = IntV n"
| "text_value (TStr s) = StrV s"
| "text_value (TArr ts) = ArrV (map text_value ts)"
| "text_value (TObj kts) = ObjV (map_of (map (\<lambda>(k, t). (k, text_value t)) kts))"
  by pat_completeness auto
termination
  by (relation "measure size") (auto dest: size_member [of _ _ _ size] simp: size_list_estimation' less_Suc_eq_le)

function canonical :: "jtext \<Rightarrow> bool" where
  "canonical (TArr ts) = list_all canonical ts"
| "canonical (TObj kts) \<longleftrightarrow> sorted_wrt js_string_less (map fst kts) \<and> list_all (\<lambda>(k, t). canonical t) kts"
| "canonical TNull = True"
| "canonical (TBool b) = True"
| "canonical (TInt n) = True"
| "canonical (TStr s) = True"
  by pat_completeness auto
termination
  by (relation "measure size") (auto dest: size_member [of _ _ _ size] simp: size_list_estimation' less_Suc_eq_le)

function nf :: "js_value \<Rightarrow> jtext" where
  "nf JUndefined = TNull"
| "nf JOther = TNull"
| "nf JNull = TNull"
| "nf (JBool b) = TBool b"
| "nf (JNumber x) = (case x of Fin r \<Rightarrow> TInt \<lfloor>r\<rfloor> | _ \<Rightarrow> TNull)"
| "nf (JString s) = TStr s"
| "nf (JBigInt n) = TStr (big_string n)"
| "nf (JBytes bs) = TStr (bytesToBareHex bs)"
| "nf (JMap kvs) = TObj (map (\<lambda>(k, v). (k, nf v)) (defined_members (js_sort member_compare (map_members kvs))))"
| "nf (JArray vs) = TArr (map nf vs)"
| "nf (JObject kvs) = TObj (map (\<lambda>(k, v). (k, nf v)) (defined_members (js_sort member_compare kvs)))"
  by pat_completeness auto
termination
  by (relation "measure size") (auto dest: size_member [of _ _ _ size] size_member_map [of _ _ _ size] simp: defined_members_def size_list_estimation' less_Suc_eq_le)

section \<open>The text is the rendered normal form\<close>

interpretation keys: js_comparator "member_compare :: string \<times> 'a \<Rightarrow> string \<times> 'a \<Rightarrow> int"
  by unfold_locales (auto simp: member_compare_def dest: js_string_less_asym js_string_less_neg_trans split: if_splits)

lemma js_map_all: "(\<And>x. x \<in> set xs \<Longrightarrow> f x = Inr (g x)) \<Longrightarrow> js_map f xs = Inr (map g xs)"
  by (induction xs) simp_all

lemma js_map_partial: "js_map f xs = Inr ys \<Longrightarrow> (\<And>x y. x \<in> set xs \<Longrightarrow> f x = Inr y \<Longrightarrow> y = g x) \<Longrightarrow> ys = map g xs"
  by (induction xs arbitrary: ys) (auto simp: js_bind_eq_Inr_iff)

lemma plain_members:
  "plain (JObject kvs) \<Longrightarrow> (k, v) \<in> set (defined_members (js_sort member_compare kvs)) \<Longrightarrow> plain v"
  by (auto simp: defined_members_def list_all_iff)

lemma plain_map: "plain (JMap kvs) \<longleftrightarrow> plain (JObject (map_members kvs))"
proof -
  have "distinct (map fst (foldl (\<lambda>obj (k, v). AList.update k v obj) out kvs))" if "distinct (map fst out)" for out :: "(string \<times> js_value) list"
    using that by (induction kvs arbitrary: out) (auto simp: distinct_update split_beta)
  then show ?thesis by (simp add: map_members_def)
qed

lemma nf_map: "nf (JMap kvs) = nf (JObject (map_members kvs))" "meaning (JMap kvs) = meaning (JObject (map_members kvs))"
  by simp_all

lemma serialize_finite: "plain v \<Longrightarrow> \<not> safeIntegers opts \<Longrightarrow> serialize fmt opts v = Inr (render (nf v))"
proof (induction fmt opts v rule: serialize.induct)
  case (7 fmt opts kvs)
  then show ?case by (simp add: plain_map del: plain.simps nf.simps) (simp add: nf_map del: plain.simps nf.simps)
next
  case (8 fmt opts vs)
  have "js_map (\<lambda>v. if v = JUndefined then Inr ''null'' else serialize fmt opts v) vs = Inr (map (\<lambda>v. render (nf v)) vs)"
    using 8 by (intro js_map_all) (auto simp: list_all_iff)
  then show ?case by (simp add: comp_def)
next
  case (9 fmt opts kvs)
  have "js_map (\<lambda>(k, v). js_bind (serialize fmt opts v) (\<lambda>s. Inr (json_string k @ CHR '':'' # s))) (defined_members (js_sort member_compare kvs))
      = Inr (map (\<lambda>(k, v). json_string k @ CHR '':'' # render (nf v)) (defined_members (js_sort member_compare kvs)))"
    using 9 plain_members [OF 9(2)] by (intro js_map_all) (auto simp: defined_members_def)
  then show ?case by (simp add: defined_members_def comp_def case_prod_unfold)
qed (auto simp: json_number_def split: js_number.splits)

lemma serialize_text: "plain v \<Longrightarrow> serialize fmt opts v = Inr s \<Longrightarrow> s = render (nf v)"
proof (induction fmt opts v arbitrary: s rule: serialize.induct)
  case (7 fmt opts kvs)
  then show ?case by (simp add: plain_map del: plain.simps nf.simps) (simp add: nf_map del: plain.simps nf.simps)
next
  case (8 fmt opts vs)
  then obtain parts where parts: "js_map (\<lambda>v. if v = JUndefined then Inr ''null'' else serialize fmt opts v) vs = Inr parts"
    "s = CHR ''['' # join_comma parts @ '']''" by (auto simp: js_bind_eq_Inr_iff)
  have "parts = map (\<lambda>v. render (nf v)) vs"
    using 8 by (intro js_map_partial [OF parts(1)]) (auto simp: list_all_iff split: if_splits)
  then show ?case using parts(2) by (simp add: comp_def)
next
  case (9 fmt opts kvs)
  then obtain parts where parts: "js_map (\<lambda>(k, v). js_bind (serialize fmt opts v) (\<lambda>s. Inr (json_string k @ CHR '':'' # s)))
      (filter (\<lambda>(k, v). v \<noteq> JUndefined) (js_sort member_compare kvs)) = Inr parts" "s = CHR ''{'' # join_comma parts @ ''}''"
    by (auto simp: js_bind_eq_Inr_iff)
  have "parts = map (\<lambda>(k, v). json_string k @ CHR '':'' # render (nf v)) (defined_members (js_sort member_compare kvs))"
    unfolding defined_members_def using 9(1) plain_members [OF 9(2)]
    by (intro js_map_partial [OF parts(1)]) (auto simp: js_bind_eq_Inr_iff defined_members_def)
  then show ?case using parts(2) by (simp add: comp_def case_prod_unfold)
qed (auto simp: json_number_def split: js_number.splits if_splits)

section \<open>The normal form is the meaning\<close>

lemma strict_members: "sorted_wrt keys.le xs \<Longrightarrow> distinct (map fst xs) \<Longrightarrow> sorted_wrt (\<lambda>a b. js_string_less (fst a) (fst b)) xs"
proof (induction xs)
  case (Cons x xs)
  have "js_string_less (fst x) (fst y)" if y: "y \<in> set xs" for y
  proof -
    have "keys.le x y" "fst x \<noteq> fst y" using Cons.prems y by auto
    then show ?thesis using js_string_less_total [of "fst x" "fst y"] by (auto simp: keys.le_def member_compare_def split: if_splits)
  qed
  then show ?case using Cons by simp
qed simp

lemma sorted_members:
  assumes "distinct (map fst kvs)"
  shows "sorted_wrt js_string_less (map fst (defined_members (js_sort member_compare kvs)))"
proof -
  have "distinct (map fst (js_sort member_compare kvs))"
    using assms by (metis mset_js_sort mset_map mset_eq_imp_distinct_iff)
  then have "sorted_wrt (\<lambda>a b. js_string_less (fst a) (fst b)) (js_sort member_compare kvs)"
    by (intro strict_members keys.sorted_js_sort)
  then show ?thesis by (simp add: defined_members_def sorted_wrt_map sorted_wrt_filter)
qed

lemma plain_keys: "plain (JObject kvs) \<Longrightarrow> distinct (map fst kvs)"
  by simp

lemma canonical_object:
  assumes "plain (JObject kvs)" "\<And>k v. (k, v) \<in> set (defined_members (js_sort member_compare kvs)) \<Longrightarrow> canonical (nf v)"
  shows "canonical (nf (JObject kvs))"
proof -
  have "list_all (\<lambda>(k, t). canonical t) (map (\<lambda>(k, v). (k, nf v)) (defined_members (js_sort member_compare kvs)))"
    using assms(2) by (auto simp: list_all_iff)
  moreover have "map fst (map (\<lambda>(k, v). (k, nf v)) xs) = map fst xs" for xs by (simp add: comp_def case_prod_unfold)
  ultimately show ?thesis using sorted_members [OF plain_keys [OF assms(1)]] unfolding nf.simps canonical.simps by metis
qed

lemma canonical_nf: "plain v \<Longrightarrow> canonical (nf v)"
proof (induction v rule: nf.induct)
  case (9 kvs)
  then have "plain (JObject (map_members kvs))" unfolding plain_map by blast
  then show ?case unfolding nf_map using 9(1) plain_members by (intro canonical_object) auto
next
  case (11 kvs)
  then show ?case using plain_members by (intro canonical_object) auto
qed (auto simp: list_all_iff split: js_number.splits)

lemma map_of_members:
  assumes "distinct (map fst kvs)"
  shows "map_of (map (\<lambda>(k, v). (k, f v)) (defined_members (js_sort member_compare kvs))) = map_of (map (\<lambda>(k, v). (k, f v)) (defined_members kvs))"
proof -
  let ?h = "\<lambda>xs. map (\<lambda>(k, v). (k, f v)) (defined_members xs)"
  have d: "distinct (map fst (?h xs))" if "distinct (map fst xs)" for xs
    using that by (induction xs) (auto simp: defined_members_def comp_def case_prod_unfold)
  have "distinct (map fst (js_sort member_compare kvs))"
    using assms by (metis mset_js_sort mset_map mset_eq_imp_distinct_iff)
  then show ?thesis using d assms by (subst map_of_inject_set) (auto simp: defined_members_def)
qed

lemma text_value_object:
  assumes "plain (JObject kvs)" "\<And>k v. (k, v) \<in> set (defined_members (js_sort member_compare kvs)) \<Longrightarrow> text_value (nf v) = meaning v"
  shows "text_value (nf (JObject kvs)) = meaning (JObject kvs)"
proof -
  have "map (\<lambda>(k, t). (k, text_value t)) (map (\<lambda>(k, v). (k, nf v)) (defined_members (js_sort member_compare kvs)))
      = map (\<lambda>(k, v). (k, meaning v)) (defined_members (js_sort member_compare kvs))"
    using assms(2) by auto
  then show ?thesis unfolding nf.simps text_value.simps meaning.simps
    using map_of_members [OF plain_keys [OF assms(1)], of meaning] by presburger
qed

lemma text_value_nf: "plain v \<Longrightarrow> text_value (nf v) = meaning v"
proof (induction v rule: nf.induct)
  case (9 kvs)
  then have "plain (JObject (map_members kvs))" unfolding plain_map by blast
  then show ?case unfolding nf_map using 9(1) plain_members by (intro text_value_object) auto
next
  case (11 kvs)
  then show ?case using plain_members by (intro text_value_object) auto
qed (auto simp: list_all_iff split: js_number.splits)

lemma sorted_keys_unique:
  "sorted_wrt js_string_less xs \<Longrightarrow> sorted_wrt js_string_less ys \<Longrightarrow> set xs = set ys \<Longrightarrow> xs = ys"
proof (induction xs arbitrary: ys)
  case (Cons x xs)
  then obtain y zs where ys: "ys = y # zs" by (cases ys) auto
  have "x = y"
  proof (rule ccontr)
    assume ne: "x \<noteq> y"
    then have "js_string_less y x" "js_string_less x y" using Cons.prems ys by (auto dest: equalityD1 equalityD2)
    then show False using js_string_less_asym by blast
  qed
  moreover have "x \<notin> set xs" "y \<notin> set zs" using Cons.prems ys by auto
  ultimately have "set xs = set zs" using Cons.prems(3) ys by auto
  then show ?case using Cons ys \<open>x = y\<close> by simp
qed simp

lemma text_value_inj: "canonical a \<Longrightarrow> canonical b \<Longrightarrow> text_value a = text_value b \<Longrightarrow> a = b"
proof (induction a arbitrary: b rule: text_value.induct)
  case (5 ts)
  then obtain us where b: "b = TArr us" "map text_value ts = map text_value us" by (cases b) auto
  have len: "length ts = length us" using b(2) by (metis length_map)
  have "ts ! i = us ! i" if i: "i < length ts" for i
  proof (rule 5(1))
    show "ts ! i \<in> set ts" using i by simp
    show "canonical (ts ! i)" "canonical (us ! i)" using 5(2,3) b(1) i len by (auto simp: list_all_length)
    show "text_value (ts ! i) = text_value (us ! i)" using b(2) i len by (metis nth_map)
  qed
  then show ?case using b(1) len by (simp add: nth_equalityI)
next
  case (6 kts)
  then obtain kus where b: "b = TObj kus"
    and eq: "map_of (map (\<lambda>(k, t). (k, text_value t)) kts) = map_of (map (\<lambda>(k, t). (k, text_value t)) kus)" by (cases b) auto
  have sorted: "sorted_wrt js_string_less (map fst kts)" "sorted_wrt js_string_less (map fst kus)" using 6 b by auto
  have same: "map_option text_value (map_of kts k) = map_option text_value (map_of kus k)" for k
    using eq by (simp add: map_of_map fun_eq_iff)
  have "map_of kts k = None \<longleftrightarrow> map_of kus k = None" for k using same [of k] by (metis option.map_disc_iff)
  then have "fst ` set kts = fst ` set kus" by (auto simp: map_of_eq_None_iff)
  then have fsts: "map fst kts = map fst kus" using sorted by (intro sorted_keys_unique) simp_all
  have dist: "distinct xs" if "sorted_wrt js_string_less xs" for xs using that by (induction xs) auto
  have len: "length kts = length kus" using fsts by (metis length_map)
  have "kts ! i = kus ! i" if i: "i < length kts" for i
  proof -
    obtain k t u where kt: "kts ! i = (k, t)" "kus ! i = (k, u)" using fsts i len by (metis length_map nth_map prod.collapse)
    have "map_of kts k = Some t" "map_of kus k = Some u"
      using kt i len dist [OF sorted(1)] dist [OF sorted(2)] nth_mem [of i kts] nth_mem [of i kus] by simp_all
    then have "text_value t = text_value u" using same [of k] by simp
    moreover have "canonical t" "canonical u" using 6(2,3) b kt i len by (auto simp: list_all_length)
    moreover have "(k, t) \<in> set kts" using kt(1) i nth_mem by metis
    ultimately have "t = u" using 6(1) by blast
    then show ?thesis using kt by simp
  qed
  then show ?case using b len by (simp add: nth_equalityI)
next
  case 1
  then show ?case by (cases b) simp_all
next
  case (2 x)
  then show ?case by (cases b) simp_all
next
  case (3 n)
  then show ?case by (cases b) simp_all
next
  case (4 s)
  then show ?case by (cases b) simp_all
qed

section \<open>The text can be read back\<close>

lemma dec_digits_chars: "c \<in> set (dec_digits n) \<Longrightarrow> decimal_digit c"
proof (induction n rule: dec_digits.induct)
  case (1 n)
  have "decimal_digit (char_of (48 + m))" if "m < 10" for m :: nat using that by (simp add: decimal_digit_def)
  then show ?case using 1 dec_digits.simps [of n] by (auto split: if_splits)
qed

lemma dec_digits_value: "foldl (\<lambda>a c. a * 10 + (of_char c - 48)) 0 (dec_digits n) = (n :: nat)"
proof (induction n rule: dec_digits.induct)
  case (1 n)
  show ?case using 1 dec_digits.simps [of n] by (cases "n < 10") simp_all
qed

lemma dec_digits_ne [simp]: "dec_digits n \<noteq> []"
  by (subst dec_digits.simps) simp

definition num_char :: "char \<Rightarrow> bool" where
  "num_char c \<longleftrightarrow> decimal_digit c \<or> c = CHR ''-''"

lemma big_string_chars: "list_all num_char (big_string n)" "big_string n \<noteq> []"
  by (auto simp: big_string_def num_char_def list_all_iff dec_digits_chars)

lemma big_string_inj: "big_string m = big_string n \<Longrightarrow> m = n"
proof -
  have "CHR ''-'' \<notin> set (dec_digits k)" for k using dec_digits_chars [of "CHR ''-''" k] by (auto simp: decimal_digit_def)
  then have minus: "CHR ''-'' # xs \<noteq> dec_digits k" for xs k by (metis list.set_intros(1))
  have digits: "dec_digits a = dec_digits b \<Longrightarrow> a = b" for a b by (metis dec_digits_value)
  assume eq: "big_string m = big_string n"
  consider "m < 0" "n < 0" | "m < 0" "0 \<le> n" | "0 \<le> m" "n < 0" | "0 \<le> m" "0 \<le> n" by linarith
  then show ?thesis
  proof cases
    case 1
    then show ?thesis using eq digits [of "nat (- m)" "nat (- n)"] by (simp add: big_string_def)
  next
    case 2
    then show ?thesis using eq minus by (simp add: big_string_def)
  next
    case 3
    then show ?thesis using eq minus [of "dec_digits (nat (- n))" "nat m"] by (simp add: big_string_def)
  next
    case 4
    then show ?thesis using eq digits [of "nat m" "nat n"] by (simp add: big_string_def)
  qed
qed

text \<open>What may follow a value inside a text.\<close>

definition delimited :: "string \<Rightarrow> bool" where
  "delimited s \<longleftrightarrow> s = [] \<or> hd s \<in> {CHR '','', CHR '']'', CHR ''}''}"

lemma delimited_Cons [simp]: "delimited (CHR '','' # s)" "delimited (CHR '']'' # s)" "delimited (CHR ''}'' # s)"
  by (simp_all add: delimited_def)

lemma big_string_read:
  assumes "big_string m @ s = big_string n @ t" "delimited s" "delimited t"
  shows "m = n \<and> s = t"
proof -
  have stop: "takeWhile num_char (big_string k @ u) = big_string k" if "delimited u" for k u
  proof -
    have "takeWhile num_char u = []" using that by (cases u) (auto simp: delimited_def num_char_def decimal_digit_def)
    then show ?thesis using big_string_chars(1) [of k] by (simp add: takeWhile_append list_all_iff)
  qed
  have "big_string m = big_string n" using stop [OF assms(2)] stop [OF assms(3)] assms(1) by metis
  then show ?thesis using assms(1) big_string_inj by auto
qed

text \<open>The inverse of one escape.\<close>

definition unescape :: "string \<Rightarrow> char \<times> string" where
  "unescape s = (if hd s \<noteq> CHR 0x5C then (hd s, tl s)
     else if s ! 1 = CHR ''u'' then (char_of (case (hex_value (s ! 4), hex_value (s ! 5)) of (Some a, Some b) \<Rightarrow> a * 16 + b | _ \<Rightarrow> 0), drop 6 s)
     else (if s ! 1 = CHR ''b'' then char_of (8 :: nat) else if s ! 1 = CHR ''f'' then char_of (12 :: nat) else if s ! 1 = CHR ''n'' then char_of (10 :: nat)
       else if s ! 1 = CHR ''r'' then char_of (13 :: nat) else if s ! 1 = CHR ''t'' then char_of (9 :: nat) else s ! 1, drop 2 s))"

lemma unescape_escape: "unescape (json_escape c @ s) = (c, s)"
proof -
  define n :: nat where "n = of_char c"
  have c: "c = char_of n" by (simp add: n_def)
  have quote: "CHR 0x22 = char_of (34 :: nat)" "CHR 0x5C = char_of (92 :: nat)" by code_simp+
  consider "n = 34" | "n = 92" | "n = 8" | "n = 12" | "n = 10" | "n = 13" | "n = 9" | "n < 32" "n \<notin> {8, 9, 10, 12, 13}" | "n \<ge> 32" "n \<noteq> 34" "n \<noteq> 92" by fastforce
  then show ?thesis
  proof cases
    case 8
    then have "n div 16 < 16" "n mod 16 < 16" by auto
    then show ?thesis using 8 hex_digit_facts(1) c by (simp add: json_escape_def unescape_def n_def [symmetric] Let_def)
  next
    case 9
    then have "c \<noteq> CHR 0x5C" by (auto simp: n_def)
    then show ?thesis using 9 by (simp add: json_escape_def unescape_def n_def [symmetric] Let_def)
  qed (simp_all add: json_escape_def unescape_def n_def [symmetric] Let_def c quote [symmetric])
qed

lemma json_escape_read: "json_escape c @ s = json_escape d @ t \<Longrightarrow> c = d \<and> s = t"
  by (drule arg_cong [where f = unescape]) (simp add: unescape_escape)

lemma json_escape_hd: "\<exists>x xs. json_escape c = x # xs \<and> x \<noteq> CHR 0x22"
proof -
  have "c \<noteq> CHR 0x22" if "(of_char c :: nat) \<noteq> 34" using that by auto
  then show ?thesis by (auto simp: json_escape_def Let_def)
qed

lemma json_string_read:
  assumes "json_string a @ s = json_string b @ t"
  shows "a = b \<and> s = t"
proof -
  have "concat (map json_escape a) @ CHR 0x22 # s = concat (map json_escape b) @ CHR 0x22 # t \<Longrightarrow> a = b \<and> s = t"
  proof (induction a arbitrary: b)
    case Nil
    show ?case
    proof (cases b)
      case (Cons d ds)
      then show ?thesis using Nil json_escape_hd [of d] by auto
    qed (use Nil in simp)
  next
    case (Cons c cs)
    show ?case
    proof (cases b)
      case Nil
      then show ?thesis using Cons.prems json_escape_hd [of c] by auto
    next
      case ds: (Cons d ds)
      have "c = d \<and> concat (map json_escape cs) @ CHR 0x22 # s = concat (map json_escape ds) @ CHR 0x22 # t"
        using Cons.prems ds by (intro json_escape_read) simp
      then show ?thesis using Cons.IH ds by blast
    qed
  qed
  then show ?thesis using assms by (simp add: json_string_def)
qed

text \<open>A list of items can be read back if each item can, before a delimiter.\<close>

definition readable :: "('a \<Rightarrow> string) \<Rightarrow> 'a \<Rightarrow> bool" where
  "readable f x \<longleftrightarrow> (\<forall>y s t. delimited s \<longrightarrow> delimited t \<longrightarrow> f x @ s = f y @ t \<longrightarrow> x = y \<and> s = t)"

definition starts :: "('a \<Rightarrow> string) \<Rightarrow> bool" where
  "starts f \<longleftrightarrow> (\<forall>x s. \<not> delimited (f x @ s))"

lemma join_comma_Cons: "join_comma (s # ss) = s @ concat (map ((#) (CHR '','')) ss)"
  by (induction ss arbitrary: s) simp_all

lemma tail_read:
  assumes "c \<in> {CHR '']'', CHR ''}''}" "\<And>x. x \<in> set xs \<Longrightarrow> readable f x"
    "concat (map (\<lambda>x. CHR '','' # f x) xs) @ c # s = concat (map (\<lambda>x. CHR '','' # f x) ys) @ c # t"
  shows "xs = ys \<and> s = t"
  using assms(2,3)
proof (induction xs arbitrary: ys)
  case Nil
  then show ?case using assms(1) by (cases ys) auto
next
  case (Cons x xs)
  have delim: "delimited (concat (map (\<lambda>x. CHR '','' # f x) zs) @ c # u)" for zs u using assms(1) by (cases zs) auto
  show ?case
  proof (cases ys)
    case Nil
    then show ?thesis using Cons.prems assms(1) by auto
  next
    case ys: (Cons y zs)
    have "f x @ concat (map (\<lambda>x. CHR '','' # f x) xs) @ c # s = f y @ concat (map (\<lambda>x. CHR '','' # f x) zs) @ c # t"
      using Cons.prems(2) ys by simp
    then have "x = y \<and> concat (map (\<lambda>x. CHR '','' # f x) xs) @ c # s = concat (map (\<lambda>x. CHR '','' # f x) zs) @ c # t"
      using Cons.prems(1) [of x, OF list.set_intros(1)] delim unfolding readable_def by blast
    then show ?thesis using Cons ys by simp
  qed
qed

lemma items_read:
  assumes "c \<in> {CHR '']'', CHR ''}''}" "\<And>x. x \<in> set xs \<Longrightarrow> readable f x" "starts f"
    "join_comma (map f xs) @ c # s = join_comma (map f ys) @ c # t"
  shows "xs = ys \<and> s = t"
proof -
  have c: "delimited (c # u)" for u using assms(1) by auto
  have first: "f x @ u \<noteq> c # v" for x u v using assms(3) c by (metis starts_def)
  have join: "join_comma (map f (z # zs)) @ u = f z @ concat (map (\<lambda>x. CHR '','' # f x) zs) @ u" for z zs u
    by (simp add: join_comma_Cons comp_def)
  show ?thesis
  proof (cases "xs = [] \<or> ys = []")
    case True
    have "join_comma (map f zs) @ c # u \<noteq> c # v" if "zs \<noteq> []" for zs u v
      using that first join by (cases zs) (simp_all del: list.map)
    then show ?thesis using True assms(4) by (metis append_Nil join_comma.simps(1) list.inject list.simps(8))
  next
    case False
    then obtain x xs' y ys' where xy: "xs = x # xs'" "ys = y # ys'" by (metis list.exhaust)
    have "CHR '','' # join_comma (map f xs) @ c # s = CHR '','' # join_comma (map f ys) @ c # t" using assms(4) by simp
    then show ?thesis using tail_read [OF assms(1,2), of xs s ys t] unfolding xy join by simp
  qed
qed

text \<open>The first character of a text tells the kind of the value.\<close>

lemma render_hd:
  "\<exists>c cs. render a = c # cs \<and> (case a of
     TNull \<Rightarrow> c = CHR ''n'' | TBool b \<Rightarrow> c = (if b then CHR ''t'' else CHR ''f'') | TInt n \<Rightarrow> num_char c | TStr s \<Rightarrow> c = CHR 0x22
   | TArr ts \<Rightarrow> c = CHR ''['' | TObj kts \<Rightarrow> c = CHR ''{'')"
proof (cases a)
  case (TInt n)
  then show ?thesis using big_string_chars [of n] by (cases "big_string n") auto
qed (auto simp: json_string_def)

lemma render_kind:
  assumes "render a @ s = render b @ t"
  shows "(a = TNull \<longleftrightarrow> b = TNull) \<and> (\<forall>x. a = TBool x \<longleftrightarrow> b = TBool x) \<and> ((\<exists>n. a = TInt n) \<longleftrightarrow> (\<exists>n. b = TInt n)) \<and>
    ((\<exists>s. a = TStr s) \<longleftrightarrow> (\<exists>s. b = TStr s)) \<and> ((\<exists>ts. a = TArr ts) \<longleftrightarrow> (\<exists>ts. b = TArr ts)) \<and> ((\<exists>kts. a = TObj kts) \<longleftrightarrow> (\<exists>kts. b = TObj kts))"
proof -
  obtain c cs d ds where "render a = c # cs" "render b = d # ds" "c = d"
    using render_hd [of a] render_hd [of b] assms by auto
  then show ?thesis using render_hd [of a] render_hd [of b]
    by (cases a; cases b) (auto simp: num_char_def decimal_digit_def split: if_splits)
qed

lemma num_char_other: "num_char c \<Longrightarrow> c \<notin> {CHR '','', CHR '']'', CHR ''}''}"
  by (auto simp: num_char_def decimal_digit_def)

lemma starts_render: "starts render"
proof -
  have "\<not> delimited (render a @ s)" for a s
  proof (cases a)
    case (TInt n)
    then show ?thesis using render_hd [of a] num_char_other by (auto simp: delimited_def)
  qed (auto simp: delimited_def json_string_def)
  then show ?thesis by (simp add: starts_def)
qed

abbreviation (input) member_text :: "string \<times> jtext \<Rightarrow> string" where
  "member_text \<equiv> (\<lambda>(k, t). json_string k @ CHR '':'' # render t)"

lemma readable_member: "readable render u \<Longrightarrow> readable member_text (k, u)"
  unfolding readable_def
proof (intro allI impI)
  fix y s t
  assume IH: "\<forall>y s t. delimited s \<longrightarrow> delimited t \<longrightarrow> render u @ s = render y @ t \<longrightarrow> u = y \<and> s = t"
    and d: "delimited s" "delimited t" and eq: "member_text (k, u) @ s = member_text y @ t"
  obtain l w where y: "y = (l, w)" by fastforce
  have "json_string k @ CHR '':'' # render u @ s = json_string l @ CHR '':'' # render w @ t" using eq y by simp
  from json_string_read [OF this] show "(k, u) = y \<and> s = t" using IH d y by simp
qed

lemma starts_member: "starts member_text"
  by (auto simp: starts_def delimited_def json_string_def)

lemma readable_render: "readable render a"
  unfolding readable_def
proof (induction a rule: render.induct)
  case (3 n)
  show ?case
  proof (intro allI impI)
    fix y s t assume d: "delimited s" "delimited t" and eq: "render (TInt n) @ s = render y @ t"
    then obtain m where "y = TInt m" using render_kind [OF eq] by blast
    then show "TInt n = y \<and> s = t" using big_string_read [of n s m t] d eq by simp
  qed
next
  case (4 a)
  show ?case
  proof (intro allI impI)
    fix y s t assume eq: "render (TStr a) @ s = render y @ t"
    then obtain b where "y = TStr b" using render_kind [OF eq] by blast
    then show "TStr a = y \<and> s = t" using json_string_read [of a s b t] eq by simp
  qed
next
  case (5 ts)
  show ?case
  proof (intro allI impI)
    fix y s t assume eq: "render (TArr ts) @ s = render y @ t"
    then obtain us where y: "y = TArr us" using render_kind [OF eq] by blast
    have "ts = us \<and> s = t"
      by (rule items_read [of "CHR '']''" ts render, OF _ _ starts_render]) (use 5 eq y in \<open>auto simp: readable_def\<close>)
    then show "TArr ts = y \<and> s = t" using y by simp
  qed
next
  case (6 kts)
  show ?case
  proof (intro allI impI)
    fix y s t assume eq: "render (TObj kts) @ s = render y @ t"
    then obtain kus where y: "y = TObj kus" using render_kind [OF eq] by blast
    have "readable member_text kt" if kt: "kt \<in> set kts" for kt
    proof -
      obtain k u where "kt = (k, u)" by fastforce
      moreover have "readable render u" unfolding readable_def by (rule 6) (use kt calculation in auto)
      ultimately show ?thesis using readable_member by blast
    qed
    note items = this
    have "kts = kus \<and> s = t"
      by (rule items_read [of "CHR ''}''" kts member_text, OF _ _ starts_member]) (use eq y items in auto)
    then show "TObj kts = y \<and> s = t" using y by simp
  qed
next
  case 1
  show ?case
  proof (intro allI impI)
    fix y s t assume eq: "render TNull @ s = render y @ t"
    then have "y = TNull" using render_kind [OF eq] by blast
    then show "TNull = y \<and> s = t" using eq by simp
  qed
next
  case (2 b)
  show ?case
  proof (intro allI impI)
    fix y s t assume eq: "render (TBool b) @ s = render y @ t"
    then have "y = TBool b" using render_kind [OF eq] by blast
    then show "TBool b = y \<and> s = t" using eq by simp
  qed
qed

lemma render_inj: "render a = render b \<Longrightarrow> a = b"
  using readable_render [of a] by (force simp: readable_def delimited_def)



end
