(* ===== verification/Submit.thy ===== *)
theory Submit
  imports Watcher CanonicalJson
begin

text \<open>
  The submit path of \<open>packages/coretex/src/coordinator/coretex-coordinator-core.ts\<close>: the checks of a request body, of
  the evaluator's result and of its dual-pack proof, the preparation of an evaluation and the signing of a receipt after
  it. A handler is a function of the core's state that ends with a value, with a rejection that names its
  code (the rejection is counted), or with an exception; what it has changed before stays changed. The evaluator,
  the signer and the chain client are arguments: their answers, which may be failures.
\<close>

section \<open>Data\<close>

text \<open>The numbers of the evaluator are arbitrary numbers until they are checked.\<close>

record PackProof =
  pk_domain :: string
  pk_seedCommit :: string
  pk_accepted :: bool
  pk_scorePpm :: js_number

record DualPackProof =
  dp_kind :: string
  dp_mode :: string
  dp_epochId :: js_number
  dp_receivedAtBlock :: js_number
  dp_targetBlock :: js_number
  dp_targetBlockOffset :: js_number
  dp_blockhash :: string
  dp_patchHash :: string
  dp_parentStateRoot :: string
  dp_corpusRoot :: string
  dp_coreVersionHash :: string
  dp_hiddenSeedCommit :: string
  dp_epochSecretCommit :: string
  dp_gate :: "PackProof option"
  dp_confirm :: "PackProof option"

record EvalAccepted =
  ea_deterministicDeltaPpm :: js_number
  ea_evalReportHash :: string
  ea_artifactHash :: string
  ea_evaluationProof :: "DualPackProof option"

record StateAdvanceScores =
  sx_scoreBeforePpm :: js_number
  sx_scoreAfterPpm :: js_number
  sx_rewrittenPatchBytesHex :: string

datatype EvalResult = EvalReject string | EvalScreenerPass EvalAccepted | EvalStateAdvance EvalAccepted StateAdvanceScores

record DualPackExpected =
  dx_epoch :: int
  dx_targetBlockOffset :: "int option"
  dx_patchHash :: string
  dx_parentStateRoot :: string
  dx_corpusRoot :: string
  dx_coreVersionHash :: string
  dx_hiddenSeedCommit :: string
  dx_minDualPackScorePpm :: "int option"
  dx_gateSeedCommit :: "string option"
  dx_confirmSeedCommit :: "string option"

record ReceiptPayload =
  rp_epochId :: bigint
  rp_solveIndex :: bigint
  rp_prevReceiptHash :: string
  rp_outcome :: int
  rp_challengeId :: string
  rp_parentStateRoot :: string
  rp_newStateRoot :: string
  rp_corpusRoot :: string
  rp_activeFrontierRoot :: string
  rp_coreVersionHash :: string
  rp_evalReportHash :: string
  rp_patchHash :: string
  rp_artifactHash :: string
  rp_worldSeed :: bigint
  rp_rulesVersion :: int
  rp_workPolicyHash :: string
  rp_workUnitsBps :: bigint
  rp_difficultyCountSnapshot :: bigint
  rp_stateWordCount :: int
  rp_scoreBeforePpm :: int
  rp_scoreAfterPpm :: int
  rp_issuedAt :: int
  rp_expiresAt :: int
  rp_compactPatchBytes :: string

datatype ReceiptField = FieldString string | FieldNumber int

record SignedReceipt =
  sg_signature :: string
  sg_transactionData :: string
  sg_receipt :: "(string \<times> ReceiptField) list option"
  sg_receiptHash :: "string option"

record MinerCounters =
  mc_screenersThisEpoch :: int
  mc_nextIndex :: bigint
  mc_lastReceiptHash :: string

text \<open>A request body: not an object, or an object with its own keys; a value that is not a string is \<open>None\<close>.\<close>

datatype SubmitBody = BodyNotObject | BodyObject "(string \<times> string option) list"

record ParsedSubmit =
  pb_patchBytesHex :: string
  pb_patchBytes :: bytes
  pb_parentStateRoot :: string
  pb_miner :: string

record PreparedSubmit =
  ps_now :: int
  ps_parsed :: ParsedSubmit
  ps_decoded :: Patch
  ps_canonicalHex :: string
  ps_originalPatchHash :: string
  ps_dedupKey :: string
  ps_screenerThresholdPpm :: int
  ps_rootAtEvaluation :: string
  ps_parentStateSnapshot :: CortexState
  ps_freezeGeneration :: nat

section \<open>Implementation\<close>

subsection \<open>Handlers\<close>

datatype 'a reply = Returned 'a | Rejected string | Threw fault

type_synonym 'a handler = "core \<Rightarrow> core \<times> 'a reply"

definition h_return :: "'a \<Rightarrow> 'a handler" where
  "h_return x c = (c, Returned x)"

definition h_bind :: "'a handler \<Rightarrow> ('a \<Rightarrow> 'b handler) \<Rightarrow> 'b handler" where
  "h_bind m f c = (case m c of
       (c', Returned x) \<Rightarrow> f x c'
     | (c', Rejected code) \<Rightarrow> (c', Rejected code)
     | (c', Threw e) \<Rightarrow> (c', Threw e))"

definition h_gets :: "(core \<Rightarrow> 'a) \<Rightarrow> 'a handler" where
  "h_gets f c = (c, Returned (f c))"

definition h_modify :: "(core \<Rightarrow> core) \<Rightarrow> unit handler" where
  "h_modify f c = (f c, Returned ())"

definition h_try :: "'a chain \<Rightarrow> 'a handler" where
  "h_try r c = (c, case r of Inl e \<Rightarrow> Threw e | Inr x \<Rightarrow> Returned x)"

definition rejectSubmission :: "string \<Rightarrow> 'a handler" where
  "rejectSubmission code c =
     (let seen = (case map_of (mt_submitRejectedByCode (co_metrics c)) code of None \<Rightarrow> 0 | Some n \<Rightarrow> n)
      in (bump (\<lambda>m. m\<lparr>mt_submitRejectedByCode := AList.update code (seen + 1) (mt_submitRejectedByCode m)\<rparr>) c, Rejected code))"

definition h_require :: "bool \<Rightarrow> string \<Rightarrow> unit handler" where
  "h_require b code = (if b then h_return () else rejectSubmission code)"

subsection \<open>Checks of a request and of a result\<close>

definition normalizeHexBytes :: "string \<Rightarrow> (string \<times> bytes) option" where
  "normalizeHexBytes s =
     (if \<not> isHex s then None
      else let hex = toLowerCase s in if (length hex - 2) mod 2 \<noteq> 0 then None else Some (hex, coord_hexToBytes hex))"

definition body_string :: "(string \<times> string option) list \<Rightarrow> string \<Rightarrow> string option" where
  "body_string r key = (case map_of r key of Some (Some s) \<Rightarrow> Some s | _ \<Rightarrow> None)"

definition parseSubmitBody :: "SubmitBody \<Rightarrow> int \<Rightarrow> string + ParsedSubmit" where
  "parseSubmitBody body maxPatchBytes = (case body of
       BodyNotObject \<Rightarrow> Inl ''BODY''
     | BodyObject r \<Rightarrow>
         if filter (\<lambda>(k, _). k \<notin> {''patchBytesHex'', ''parentStateRoot'', ''minerAddress''}) r \<noteq> [] then Inl ''BODY_UNKNOWN_KEY''
         else (case Option.bind (body_string r ''patchBytesHex'') normalizeHexBytes of
           None \<Rightarrow> Inl ''BODY''
         | Some (hex, bytes) \<Rightarrow>
             if bytes = [] then Inl ''BODY''
             else if int (length bytes) > maxPatchBytes then Inl ''PATCH_TOO_LARGE''
             else (case body_string r ''parentStateRoot'' of
               None \<Rightarrow> Inl ''BODY''
             | Some rootHex \<Rightarrow>
                 if \<not> isBytes32 rootHex then Inl ''BODY''
                 else (case body_string r ''minerAddress'' of
                   None \<Rightarrow> Inl ''BODY''
                 | Some miner \<Rightarrow>
                     if \<not> isAddress miner then Inl ''BODY''
                     else Inr \<lparr>pb_patchBytesHex = hex, pb_patchBytes = bytes, pb_parentStateRoot = toLowerCase rootHex,
                       pb_miner = toLowerCase miner\<rparr>))))"

text \<open>\<open>Number.isSafeInteger\<close>, and the integer it admits.\<close>

fun safe_int :: "js_number \<Rightarrow> int option" where
  "safe_int (Fin r) = (if is_safe_integer r then Some \<lfloor>r\<rfloor> else None)"
| "safe_int _ = None"

definition safe_nat :: "js_number \<Rightarrow> bool" where
  "safe_nat x \<longleftrightarrow> (case safe_int x of None \<Rightarrow> False | Some n \<Rightarrow> 0 \<le> n)"

definition num :: "js_number \<Rightarrow> int" where
  "num x = (case safe_int x of None \<Rightarrow> 0 | Some n \<Rightarrow> n)"

definition first_failure :: "(bool \<times> string) list \<Rightarrow> string option" where
  "first_failure checks = map_option snd (find fst checks)"

fun validateAcceptedEvalResult :: "EvalResult \<Rightarrow> string option" where
  "validateAcceptedEvalResult (EvalReject _) = None"
| "validateAcceptedEvalResult (EvalScreenerPass a) = first_failure
     [(\<not> safe_nat (ea_deterministicDeltaPpm a), ''EVAL_DELTA_INVALID''),
      (\<not> isBytes32 (ea_evalReportHash a) \<or> \<not> isBytes32 (ea_artifactHash a), ''EVAL_HASH_INVALID'')]"
| "validateAcceptedEvalResult (EvalStateAdvance a s) =
     (let scoreDelta = num (sx_scoreAfterPpm s) - num (sx_scoreBeforePpm s) in first_failure
     [(\<not> safe_nat (ea_deterministicDeltaPpm a), ''EVAL_DELTA_INVALID''),
      (\<not> isBytes32 (ea_evalReportHash a) \<or> \<not> isBytes32 (ea_artifactHash a), ''EVAL_HASH_INVALID''),
      (\<not> safe_nat (sx_scoreBeforePpm s) \<or> \<not> safe_nat (sx_scoreAfterPpm s), ''EVAL_SCORE_INVALID''),
      (scoreDelta \<le> 0, ''EVAL_SCORE_INVALID''),
      (num (ea_deterministicDeltaPpm a) \<noteq> scoreDelta, ''EVAL_DELTA_INVALID'')])"

definition ZERO_HASH :: string where
  "ZERO_HASH = ''0x'' @ replicate 64 (CHR ''0'')"

definition pinned :: "string \<Rightarrow> string \<Rightarrow> bool" where
  "pinned actual expected \<longleftrightarrow> isBytes32 actual \<and> toLowerCase actual = toLowerCase expected"

definition pack_checks :: "DualPackExpected \<Rightarrow> string \<Rightarrow> PackProof \<Rightarrow> (bool \<times> string) list" where
  "pack_checks expected label pk =
     [(\<not> isBytes32 (pk_seedCommit pk) \<or> toLowerCase (pk_seedCommit pk) = ZERO_HASH, ''dual-pack proof '' @ label @ '' seedCommit invalid''),
      (\<not> pk_accepted pk, ''dual-pack proof '' @ label @ '' not accepted''),
      (\<not> safe_nat (pk_scorePpm pk) \<or> num (pk_scorePpm pk) > 1000000, ''dual-pack proof '' @ label @ '' score invalid''),
      (\<not> opt_all (\<lambda>m. m \<le> num (pk_scorePpm pk)) (dx_minDualPackScorePpm expected), ''dual-pack proof '' @ label @ '' score below live threshold'')]"

definition seed_checks :: "DualPackExpected \<Rightarrow> PackProof \<Rightarrow> PackProof \<Rightarrow> (bool \<times> string) list" where
  "seed_checks expected gate confirm =
     pack_checks expected ''gate'' gate @ pack_checks expected ''confirm'' confirm @
     [(toLowerCase (pk_seedCommit gate) = toLowerCase (pk_seedCommit confirm), ''dual-pack proof gate/confirm seeds are not domain-separated''),
      (\<not> opt_all (\<lambda>e. isBytes32 e \<and> toLowerCase (pk_seedCommit gate) = toLowerCase e) (dx_gateSeedCommit expected), ''dual-pack proof gate seedCommit mismatch''),
      (\<not> opt_all (\<lambda>e. isBytes32 e \<and> toLowerCase (pk_seedCommit confirm) = toLowerCase e) (dx_confirmSeedCommit expected), ''dual-pack proof confirm seedCommit mismatch'')]"

definition header_checks :: "DualPackExpected \<Rightarrow> DualPackProof \<Rightarrow> (bool \<times> string) list" where
  "header_checks expected proof =
     [(dp_kind proof \<noteq> ''coretex-dual-pack-v1'', ''dual-pack proof kind mismatch''),
      (dp_mode proof \<noteq> ''future_blockhash_dual_pack'', ''dual-pack proof mode mismatch''),
      (dp_epochId proof \<noteq> Fin (of_int (dx_epoch expected)), ''dual-pack proof epoch mismatch''),
      (\<not> safe_nat (dp_receivedAtBlock proof), ''dual-pack proof receivedAtBlock invalid''),
      (safe_int (dp_targetBlock proof) = None \<or> num (dp_targetBlock proof) \<le> num (dp_receivedAtBlock proof), ''dual-pack proof targetBlock invalid''),
      (safe_int (dp_targetBlockOffset proof) = None \<or> num (dp_targetBlockOffset proof) \<le> 0, ''dual-pack proof targetBlockOffset invalid''),
      (num (dp_targetBlock proof) \<noteq> num (dp_receivedAtBlock proof) + num (dp_targetBlockOffset proof), ''dual-pack proof targetBlock offset mismatch''),
      (\<not> opt_all (\<lambda>n. num (dp_targetBlockOffset proof) = n) (dx_targetBlockOffset expected), ''dual-pack proof targetBlockOffset config mismatch''),
      (\<not> isBytes32 (dp_blockhash proof) \<or> toLowerCase (dp_blockhash proof) = ZERO_HASH, ''dual-pack proof blockhash invalid''),
      (\<not> pinned (dp_patchHash proof) (dx_patchHash expected), ''dual-pack proof patchHash mismatch''),
      (\<not> pinned (dp_parentStateRoot proof) (dx_parentStateRoot expected), ''dual-pack proof parentStateRoot mismatch''),
      (\<not> pinned (dp_corpusRoot proof) (dx_corpusRoot expected), ''dual-pack proof corpusRoot mismatch''),
      (\<not> pinned (dp_coreVersionHash proof) (dx_coreVersionHash expected), ''dual-pack proof coreVersionHash mismatch''),
      (\<not> pinned (dp_hiddenSeedCommit proof) (dx_hiddenSeedCommit expected), ''dual-pack proof hiddenSeedCommit mismatch''),
      (\<not> pinned (dp_epochSecretCommit proof) (dx_hiddenSeedCommit expected), ''dual-pack proof epochSecretCommit mismatch'')]"

definition validateDualPackProof :: "DualPackProof option \<Rightarrow> DualPackExpected \<Rightarrow> string option" where
  "validateDualPackProof evaluationProof expected = (case evaluationProof of
       None \<Rightarrow> Some ''accepted evaluation missing dual-pack proof''
     | Some proof \<Rightarrow> (case first_failure (header_checks expected proof) of
           Some why \<Rightarrow> Some why
         | None \<Rightarrow> (case (dp_gate proof, dp_confirm proof) of
               (Some gate, Some confirm) \<Rightarrow>
                 if pk_domain gate \<noteq> ''gate'' then Some ''dual-pack proof gate domain missing''
                 else if pk_domain confirm \<noteq> ''confirm'' then Some ''dual-pack proof confirm domain missing''
                 else first_failure (seed_checks expected gate confirm)
             | (Some gate, None) \<Rightarrow>
                 if pk_domain gate \<noteq> ''gate'' then Some ''dual-pack proof gate domain missing'' else Some ''dual-pack proof confirm domain missing''
             | (None, _) \<Rightarrow> Some ''dual-pack proof gate domain missing'')))"

definition patchSemanticsMatchExceptScoreDelta :: "Patch \<Rightarrow> Patch \<Rightarrow> bool" where
  "patchSemanticsMatchExceptScoreDelta a b \<longleftrightarrow>
     patchType a = patchType b \<and> wordCount a = wordCount b \<and>
     toLowerCase (bytesToHex (parentStateRoot a)) = toLowerCase (bytesToHex (parentStateRoot b)) \<and>
     length (indices a) = length (indices b) \<and> length (newWords a) = length (newWords b) \<and>
     list_all (\<lambda>i. nth_opt (indices a) i = nth_opt (indices b) i \<and> nth_opt (newWords a) i = nth_opt (newWords b) i) [0..<length (indices a)]"

subsection \<open>Thresholds\<close>

definition default_minImprovementPpm :: int where
  "default_minImprovementPpm = (case toBigInt (sa_minDeterministicDeltaPpm (wp_stateAdvance DEFAULT_CORETEX_WORK_POLICY)) of Inr v \<Rightarrow> v | Inl _ \<Rightarrow> 0)"

definition or_else :: "'a option \<Rightarrow> 'a \<Rightarrow> 'a" where
  "or_else x d = (case x of None \<Rightarrow> d | Some v \<Rightarrow> v)"

definition effectiveStateAdvanceThresholdPpm :: "CoordConfig \<Rightarrow> core \<Rightarrow> int" where
  "effectiveStateAdvanceThresholdPpm cfg c =
     or_else (cc_minImprovementPpm cfg) default_minImprovementPpm + or_else (cc_replayTolerancePpm cfg) 0
     + or_else (co_currentBaselineVariancePpm c) 0"

definition js_num :: "int \<Rightarrow> js_arg" where
  "js_num n = ArgNum (of_int n)"

definition effectiveScreenerThresholdPpm :: "CoordConfig \<Rightarrow> int \<Rightarrow> core \<Rightarrow> int chain" where
  "effectiveScreenerThresholdPpm cfg baselinePpm c =
     chain_bind (of_js (computeCoreTexScreenerThresholdPpm
       \<lparr>ti_baselineScorePpm = Some (js_num baselinePpm), ti_recentNoiseFloorPpm = Some (js_num (or_else (cc_recentNoiseFloorPpm cfg) 0)),
        ti_recentScreenerPasses = None, ti_recentStateAdvances = None, ti_targetStateAdvances = None, ti_recentProbePassRatePpm = None,
        ti_stateAdvanceThresholdPpm = Some (js_num (effectiveStateAdvanceThresholdPpm cfg c)), ti_policy = cc_workPolicy cfg\<rparr>))
     (\<lambda>computed. Inr (max (or_else (cc_screenerThresholdPpm cfg) 0) computed))"

subsection \<open>Before the evaluation\<close>

definition guard_epoch :: "CoordConfig \<Rightarrow> bigint chain \<Rightarrow> unit handler" where
  "guard_epoch cfg v4Epoch = (case v4Epoch of
       Inl e \<Rightarrow> h_bind (h_modify (\<lambda>c. c\<lparr>co_signingEnabled := False, co_unhealthyReason := Some EpochCheckFailed\<rparr>))
         (\<lambda>_. rejectSubmission ''CoordUnhealthy'')
     | Inr n \<Rightarrow> h_bind (\<lambda>c. let (current, c') = checkEpochStillCurrent cfg n c in (c', Returned current))
         (\<lambda>current. h_require current ''CoordEpochMismatch''))"

definition guard_signing :: "unit handler" where
  "guard_signing = h_bind (h_gets (\<lambda>c. c)) (\<lambda>c.
     h_require (co_signingEnabled c) (if isAwaitingFinality c then ''CoordAwaitingFinality'' else ''CoordUnhealthy''))"

definition guard_baseline :: "int handler" where
  "guard_baseline = h_bind (h_gets effectiveBaselinePpm) (\<lambda>b. case b of
       None \<Rightarrow> rejectSubmission ''awaiting_baseline_recompute''
     | Some baselinePpm \<Rightarrow> h_return baselinePpm)"

text \<open>The patch of a request: decoded, for the live state, applicable, and not signed yet.\<close>

definition patch_error_code :: "PatchErrorCode \<Rightarrow> string" where
  "patch_error_code e = (case e of E01 \<Rightarrow> ''E01'' | E02 \<Rightarrow> ''E02'' | E03 \<Rightarrow> ''E03'' | E04 \<Rightarrow> ''E04'' | E05 \<Rightarrow> ''E05'')"

definition prepare_patch :: "int \<Rightarrow> int \<Rightarrow> ParsedSubmit \<Rightarrow> PreparedSubmit handler" where
  "prepare_patch now screenerThresholdPpm parsed =
     h_bind (h_gets (\<lambda>c. c)) (\<lambda>c.
     h_bind (h_require (pb_parentStateRoot parsed = toLowerCase (co_liveRoot c)) ''E01'') (\<lambda>_.
     h_bind (case decodePatch (pb_patchBytes parsed) of Inl e \<Rightarrow> rejectSubmission ''DECODE'' | Inr p \<Rightarrow> h_return p) (\<lambda>decoded.
     h_bind (h_require (toLowerCase (bytesToHex (parentStateRoot decoded)) = pb_parentStateRoot parsed) ''E01'') (\<lambda>_.
     h_bind (h_try (of_js (applyPatch (co_liveState c) decoded True))) (\<lambda>preApplied.
     h_bind (case preApplied of Inl e \<Rightarrow> rejectSubmission (patch_error_code e) | Inr s \<Rightarrow> h_return s) (\<lambda>_.
     h_bind (h_try (of_js (encodePatch (decoded\<lparr>scoreDelta := 0\<rparr>)))) (\<lambda>canonicalBytes.
     let originalPatchHash = toLowerCase (computePatchHash canonicalBytes);
         dedupKey = pb_parentStateRoot parsed @ ''|'' @ originalPatchHash in
     h_bind (h_require (map_of (co_submitDedup c) dedupKey = None) ''DuplicateCoreTexPatch'') (\<lambda>_.
     h_return \<lparr>ps_now = now, ps_parsed = parsed, ps_decoded = decoded, ps_canonicalHex = toLowerCase (bytesToHex canonicalBytes),
       ps_originalPatchHash = originalPatchHash, ps_dedupKey = dedupKey, ps_screenerThresholdPpm = screenerThresholdPpm,
       ps_rootAtEvaluation = toLowerCase (co_liveRoot c), ps_parentStateSnapshot = co_liveState c,
       ps_freezeGeneration = co_freezeGeneration c\<rparr>))))))))"

definition prepareSubmitEvaluation :: "CoordConfig \<Rightarrow> bool \<Rightarrow> int \<Rightarrow> bigint chain \<Rightarrow> SubmitBody \<Rightarrow> PreparedSubmit handler" where
  "prepareSubmitEvaluation cfg hasSigner now v4Epoch body =
     h_bind (h_modify (gcPending cfg now)) (\<lambda>_.
     h_bind (h_gets co_frozen) (\<lambda>frozen.
     h_bind (h_require (\<not> frozen) ''epoch_cutover_in_progress'') (\<lambda>_.
     h_bind (guard_epoch cfg v4Epoch) (\<lambda>_.
     h_bind guard_signing (\<lambda>_.
     h_bind (h_require hasSigner ''CoordSignerUnavailable'') (\<lambda>_.
     h_bind guard_baseline (\<lambda>baselinePpm.
     h_bind (\<lambda>c. h_try (effectiveScreenerThresholdPpm cfg baselinePpm c) c) (\<lambda>screenerThresholdPpm.
     h_bind (case parseSubmitBody body (or_else (cc_maxPatchBytes cfg) 256) of Inl code \<Rightarrow> rejectSubmission code | Inr p \<Rightarrow> h_return p) (\<lambda>parsed.
     prepare_patch now screenerThresholdPpm parsed)))))))))"

subsection \<open>After the evaluation\<close>

definition dual_pack_expected :: "CoordConfig \<Rightarrow> PreparedSubmit \<Rightarrow> int \<Rightarrow> DualPackExpected" where
  "dual_pack_expected cfg prepared minScore =
     \<lparr>dx_epoch = cc_epoch cfg, dx_targetBlockOffset = cc_targetBlockOffset cfg, dx_patchHash = ps_originalPatchHash prepared,
      dx_parentStateRoot = pb_parentStateRoot (ps_parsed prepared), dx_corpusRoot = pn_corpusRoot (cc_expectedEpochPins cfg),
      dx_coreVersionHash = pn_coreVersionHash (cc_expectedEpochPins cfg), dx_hiddenSeedCommit = pn_hiddenSeedCommit (cc_expectedEpochPins cfg),
      dx_minDualPackScorePpm = Some minScore, dx_gateSeedCommit = None, dx_confirmSeedCommit = None\<rparr>"

definition check_proof :: "CoordConfig \<Rightarrow> PreparedSubmit \<Rightarrow> int \<Rightarrow> EvalAccepted \<Rightarrow> unit handler" where
  "check_proof cfg prepared minScore a =
     h_require (validateDualPackProof (ea_evaluationProof a) (dual_pack_expected cfg prepared minScore) = None) ''DUAL_PACK_PROOF_INVALID''"

definition check_accepted :: "CoordConfig \<Rightarrow> PreparedSubmit \<Rightarrow> EvalResult \<Rightarrow> EvalAccepted \<Rightarrow> EvalAccepted handler" where
  "check_accepted cfg prepared res a = (case validateAcceptedEvalResult res of
       Some code \<Rightarrow> rejectSubmission code
     | None \<Rightarrow> h_bind (check_proof cfg prepared (ps_screenerThresholdPpm prepared) a) (\<lambda>_. h_return a))"

fun check_result :: "CoordConfig \<Rightarrow> PreparedSubmit \<Rightarrow> EvalResult \<Rightarrow> EvalAccepted handler" where
  "check_result cfg prepared (EvalReject code) = rejectSubmission code"
| "check_result cfg prepared (EvalScreenerPass a) = check_accepted cfg prepared (EvalScreenerPass a) a"
| "check_result cfg prepared (EvalStateAdvance a s) = check_accepted cfg prepared (EvalStateAdvance a s) a"

text \<open>The mutable context again, after the evaluation that ran outside the mutex.\<close>

definition recheck_context :: "CoordConfig \<Rightarrow> PreparedSubmit \<Rightarrow> bigint chain \<Rightarrow> int handler" where
  "recheck_context cfg prepared epochAtSigning =
     h_bind (h_gets (\<lambda>c. c)) (\<lambda>c.
     h_bind (h_require (map_of (co_submitDedup c) (ps_dedupKey prepared) = None) ''DuplicateCoreTexPatch'') (\<lambda>_.
     h_bind (h_require (\<not> co_frozen c \<and> co_freezeGeneration c = ps_freezeGeneration prepared) ''epoch_cutover_in_progress'') (\<lambda>_.
     h_bind (h_require (toLowerCase (co_liveRoot c) = ps_rootAtEvaluation prepared) ''W02_STALE_PARENT_AT_SIGNING'') (\<lambda>_.
     h_bind guard_baseline (\<lambda>baselinePpm.
     h_bind (case epochAtSigning of
         Inl e \<Rightarrow> h_bind (h_modify (\<lambda>c. c\<lparr>co_signingEnabled := False, co_unhealthyReason := Some EpochCheckFailed\<rparr>))
           (\<lambda>_. rejectSubmission ''CoordUnhealthy'')
       | Inr n \<Rightarrow> h_require (n = cc_epoch cfg) ''CoordEpochMismatch'') (\<lambda>_.
     h_return baselinePpm))))))"

text \<open>The place of the receipt in the miner's chain of receipts: the chain's counter, or the reservation of a receipt that has
  not landed yet. The third component is the number of screener passes to count against the cap.\<close>

definition reserve_index :: "CoordConfig \<Rightarrow> string \<Rightarrow> bool \<Rightarrow> MinerCounters \<Rightarrow> (bigint \<times> string \<times> int) handler" where
  "reserve_index cfg miner isAdvance counters =
     h_bind (h_gets (\<lambda>c. map_of (co_minerChainReservations c) miner)) (\<lambda>reservation.
     h_bind (case reservation of
         None \<Rightarrow> h_return (mc_nextIndex counters, toLowerCase (mc_lastReceiptHash counters))
       | Some r \<Rightarrow>
           if mc_nextIndex counters \<ge> cr_nextIndex r then
             h_bind (h_modify (\<lambda>c. c\<lparr>co_minerChainReservations := AList.delete miner (co_minerChainReservations c)\<rparr>))
               (\<lambda>_. h_return (mc_nextIndex counters, toLowerCase (mc_lastReceiptHash counters)))
           else (case cr_lastReceiptHash r of
               Some h \<Rightarrow> if h \<noteq> [] then h_return (cr_nextIndex r, h) else rejectSubmission ''MinerReceiptChainBusy''
             | None \<Rightarrow> rejectSubmission ''MinerReceiptChainBusy'')) (\<lambda>(solveIndex, prevReceiptHash).
     let inFlight = (case reservation of None \<Rightarrow> 0 | Some r \<Rightarrow> max 0 (cr_nextIndex r - mc_nextIndex counters));
         effectiveScreenerCount = mc_screenersThisEpoch counters + inFlight in
     h_bind (h_require (isAdvance \<or> effectiveScreenerCount < or_else (cc_perMinerScreenerCap cfg) 50) ''CoreTexScreenerCapExceeded'') (\<lambda>_.
     h_return (solveIndex, prevReceiptHash, effectiveScreenerCount))))"

record SignedContent =
  sc_compactPatchBytes :: string
  sc_signedPatchHash :: string
  sc_newStateRoot :: string
  sc_stateWordCount :: int
  sc_scoreBeforePpm :: int
  sc_scoreAfterPpm :: int

text \<open>A screener pass signs the canonical bytes. A state advance is rewritten by the coordinator with the score it has.\<close>

definition advance_content :: "CoordConfig \<Rightarrow> PreparedSubmit \<Rightarrow> EvalAccepted \<Rightarrow> StateAdvanceScores \<Rightarrow> int \<Rightarrow> SignedContent handler" where
  "advance_content cfg prepared a scores liveScreenerThresholdPpm =
     (let decoded = ps_decoded prepared; scoreDelta = num (sx_scoreAfterPpm scores) - num (sx_scoreBeforePpm scores) in
      h_bind (h_gets (effectiveStateAdvanceThresholdPpm cfg)) (\<lambda>threshold.
      let minStateAdvanceDelta = max threshold liveScreenerThresholdPpm in
      h_bind (h_require (minStateAdvanceDelta \<le> scoreDelta) ''W03_DETERMINISTIC_DELTA_TOO_LOW'') (\<lambda>_.
      h_bind (check_proof cfg prepared minStateAdvanceDelta a) (\<lambda>_.
      h_bind (case normalizeHexBytes (sx_rewrittenPatchBytesHex scores) of
          None \<Rightarrow> rejectSubmission ''EVAL_REWRITE_INVALID''
        | Some (hex, bytes) \<Rightarrow> if int (length bytes) > or_else (cc_maxPatchBytes cfg) 256 then rejectSubmission ''EVAL_REWRITE_INVALID''
            else (case decodePatch bytes of Inl e \<Rightarrow> rejectSubmission ''EVAL_REWRITE_INVALID'' | Inr p \<Rightarrow> h_return p)) (\<lambda>rewrittenDecoded.
      h_bind (h_require (patchSemanticsMatchExceptScoreDelta decoded rewrittenDecoded) ''EVAL_REWRITE_INVALID'') (\<lambda>_.
      h_bind (h_try (of_js (encodePatch (decoded\<lparr>scoreDelta := scoreDelta\<rparr>)))) (\<lambda>rewritten.
      let compactPatchBytes = toLowerCase (bytesToHex rewritten) in
      h_bind (h_try (of_js (decodePatch (coord_hexToBytes compactPatchBytes)))) (\<lambda>finalDecoded.
      h_bind (h_try (of_js (applyPatch (ps_parentStateSnapshot prepared) finalDecoded True))) (\<lambda>finalApplied.
      h_bind (case finalApplied of Inl e \<Rightarrow> rejectSubmission (patch_error_code e) | Inr s \<Rightarrow> h_return s) (\<lambda>s.
      h_bind (h_try (of_js (merkleizeState s))) (\<lambda>rt.
      h_return \<lparr>sc_compactPatchBytes = compactPatchBytes, sc_signedPatchHash = toLowerCase (computePatchHash (coord_hexToBytes compactPatchBytes)),
        sc_newStateRoot = toLowerCase (bytesToHex rt), sc_stateWordCount = wordCount finalDecoded,
        sc_scoreBeforePpm = num (sx_scoreBeforePpm scores), sc_scoreAfterPpm = num (sx_scoreAfterPpm scores)\<rparr>)))))))))))"

definition settle_outcome :: "CoordConfig \<Rightarrow> PreparedSubmit \<Rightarrow> EvalResult \<Rightarrow> EvalAccepted \<Rightarrow> int \<Rightarrow> SignedContent handler" where
  "settle_outcome cfg prepared res a baselinePpm =
     h_bind (\<lambda>c. h_try (effectiveScreenerThresholdPpm cfg baselinePpm c) c) (\<lambda>liveScreenerThresholdPpm.
     h_bind (h_require (liveScreenerThresholdPpm \<le> num (ea_deterministicDeltaPpm a)) ''W03_DETERMINISTIC_DELTA_TOO_LOW'') (\<lambda>_.
     case res of
       EvalStateAdvance _ scores \<Rightarrow> advance_content cfg prepared a scores liveScreenerThresholdPpm
     | _ \<Rightarrow> h_return \<lparr>sc_compactPatchBytes = ps_canonicalHex prepared, sc_signedPatchHash = ps_originalPatchHash prepared,
         sc_newStateRoot = pb_parentStateRoot (ps_parsed prepared), sc_stateWordCount = 0, sc_scoreBeforePpm = 0, sc_scoreAfterPpm = 0\<rparr>))"

fun join_bar :: "string list \<Rightarrow> string" where
  "join_bar [] = []"
| "join_bar [s] = s"
| "join_bar (s # ss) = s @ ''|'' @ join_bar ss"

definition hashText :: "string list \<Rightarrow> string" where
  "hashText parts = toLowerCase (bytesToHex (keccak256 (utf8 (join_bar parts))))"

definition worldSeed :: "string \<Rightarrow> bigint \<Rightarrow> string \<Rightarrow> bigint js" where
  "worldSeed miner solveIndex hash =
     (let h = hashText [''coretex-world-v1'', toLowerCase miner, big_string solveIndex, toLowerCase hash]
      in js_BigInt (''0x'' @ take 32 (drop 2 h)))"

definition isLowerBytes32 :: "string \<Rightarrow> bool" where
  "isLowerBytes32 s \<longleftrightarrow> isBytes32 s \<and> list_all (\<lambda>ch. js_lower_char ch = ch) (drop 2 s)"

text \<open>The payload of a receipt; it throws without a configured policy hash, when the work units cannot be computed, and
  on a malformed seed.\<close>

definition build_receipt :: "CoordConfig \<Rightarrow> PreparedSubmit \<Rightarrow> EvalAccepted \<Rightarrow> int \<Rightarrow> bigint \<Rightarrow> string \<Rightarrow> SignedContent \<Rightarrow> int \<Rightarrow> ReceiptPayload chain" where
  "build_receipt cfg prepared a outcome solveIndex prevReceiptHash content difficultyCount =
     (let pins = cc_expectedEpochPins cfg; parent = pb_parentStateRoot (ps_parsed prepared) in
      chain_bind (of_js (computeCoreTexWorkUnitsBps outcome (Some (js_num difficultyCount)) (cc_workPolicy cfg))) (\<lambda>workUnitsBps.
      chain_bind (of_js (worldSeed (pb_miner (ps_parsed prepared)) solveIndex (sc_signedPatchHash content))) (\<lambda>seed.
      chain_bind (case cc_workPolicyHash cfg of None \<Rightarrow> Inl (CoreFault (TypeError ''toLowerCase'')) | Some h \<Rightarrow> Inr h) (\<lambda>policyHash.
      Inr \<lparr>rp_epochId = cc_epoch cfg, rp_solveIndex = solveIndex, rp_prevReceiptHash = prevReceiptHash, rp_outcome = outcome,
        rp_challengeId = hashText [''coretex-challenge-v1'', big_string (cc_epoch cfg), parent, sc_signedPatchHash content],
        rp_parentStateRoot = parent, rp_newStateRoot = sc_newStateRoot content, rp_corpusRoot = toLowerCase (pn_corpusRoot pins),
        rp_activeFrontierRoot = toLowerCase (pn_activeFrontierRoot pins), rp_coreVersionHash = toLowerCase (pn_coreVersionHash pins),
        rp_evalReportHash = toLowerCase (ea_evalReportHash a), rp_patchHash = sc_signedPatchHash content,
        rp_artifactHash = toLowerCase (ea_artifactHash a), rp_worldSeed = seed,
        rp_rulesVersion = or_else (cc_rulesVersion cfg) (wp_rulesVersion DEFAULT_CORETEX_WORK_POLICY),
        rp_workPolicyHash = toLowerCase policyHash, rp_workUnitsBps = workUnitsBps, rp_difficultyCountSnapshot = difficultyCount,
        rp_stateWordCount = sc_stateWordCount content, rp_scoreBeforePpm = sc_scoreBeforePpm content,
        rp_scoreAfterPpm = sc_scoreAfterPpm content, rp_issuedAt = ps_now prepared,
        rp_expiresAt = ps_now prepared + cc_receiptTtlSec cfg, rp_compactPatchBytes = sc_compactPatchBytes content\<rparr>))))"

record FinishView =
  fv_epochAtSigning :: "bigint chain"
  fv_counters :: "MinerCounters chain"
  fv_difficultyCount :: "int chain"

fun is_advance :: "EvalResult \<Rightarrow> bool" where
  "is_advance (EvalStateAdvance _ _) = True"
| "is_advance _ = False"

text \<open>Everything up to the call of the signer: the payload that the signer is asked for, with the counted screener passes.\<close>

definition receipt_to_sign :: "CoordConfig \<Rightarrow> FinishView \<Rightarrow> PreparedSubmit \<Rightarrow> EvalResult \<Rightarrow> (ReceiptPayload \<times> int) handler" where
  "receipt_to_sign cfg v prepared res =
     h_bind (check_result cfg prepared res) (\<lambda>a.
     h_bind (recheck_context cfg prepared (fv_epochAtSigning v)) (\<lambda>baselinePpm.
     h_bind (h_try (fv_counters v)) (\<lambda>counters.
     h_bind (reserve_index cfg (pb_miner (ps_parsed prepared)) (is_advance res) counters) (\<lambda>(solveIndex, prevReceiptHash, screeners).
     h_bind (settle_outcome cfg prepared res a baselinePpm) (\<lambda>content.
     h_bind (h_try (fv_difficultyCount v)) (\<lambda>difficultyCount.
     let outcome = (if is_advance res then OUTCOME_CORETEX_STATE_ADVANCE else OUTCOME_CORETEX_SCREENER_PASS) in
     h_bind (h_try (build_receipt cfg prepared a outcome solveIndex prevReceiptHash content difficultyCount)) (\<lambda>receipt.
     h_bind (h_require (isLowerBytes32 (rp_evalReportHash receipt) \<and> isLowerBytes32 (rp_artifactHash receipt)) ''EVAL_HASH_INVALID'') (\<lambda>_.
     h_return (receipt, screeners)))))))))"

type_synonym signer = "string \<Rightarrow> ReceiptPayload \<Rightarrow> SignedReceipt chain"

definition request_signature :: "signer option \<Rightarrow> string \<Rightarrow> ReceiptPayload \<Rightarrow> SignedReceipt handler" where
  "request_signature signer miner receipt = (case signer of
       None \<Rightarrow> rejectSubmission ''CoordSignerUnavailable''
     | Some sign \<Rightarrow> (case sign miner receipt of
           Inl e \<Rightarrow> h_bind (h_modify (bump (\<lambda>m. m\<lparr>mt_signerFailureCount := mt_signerFailureCount m + 1\<rparr>)))
             (\<lambda>_. rejectSubmission ''SignerFailure'')
         | Inr s \<Rightarrow>
             if \<not> isHex (sg_signature s) \<or> \<not> isHex (sg_transactionData s) then rejectSubmission ''SIGNER_INVALID''
             else if \<not> opt_all isBytes32 (sg_receiptHash s) then rejectSubmission ''SIGNER_INVALID''
             else h_return s))"

definition serializeReceipt :: "ReceiptPayload \<Rightarrow> string \<Rightarrow> (string \<times> ReceiptField) list" where
  "serializeReceipt r signature =
     [(''epochId'', FieldString (big_string (rp_epochId r))), (''solveIndex'', FieldString (big_string (rp_solveIndex r))),
      (''prevReceiptHash'', FieldString (rp_prevReceiptHash r)), (''outcome'', FieldNumber (rp_outcome r)),
      (''challengeId'', FieldString (rp_challengeId r)), (''parentStateRoot'', FieldString (rp_parentStateRoot r)),
      (''newStateRoot'', FieldString (rp_newStateRoot r)), (''corpusRoot'', FieldString (rp_corpusRoot r)),
      (''activeFrontierRoot'', FieldString (rp_activeFrontierRoot r)), (''coreVersionHash'', FieldString (rp_coreVersionHash r)),
      (''evalReportHash'', FieldString (rp_evalReportHash r)), (''patchHash'', FieldString (rp_patchHash r)),
      (''artifactHash'', FieldString (rp_artifactHash r)), (''worldSeed'', FieldString (big_string (rp_worldSeed r))),
      (''rulesVersion'', FieldNumber (rp_rulesVersion r)), (''workPolicyHash'', FieldString (rp_workPolicyHash r)),
      (''workUnitsBps'', FieldString (big_string (rp_workUnitsBps r))),
      (''difficultyCountSnapshot'', FieldString (big_string (rp_difficultyCountSnapshot r))),
      (''stateWordCount'', FieldNumber (rp_stateWordCount r)), (''issuedAt'', FieldNumber (rp_issuedAt r)),
      (''expiresAt'', FieldNumber (rp_expiresAt r)), (''compactPatchBytes'', FieldString (rp_compactPatchBytes r)),
      (''signature'', FieldString (toLowerCase signature))]"

definition cacheReceipt :: "ReceiptEnvelope \<Rightarrow> string \<Rightarrow> core \<Rightarrow> core" where
  "cacheReceipt env originalPatchHash c =
     (let k = toLowerCase (re_patchHash env); cache = AList.update k env (co_receiptCache c)
      in c\<lparr>co_receiptCache := (if toLowerCase originalPatchHash \<noteq> k then AList.update (toLowerCase originalPatchHash) env cache else cache)\<rparr>)"

definition receipt_envelope :: "CoordConfig \<Rightarrow> ReceiptPayload \<Rightarrow> SignedReceipt \<Rightarrow> ReceiptEnvelope" where
  "receipt_envelope cfg r s =
     \<lparr>re_stateAdvance = (rp_outcome r = OUTCOME_CORETEX_STATE_ADVANCE), re_patchHash = rp_patchHash r, re_evalReportHash = rp_evalReportHash r,
      re_workUnitsBps = rp_workUnitsBps r, re_newStateRoot = rp_newStateRoot r, re_transactionTo = toLowerCase (miningContractAddress cfg),
      re_transactionChainId = cc_expectedChainId cfg, re_transactionData = toLowerCase (sg_transactionData s),
      re_issuedAt = rp_issuedAt r, re_expiresAt = rp_expiresAt r\<rparr>"

definition pending_receipt :: "PreparedSubmit \<Rightarrow> ReceiptPayload \<Rightarrow> PendingReceipt" where
  "pending_receipt prepared r =
     \<lparr>pr_originalPatchHash = ps_originalPatchHash prepared, pr_signedPatchHash = rp_patchHash r, pr_parentRoot = rp_parentStateRoot r,
      pr_expectedNewRoot = rp_newStateRoot r, pr_compactPatchBytes = rp_compactPatchBytes r, pr_miner = pb_miner (ps_parsed prepared),
      pr_issuedAt = rp_issuedAt r, pr_expiresAt = rp_expiresAt r, pr_scoreAfterPpm = Some (rp_scoreAfterPpm r), pr_state = st_pending\<rparr>"

text \<open>The bookkeeping of a signed receipt: the miner's counter is reserved, the patch is recorded as signed, a state advance is
  pending, the receipt can be looked up.\<close>

definition commit_receipt :: "CoordConfig \<Rightarrow> PreparedSubmit \<Rightarrow> ReceiptPayload \<Rightarrow> SignedReceipt \<Rightarrow> core \<Rightarrow> core" where
  "commit_receipt cfg prepared r s c =
     (let miner = pb_miner (ps_parsed prepared);
          c = c\<lparr>co_minerChainReservations := AList.update miner \<lparr>cr_nextIndex = rp_solveIndex r + 1,
            cr_lastReceiptHash = map_option toLowerCase (sg_receiptHash s), cr_expiresAt = rp_expiresAt r\<rparr> (co_minerChainReservations c)\<rparr>;
          c = c\<lparr>co_submitDedup := AList.update (ps_dedupKey prepared) (rp_expiresAt r) (co_submitDedup c)\<rparr>;
          c = (if rp_outcome r = OUTCOME_CORETEX_STATE_ADVANCE
            then c\<lparr>co_pendingByPatchHash := AList.update (rp_patchHash r) (pending_receipt prepared r) (co_pendingByPatchHash c)\<rparr> else c)
      in cacheReceipt (receipt_envelope cfg r s) (ps_originalPatchHash prepared) c)"

record Accepted =
  ac_envelope :: ReceiptEnvelope
  ac_perMinerScreenerCount :: int
  ac_perMinerScreenerRemaining :: int
  ac_receipt :: "(string \<times> ReceiptField) list"

definition accepted_response :: "CoordConfig \<Rightarrow> ReceiptPayload \<Rightarrow> SignedReceipt \<Rightarrow> int \<Rightarrow> Accepted" where
  "accepted_response cfg r s screeners =
     (let used = (if rp_outcome r = OUTCOME_CORETEX_SCREENER_PASS then screeners + 1 else screeners)
      in \<lparr>ac_envelope = receipt_envelope cfg r s, ac_perMinerScreenerCount = used,
          ac_perMinerScreenerRemaining = max 0 (or_else (cc_perMinerScreenerCap cfg) 50 - used),
          ac_receipt = or_else (sg_receipt s) (serializeReceipt r (sg_signature s))\<rparr>)"

definition finishSubmitAfterEvaluation :: "CoordConfig \<Rightarrow> signer option \<Rightarrow> FinishView \<Rightarrow> PreparedSubmit \<Rightarrow> EvalResult \<Rightarrow> Accepted handler" where
  "finishSubmitAfterEvaluation cfg signer v prepared res =
     h_bind (receipt_to_sign cfg v prepared res) (\<lambda>(receipt, screeners).
     h_bind (request_signature signer (pb_miner (ps_parsed prepared)) receipt) (\<lambda>s.
     h_bind (h_modify (commit_receipt cfg prepared receipt s)) (\<lambda>_.
     h_return (accepted_response cfg receipt s screeners))))"

text \<open>An evaluator that fails.\<close>

definition evaluator_failed :: "'a handler" where
  "evaluator_failed = h_bind (h_modify (bump (\<lambda>m. m\<lparr>mt_evalFailureCount := mt_evalFailureCount m + 1\<rparr>)))
     (\<lambda>_. rejectSubmission ''EvalFailure'')"

end
