(* ===== verification/Signing.thy ===== *)
theory Signing
  imports Submit
begin

text \<open>
  What the submit path signs. First the rules of handlers and the frame: no handler touches the state that mirrors the
  chain. Then the payload that reaches the signer: it names the live root, its patch bytes hash to its patch
  hash, and a state advance applies to the live state and leads to the announced root. Finally the watcher accepts the
  event of a signed state advance and moves the baseline to the signed score.
\<close>

section \<open>Rules of handlers\<close>

lemma h_bind_Returned: "h_bind m f c = (c', Returned y) \<longleftrightarrow> (\<exists>d x. m c = (d, Returned x) \<and> f x d = (c', Returned y))"
  by (auto simp: h_bind_def split: prod.splits reply.splits)

lemma h_simps [simp]:
  "h_return x c = (c', Returned y) \<longleftrightarrow> c' = c \<and> x = y" "h_gets f c = (c', Returned z) \<longleftrightarrow> c' = c \<and> z = f c"
  "h_modify g c = (c', Returned u) \<longleftrightarrow> c' = g c" "h_try r c = (c', Returned y) \<longleftrightarrow> c' = c \<and> r = Inr y"
  "rejectSubmission code c \<noteq> (c', Returned w)" "h_require b code c = (c', Returned u) \<longleftrightarrow> c' = c \<and> b"
  by (auto simp: h_return_def h_gets_def h_modify_def h_try_def rejectSubmission_def h_require_def Let_def split: sum.splits)

lemma h_case_Returned [simp]:
  "(case r of Inl e \<Rightarrow> rejectSubmission (f e) | Inr x \<Rightarrow> h_return x) c = (c', Returned y) \<longleftrightarrow> c' = c \<and> r = Inr y"
  "(case q of None \<Rightarrow> rejectSubmission code | Some x \<Rightarrow> h_return x) c = (c', Returned y) \<longleftrightarrow> c' = c \<and> q = Some y"
  by (auto split: sum.splits option.splits)

lemmas handler_rules = h_bind_Returned prod.split Let_def

lemma first_failure_None: "first_failure checks = None \<longleftrightarrow> list_all (\<lambda>(failed, _). \<not> failed) checks"
  by (induction checks) (auto simp: first_failure_def)

section \<open>The frame\<close>

text \<open>A projection of the state that sees no metrics, no health and no epoch mismatch is changed by a preparation only through the
  expiry sweep. If it does not see the reservations either, nothing up to the signature changes it.\<close>

locale handler_base =
  fixes proj :: "core \<Rightarrow> 'p"
  assumes metrics [simp]: "proj (bump f c) = proj c"
    and health [simp]: "proj (c\<lparr>co_signingEnabled := b, co_unhealthyReason := w\<rparr>) = proj c"
    and epoch [simp]: "proj (c\<lparr>co_lastEpochMismatch := m\<rparr>) = proj c"
begin

lemma bind: "(\<And>c. proj (fst (m c)) = proj c) \<Longrightarrow> (\<And>x c. proj (fst (f x c)) = proj c) \<Longrightarrow> proj (fst (h_bind m f c)) = proj c"
  by (simp add: h_bind_def split: prod.splits reply.splits) (metis fst_conv)

lemma basic [simp]:
  "proj (fst (h_return x c)) = proj c" "proj (fst (h_gets g c)) = proj c" "proj (fst (h_try r c)) = proj c"
  "proj (fst (rejectSubmission code c)) = proj c" "proj (fst (h_require b code c)) = proj c"
  by (simp_all add: h_return_def h_gets_def h_try_def rejectSubmission_def h_require_def Let_def)

lemma h_modify [simp]: "proj (fst (h_modify g c)) = proj (g c)"
  by (simp add: h_modify_def)

lemma checks [simp]:
  "proj (fst (guard_baseline c)) = proj c" "proj (fst (check_proof cfg ps n a c)) = proj c" "proj (fst (check_accepted cfg ps res a c)) = proj c"
  "proj (fst (guard_signing c)) = proj c"
  unfolding guard_baseline_def check_proof_def check_accepted_def guard_signing_def by (auto intro!: bind simp: check_proof_def split: option.splits)

lemma guard_epoch_frame [simp]: "proj (fst (guard_epoch cfg e c)) = proj c"
  unfolding guard_epoch_def by (auto intro!: bind simp: prod.case_eq_if checkEpochStillCurrent_def Let_def split: sum.splits)

lemma check_result_frame [simp]: "proj (fst (check_result cfg ps res c)) = proj c"
  by (cases res) simp_all

lemma recheck_frame [simp]: "proj (fst (recheck_context cfg ps e c)) = proj c"
  unfolding recheck_context_def by (intro bind basic checks) (auto intro!: bind split: sum.splits)

lemma settle_frame [simp]: "proj (fst (settle_outcome cfg ps res a b c)) = proj c"
  unfolding settle_outcome_def advance_content_def Let_def
  by (intro bind) (auto intro!: bind split: option.splits EvalResult.splits sum.splits)

lemma request_signature_frame: "request_signature sg m r c = (c', x) \<Longrightarrow> proj c' = proj c"
proof -
  have "proj (fst (request_signature sg m r c)) = proj c"
    unfolding request_signature_def by (auto intro!: bind split: option.splits sum.splits)
  then show "request_signature sg m r c = (c', x) \<Longrightarrow> proj c' = proj c" by simp
qed

lemma prepare_frame: "proj (fst (prepareSubmitEvaluation cfg hs now e body c)) = proj (gcPending cfg now c)"
proof -
  let ?rest = "\<lambda>_. h_bind (h_gets co_frozen) (\<lambda>frozen. h_bind (h_require (\<not> frozen) ''epoch_cutover_in_progress'') (\<lambda>_. h_bind (guard_epoch cfg e) (\<lambda>_.
     h_bind guard_signing (\<lambda>_. h_bind (h_require hs ''CoordSignerUnavailable'') (\<lambda>_. h_bind guard_baseline (\<lambda>baselinePpm.
     h_bind (\<lambda>c. h_try (effectiveScreenerThresholdPpm cfg baselinePpm c) c) (\<lambda>th.
     h_bind (case parseSubmitBody body (or_else (cc_maxPatchBytes cfg) 256) of Inl code \<Rightarrow> rejectSubmission code | Inr p \<Rightarrow> h_return p)
       (prepare_patch now th))))))))"
  have "proj (fst (?rest () d)) = proj d" for d
    unfolding prepare_patch_def Let_def by (intro bind) (auto intro!: bind split: sum.splits)
  moreover have "prepareSubmitEvaluation cfg hs now e body c = ?rest () (gcPending cfg now c)"
    by (simp add: prepareSubmitEvaluation_def h_bind_def [of "h_modify _"] h_modify_def)
  ultimately show ?thesis by simp
qed

end

locale handler_frame = handler_base +
  assumes reservations [simp]: "proj (c\<lparr>co_minerChainReservations := rs\<rparr>) = proj c"
begin

lemma reserve_frame [simp]: "proj (fst (reserve_index cfg m adv k c)) = proj c"
  unfolding reserve_index_def Let_def by (intro bind) (auto intro!: bind split: option.splits)

lemma receipt_to_sign_frame: "receipt_to_sign cfg v ps res c = (c', r) \<Longrightarrow> proj c' = proj c"
proof -
  have "proj (fst (receipt_to_sign cfg v ps res c)) = proj c"
    unfolding receipt_to_sign_def Let_def by (intro bind) (auto intro!: bind)
  then show "receipt_to_sign cfg v ps res c = (c', r) \<Longrightarrow> proj c' = proj c" by simp
qed

end

interpretation mirror: handler_frame chain_part
  by unfold_locales simp_all

text \<open>The other fields that the submit path reads: the records of signed receipts, the baselines and the freeze.\<close>

definition records :: "core \<Rightarrow> _" where
  "records c = (co_submitDedup c, co_pendingByPatchHash c, co_receiptCache c, co_baselineByRoot c, co_currentBaselineVariancePpm c,
     co_frozen c, co_freezeGeneration c)"

interpretation book: handler_frame records
  by unfold_locales (simp_all add: records_def bump_def)

interpretation held: handler_base co_minerChainReservations
  by unfold_locales (simp_all add: bump_def)

section \<open>Prepared submissions\<close>

definition zero_delta :: "Patch \<Rightarrow> Patch" where
  "zero_delta p = p\<lparr>scoreDelta := 0\<rparr>"

text \<open>What holds of a prepared submission whatever happens to the core during the evaluation.\<close>

definition prepared_ok :: "PreparedSubmit \<Rightarrow> bool" where
  "prepared_ok ps \<longleftrightarrow> root_of (ps_parentStateSnapshot ps) (ps_rootAtEvaluation ps) \<and>
     pb_parentStateRoot (ps_parsed ps) = ps_rootAtEvaluation ps \<and> wire_ok (ps_decoded ps) \<and> list_all u256 (newWords (ps_decoded ps)) \<and>
     (\<exists>s. applyPatch (ps_parentStateSnapshot ps) (ps_decoded ps) True = Inr (Inr s)) \<and>
     ps_canonicalHex ps = bytesToHex (patch_bytes (zero_delta (ps_decoded ps))) \<and>
     ps_originalPatchHash ps = computePatchHash (patch_bytes (zero_delta (ps_decoded ps))) \<and>
     ps_dedupKey ps = dedup_key (ps_rootAtEvaluation ps) (ps_originalPatchHash ps)"

lemma wire_ok_delta: "wire_ok p \<Longrightarrow> 0 \<le> d \<Longrightarrow> d < 2 ^ 63 \<Longrightarrow> encodePatch (p\<lparr>scoreDelta := d\<rparr>) = Inr (patch_bytes (p\<lparr>scoreDelta := d\<rparr>))"
  by (intro encodePatch_ok wire_ok_score)

lemma prepare_patch_ok:
  assumes "root_of (co_liveState c) (co_liveRoot c)" "prepare_patch now th parsed c = (c', Returned ps)"
  shows "c' = c \<and> prepared_ok ps \<and> ps_rootAtEvaluation ps = co_liveRoot c \<and> ps_parentStateSnapshot ps = co_liveState c \<and>
    ps_freezeGeneration ps = co_freezeGeneration c \<and> ps_now ps = now \<and> ps_parsed ps = parsed \<and> ps_screenerThresholdPpm ps = th \<and>
    decodePatch (pb_patchBytes parsed) = Inr (ps_decoded ps) \<and> map_of (co_submitDedup c) (ps_dedupKey ps) = None"
proof -
  have low: "toLowerCase (co_liveRoot c) = co_liveRoot c" using assms(1) by simp
  from assms(2) obtain decoded s cb where d: "decodePatch (pb_patchBytes parsed) = Inr decoded" "pb_parentStateRoot parsed = co_liveRoot c"
      "applyPatch (co_liveState c) decoded True = Inr (Inr s)" "encodePatch (decoded\<lparr>scoreDelta := 0\<rparr>) = Inr cb" "c' = c"
      "ps = \<lparr>ps_now = now, ps_parsed = parsed, ps_decoded = decoded, ps_canonicalHex = toLowerCase (bytesToHex cb),
        ps_originalPatchHash = computePatchHash cb, ps_dedupKey = pb_parentStateRoot parsed @ ''|'' @ computePatchHash cb, ps_screenerThresholdPpm = th,
        ps_rootAtEvaluation = co_liveRoot c, ps_parentStateSnapshot = co_liveState c, ps_freezeGeneration = co_freezeGeneration c\<rparr>"
      "map_of (co_submitDedup c) (ps_dedupKey ps) = None"
    unfolding prepare_patch_def by (auto simp: h_bind_Returned low Let_def)
  note wire = decodePatch_spelling(1) [OF d(1)]
  have cb: "cb = patch_bytes (zero_delta decoded)" using d(4) wire_ok_delta [OF wire, of 0] by (simp add: zero_delta_def)
  show ?thesis
    unfolding prepared_ok_def using assms(1) d wire decodePatch_u256 [OF d(1)] cb low by (simp add: dedup_key_def)
qed

lemma guard_epoch_Returned:
  "guard_epoch cfg e c = (c', Returned u) \<longleftrightarrow> e = Inr (cc_epoch cfg) \<and> c' = c\<lparr>co_lastEpochMismatch := None\<rparr>"
  by (auto simp: guard_epoch_def h_bind_Returned checkEpochStillCurrent_def Let_def split: sum.splits if_splits)

lemma guard_signing_Returned: "guard_signing c = (c', Returned u) \<longleftrightarrow> co_signingEnabled c \<and> c' = c"
  by (auto simp: guard_signing_def h_bind_Returned)

lemma guard_baseline_Returned: "guard_baseline c = (c', Returned b) \<longleftrightarrow> effectiveBaselinePpm c = Some b \<and> c' = c"
  by (auto simp: guard_baseline_def h_bind_Returned)

lemma threshold_frame [simp]:
  "effectiveScreenerThresholdPpm cfg b (c\<lparr>co_lastEpochMismatch := x\<rparr>) = effectiveScreenerThresholdPpm cfg b c"
  by (simp add: effectiveScreenerThresholdPpm_def effectiveStateAdvanceThresholdPpm_def)

text \<open>A prepared submission was admitted by a core that is not frozen, signs, knows the epoch and has a baseline for its root.\<close>

lemma prepared_sound:
  assumes "core_inv c" "prepareSubmitEvaluation cfg hs now e body c = (c', Returned ps)"
  shows "prepared_ok ps" "chain_part c' = chain_part c" "ps_rootAtEvaluation ps = co_liveRoot c" "ps_parentStateSnapshot ps = co_liveState c"
    "c' = (gcPending cfg now c)\<lparr>co_lastEpochMismatch := None\<rparr>" "ps_now ps = now" "ps_freezeGeneration ps = co_freezeGeneration c'"
    "\<not> co_frozen c'" "co_signingEnabled c'" "hs" "e = Inr (cc_epoch cfg)" "map_of (co_submitDedup c') (ps_dedupKey ps) = None"
    "\<exists>b. effectiveBaselinePpm c' = Some b \<and> effectiveScreenerThresholdPpm cfg b c' = Inr (ps_screenerThresholdPpm ps)"
    "parseSubmitBody body (or_else (cc_maxPatchBytes cfg) 256) = Inr (ps_parsed ps)" "decodePatch (pb_patchBytes (ps_parsed ps)) = Inr (ps_decoded ps)"
proof -
  define d where "d = (gcPending cfg now c)\<lparr>co_lastEpochMismatch := None\<rparr>"
  have part: "chain_part d = chain_part c" by (simp add: d_def)
  have root: "root_of (co_liveState d) (co_liveRoot d)" using core_invD(1) assms(1) core_inv_cong [OF part] by blast
  have fz: "co_frozen d = co_frozen (gcPending cfg now c)" "co_signingEnabled d = co_signingEnabled (gcPending cfg now c)" by (simp_all add: d_def)
  from assms(2) obtain b th parsed where p: "prepare_patch now th parsed d = (c', Returned ps)" "\<not> co_frozen d" "co_signingEnabled d" "hs" "e = Inr (cc_epoch cfg)"
      "effectiveBaselinePpm d = Some b" "effectiveScreenerThresholdPpm cfg b d = Inr th" "parseSubmitBody body (or_else (cc_maxPatchBytes cfg) 256) = Inr parsed"
    unfolding prepareSubmitEvaluation_def h_bind_Returned h_simps h_case_Returned guard_epoch_Returned guard_signing_Returned guard_baseline_Returned fz
    by (auto simp: d_def)
  note ok = prepare_patch_ok [OF root p(1)]
  show "prepared_ok ps" "chain_part c' = chain_part c" "ps_rootAtEvaluation ps = co_liveRoot c" "ps_parentStateSnapshot ps = co_liveState c"
    "c' = (gcPending cfg now c)\<lparr>co_lastEpochMismatch := None\<rparr>" "ps_now ps = now" "ps_freezeGeneration ps = co_freezeGeneration c'"
    "\<not> co_frozen c'" "co_signingEnabled c'" "hs" "e = Inr (cc_epoch cfg)" "map_of (co_submitDedup c') (ps_dedupKey ps) = None"
    "\<exists>b. effectiveBaselinePpm c' = Some b \<and> effectiveScreenerThresholdPpm cfg b c' = Inr (ps_screenerThresholdPpm ps)"
    "parseSubmitBody body (or_else (cc_maxPatchBytes cfg) 256) = Inr (ps_parsed ps)" "decodePatch (pb_patchBytes (ps_parsed ps)) = Inr (ps_decoded ps)"
    using ok p part chain_part_eqD(1,2) [OF part] by (simp_all add: d_def)
qed

section \<open>The payload that is signed\<close>

declare coord_hexToBytes_bytesToHex [simp]

lemma advance_content_Returned:
  assumes "prepared_ok ps" "advance_content cfg ps a scores th c = (c', Returned ct)"
    "dlt = num (sx_scoreAfterPpm scores) - num (sx_scoreBeforePpm scores)" "p = (ps_decoded ps)\<lparr>scoreDelta := dlt\<rparr>"
  shows "\<exists>s rt. c' = c \<and> max (effectiveStateAdvanceThresholdPpm cfg c) th \<le> dlt \<and>
      validateDualPackProof (ea_evaluationProof a) (dual_pack_expected cfg ps (max (effectiveStateAdvanceThresholdPpm cfg c) th)) = None \<and>
      applyPatch (ps_parentStateSnapshot ps) p True = Inr (Inr s) \<and> merkleizeState s = Inr rt \<and>
      decodePatch (patch_bytes p) = Inr p \<and>
      ct = \<lparr>sc_compactPatchBytes = bytesToHex (patch_bytes p), sc_signedPatchHash = computePatchHash (patch_bytes p),
        sc_newStateRoot = bytesToHex rt, sc_stateWordCount = wordCount p,
        sc_scoreBeforePpm = num (sx_scoreBeforePpm scores), sc_scoreAfterPpm = num (sx_scoreAfterPpm scores)\<rparr>"
proof -
  from assms(2) obtain bs q s rt where q: "c' = c" "max (effectiveStateAdvanceThresholdPpm cfg c) th \<le> dlt"
      "validateDualPackProof (ea_evaluationProof a) (dual_pack_expected cfg ps (max (effectiveStateAdvanceThresholdPpm cfg c) th)) = None"
      "encodePatch p = Inr bs" "decodePatch bs = Inr q" "applyPatch (ps_parentStateSnapshot ps) q True = Inr (Inr s)" "merkleizeState s = Inr rt"
      "ct = \<lparr>sc_compactPatchBytes = bytesToHex bs, sc_signedPatchHash = computePatchHash bs, sc_newStateRoot = bytesToHex rt, sc_stateWordCount = wordCount q,
        sc_scoreBeforePpm = num (sx_scoreBeforePpm scores), sc_scoreAfterPpm = num (sx_scoreAfterPpm scores)\<rparr>"
    unfolding advance_content_def check_proof_def Let_def h_bind_Returned assms(3,4)
    by (auto split: option.splits prod.splits if_splits sum.splits)
  have wire: "wire_ok p" by (rule encodePatch_Inr [OF q(4)])
  have bs: "bs = patch_bytes p" using q(4) encodePatch_ok [OF wire] by simp
  have "decodePatch (patch_bytes p) = Inr p" using assms(1,4) by (intro decodePatch_patch_bytes [OF wire]) (simp add: prepared_ok_def)
  then show ?thesis using q bs by simp
qed

text \<open>What is signed for a prepared submission: the outcome, the bytes and the root they lead to.\<close>

definition content_ok :: "CoordConfig \<Rightarrow> PreparedSubmit \<Rightarrow> EvalAccepted \<Rightarrow> bool \<Rightarrow> int \<Rightarrow> core \<Rightarrow> SignedContent \<Rightarrow> bool" where
  "content_ok cfg ps a adv th c ct \<longleftrightarrow>
     (let p = (ps_decoded ps)\<lparr>scoreDelta := sc_scoreAfterPpm ct - sc_scoreBeforePpm ct\<rparr> in
      sc_compactPatchBytes ct = bytesToHex (patch_bytes p) \<and> sc_signedPatchHash ct = computePatchHash (patch_bytes p) \<and>
      decodePatch (patch_bytes p) = Inr p \<and>
      (if adv then max (effectiveStateAdvanceThresholdPpm cfg c) th \<le> sc_scoreAfterPpm ct - sc_scoreBeforePpm ct \<and>
         validateDualPackProof (ea_evaluationProof a) (dual_pack_expected cfg ps (max (effectiveStateAdvanceThresholdPpm cfg c) th)) = None \<and>
         sc_stateWordCount ct = wordCount p \<and>
         (\<exists>s rt. applyPatch (ps_parentStateSnapshot ps) p True = Inr (Inr s) \<and> merkleizeState s = Inr rt \<and> sc_newStateRoot ct = bytesToHex rt)
       else sc_newStateRoot ct = ps_rootAtEvaluation ps \<and> sc_stateWordCount ct = 0 \<and> sc_scoreBeforePpm ct = 0 \<and> sc_scoreAfterPpm ct = 0))"

lemma prepared_canonical:
  assumes "prepared_ok ps"
  shows "decodePatch (patch_bytes ((ps_decoded ps)\<lparr>scoreDelta := 0\<rparr>)) = Inr ((ps_decoded ps)\<lparr>scoreDelta := 0\<rparr>)"
  using assms by (intro decodePatch_patch_bytes wire_ok_score) (simp_all add: prepared_ok_def)

lemma settle_outcome_Returned:
  assumes "prepared_ok ps" "settle_outcome cfg ps res a b c = (c', Returned ct)" "\<not> (\<exists>code. res = EvalReject code)"
  shows "c' = c \<and> (\<exists>th. effectiveScreenerThresholdPpm cfg b c = Inr th \<and> th \<le> num (ea_deterministicDeltaPpm a) \<and> content_ok cfg ps a (is_advance res) th c ct) \<and>
    (\<forall>a' s. res = EvalStateAdvance a' s \<longrightarrow> sc_scoreBeforePpm ct = num (sx_scoreBeforePpm s) \<and> sc_scoreAfterPpm ct = num (sx_scoreAfterPpm s))"
proof -
  from assms(2) obtain th where th: "effectiveScreenerThresholdPpm cfg b c = Inr th" "th \<le> num (ea_deterministicDeltaPpm a)"
      and run: "(case res of EvalStateAdvance _ scores \<Rightarrow> advance_content cfg ps a scores th
        | _ \<Rightarrow> h_return \<lparr>sc_compactPatchBytes = ps_canonicalHex ps, sc_signedPatchHash = ps_originalPatchHash ps,
         sc_newStateRoot = pb_parentStateRoot (ps_parsed ps), sc_stateWordCount = 0, sc_scoreBeforePpm = 0, sc_scoreAfterPpm = 0\<rparr>) c = (c', Returned ct)"
    unfolding settle_outcome_def by (auto simp: h_bind_Returned)
  show ?thesis
  proof (cases res)
    case (EvalScreenerPass a')
    then show ?thesis
      using run th assms(1) prepared_canonical [OF assms(1)] by (auto simp: content_ok_def prepared_ok_def Let_def zero_delta_def)
  next
    case (EvalStateAdvance a' scores)
    then have adv: "advance_content cfg ps a scores th c = (c', Returned ct)" using run by simp
    from advance_content_Returned [OF assms(1) adv refl refl] show ?thesis
      using th EvalStateAdvance by (auto simp: content_ok_def Let_def)
  qed (use assms(3) in simp)
qed

lemma reserve_index_Returned:
  assumes "reserve_index cfg m adv k c = (c', Returned (i, h, n))"
  shows "case map_of (co_minerChainReservations c) m of
      None \<Rightarrow> i = mc_nextIndex k \<and> c' = c
    | Some r \<Rightarrow> if cr_nextIndex r \<le> mc_nextIndex k then i = mc_nextIndex k \<and> c' = c\<lparr>co_minerChainReservations := AList.delete m (co_minerChainReservations c)\<rparr>
        else i = cr_nextIndex r \<and> cr_lastReceiptHash r = Some h \<and> c' = c"
  using assms unfolding reserve_index_def by (auto simp: h_bind_Returned Let_def split: option.splits if_splits)

lemma recheck_context_Returned:
  "recheck_context cfg ps e c = (c', Returned b) \<longleftrightarrow> c' = c \<and> map_of (co_submitDedup c) (ps_dedupKey ps) = None \<and> \<not> co_frozen c \<and>
     co_freezeGeneration c = ps_freezeGeneration ps \<and> toLowerCase (co_liveRoot c) = ps_rootAtEvaluation ps \<and>
     effectiveBaselinePpm c = Some b \<and> e = Inr (cc_epoch cfg)"
  by (auto simp: recheck_context_def h_bind_Returned guard_baseline_Returned split: sum.splits)

lemma check_result_Returned:
  "check_result cfg ps res c = (c', Returned a) \<Longrightarrow> c' = c \<and> \<not> (\<exists>code. res = EvalReject code) \<and> validateAcceptedEvalResult res = None \<and>
     validateDualPackProof (ea_evaluationProof a) (dual_pack_expected cfg ps (ps_screenerThresholdPpm ps)) = None \<and>
     (res = EvalScreenerPass a \<or> (\<exists>s. res = EvalStateAdvance a s))"
  by (cases res) (auto simp: check_accepted_def check_proof_def h_bind_Returned split: option.splits)

lemma write_words_score: "write_words (p\<lparr>scoreDelta := d\<rparr>) is ws = write_words p is ws"
  by (induction "is" arbitrary: ws) (auto simp: Let_def split: option.splits)

lemma score_irrelevant [simp]:
  "patchTouchesHeader (p\<lparr>scoreDelta := d\<rparr>) = patchTouchesHeader p" "policyWriteIsCanonical (p\<lparr>scoreDelta := d\<rparr>) = policyWriteIsCanonical p"
  "any_change s (p\<lparr>scoreDelta := d\<rparr>) = any_change s p"
  by (simp_all add: patchTouchesHeader_def policyWriteIsCanonical_def any_change_def)

lemma policy_score [simp]: "policyWriteIsCanonicalForState s (p\<lparr>scoreDelta := d\<rparr>) = policyWriteIsCanonicalForState s p"
  by (simp add: policyWriteIsCanonicalForState_def)

lemma check_score [simp]: "write_and_check s (p\<lparr>scoreDelta := d\<rparr>) m = write_and_check s p m"
  by (simp add: write_and_check_def write_words_score)

lemma applyPatch_score [simp]: "applyPatch s (p\<lparr>scoreDelta := d\<rparr>) m = applyPatch s p m"
  unfolding applyPatch_def check_score score_irrelevant policy_score by simp

text \<open>The payload is about the live state: it names its root, its bytes hash to its patch hash and carry its score, the patch
  applies, and the announced root is the root of the result (of a screener pass, the unchanged root).\<close>

definition receipt_applies :: "CoordConfig \<Rightarrow> CortexState \<Rightarrow> ReceiptPayload \<Rightarrow> bool" where
  "receipt_applies cfg live r \<longleftrightarrow> root_of live (rp_parentStateRoot r) \<and>
     (\<exists>p s rt. decodePatch (coord_hexToBytes (rp_compactPatchBytes r)) = Inr p \<and>
        rp_patchHash r = computePatchHash (coord_hexToBytes (rp_compactPatchBytes r)) \<and>
        scoreDelta p = rp_scoreAfterPpm r - rp_scoreBeforePpm r \<and> applyPatch live p True = Inr (Inr s) \<and> merkleizeState s = Inr rt \<and>
        (if rp_outcome r = OUTCOME_CORETEX_STATE_ADVANCE then rp_newStateRoot r = bytesToHex rt \<and> rp_stateWordCount r = wordCount p
         else rp_outcome r = OUTCOME_CORETEX_SCREENER_PASS \<and> rp_newStateRoot r = rp_parentStateRoot r \<and> rp_stateWordCount r = 0 \<and> scoreDelta p = 0))"

text \<open>The gates that a payload has passed in the state in which it is built: the thresholds of the live baseline, and everything
  else.\<close>

definition thresholds_cleared :: "CoordConfig \<Rightarrow> PreparedSubmit \<Rightarrow> EvalResult \<Rightarrow> core \<Rightarrow> ReceiptPayload \<Rightarrow> int \<Rightarrow> int \<Rightarrow> EvalAccepted \<Rightarrow> bool" where
  "thresholds_cleared cfg ps res c r b th a \<longleftrightarrow> effectiveBaselinePpm c = Some b \<and> effectiveScreenerThresholdPpm cfg b c = Inr th \<and>
     th \<le> num (ea_deterministicDeltaPpm a) \<and> validateDualPackProof (ea_evaluationProof a) (dual_pack_expected cfg ps (ps_screenerThresholdPpm ps)) = None \<and>
     (if rp_outcome r = OUTCOME_CORETEX_STATE_ADVANCE
      then (\<exists>s. res = EvalStateAdvance a s) \<and> max (effectiveStateAdvanceThresholdPpm cfg c) th \<le> rp_scoreAfterPpm r - rp_scoreBeforePpm r \<and>
        num (ea_deterministicDeltaPpm a) = rp_scoreAfterPpm r - rp_scoreBeforePpm r \<and>
        validateDualPackProof (ea_evaluationProof a) (dual_pack_expected cfg ps (max (effectiveStateAdvanceThresholdPpm cfg c) th)) = None
      else res = EvalScreenerPass a)"

definition gates_passed :: "CoordConfig \<Rightarrow> FinishView \<Rightarrow> PreparedSubmit \<Rightarrow> EvalResult \<Rightarrow> core \<Rightarrow> ReceiptPayload \<Rightarrow> bool" where
  "gates_passed cfg v ps res c r \<longleftrightarrow> fv_epochAtSigning v = Inr (cc_epoch cfg) \<and> rp_epochId r = cc_epoch cfg \<and> \<not> co_frozen c \<and>
     co_freezeGeneration c = ps_freezeGeneration ps \<and> rp_parentStateRoot r = co_liveRoot c \<and> map_of (co_submitDedup c) (ps_dedupKey ps) = None \<and>
     rp_expiresAt r = ps_now ps + cc_receiptTtlSec cfg \<and> (\<exists>b th a. thresholds_cleared cfg ps res c r b th a) \<and>
     rp_corpusRoot r = toLowerCase (pn_corpusRoot (cc_expectedEpochPins cfg)) \<and>
     rp_activeFrontierRoot r = toLowerCase (pn_activeFrontierRoot (cc_expectedEpochPins cfg)) \<and>
     rp_coreVersionHash r = toLowerCase (pn_coreVersionHash (cc_expectedEpochPins cfg)) \<and>
     (\<exists>k. fv_difficultyCount v = Inr k \<and> computeCoreTexWorkUnitsBps (rp_outcome r) (Some (js_num k)) (cc_workPolicy cfg) = Inr (rp_workUnitsBps r))"

lemma applied_root:
  assumes "prepared_ok ps"
  shows "\<exists>s rt. applyPatch (ps_parentStateSnapshot ps) (ps_decoded ps) True = Inr (Inr s) \<and> merkleizeState s = Inr rt"
proof -
  obtain s where s: "applyPatch (ps_parentStateSnapshot ps) (ps_decoded ps) True = Inr (Inr s)" and wf: "wf_state (ps_parentStateSnapshot ps)"
      and dec: "decodePatch (patch_bytes (ps_decoded ps)) = Inr (ps_decoded ps)"
    using assms decodePatch_patch_bytes by (auto simp: prepared_ok_def root_of_def)
  note root = merkleizeState_eq [OF wf_state_length [OF wf]]
  have "wf_state s" by (rule applied_wf [OF wf dec]) (use s applyPatch_accepts [OF wf_state_length [OF wf] root] in blast)
  then show ?thesis using s merkleizeState_eq [OF wf_state_length] by blast
qed

lemma receipt_to_sign_Returned:
  assumes "prepared_ok ps" "toLowerCase (co_liveRoot c) = co_liveRoot c" "receipt_to_sign cfg v ps res c = (c', Returned (r, n))"
  shows "gates_passed cfg v ps res c r \<and> receipt_applies cfg (ps_parentStateSnapshot ps) r \<and>
    (\<exists>k i h. fv_counters v = Inr k \<and> reserve_index cfg (pb_miner (ps_parsed ps)) (is_advance res) k c = (c', Returned (i, h, n)) \<and>
       rp_solveIndex r = i \<and> rp_prevReceiptHash r = h)"
proof -
  from assms(3) obtain a b k i h ct dc d where
      chk: "check_result cfg ps res c = (c, Returned a)" "recheck_context cfg ps (fv_epochAtSigning v) c = (c, Returned b)" and k: "fv_counters v = Inr k"
      and ix: "reserve_index cfg (pb_miner (ps_parsed ps)) (is_advance res) k c = (d, Returned (i, h, n))"
      and ct: "settle_outcome cfg ps res a b d = (c', Returned ct)"
      and r: "build_receipt cfg ps a (if is_advance res then 2 else 1) i h ct dc = Inr r" and dc: "fv_difficultyCount v = Inr dc"
    unfolding receipt_to_sign_def
    by (auto simp: h_bind_Returned Let_def split: prod.splits dest: check_result_Returned) (metis check_result_Returned recheck_context_Returned)
  note res = check_result_Returned [OF chk(1)] and ctx = chk(2) [unfolded recheck_context_Returned]
  have same: "records d = records c" using book.reserve_frame [of cfg "pb_miner (ps_parsed ps)" "is_advance res" k c] ix by simp
  have live: "chain_part d = chain_part c" using mirror.reserve_frame [of cfg "pb_miner (ps_parsed ps)" "is_advance res" k c] ix by simp
  have scores: "res = EvalStateAdvance a' s \<Longrightarrow> sc_scoreBeforePpm ct = num (sx_scoreBeforePpm s) \<and> sc_scoreAfterPpm ct = num (sx_scoreAfterPpm s)" for a' s
    using settle_outcome_Returned [OF assms(1) ct] res by blast
  obtain th where th: "c' = d" "effectiveScreenerThresholdPpm cfg b d = Inr th" "th \<le> num (ea_deterministicDeltaPpm a)" "content_ok cfg ps a (is_advance res) th d ct"
    using settle_outcome_Returned [OF assms(1) ct] res by blast
  have thr: "effectiveScreenerThresholdPpm cfg b d = effectiveScreenerThresholdPpm cfg b c"
      "effectiveStateAdvanceThresholdPpm cfg d = effectiveStateAdvanceThresholdPpm cfg c"
    using same by (simp_all add: effectiveScreenerThresholdPpm_def effectiveStateAdvanceThresholdPpm_def records_def)
  have fields: "rp_epochId r = cc_epoch cfg" "rp_parentStateRoot r = ps_rootAtEvaluation ps" "rp_outcome r = (if is_advance res then 2 else 1)"
      "rp_newStateRoot r = sc_newStateRoot ct" "rp_patchHash r = sc_signedPatchHash ct" "rp_compactPatchBytes r = sc_compactPatchBytes ct"
      "rp_stateWordCount r = sc_stateWordCount ct" "rp_scoreBeforePpm r = sc_scoreBeforePpm ct" "rp_scoreAfterPpm r = sc_scoreAfterPpm ct"
      "rp_expiresAt r = ps_now ps + cc_receiptTtlSec cfg" "rp_solveIndex r = i" "rp_prevReceiptHash r = h"
      "rp_corpusRoot r = toLowerCase (pn_corpusRoot (cc_expectedEpochPins cfg))"
      "rp_activeFrontierRoot r = toLowerCase (pn_activeFrontierRoot (cc_expectedEpochPins cfg))"
      "rp_coreVersionHash r = toLowerCase (pn_coreVersionHash (cc_expectedEpochPins cfg))"
      "computeCoreTexWorkUnitsBps (rp_outcome r) (Some (js_num dc)) (cc_workPolicy cfg) = Inr (rp_workUnitsBps r)"
    using r assms(1) by (auto simp: build_receipt_def Let_def chain_bind_Inr prepared_ok_def)
  have "thresholds_cleared cfg ps res c r b th a"
  proof (cases "is_advance res")
    case True
    then obtain sx where sx: "res = EvalStateAdvance a sx" using res by (cases res) auto
    then have "num (ea_deterministicDeltaPpm a) = rp_scoreAfterPpm r - rp_scoreBeforePpm r"
      using res scores fields by (simp add: first_failure_None Let_def)
    then show ?thesis using th ctx res sx fields thr by (simp add: thresholds_cleared_def content_ok_def Let_def)
  qed (use th ctx res fields thr in \<open>auto simp: thresholds_cleared_def\<close>)
  then have gates: "gates_passed cfg v ps res c r" unfolding gates_passed_def using fields ctx assms(2) dc by auto
  obtain s rt where s: "applyPatch (ps_parentStateSnapshot ps) (ps_decoded ps) True = Inr (Inr s)" "merkleizeState s = Inr rt"
    using applied_root [OF assms(1)] by blast
  have "receipt_applies cfg (ps_parentStateSnapshot ps) r"
    using th(4) s assms(1) fields by (auto simp: receipt_applies_def content_ok_def prepared_ok_def Let_def split: if_splits)
  then show ?thesis using gates k ix fields(11,12) th(1) by blast
qed

lemma receipt_sound:
  assumes "core_inv c0" "prepareSubmitEvaluation cfg hs now e body c0 = (c1, Returned ps)" "core_inv c"
    "receipt_to_sign cfg v ps res c = (c2, Returned (r, n))"
  shows "gates_passed cfg v ps res c r \<and> co_liveRoot c = co_liveRoot c0 \<and> chain_part c2 = chain_part c \<and>
    (receipt_applies cfg (co_liveState c) r \<or> collision_between (hash_inputs (co_liveState c0)) (hash_inputs (co_liveState c)))"
proof -
  note prep = prepared_sound [OF assms(1,2)]
  have low: "toLowerCase (co_liveRoot c) = co_liveRoot c" using core_lower(2) assms(3) by blast
  note rts = receipt_to_sign_Returned [OF prep(1) low assms(4)]
  have roots: "co_liveRoot c = co_liveRoot c0"
    using rts prep(4) root_of_inj [OF _ core_invD(1) [OF assms(1)]] by (auto simp: gates_passed_def receipt_applies_def)
  have "merkleizeState (co_liveState c0) = merkleizeState (co_liveState c)" "wf_state (co_liveState c0)" "wf_state (co_liveState c)"
    using core_invD(1) [OF assms(1)] core_invD(1) [OF assms(3)] roots by (auto simp: root_of_def bytesToHex_inj)
  then have "co_liveState c0 = co_liveState c \<or> collision_between (hash_inputs (co_liveState c0)) (hash_inputs (co_liveState c))"
    using state_root_binds by blast
  then show ?thesis using rts roots prep(4) mirror.receipt_to_sign_frame [OF assms(4)] by auto
qed


section \<open>From the signature to the chain\<close>

lemma foldl_update_same:
  "(\<And>x. x \<in> set xs \<Longrightarrow> f x = Some v) \<Longrightarrow> xs \<noteq> [] \<Longrightarrow>
    map_of (foldl (\<lambda>b x. case f x of None \<Rightarrow> b | Some s \<Rightarrow> AList.update k s b) al xs) k = Some v"
  by (induction xs rule: rev_induct) (auto simp: update_conv')

lemma settle_confirms:
  assumes "receipts_inv c" "map_of (co_pendingByPatchHash c) (toLowerCase (ev_patchHash ev)) = Some p" "pr_state p = st_pending"
    "toLowerCase (pr_parentRoot p) = toLowerCase (ev_parent ev)" "toLowerCase (pr_signedPatchHash p) = toLowerCase (ev_patchHash ev)"
    "pr_scoreAfterPpm p = Some score"
  shows "map_of (co_pendingByPatchHash (settle_receipts ev r c)) (toLowerCase (ev_patchHash ev)) = Some (p\<lparr>pr_state := st_confirmed\<rparr>)"
    "map_of (co_baselineByRoot (settle_receipts ev r c)) r = Some score"
proof -
  let ?confirmed = "filter (\<lambda>p. pr_state p = st_pending \<and> pr_state (settle_pending ev p) = st_confirmed) (map snd (co_pendingByPatchHash c))"
  have set: "settle_pending ev p = p\<lparr>pr_state := st_confirmed\<rparr>" using assms by (simp add: settle_pending_def)
  show "map_of (co_pendingByPatchHash (settle_receipts ev r c)) (toLowerCase (ev_patchHash ev)) = Some (p\<lparr>pr_state := st_confirmed\<rparr>)"
    using assms(2) set by (simp add: settle_receipts_def Let_def bump_def map_of_map)
  have only: "pr_scoreAfterPpm q = Some score" if qc: "q \<in> set ?confirmed" for q
  proof -
    obtain k where k: "(k, q) \<in> set (co_pendingByPatchHash c)" using qc by auto
    moreover have "toLowerCase (pr_signedPatchHash q) = toLowerCase (ev_patchHash ev)" using qc by (auto simp: settle_pending_def split: if_splits)
    ultimately have "k = toLowerCase (ev_patchHash ev)" using assms(1) by (auto simp: receipts_inv_def)
    then have "q = p" using k assms(1,2) by (auto simp: receipts_inv_def)
    then show ?thesis using assms(6) by simp
  qed
  have "p \<in> set ?confirmed" using assms(3) set map_of_SomeD [OF assms(2)] by force
  then have "?confirmed \<noteq> []" by force
  from foldl_update_same [of ?confirmed pr_scoreAfterPpm, OF only this]
  show "map_of (co_baselineByRoot (settle_receipts ev r c)) r = Some score" by (simp add: settle_receipts_def Let_def bump_def)
qed

text \<open>The event by which the registry announces that a receipt has landed.\<close>

definition announces :: "ChainEvent \<Rightarrow> ReceiptPayload \<Rightarrow> bool" where
  "announces ev r \<longleftrightarrow> ev_epoch ev = rp_epochId r \<and> ev_parent ev = rp_parentStateRoot r \<and> ev_newRoot ev = rp_newStateRoot r \<and>
     ev_patchHash ev = rp_patchHash r \<and> ev_coreV ev = rp_coreVersionHash r \<and> ev_corpus ev = rp_corpusRoot r \<and>
     ev_frontier ev = rp_activeFrontierRoot r \<and> ev_wordCount ev = rp_stateWordCount r \<and> ev_compactPatchBytes ev = rp_compactPatchBytes r"

text \<open>In any state in which the live root has not moved and the receipt is still pending, the watcher accepts the event.\<close>

lemma announced_advance:
  assumes "gates_passed cfg v ps res c r" "receipt_applies cfg (co_liveState d) r" "chain_part d = chain_part c" "receipts_inv d"
    "rp_outcome r = OUTCOME_CORETEX_STATE_ADVANCE" "announces ev r" "ev_transitionIndex ev = co_lastTransitionIndex d + 1"
    "map_of (co_pendingByPatchHash d) (rp_patchHash r) = Some (pending_receipt ps r)" "toLowerCase (co_liveRoot d) = co_liveRoot d"
  shows "\<exists>d'. applyChainEvent cfg ev d = Inr d' \<and> co_liveRoot d' = rp_newStateRoot r \<and> effectiveBaselinePpm d' = Some (rp_scoreAfterPpm r) \<and>
    (\<exists>p. map_of (co_pendingByPatchHash d') (rp_patchHash r) = Some p \<and> pr_state p = st_confirmed)"
proof -
  obtain p s rt where p: "decodePatch (coord_hexToBytes (rp_compactPatchBytes r)) = Inr p"
      "rp_patchHash r = computePatchHash (coord_hexToBytes (rp_compactPatchBytes r))" "applyPatch (co_liveState d) p True = Inr (Inr s)"
      "merkleizeState s = Inr rt" "rp_newStateRoot r = bytesToHex rt" "rp_stateWordCount r = wordCount p"
    using assms(2,5) by (auto simp: receipt_applies_def)
  have live: "co_liveRoot d = rp_parentStateRoot r" using assms(1) chain_part_eqD(2) [OF assms(3)] by (simp add: gates_passed_def)
  have ver: "event_verified cfg d ev p s rt"
    using assms(1,6,7) p live by (simp add: event_verified_def announces_def gates_passed_def)
  let ?d = "commit_advance ev s (bytesToHex rt) d"
  have pend: "co_pendingByPatchHash ?d = co_pendingByPatchHash d" by (simp add: commit_advance_def Let_def)
  have inv: "receipts_inv ?d" using assms(4) pend by (simp add: receipts_inv_def)
  have hash: "toLowerCase (ev_patchHash ev) = rp_patchHash r" using assms(6) p(2) by (simp add: announces_def)
  note conf = settle_confirms [OF inv, of ev "pending_receipt ps r" "rp_scoreAfterPpm r" "bytesToHex rt", unfolded pend hash]
  have "map_of (co_pendingByPatchHash (settle_receipts ev (bytesToHex rt) ?d)) (rp_patchHash r) = Some ((pending_receipt ps r)\<lparr>pr_state := st_confirmed\<rparr>)"
      "map_of (co_baselineByRoot (settle_receipts ev (bytesToHex rt) ?d)) (bytesToHex rt) = Some (rp_scoreAfterPpm r)"
    using conf assms(6,8) hash by (simp_all add: pending_receipt_def announces_def)
  moreover have "co_liveRoot (settle_receipts ev (bytesToHex rt) ?d) = bytesToHex rt"
    using chain_part_eqD(2) [of "settle_receipts ev (bytesToHex rt) ?d" ?d] by simp
  moreover have "applyChainEvent cfg ev d = Inr (settle_receipts ev (bytesToHex rt) ?d)"
    using ver assms(1,6) by (auto simp: applyChainEvent_Inr announces_def gates_passed_def)
  ultimately show ?thesis
    by (intro exI [of _ "settle_receipts ev (bytesToHex rt) ?d"]) (simp add: effectiveBaselinePpm_def p(5))
qed

lemma commit_receipt_pending:
  "rp_outcome r = OUTCOME_CORETEX_STATE_ADVANCE \<Longrightarrow>
    co_pendingByPatchHash (commit_receipt cfg ps r s c) = AList.update (rp_patchHash r) (pending_receipt ps r) (co_pendingByPatchHash c)"
  "rp_outcome r \<noteq> OUTCOME_CORETEX_STATE_ADVANCE \<Longrightarrow> co_pendingByPatchHash (commit_receipt cfg ps r s c) = co_pendingByPatchHash c"
  by (simp_all add: commit_receipt_def cacheReceipt_def Let_def)

lemma chain_part_commit_receipt [simp]: "chain_part (commit_receipt cfg ps r s c) = chain_part c"
  by (simp add: commit_receipt_def cacheReceipt_def Let_def)

lemma receipts_inv_commit:
  assumes "receipts_inv c" "rp_patchHash r = toLowerCase (rp_patchHash r)"
  shows "receipts_inv (commit_receipt cfg ps r s c)"
proof (cases "rp_outcome r = OUTCOME_CORETEX_STATE_ADVANCE")
  case True
  have new: "rp_patchHash r = toLowerCase (pr_signedPatchHash (pending_receipt ps r)) \<and> pr_state (pending_receipt ps r) \<noteq> st_expired"
    using assms(2) by (simp add: pending_receipt_def)
  have "k = toLowerCase (pr_signedPatchHash p) \<and> pr_state p \<noteq> st_expired"
    if "(k, p) \<in> set (AList.update (rp_patchHash r) (pending_receipt ps r) (co_pendingByPatchHash c))" for k p
    using subsetD [OF set_update that] new assms(1) by (auto simp: receipts_inv_def)
  then show ?thesis using assms(1) True by (auto simp: receipts_inv_def commit_receipt_pending distinct_update)
qed (use assms in \<open>simp add: receipts_inv_def commit_receipt_pending\<close>)

text \<open>C4. What the coordinator signs, the chain watcher accepts. If the signer answers for the payload of a state advance and the registry
  then announces it as the next transition, the core that recorded the receipt accepts the event: its live root becomes the root named
  by the receipt, the receipt is confirmed, and the effective baseline of the new root is the score that was signed
  (or the two live states are an explicit Keccak-256 collision).\<close>

theorem signed_advance_lands:
  assumes "core_inv c0" "prepareSubmitEvaluation cfg hs now e body c0 = (c1, Returned ps)" "core_inv c" "receipts_inv c"
    "receipt_to_sign cfg v ps res c = (c2, Returned (r, n))" "rp_outcome r = OUTCOME_CORETEX_STATE_ADVANCE"
    "announces ev r" "ev_transitionIndex ev = co_lastTransitionIndex c + 1"
  shows "(\<exists>d. applyChainEvent cfg ev (commit_receipt cfg ps r s c2) = Inr d \<and> co_liveRoot d = rp_newStateRoot r \<and>
      effectiveBaselinePpm d = Some (rp_scoreAfterPpm r) \<and>
      (\<exists>p. map_of (co_pendingByPatchHash d) (rp_patchHash r) = Some p \<and> pr_state p = st_confirmed)) \<or>
    collision_between (hash_inputs (co_liveState c0)) (hash_inputs (co_liveState c))"
proof -
  let ?d = "commit_receipt cfg ps r s c2"
  have sound: "gates_passed cfg v ps res c r" "chain_part c2 = chain_part c"
      "receipt_applies cfg (co_liveState c) r \<or> collision_between (hash_inputs (co_liveState c0)) (hash_inputs (co_liveState c))"
    using receipt_sound [OF assms(1,2,3,5)] by blast+
  have part: "chain_part ?d = chain_part c" using sound(2) by simp
  have pend: "co_pendingByPatchHash c2 = co_pendingByPatchHash c" using book.receipt_to_sign_frame [OF assms(5)] by (simp add: records_def)
  show ?thesis
  proof (cases "receipt_applies cfg (co_liveState c) r")
    case True
    then have low: "rp_patchHash r = toLowerCase (rp_patchHash r)" by (auto simp: receipt_applies_def)
    have inv: "receipts_inv ?d" by (rule receipts_inv_commit [OF _ low]) (use assms(4) pend in \<open>simp add: receipts_inv_def\<close>)
    have lowr: "toLowerCase (co_liveRoot ?d) = co_liveRoot ?d" using core_lower(2) [OF assms(3)] chain_part_eqD(2) [OF part] by simp
    have rec: "map_of (co_pendingByPatchHash ?d) (rp_patchHash r) = Some (pending_receipt ps r)"
      using assms(6) by (simp add: commit_receipt_pending update_conv')
    show ?thesis
      using announced_advance [OF sound(1) _ part inv assms(6,7) _ rec lowr] True assms(8) chain_part_eqD(1,5) [OF part] by simp
  qed (use sound(3) in blast)
qed

section \<open>A complete run\<close>

lemma hex_chars_byte_hex: "hex_chars (concat (map byte_hex bs))"
proof (induction bs)
  case (Cons b bs)
  have "unat b < 256" using unsigned_less [of b] by simp
  then have "unat b div 16 < 16" "unat b mod 16 < 16" by (simp_all add: less_mult_imp_div_less)
  then show ?case using Cons hex_digit_facts(1) by (simp add: hex_chars_def byte_hex_def)
qed (simp add: hex_chars_def)

lemma isHex_bytesToHex [simp]: "isHex (bytesToHex bs)"
  using hex_chars_byte_hex by (simp add: isHex_def bytesToHex_eq)

lemma length_bytesToHex [simp]: "length (bytesToHex bs) = 2 + 2 * length bs"
  by (simp add: bytesToHex_eq)

lemma isBytes32_bytesToHex [simp]: "isBytes32 (bytesToHex bs) \<longleftrightarrow> length bs = 32"
  by (auto simp: isBytes32_def)

lemma isBytes32_patchHash [simp]: "isBytes32 (computePatchHash bs)"
  by (simp add: computePatchHash_def)

lemma normalizeHexBytes_bytesToHex [simp]: "normalizeHexBytes (bytesToHex bs) = Some (bytesToHex bs, bs)"
  by (simp add: normalizeHexBytes_def)

lemma isLowerBytes32_bytesToHex: "length bs = 32 \<Longrightarrow> isLowerBytes32 (bytesToHex bs)"
proof -
  assume "length bs = 32"
  moreover have "list_all (\<lambda>ch. js_lower_char ch = ch) (bytesToHex bs)"
    using toLowerCase_bytesToHex [of bs] by (simp add: toLowerCase_def list_all_iff) (metis list.map_id0 id_apply map_eq_conv)
  ultimately show "isLowerBytes32 (bytesToHex bs)" by (auto simp: isLowerBytes32_def list_all_iff dest: in_set_dropD)
qed

lemma hex_prefix_bytes: "''0x'' @ take (2 * n) (drop 2 (bytesToHex bs)) = bytesToHex (take n bs)"
proof -
  have "take (2 * n) (concat (map byte_hex bs)) = concat (map byte_hex (take n bs))"
    by (induction bs arbitrary: n) (auto simp: byte_hex_def take_Cons split: nat.splits)
  then show ?thesis by (simp add: bytesToHex_eq)
qed

lemma worldSeed_total: "\<exists>v. worldSeed m i h = Inr v"
proof -
  let ?k = "keccak256 (utf8 (join_bar [''coretex-world-v1'', toLowerCase m, big_string i, toLowerCase h]))"
  have "length (take 16 ?k) = 16" by (simp only: length_take length_keccak256)
  then have "take 16 ?k \<noteq> []" by (metis list.size(3) zero_neq_numeral)
  then show ?thesis using hex_prefix_bytes [of 16 ?k] js_BigInt_bytesToHex [of "take 16 ?k"] by (simp add: worldSeed_def hashText_def)
qed

definition demo_hash :: "u8 \<Rightarrow> string" where
  "demo_hash b = bytesToHex (replicate 32 b)"

definition demo_miner :: string where
  "demo_miner = ''0x'' @ replicate 40 (CHR ''a'')"

definition demo_signing_cfg :: "bytes \<Rightarrow> CoordConfig" where
  "demo_signing_cfg rt = (demo_coord (bytesToHex rt))\<lparr>cc_miningContractAddress := Some demo_miner, cc_registryAddress := demo_miner,
     cc_expectedCoordinatorSigner := demo_miner, cc_expectedEpochPins := \<lparr>pn_parentStateRoot = bytesToHex rt, pn_coreVersionHash = demo_hash 1,
     pn_corpusRoot = demo_hash 2, pn_activeFrontierRoot = demo_hash 3, pn_baselineManifestHash = demo_hash 4, pn_hiddenSeedCommit = demo_hash 5\<rparr>\<rparr>"

definition demo_body :: "bytes \<Rightarrow> SubmitBody" where
  "demo_body rt = BodyObject [(''patchBytesHex'', Some (bytesToHex (patch_bytes (slot_patch rt)))), (''parentStateRoot'', Some (bytesToHex rt)),
     (''minerAddress'', Some demo_miner)]"

definition demo_signing_core :: "bytes \<Rightarrow> core" where
  "demo_signing_core rt = (demo_core (bytesToHex rt))\<lparr>co_signingEnabled := True\<rparr>"

definition demo_prepared :: "bytes \<Rightarrow> PreparedSubmit" where
  "demo_prepared rt = (let h = computePatchHash (patch_bytes (zero_delta (slot_patch rt))) in
     \<lparr>ps_now = 1000, ps_parsed = \<lparr>pb_patchBytesHex = bytesToHex (patch_bytes (slot_patch rt)), pb_patchBytes = patch_bytes (slot_patch rt),
        pb_parentStateRoot = bytesToHex rt, pb_miner = demo_miner\<rparr>, ps_decoded = slot_patch rt,
      ps_canonicalHex = bytesToHex (patch_bytes (zero_delta (slot_patch rt))), ps_originalPatchHash = h,
      ps_dedupKey = bytesToHex rt @ ''|'' @ h, ps_screenerThresholdPpm = 1, ps_rootAtEvaluation = bytesToHex rt,
      ps_parentStateSnapshot = zero_state, ps_freezeGeneration = 0\<rparr>)"

lemma slot_patch_wire: "length rt = 32 \<Longrightarrow> wire_ok (slot_patch rt)" "list_all u256 (newWords (slot_patch rt))"
  by (simp_all add: wire_ok_def slot_patch_def validatePatchType_def patchTypeRange_def PATCH_TYPE_RANGE_TABLE_def u256_def)

lemma demo_facts:
  "default_minImprovementPpm = 1" "toLowerCase demo_miner = demo_miner" "isAddress demo_miner"
  "computeCoreTexScreenerThresholdPpm \<lparr>ti_baselineScorePpm = Some (js_num 500000), ti_recentNoiseFloorPpm = Some (js_num 0),
     ti_recentScreenerPasses = None, ti_recentStateAdvances = None, ti_targetStateAdvances = None, ti_recentProbePassRatePpm = None,
     ti_stateAdvanceThresholdPpm = Some (js_num 1), ti_policy = None\<rparr> = Inr 1"
  "computeCoreTexWorkUnitsBps 2 (Some (js_num 0)) None = Inr 30000"
  by code_simp+

lemma demo_signing_simps:
  "cc_epoch (demo_signing_cfg rt) = 3" "or_else (cc_maxPatchBytes (demo_signing_cfg rt)) 256 = 256" "cc_workPolicy (demo_signing_cfg rt) = None"
  "cc_workPolicyHash (demo_signing_cfg rt) = Some (demo_hash 1)" "or_else (cc_perMinerScreenerCap (demo_signing_cfg rt)) 50 = 50"
  "cc_receiptTtlSec (demo_signing_cfg rt) = 600"
  by (simp_all add: demo_signing_cfg_def demo_coord_def or_else_def demo_hash_def)

text \<open>The states in which the run below works: the chain is at the demonstration's parent, with a baseline and nothing signed.\<close>

definition demo_ready :: "bytes \<Rightarrow> core \<Rightarrow> bool" where
  "demo_ready rt c \<longleftrightarrow> chain_part c = chain_part (demo_signing_core rt) \<and> \<not> co_frozen c \<and> co_freezeGeneration c = 0 \<and> co_signingEnabled c \<and>
     co_baselineByRoot c = [(bytesToHex rt, 500000)] \<and> co_currentBaselineVariancePpm c = None \<and> co_submitDedup c = [] \<and> co_minerChainReservations c = []"

lemma demo_ready_core: "demo_ready rt (demo_signing_core rt)" "gcPending cfg n (demo_signing_core rt) = demo_signing_core rt"
  "(demo_signing_core rt)\<lparr>co_lastEpochMismatch := None\<rparr> = demo_signing_core rt"
  by (simp_all add: demo_ready_def demo_signing_core_def demo_core_def initial_core_def demo_coord_def gcPending_def)

lemma demo_ready_simps:
  assumes "demo_ready rt c"
  shows "\<not> co_frozen c" "co_signingEnabled c" "effectiveBaselinePpm c = Some 500000" "co_liveRoot c = bytesToHex rt" "co_liveState c = zero_state"
    "co_submitDedup c = []" "co_freezeGeneration c = 0" "co_minerChainReservations c = []" "co_lastTransitionIndex c = -1"
  using assms chain_part_eqD(1,2,5) [of c "demo_signing_core rt"]
  by (simp_all add: demo_ready_def effectiveBaselinePpm_def demo_signing_core_def) (simp_all add: demo_core_def initial_core_def)

lemma demo_thresholds:
  assumes "demo_ready rt c"
  shows "effectiveScreenerThresholdPpm (demo_signing_cfg rt) 500000 c = Inr 1" "effectiveStateAdvanceThresholdPpm (demo_signing_cfg rt) c = 1"
  using demo_facts assms by (simp_all add: demo_ready_def effectiveScreenerThresholdPpm_def effectiveStateAdvanceThresholdPpm_def demo_signing_cfg_def demo_coord_def
    or_else_def chain_bind_def of_js_def)

lemma demo_prepare:
  assumes "merkleizeState zero_state = Inr rt" "demo_ready rt (gcPending (demo_signing_cfg rt) now c)"
  shows "prepareSubmitEvaluation (demo_signing_cfg rt) True now (Inr 3) (demo_body rt) c =
    ((gcPending (demo_signing_cfg rt) now c)\<lparr>co_lastEpochMismatch := None\<rparr>, Returned (demo_prepared rt\<lparr>ps_now := now\<rparr>))"
proof -
  define d where "d = (gcPending (demo_signing_cfg rt) now c)\<lparr>co_lastEpochMismatch := None\<rparr>"
  have d: "demo_ready rt d" using assms(2) by (simp add: demo_ready_def d_def)
  note ready = demo_ready_simps [OF d]
  have len: "length rt = 32" by (rule length_root [OF assms(1) zero_state_wf(2)])
  note wire = slot_patch_wire(1) [OF len]
  have app: "applyPatch zero_state (slot_patch rt) True = Inr (Inr \<lparr>words = (replicate 1024 0)[33 := push_bit 128 9]\<rparr>)"
    using applyPatch_accepts [OF zero_state_wf(2) assms(1)] slot_patch_applies by (simp add: slot_patch_def)
  have dec: "decodePatch (patch_bytes (slot_patch rt)) = Inr (slot_patch rt)" by (rule decodePatch_patch_bytes [OF wire slot_patch_wire(2)])
  have enc: "encodePatch (slot_patch rt\<lparr>scoreDelta := 0\<rparr>) = Inr (patch_bytes (zero_delta (slot_patch rt)))"
    using wire_ok_delta [OF wire, of 0] by (simp add: zero_delta_def)
  have size: "length (patch_bytes (slot_patch rt)) = 75" using len by (simp add: patch_bytes_def slot_patch_def idx_bytes_def del: be_bytes.simps)
  then have ne: "patch_bytes (slot_patch rt) \<noteq> []" by auto
  have parse: "parseSubmitBody (demo_body rt) 256 = Inr (ps_parsed (demo_prepared rt))"
    using len demo_facts(2,3) size ne by (simp add: parseSubmitBody_def demo_body_def body_string_def demo_prepared_def Let_def)
  have "prepare_patch now 1 (ps_parsed (demo_prepared rt)) d = (d, Returned (demo_prepared rt\<lparr>ps_now := now\<rparr>))"
    using dec app enc by (simp add: prepare_patch_def h_bind_Returned ready Let_def) (simp add: demo_prepared_def Let_def slot_patch_def)
  then show ?thesis
    unfolding prepareSubmitEvaluation_def using demo_ready_simps(1,2) [OF assms(2)] demo_ready_simps(3) [OF assms(2)]
    by (simp add: h_bind_Returned guard_epoch_Returned guard_signing_Returned guard_baseline_Returned ready demo_thresholds [OF d] demo_thresholds [OF assms(2)] demo_signing_simps parse d_def [symmetric])
qed

definition demo_proof :: "bytes \<Rightarrow> DualPackProof" where
  "demo_proof rt = \<lparr>dp_kind = ''coretex-dual-pack-v1'', dp_mode = ''future_blockhash_dual_pack'', dp_epochId = Fin 3, dp_receivedAtBlock = Fin 5,
     dp_targetBlock = Fin 7, dp_targetBlockOffset = Fin 2, dp_blockhash = demo_hash 9, dp_patchHash = ps_originalPatchHash (demo_prepared rt),
     dp_parentStateRoot = bytesToHex rt, dp_corpusRoot = demo_hash 2, dp_coreVersionHash = demo_hash 1, dp_hiddenSeedCommit = demo_hash 5,
     dp_epochSecretCommit = demo_hash 5,
     dp_gate = Some \<lparr>pk_domain = ''gate'', pk_seedCommit = demo_hash 17, pk_accepted = True, pk_scorePpm = Fin 600000\<rparr>,
     dp_confirm = Some \<lparr>pk_domain = ''confirm'', pk_seedCommit = demo_hash 18, pk_accepted = True, pk_scorePpm = Fin 600000\<rparr>\<rparr>"

definition demo_result :: "bytes \<Rightarrow> EvalResult" where
  "demo_result rt = EvalStateAdvance \<lparr>ea_deterministicDeltaPpm = Fin 10, ea_evalReportHash = demo_hash 33, ea_artifactHash = demo_hash 34,
     ea_evaluationProof = Some (demo_proof rt)\<rparr> \<lparr>sx_scoreBeforePpm = Fin 500000, sx_scoreAfterPpm = Fin 500010,
     sx_rewrittenPatchBytesHex = bytesToHex (patch_bytes (slot_patch rt))\<rparr>"

definition demo_finish :: FinishView where
  "demo_finish = \<lparr>fv_epochAtSigning = Inr 3, fv_counters = Inr \<lparr>mc_screenersThisEpoch = 0, mc_nextIndex = 4, mc_lastReceiptHash = demo_hash 40\<rparr>,
     fv_difficultyCount = Inr 0\<rparr>"

lemma demo_numbers:
  "safe_int (Fin 10) = Some 10" "safe_int (Fin 500000) = Some 500000" "safe_int (Fin 500010) = Some 500010" "safe_int (Fin 600000) = Some 600000"
  "safe_int (Fin 5) = Some 5" "safe_int (Fin 7) = Some 7" "safe_int (Fin 2) = Some 2"
  by code_simp+

lemma demo_hash_simps [simp]:
  "toLowerCase (demo_hash b) = demo_hash b" "isBytes32 (demo_hash b)" "isLowerBytes32 (demo_hash b)" "demo_hash a = demo_hash b \<longleftrightarrow> a = b"
  by (simp_all add: demo_hash_def bytesToHex_inj isLowerBytes32_bytesToHex)

lemma ZERO_HASH_eq: "ZERO_HASH = demo_hash 0"
  by code_simp

lemma expected_now [simp]: "dual_pack_expected cfg (ps\<lparr>ps_now := n\<rparr>) k = dual_pack_expected cfg ps k"
  by (simp add: dual_pack_expected_def)

lemma demo_proof_valid:
  assumes "length rt = 32" "k \<le> 600000"
  shows "validateDualPackProof (Some (demo_proof rt)) (dual_pack_expected (demo_signing_cfg rt) (demo_prepared rt) k) = None"
proof -
  let ?x = "dual_pack_expected (demo_signing_cfg rt) (demo_prepared rt) k"
  have cfg: "cc_epoch (demo_signing_cfg rt) = 3" "cc_targetBlockOffset (demo_signing_cfg rt) = None"
      "cc_expectedEpochPins (demo_signing_cfg rt) = \<lparr>pn_parentStateRoot = bytesToHex rt, pn_coreVersionHash = demo_hash 1,
       pn_corpusRoot = demo_hash 2, pn_activeFrontierRoot = demo_hash 3, pn_baselineManifestHash = demo_hash 4, pn_hiddenSeedCommit = demo_hash 5\<rparr>"
    by (simp_all add: demo_signing_cfg_def demo_coord_def)
  have "first_failure (header_checks ?x (demo_proof rt)) = None"
    using assms demo_numbers by (simp add: first_failure_None header_checks_def demo_proof_def dual_pack_expected_def cfg pinned_def opt_all_def safe_nat_def
      num_def ZERO_HASH_eq demo_prepared_def Let_def)
  then show ?thesis
    using assms demo_numbers by (simp add: validateDualPackProof_def) (simp add: demo_proof_def first_failure_None seed_checks_def pack_checks_def
      dual_pack_expected_def opt_all_def safe_nat_def num_def ZERO_HASH_eq)
qed

lemma slot_patch_semantics: "patchSemanticsMatchExceptScoreDelta (slot_patch rt) (slot_patch rt)"
  by (simp add: patchSemanticsMatchExceptScoreDelta_def list_all_iff)

lemma demo_content:
  assumes "merkleizeState zero_state = Inr rt" "demo_result rt = EvalStateAdvance a sc" "demo_ready rt c"
  obtains ct where "settle_outcome (demo_signing_cfg rt) (demo_prepared rt\<lparr>ps_now := now\<rparr>) (demo_result rt) a 500000 c = (c, Returned ct)"
    "sc_scoreAfterPpm ct = 500010"
proof -
  have len: "length rt = 32" by (rule length_root [OF assms(1) zero_state_wf(2)])
  note wire = slot_patch_wire(1) [OF len]
  define s where "s = \<lparr>words = (replicate 1024 0)[33 := push_bit 128 9 :: int]\<rparr>"
  obtain rt' where rt': "merkleizeState s = Inr rt'" using merkleizeState_eq [of s] by (simp add: s_def)
  have app: "applyPatch zero_state (slot_patch rt) True = Inr (Inr s)"
    using applyPatch_accepts [OF zero_state_wf(2) assms(1)] slot_patch_applies by (simp add: slot_patch_def s_def)
  have dec: "decodePatch (patch_bytes (slot_patch rt)) = Inr (slot_patch rt)" by (rule decodePatch_patch_bytes [OF wire slot_patch_wire(2)])
  have enc: "encodePatch (slot_patch rt\<lparr>scoreDelta := 10\<rparr>) = Inr (patch_bytes (slot_patch rt))"
    using encodePatch_ok [OF wire] by (simp add: slot_patch_def)
  have size: "length (patch_bytes (slot_patch rt)) = 75" using len by (simp add: patch_bytes_def slot_patch_def idx_bytes_def del: be_bytes.simps)
  have ds: "ps_decoded (demo_prepared rt\<lparr>ps_now := now\<rparr>) = slot_patch rt" "ps_parentStateSnapshot (demo_prepared rt\<lparr>ps_now := now\<rparr>) = zero_state" by (simp_all add: demo_prepared_def Let_def)
  have sc: "num (sx_scoreAfterPpm sc) = 500010" "num (sx_scoreBeforePpm sc) = 500000" "sx_rewrittenPatchBytesHex sc = bytesToHex (patch_bytes (slot_patch rt))"
      "num (ea_deterministicDeltaPpm a) = 10" "ea_evaluationProof a = Some (demo_proof rt)"
    using assms(2) demo_numbers by (auto simp: demo_result_def num_def)
  have "\<exists>ct. advance_content (demo_signing_cfg rt) (demo_prepared rt\<lparr>ps_now := now\<rparr>) a sc 1 c = (c, Returned ct) \<and> sc_scoreAfterPpm ct = 500010"
    by (simp add: advance_content_def Let_def h_bind_Returned demo_thresholds [OF assms(3)] sc ds check_proof_def demo_proof_valid [OF len] demo_signing_simps size dec enc app rt'
      slot_patch_semantics)
  then show thesis using that assms(2) sc(4)
    by (auto simp: settle_outcome_def h_bind_Returned demo_thresholds [OF assms(3)])
qed

lemma demo_payload:
  assumes "merkleizeState zero_state = Inr rt" "demo_ready rt c"
  obtains r n where "receipt_to_sign (demo_signing_cfg rt) demo_finish (demo_prepared rt\<lparr>ps_now := now\<rparr>) (demo_result rt) c = (c, Returned (r, n))"
    "rp_outcome r = 2" "rp_solveIndex r = 4" "rp_scoreAfterPpm r = 500010" "rp_expiresAt r = now + 600"
proof -
  have len: "length rt = 32" by (rule length_root [OF assms(1) zero_state_wf(2)])
  note ready = demo_ready_simps [OF assms(2)]
  obtain a sc where res: "demo_result rt = EvalStateAdvance a sc" by (simp add: demo_result_def)
  then have a: "ea_evaluationProof a = Some (demo_proof rt)" "ea_evalReportHash a = demo_hash 33" "ea_artifactHash a = demo_hash 34"
    by (auto simp: demo_result_def)
  have ps: "ps_dedupKey (demo_prepared rt\<lparr>ps_now := now\<rparr>) = bytesToHex rt @ ''|'' @ ps_originalPatchHash (demo_prepared rt\<lparr>ps_now := now\<rparr>)" "ps_rootAtEvaluation (demo_prepared rt\<lparr>ps_now := now\<rparr>) = bytesToHex rt"
      "ps_freezeGeneration (demo_prepared rt\<lparr>ps_now := now\<rparr>) = 0" "ps_screenerThresholdPpm (demo_prepared rt\<lparr>ps_now := now\<rparr>) = 1"
    by (simp_all add: demo_prepared_def Let_def)
  have chk: "check_result (demo_signing_cfg rt) (demo_prepared rt\<lparr>ps_now := now\<rparr>) (demo_result rt) c = (c, Returned a)"
  proof -
    have "validateAcceptedEvalResult (demo_result rt) = None"
      using demo_numbers by (simp add: demo_result_def first_failure_None safe_nat_def num_def Let_def)
    then show ?thesis using res by (simp add: check_accepted_def check_proof_def h_bind_Returned demo_proof_valid [OF len] a ps)
  qed
  have ctx: "recheck_context (demo_signing_cfg rt) (demo_prepared rt\<lparr>ps_now := now\<rparr>) (fv_epochAtSigning demo_finish) c = (c, Returned 500000)"
    by (simp add: recheck_context_Returned demo_signing_simps ready ps demo_finish_def)
  obtain k where k: "fv_counters demo_finish = Inr k" "mc_nextIndex k = 4" "mc_screenersThisEpoch k = 0" by (simp add: demo_finish_def)
  have adv: "is_advance (demo_result rt)" by (simp add: demo_result_def)
  obtain h where ix: "reserve_index (demo_signing_cfg rt) m True k c = (c, Returned (4, h, 0))" for m
    using k by (simp add: reserve_index_def h_bind_Returned demo_signing_simps ready)
  obtain ct where ct: "settle_outcome (demo_signing_cfg rt) (demo_prepared rt\<lparr>ps_now := now\<rparr>) (demo_result rt) a 500000 c = (c, Returned ct)"
      "sc_scoreAfterPpm ct = 500010" using demo_content [OF assms(1) res assms(2)] by blast
  obtain w where w: "worldSeed (pb_miner (ps_parsed (demo_prepared rt\<lparr>ps_now := now\<rparr>))) 4 (sc_signedPatchHash ct) = Inr w" using worldSeed_total by blast
  obtain r where r: "build_receipt (demo_signing_cfg rt) (demo_prepared rt\<lparr>ps_now := now\<rparr>) a 2 4 h ct 0 = Inr r" "rp_outcome r = 2" "rp_solveIndex r = 4" "rp_scoreAfterPpm r = 500010"
      "rp_evalReportHash r = demo_hash 33" "rp_artifactHash r = demo_hash 34" "rp_expiresAt r = now + 600"
    using w ct(2) by (simp add: build_receipt_def Let_def chain_bind_Inr demo_signing_simps demo_facts a)
  have "receipt_to_sign (demo_signing_cfg rt) demo_finish (demo_prepared rt\<lparr>ps_now := now\<rparr>) (demo_result rt) c = (c, Returned (r, 0))"
    using r by (simp add: receipt_to_sign_def h_bind_Returned chk ctx k adv ix ct Let_def) (simp add: demo_finish_def)
  then show thesis using that r by blast
qed

lemma demo_signing_inv:
  assumes "merkleizeState zero_state = Inr rt"
  shows "core_inv (demo_signing_core rt)" "receipts_inv (demo_signing_core rt)"
  using demo_core_inv [OF assms] core_inv_cong [of "demo_signing_core rt" "demo_core (bytesToHex rt)"]
  by (simp_all add: demo_signing_core_def receipts_inv_def) (simp add: demo_core_def initial_core_def)

lemma demo_first:
  assumes "merkleizeState zero_state = Inr rt"
  shows "prepareSubmitEvaluation (demo_signing_cfg rt) True 1000 (Inr 3) (demo_body rt) (demo_signing_core rt) =
    (demo_signing_core rt, Returned (demo_prepared rt\<lparr>ps_now := 1000\<rparr>))"
  using demo_prepare [OF assms, of 1000 "demo_signing_core rt"] demo_ready_core by simp


theorem signed_advance_lands_witness:
  "\<exists>rt r c2 ev sg. rp_outcome r = 2 \<and> announces ev r \<and>
    ((\<exists>d. applyChainEvent (demo_signing_cfg rt) ev (commit_receipt (demo_signing_cfg rt) (demo_prepared rt\<lparr>ps_now := 1000\<rparr>) r sg c2) = Inr d \<and>
      effectiveBaselinePpm d = Some 500010) \<or> collision_between (hash_inputs zero_state) (hash_inputs zero_state))"
proof -
  obtain rt where rt: "merkleizeState zero_state = Inr rt" using demo_root by blast
  obtain r n where r: "receipt_to_sign (demo_signing_cfg rt) demo_finish (demo_prepared rt\<lparr>ps_now := 1000\<rparr>) (demo_result rt) (demo_signing_core rt) = (demo_signing_core rt, Returned (r, n))"
    "rp_outcome r = 2" "rp_scoreAfterPpm r = 500010" by (rule demo_payload [OF rt demo_ready_core(1), where now = 1000])
  note inv = demo_signing_inv [OF rt] and prep = demo_first [OF rt] and ready = demo_ready_simps [OF demo_ready_core(1), of rt]
  define ev where "ev = \<lparr>ev_blockNumber = 7, ev_blockHash = [], ev_logIndex = 0, ev_epoch = rp_epochId r, ev_transitionIndex = 0, ev_miner = demo_miner,
    ev_parent = rp_parentStateRoot r, ev_newRoot = rp_newStateRoot r, ev_patchHash = rp_patchHash r, ev_evalReportHash = rp_evalReportHash r,
    ev_coreV = rp_coreVersionHash r, ev_corpus = rp_corpusRoot r, ev_frontier = rp_activeFrontierRoot r, ev_credits = 1,
    ev_wordCount = rp_stateWordCount r, ev_compactPatchBytes = rp_compactPatchBytes r\<rparr>"
  have ev: "announces ev r" "ev_transitionIndex ev = co_lastTransitionIndex (demo_signing_core rt) + 1"
    by (simp_all add: announces_def ev_def ready)
  define sg where "sg = \<lparr>sg_signature = ''0x00'', sg_transactionData = ''0x00'', sg_receipt = None, sg_receiptHash = None\<rparr>"
  from signed_advance_lands [OF inv(1) prep inv(1,2) r(1,2) ev, of sg] r(3)
  have "(\<exists>d. applyChainEvent (demo_signing_cfg rt) ev (commit_receipt (demo_signing_cfg rt) (demo_prepared rt\<lparr>ps_now := 1000\<rparr>) r sg (demo_signing_core rt)) = Inr d \<and>
      effectiveBaselinePpm d = Some 500010) \<or> collision_between (hash_inputs zero_state) (hash_inputs zero_state)"
    by (auto simp only: ready)
  then show ?thesis using r(2) ev(1) by blast
qed

end
