(* ===== verification/CoordSystem.thy ===== *)
theory CoordSystem
  imports Signing
begin

text \<open>
  The coordinator core as a running system: the intake counters and the queue of \<open>submit\<close>, and a step relation that interleaves
  submissions with ticks, lookups, freezes and baseline updates. A submission enters the queue, its head is prepared, then evaluated
  outside the mutex while other steps happen, then finished. Each step is a section that the source runs under the core's mutex.
  The environment is arbitrary up to two facts: the clock does not run backwards, and the solve index that the chain reports for a miner never falls.
\<close>

section \<open>Implementation\<close>

record Intake =
  iq_submitQueueDepth :: int
  iq_pendingSubmitsByMiner :: "(string \<times> int) list"

text \<open>The miner of a request body, as the intake reads it; the empty string counts as none.\<close>

definition intake_miner :: "SubmitBody \<Rightarrow> string option" where
  "intake_miner body = (case body of
       BodyNotObject \<Rightarrow> None
     | BodyObject r \<Rightarrow> (case body_string r ''minerAddress'' of
           None \<Rightarrow> None
         | Some m \<Rightarrow> if toLowerCase m = [] then None else Some (toLowerCase m)))"

definition queued_for :: "Intake \<Rightarrow> string \<Rightarrow> int" where
  "queued_for q m = or_else (map_of (iq_pendingSubmitsByMiner q) m) 0"

definition submit_enter :: "CoordConfig \<Rightarrow> SubmitBody \<Rightarrow> Intake \<Rightarrow> string + Intake" where
  "submit_enter cfg body q =
     (if iq_submitQueueDepth q \<ge> or_else (cc_maxQueuedSubmits cfg) 16 then Inl ''QueueFull''
      else if opt_all (\<lambda>m. queued_for q m < or_else (cc_maxQueuedSubmitsPerMiner cfg) 4) (intake_miner body)
      then Inr (let q = q\<lparr>iq_submitQueueDepth := iq_submitQueueDepth q + 1\<rparr> in case intake_miner body of
          None \<Rightarrow> q
        | Some m \<Rightarrow> q\<lparr>iq_pendingSubmitsByMiner := AList.update m (queued_for q m + 1) (iq_pendingSubmitsByMiner q)\<rparr>)
      else Inl ''MinerQueueFull'')"

definition submit_leave :: "SubmitBody \<Rightarrow> Intake \<Rightarrow> Intake" where
  "submit_leave body q =
     (let q = q\<lparr>iq_submitQueueDepth := iq_submitQueueDepth q - 1\<rparr> in case intake_miner body of
        None \<Rightarrow> q
      | Some m \<Rightarrow> let left = or_else (map_of (iq_pendingSubmitsByMiner q) m) 1 - 1 in
          if left \<le> 0 then q\<lparr>iq_pendingSubmitsByMiner := AList.delete m (iq_pendingSubmitsByMiner q)\<rparr>
          else q\<lparr>iq_pendingSubmitsByMiner := AList.update m left (iq_pendingSubmitsByMiner q)\<rparr>)"

section \<open>The system\<close>

datatype job = Waiting SubmitBody | Evaluating SubmitBody PreparedSubmit

fun job_body :: "job \<Rightarrow> SubmitBody" where
  "job_body (Waiting body) = body"
| "job_body (Evaluating body _) = body"

text \<open>The receipts signed so far, each with the clock reading at its signature, are a history variable.\<close>

record signed_entry =
  se_miner :: string
  se_payload :: ReceiptPayload
  se_at :: int

record sys =
  sy_core :: core
  sy_intake :: Intake
  sy_jobs :: "job list"
  sy_clock :: int
  sy_chainIndex :: "string \<Rightarrow> bigint"
  sy_signed :: "signed_entry list"

definition finished :: "sys \<Rightarrow> core \<Rightarrow> sys" where
  "finished s c = s\<lparr>sy_core := c, sy_intake := submit_leave (job_body (hd (sy_jobs s))) (sy_intake s), sy_jobs := tl (sy_jobs s)\<rparr>"

inductive sys_step :: "CoordConfig \<Rightarrow> signer option \<Rightarrow> sys \<Rightarrow> sys \<Rightarrow> bool" for cfg signer where
  enter: "submit_enter cfg body (sy_intake s) = Inr q \<Longrightarrow>
    sys_step cfg signer s (s\<lparr>sy_intake := q, sy_jobs := sy_jobs s @ [Waiting body]\<rparr>)"
| refuse: "submit_enter cfg body (sy_intake s) = Inl code \<Longrightarrow>
    sys_step cfg signer s (s\<lparr>sy_core := fst (rejectSubmission code (sy_core s) :: core \<times> unit reply)\<rparr>)"
| aborted: "sy_jobs s = Waiting body # js \<Longrightarrow>
    sys_step cfg signer s (finished s (fst (rejectSubmission ''ClientDisconnected'' (sy_core s) :: core \<times> unit reply)))"
| prepared: "sy_jobs s = Waiting body # js \<Longrightarrow> sy_clock s \<le> now \<Longrightarrow>
    prepareSubmitEvaluation cfg (signer \<noteq> None) now e body (sy_core s) = (c, Returned ps) \<Longrightarrow>
    sys_step cfg signer s (s\<lparr>sy_core := c, sy_jobs := Evaluating body ps # js, sy_clock := now\<rparr>)"
| unprepared: "sy_jobs s = Waiting body # js \<Longrightarrow> sy_clock s \<le> now \<Longrightarrow>
    prepareSubmitEvaluation cfg (signer \<noteq> None) now e body (sy_core s) = (c, r) \<Longrightarrow> \<not> (\<exists>ps. r = Returned ps) \<Longrightarrow>
    sys_step cfg signer s ((finished s c)\<lparr>sy_clock := now\<rparr>)"
| unevaluated: "sy_jobs s = Evaluating body ps # js \<Longrightarrow>
    sys_step cfg signer s (finished s (fst (evaluator_failed (sy_core s) :: core \<times> unit reply)))"
| signed: "sy_jobs s = Evaluating body ps # js \<Longrightarrow> fv_counters v = Inr k \<Longrightarrow> sy_chainIndex s (pb_miner (ps_parsed ps)) \<le> mc_nextIndex k \<Longrightarrow>
    receipt_to_sign cfg v ps res (sy_core s) = (d, Returned (r, n)) \<Longrightarrow>
    finishSubmitAfterEvaluation cfg signer v ps res (sy_core s) = (c, Returned acc) \<Longrightarrow>
    sys_step cfg signer s ((finished s c)\<lparr>sy_chainIndex := (sy_chainIndex s)(pb_miner (ps_parsed ps) := mc_nextIndex k),
      sy_signed := sy_signed s @ [\<lparr>se_miner = pb_miner (ps_parsed ps), se_payload = r, se_at = sy_clock s\<rparr>]\<rparr>)"
| unsigned: "sy_jobs s = Evaluating body ps # js \<Longrightarrow> fv_counters v = Inr k \<Longrightarrow> sy_chainIndex s (pb_miner (ps_parsed ps)) \<le> mc_nextIndex k \<Longrightarrow>
    finishSubmitAfterEvaluation cfg signer v ps res (sy_core s) = (c, x) \<Longrightarrow> \<not> (\<exists>acc. x = Returned acc) \<Longrightarrow>
    sys_step cfg signer s ((finished s c)\<lparr>sy_chainIndex := (sy_chainIndex s)(pb_miner (ps_parsed ps) := mc_nextIndex k)\<rparr>)"
| uncounted: "sy_jobs s = Evaluating body ps # js \<Longrightarrow> fv_counters v = Inl flt \<Longrightarrow>
    finishSubmitAfterEvaluation cfg signer v ps res (sy_core s) = (c, x) \<Longrightarrow> sys_step cfg signer s (finished s c)"
| tick: "sy_clock s \<le> tv_nowSec v \<Longrightarrow> sys_step cfg signer s (s\<lparr>sy_core := tickInner cfg v (sy_core s), sy_clock := tv_nowSec v\<rparr>)"
| lookup: "sy_clock s \<le> now \<Longrightarrow> sys_step cfg signer s (s\<lparr>sy_core := snd (getReceiptByHash cfg now h (sy_core s)), sy_clock := now\<rparr>)"
| surface: "c \<in> {freeze why (sy_core s), unfreeze (sy_core s), invalidateBaselines (sy_core s), fst (setRecomputedBaseline rt b vr (sy_core s))} \<Longrightarrow>
    sys_step cfg signer s (s\<lparr>sy_core := c\<rparr>)"

definition booted :: "core \<Rightarrow> int \<Rightarrow> sys" where
  "booted c now = \<lparr>sy_core = c, sy_intake = \<lparr>iq_submitQueueDepth = 0, iq_pendingSubmitsByMiner = []\<rparr>, sy_jobs = [], sy_clock = now,
     sy_chainIndex = (\<lambda>_. 0), sy_signed = []\<rparr>"

inductive reach :: "CoordConfig \<Rightarrow> signer option \<Rightarrow> sys \<Rightarrow> sys \<Rightarrow> bool" for cfg signer where
  start: "reach cfg signer s s"
| further: "reach cfg signer s t \<Longrightarrow> sys_step cfg signer t u \<Longrightarrow> reach cfg signer s u"

section \<open>What a step does to the core\<close>

lemma chain_part_prepare: "chain_part (fst (prepareSubmitEvaluation cfg hs now e body c)) = chain_part c"
  by (simp add: mirror.prepare_frame)

lemma chain_part_finish: "chain_part (fst (finishSubmitAfterEvaluation cfg sg v ps res c)) = chain_part c"
  unfolding finishSubmitAfterEvaluation_def
  by (intro mirror.bind) (auto intro!: mirror.bind simp: prod.case_eq_if dest: mirror.receipt_to_sign_frame mirror.request_signature_frame
    intro: mirror.receipt_to_sign_frame [OF surjective_pairing] mirror.request_signature_frame [OF surjective_pairing])

lemma finished_fields [simp]:
  "sy_core (finished s c) = c" "sy_clock (finished s c) = sy_clock s" "sy_chainIndex (finished s c) = sy_chainIndex s" "sy_signed (finished s c) = sy_signed s"
  "sy_jobs (finished s c) = tl (sy_jobs s)" "sy_intake (finished s c) = submit_leave (job_body (hd (sy_jobs s))) (sy_intake s)"
  by (simp_all add: finished_def)

text \<open>Only a tick moves the mirror of the chain.\<close>

lemma step_core:
  assumes "sys_step cfg sg s t"
  shows "chain_part (sy_core t) = chain_part (sy_core s) \<or> (\<exists>v. sy_core t = tickInner cfg v (sy_core s))"
  using assms
proof cases
  case (prepared body js now e c ps)
  then show ?thesis using chain_part_prepare [of cfg "sg \<noteq> None" now e body "sy_core s"] by simp
next
  case (unprepared body js now e c r)
  then show ?thesis using chain_part_prepare [of cfg "sg \<noteq> None" now e body "sy_core s"] by simp
next
  case (signed body ps js v k res d r n c acc)
  then show ?thesis using chain_part_finish [of cfg sg v ps res "sy_core s"] by simp
next
  case (unsigned body ps js v k res c x)
  then show ?thesis using chain_part_finish [of cfg sg v ps res "sy_core s"] by simp
next
  case (uncounted body ps js v flt res c x)
  then show ?thesis using chain_part_finish [of cfg sg v ps res "sy_core s"] by simp
next
  case (unevaluated body ps js)
  have "chain_part (fst (evaluator_failed (sy_core s) :: core \<times> unit reply)) = chain_part (sy_core s)" unfolding evaluator_failed_def by (intro mirror.bind) simp_all
  then show ?thesis using unevaluated by simp
qed auto

interpretation pinned_parent: watcher_invariant cfg "\<lambda>c. co_parentState c = ps \<and> co_parentRoot c = pr" UNIV for cfg ps pr
proof
  fix c d c' :: core and ev rd ok now
  show "(co_parentState c = ps \<and> co_parentRoot c = pr) \<longleftrightarrow> (co_parentState d = ps \<and> co_parentRoot d = pr)" if "data_part c = data_part d"
    using that by (simp add: data_part_def chain_part_def)
  show "co_parentState c' = ps \<and> co_parentRoot c' = pr" if inv: "co_parentState c = ps \<and> co_parentRoot c = pr" and app: "applyChainEvent cfg ev c = Inr c'"
  proof (cases "c' = c")
    case False
    then obtain s r where c': "c' = settle_receipts ev r (commit_advance ev s r c)" using app by (auto simp: applyChainEvent_Inr split: if_splits)
    show ?thesis using chain_part_eqD(3,4) [of c' "commit_advance ev s r c"] c' inv by simp
  qed (use inv in simp)
  show "co_parentState c' = ps \<and> co_parentRoot c' = pr" if inv: "co_parentState c = ps \<and> co_parentRoot c = pr" and r: "handleReorg rd c = Inr (ok, c')"
  proof -
    obtain n where "chain_part c' = chain_part (prune_states (rollback n c))" using r by (auto simp: handleReorg_Inr)
    from chain_part_eqD(3,4) [OF this] inv show ?thesis by simp
  qed
  show "co_parentState (auditReceiptCacheAgainstCanonicalRoots c) = ps \<and> co_parentRoot (auditReceiptCacheAgainstCanonicalRoots c) = pr"
      if "co_parentState c = ps \<and> co_parentRoot c = pr"
    using that chain_part_eqD(3,4) [of "auditReceiptCacheAgainstCanonicalRoots c" c] by simp
  show "co_parentState (gcPending cfg now c) = ps \<and> co_parentRoot (gcPending cfg now c) = pr" if "co_parentState c = ps \<and> co_parentRoot c = pr"
    using that chain_part_eqD(3,4) [of "gcPending cfg now c" c] by simp
qed

section \<open>The mirror of the chain\<close>

lemma reach_core:
  assumes "reach cfg sg s t" "core_inv (sy_core s)"
  shows "core_inv (sy_core t) \<and> co_parentState (sy_core t) = co_parentState (sy_core s) \<and> co_parentRoot (sy_core t) = co_parentRoot (sy_core s)"
  using assms
proof induction
  case (further s t u)
  then consider "chain_part (sy_core u) = chain_part (sy_core t)" | v where "sy_core u = tickInner cfg v (sy_core t)" using step_core by blast
  then show ?case
  proof cases
    case 1
    then show ?thesis using further core_inv_cong [OF 1] chain_part_eqD(3,4) [OF 1] by simp
  next
    case (2 v)
    then show ?thesis using further tracked.tick [of "sy_core t" v cfg]
      pinned_parent.tick [of "sy_core t" "co_parentState (sy_core s)" "co_parentRoot (sy_core s)" v cfg] by simp
  qed
qed simp

lemma statePackedHex_pack: "wf_state s \<Longrightarrow> \<exists>bytes. pack s = Inr bytes \<and> statePackedHex s = bytesToHex bytes"
proof -
  assume wf: "wf_state s"
  have "map (\<lambda>i. be_bytes 32 (nth_or 0 (words s) i)) [0..<1024] = map (be_bytes 32) (words s)"
    using wf_state_length [OF wf] by (intro nth_equalityI) (simp_all add: nth_or_def del: be_bytes.simps upt_rec_numeral)
  then show ?thesis using wf_state_length [OF wf] by (simp add: pack_eq statePackedHex_def del: be_bytes.simps upt_rec_numeral)
qed

lemma boot_root:
  assumes "boot cfg bv = Inr c"
  shows "co_parentRoot c = toLowerCase (pn_parentStateRoot (cc_expectedEpochPins cfg))"
proof -
  obtain parent r b where p: "boot_parent cfg bv = Inr (parent, r)"
      and rep: "boot_replay cfg bv ((initial_core cfg)\<lparr>co_liveState := parent, co_liveRoot := r, co_parentState := parent,
        co_parentRoot := r, co_stateByRoot := [(r, parent)], co_baselineByRoot := [(r, b)]\<rparr>) = Inr c"
    using assms by (auto simp: boot_def chain_bind_Inr)
  have "r = toLowerCase (pn_parentStateRoot (cc_expectedEpochPins cfg))"
    using p unfolding boot_parent_def chain_bind_Inr by (auto simp: chain_bind_Inr chain_require_def pins_agree_def split: if_splits)
  then show ?thesis using pinned_parent.boot_replay_keeps [OF _ rep, of parent r] by simp
qed

text \<open>C3. The core only follows the chain. However submissions, evaluations, signatures, ticks, lookups, freezes and baseline
  updates are interleaved after boot: the live state is reached from the pinned parent by a list of valid patches, one per
  transition; the live root is its Merkle root; and every substrate that is served is the packed form of a
  state with the root that was asked for.\<close>

theorem core_tracks_chain:
  assumes "boot cfg bv = Inr c0" "\<forall>r s. bv_parentLoader bv r = Inr s \<longrightarrow> wf_state s" "reach cfg sg (booted c0 now) t"
  shows "root_of (co_parentState c0) (toLowerCase (pn_parentStateRoot (cc_expectedEpochPins cfg))) \<and>
    (\<exists>hist. apply_chain True (co_parentState c0) hist = Inr (co_liveState (sy_core t)) \<and> int (length hist) = co_lastTransitionIndex (sy_core t) + 1) \<and>
    root_of (co_liveState (sy_core t)) (co_liveRoot (sy_core t)) \<and>
    (\<forall>r out. getSubstrate r (sy_core t) = Some out \<longrightarrow>
      (\<exists>s bytes. root_of s (toLowerCase r) \<and> pack s = Inr bytes \<and> out = (toLowerCase r, bytesToHex bytes)))"
proof -
  have inv0: "core_inv c0" by (rule boot_inv [OF assms(1)]) (use assms(2) in blast)
  have inv: "core_inv (sy_core t)" and par: "co_parentState (sy_core t) = co_parentState c0"
    using reach_core [OF assms(3)] inv0 by (simp_all add: booted_def)
  obtain hist where hist: "history_ok (sy_core t) hist" using core_invD(8) [OF inv] by blast
  have served: "\<exists>s bytes. root_of s (toLowerCase r) \<and> pack s = Inr bytes \<and> out = (toLowerCase r, bytesToHex bytes)"
    if got: "getSubstrate r (sy_core t) = Some out" for r out
  proof -
    obtain s where s: "map_of (co_stateByRoot (sy_core t)) (toLowerCase r) = Some s" "out = (toLowerCase r, statePackedHex s)"
      using got by (auto simp: getSubstrate_def split: option.splits)
    have "root_of s (toLowerCase r)" using core_invD(3) [OF inv] map_of_SomeD [OF s(1)] by blast
    moreover from this obtain bytes where "pack s = Inr bytes" "statePackedHex s = bytesToHex bytes" using statePackedHex_pack by (auto simp: root_of_def)
    ultimately show ?thesis using s(2) by auto
  qed
  have "root_of (co_parentState c0) (toLowerCase (pn_parentStateRoot (cc_expectedEpochPins cfg)))" using core_invD(2) [OF inv0] boot_root [OF assms(1)] by simp
  moreover have "apply_chain True (co_parentState c0) hist = Inr (co_liveState (sy_core t)) \<and> int (length hist) = co_lastTransitionIndex (sy_core t) + 1"
    using hist par by (simp add: history_ok_def)
  ultimately show ?thesis using core_invD(1) [OF inv] served by blast
qed

section \<open>The intake\<close>

definition of_miner :: "string \<Rightarrow> SubmitBody list \<Rightarrow> SubmitBody list" where
  "of_miner m bodies = filter (\<lambda>b. intake_miner b = Some m) bodies"

text \<open>The counters are those of the queued requests, and the requests are within the limits.\<close>

definition intake_ok :: "CoordConfig \<Rightarrow> Intake \<Rightarrow> SubmitBody list \<Rightarrow> bool" where
  "intake_ok cfg q bodies \<longleftrightarrow> iq_submitQueueDepth q = int (length bodies) \<and> int (length bodies) \<le> max 0 (or_else (cc_maxQueuedSubmits cfg) 16) \<and>
     (\<forall>m. map_of (iq_pendingSubmitsByMiner q) m = (if of_miner m bodies = [] then None else Some (int (length (of_miner m bodies)))) \<and>
       int (length (of_miner m bodies)) \<le> max 0 (or_else (cc_maxQueuedSubmitsPerMiner cfg) 4))"

lemma queued_for_ok: "intake_ok cfg q bodies \<Longrightarrow> queued_for q m = int (length (of_miner m bodies))"
  by (simp add: intake_ok_def queued_for_def or_else_def)

lemma enter_ok:
  assumes "intake_ok cfg q bodies" "submit_enter cfg body q = Inr q'"
  shows "intake_ok cfg q' (bodies @ [body])"
proof (cases "intake_miner body")
  case None
  then have "of_miner m (bodies @ [body]) = of_miner m bodies" for m by (simp add: of_miner_def)
  moreover have "q' = q\<lparr>iq_submitQueueDepth := iq_submitQueueDepth q + 1\<rparr>" "\<not> iq_submitQueueDepth q \<ge> or_else (cc_maxQueuedSubmits cfg) 16"
    using assms(2) None by (auto simp: submit_enter_def opt_all_def split: if_splits)
  ultimately show ?thesis using assms(1) by (simp add: intake_ok_def)
next
  case (Some m)
  then have q': "q' = q\<lparr>iq_submitQueueDepth := iq_submitQueueDepth q + 1, iq_pendingSubmitsByMiner := AList.update m (queued_for q m + 1) (iq_pendingSubmitsByMiner q)\<rparr>"
      and lt: "\<not> iq_submitQueueDepth q \<ge> or_else (cc_maxQueuedSubmits cfg) 16" "queued_for q m < or_else (cc_maxQueuedSubmitsPerMiner cfg) 4"
    using assms(2) by (auto simp: submit_enter_def opt_all_def queued_for_def Let_def split: if_splits)
  have of: "of_miner k (bodies @ [body]) = (if k = m then of_miner k bodies @ [body] else of_miner k bodies)" for k
    using Some by (simp add: of_miner_def)
  show ?thesis
    using assms(1) lt queued_for_ok [OF assms(1), of m] unfolding intake_ok_def q' of by (auto simp: update_conv')
qed

lemma leave_ok:
  assumes "intake_ok cfg q (body # bodies)"
  shows "intake_ok cfg (submit_leave body q) bodies"
proof (cases "intake_miner body")
  case None
  then have "of_miner m (body # bodies) = of_miner m bodies" for m by (simp add: of_miner_def)
  then show ?thesis using assms None by (auto simp: intake_ok_def submit_leave_def)
next
  case (Some m)
  have of: "of_miner k (body # bodies) = (if k = m then body # of_miner k bodies else of_miner k bodies)" for k using Some by (auto simp: of_miner_def)
  have left: "or_else (map_of (iq_pendingSubmitsByMiner q) m) 1 - 1 = int (length (of_miner m bodies))"
    using assms by (simp add: intake_ok_def of or_else_def)
  have counts: "map_of (iq_pendingSubmitsByMiner (submit_leave body q)) k = (if of_miner k bodies = [] then None else Some (int (length (of_miner k bodies))))" for k
    using assms Some left by (auto simp: intake_ok_def submit_leave_def Let_def of update_conv' delete_conv' or_else_def)
  have "iq_submitQueueDepth (submit_leave body q) = iq_submitQueueDepth q - 1" using Some by (simp add: submit_leave_def Let_def)
  moreover have "int (length (of_miner k bodies)) \<le> max 0 (or_else (cc_maxQueuedSubmitsPerMiner cfg) 4)" for k
  proof -
    have "int (length (of_miner k bodies)) \<le> int (length (of_miner k (body # bodies)))" by (simp add: of_miner_def)
    also have "\<dots> \<le> max 0 (or_else (cc_maxQueuedSubmitsPerMiner cfg) 4)" using assms unfolding intake_ok_def by blast
    finally show ?thesis .
  qed
  ultimately show ?thesis using assms counts by (simp add: intake_ok_def)
qed

lemma step_intake:
  assumes "sys_step cfg sg s t" "intake_ok cfg (sy_intake s) (map job_body (sy_jobs s))"
  shows "intake_ok cfg (sy_intake t) (map job_body (sy_jobs t))"
  using assms by (cases rule: sys_step.cases) (auto intro: enter_ok leave_ok)

text \<open>C6. The submit queue is bounded and its counters are exact: in every reachable state the depth is the number of requests
  that are queued or running and at most the configured maximum (or its default), the counter of each miner is the number
  of that miner's requests and at most the per-miner maximum, and no counter is left behind for a miner without requests.\<close>

theorem intake_bounded:
  assumes "reach cfg sg (booted c0 now) t"
  shows "intake_ok cfg (sy_intake t) (map job_body (sy_jobs t))"
  using assms
proof (induction "booted c0 now" t rule: reach.induct)
  case start
  show ?case by (simp add: intake_ok_def booted_def of_miner_def)
qed (rule step_intake)

section \<open>Solve indices\<close>

abbreviation "se_index e \<equiv> rp_solveIndex (se_payload e)"
abbreviation "se_expires e \<equiv> rp_expiresAt (se_payload e)"

text \<open>A signed receipt has expired, or the chain has passed its index, or a reservation that lives at least as long keeps the index.\<close>

definition accounted :: "int \<Rightarrow> (string \<Rightarrow> bigint) \<Rightarrow> (string \<times> ChainReservation) list \<Rightarrow> signed_entry \<Rightarrow> bool" where
  "accounted now idx rs e \<longleftrightarrow> se_expires e \<le> now \<or> se_index e < idx (se_miner e) \<or>
     (\<exists>r. map_of rs (se_miner e) = Some r \<and> se_index e < cr_nextIndex r \<and> se_expires e \<le> cr_expiresAt r)"

lemma accounted_later: "accounted now idx rs e \<Longrightarrow> now \<le> now' \<Longrightarrow> accounted now' idx rs e"
  by (auto simp: accounted_def)

lemma reservations_simps [simp]:
  "co_minerChainReservations (bump f c) = co_minerChainReservations c" "co_minerChainReservations (settle_receipts ev r c) = co_minerChainReservations c"
  "co_minerChainReservations (commit_advance ev s r c) = co_minerChainReservations c"
  "co_minerChainReservations (auditReceiptCacheAgainstCanonicalRoots c) = co_minerChainReservations c"
  "co_minerChainReservations (reconcilePendingFromCanonicalSnapshots c) = co_minerChainReservations c"
  "co_minerChainReservations (prune_states c) = co_minerChainReservations c" "co_minerChainReservations (rollback n c) = co_minerChainReservations c"
  "co_minerChainReservations (expire_pending cfg now c en) = co_minerChainReservations c"
  "co_minerChainReservations (expire_receipt cfg now c er) = co_minerChainReservations c"
  by (simp_all add: bump_def settle_receipts_def commit_advance_def auditReceiptCacheAgainstCanonicalRoots_def reconcilePendingFromCanonicalSnapshots_def
    prune_states_def rollback_def expire_pending_def expire_receipt_def markExpiredReceiptHash_def forget_receipt_def Let_def split: prod.splits option.splits)

lemma gc_reservations:
  "co_minerChainReservations (gcPending cfg now c) = filter (\<lambda>(k, r). \<not> cr_expiresAt r \<le> now) (co_minerChainReservations c)"
  by (simp add: gcPending_def Let_def foldl_keeps [where f = co_minerChainReservations])

lemma map_of_filter_kept: "map_of al k = Some v \<Longrightarrow> P v \<Longrightarrow> map_of (filter (\<lambda>(k, v). P v) al) k = Some v"
  by (induction al) (auto split: if_splits)

lemma accounted_gc: "accounted now idx rs e \<Longrightarrow> accounted now idx (filter (\<lambda>(k, r). \<not> cr_expiresAt r \<le> now) rs) e"
  unfolding accounted_def using map_of_filter_kept [of rs "se_miner e" _ "\<lambda>r. \<not> cr_expiresAt r \<le> now"] by (metis order_trans)

interpretation reserved: watcher_invariant cfg "\<lambda>c. \<forall>e \<in> E. accounted now idx (co_minerChainReservations c) e" "{now}" for cfg E now idx
proof
  fix c d c' :: core and ev rd ok n
  show "(\<forall>e \<in> E. accounted now idx (co_minerChainReservations c) e) \<longleftrightarrow> (\<forall>e \<in> E. accounted now idx (co_minerChainReservations d) e)" if "data_part c = data_part d"
    using that by (simp add: data_part_def)
  show "\<forall>e \<in> E. accounted now idx (co_minerChainReservations c') e" if "\<forall>e \<in> E. accounted now idx (co_minerChainReservations c) e" "applyChainEvent cfg ev c = Inr c'"
    using that by (auto simp: applyChainEvent_Inr split: if_splits)
  show "\<forall>e \<in> E. accounted now idx (co_minerChainReservations c') e" if "\<forall>e \<in> E. accounted now idx (co_minerChainReservations c) e" "handleReorg rd c = Inr (ok, c')"
    using that by (auto simp: handleReorg_Inr)
qed (simp_all add: gc_reservations accounted_gc)

lemma h_bind_state: "fst (h_bind m f c) = (case snd (m c) of Returned x \<Rightarrow> fst (f x (fst (m c))) | _ \<Rightarrow> fst (m c))"
  by (simp add: h_bind_def split: prod.splits reply.splits)

text \<open>A finish that signs nothing leaves the reservations alone or drops the miner's reservation after the chain has passed it.\<close>

definition caught_up :: "FinishView \<Rightarrow> string \<Rightarrow> (string \<times> ChainReservation) list \<Rightarrow> (string \<times> ChainReservation) list \<Rightarrow> bool" where
  "caught_up v m rs rs' \<longleftrightarrow> rs' = rs \<or> (\<exists>k r. fv_counters v = Inr k \<and> map_of rs m = Some r \<and> cr_nextIndex r \<le> mc_nextIndex k \<and> rs' = AList.delete m rs)"

lemma reserve_caught_up: "fv_counters v = Inr k \<Longrightarrow>
    caught_up v m (co_minerChainReservations c) (co_minerChainReservations (fst (reserve_index cfg m adv k c)))"
  by (auto simp: caught_up_def reserve_index_def h_bind_def h_gets_def h_modify_def h_return_def h_require_def rejectSubmission_def bump_def Let_def
    split: option.splits if_splits)

lemma caught_up_refl [simp]: "caught_up v m rs rs"
  by (simp add: caught_up_def)

lemma bind_before:
  assumes "\<And>c. co_minerChainReservations (fst (g c)) = co_minerChainReservations c"
    "\<And>d x. g c = (d, Returned x) \<Longrightarrow> caught_up v m (co_minerChainReservations d) (co_minerChainReservations (fst (f x d)))"
  shows "caught_up v m (co_minerChainReservations c) (co_minerChainReservations (fst (h_bind g f c)))"
  using assms(1) [of c] assms(2) by (cases "g c"; cases "snd (g c)") (auto simp: h_bind_state)

lemma bind_after:
  assumes "caught_up v m (co_minerChainReservations c) (co_minerChainReservations (fst (g c)))"
    "\<And>x d. co_minerChainReservations (fst (f x d)) = co_minerChainReservations d"
  shows "caught_up v m (co_minerChainReservations c) (co_minerChainReservations (fst (h_bind g f c)))"
  using assms by (cases "snd (g c)") (auto simp: h_bind_state)

lemma receipt_to_sign_reservations:
  "caught_up v (pb_miner (ps_parsed ps)) (co_minerChainReservations c) (co_minerChainReservations (fst (receipt_to_sign cfg v ps res c)))"
  unfolding receipt_to_sign_def Let_def
proof (rule bind_before, simp, rule bind_before, simp, rule bind_before, simp, rule bind_after, rule reserve_caught_up)
qed (auto intro!: held.bind)

lemma finish_reservations:
  assumes "finishSubmitAfterEvaluation cfg sg v ps res c = (c', x)" "\<not> (\<exists>acc. x = Returned acc)"
  shows "caught_up v (pb_miner (ps_parsed ps)) (co_minerChainReservations c) (co_minerChainReservations c')"
proof -
  obtain d y where d: "receipt_to_sign cfg v ps res c = (d, y)" by fastforce
  have cu: "caught_up v (pb_miner (ps_parsed ps)) (co_minerChainReservations c) (co_minerChainReservations d)"
    using receipt_to_sign_reservations [of v ps c cfg res] d by simp
  show ?thesis
  proof (cases y)
    case (Returned rn)
    obtain r n where rn: "rn = (r, n)" by fastforce
    obtain e z where e: "request_signature sg (pb_miner (ps_parsed ps)) r d = (e, z)" by fastforce
    have "c' = e" using assms d Returned rn e by (cases z) (auto simp: finishSubmitAfterEvaluation_def h_bind_def h_modify_def h_return_def)
    then show ?thesis using cu held.request_signature_frame [OF e] by simp
  qed (use assms(1) d cu in \<open>auto simp: finishSubmitAfterEvaluation_def h_bind_def\<close>)
qed

lemma sign_accounts:
  assumes "reserve_index cfg m adv k c = (d, Returned (i, h, n))" "idx m \<le> mc_nextIndex k"
    "accounted now idx (co_minerChainReservations c) e" "se_expires e \<le> cr_expiresAt r" "cr_nextIndex r = i + 1"
  shows "accounted now (idx(m := mc_nextIndex k)) (AList.update m r (co_minerChainReservations d)) e"
    "se_miner e = m \<Longrightarrow> se_index e = i \<Longrightarrow> se_expires e \<le> now"
proof -
  note ix = reserve_index_Returned [OF assms(1)]
  have oth: "map_of (co_minerChainReservations d) m' = map_of (co_minerChainReservations c) m'" if "m' \<noteq> m" for m'
    using ix that by (auto simp: delete_conv' split: option.splits if_splits)
  have low: "se_expires e \<le> now \<or> se_index e < i" if "se_miner e = m"
    using assms(2,3) ix that by (auto simp: accounted_def split: option.splits if_splits)
  show "accounted now (idx(m := mc_nextIndex k)) (AList.update m r (co_minerChainReservations d)) e"
    using assms(3-5) low oth by (cases "se_miner e = m") (auto simp: accounted_def update_conv')
  show "se_expires e \<le> now" if "se_miner e = m" "se_index e = i" using low that by simp
qed

lemma drop_accounts:
  assumes "caught_up v m rs rs'" "fv_counters v = Inr k" "idx m \<le> mc_nextIndex k" "accounted now idx rs e"
  shows "accounted now (idx(m := mc_nextIndex k)) rs' e"
  using assms by (cases "se_miner e = m") (auto simp: accounted_def caught_up_def delete_conv')

definition index_inv :: "CoordConfig \<Rightarrow> sys \<Rightarrow> bool" where
  "index_inv cfg s \<longleftrightarrow> core_inv (sy_core s) \<and>
     (\<forall>e \<in> set (sy_signed s). accounted (sy_clock s) (sy_chainIndex s) (co_minerChainReservations (sy_core s)) e \<and>
       se_expires e \<le> sy_clock s + cc_receiptTtlSec cfg) \<and>
     (\<forall>body ps. Evaluating body ps \<in> set (sy_jobs s) \<longrightarrow> prepared_ok ps \<and> ps_now ps \<le> sy_clock s \<and>
       (\<forall>e \<in> set (sy_signed s). se_expires e \<le> ps_now ps + cc_receiptTtlSec cfg)) \<and>
     (\<forall>j \<in> set (tl (sy_jobs s)). \<exists>body. j = Waiting body) \<and>
     sorted_wrt (\<lambda>a b. se_miner a = se_miner b \<and> se_index a = se_index b \<longrightarrow> se_expires a \<le> se_at b) (sy_signed s)"

lemma index_invI:
  assumes "core_inv (sy_core s)"
    "\<And>e. e \<in> set (sy_signed s) \<Longrightarrow> accounted (sy_clock s) (sy_chainIndex s) (co_minerChainReservations (sy_core s)) e"
    "\<And>e. e \<in> set (sy_signed s) \<Longrightarrow> se_expires e \<le> sy_clock s + cc_receiptTtlSec cfg"
    "\<And>body ps. Evaluating body ps \<in> set (sy_jobs s) \<Longrightarrow> prepared_ok ps \<and> ps_now ps \<le> sy_clock s \<and>
       (\<forall>e \<in> set (sy_signed s). se_expires e \<le> ps_now ps + cc_receiptTtlSec cfg)"
    "\<And>j. j \<in> set (tl (sy_jobs s)) \<Longrightarrow> \<exists>body. j = Waiting body"
    "sorted_wrt (\<lambda>a b. se_miner a = se_miner b \<and> se_index a = se_index b \<longrightarrow> se_expires a \<le> se_at b) (sy_signed s)"
  shows "index_inv cfg s"
  unfolding index_inv_def using assms by blast

lemma index_invD:
  assumes "index_inv cfg s"
  shows "core_inv (sy_core s)"
    "\<And>e. e \<in> set (sy_signed s) \<Longrightarrow> accounted (sy_clock s) (sy_chainIndex s) (co_minerChainReservations (sy_core s)) e"
    "\<And>e. e \<in> set (sy_signed s) \<Longrightarrow> se_expires e \<le> sy_clock s + cc_receiptTtlSec cfg"
    "\<And>body ps. Evaluating body ps \<in> set (sy_jobs s) \<Longrightarrow> prepared_ok ps \<and> ps_now ps \<le> sy_clock s \<and>
       (\<forall>e \<in> set (sy_signed s). se_expires e \<le> ps_now ps + cc_receiptTtlSec cfg)"
    "\<And>j. j \<in> set (tl (sy_jobs s)) \<Longrightarrow> \<exists>body. j = Waiting body"
    "sorted_wrt (\<lambda>a b. se_miner a = se_miner b \<and> se_index a = se_index b \<longrightarrow> se_expires a \<le> se_at b) (sy_signed s)"
  using assms unfolding index_inv_def by blast+

text \<open>Steps that sign nothing and keep or consume jobs.\<close>

lemma index_inv_quiet:
  assumes "index_inv cfg s" "core_inv (sy_core t)" "sy_signed t = sy_signed s" "sy_clock s \<le> sy_clock t"
    "\<And>e. e \<in> set (sy_signed s) \<Longrightarrow> accounted (sy_clock t) (sy_chainIndex t) (co_minerChainReservations (sy_core t)) e"
    "sy_jobs t = sy_jobs s \<or> sy_jobs t = tl (sy_jobs s) \<or> (\<exists>body. sy_jobs t = sy_jobs s @ [Waiting body])"
  shows "index_inv cfg t"
proof (rule index_invI)
  note inv = index_invD [OF assms(1)]
  show "core_inv (sy_core t)" by fact
  show "se_expires e \<le> sy_clock t + cc_receiptTtlSec cfg" if "e \<in> set (sy_signed t)" for e using inv(3) [of e] that assms(3,4) by simp
  show "prepared_ok ps \<and> ps_now ps \<le> sy_clock t \<and> (\<forall>e \<in> set (sy_signed t). se_expires e \<le> ps_now ps + cc_receiptTtlSec cfg)"
    if "Evaluating body ps \<in> set (sy_jobs t)" for body ps
  proof -
    have "Evaluating body ps \<in> set (sy_jobs s)" using that assms(6) by (cases "sy_jobs s") auto
    from inv(4) [OF this] show ?thesis using assms(3,4) by auto
  qed
  show "\<exists>body. j = Waiting body" if "j \<in> set (tl (sy_jobs t))" for j
    using inv(5) [of j] that assms(6) by (cases "sy_jobs s"; cases "tl (sy_jobs s)") auto
qed (use assms index_invD(6) [OF assms(1)] in auto)

lemma lookup_reservations:
  "co_minerChainReservations (snd (getReceiptByHash cfg now h c)) = co_minerChainReservations (gcPending cfg now c)"
  by (auto simp: getReceiptByHash_def Let_def markExpiredReceiptHash_def forget_receipt_def split: option.splits)

lemma finish_Returned:
  assumes "receipt_to_sign cfg v ps res c = (d, Returned (r, n))" "finishSubmitAfterEvaluation cfg sg v ps res c = (c', Returned acc)"
  shows "\<exists>d' s. co_minerChainReservations d' = co_minerChainReservations d \<and> c' = commit_receipt cfg ps r s d' \<and>
    co_minerChainReservations c' = AList.update (pb_miner (ps_parsed ps)) \<lparr>cr_nextIndex = rp_solveIndex r + 1,
      cr_lastReceiptHash = map_option toLowerCase (sg_receiptHash s), cr_expiresAt = rp_expiresAt r\<rparr> (co_minerChainReservations d)"
proof -
  obtain d' s where s: "request_signature sg (pb_miner (ps_parsed ps)) r d = (d', Returned s)" "c' = commit_receipt cfg ps r s d'"
    using assms(2) unfolding finishSubmitAfterEvaluation_def h_bind_Returned assms(1) by (auto simp: h_bind_Returned)
  then show ?thesis using held.request_signature_frame [OF s(1)]
    by (intro exI [of _ d'] exI [of _ s]) (simp add: commit_receipt_def cacheReceipt_def Let_def)
qed

lemma step_signed:
  assumes "index_inv cfg s" "sy_jobs s = Evaluating body ps # js" "fv_counters v = Inr k" "sy_chainIndex s (pb_miner (ps_parsed ps)) \<le> mc_nextIndex k"
    "receipt_to_sign cfg v ps res (sy_core s) = (d, Returned (r, n))" "finishSubmitAfterEvaluation cfg sg v ps res (sy_core s) = (c, Returned acc)"
    "core_inv c"
  shows "index_inv cfg ((finished s c)\<lparr>sy_chainIndex := (sy_chainIndex s)(pb_miner (ps_parsed ps) := mc_nextIndex k),
      sy_signed := sy_signed s @ [\<lparr>se_miner = pb_miner (ps_parsed ps), se_payload = r, se_at = sy_clock s\<rparr>]\<rparr>)" (is "index_inv cfg ?t")
proof (rule index_invI)
  note inv = index_invD [OF assms(1)]
  let ?m = "pb_miner (ps_parsed ps)" and ?new = "\<lparr>se_miner = pb_miner (ps_parsed ps), se_payload = r, se_at = sy_clock s\<rparr>"
  have ps: "prepared_ok ps" "ps_now ps \<le> sy_clock s" "\<forall>e \<in> set (sy_signed s). se_expires e \<le> ps_now ps + cc_receiptTtlSec cfg"
    using inv(4) [of body ps] assms(2) by auto
  note rts = receipt_to_sign_Returned [OF ps(1) core_lower(2) [OF inv(1)] assms(5)]
  obtain h where ix: "reserve_index cfg ?m (is_advance res) k (sy_core s) = (d, Returned (rp_solveIndex r, h, n))" using rts assms(3) by auto
  have exp: "rp_expiresAt r = ps_now ps + cc_receiptTtlSec cfg" using rts by (simp add: gates_passed_def)
  obtain rv where rv: "co_minerChainReservations c = AList.update ?m rv (co_minerChainReservations d)" "cr_nextIndex rv = rp_solveIndex r + 1" "cr_expiresAt rv = rp_expiresAt r"
    using finish_Returned [OF assms(5,6)] by force
  have old: "se_expires e \<le> cr_expiresAt rv" if "e \<in> set (sy_signed s)" for e using ps(3) exp rv(3) that by simp
  note acc = sign_accounts [OF ix assms(4) inv(2) old rv(2)]
  show "core_inv (sy_core ?t)" using assms(7) by simp
  show "accounted (sy_clock ?t) (sy_chainIndex ?t) (co_minerChainReservations (sy_core ?t)) e" if "e \<in> set (sy_signed ?t)" for e
    using that acc(1) rv by (auto simp: accounted_def [of _ _ _ ?new] update_conv')
  show "se_expires e \<le> sy_clock ?t + cc_receiptTtlSec cfg" if "e \<in> set (sy_signed ?t)" for e
    using that inv(3) exp ps(2) by auto
  show "prepared_ok qs \<and> ps_now qs \<le> sy_clock ?t \<and> (\<forall>e \<in> set (sy_signed ?t). se_expires e \<le> ps_now qs + cc_receiptTtlSec cfg)"
    if "Evaluating b qs \<in> set (sy_jobs ?t)" for b qs
    using that inv(5) [of "Evaluating b qs"] assms(2) by auto
  show "\<exists>body. j = Waiting body" if "j \<in> set (tl (sy_jobs ?t))" for j using inv(5) [of j] that assms(2) by (cases js) auto
  show "sorted_wrt (\<lambda>a b. se_miner a = se_miner b \<and> se_index a = se_index b \<longrightarrow> se_expires a \<le> se_at b) (sy_signed ?t)"
    using inv(6) acc(2) by (auto simp: sorted_wrt_append)
qed

lemma step_prepared:
  assumes "index_inv cfg s" "sy_jobs s = Waiting body # js" "sy_clock s \<le> now"
    "prepareSubmitEvaluation cfg hs now e body (sy_core s) = (c, Returned ps)" "core_inv c"
  shows "index_inv cfg (s\<lparr>sy_core := c, sy_jobs := Evaluating body ps # js, sy_clock := now\<rparr>)" (is "index_inv cfg ?t")
proof (rule index_invI)
  note inv = index_invD [OF assms(1)] and sound = prepared_sound [OF index_invD(1) [OF assms(1)] assms(4)]
  show "core_inv (sy_core ?t)" using assms(5) by simp
  show "accounted (sy_clock ?t) (sy_chainIndex ?t) (co_minerChainReservations (sy_core ?t)) e" if "e \<in> set (sy_signed ?t)" for e
    using accounted_gc [OF accounted_later [OF inv(2) assms(3)]] that by (simp add: sound(5) gc_reservations)
  show exp: "se_expires e \<le> sy_clock ?t + cc_receiptTtlSec cfg" if "e \<in> set (sy_signed ?t)" for e using inv(3) [of e] that assms(3) by simp
  have only: "\<not> Evaluating b qs \<in> set js" for b qs using inv(5) assms(2) by auto
  show "prepared_ok qs \<and> ps_now qs \<le> sy_clock ?t \<and> (\<forall>e \<in> set (sy_signed ?t). se_expires e \<le> ps_now qs + cc_receiptTtlSec cfg)"
    if "Evaluating b qs \<in> set (sy_jobs ?t)" for b qs
    using that only sound(1,6) exp by auto
  show "\<exists>body. j = Waiting body" if "j \<in> set (tl (sy_jobs ?t))" for j using inv(5) [of j] that assms(2) by auto
qed (use index_invD(6) [OF assms(1)] in simp)

lemma step_index:
  assumes "sys_step cfg sg s t" "index_inv cfg s"
  shows "index_inv cfg t"
proof -
  note inv = index_invD [OF assms(2)]
  have core: "core_inv (sy_core t)"
    using step_core [OF assms(1)] core_inv_cong [of "sy_core t" "sy_core s"] inv(1) tracked.tick [OF inv(1)] by auto
  have swept: "accounted now (sy_chainIndex s) (co_minerChainReservations (gcPending cfg now (sy_core s))) e" if "e \<in> set (sy_signed s)" "sy_clock s \<le> now" for e now
    using accounted_gc [OF accounted_later [OF inv(2) that(2)]] that(1) by (simp add: gc_reservations)
  from assms(1) show ?thesis
  proof cases
    case (signed body ps js v k res d r n c acc)
    then show ?thesis using step_signed [OF assms(2)] core by simp
  next
    case (prepared body js now e c ps)
    then show ?thesis using step_prepared [OF assms(2)] core by simp
  next
    case (unprepared body js now e c r)
    then show ?thesis using swept held.prepare_frame [of cfg "sg \<noteq> None" now e body "sy_core s"] by (intro index_inv_quiet [OF assms(2) core]) auto
  next
    case (unsigned body ps js v k res c x)
    then show ?thesis using drop_accounts [OF finish_reservations [OF unsigned(5,6)]] inv(2) by (intro index_inv_quiet [OF assms(2) core]) auto
  next
    case (uncounted body ps js v flt res c x)
    have "\<not> (\<exists>acc. x = Returned acc)"
    proof
      assume "\<exists>acc. x = Returned acc"
      then obtain d r n where "receipt_to_sign cfg v ps res (sy_core s) = (d, Returned (r, n))"
        using uncounted(4) by (auto simp: finishSubmitAfterEvaluation_def h_bind_Returned)
      from receipt_to_sign_Returned [OF _ core_lower(2) [OF inv(1)] this] inv(4) [of body ps] uncounted(2,3) show False by auto
    qed
    then have "co_minerChainReservations c = co_minerChainReservations (sy_core s)"
      using finish_reservations [OF uncounted(4)] uncounted(3) by (auto simp: caught_up_def)
    then show ?thesis using uncounted inv(2) by (intro index_inv_quiet [OF assms(2) core]) auto
  next
    case (tick v)
    have "\<forall>e \<in> set (sy_signed s). accounted (tv_nowSec v) (sy_chainIndex s) (co_minerChainReservations (tickInner cfg v (sy_core s))) e"
      by (rule reserved.tick) (use accounted_later [OF inv(2) tick(2)] in auto)
    then show ?thesis using tick by (intro index_inv_quiet [OF assms(2) core]) auto
  next
    case (lookup now h)
    then show ?thesis using swept by (intro index_inv_quiet [OF assms(2) core]) (auto simp: lookup_reservations)
  next
    case (unevaluated body ps js)
    have "co_minerChainReservations (fst (evaluator_failed (sy_core s) :: core \<times> unit reply)) = co_minerChainReservations (sy_core s)"
      unfolding evaluator_failed_def by (intro held.bind) simp_all
    then show ?thesis using unevaluated inv(2) by (intro index_inv_quiet [OF assms(2) core]) auto
  next
    case (surface c why rt b vr)
    then have "co_minerChainReservations c = co_minerChainReservations (sy_core s)"
      by (auto simp: freeze_def unfreeze_def invalidateBaselines_def setRecomputedBaseline_def Let_def split: option.splits)
    then show ?thesis using surface inv(2) by (intro index_inv_quiet [OF assms(2) core]) auto
  qed (use inv(2) in \<open>intro index_inv_quiet [OF assms(2) core]; force\<close>)+
qed

lemma reach_index: "reach cfg sg s t \<Longrightarrow> index_inv cfg s \<Longrightarrow> index_inv cfg t"
  by (induction rule: reach.induct) (auto intro: step_index)

text \<open>C5. A solve index is not spent twice. Whatever the interleaving, two receipts signed for the same miner with the same solve
  index are never both live: the earlier one had expired when the later one was signed (for a clock that does not run backwards
  and a chain whose index for a miner never falls).\<close>

theorem solve_index_reserved:
  assumes "boot cfg bv = Inr c0" "\<forall>r s. bv_parentLoader bv r = Inr s \<longrightarrow> wf_state s" "reach cfg sg (booted c0 now) t"
    "i < j" "j < length (sy_signed t)" "se_miner (sy_signed t ! i) = se_miner (sy_signed t ! j)"
    "rp_solveIndex (se_payload (sy_signed t ! i)) = rp_solveIndex (se_payload (sy_signed t ! j))"
  shows "rp_expiresAt (se_payload (sy_signed t ! i)) \<le> se_at (sy_signed t ! j)"
proof -
  have "core_inv c0" by (rule boot_inv [OF assms(1)]) (use assms(2) in blast)
  then have "index_inv cfg (booted c0 now)" by (simp add: index_inv_def booted_def)
  then have "index_inv cfg t" by (rule reach_index [OF assms(3)])
  from index_invD(6) [OF this] show ?thesis using assms(4-7) by (simp add: sorted_wrt_iff_nth_less)
qed

section \<open>A run with two signatures\<close>

lemma reach_trans: "reach cfg sg t u \<Longrightarrow> reach cfg sg s t \<Longrightarrow> reach cfg sg s u"
  by (induction rule: reach.induct) (auto intro: reach.intros)

definition demo_settled :: "bytes \<Rightarrow> core \<Rightarrow> bool" where
  "demo_settled rt c \<longleftrightarrow> chain_part c = chain_part (demo_signing_core rt) \<and> \<not> co_frozen c \<and> co_freezeGeneration c = 0 \<and> co_signingEnabled c \<and>
     co_baselineByRoot c = [(bytesToHex rt, 500000)] \<and> co_currentBaselineVariancePpm c = None"

definition all_expired :: "int \<Rightarrow> core \<Rightarrow> bool" where
  "all_expired now c \<longleftrightarrow> (\<forall>(k, x) \<in> set (co_submitDedup c). x \<le> now) \<and> (\<forall>(k, r) \<in> set (co_minerChainReservations c). cr_expiresAt r \<le> now)"

lemma set_delete: "x \<in> set (AList.delete k al) \<Longrightarrow> x \<in> set al"
  by (induction al) (auto split: if_splits)

lemma expire_dedup: "set (co_submitDedup (expire_pending cfg n c x)) \<subseteq> set (co_submitDedup c)" "co_submitDedup (expire_receipt cfg n c y) = co_submitDedup c"
  by (auto simp: expire_pending_def expire_receipt_def Let_def markExpiredReceiptHash_def forget_receipt_def bump_def dest: set_delete
    split: prod.splits option.splits if_splits)

lemma foldl_dedup_pending: "set (co_submitDedup (foldl (expire_pending cfg n) c xs)) \<subseteq> set (co_submitDedup c)"
proof (induction xs arbitrary: c)
  case (Cons x xs)
  from Cons [of "expire_pending cfg n c x"] expire_dedup(1) [of cfg n c x] show ?case by (simp add: subset_trans)
qed simp

lemma foldl_dedup_receipt: "co_submitDedup (foldl (expire_receipt cfg n) c ys) = co_submitDedup c"
  by (rule foldl_keeps [where f = co_submitDedup]) (rule expire_dedup(2))

lemma gc_dedup: "set (co_submitDedup (gcPending cfg n c)) \<subseteq> {(k, x) \<in> set (co_submitDedup c). \<not> x \<le> n}"
  using foldl_dedup_pending [of cfg n c "co_pendingByPatchHash c"] by (auto simp: gcPending_def Let_def foldl_dedup_receipt)

definition settings :: "core \<Rightarrow> _" where
  "settings c = (co_frozen c, co_freezeGeneration c, co_baselineByRoot c, co_currentBaselineVariancePpm c)"

lemma settings_gc: "settings (gcPending cfg n c) = settings c"
proof -
  have "settings (expire_pending cfg n c x) = settings c" "settings (expire_receipt cfg n c y) = settings c" for c x y
    by (simp_all add: settings_def expire_pending_def expire_receipt_def Let_def markExpiredReceiptHash_def forget_receipt_def bump_def split: prod.splits option.splits)
  then have "settings (foldl (expire_receipt cfg n) (foldl (expire_pending cfg n) c xs) ys) = settings c" for xs ys by (simp add: foldl_keeps [where f = settings])
  then show ?thesis by (simp add: gcPending_def Let_def) (simp add: settings_def)
qed

lemma gc_ready: "demo_settled rt c \<Longrightarrow> all_expired n c \<Longrightarrow> demo_ready rt (gcPending cfg n c)"
proof -
  assume c: "demo_settled rt c" "all_expired n c"
  have "p \<notin> set (co_submitDedup (gcPending cfg n c))" for p
    using subsetD [OF gc_dedup [of cfg n c], of p] c(2) unfolding all_expired_def by auto
  then have "co_submitDedup (gcPending cfg n c) = []" by (metis last_in_set)
  moreover have "co_minerChainReservations (gcPending cfg n c) = []" using c(2) by (auto simp: gc_reservations all_expired_def filter_empty_conv)
  ultimately show ?thesis using c settings_gc [of cfg n c] by (simp add: demo_ready_def demo_settled_def settings_def)
qed

definition demo_signer :: signer where
  "demo_signer m r = Inr \<lparr>sg_signature = ''0x00'', sg_transactionData = ''0x00'', sg_receipt = None, sg_receiptHash = None\<rparr>"

definition idle :: "Intake \<Rightarrow> bool" where
  "idle q \<longleftrightarrow> iq_submitQueueDepth q = 0 \<and> iq_pendingSubmitsByMiner q = []"

lemma demo_miner_intake: "intake_miner (demo_body rt) = Some demo_miner"
proof -
  have "toLowerCase demo_miner = demo_miner" "demo_miner \<noteq> []" by code_simp+
  then show ?thesis by (simp add: intake_miner_def demo_body_def body_string_def)
qed

lemma demo_enter:
  assumes "idle q"
  obtains q' where "submit_enter (demo_signing_cfg rt) (demo_body rt) q = Inr q'" "idle (submit_leave (demo_body rt) q')"
  using assms by (simp add: submit_enter_def demo_miner_intake submit_leave_def idle_def queued_for_def or_else_def opt_all_def demo_signing_cfg_def demo_coord_def)

lemma commit_settled: "demo_settled rt c \<Longrightarrow> demo_settled rt (commit_receipt cfg ps r s c)"
  by (simp add: demo_settled_def commit_receipt_def cacheReceipt_def Let_def)

lemma commit_expiry:
  assumes "co_submitDedup c = []" "co_minerChainReservations c = []"
  shows "all_expired (rp_expiresAt r) (commit_receipt cfg ps r s c)"
  using assms by (simp add: all_expired_def commit_receipt_def cacheReceipt_def Let_def)

lemma demo_round:
  assumes "merkleizeState zero_state = Inr rt" "demo_settled rt (sy_core s)" "all_expired now (sy_core s)" "sy_jobs s = []" "idle (sy_intake s)"
    "sy_clock s \<le> now" "sy_chainIndex s demo_miner \<le> 4"
  obtains t r where "reach (demo_signing_cfg rt) (Some demo_signer) s t" "sy_signed t = sy_signed s @ [\<lparr>se_miner = demo_miner, se_payload = r, se_at = now\<rparr>]"
    "rp_solveIndex r = 4" "rp_expiresAt r = now + 600" "demo_settled rt (sy_core t)" "all_expired (now + 600) (sy_core t)" "sy_jobs t = []" "idle (sy_intake t)"
    "sy_clock t = now" "sy_chainIndex t demo_miner = 4"
proof -
  let ?cfg = "demo_signing_cfg rt" and ?ps = "demo_prepared rt\<lparr>ps_now := now\<rparr>"
  define d where "d = (gcPending ?cfg now (sy_core s))\<lparr>co_lastEpochMismatch := None\<rparr>"
  note gc = gc_ready [OF assms(2,3), of ?cfg]
  have d: "demo_ready rt d" "demo_settled rt d" using gc by (simp_all add: demo_ready_def demo_settled_def d_def)
  obtain q where q: "submit_enter ?cfg (demo_body rt) (sy_intake s) = Inr q" "idle (submit_leave (demo_body rt) q)" using demo_enter [OF assms(5)] by blast
  define s1 where "s1 = s\<lparr>sy_intake := q, sy_jobs := [Waiting (demo_body rt)]\<rparr>"
  have 1: "sys_step ?cfg (Some demo_signer) s s1" using sys_step.enter [OF q(1)] assms(4) by (simp add: s1_def)
  define s2 where "s2 = s1\<lparr>sy_core := d, sy_jobs := [Evaluating (demo_body rt) ?ps], sy_clock := now\<rparr>"
  have 2: "sys_step ?cfg (Some demo_signer) s1 s2"
    unfolding s2_def by (rule sys_step.prepared [where e = "Inr 3"]) (use assms(6) demo_prepare [OF assms(1) gc] in \<open>simp_all add: s1_def d_def\<close>)
  obtain r n where r: "receipt_to_sign ?cfg demo_finish ?ps (demo_result rt) d = (d, Returned (r, n))" "rp_solveIndex r = 4" "rp_expiresAt r = now + 600"
    by (rule demo_payload [OF assms(1) d(1)])
  obtain sg where sg: "request_signature (Some demo_signer) m r d = (d, Returned sg)" for m
  proof -
    have "isHex ''0x00''" by code_simp
    then show thesis using that by (simp add: request_signature_def demo_signer_def opt_all_def)
  qed
  define c where "c = commit_receipt ?cfg ?ps r sg d"
  obtain acc where fin: "finishSubmitAfterEvaluation ?cfg (Some demo_signer) demo_finish ?ps (demo_result rt) d = (c, Returned acc)"
    by (simp add: finishSubmitAfterEvaluation_def h_bind_Returned r(1) sg c_def)
  have miner: "pb_miner (ps_parsed ?ps) = demo_miner" by (simp add: demo_prepared_def Let_def)
  obtain k where k: "fv_counters demo_finish = Inr k" "mc_nextIndex k = 4" by (simp add: demo_finish_def)
  define t where "t = (finished s2 c)\<lparr>sy_chainIndex := (sy_chainIndex s2)(demo_miner := 4), sy_signed := sy_signed s2 @ [\<lparr>se_miner = demo_miner, se_payload = r, se_at = now\<rparr>]\<rparr>"
  have 3: "sys_step ?cfg (Some demo_signer) s2 t"
    using sys_step.signed [of s2 "demo_body rt" ?ps "[]" demo_finish k ?cfg "demo_result rt" d r n "Some demo_signer" c acc] r(1) fin k miner assms(7)
    by (simp add: s2_def s1_def t_def)
  have "reach ?cfg (Some demo_signer) s t" using 1 2 3 by (blast intro: reach.intros)
  moreover have "all_expired (now + 600) c" using commit_expiry [of d r] d(1) r(3) by (simp add: c_def demo_ready_def)
  ultimately show thesis
    using q(2) r d(2) commit_settled by (intro that [of t r]) (simp_all add: t_def s2_def s1_def c_def)
qed

definition demo_boot :: "bytes \<Rightarrow> BootView" where
  "demo_boot rt = \<lparr>bv_chainId = Inr 8453, bv_v4Epoch = Inr 3, bv_v4EpochCommit = Inr (demo_hash 1), bv_v4CoordinatorSigner = Inr demo_miner,
     bv_v4CoreTexRegistry = Inr demo_miner, bv_registryEpochPins = Inr (cc_expectedEpochPins (demo_signing_cfg rt)), bv_parentLoader = (\<lambda>_. Inr zero_state),
     bv_blockNumber = Inr 10, bv_events = (\<lambda>_ _. Inr []), bv_registryEpoch = Inr \<lparr>rg_liveStateRoot = bytesToHex rt, rg_transitionCount = 0\<rparr>\<rparr>"

lemma demo_boots:
  assumes "merkleizeState zero_state = Inr rt"
  obtains c0 where "boot (demo_signing_cfg rt) (demo_boot rt) = Inr c0" "demo_settled rt c0" "all_expired n c0"
    "\<forall>r s. bv_parentLoader (demo_boot rt) r = Inr s \<longrightarrow> wf_state s" "co_stateByRoot c0 = [(bytesToHex rt, zero_state)]"
proof -
  let ?cfg = "demo_signing_cfg rt" and ?v = "demo_boot rt"
  have len: "length rt = 32" by (rule length_root [OF assms zero_state_wf(2)])
  have cfg: "miningContractAddress ?cfg = demo_miner" "cc_registryAddress ?cfg = demo_miner" "cc_expectedCoordinatorSigner ?cfg = demo_miner"
      "launchBaselinePpm ?cfg = Inr 500000" "cc_replayFromBlock ?cfg = None" "cc_confirmationDepth ?cfg = 2" "cc_expectedChainId ?cfg = 8453"
      "pn_parentStateRoot (cc_expectedEpochPins ?cfg) = bytesToHex rt"
    by (simp_all add: demo_signing_cfg_def demo_coord_def miningContractAddress_def launchBaselinePpm_def)
  have static: "validateStaticConfig ?cfg = Inr ()"
    using demo_facts(3) by (simp add: validateStaticConfig_def chain_bind_Inr chain_require_def cfg opt_all_def)
      (simp add: demo_signing_cfg_def demo_coord_def)
  have parent: "boot_parent ?cfg ?v = Inr (zero_state, bytesToHex rt)"
    using assms static ZERO_HASH_eq demo_hash_simps(4) [of 1 0]
    by (simp add: boot_parent_def chain_bind_Inr chain_require_def demo_boot_def cfg demo_signing_simps pins_agree_def ZERO_HASH_def)
  have sort: "js_sort event_compare [] = []" by (simp add: js_sort_def)
  define c0 where "c0 = (initial_core ?cfg)\<lparr>co_liveState := zero_state, co_liveRoot := bytesToHex rt, co_parentState := zero_state, co_parentRoot := bytesToHex rt,
    co_stateByRoot := [(bytesToHex rt, zero_state)], co_baselineByRoot := [(bytesToHex rt, 500000)], co_replayFromBlock := 0, co_lastScannedBlock := 8,
    co_chainLiveRoot := bytesToHex rt, co_chainTransitionCount := 0, co_signingEnabled := True, co_unhealthyReason := None\<rparr>"
  have "boot ?cfg ?v = Inr c0"
    by (simp add: boot_def chain_bind_Inr parent cfg boot_replay_def Let_def) (simp add: demo_boot_def chain_bind_def sort cfg parityCheck_def initial_core_def c0_def)
  then show thesis
    by (rule that) (simp_all add: c0_def demo_settled_def all_expired_def demo_boot_def initial_core_def demo_signing_core_def demo_core_def chain_part_def
      demo_signing_cfg_def demo_coord_def)
qed

theorem core_tracks_chain_witness:
  "\<exists>rt c0 t. boot (demo_signing_cfg rt) (demo_boot rt) = Inr c0 \<and> reach (demo_signing_cfg rt) (Some demo_signer) (booted c0 0) t \<and> length (sy_signed t) = 1 \<and>
    (\<exists>hist. apply_chain True (co_parentState c0) hist = Inr (co_liveState (sy_core t)) \<and> int (length hist) = co_lastTransitionIndex (sy_core t) + 1)"
proof -
  obtain rt where rt: "merkleizeState zero_state = Inr rt" using demo_root by blast
  obtain c0 where c0: "boot (demo_signing_cfg rt) (demo_boot rt) = Inr c0" "demo_settled rt c0" "all_expired 1000 c0"
    "\<forall>r s. bv_parentLoader (demo_boot rt) r = Inr s \<longrightarrow> wf_state s" by (rule demo_boots [OF rt])
  obtain t where t: "reach (demo_signing_cfg rt) (Some demo_signer) (booted c0 0) t" "length (sy_signed t) = 1"
    by (rule demo_round [OF rt, of "booted c0 0" 1000]) (use c0 in \<open>auto simp: booted_def idle_def\<close>)
  from core_tracks_chain [OF c0(1,4) t(1)] show ?thesis using c0(1) t by blast
qed

theorem intake_bounded_witness:
  "\<exists>rt q. submit_enter (demo_signing_cfg rt) (demo_body rt) \<lparr>iq_submitQueueDepth = 0, iq_pendingSubmitsByMiner = []\<rparr> = Inr q \<and>
    intake_ok (demo_signing_cfg rt) q [demo_body rt]"
proof -
  fix rt :: bytes and c0 :: core
  let ?s = "booted c0 0"
  obtain q where q: "submit_enter (demo_signing_cfg rt) (demo_body rt) (sy_intake ?s) = Inr q"
    by (rule demo_enter [of "sy_intake ?s"]) (auto simp: booted_def idle_def)
  have "reach (demo_signing_cfg rt) None ?s (?s\<lparr>sy_intake := q, sy_jobs := sy_jobs ?s @ [Waiting (demo_body rt)]\<rparr>)"
    by (rule reach.further [OF reach.start sys_step.enter [OF q]])
  from intake_bounded [OF this] q show ?thesis by (auto simp: booted_def)
qed

theorem solve_index_reserved_witness:
  "\<exists>rt c0 t. boot (demo_signing_cfg rt) (demo_boot rt) = Inr c0 \<and> reach (demo_signing_cfg rt) (Some demo_signer) (booted c0 0) t \<and> length (sy_signed t) = 2 \<and>
    rp_solveIndex (se_payload (sy_signed t ! 0)) = rp_solveIndex (se_payload (sy_signed t ! 1)) \<and>
    rp_expiresAt (se_payload (sy_signed t ! 0)) \<le> se_at (sy_signed t ! 1)"
proof -
  obtain rt where rt: "merkleizeState zero_state = Inr rt" using demo_root by blast
  obtain c0 where c0: "boot (demo_signing_cfg rt) (demo_boot rt) = Inr c0" "demo_settled rt c0" "all_expired 1000 c0"
    "\<forall>r s. bv_parentLoader (demo_boot rt) r = Inr s \<longrightarrow> wf_state s" by (rule demo_boots [OF rt])
  let ?cfg = "demo_signing_cfg rt" and ?sg = "Some demo_signer" and ?s = "booted c0 0"
  obtain t r where t: "reach ?cfg ?sg ?s t" "sy_signed t = [\<lparr>se_miner = demo_miner, se_payload = r, se_at = 1000\<rparr>]" "rp_solveIndex r = 4" "rp_expiresAt r = 1600"
      "demo_settled rt (sy_core t)" "all_expired 1600 (sy_core t)" "sy_jobs t = []" "idle (sy_intake t)" "sy_clock t = 1000" "sy_chainIndex t demo_miner = 4"
    by (rule demo_round [OF rt, of ?s 1000]) (use c0 in \<open>auto simp: booted_def idle_def\<close>)
  have "all_expired 2000 (sy_core t)" using t(6) by (fastforce simp: all_expired_def)
  then obtain u r' where u: "reach ?cfg ?sg t u" "sy_signed u = sy_signed t @ [\<lparr>se_miner = demo_miner, se_payload = r', se_at = 2000\<rparr>]" "rp_solveIndex r' = 4"
    by (rule demo_round [OF rt t(5) _ t(7,8), of 2000]) (use t(9,10) in auto)
  have run: "reach ?cfg ?sg ?s u" by (rule reach_trans [OF u(1) t(1)])
  have "rp_expiresAt (se_payload (sy_signed u ! 0)) \<le> se_at (sy_signed u ! 1)"
    by (rule solve_index_reserved [OF c0(1,4) run]) (simp_all add: t(2,3) u(2,3))
  then show ?thesis using c0(1) run u t by (intro exI [of _ rt] exI [of _ c0] exI [of _ u]) simp
qed

end
