(* ===== verification/EpochFrontier.thy ===== *)
theory EpochFrontier
  imports JsValues JsSort
begin

text \<open>
  The rotating frontier of active evaluation items: \<open>packages/coretex/src/coordinator/epoch-frontier.ts\<close>. The hash
  \<open>sha256\<close> of \<open>node:crypto\<close> is a parameter (the hex digest of a string). Numbers are rationals;
  the results of floating-point arithmetic in the controller are parameters too: \<open>fp_ewmaStep\<close> is the
  smoothed number of accepts and \<open>fp_recoveryUnits\<close> the rounded-up quotient of the deficit by the
  expected yield. No law of either is needed.
\<close>

section \<open>Implementation\<close>

type_synonym digest = "string \<Rightarrow> string"

text \<open>\<open>parseInt(hex.slice(0, 12), 16)\<close>.\<close>

definition h12 :: "digest \<Rightarrow> string \<Rightarrow> int" where
  "h12 sha s = (case digits_acc 16 0 (take 12 (sha s)) of Some v \<Rightarrow> v | None \<Rightarrow> 0)"

definition string_compare :: "string \<Rightarrow> string \<Rightarrow> int" where
  "string_compare a b = (if js_string_less a b then -1 else if js_string_less b a then 1 else 0)"

fun join :: "string \<Rightarrow> string list \<Rightarrow> string" where
  "join sep [] = []"
| "join sep [s] = s"
| "join sep (s # t # rest) = s @ sep @ join sep (t # rest)"

definition rootHash :: "digest \<Rightarrow> string list \<Rightarrow> string" where
  "rootHash sha ids = ''0x'' @ sha (join ''|'' (js_sort string_compare ids))"

datatype EpochFrontierMode = mode_off | C0 | C1 | C2 | C3 | C4

text \<open>The variables that \<open>makeEpochFrontier\<close> closes over. \<open>rs_K\<close> is fixed at construction. The family names that
  the object also lists are not kept: no operation reads them.\<close>

record frontier =
  rs_order :: "string list"
  rs_reservePtr :: nat
  rs_active :: "(string \<times> int) list"
  rs_retired :: "string list"
  rs_cumulativeActivated :: nat
  rs_cumulativeRetired :: nat
  rs_initialized :: bool
  rs_injectedSinceLastStep :: nat
  rs_ewmaAccepts :: "rat option"
  rs_K :: rat

record EpochFrontierRuntimeState =
  es_schemaVersion :: string
  es_order :: "string list"
  es_reservePtr :: nat
  es_active :: "(string \<times> int) list"
  es_retired :: "string list"
  es_cumulativeActivated :: nat
  es_cumulativeRetired :: nat
  es_initialized :: bool
  es_injectedSinceLastStep :: nat
  es_ewmaAccepts :: "rat option"

definition FRONTIER_SCHEMA :: string where
  "FRONTIER_SCHEMA = ''coretex.epoch-frontier-state.v1''"

record EpochFrontierParams =
  fp_mode :: EpochFrontierMode
  fp_activeWindow :: "rat option"
  fp_churnRate :: rat
  fp_maxAge :: js_number
  fp_lowAdvancesThreshold :: rat
  fp_lowAdvancesBumpRate :: "rat option"
  fp_seed :: string
  fp_minChurn :: rat
  fp_maxChurn :: rat
  fp_targetAccepts :: rat
  fp_headroomLowWatermark :: rat
  fp_headroomHighWatermark :: rat
  fp_maxRootDeltaPerEpoch :: rat
  fp_ewmaStep :: "rat \<Rightarrow> rat \<Rightarrow> rat"
  fp_recoveryUnits :: "rat \<Rightarrow> rat"
  fp_sha256 :: digest

record EpochFrontierSnapshot =
  sn_epochId :: int
  sn_activationSeed :: string
  sn_activeEvalHiddenCount :: nat
  sn_activated :: nat
  sn_retired :: nat
  sn_churnRate :: rat
  sn_reserveRemaining :: int
  sn_cumulativeActivated :: nat
  sn_cumulativeRetired :: nat
  sn_activeIds :: "string list"
  sn_activeRoot :: string
  sn_reserveRoot :: string
  sn_retiredRoot :: string

text \<open>Items of one family in the order of their seeded hashes, families in the order of their names, taken
  in turns.\<close>

definition family_compare :: "EpochFrontierParams \<Rightarrow> string \<Rightarrow> string \<Rightarrow> int" where
  "family_compare fp a b =
     (let d = h12 (fp_sha256 fp) (fp_seed fp @ '':'' @ a) - h12 (fp_sha256 fp) (fp_seed fp @ '':'' @ b)
      in if d \<noteq> 0 then d else if js_string_less a b then -1 else 1)"

definition group_ids :: "(string \<Rightarrow> string option) \<Rightarrow> string list \<Rightarrow> (string \<times> string list) list" where
  "group_ids familyOf ids = foldl (\<lambda>groups id.
     let f = (case familyOf id of None \<Rightarrow> ''unknown'' | Some f \<Rightarrow> f);
         arr = (case map_of groups f of None \<Rightarrow> [] | Some arr \<Rightarrow> arr)
     in AList.update f (arr @ [id]) groups) [] ids"

definition round_at :: "nat \<Rightarrow> 'a list list \<Rightarrow> 'a list" where
  "round_at i arrs = map (\<lambda>arr. arr ! i) (filter (\<lambda>arr. i < length arr) arrs)"

lemma round_at_bound: "round_at i arrs \<noteq> [] \<Longrightarrow> i < sum_list (map length arrs)"
  unfolding round_at_def by (induction arrs) (auto split: if_splits)

function rounds :: "nat \<Rightarrow> 'a list list \<Rightarrow> 'a list" where
  "rounds i arrs = (let any = round_at i arrs in if any = [] then [] else any @ rounds (i + 1) arrs)"
  by pat_completeness auto
termination
proof (relation "measure (\<lambda>(i, arrs). sum_list (map length arrs) - i)")
  fix i and arrs :: "'a list list" and any
  assume "any = round_at i arrs" "any \<noteq> []"
  then show "((i + 1, arrs), i, arrs) \<in> measure (\<lambda>(i, arrs). sum_list (map length arrs) - i)"
    using round_at_bound [of i arrs] by simp
qed simp

declare rounds.simps [simp del]

definition build_order :: "EpochFrontierParams \<Rightarrow> (string \<Rightarrow> string option) \<Rightarrow> string list \<Rightarrow> string list" where
  "build_order fp familyOf ids =
     (let groups = map (\<lambda>(f, arr). (f, js_sort (family_compare fp) arr)) (group_ids familyOf ids);
          famNames = js_sort string_compare (map fst groups)
      in rounds 0 (map (\<lambda>f. the (map_of groups f)) famNames))"

definition window_size :: "EpochFrontierParams \<Rightarrow> string list \<Rightarrow> rat" where
  "window_size fp order = min (case fp_activeWindow fp of None \<Rightarrow> of_nat (length order) | Some w \<Rightarrow> w) (of_nat (length order))"

definition makeEpochFrontier :: "EpochFrontierParams \<Rightarrow> (string \<Rightarrow> string option) \<Rightarrow> string list \<Rightarrow> EpochFrontierRuntimeState option
    \<Rightarrow> frontier js" where
  "makeEpochFrontier fp familyOf evalHiddenIds initialState =
     (let order = build_order fp familyOf evalHiddenIds in
      case initialState of
        None \<Rightarrow> Inr \<lparr>rs_order = order, rs_reservePtr = 0, rs_active = [], rs_retired = [], rs_cumulativeActivated = 0,
          rs_cumulativeRetired = 0, rs_initialized = False, rs_injectedSinceLastStep = 0, rs_ewmaAccepts = None, rs_K = window_size fp order\<rparr>
      | Some st \<Rightarrow>
          if es_schemaVersion st \<noteq> FRONTIER_SCHEMA then Inl (JsError ''makeEpochFrontier: unsupported initialState schema'')
          else if \<not> list_all (\<lambda>id. id \<in> set evalHiddenIds) (es_order st) then Inl (JsError ''makeEpochFrontier: initialState order contains unknown id'')
          else if \<not> list_all (\<lambda>(id, _). id \<in> set evalHiddenIds) (es_active st) then Inl (JsError ''makeEpochFrontier: initialState active contains unknown id'')
          else if \<not> list_all (\<lambda>id. id \<in> set evalHiddenIds) (es_retired st) then Inl (JsError ''makeEpochFrontier: initialState retired contains unknown id'')
          else Inr \<lparr>rs_order = es_order st, rs_reservePtr = es_reservePtr st,
            rs_active = foldl (\<lambda>m (id, e). AList.update id e m) [] (es_active st), rs_retired = foldl js_set_add [] (es_retired st),
            rs_cumulativeActivated = es_cumulativeActivated st, rs_cumulativeRetired = es_cumulativeRetired st,
            rs_initialized = es_initialized st, rs_injectedSinceLastStep = es_injectedSinceLastStep st,
            rs_ewmaAccepts = es_ewmaAccepts st, rs_K = window_size fp (es_order st)\<rparr>)"

fun activate_loop :: "rat \<Rightarrow> int \<Rightarrow> string list \<Rightarrow> nat \<Rightarrow> frontier \<Rightarrow> nat \<times> frontier" where
  "activate_loop n epoch [] a st = (a, st)"
| "activate_loop n epoch (uid # rest) a st =
     (if \<not> of_nat a < n then (a, st)
      else let st = st\<lparr>rs_reservePtr := rs_reservePtr st + 1\<rparr> in
        if uid \<notin> fst ` set (rs_active st) \<and> uid \<notin> set (rs_retired st)
        then activate_loop n epoch rest (a + 1) (st\<lparr>rs_active := AList.update uid epoch (rs_active st), rs_cumulativeActivated := rs_cumulativeActivated st + 1\<rparr>)
        else activate_loop n epoch rest a st)"

definition activateNext :: "rat \<Rightarrow> int \<Rightarrow> frontier \<Rightarrow> nat \<times> frontier" where
  "activateNext n epoch st = activate_loop n epoch (drop (rs_reservePtr st) (rs_order st)) 0 st"

definition order_index :: "string list \<Rightarrow> string \<Rightarrow> nat option" where
  "order_index order = map_of (rev (zip order [0..<length order]))"

definition age_compare :: "string list \<Rightarrow> string \<times> int \<Rightarrow> string \<times> int \<Rightarrow> int" where
  "age_compare order x y =
     (if snd x \<noteq> snd y then snd x - snd y
      else case (order_index order (fst x), order_index order (fst y)) of
        (Some i, Some j) \<Rightarrow> int i - int j
      | _ \<Rightarrow> 0)"

definition retire_id :: "frontier \<Rightarrow> string \<Rightarrow> frontier" where
  "retire_id st uid = st\<lparr>rs_active := AList.delete uid (rs_active st), rs_retired := js_set_add (rs_retired st) uid,
     rs_cumulativeRetired := rs_cumulativeRetired st + 1\<rparr>"

definition retireOldest :: "rat \<Rightarrow> frontier \<Rightarrow> nat \<times> frontier" where
  "retireOldest n st =
     (let sorted = js_sort (age_compare (rs_order st)) (rs_active st);
          chosen = take (nat \<lceil>n\<rceil>) sorted
      in (length chosen, foldl retire_id st (map fst chosen)))"

definition take_snapshot :: "EpochFrontierParams \<Rightarrow> int \<Rightarrow> nat \<Rightarrow> nat \<Rightarrow> rat \<Rightarrow> frontier \<Rightarrow> EpochFrontierSnapshot" where
  "take_snapshot fp epoch activated ret rate st = \<lparr>sn_epochId = epoch, sn_activationSeed = fp_seed fp,
     sn_activeEvalHiddenCount = length (rs_active st), sn_activated = activated, sn_retired = ret, sn_churnRate = rate,
     sn_reserveRemaining = int (length (rs_order st)) - int (rs_reservePtr st), sn_cumulativeActivated = rs_cumulativeActivated st,
     sn_cumulativeRetired = rs_cumulativeRetired st, sn_activeIds = map fst (rs_active st),
     sn_activeRoot = rootHash (fp_sha256 fp) (map fst (rs_active st)),
     sn_reserveRoot = rootHash (fp_sha256 fp) (drop (rs_reservePtr st) (rs_order st)),
     sn_retiredRoot = rootHash (fp_sha256 fp) (rs_retired st)\<rparr>"

definition aged_ids :: "EpochFrontierParams \<Rightarrow> int \<Rightarrow> frontier \<Rightarrow> string list" where
  "aged_ids fp epoch st = (case fp_maxAge fp of
       Fin maxAge \<Rightarrow> map fst (filter (\<lambda>(_, ae). of_int (epoch - ae) \<ge> maxAge) (rs_active st))
     | _ \<Rightarrow> [])"

definition base_rate :: "EpochFrontierParams \<Rightarrow> rat option \<Rightarrow> rat option \<Rightarrow> frontier \<Rightarrow> rat" where
  "base_rate fp prevHonestAccepts prevQualityAttempts st =
     (let injected = of_nat (rs_injectedSinceLastStep st) in
      if fp_mode fp = C1 then fp_churnRate fp
      else if fp_mode fp = C2 then
        (if (case prevHonestAccepts of None \<Rightarrow> False | Some a \<Rightarrow> a < fp_lowAdvancesThreshold fp)
         then (case fp_lowAdvancesBumpRate fp of None \<Rightarrow> fp_churnRate fp * 2 | Some r \<Rightarrow> r) else fp_churnRate fp)
      else if fp_mode fp = C4 then fp_minChurn fp
      else if fp_mode fp = C3 \<and> prevQualityAttempts = Some 0 then
        (if rs_injectedSinceLastStep st > 0 then min (fp_maxChurn fp) (max (fp_minChurn fp) injected) else 0)
      else let recent = (case rs_ewmaAccepts st of None \<Rightarrow> fp_targetAccepts fp | Some e \<Rightarrow> e) in
        if recent \<le> fp_headroomLowWatermark fp then min (fp_maxChurn fp) (max (fp_minChurn fp) (fp_recoveryUnits fp recent))
        else if recent \<ge> fp_headroomHighWatermark fp then 0
        else fp_minChurn fp)"

definition churn_rate :: "EpochFrontierParams \<Rightarrow> rat option \<Rightarrow> rat option \<Rightarrow> frontier \<Rightarrow> rat" where
  "churn_rate fp prevHonestAccepts prevQualityAttempts st =
     (let rate = base_rate fp prevHonestAccepts prevQualityAttempts st;
          injected = of_nat (rs_injectedSinceLastStep st);
          rate = (if fp_mode fp = C3 \<and> rs_injectedSinceLastStep st > 0 then max rate (min (fp_maxChurn fp) (max (fp_minChurn fp) injected)) else rate);
          rate = min rate (fp_maxRootDeltaPerEpoch fp)
      in min rate (max 0 (of_int (int (length (rs_order st)) - int (rs_reservePtr st)))))"

definition update_ewma :: "EpochFrontierParams \<Rightarrow> rat option \<Rightarrow> frontier \<Rightarrow> frontier" where
  "update_ewma fp prevHonestAccepts st = (case prevHonestAccepts of
       None \<Rightarrow> st
     | Some a \<Rightarrow> st\<lparr>rs_ewmaAccepts := Some (case rs_ewmaAccepts st of None \<Rightarrow> a | Some e \<Rightarrow> fp_ewmaStep fp a e)\<rparr>)"

definition stepEpoch :: "EpochFrontierParams \<Rightarrow> int \<Rightarrow> rat option \<Rightarrow> rat option \<Rightarrow> frontier
    \<Rightarrow> EpochFrontierSnapshot \<times> frontier" where
  "stepEpoch fp epoch prevHonestAccepts prevQualityAttempts st =
     (if \<not> rs_initialized st then
        let (a, st) = activateNext (rs_K st) epoch (st\<lparr>rs_initialized := True\<rparr>);
            st = st\<lparr>rs_injectedSinceLastStep := 0\<rparr>
        in (take_snapshot fp epoch a 0 0 st, st)
      else
        let aged = aged_ids fp epoch st; st = foldl retire_id st aged; ret = length aged in
        if fp_mode fp = mode_off \<or> fp_mode fp = C0 then
          let (a, st) = activateNext (of_nat ret) epoch st; st = st\<lparr>rs_injectedSinceLastStep := 0\<rparr>
          in (take_snapshot fp epoch a ret 0 st, st)
        else
          let st = update_ewma fp prevHonestAccepts st;
              rate = churn_rate fp prevHonestAccepts prevQualityAttempts st;
              (r, st) = retireOldest rate st;
              ret = ret + r;
              (a, st) = activateNext (of_nat ret) epoch st;
              st = st\<lparr>rs_injectedSinceLastStep := 0\<rparr>
          in (take_snapshot fp epoch a ret rate st, st))"

definition addReserveIds :: "EpochFrontierParams \<Rightarrow> string list \<Rightarrow> (string \<Rightarrow> string option) \<Rightarrow> frontier
    \<Rightarrow> nat \<times> frontier" where
  "addReserveIds fp newIds familyOfFn st =
     (let unseen = filter (\<lambda>id. id \<notin> fst ` set (rs_active st) \<and> id \<notin> set (rs_retired st) \<and> id \<notin> set (rs_order st)) newIds in
      if unseen = [] then (0, st)
      else let segment = build_order fp familyOfFn unseen in
        (length unseen, st\<lparr>rs_order := take (rs_reservePtr st) (rs_order st) @ segment @ drop (rs_reservePtr st) (rs_order st),
           rs_injectedSinceLastStep := rs_injectedSinceLastStep st + length unseen\<rparr>))"

definition exportState :: "frontier \<Rightarrow> EpochFrontierRuntimeState" where
  "exportState st = \<lparr>es_schemaVersion = FRONTIER_SCHEMA, es_order = rs_order st, es_reservePtr = rs_reservePtr st,
     es_active = rs_active st, es_retired = rs_retired st, es_cumulativeActivated = rs_cumulativeActivated st,
     es_cumulativeRetired = rs_cumulativeRetired st, es_initialized = rs_initialized st,
     es_injectedSinceLastStep = rs_injectedSinceLastStep st, es_ewmaAccepts = rs_ewmaAccepts st\<rparr>"

subsection \<open>The launch frontier\<close>

record CorpusEventLike =
  ce_id :: string
  ce_split :: "string option"
  ce_logicalFamily :: "string option"
  ce_family :: "string option"

text \<open>The block \<open>epochFrontier\<close> of a profile, with its optional fields, and the floating-point operations: the
  smoothed accepts for a half-life, and the recovery units for an expected yield, a target and the recent accepts
  (an absent half-life or yield is the default of the source).\<close>

record ProfileFrontier =
  pf_mode :: "EpochFrontierMode option"
  pf_activeWindow :: "rat option"
  pf_minChurn :: "rat option"
  pf_maxChurn :: "rat option"
  pf_headroomLowWatermark :: "rat option"
  pf_headroomHighWatermark :: "rat option"
  pf_ewmaHalfLife :: "rat option"
  pf_targetAccepts :: "rat option"
  pf_expectedYieldPerUnit :: "rat option"
  pf_maxRootDeltaPerEpoch :: "rat option"
  pf_maxAge :: "js_number option"
  pf_seed :: "string option"

record frontier_floats =
  fl_ewma :: "rat option \<Rightarrow> rat \<Rightarrow> rat \<Rightarrow> rat"
  fl_recovery :: "rat option \<Rightarrow> rat \<Rightarrow> rat \<Rightarrow> rat"

definition or_default :: "'a option \<Rightarrow> 'a \<Rightarrow> 'a" where
  "or_default x d = (case x of None \<Rightarrow> d | Some v \<Rightarrow> v)"

definition launch_params :: "frontier_floats \<Rightarrow> digest \<Rightarrow> ProfileFrontier \<Rightarrow> EpochFrontierParams" where
  "launch_params fl sha pf = \<lparr>fp_mode = or_default (pf_mode pf) mode_off, fp_activeWindow = pf_activeWindow pf, fp_churnRate = 4,
     fp_maxAge = or_default (pf_maxAge pf) PosInf, fp_lowAdvancesThreshold = 1, fp_lowAdvancesBumpRate = None,
     fp_seed = or_default (pf_seed pf) ''frontier'', fp_minChurn = or_default (pf_minChurn pf) 2, fp_maxChurn = or_default (pf_maxChurn pf) 12,
     fp_targetAccepts = or_default (pf_targetAccepts pf) 2, fp_headroomLowWatermark = or_default (pf_headroomLowWatermark pf) 1,
     fp_headroomHighWatermark = or_default (pf_headroomHighWatermark pf) 3,
     fp_maxRootDeltaPerEpoch = or_default (pf_maxRootDeltaPerEpoch pf) 24, fp_ewmaStep = fl_ewma fl (pf_ewmaHalfLife pf),
     fp_recoveryUnits = fl_recovery fl (pf_expectedYieldPerUnit pf) (or_default (pf_targetAccepts pf) 2), fp_sha256 = sha\<rparr>"

definition eval_hidden :: "CorpusEventLike list \<Rightarrow> CorpusEventLike list" where
  "eval_hidden events = filter (\<lambda>e. ce_split e = Some ''eval_hidden'') events"

definition family_map :: "CorpusEventLike list \<Rightarrow> string \<Rightarrow> string option" where
  "family_map events =
     map_of (rev (map (\<lambda>e. (ce_id e, or_default (ce_logicalFamily e) (or_default (ce_family e) ''unknown''))) events))"

definition makeLaunchFrontier :: "frontier_floats \<Rightarrow> digest \<Rightarrow> ProfileFrontier option \<Rightarrow> CorpusEventLike list
    \<Rightarrow> frontier js option" where
  "makeLaunchFrontier fl sha profile events = (case profile of
       None \<Rightarrow> None
     | Some pf \<Rightarrow> if pf_mode pf = Some mode_off then None
         else Some (makeEpochFrontier (launch_params fl sha pf)
           (\<lambda>uid. Some (or_default (family_map (eval_hidden events) uid) ''unknown''))
           (map ce_id (eval_hidden events)) None))"

definition DEFAULT_EPOCH_FRONTIER_PROFILE :: ProfileFrontier where
  "DEFAULT_EPOCH_FRONTIER_PROFILE = \<lparr>pf_mode = Some C3, pf_activeWindow = Some 96, pf_minChurn = Some 2, pf_maxChurn = Some 12,
     pf_headroomLowWatermark = Some 1, pf_headroomHighWatermark = Some 3, pf_ewmaHalfLife = Some 3, pf_targetAccepts = Some 2,
     pf_expectedYieldPerUnit = None, pf_maxRootDeltaPerEpoch = Some 24, pf_maxAge = Some PosInf, pf_seed = Some ''frontier''\<rparr>"

section \<open>The order\<close>

interpretation names: js_comparator string_compare
  by unfold_locales (auto simp: string_compare_def dest: js_string_less_asym js_string_less_neg_trans split: if_splits)

interpretation members: js_comparator "family_compare fp" for fp
  by unfold_locales (auto simp: family_compare_def Let_def dest: js_string_less_asym js_string_less_neg_trans split: if_splits)

lemma names_antisym: "names.le a b \<Longrightarrow> names.le b a \<Longrightarrow> a = b"
  using js_string_less_total [of a b] by (auto simp: names.le_def string_compare_def split: if_splits)

lemma members_antisym: "members.le fp a b \<Longrightarrow> members.le fp b a \<Longrightarrow> a = b"
  using js_string_less_total [of a b] by (auto simp: members.le_def family_compare_def Let_def split: if_splits)

definition family_key :: "(string \<Rightarrow> string option) \<Rightarrow> string \<Rightarrow> string" where
  "family_key familyOf uid = (case familyOf uid of None \<Rightarrow> ''unknown'' | Some f \<Rightarrow> f)"

lemma group_ids_snoc:
  "group_ids fam (ids @ [x]) = AList.update (family_key fam x) ((case map_of (group_ids fam ids) (family_key fam x) of None \<Rightarrow> [] | Some arr \<Rightarrow> arr) @ [x]) (group_ids fam ids)"
  by (simp add: group_ids_def family_key_def Let_def)

lemma group_lookup:
  "map_of (group_ids fam ids) f = (let arr = filter (\<lambda>x. family_key fam x = f) ids in if arr = [] then None else Some arr)"
proof (induction ids rule: rev_induct)
  case (snoc x ids)
  then show ?case by (auto simp: group_ids_snoc update_conv' Let_def)
qed (simp add: group_ids_def)

lemma group_keys: "distinct (map fst (group_ids fam ids)) \<and> set (map fst (group_ids fam ids)) = family_key fam ` set ids"
proof (induction ids rule: rev_induct)
  case (snoc x ids)
  then show ?case by (simp add: group_ids_snoc distinct_update dom_update)
qed (simp add: group_ids_def)

lemma map_of_map_snd: "map_of (map (\<lambda>(k, v). (k, g v)) al) k = map_option g (map_of al k)"
  by (induction al) auto

text \<open>The families' queues in the order in which they take turns.\<close>

definition family_queues :: "EpochFrontierParams \<Rightarrow> (string \<Rightarrow> string option) \<Rightarrow> string list \<Rightarrow> string list list" where
  "family_queues fp fam ids = map (\<lambda>f. js_sort (family_compare fp) (filter (\<lambda>x. family_key fam x = f) ids))
     (js_sort string_compare (map fst (group_ids fam ids)))"

lemma build_order_eq: "build_order fp fam ids = rounds 0 (family_queues fp fam ids)"
proof -
  let ?groups = "map (\<lambda>(f, arr). (f, js_sort (family_compare fp) arr)) (group_ids fam ids)"
  have keys: "map fst ?groups = map fst (group_ids fam ids)" by (simp add: comp_def case_prod_beta)
  have "the (map_of ?groups f) = js_sort (family_compare fp) (filter (\<lambda>x. family_key fam x = f) ids)" if "f \<in> set (map fst (group_ids fam ids))" for f
  proof -
    have "filter (\<lambda>x. family_key fam x = f) ids \<noteq> []" using that group_keys [of fam ids] by (auto simp: filter_empty_conv)
    then show ?thesis by (simp add: map_of_map_snd group_lookup Let_def)
  qed
  then show ?thesis unfolding build_order_def Let_def keys family_queues_def
    by (intro arg_cong [where f = "rounds 0"] map_cong) auto
qed

lemma round_at_mset: "mset (round_at i arrs) + mset (concat (map (drop (Suc i)) arrs)) = mset (concat (map (drop i) arrs))"
proof (induction arrs)
  case (Cons a arrs)
  then show ?case by (cases "i < length a") (auto simp: round_at_def Cons_nth_drop_Suc [symmetric])
qed (simp add: round_at_def)

lemma rounds_mset: "mset (rounds i arrs) = mset (concat (map (drop i) arrs))"
proof (induction i arrs rule: rounds.induct)
  case (1 i arrs)
  show ?case
  proof (cases "round_at i arrs = []")
    case True
    then have "\<forall>a \<in> set arrs. length a \<le> i" by (auto simp: round_at_def filter_empty_conv not_less)
    then show ?thesis using True by (simp add: rounds.simps [of i arrs])
  next
    case False
    then show ?thesis using 1 [OF refl] round_at_mset [of i arrs] by (simp add: rounds.simps [of i arrs])
  qed
qed

lemma build_order_perm: "mset (build_order fp fam ids) = mset ids"
proof -
  have split: "mset ids = (\<Sum>f \<leftarrow> fs. mset (filter (\<lambda>x. family_key fam x = f) ids))" if "distinct fs" "family_key fam ` set ids \<subseteq> set fs" for fs
    using that
  proof (induction fs arbitrary: ids)
    case (Cons f fs)
    let ?rest = "filter (\<lambda>x. family_key fam x \<noteq> f) ids"
    have eq: "filter (\<lambda>x. family_key fam x = g) ?rest = filter (\<lambda>x. family_key fam x = g) ids" if "g \<in> set fs" for g
      using that Cons.prems(1) unfolding filter_filter by (intro filter_cong) auto
    have IH: "mset ?rest = sum_list (map (\<lambda>g. mset (filter (\<lambda>x. family_key fam x = g) ?rest)) fs)"
      by (rule Cons.IH) (use Cons.prems in auto)
    have same: "map (\<lambda>g. mset (filter (\<lambda>x. family_key fam x = g) ?rest)) fs = map (\<lambda>g. mset (filter (\<lambda>x. family_key fam x = g) ids)) fs"
      by (rule map_cong [OF refl]) (simp only: eq)
    have "mset ids = mset (filter (\<lambda>x. family_key fam x = f) ids) + mset ?rest" by (simp add: multiset_partition)
    also have "mset ?rest = sum_list (map (\<lambda>g. mset (filter (\<lambda>x. family_key fam x = g) ids)) fs)" by (rule trans [OF IH arg_cong [OF same, where f = sum_list]])
    finally show ?case by simp
  qed simp
  let ?fs = "js_sort string_compare (map fst (group_ids fam ids))"
  have "distinct ?fs" using group_keys [of fam ids] by (metis mset_eq_imp_distinct_iff mset_js_sort)
  then have "mset ids = (\<Sum>f \<leftarrow> ?fs. mset (filter (\<lambda>x. family_key fam x = f) ids))" using group_keys [of fam ids] by (intro split) auto
  moreover have "mset (concat (family_queues fp fam ids)) = (\<Sum>f \<leftarrow> ?fs. mset (filter (\<lambda>x. family_key fam x = f) ids))"
    by (simp add: family_queues_def mset_concat comp_def)
  ultimately show ?thesis by (simp add: build_order_eq rounds_mset)
qed

lemma build_order_deterministic:
  assumes "mset ids = mset ids'"
  shows "build_order fp fam ids = build_order fp fam ids'"
proof -
  have sets: "set ids = set ids'" using assms by (metis mset_eq_setD)
  have "mset (map fst (group_ids fam ids)) = mset (map fst (group_ids fam ids'))"
    using group_keys [of fam ids] group_keys [of fam ids'] sets by (intro iffD1 [OF set_eq_iff_mset_eq_distinct]) simp_all
  then have names: "js_sort string_compare (map fst (group_ids fam ids)) = js_sort string_compare (map fst (group_ids fam ids'))"
    by (rule names.js_sort_perm) (rule names_antisym)
  have "js_sort (family_compare fp) (filter (\<lambda>x. family_key fam x = f) ids) = js_sort (family_compare fp) (filter (\<lambda>x. family_key fam x = f) ids')" for f
    by (rule members.js_sort_perm) (use assms members_antisym in auto)
  then show ?thesis by (simp add: build_order_eq family_queues_def names)
qed

section \<open>Rotation\<close>

definition frontier_inv :: "frontier \<Rightarrow> bool" where
  "frontier_inv st \<longleftrightarrow> distinct (rs_order st) \<and> rs_reservePtr st \<le> length (rs_order st) \<and>
     mset (map fst (rs_active st) @ rs_retired st) = mset (take (rs_reservePtr st) (rs_order st)) \<and>
     rs_cumulativeRetired st = length (rs_retired st) \<and> rs_cumulativeActivated st = length (rs_active st) + length (rs_retired st)"

lemma inv_distinct:
  assumes "frontier_inv st"
  shows "distinct (map fst (rs_active st))" "distinct (rs_retired st)" "set (map fst (rs_active st)) \<inter> set (rs_retired st) = {}"
    "set (map fst (rs_active st)) \<union> set (rs_retired st) = set (take (rs_reservePtr st) (rs_order st))"
    "set (drop (rs_reservePtr st) (rs_order st)) \<inter> (set (map fst (rs_active st)) \<union> set (rs_retired st)) = {}"
proof -
  have m: "mset (map fst (rs_active st) @ rs_retired st) = mset (take (rs_reservePtr st) (rs_order st))" and d: "distinct (rs_order st)"
    using assms by (simp_all add: frontier_inv_def)
  have "distinct (map fst (rs_active st) @ rs_retired st)" using mset_eq_imp_distinct_iff [OF m] d by simp
  then show "distinct (map fst (rs_active st))" "distinct (rs_retired st)" "set (map fst (rs_active st)) \<inter> set (rs_retired st) = {}" by simp_all
  show eq: "set (map fst (rs_active st)) \<union> set (rs_retired st) = set (take (rs_reservePtr st) (rs_order st))"
    using mset_eq_setD [OF m] by simp
  show "set (drop (rs_reservePtr st) (rs_order st)) \<inter> (set (map fst (rs_active st)) \<union> set (rs_retired st)) = {}"
    unfolding eq using set_take_disj_set_drop_if_distinct [OF d order_refl, of "rs_reservePtr st"] by blast
qed

lemma inv_partition:
  assumes "frontier_inv st"
  shows "distinct (map fst (rs_active st) @ rs_retired st @ drop (rs_reservePtr st) (rs_order st))"
    "set (map fst (rs_active st) @ rs_retired st @ drop (rs_reservePtr st) (rs_order st)) = set (rs_order st)"
proof -
  have "distinct (drop (rs_reservePtr st) (rs_order st))" using assms by (simp add: frontier_inv_def)
  then show "distinct (map fst (rs_active st) @ rs_retired st @ drop (rs_reservePtr st) (rs_order st))"
    using inv_distinct [OF assms] by auto
  show "set (map fst (rs_active st) @ rs_retired st @ drop (rs_reservePtr st) (rs_order st)) = set (rs_order st)"
    using inv_distinct(4) [OF assms] append_take_drop_id [of "rs_reservePtr st" "rs_order st"] by (metis set_append Un_assoc)
qed

lemma update_fresh: "x \<notin> fst ` set al \<Longrightarrow> AList.update x v al = al @ [(x, v)]"
  by (induction al) auto

text \<open>As the reserve is fresh, activation takes the next items one by one.\<close>

lemma activate_loop_eq:
  assumes "distinct rest" "set rest \<inter> (fst ` set (rs_active st) \<union> set (rs_retired st)) = {}"
  shows "activate_loop n epoch rest a st = (let k = min (nat (\<lceil>n\<rceil> - int a)) (length rest) in
    (a + k, st\<lparr>rs_reservePtr := rs_reservePtr st + k, rs_active := rs_active st @ map (\<lambda>uid. (uid, epoch)) (take k rest),
       rs_cumulativeActivated := rs_cumulativeActivated st + k\<rparr>))"
  using assms
proof (induction rest arbitrary: a st)
  case (Cons x rest)
  show ?case
  proof (cases "of_nat a < n")
    case False
    then have "\<lceil>n\<rceil> \<le> int a" by (simp add: ceiling_le_iff not_less)
    then show ?thesis using False by (simp add: Let_def)
  next
    case True
    then have "int a < \<lceil>n\<rceil>" by (simp add: less_ceiling_iff)
    then have k: "nat (\<lceil>n\<rceil> - int a) = Suc (nat (\<lceil>n\<rceil> - int (Suc a)))" by linarith
    let ?st = "st\<lparr>rs_reservePtr := rs_reservePtr st + 1, rs_active := rs_active st @ [(x, epoch)], rs_cumulativeActivated := rs_cumulativeActivated st + 1\<rparr>"
    have "activate_loop n epoch (x # rest) a st = activate_loop n epoch rest (a + 1) ?st"
      using True Cons.prems by (simp add: update_fresh)
    also have "\<dots> = (let k = min (nat (\<lceil>n\<rceil> - int (a + 1))) (length rest) in
      (a + 1 + k, ?st\<lparr>rs_reservePtr := rs_reservePtr ?st + k, rs_active := rs_active ?st @ map (\<lambda>uid. (uid, epoch)) (take k rest),
         rs_cumulativeActivated := rs_cumulativeActivated ?st + k\<rparr>))"
      by (rule Cons.IH) (use Cons.prems in auto)
    finally show ?thesis by (simp add: k Let_def)
  qed
qed (simp add: Let_def)

lemma activateNext_eq:
  assumes "frontier_inv st"
  shows "activateNext n epoch st = (let k = min (nat \<lceil>n\<rceil>) (length (rs_order st) - rs_reservePtr st) in
    (k, st\<lparr>rs_reservePtr := rs_reservePtr st + k, rs_active := rs_active st @ map (\<lambda>uid. (uid, epoch)) (take k (drop (rs_reservePtr st) (rs_order st))),
       rs_cumulativeActivated := rs_cumulativeActivated st + k\<rparr>))"
proof -
  have "distinct (drop (rs_reservePtr st) (rs_order st))" using assms by (simp add: frontier_inv_def)
  from activate_loop_eq [OF this, of st n epoch 0] inv_distinct(5) [OF assms] show ?thesis by (simp add: activateNext_def Let_def)
qed

lemma activateNext_inv:
  assumes "frontier_inv st"
  shows "frontier_inv (snd (activateNext n epoch st))"
proof -
  let ?k = "min (nat \<lceil>n\<rceil>) (length (rs_order st) - rs_reservePtr st)"
  have "take (rs_reservePtr st + ?k) (rs_order st) = take (rs_reservePtr st) (rs_order st) @ take ?k (drop (rs_reservePtr st) (rs_order st))"
    by (rule take_add)
  moreover have "rs_reservePtr st + ?k \<le> length (rs_order st)" using assms by (auto simp: frontier_inv_def)
  ultimately show ?thesis
    using assms unfolding activateNext_eq [OF assms] by (simp add: frontier_inv_def Let_def comp_def)
qed

lemma retire_ids:
  assumes "frontier_inv st" "distinct ids" "set ids \<subseteq> fst ` set (rs_active st)"
  shows "frontier_inv (foldl retire_id st ids) \<and>
    rs_order (foldl retire_id st ids) = rs_order st \<and> rs_reservePtr (foldl retire_id st ids) = rs_reservePtr st \<and>
    rs_retired (foldl retire_id st ids) = rs_retired st @ ids \<and> rs_initialized (foldl retire_id st ids) = rs_initialized st \<and>
    rs_active (foldl retire_id st ids) = filter (\<lambda>(x, _). x \<notin> set ids) (rs_active st)"
  using assms
proof (induction ids arbitrary: st)
  case (Cons x ids)
  let ?st = "retire_id st x"
  note d = inv_distinct [OF Cons.prems(1)]
  have x: "x \<in> fst ` set (rs_active st)" "x \<notin> set (rs_retired st)" using Cons.prems(3) d(3) by auto
  then obtain pre e post where act: "rs_active st = pre @ (x, e) # post" by (metis imageE prod.collapse split_list)
  have del: "AList.delete x (pre @ (x, e) # post) = pre @ post"
  proof -
    have "x \<notin> fst ` set pre" "x \<notin> fst ` set post" using d(1) unfolding act by auto
    moreover have "AList.delete x (pre @ (x, e) # post) = AList.delete x pre @ AList.delete x post" by (simp add: AList.delete_eq)
    ultimately show ?thesis by simp
  qed
  have inv: "frontier_inv ?st"
    using Cons.prems(1) x(2) by (simp add: frontier_inv_def retire_id_def act del js_set_add_def)
  have "set ids \<subseteq> fst ` set (rs_active ?st)" using Cons.prems(2,3) by (auto simp: retire_id_def del act)
  note ih = Cons.IH [OF inv _ this]
  have "filter (\<lambda>(y, _). y \<notin> set ids) (rs_active ?st) = filter (\<lambda>(y, _). y \<notin> set (x # ids)) (rs_active st)"
    by (auto simp: retire_id_def AList.delete_eq intro: filter_cong)
  moreover have "rs_order ?st = rs_order st" "rs_reservePtr ?st = rs_reservePtr st" "rs_retired ?st = rs_retired st @ [x]" "rs_initialized ?st = rs_initialized st"
    using x(2) by (simp_all add: retire_id_def js_set_add_def)
  ultimately show ?case using ih Cons.prems(2) by simp
qed simp

lemma inv_size:
  assumes "frontier_inv st"
  shows "length (rs_active st) + length (rs_retired st) = rs_reservePtr st"
proof -
  have "mset (map fst (rs_active st) @ rs_retired st) = mset (take (rs_reservePtr st) (rs_order st))" "rs_reservePtr st \<le> length (rs_order st)"
    using assms by (simp_all add: frontier_inv_def)
  from mset_eq_length [OF this(1)] this(2) show ?thesis by simp
qed

lemma retireOldest_eq:
  "retireOldest n st = (let ids = map fst (take (nat \<lceil>n\<rceil>) (js_sort (age_compare (rs_order st)) (rs_active st))) in (length ids, foldl retire_id st ids))"
  by (simp add: retireOldest_def Let_def)

lemma oldest_ids:
  assumes "frontier_inv st"
  shows "distinct (map fst (take k (js_sort (age_compare order) (rs_active st))))" "set (map fst (take k (js_sort (age_compare order) (rs_active st)))) \<subseteq> fst ` set (rs_active st)"
proof -
  have "distinct (map fst (js_sort (age_compare order) (rs_active st)))"
    using inv_distinct(1) [OF assms] by (metis mset_eq_imp_distinct_iff mset_js_sort mset_map)
  then show "distinct (map fst (take k (js_sort (age_compare order) (rs_active st))))" by (simp add: take_map [symmetric])
  show "set (map fst (take k (js_sort (age_compare order) (rs_active st)))) \<subseteq> fst ` set (rs_active st)"
    using set_take_subset [of k "js_sort (age_compare order) (rs_active st)"] by auto
qed

lemma aged_ids_ok: "frontier_inv st \<Longrightarrow> distinct (aged_ids fp epoch st) \<and> set (aged_ids fp epoch st) \<subseteq> fst ` set (rs_active st)"
  using inv_distinct(1) [of st] by (auto simp: aged_ids_def distinct_map_filter split: js_number.splits)

text \<open>Retiring some active items and then activating up to \<open>n\<close> items.\<close>

lemma rotate:
  assumes "frontier_inv st" "distinct ids" "set ids \<subseteq> fst ` set (rs_active st)"
    "activateNext (of_nat n) epoch (foldl retire_id st ids) = (a, st')"
  shows "frontier_inv st'" "a = min n (length (rs_order st) - rs_reservePtr st)" "rs_order st' = rs_order st"
    "length (rs_active st') + length ids = length (rs_active st) + a" "rs_retired st' = rs_retired st @ ids"
    "rs_initialized st' = rs_initialized st"
    "rs_active st' = filter (\<lambda>(x, _). x \<notin> set ids) (rs_active st) @ map (\<lambda>x. (x, epoch)) (take a (drop (rs_reservePtr st) (rs_order st)))"
proof -
  define u where "u = foldl retire_id st ids"
  have r: "frontier_inv u" "rs_order u = rs_order st" "rs_reservePtr u = rs_reservePtr st"
    "rs_retired u = rs_retired st @ ids" "rs_initialized u = rs_initialized st" "rs_active u = filter (\<lambda>(x, _). x \<notin> set ids) (rs_active st)"
    unfolding u_def using retire_ids [OF assms(1-3)] by blast+
  show "frontier_inv st'" using activateNext_inv [OF r(1), of "of_nat n" epoch] assms(4) by (simp add: u_def)
  have eq: "a = min n (length (rs_order u) - rs_reservePtr u)" "st' = u\<lparr>rs_reservePtr := rs_reservePtr u + a,
      rs_active := rs_active u @ map (\<lambda>uid. (uid, epoch)) (take a (drop (rs_reservePtr u) (rs_order u))), rs_cumulativeActivated := rs_cumulativeActivated u + a\<rparr>"
    using assms(4) activateNext_eq [OF r(1), of "of_nat n" epoch] by (auto simp: u_def [symmetric] Let_def)
  then show "a = min n (length (rs_order st) - rs_reservePtr st)" using r by simp
  show "rs_order st' = rs_order st" "rs_retired st' = rs_retired st @ ids" "rs_initialized st' = rs_initialized st" using r eq(2) by simp_all
  show "rs_active st' = filter (\<lambda>(x, _). x \<notin> set ids) (rs_active st) @ map (\<lambda>x. (x, epoch)) (take a (drop (rs_reservePtr st) (rs_order st)))"
    using r eq(2) by simp
  show "length (rs_active st') + length ids = length (rs_active st) + a" using inv_size [OF r(1)] inv_size [OF assms(1)] r(3,4) eq by simp
qed

lemma frontier_inv_irrelevant [simp]:
  "frontier_inv (st\<lparr>rs_injectedSinceLastStep := x\<rparr>) = frontier_inv st" "frontier_inv (st\<lparr>rs_ewmaAccepts := y\<rparr>) = frontier_inv st"
  "frontier_inv (st\<lparr>rs_initialized := b\<rparr>) = frontier_inv st"
  by (simp_all add: frontier_inv_def)

lemma update_ewma_fields [simp]:
  "frontier_inv (update_ewma fp acc st) = frontier_inv st" "rs_active (update_ewma fp acc st) = rs_active st"
  "rs_order (update_ewma fp acc st) = rs_order st" "rs_reservePtr (update_ewma fp acc st) = rs_reservePtr st"
  "rs_retired (update_ewma fp acc st) = rs_retired st" "rs_initialized (update_ewma fp acc st) = rs_initialized st"
  by (simp_all add: update_ewma_def split: option.splits)

lemma churn_rate_le:
  "churn_rate fp acc att st \<le> fp_maxRootDeltaPerEpoch fp" "nat \<lceil>churn_rate fp acc att st\<rceil> \<le> length (rs_order st) - rs_reservePtr st"
proof -
  show "churn_rate fp acc att st \<le> fp_maxRootDeltaPerEpoch fp" by (simp add: churn_rate_def Let_def)
  have "churn_rate fp acc att st \<le> of_int (max 0 (int (length (rs_order st)) - int (rs_reservePtr st)))" by (simp add: churn_rate_def Let_def of_int_max)
  then have "\<lceil>churn_rate fp acc att st\<rceil> \<le> max 0 (int (length (rs_order st)) - int (rs_reservePtr st))" by (simp only: ceiling_le_iff)
  then show "nat \<lceil>churn_rate fp acc att st\<rceil> \<le> length (rs_order st) - rs_reservePtr st" by linarith
qed

text \<open>The items that one epoch retires: those that have reached the maximal age, then the oldest of the rest.\<close>

definition oldest :: "nat \<Rightarrow> frontier \<Rightarrow> string list" where
  "oldest n st = map fst (take n (js_sort (age_compare (rs_order st)) (rs_active st)))"

lemma age_sorted: "sorted_wrt (\<lambda>a b. snd a \<le> snd b) (js_sort (age_compare order) xs)"
  by (rule js_sort_keyed) (auto simp: age_compare_def split: if_splits)

lemma oldest_first:
  assumes "frontier_inv st" "x \<in> set (oldest n st)" "y \<notin> set (oldest n st)" "(x, born) \<in> set (rs_active st)" "(y, born') \<in> set (rs_active st)"
  shows "born \<le> born'"
proof -
  define ys where "ys = js_sort (age_compare (rs_order st)) (rs_active st)"
  have ys: "set ys = set (rs_active st)" "distinct (map fst ys)"
    using inv_distinct(1) [OF assms(1)] by (simp_all add: ys_def, metis mset_eq_imp_distinct_iff mset_js_sort mset_map)
  have "(x, born) \<in> set (take n ys)"
  proof -
    obtain b where b: "(x, b) \<in> set (take n ys)" using assms(2) by (auto simp: oldest_def ys_def)
    then have "(x, b) \<in> set ys" by (rule in_set_takeD)
    then show ?thesis using b ys assms(4) by (metis eq_key_imp_eq_value)
  qed
  moreover have "(y, born') \<in> set (drop n ys)"
  proof -
    have "(y, born') \<in> set (take n ys) \<union> set (drop n ys)" using assms(5) ys(1) by (metis append_take_drop_id set_append)
    moreover have "(y, born') \<notin> set (take n ys)" using assms(3) by (force simp: oldest_def ys_def)
    ultimately show ?thesis by blast
  qed
  moreover have "sorted_wrt (\<lambda>a b. snd a \<le> snd b) (take n ys @ drop n ys)" using age_sorted by (simp add: ys_def)
  ultimately show ?thesis unfolding sorted_wrt_append by fastforce
qed

lemma step_initialised:
  assumes "frontier_inv st" "rs_initialized st" "stepEpoch fp epoch acc att st = (sn, st')"
  obtains old where "distinct (aged_ids fp epoch st @ old)" "set (aged_ids fp epoch st @ old) \<subseteq> fst ` set (rs_active st)"
    "length old \<le> nat \<lceil>fp_maxRootDeltaPerEpoch fp\<rceil>" "length old \<le> length (rs_order st) - rs_reservePtr st"
    "fp_mode fp = mode_off \<or> fp_mode fp = C0 \<Longrightarrow> old = []"
    "old = oldest (length old) (foldl retire_id st (aged_ids fp epoch st))"
    "sn_retired sn = length (aged_ids fp epoch st @ old)"
    "sn_activated sn = min (sn_retired sn) (length (rs_order st) - rs_reservePtr st)"
    "frontier_inv st'" "rs_order st' = rs_order st" "rs_retired st' = rs_retired st @ aged_ids fp epoch st @ old" "rs_initialized st'"
    "length (rs_active st') + sn_retired sn = length (rs_active st) + sn_activated sn"
proof -
  define aged where "aged = aged_ids fp epoch st"
  define u where "u = foldl retire_id st aged"
  have aged: "distinct aged" "set aged \<subseteq> fst ` set (rs_active st)" using aged_ids_ok [OF assms(1), of fp epoch] by (simp_all add: aged_def)
  have r: "frontier_inv u" "rs_order u = rs_order st" "rs_reservePtr u = rs_reservePtr st"
    "rs_retired u = rs_retired st @ aged" "rs_initialized u = rs_initialized st" "rs_active u = filter (\<lambda>(x, _). x \<notin> set aged) (rs_active st)"
    unfolding u_def using retire_ids [OF assms(1) aged] by blast+
  show ?thesis
  proof (cases "fp_mode fp = mode_off \<or> fp_mode fp = C0")
    case True
    obtain a w where a: "activateNext (of_nat (length aged)) epoch u = (a, w)" by fastforce
    note rot = rotate [OF assms(1) aged a [unfolded u_def]]
    have "st' = w\<lparr>rs_injectedSinceLastStep := 0\<rparr>" "sn_retired sn = length aged" "sn_activated sn = a"
      using assms(2,3) True a by (auto simp: stepEpoch_def take_snapshot_def Let_def aged_def u_def)
    then show ?thesis
      using that [of "[]"] rot aged assms(2) by (simp add: aged_def [symmetric] oldest_def)
  next
    case False
    define v where "v = update_ewma fp acc u"
    define n where "n = nat \<lceil>churn_rate fp acc att v\<rceil>"
    define old where "old = oldest n v"
    have v: "frontier_inv v" "rs_active v = rs_active u" "rs_order v = rs_order st" "rs_reservePtr v = rs_reservePtr st"
      "rs_retired v = rs_retired st @ aged" "rs_initialized v = rs_initialized st" using r by (simp_all add: v_def)
    have old: "distinct old" "set old \<subseteq> fst ` set (rs_active v)" using oldest_ids [OF v(1)] by (simp_all add: old_def oldest_def)
    obtain a w where a: "activateNext (of_nat (length aged + length old)) epoch (foldl retire_id v old) = (a, w)" by fastforce
    note rot = rotate [OF v(1) old a]
    have st': "st' = w\<lparr>rs_injectedSinceLastStep := 0\<rparr>" "sn_retired sn = length aged + length old" "sn_activated sn = a"
      using assms(2,3) False a
      by (auto simp: stepEpoch_def retireOldest_eq take_snapshot_def Let_def aged_def u_def v_def n_def old_def oldest_def split: prod.splits)
    have "length old \<le> n" by (simp add: old_def oldest_def)
    moreover have "n \<le> nat \<lceil>fp_maxRootDeltaPerEpoch fp\<rceil>" "n \<le> length (rs_order st) - rs_reservePtr st"
      using churn_rate_le [of fp acc att v] v by (simp_all add: n_def nat_mono ceiling_mono)
    moreover have "old = oldest (length old) u" using v r by (simp add: old_def oldest_def min_def)
    moreover have "distinct (aged @ old)" "set (aged @ old) \<subseteq> fst ` set (rs_active st)" using aged old v(2) r(6) by auto
    moreover have "length (rs_active w) + (length aged + length old) = length (rs_active st) + a"
      using rot(4) inv_size [OF v(1)] inv_size [OF assms(1)] v(4,5) by simp
    ultimately show ?thesis
      using that [of old] rot(1-3,5,6) v(3-6) st' False assms(2) by (simp add: aged_def [symmetric] u_def [symmetric])
  qed
qed


lemma step_first:
  assumes "frontier_inv st" "\<not> rs_initialized st" "stepEpoch fp epoch acc att st = (sn, st')"
  shows "frontier_inv st'" "rs_order st' = rs_order st" "rs_retired st' = rs_retired st" "rs_initialized st'" "sn_retired sn = 0"
    "sn_activated sn = min (nat \<lceil>rs_K st\<rceil>) (length (rs_order st) - rs_reservePtr st)"
    "length (rs_active st') = length (rs_active st) + sn_activated sn"
proof -
  define u where "u = st\<lparr>rs_initialized := True\<rparr>"
  have u: "frontier_inv u" "rs_order u = rs_order st" "rs_reservePtr u = rs_reservePtr st" "rs_retired u = rs_retired st" "rs_active u = rs_active st" "rs_initialized u"
    using assms(1) by (simp_all add: u_def)
  obtain a w where a: "activateNext (rs_K st) epoch u = (a, w)" by fastforce
  have w: "a = min (nat \<lceil>rs_K st\<rceil>) (length (rs_order u) - rs_reservePtr u)" "w = u\<lparr>rs_reservePtr := rs_reservePtr u + a,
      rs_active := rs_active u @ map (\<lambda>uid. (uid, epoch)) (take a (drop (rs_reservePtr u) (rs_order u))), rs_cumulativeActivated := rs_cumulativeActivated u + a\<rparr>"
    using a activateNext_eq [OF u(1), of "rs_K st" epoch] by (auto simp: Let_def)
  have st': "st' = w\<lparr>rs_injectedSinceLastStep := 0\<rparr>" "sn_retired sn = 0" "sn_activated sn = a"
    using assms(2,3) a by (auto simp: stepEpoch_def take_snapshot_def Let_def u_def)
  show "frontier_inv st'" using activateNext_inv [OF u(1), of "rs_K st" epoch] a st'(1) by simp
  show "rs_order st' = rs_order st" "rs_retired st' = rs_retired st" "rs_initialized st'" "sn_retired sn = 0"
    "sn_activated sn = min (nat \<lceil>rs_K st\<rceil>) (length (rs_order st) - rs_reservePtr st)"
    "length (rs_active st') = length (rs_active st) + sn_activated sn"
    using w u st' by simp_all
qed

section \<open>Reachable frontiers\<close>

inductive frontier_reach :: "EpochFrontierParams \<Rightarrow> frontier \<Rightarrow> bool" for fp where
  start: "makeEpochFrontier fp familyOf ids None = Inr st \<Longrightarrow> distinct ids \<Longrightarrow> frontier_reach fp st"
| step: "frontier_reach fp st \<Longrightarrow> frontier_reach fp (snd (stepEpoch fp epoch acc att st))"
| inject: "frontier_reach fp st \<Longrightarrow> distinct newIds \<Longrightarrow> frontier_reach fp (snd (addReserveIds fp newIds familyOfFn st))"

lemma distinct_build_order: "distinct (build_order fp fam ids) = distinct ids" "set (build_order fp fam ids) = set ids"
  using build_order_perm [of fp fam ids] by (metis mset_eq_imp_distinct_iff, metis mset_eq_setD)

lemma inject_inv:
  assumes "frontier_inv st" "distinct newIds"
  shows "frontier_inv (snd (addReserveIds fp newIds fam st))"
proof -
  let ?p = "rs_reservePtr st"
  define seg where "seg = build_order fp fam (filter (\<lambda>id. id \<notin> fst ` set (rs_active st) \<and> id \<notin> set (rs_retired st) \<and> id \<notin> set (rs_order st)) newIds)"
  have seg: "distinct seg" "set seg \<inter> set (rs_order st) = {}" using assms(2) by (auto simp: seg_def distinct_build_order)
  have p: "?p \<le> length (rs_order st)" "distinct (take ?p (rs_order st) @ drop ?p (rs_order st))" using assms(1) by (simp_all add: frontier_inv_def)
  have "distinct (take ?p (rs_order st) @ seg @ drop ?p (rs_order st))"
    using p(2) seg set_take_subset [of ?p "rs_order st"] set_drop_subset [of ?p "rs_order st"] unfolding distinct_append by auto
  then show ?thesis using assms(1) p(1) by (simp add: addReserveIds_def Let_def frontier_inv_def seg_def [symmetric])
qed

lemma frontier_reach_inv: "frontier_reach fp st \<Longrightarrow> frontier_inv st"
proof (induction rule: frontier_reach.induct)
  case (start fam ids st)
  then show ?case by (auto simp: makeEpochFrontier_def frontier_inv_def distinct_build_order Let_def)
next
  case (step st epoch acc att)
  then show ?case
    by (cases "rs_initialized st"; cases "stepEpoch fp epoch acc att st") (auto elim: step_initialised dest: step_first(1))
next
  case (inject st newIds fam)
  then show ?case by (simp add: inject_inv)
qed


section \<open>What the frontier guarantees\<close>



definition demo_params :: EpochFrontierParams where
  "demo_params = \<lparr>fp_mode = C1, fp_activeWindow = Some 2, fp_churnRate = 1, fp_maxAge = PosInf, fp_lowAdvancesThreshold = 1,
     fp_lowAdvancesBumpRate = None, fp_seed = ''s'', fp_minChurn = 2, fp_maxChurn = 12, fp_targetAccepts = 2, fp_headroomLowWatermark = 1,
     fp_headroomHighWatermark = 3, fp_maxRootDeltaPerEpoch = 24, fp_ewmaStep = (\<lambda>a e. a), fp_recoveryUnits = (\<lambda>r. 2),
     fp_sha256 = (\<lambda>s. replicate 64 (CHR ''0''))\<rparr>"

definition demo_frontier :: frontier where
  "demo_frontier = \<lparr>rs_order = [''b'', ''a'', ''c''], rs_reservePtr = 0, rs_active = [], rs_retired = [], rs_cumulativeActivated = 0,
     rs_cumulativeRetired = 0, rs_initialized = False, rs_injectedSinceLastStep = 0, rs_ewmaAccepts = None, rs_K = 2\<rparr>"

lemma demo_starts: "makeEpochFrontier demo_params (\<lambda>x. Some (if x = ''b'' then ''F'' else ''G'')) [''c'', ''b'', ''a''] None = Inr demo_frontier"
  by (simp add: makeEpochFrontier_def build_order_def group_ids_def js_sort_def rounds.simps round_at_def family_compare_def string_compare_def
    demo_params_def demo_frontier_def window_size_def h12_def Let_def)

definition demo_first :: frontier where
  "demo_first = demo_frontier\<lparr>rs_reservePtr := 2, rs_active := [(''b'', 0), (''a'', 0)], rs_cumulativeActivated := 2, rs_initialized := True\<rparr>"

lemma demo_steps: "snd (stepEpoch demo_params 0 None None demo_frontier) = demo_first"
  by (simp add: stepEpoch_def activateNext_def demo_params_def demo_frontier_def demo_first_def Let_def)

lemma demo_second:
  "map_prod sn_activeIds rs_retired (stepEpoch demo_params 1 None None demo_first) = ([''a'', ''c''], [''b''])"
proof -
  have rate: "churn_rate demo_params None None demo_first = 1"
    by (simp add: churn_rate_def base_rate_def demo_first_def demo_params_def demo_frontier_def)
  have old: "retireOldest 1 demo_first = (1, retire_id demo_first ''b'')"
    by (simp add: retireOldest_def demo_first_def demo_frontier_def js_sort_def age_compare_def order_index_def upt_rec)
  have "aged_ids demo_params 1 demo_first = []" "update_ewma demo_params None demo_first = demo_first" "fp_mode demo_params = C1" "rs_initialized demo_first"
    by (simp_all add: aged_ids_def update_ewma_def demo_params_def demo_first_def)
  then show ?thesis
    by (simp add: stepEpoch_def rate old Let_def)
      (simp add: demo_first_def demo_params_def demo_frontier_def retire_id_def js_set_add_def activateNext_def take_snapshot_def)
qed



text \<open>The launch frontier is canonical: it does not depend on the order in which the corpus lists its events, and its
  order is an arrangement of exactly the hidden evaluation items.\<close>

lemma launch_frontier_canonical:
  assumes "mset events = mset events'" "distinct (map ce_id (eval_hidden events))"
  shows "makeLaunchFrontier fl sha profile events = makeLaunchFrontier fl sha profile events' \<and>
    (\<forall>st. makeLaunchFrontier fl sha profile events = Some (Inr st) \<longrightarrow>
      mset (rs_order st) = mset (map ce_id (filter (\<lambda>e. ce_split e = Some ''eval_hidden'') events)))"
proof -
  have hidden: "mset (eval_hidden events) = mset (eval_hidden events')" using assms(1) by (simp add: eval_hidden_def)
  have ids: "mset (map ce_id (eval_hidden events)) = mset (map ce_id (eval_hidden events'))" using hidden by simp
  have "family_map (eval_hidden events) = family_map (eval_hidden events')"
  proof -
    let ?row = "\<lambda>e. (ce_id e, or_default (ce_logicalFamily e) (or_default (ce_family e) ''unknown''))"
    have "distinct (map fst (rev (map ?row (eval_hidden events))))" using assms(2) by (simp add: comp_def rev_map [symmetric])
    moreover have "distinct (map fst (rev (map ?row (eval_hidden events'))))"
      using assms(2) mset_eq_imp_distinct_iff [OF ids] by (simp add: comp_def rev_map [symmetric])
    moreover have "set (rev (map ?row (eval_hidden events))) = set (rev (map ?row (eval_hidden events')))"
      using mset_eq_setD [OF hidden] by simp
    ultimately show ?thesis unfolding family_map_def by (simp only: map_of_inject_set)
  qed
  then have "makeLaunchFrontier fl sha profile events = makeLaunchFrontier fl sha profile events'"
    by (simp add: makeLaunchFrontier_def makeEpochFrontier_def build_order_deterministic [OF ids] split: option.splits)
  moreover have "mset (rs_order st) = mset (map ce_id (eval_hidden events))" if "makeLaunchFrontier fl sha profile events = Some (Inr st)" for st
    using that by (auto simp: makeLaunchFrontier_def makeEpochFrontier_def build_order_perm Let_def split: option.splits if_splits)
  ultimately show ?thesis by (simp add: eval_hidden_def)
qed

lemma import_active: "distinct (map fst al) \<Longrightarrow> foldl (\<lambda>m (x, e). AList.update x e m) [] al = al"
proof (induction al rule: rev_induct)
  case (snoc p al)
  then show ?case by (cases p) (auto simp: update_fresh)
qed simp

lemma import_retired: "distinct xs \<Longrightarrow> foldl js_set_add [] xs = xs"
  by (induction xs rule: rev_induct) (auto simp: js_set_add_def)

lemma take_snapshot_K [simp]: "take_snapshot fp epoch a r rate (st\<lparr>rs_K := k\<rparr>) = take_snapshot fp epoch a r rate st"
  by (simp add: take_snapshot_def)

lemma retire_ids_K: "foldl retire_id (st\<lparr>rs_K := k\<rparr>) ids = (foldl retire_id st ids)\<lparr>rs_K := k\<rparr>"
proof (induction ids arbitrary: st)
  case (Cons x ids)
  have "retire_id (st\<lparr>rs_K := k\<rparr>) x = (retire_id st x)\<lparr>rs_K := k\<rparr>" by (simp add: retire_id_def)
  then show ?case by (simp add: Cons.IH)
qed simp

lemma activate_loop_K: "activate_loop n epoch rest a (st\<lparr>rs_K := k\<rparr>) = map_prod id (\<lambda>s. s\<lparr>rs_K := k\<rparr>) (activate_loop n epoch rest a st)"
proof (induction rest arbitrary: a st)
  case (Cons x rest)
  show ?case
    using Cons.IH [of a "st\<lparr>rs_reservePtr := rs_reservePtr st + 1\<rparr>"] Cons.IH [of "a + 1" "st\<lparr>rs_reservePtr := rs_reservePtr st + 1,
      rs_active := AList.update x epoch (rs_active st), rs_cumulativeActivated := rs_cumulativeActivated st + 1\<rparr>"]
    by (cases st) (simp add: Let_def)
qed simp

lemma step_K:
  assumes "rs_initialized st"
  shows "stepEpoch fp epoch acc att (st\<lparr>rs_K := k\<rparr>) = map_prod (\<lambda>sn. sn) (\<lambda>s. s\<lparr>rs_K := k\<rparr>) (stepEpoch fp epoch acc att st)"
proof -
  have upd: "update_ewma fp acc (s\<lparr>rs_K := k\<rparr>) = (update_ewma fp acc s)\<lparr>rs_K := k\<rparr>" for s by (simp add: update_ewma_def split: option.splits)
  have rate: "churn_rate fp acc att (s\<lparr>rs_K := k\<rparr>) = churn_rate fp acc att s" for s
    by (cases s) (simp only: churn_rate_def base_rate_def frontier.select_convs frontier.update_convs)
  have next_K: "activateNext n epoch (s\<lparr>rs_K := k\<rparr>) = map_prod id (\<lambda>s. s\<lparr>rs_K := k\<rparr>) (activateNext n epoch s)" for n s
    by (simp add: activateNext_def activate_loop_K)
  have old: "retireOldest n (s\<lparr>rs_K := k\<rparr>) = map_prod id (\<lambda>s. s\<lparr>rs_K := k\<rparr>) (retireOldest n s)" for n s
    by (simp add: retireOldest_def retire_ids_K Let_def)
  have aged: "aged_ids fp epoch (st\<lparr>rs_K := k\<rparr>) = aged_ids fp epoch st" by (cases st) (simp only: aged_ids_def frontier.select_convs frontier.update_convs)
  have inj: "(s\<lparr>rs_K := k\<rparr>)\<lparr>rs_injectedSinceLastStep := 0\<rparr> = (s\<lparr>rs_injectedSinceLastStep := 0\<rparr>)\<lparr>rs_K := k\<rparr>" for s by simp
  define u where "u = foldl retire_id st (aged_ids fp epoch st)"
  define v where "v = update_ewma fp acc u"
  obtain r w where r: "retireOldest (churn_rate fp acc att v) v = (r, w)" by fastforce
  obtain a x where a: "activateNext (of_nat (length (aged_ids fp epoch st) + r)) epoch w = (a, x)" by fastforce
  obtain a' x' where a': "activateNext (of_nat (length (aged_ids fp epoch st))) epoch u = (a', x')" by fastforce
  show ?thesis
    using assms unfolding stepEpoch_def aged retire_ids_K Let_def u_def [symmetric] upd v_def [symmetric] rate old next_K r a a'
    by (simp add: next_K a [unfolded of_nat_add] a' inj)
qed

text \<open>Saving and loading: for every reachable frontier of known items the exported state is accepted, and the loaded
  frontier has the same order, active, retired and reserve items; once the first epoch is done it also
  answers every further epoch with the same snapshot.\<close>

lemma frontier_export_import:
  assumes "frontier_reach fp st" "set (rs_order st) \<subseteq> set ids"
  shows "\<exists>st'. makeEpochFrontier fp fam ids (Some (exportState st)) = Inr st' \<and> st'\<lparr>rs_K := rs_K st\<rparr> = st \<and>
    (rs_initialized st \<longrightarrow> (\<forall>fp epoch acc att. fst (stepEpoch fp epoch acc att st') = fst (stepEpoch fp epoch acc att st)))"
proof -
  note inv = frontier_reach_inv [OF assms(1)]
  have known: "set (map fst (rs_active st)) \<subseteq> set ids" "set (rs_retired st) \<subseteq> set ids"
    using inv_partition(2) [OF inv] assms(2) by auto
  let ?st = "st\<lparr>rs_K := window_size fp (rs_order st)\<rparr>"
  have "makeEpochFrontier fp fam ids (Some (exportState st)) = Inr ?st"
    using assms(2) known inv_distinct(1,2) [OF inv]
    by (auto simp: makeEpochFrontier_def exportState_def list_all_iff import_active import_retired Let_def)
  moreover have "?st\<lparr>rs_K := rs_K st\<rparr> = st" by simp
  moreover have "fst (stepEpoch gp epoch acc att ?st) = fst (stepEpoch gp epoch acc att st)" if "rs_initialized st" for gp epoch acc att
    using step_K [OF that] by (simp add: fst_map_prod)
  ultimately show ?thesis by blast
qed

end
