(* ===== verification/Rewards.thy ===== *)
theory Rewards
  imports JsSort JsValues
begin

text \<open>
  Credit issuance and merge bonuses: \<open>packages/coretex/src/reducer/eligibility.ts\<close> and
  \<open>multiplier-cap.ts\<close>. Addresses are ASCII, on which \<open>localeCompare\<close> of lower-case hex is the order of code units.
\<close>

section \<open>Implementation\<close>

record ScreenerPassedEvent =
  ev_epoch :: bigint
  ev_miner :: string
  ev_patchHash :: string

record CreditIssuance = ScreenerPassedEvent +
  tierCredits :: bigint

datatype skipped_event = screener | merger

record EpochEligibility =
  creditIssuances :: "CreditIssuance list"
  multiplierAccruals :: "ScreenerPassedEvent list"
  duplicatesSkipped :: "(skipped_event \<times> ScreenerPassedEvent) list"

text \<open>\<open>toString\<close> of a big integer.\<close>

fun nat_string :: "nat \<Rightarrow> string" where
  "nat_string n = (if n < 10 then [char_of (48 + n)] else nat_string (n div 10) @ [char_of (48 + n mod 10)])"

declare nat_string.simps [simp del]

definition bigint_toString :: "bigint \<Rightarrow> string" where
  "bigint_toString v = (if v < 0 then CHR ''-'' # nat_string (nat (- v)) else nat_string (nat v))"

definition eligibilityKey :: "bigint \<Rightarrow> string \<Rightarrow> string \<Rightarrow> string" where
  "eligibilityKey epoch miner hash = bigint_toString epoch @ '':'' @ toLowerCase miner @ '':'' @ toLowerCase hash"

definition event_key :: "'a ScreenerPassedEvent_scheme \<Rightarrow> string" where
  "event_key ev = eligibilityKey (ev_epoch ev) (ev_miner ev) (ev_patchHash ev)"

fun screen_loop :: "(string \<Rightarrow> bigint) \<Rightarrow> ScreenerPassedEvent list \<Rightarrow> string list \<Rightarrow> CreditIssuance list \<Rightarrow> (skipped_event \<times> ScreenerPassedEvent) list
    \<Rightarrow> string list \<times> CreditIssuance list \<times> (skipped_event \<times> ScreenerPassedEvent) list" where
  "screen_loop tierCreditsFor [] seen credits dups = (seen, credits, dups)"
| "screen_loop tierCreditsFor (ev # rest) seen credits dups =
     (if event_key ev \<in> set seen then screen_loop tierCreditsFor rest seen credits (dups @ [(screener, ev)])
      else screen_loop tierCreditsFor rest (js_set_add seen (event_key ev))
        (credits @ [\<lparr>ev_epoch = ev_epoch ev, ev_miner = ev_miner ev, ev_patchHash = ev_patchHash ev, tierCredits = tierCreditsFor (ev_miner ev)\<rparr>]) dups)"

fun merge_loop :: "string list \<Rightarrow> ScreenerPassedEvent list \<Rightarrow> string list \<Rightarrow> ScreenerPassedEvent list \<Rightarrow> (skipped_event \<times> ScreenerPassedEvent) list
    \<Rightarrow> ScreenerPassedEvent list \<times> (skipped_event \<times> ScreenerPassedEvent) list" where
  "merge_loop seenScreener [] seenMerger accruals dups = (accruals, dups)"
| "merge_loop seenScreener (ev # rest) seenMerger accruals dups =
     (if event_key ev \<notin> set seenScreener then merge_loop seenScreener rest seenMerger accruals (dups @ [(merger, ev)])
      else if event_key ev \<in> set seenMerger then merge_loop seenScreener rest seenMerger accruals (dups @ [(merger, ev)])
      else merge_loop seenScreener rest (js_set_add seenMerger (event_key ev)) (accruals @ [ev]) dups)"

definition buildEpochEligibility :: "ScreenerPassedEvent list \<Rightarrow> ScreenerPassedEvent list \<Rightarrow> (string \<Rightarrow> bigint) \<Rightarrow> EpochEligibility" where
  "buildEpochEligibility screenerEvents mergedEvents tierCreditsFor =
     (let (seenScreener, credits, dups) = screen_loop tierCreditsFor screenerEvents [] [] [];
          (accruals, dups) = merge_loop seenScreener mergedEvents [] [] dups
      in \<lparr>creditIssuances = credits, multiplierAccruals = accruals, duplicatesSkipped = dups\<rparr>)"

definition minerScreenerCredits :: "EpochEligibility \<Rightarrow> string \<Rightarrow> bigint" where
  "minerScreenerCredits eligibility miner =
     (let m = toLowerCase miner in
      foldl (\<lambda>total ci. if toLowerCase (ev_miner ci) = m then total + tierCredits ci else total) 0 (creditIssuances eligibility))"

definition minerHasMerge :: "EpochEligibility \<Rightarrow> string \<Rightarrow> bool" where
  "minerHasMerge eligibility miner =
     (let m = toLowerCase miner in list_ex (\<lambda>a. toLowerCase (ev_miner a) = m) (multiplierAccruals eligibility))"

abbreviation (input) "BPS_DIVISOR \<equiv> (10000 :: bigint)"

definition MERGE_MULTIPLIER_BPS :: bigint where
  "MERGE_MULTIPLIER_BPS = 10000"

record MinerBonusLeaf =
  bl_miner :: string
  bonusBotcoin :: bigint
  capBotcoin :: bigint

record MinerClaimBase =
  cb_miner :: string
  claimBase :: bigint

definition computeMinerBonus :: "string \<Rightarrow> bigint \<Rightarrow> bigint \<Rightarrow> MinerBonusLeaf js" where
  "computeMinerBonus miner base multiplierBps =
     (if base < 0 then Inl (RangeError ''computeMinerBonus: claimBase must be non-negative'')
      else let upliftBps = multiplierBps - BPS_DIVISOR in
        js_bind (js_bigdiv (upliftBps * base) BPS_DIVISOR) (\<lambda>bonus.
        Inr \<lparr>bl_miner = toLowerCase miner, bonusBotcoin = bonus, capBotcoin = bonus\<rparr>))"

definition claim_base_map :: "MinerClaimBase list \<Rightarrow> string \<Rightarrow> bigint" where
  "claim_base_map claimBases miner =
     (case foldl (\<lambda>m cb. m(toLowerCase (cb_miner cb) \<mapsto> claimBase cb)) Map.empty claimBases miner of Some b \<Rightarrow> b | None \<Rightarrow> 0)"

fun leaves_loop :: "(string \<Rightarrow> bigint) \<Rightarrow> bigint \<Rightarrow> ScreenerPassedEvent list \<Rightarrow> string list \<Rightarrow> MinerBonusLeaf list \<Rightarrow> MinerBonusLeaf list js" where
  "leaves_loop bases mbps [] seen leaves = Inr leaves"
| "leaves_loop bases mbps (accrual # rest) seen leaves =
     (let miner = toLowerCase (ev_miner accrual) in
      if miner \<in> set seen then leaves_loop bases mbps rest seen leaves
      else let seen = js_set_add seen miner; base = bases miner in
        if base = 0 then leaves_loop bases mbps rest seen leaves
        else js_bind (computeMinerBonus miner base mbps) (\<lambda>leaf.
          if bonusBotcoin leaf = 0 then leaves_loop bases mbps rest seen leaves
          else leaves_loop bases mbps rest seen (leaves @ [leaf])))"

definition compare_miners :: "MinerBonusLeaf \<Rightarrow> MinerBonusLeaf \<Rightarrow> int" where
  "compare_miners a b = (if js_string_less (bl_miner a) (bl_miner b) then -1 else if js_string_less (bl_miner b) (bl_miner a) then 1 else 0)"

definition buildEpochBonusLeaves :: "EpochEligibility \<Rightarrow> MinerClaimBase list \<Rightarrow> bigint \<Rightarrow> MinerBonusLeaf list js" where
  "buildEpochBonusLeaves eligibility claimBases multiplierBps =
     js_bind (leaves_loop (claim_base_map claimBases) multiplierBps (multiplierAccruals eligibility) [] []) (\<lambda>leaves.
     Inr (js_sort compare_miners leaves))"

definition computeEpochTotalBonus :: "MinerBonusLeaf list \<Rightarrow> bigint" where
  "computeEpochTotalBonus leaves = foldl (\<lambda>total leaf. total + bonusBotcoin leaf) 0 leaves"

definition assertBonusWithinCap :: "MinerBonusLeaf \<Rightarrow> unit js" where
  "assertBonusWithinCap leaf = (if bonusBotcoin leaf > capBotcoin leaf then Inl (JsError ''multiplier cap violation'') else Inr ())"

section \<open>No double credit\<close>

lemma screen_loop_spec:
  assumes "screen_loop tier evs seen credits dups = (seen', credits', dups')" "distinct (map event_key credits)"
    "set seen = event_key ` set credits"
  shows "distinct (map event_key credits') \<and> set seen' = event_key ` set credits' \<and>
    set seen' = set seen \<union> event_key ` set evs \<and> length credits' + length dups' = length credits + length dups + length evs \<and>
    (\<forall>c \<in> set credits' - set credits. \<exists>ev \<in> set evs. ScreenerPassedEvent.truncate c = ev \<and> tierCredits c = tier (ev_miner ev))"
  using assms
proof (induction evs arbitrary: seen credits dups)
  case (Cons ev evs)
  show ?case
  proof (cases "event_key ev \<in> set seen")
    case True
    then show ?thesis using Cons.IH [of seen credits "dups @ [(screener, ev)]"] Cons.prems by auto
  next
    case False
    let ?c = "\<lparr>ev_epoch = ev_epoch ev, ev_miner = ev_miner ev, ev_patchHash = ev_patchHash ev, tierCredits = tier (ev_miner ev)\<rparr>"
    have k: "event_key ?c = event_key ev" by (simp add: event_key_def)
    have "screen_loop tier evs (js_set_add seen (event_key ev)) (credits @ [?c]) dups = (seen', credits', dups')" using Cons.prems False by simp
    from Cons.IH [OF this] have IH: "distinct (map event_key credits') \<and> set seen' = event_key ` set credits' \<and>
        set seen' = insert (event_key ev) (set seen) \<union> event_key ` set evs \<and> length credits' + length dups' = Suc (length credits + length dups + length evs) \<and>
        (\<forall>c \<in> set credits' - set (credits @ [?c]). \<exists>ev \<in> set evs. ScreenerPassedEvent.truncate c = ev \<and> tierCredits c = tier (ev_miner ev))"
      using Cons.prems False k by auto
    moreover have "ScreenerPassedEvent.truncate ?c = ev" by (cases ev) (simp add: ScreenerPassedEvent.defs)
    ultimately show ?thesis by auto
  qed
qed simp

lemma merge_loop_spec:
  assumes "merge_loop sc evs seen accr dups = (accr', dups')" "distinct (map event_key accr)" "set seen = event_key ` set accr"
  shows "distinct (map event_key accr') \<and> event_key ` set accr' = event_key ` set accr \<union> (event_key ` set evs \<inter> set sc) \<and>
    set accr' \<subseteq> set accr \<union> set evs \<and> length accr' + length dups' = length accr + length dups + length evs"
  using assms
proof (induction evs arbitrary: seen accr dups)
  case (Cons ev evs)
  consider "event_key ev \<notin> set sc" | "event_key ev \<in> set sc" "event_key ev \<in> set seen" | "event_key ev \<in> set sc" "event_key ev \<notin> set seen" by blast
  then show ?case
  proof cases
    case 1
    then show ?thesis using Cons.IH [of seen accr "dups @ [(merger, ev)]"] Cons.prems by auto
  next
    case 2
    then show ?thesis using Cons.IH [of seen accr "dups @ [(merger, ev)]"] Cons.prems by auto
  next
    case 3
    then show ?thesis using Cons.IH [of "js_set_add seen (event_key ev)" "accr @ [ev]" dups] Cons.prems by auto
  qed
qed simp


section \<open>Bonus leaves\<close>

definition bonus_of :: "bigint \<Rightarrow> bigint \<Rightarrow> bigint" where
  "bonus_of mbps base = (mbps - 10000) * base div 10000"

lemma computeMinerBonus_value:
  "10000 \<le> mbps \<Longrightarrow> 0 \<le> base \<Longrightarrow> computeMinerBonus m base mbps
    = Inr \<lparr>bl_miner = toLowerCase m, bonusBotcoin = bonus_of mbps base, capBotcoin = bonus_of mbps base\<rparr>"
  by (simp add: computeMinerBonus_def js_bigdiv_nonneg bonus_of_def Let_def)

lemma bonus_of_nonneg: "10000 \<le> mbps \<Longrightarrow> 0 \<le> base \<Longrightarrow> 0 \<le> bonus_of mbps base"
  by (simp add: bonus_of_def pos_imp_zdiv_nonneg_iff)

definition leaf_ok :: "(string \<Rightarrow> bigint) \<Rightarrow> bigint \<Rightarrow> MinerBonusLeaf \<Rightarrow> bool" where
  "leaf_ok bases mbps l \<longleftrightarrow> bonusBotcoin l = bonus_of mbps (bases (bl_miner l)) \<and> 0 < bonusBotcoin l \<and> capBotcoin l = bonusBotcoin l"

lemma leaves_loop_spec:
  assumes "10000 \<le> mbps" "\<forall>m. 0 \<le> bases m"
    "distinct (map bl_miner ls)" "bl_miner ` set ls \<subseteq> set seen" "list_all (leaf_ok bases mbps) ls"
    "\<forall>m \<in> set seen. 0 < bonus_of mbps (bases m) \<longrightarrow> m \<in> bl_miner ` set ls"
  shows "\<exists>ls'. leaves_loop bases mbps acc seen ls = Inr ls' \<and> distinct (map bl_miner ls') \<and> list_all (leaf_ok bases mbps) ls' \<and>
    bl_miner ` set ls' = bl_miner ` set ls \<union> {m \<in> toLowerCase ` ev_miner ` set acc. 0 < bonus_of mbps (bases m)}"
  using assms(3-6)
proof (induction acc arbitrary: seen ls)
  case (Cons a acc)
  let ?m = "toLowerCase (ev_miner a)"
  have z: "bonus_of mbps 0 = 0" by (simp add: bonus_of_def)
  consider "?m \<in> set seen" | "?m \<notin> set seen" "bonus_of mbps (bases ?m) = 0" | "?m \<notin> set seen" "0 < bonus_of mbps (bases ?m)"
    using bonus_of_nonneg [OF assms(1)] assms(2) by (metis le_less)
  then show ?case
  proof cases
    case 1
    then have "leaves_loop bases mbps (a # acc) seen ls = leaves_loop bases mbps acc seen ls" by simp
    moreover have "bl_miner ` set ls \<union> {m \<in> toLowerCase ` ev_miner ` set acc. 0 < bonus_of mbps (bases m)}
        = bl_miner ` set ls \<union> {m \<in> toLowerCase ` ev_miner ` set (a # acc). 0 < bonus_of mbps (bases m)}"
      using 1 Cons.prems(4) by auto
    ultimately show ?thesis using Cons.IH [OF Cons.prems] by simp
  next
    case 2
    have eq: "leaves_loop bases mbps (a # acc) seen ls = leaves_loop bases mbps acc (js_set_add seen ?m) ls"
      using 2 assms(1,2) by (simp add: computeMinerBonus_value Let_def)
    have sets: "{m \<in> toLowerCase ` ev_miner ` set (a # acc). 0 < bonus_of mbps (bases m)}
        = {m \<in> toLowerCase ` ev_miner ` set acc. 0 < bonus_of mbps (bases m)}" using 2 by auto
    show ?thesis unfolding eq sets by (rule Cons.IH) (use Cons.prems 2 in auto)
  next
    case 3
    let ?l = "\<lparr>bl_miner = ?m, bonusBotcoin = bonus_of mbps (bases ?m), capBotcoin = bonus_of mbps (bases ?m)\<rparr>"
    have "bases ?m \<noteq> 0" using 3 z by auto
    then have eq: "leaves_loop bases mbps (a # acc) seen ls = leaves_loop bases mbps acc (js_set_add seen ?m) (ls @ [?l])"
      using 3 assms(1,2) by (simp add: computeMinerBonus_value Let_def)
    have sets: "bl_miner ` set ls \<union> {m \<in> toLowerCase ` ev_miner ` set (a # acc). 0 < bonus_of mbps (bases m)}
        = bl_miner ` set (ls @ [?l]) \<union> {m \<in> toLowerCase ` ev_miner ` set acc. 0 < bonus_of mbps (bases m)}" using 3 by auto
    show ?thesis unfolding eq sets by (rule Cons.IH) (use Cons.prems 3 in \<open>auto simp: leaf_ok_def\<close>)
  qed
qed simp

lemma compare_miners_less: "compare_miners x y < 0 \<longleftrightarrow> js_string_less (bl_miner x) (bl_miner y)"
  by (simp add: compare_miners_def)

interpretation miners: js_comparator compare_miners
  by unfold_locales (auto simp: compare_miners_less dest: js_string_less_asym js_string_less_neg_trans)

lemma sorted_miners:
  "sorted_wrt miners.le ls \<Longrightarrow> distinct (map bl_miner ls) \<Longrightarrow> sorted_wrt (\<lambda>a b. js_string_less (bl_miner a) (bl_miner b)) ls"
proof (induction ls)
  case (Cons l ls)
  have "js_string_less (bl_miner l) (bl_miner k)" if "k \<in> set ls" for k
    using Cons.prems that js_string_less_total [of "bl_miner l" "bl_miner k"] by (auto simp: miners.le_def compare_miners_less)
  then show ?case using Cons by simp
qed simp

lemma claim_base_nonneg:
  assumes "\<forall>cb \<in> set cbs. 0 \<le> claimBase cb"
  shows "0 \<le> claim_base_map cbs m"
proof -
  have "\<forall>v \<in> ran (foldl (\<lambda>m cb. m(toLowerCase (cb_miner cb) \<mapsto> claimBase cb)) Map.empty cbs). 0 \<le> v"
    using assms by (induction cbs rule: rev_induct) (auto simp: ran_def)
  then show ?thesis by (auto simp: claim_base_map_def ran_def split: option.splits)
qed

lemma total_bonus: "computeEpochTotalBonus ls = sum_list (map bonusBotcoin ls)"
proof -
  have "foldl (\<lambda>total leaf. total + bonusBotcoin leaf) n ls = n + sum_list (map bonusBotcoin ls)" for n
    by (induction ls arbitrary: n) simp_all
  then show ?thesis by (simp add: computeEpochTotalBonus_def)
qed

text \<open>The bonus leaves are exact: for a multiplier of at least 1x and non-negative claim bases the builder returns one
  leaf for each miner with an accrual and a positive uplift, and for no other; leaves are strictly
  ordered by miner, within their cap, and their total is what an epoch is funded with; at 1x
  there are none.\<close>

lemma bonus_leaves_exact:
  assumes "10000 \<le> mbps" "\<forall>cb \<in> set cbs. 0 \<le> claimBase cb"
  shows "\<exists>ls. buildEpochBonusLeaves e cbs mbps = Inr ls \<and>
    sorted_wrt (\<lambda>a b. js_string_less (bl_miner a) (bl_miner b)) ls \<and>
    bl_miner ` set ls = {m. (\<exists>a \<in> set (multiplierAccruals e). toLowerCase (ev_miner a) = m) \<and> 0 < (mbps - 10000) * claim_base_map cbs m div 10000} \<and>
    (\<forall>l \<in> set ls. minerHasMerge e (bl_miner l) \<and> assertBonusWithinCap l = Inr () \<and>
      bonusBotcoin l = (mbps - 10000) * claim_base_map cbs (bl_miner l) div 10000) \<and>
    computeEpochTotalBonus ls = (\<Sum>m \<in> bl_miner ` set ls. (mbps - 10000) * claim_base_map cbs m div 10000) \<and>
    (mbps = MERGE_MULTIPLIER_BPS \<longrightarrow> ls = [])"
proof -
  let ?b = "claim_base_map cbs"
  obtain ls where ls: "leaves_loop ?b mbps (multiplierAccruals e) [] [] = Inr ls" "distinct (map bl_miner ls)" "list_all (leaf_ok ?b mbps) ls"
      "bl_miner ` set ls = {m \<in> toLowerCase ` ev_miner ` set (multiplierAccruals e). 0 < bonus_of mbps (?b m)}"
    using leaves_loop_spec [OF assms(1), of ?b "[]" "[]" "multiplierAccruals e"] claim_base_nonneg [OF assms(2)] by auto
  let ?s = "js_sort compare_miners ls"
  have "mset (map bl_miner ?s) = mset (map bl_miner ls)" by simp
  then have dist: "distinct (map bl_miner ?s)" using ls(2) by (metis mset_eq_imp_distinct_iff)
  have ok: "\<forall>l \<in> set ?s. leaf_ok ?b mbps l" using ls(3) by (simp add: list_all_iff)
  have "computeEpochTotalBonus ?s = sum_list (map (\<lambda>m. bonus_of mbps (?b m)) (map bl_miner ?s))"
    using ok unfolding total_bonus map_map comp_def leaf_ok_def by (intro arg_cong [of _ _ sum_list] map_cong) simp_all
  also have "\<dots> = (\<Sum>m \<in> set (map bl_miner ?s). bonus_of mbps (?b m))" by (rule sum_list_distinct_conv_sum_set [OF dist])
  finally have total: "computeEpochTotalBonus ?s = (\<Sum>m \<in> bl_miner ` set ?s. (mbps - 10000) * ?b m div 10000)" by (simp add: bonus_of_def)
  have lower: "toLowerCase (bl_miner l) = bl_miner l" if "l \<in> set ?s" for l
    using that ls(4) by (metis (no_types, lifting) image_eqI image_iff mem_Collect_eq set_js_sort toLowerCase_idem)
  have merge: "minerHasMerge e (bl_miner l)" if "l \<in> set ?s" for l
  proof -
    have "bl_miner l \<in> toLowerCase ` ev_miner ` set (multiplierAccruals e)" using that ls(4) by (simp add: set_eq_iff image_iff) metis
    then show ?thesis using lower [OF that] by (auto simp: minerHasMerge_def list_ex_iff Let_def)
  qed
  have empty: "?s = []" if "mbps = MERGE_MULTIPLIER_BPS"
    using ls(4) that by (simp add: bonus_of_def MERGE_MULTIPLIER_BPS_def)
  show ?thesis
    unfolding buildEpochBonusLeaves_def ls(1) js_bind_Inr
    using sorted_miners [OF miners.sorted_js_sort dist] ls(4) ok total merge empty
    by (auto simp: leaf_ok_def bonus_of_def assertBonusWithinCap_def)
qed

definition demo_eligibility :: EpochEligibility where
  "demo_eligibility = buildEpochEligibility [\<lparr>ev_epoch = 4, ev_miner = ''0xAa'', ev_patchHash = ''0x01''\<rparr>]
     [\<lparr>ev_epoch = 4, ev_miner = ''0xaa'', ev_patchHash = ''0x01''\<rparr>] (\<lambda>_. 7)"

end
