(* ===== verification/FundingTx.thy ===== *)
theory FundingTx
  imports Rewards Seed
begin

text \<open>
  Funding transaction and claim proofs of the merge bonus: \<open>packages/coretex/src/reducer/funding-tx.ts\<close>.
\<close>

section \<open>Implementation\<close>

definition encodeUint256 :: "bigint \<Rightarrow> bytes" where
  "encodeUint256 v = write_be_loop 32 (replicate 32 0) 0 (take_bit 256 v)"

definition encodeUint64 :: "bigint \<Rightarrow> bytes" where
  "encodeUint64 v = encodeUint256 (take_bit 64 v)"

definition encodeBytes32 :: "bytes \<Rightarrow> bytes js" where
  "encodeBytes32 v = (if length v \<noteq> 32 then Inl (RangeError ''encodeBytes32: expected 32 bytes'') else Inr v)"

fun bytesLessOrEq :: "bytes \<Rightarrow> bytes \<Rightarrow> bool" where
  "bytesLessOrEq [] bs = True"
| "bytesLessOrEq (a # as) bs = (let b = (case bs of [] \<Rightarrow> 0 | b # _ \<Rightarrow> b) in if a \<noteq> b then a < b else bytesLessOrEq as (tl bs))"

definition hashPair :: "bytes \<Rightarrow> bytes \<Rightarrow> bytes" where
  "hashPair a b = (if bytesLessOrEq a b then keccak256 (concatU8 [a, b]) else keccak256 (concatU8 [b, a]))"

definition computeLeafHash :: "MinerBonusLeaf \<Rightarrow> bytes js" where
  "computeLeafHash leaf =
     js_bind (hexToBytes (if take 2 (bl_miner leaf) = ''0x'' then bl_miner leaf else ''0x'' @ bl_miner leaf)) (\<lambda>addrBytes.
     if length addrBytes \<noteq> 20 then Inl (RangeError ''computeLeafHash: address must be 20 bytes'')
     else Inr (keccak256 (concatU8 [addrBytes, encodeUint256 (bonusBotcoin leaf), encodeUint256 (capBotcoin leaf)])))"

text \<open>One level up: pairs are hashed, an unpaired tail is carried.\<close>

fun pair_up :: "bytes list \<Rightarrow> bytes list" where
  "pair_up [] = []"
| "pair_up [x] = [x]"
| "pair_up (x # y # rest) = hashPair x y # pair_up rest"

lemma length_pair_up [simp]: "length (pair_up xs) = (length xs + 1) div 2"
  by (induction xs rule: pair_up.induct) auto

function levels_from :: "bytes list \<Rightarrow> bytes list list" where
  "levels_from cur = cur # (if length cur > 1 then levels_from (pair_up cur) else [])"
  by pat_completeness auto
termination
  by (relation "measure length") auto

declare levels_from.simps [simp del]

definition buildLevels :: "bytes list \<Rightarrow> bytes list list" where
  "buildLevels leafHashes = (if leafHashes = [] then [[keccak256 []]] else levels_from leafHashes)"

definition computeBonusMerkleRoot :: "MinerBonusLeaf list \<Rightarrow> bytes js" where
  "computeBonusMerkleRoot leaves = js_bind (js_map computeLeafHash leaves) (\<lambda>hs. Inr (last (buildLevels hs) ! 0))"

record FundEpochCalldata =
  fc_calldata :: bytes
  fc_calldataHex :: string
  fc_merkleRoot :: bytes
  fc_merkleRootHex :: string
  fc_totalBonus :: bigint

definition buildFundEpochCalldata :: "bigint \<Rightarrow> MinerBonusLeaf list \<Rightarrow> FundEpochCalldata js" where
  "buildFundEpochCalldata epoch leaves =
     js_bind (computeBonusMerkleRoot leaves) (\<lambda>merkleRoot.
     let totalBonus = foldl (\<lambda>total l. total + bonusBotcoin l) 0 leaves;
         selector = take 4 (keccak256 (utf8 ''fundEpoch(uint64,bytes32,uint256)'')) in
     js_bind (encodeBytes32 merkleRoot) (\<lambda>rootWord.
     let calldata = concatU8 [selector, encodeUint64 epoch, rootWord, encodeUint256 totalBonus] in
     Inr \<lparr>fc_calldata = calldata, fc_calldataHex = bytesToHex calldata, fc_merkleRoot = merkleRoot,
       fc_merkleRootHex = bytesToHex merkleRoot, fc_totalBonus = totalBonus\<rparr>))"

record MinerClaimProof =
  cp_miner :: string
  cp_bonusBotcoin :: bigint
  cp_capBotcoin :: bigint
  cp_proof :: "string list"
  cp_leafIndex :: nat

text \<open>The siblings from level to level, the top level excluded.\<close>

fun claim_path :: "bytes list list \<Rightarrow> nat \<Rightarrow> string list" where
  "claim_path [] pos = []"
| "claim_path [lvl] pos = []"
| "claim_path (level # upper # rest) pos =
     (if pos = length level - 1 \<and> pos mod 2 = 0 then claim_path (upper # rest) (pos div 2)
      else bytesToHex (if pos mod 2 = 0 then level ! (pos + 1) else level ! (pos - 1)) # claim_path (upper # rest) (pos div 2))"

fun find_index :: "('a \<Rightarrow> bool) \<Rightarrow> 'a list \<Rightarrow> nat option" where
  "find_index P [] = None"
| "find_index P (x # xs) = (if P x then Some 0 else map_option Suc (find_index P xs))"

definition buildMinerClaimProof :: "MinerBonusLeaf list \<Rightarrow> string \<Rightarrow> MinerClaimProof option js" where
  "buildMinerClaimProof leaves miner =
     (case find_index (\<lambda>l. toLowerCase (bl_miner l) = toLowerCase miner) leaves of
        None \<Rightarrow> Inr None
      | Some idx \<Rightarrow>
          let leaf = leaves ! idx in
          js_bind (js_map computeLeafHash leaves) (\<lambda>leafHashes.
          Inr (Some \<lparr>cp_miner = toLowerCase (bl_miner leaf), cp_bonusBotcoin = bonusBotcoin leaf, cp_capBotcoin = capBotcoin leaf,
            cp_proof = claim_path (buildLevels leafHashes) idx, cp_leafIndex = idx\<rparr>)))"

fun fold_proof :: "bytes \<Rightarrow> string list \<Rightarrow> bytes js" where
  "fold_proof computed [] = Inr computed"
| "fold_proof computed (sib # rest) = js_bind (hexToBytes sib) (\<lambda>sibling. fold_proof (hashPair computed sibling) rest)"

definition verifyMinerClaimProof :: "MinerBonusLeaf \<Rightarrow> string list \<Rightarrow> bytes \<Rightarrow> bool js" where
  "verifyMinerClaimProof leaf path rt =
     js_bind (computeLeafHash leaf) (\<lambda>h. js_bind (fold_proof h path) (\<lambda>computed. Inr (computed = rt)))"

section \<open>Pairs\<close>

lemma bytesLessOrEq_total: "length a = length b \<Longrightarrow> bytesLessOrEq a b \<or> bytesLessOrEq b a"
  by (induction a b rule: list_induct2) auto

lemma bytesLessOrEq_antisym: "length a = length b \<Longrightarrow> bytesLessOrEq a b \<Longrightarrow> bytesLessOrEq b a \<Longrightarrow> a = b"
  by (induction a b rule: list_induct2) (auto split: if_splits)

lemma hashPair_comm: "length a = length b \<Longrightarrow> hashPair a b = hashPair b a"
  using bytesLessOrEq_total [of a b] bytesLessOrEq_antisym [of a b] by (auto simp: hashPair_def)

lemma length_hashPair [simp]: "length (hashPair a b) = 32"
  by (simp add: hashPair_def)

lemma nth_pair_up:
  "pos < length xs \<Longrightarrow> pair_up xs ! (pos div 2) =
    (if pos = length xs - 1 \<and> even pos then xs ! pos else hashPair (xs ! (2 * (pos div 2))) (xs ! (2 * (pos div 2) + 1)))"
proof (induction xs arbitrary: pos rule: pair_up.induct)
  case (3 x y rest)
  show ?case
  proof (cases "pos < 2")
    case True
    then have "pos = 0 \<or> pos = 1" by linarith
    then show ?thesis by auto
  next
    case False
    then obtain k where k: "pos = Suc (Suc k)" by (metis add_2_eq_Suc le_Suc_ex not_less)
    show ?thesis using 3(1) [of k] 3(2) by (cases rest) (auto simp: k)
  qed
qed auto

lemma set_pair_up_32: "\<forall>x \<in> set xs. length x = 32 \<Longrightarrow> \<forall>x \<in> set (pair_up xs). length x = 32"
  by (induction xs rule: pair_up.induct) auto

lemma levels_from_Cons: "\<exists>rest. levels_from cur = cur # rest"
  by (subst levels_from.simps) simp

lemma fold_claim_path:
  assumes "pos < length cur" "\<forall>x \<in> set cur. length x = 32"
  shows "fold_proof (cur ! pos) (claim_path (levels_from cur) pos) = Inr (last (levels_from cur) ! 0)"
  using assms
proof (induction cur arbitrary: pos rule: levels_from.induct)
  case (1 cur)
  show ?case
  proof (cases "1 < length cur")
    case False
    then have "pos = 0" using 1(2) by linarith
    then show ?thesis using False by (subst (1 2) levels_from.simps) simp
  next
    case True
    obtain rest where rest: "levels_from (pair_up cur) = pair_up cur # rest" using levels_from_Cons by blast
    have lv: "levels_from cur = cur # pair_up cur # rest" using True by (subst levels_from.simps) (simp add: rest)
    have pos': "pos div 2 < length (pair_up cur)" using 1(2) by simp
    have IH: "fold_proof (pair_up cur ! (pos div 2)) (claim_path (pair_up cur # rest) (pos div 2)) = Inr (last (pair_up cur # rest) ! 0)"
      using 1(1) [OF True pos' set_pair_up_32 [OF 1(3)]] by (simp add: rest)
    have len: "length (cur ! k) = 32" if "k < length cur" for k using 1(3) that by simp
    show ?thesis
    proof (cases "pos = length cur - 1 \<and> even pos")
      case c: True
      have "claim_path (cur # pair_up cur # rest) pos = claim_path (pair_up cur # rest) (pos div 2)"
        using c unfolding claim_path.simps even_iff_mod_2_eq_zero by (rule if_P)
      moreover have "pair_up cur ! (pos div 2) = cur ! pos" using nth_pair_up [OF 1(2)] by (simp only: if_P [OF c])
      ultimately show ?thesis using IH unfolding lv by simp
    next
      case c: False
      let ?sib = "if pos mod 2 = 0 then cur ! (pos + 1) else cur ! (pos - 1)"
      have "hashPair (cur ! pos) ?sib = pair_up cur ! (pos div 2)"
      proof (cases "even pos")
        case True
        then show ?thesis using nth_pair_up [OF 1(2)] c by (auto simp: even_iff_mod_2_eq_zero [symmetric])
      next
        case False
        then have "2 * (pos div 2) = pos - 1" "2 * (pos div 2) + 1 = pos" "pos mod 2 \<noteq> 0" by presburger+
        then show ?thesis
          using nth_pair_up [OF 1(2)] False hashPair_comm [of "cur ! pos" "cur ! (pos - 1)"] len [of pos] len [of "pos - 1"] 1(2) by simp
      qed
      moreover have "claim_path (cur # pair_up cur # rest) pos = bytesToHex ?sib # claim_path (pair_up cur # rest) (pos div 2)"
        using c unfolding claim_path.simps even_iff_mod_2_eq_zero by (rule if_not_P)
      ultimately show ?thesis using IH unfolding lv by (simp add: hexToBytes_bytesToHex)
    qed
  qed
qed

section \<open>The nodes of the tree\<close>

text \<open>The nodes of a tree, and the strings hashed for them.\<close>

definition pair_preimage :: "bytes \<Rightarrow> bytes \<Rightarrow> bytes" where
  "pair_preimage a b = (if bytesLessOrEq a b then a @ b else b @ a)"

definition tree_nodes :: "bytes list \<Rightarrow> bytes set" where
  "tree_nodes cur = \<Union> (set ` set (levels_from cur))"

fun pair_strings :: "bytes list \<Rightarrow> bytes list" where
  "pair_strings (x # y # rest) = pair_preimage x y # pair_strings rest"
| "pair_strings xs = []"

fun path_strings :: "bytes \<Rightarrow> bytes list \<Rightarrow> bytes list" where
  "path_strings h [] = []"
| "path_strings h (s # ss) = pair_preimage h s # path_strings (hashPair h s) ss"

lemma tree_nodes_step: "tree_nodes cur = set cur \<union> (if 1 < length cur then tree_nodes (pair_up cur) else {})"
  unfolding tree_nodes_def by (subst levels_from.simps) simp

lemma set_pair_up:
  "x \<in> set (pair_up xs) \<Longrightarrow> x \<in> set xs \<or> (\<exists>a b. a \<in> set xs \<and> b \<in> set xs \<and> x = hashPair a b \<and>
     pair_preimage a b \<in> set (pair_strings xs))"
proof (induction xs rule: pair_up.induct)
  case (3 u v rest)
  then consider "x = hashPair u v" | "x \<in> set (pair_up rest)" by auto
  then show ?case
  proof cases
    case 2
    with 3(1) show ?thesis by (metis insert_iff list.simps(15) pair_strings.simps(1))
  qed auto
qed auto

lemma node_cases:
  assumes "x \<in> tree_nodes cur"
  shows "x \<in> set cur \<or> (\<exists>a b. {a, b} \<subseteq> tree_nodes cur \<and> x = hashPair a b \<and>
     pair_preimage a b \<in> set (concat (map pair_strings (levels_from cur))))"
  using assms
proof (induction cur rule: levels_from.induct)
  case (1 cur)
  show ?case
  proof (cases "1 < length cur")
    case False
    then show ?thesis using 1(2) by (simp add: tree_nodes_step [of cur])
  next
    case True
    have lv: "levels_from cur = cur # levels_from (pair_up cur)" using True by (simp add: levels_from.simps [of cur])
    have nodes: "tree_nodes cur = set cur \<union> tree_nodes (pair_up cur)" using True by (simp add: tree_nodes_step [of cur])
    have "x \<in> set cur \<or> x \<in> tree_nodes (pair_up cur)" using 1(2) by (simp add: nodes)
    then show ?thesis
    proof
      assume "x \<in> tree_nodes (pair_up cur)"
      from 1(1) [OF True this] show ?thesis
      proof
        assume "x \<in> set (pair_up cur)"
        then consider "x \<in> set cur" | a b where "a \<in> set cur" "b \<in> set cur" "x = hashPair a b" "pair_preimage a b \<in> set (pair_strings cur)"
          using set_pair_up by blast
        then show ?thesis
        proof cases
          case 2
          then show ?thesis by (intro disjI2 exI [of _ a] exI [of _ b]) (simp add: lv nodes)
        qed simp
      qed (force simp: lv nodes)
    qed simp
  qed
qed

lemma node_length:
  "\<forall>x \<in> set cur. length x = 32 \<Longrightarrow> x \<in> tree_nodes cur \<Longrightarrow> length x = 32"
  using node_cases [of x cur] by auto

lemma pair_preimage_inj:
  "pair_preimage a b = pair_preimage c d \<Longrightarrow> length a = 32 \<Longrightarrow> length b = 32 \<Longrightarrow> length c = 32 \<Longrightarrow> length d = 32 \<Longrightarrow>
    a = c \<or> a = d"
  unfolding pair_preimage_def by (cases "bytesLessOrEq a b"; cases "bytesLessOrEq c d") simp_all

lemma hashPair_eq: "hashPair a b = keccak256 (pair_preimage a b)"
  by (simp add: hashPair_def concatU8_def pair_preimage_def)

lemma last_level: "cur \<noteq> [] \<Longrightarrow> \<exists>x. last (levels_from cur) = [x] \<and> x \<in> tree_nodes cur"
proof (induction cur rule: levels_from.induct)
  case (1 cur)
  show ?case
  proof (cases "1 < length cur")
    case False
    then have "length cur = 1" using 1(2) by (cases cur) auto
    then obtain x where "cur = [x]" by (auto simp: length_Suc_conv)
    then show ?thesis by (simp add: levels_from.simps [of "[x]"] tree_nodes_step [of "[x]"])
  next
    case True
    have lv: "levels_from cur = cur # levels_from (pair_up cur)" using True by (simp add: levels_from.simps [of cur])
    have "pair_up cur \<noteq> []" using True by (cases cur rule: pair_up.cases) auto
    moreover have "levels_from (pair_up cur) \<noteq> []" using levels_from_Cons by (metis list.distinct(1))
    ultimately show ?thesis using 1(1) [OF True] True by (auto simp: lv tree_nodes_step [of cur])
  qed
qed

section \<open>Completeness of claims\<close>

lemma encodeUint256_eq: "encodeUint256 v = be_bytes 32 v"
  by (simp add: encodeUint256_def write_be_loop_eq be_bytes_take_bit del: be_bytes.simps)

lemma length_encodeUint256 [simp, len_simps]: "length (encodeUint256 v) = 32"
  by (simp add: encodeUint256_eq del: be_bytes.simps)

text \<open>The bytes a leaf hash is taken of.\<close>

definition leaf_address :: "MinerBonusLeaf \<Rightarrow> bytes js" where
  "leaf_address leaf = hexToBytes (if take 2 (bl_miner leaf) = ''0x'' then bl_miner leaf else ''0x'' @ bl_miner leaf)"

definition leaf_preimage :: "MinerBonusLeaf \<Rightarrow> bytes" where
  "leaf_preimage leaf = (case leaf_address leaf of Inl _ \<Rightarrow> [] | Inr a \<Rightarrow> a) @ be_bytes 32 (bonusBotcoin leaf) @ be_bytes 32 (capBotcoin leaf)"

lemma computeLeafHash_Inr:
  "computeLeafHash leaf = Inr h \<longleftrightarrow> (\<exists>a. leaf_address leaf = Inr a \<and> length a = 20) \<and> h = keccak256 (leaf_preimage leaf)"
  by (auto simp: computeLeafHash_def leaf_address_def leaf_preimage_def js_bind_eq_Inr_iff concatU8_def encodeUint256_eq
      simp del: be_bytes.simps split: if_splits)

lemma length_leaf_preimage: "computeLeafHash leaf = Inr h \<Longrightarrow> length (leaf_preimage leaf) = 84"
  by (auto simp: computeLeafHash_Inr leaf_preimage_def simp del: be_bytes.simps)

lemma js_map_Inr_nth:
  "js_map f xs = Inr ys \<longleftrightarrow> length ys = length xs \<and> (\<forall>i < length xs. f (xs ! i) = Inr (ys ! i))"
proof (induction xs arbitrary: ys)
  case (Cons x xs)
  show ?case by (cases ys) (auto simp: js_bind_eq_Inr_iff Cons.IH nth_Cons split: nat.splits)
qed auto

lemma leaf_hashes:
  assumes "js_map computeLeafHash leaves = Inr hs"
  shows "hs = map (\<lambda>l. keccak256 (leaf_preimage l)) leaves" "\<forall>x \<in> set hs. length x = 32"
proof -
  show hs: "hs = map (\<lambda>l. keccak256 (leaf_preimage l)) leaves"
    using assms by (auto simp: js_map_Inr_nth computeLeafHash_Inr intro!: nth_equalityI)
  show "\<forall>x \<in> set hs. length x = 32" by (auto simp: hs)
qed

lemma find_index_Some:
  "find_index P xs = Some i \<Longrightarrow> i < length xs \<and> P (xs ! i) \<and> (\<forall>j < i. \<not> P (xs ! j))"
  by (induction xs arbitrary: i) (fastforce simp: nth_Cons split: if_splits nat.splits)+

lemma find_index_None: "find_index P xs = None \<longleftrightarrow> \<not> list_ex P xs"
  by (induction xs) auto

text \<open>C27. Every funded miner can claim: when the funding calldata of an epoch is built, the claim proof of any
  listed miner (in any letter case) is built too, for the first leaf of that miner and with its amounts, and it
  verifies against the funded root; a miner who is not listed gets no proof.\<close>

theorem claim_proofs_verify:
  assumes "buildFundEpochCalldata epoch leaves = Inr call"
  shows "if list_ex (\<lambda>l. toLowerCase (bl_miner l) = toLowerCase miner) leaves
    then \<exists>path l. buildMinerClaimProof leaves miner = Inr (Some path) \<and> nth_opt leaves (cp_leafIndex path) = Some l \<and>
      cp_miner path = toLowerCase miner \<and> toLowerCase (bl_miner l) = toLowerCase miner \<and>
      cp_bonusBotcoin path = bonusBotcoin l \<and> cp_capBotcoin path = capBotcoin l \<and>
      verifyMinerClaimProof l (cp_proof path) (fc_merkleRoot call) = Inr True
    else buildMinerClaimProof leaves miner = Inr None"
proof -
  obtain hs where hs: "js_map computeLeafHash leaves = Inr hs" and rt: "fc_merkleRoot call = last (buildLevels hs) ! 0"
    using assms by (auto simp: buildFundEpochCalldata_def computeBonusMerkleRoot_def js_bind_eq_Inr_iff Let_def)
  show ?thesis
  proof (cases "find_index (\<lambda>l. toLowerCase (bl_miner l) = toLowerCase miner) leaves")
    case None
    then have "\<not> list_ex (\<lambda>l. toLowerCase (bl_miner l) = toLowerCase miner) leaves" by (simp only: find_index_None not_False_eq_True)
    then show ?thesis by (simp add: buildMinerClaimProof_def None)
  next
    case (Some i)
    have i: "i < length leaves" "toLowerCase (bl_miner (leaves ! i)) = toLowerCase miner"
      using find_index_Some [OF Some] by auto
    then have ex: "list_ex (\<lambda>l. toLowerCase (bl_miner l) = toLowerCase miner) leaves" by (auto simp: list_ex_length)
    have len: "length hs = length leaves" "computeLeafHash (leaves ! i) = Inr (hs ! i)" using hs i by (auto simp: js_map_Inr_nth)
    have "hs \<noteq> []" using len(1) i(1) by auto
    then have "verifyMinerClaimProof (leaves ! i) (claim_path (buildLevels hs) i) (fc_merkleRoot call) = Inr True"
      using fold_claim_path [of i hs] leaf_hashes(2) [OF hs] len i(1) by (simp add: verifyMinerClaimProof_def rt buildLevels_def)
    then show ?thesis using ex by (simp add: buildMinerClaimProof_def Some hs i Let_def)
  qed
qed

definition demo_leaves :: "MinerBonusLeaf list" where
  "demo_leaves = map (\<lambda>b. \<lparr>bl_miner = bytesToHex (replicate 20 b), bonusBotcoin = 5, capBotcoin = 7\<rparr>) [1, 2, 3]"

lemma demo_leaf_hash: "l \<in> set demo_leaves \<Longrightarrow> \<exists>h. computeLeafHash l = Inr h"
  by (auto simp: demo_leaves_def computeLeafHash_def bytesToHex_eq [symmetric] hexToBytes_bytesToHex) (auto simp: bytesToHex_eq)

lemma buildFundEpochCalldata_returns:
  assumes "\<forall>l \<in> set leaves. \<exists>h. computeLeafHash l = Inr h"
  shows "\<exists>call hs. buildFundEpochCalldata epoch leaves = Inr call \<and> js_map computeLeafHash leaves = Inr hs \<and> fc_merkleRoot call = last (buildLevels hs) ! 0"
proof -
  obtain hs where hs: "js_map computeLeafHash leaves = Inr hs" using assms js_map_total [of leaves computeLeafHash] by auto
  have "length (last (buildLevels hs) ! 0) = 32"
  proof (cases "hs = []")
    case False
    from last_level [OF this] node_length [OF leaf_hashes(2) [OF hs]] show ?thesis
      using False by (auto simp only: buildLevels_def if_False nth_Cons_0)
  qed (simp add: buildLevels_def)
  then show ?thesis using hs by (auto simp: buildFundEpochCalldata_def computeBonusMerkleRoot_def encodeBytes32_def Let_def)
qed

theorem claim_proofs_verify_witness:
  "\<exists>call path l. buildFundEpochCalldata 9 demo_leaves = Inr call \<and> buildMinerClaimProof demo_leaves (bytesToHex (replicate 20 3)) = Inr (Some path) \<and>
     nth_opt demo_leaves (cp_leafIndex path) = Some l \<and> verifyMinerClaimProof l (cp_proof path) (fc_merkleRoot call) = Inr True"
proof -
  obtain call where call: "buildFundEpochCalldata 9 demo_leaves = Inr call"
    using buildFundEpochCalldata_returns demo_leaf_hash by blast
  have "list_ex (\<lambda>l. toLowerCase (bl_miner l) = toLowerCase (bytesToHex (replicate 20 3))) demo_leaves" by (simp add: demo_leaves_def)
  with claim_proofs_verify [OF call, of "bytesToHex (replicate 20 3)"] call show ?thesis by auto
qed

section \<open>Soundness of claims\<close>

definition funding_strings :: "MinerBonusLeaf list \<Rightarrow> bytes list" where
  "funding_strings leaves = [] # map leaf_preimage leaves @
     concat (map pair_strings (buildLevels (map (\<lambda>l. keccak256 (leaf_preimage l)) leaves)))"

text \<open>A proof that reaches a node of the tree starts at a leaf of the tree, or hits a collision: by
  induction down the path.\<close>

lemma path_starts_in_tree:
  assumes "\<forall>x \<in> set cur. length x = 32 \<and> x = keccak256 (pre x) \<and> pre x \<in> set strs \<and> length (pre x) = 84"
    "set (concat (map pair_strings (levels_from cur))) \<subseteq> set strs"
    "\<forall>s \<in> set ss. length s = 32" "length h = 32"
    "foldl hashPair h ss \<in> tree_nodes cur"
    "\<not> collision_between (path_strings h ss) strs"
  shows "h \<in> tree_nodes cur"
  using assms(3-6)
proof (induction ss arbitrary: h)
  case (Cons s ss)
  let ?in = "pair_preimage h s"
  have nc: "\<not> collision_between (path_strings (hashPair h s) ss) strs" "\<forall>y \<in> set strs. keccak256 ?in = keccak256 y \<longrightarrow> ?in = y"
    using Cons.prems(4) unfolding collision_between_def by (auto simp: list_ex_iff)
  have "hashPair h s \<in> tree_nodes cur" (is "?n \<in> ?N")
    using Cons.IH [of ?n] Cons.prems nc(1) by simp
  from node_cases [OF this] show ?case
  proof
    assume "?n \<in> set cur"
    then have "?in = pre ?n" "length (pre ?n) = 84" using nc(2) assms(1) by (auto simp: hashPair_eq)
    moreover have "length ?in = 64" using Cons.prems(1,2) by (simp add: pair_preimage_def)
    ultimately show ?thesis by simp
  next
    assume "\<exists>a b. {a, b} \<subseteq> ?N \<and> ?n = hashPair a b \<and> pair_preimage a b \<in> set (concat (map pair_strings (levels_from cur)))"
    then obtain a b where ab: "a \<in> ?N" "b \<in> ?N" "?n = hashPair a b"
      "pair_preimage a b \<in> set strs" (is "?ab \<in> _") using assms(2) by blast
    have "?in = ?ab" using nc(2) ab(3,4) unfolding hashPair_eq by blast
    moreover have "length a = 32" "length b = 32" using node_length [of cur] assms(1) ab(1,2) by blast+
    ultimately have "h = a \<or> h = b" using pair_preimage_inj Cons.prems(1,2) by simp
    then show ?thesis using ab by auto
  qed
qed simp

lemma fold_proof_foldl:
  "\<forall>s \<in> set path. \<exists>b. hexToBytes s = Inr b \<and> length b = 32 \<Longrightarrow>
     \<exists>ss. js_map hexToBytes path = Inr ss \<and> (\<forall>s \<in> set ss. length s = 32) \<and> fold_proof h path = Inr (foldl hashPair h ss)"
proof (induction path arbitrary: h)
  case (Cons s rest)
  then obtain b where b: "hexToBytes s = Inr b" "length b = 32" by auto
  with Cons.IH [of "hashPair h b"] Cons.prems show ?case by auto
qed simp

definition claim_strings :: "MinerBonusLeaf \<Rightarrow> string list \<Rightarrow> bytes list" where
  "claim_strings leaf path = leaf_preimage leaf #
     (case js_map hexToBytes path of Inl _ \<Rightarrow> [] | Inr ss \<Rightarrow> path_strings (keccak256 (leaf_preimage leaf)) ss)"

lemma leaf_preimage_inj:
  assumes "leaf_preimage l = leaf_preimage m" "computeLeafHash l = Inr h" "computeLeafHash m = Inr h'"
  shows "leaf_address l = leaf_address m \<and> bonusBotcoin l mod 2 ^ 256 = bonusBotcoin m mod 2 ^ 256 \<and> capBotcoin l mod 2 ^ 256 = capBotcoin m mod 2 ^ 256"
proof -
  obtain a b where ab: "leaf_address l = Inr a" "length a = 20" "leaf_address m = Inr b" "length b = 20"
    using assms(2,3) by (auto simp: computeLeafHash_Inr)
  have "a = b" "be_bytes 32 (bonusBotcoin l) = be_bytes 32 (bonusBotcoin m)" "be_bytes 32 (capBotcoin l) = be_bytes 32 (capBotcoin m)"
    using assms(1) ab by (simp_all add: leaf_preimage_def del: be_bytes.simps)
  then show ?thesis using ab be_val_be_bytes [of 32] by (auto dest!: arg_cong [where f = be_val] simp: be_val_be_bytes simp del: be_bytes.simps)
qed

text \<open>Without a collision, a leaf whose hash is a node of the funded tree has the bytes of a funded leaf.\<close>

lemma leaf_node_is_leaf:
  assumes "hs = map (\<lambda>l. keccak256 (leaf_preimage l)) leaves" "\<forall>l \<in> set leaves. length (leaf_preimage l) = 84"
    "keccak256 pre \<in> tree_nodes hs" "length pre = 84"
    "\<forall>y \<in> set (map leaf_preimage leaves @ concat (map pair_strings (levels_from hs))). keccak256 pre = keccak256 y \<longrightarrow> pre = y"
  shows "pre \<in> leaf_preimage ` set leaves"
  using node_cases [OF assms(3)]
proof
  assume "keccak256 pre \<in> set hs"
  then show ?thesis using assms(5) unfolding assms(1) set_append set_map by blast
next
  assume "\<exists>a b. {a, b} \<subseteq> tree_nodes hs \<and> keccak256 pre = hashPair a b \<and> pair_preimage a b \<in> set (concat (map pair_strings (levels_from hs)))"
  then obtain a b where ab: "a \<in> tree_nodes hs" "b \<in> tree_nodes hs" "keccak256 pre = hashPair a b"
    "pair_preimage a b \<in> set (concat (map pair_strings (levels_from hs)))" by blast
  have "\<forall>x \<in> set hs. length x = 32" using assms(1) by auto
  then have "length a = 32" "length b = 32" using node_length ab(1,2) by blast+
  then have "length (pair_preimage a b) = 64" by (simp add: pair_preimage_def)
  moreover have "pre = pair_preimage a b" using assms(5) ab(3,4) unfolding hashPair_eq set_append by blast
  ultimately show ?thesis using assms(4) by simp
qed

lemma path_end_length:
  "ss \<noteq> [] \<Longrightarrow> \<forall>s \<in> set ss. length s = 32 \<Longrightarrow> length h = 32 \<Longrightarrow>
    \<exists>x \<in> set (path_strings h ss). foldl hashPair h ss = keccak256 x \<and> length x = 64"
proof (induction ss arbitrary: h)
  case (Cons s ss)
  show ?case
  proof (cases "ss = []")
    case True
    then show ?thesis using Cons.prems by (simp add: hashPair_eq) (simp add: pair_preimage_def)
  next
    case False
    then show ?thesis using Cons.IH [of "hashPair h s"] Cons.prems by auto
  qed
qed simp

lemma proof_reaches_leaf:
  assumes hs: "hs = map (\<lambda>l. keccak256 (leaf_preimage l)) leaves" and len84: "\<forall>l \<in> set leaves. length (leaf_preimage l) = 84"
    and ss: "\<forall>s \<in> set ss. length s = 32" and pre: "length pre = 84"
    and reached: "foldl hashPair (keccak256 pre) ss = last (buildLevels hs) ! 0"
    and nc: "\<forall>x \<in> set (pre # path_strings (keccak256 pre) ss). \<forall>y \<in> set (funding_strings leaves). keccak256 x = keccak256 y \<longrightarrow> x = y"
  shows "pre \<in> leaf_preimage ` set leaves"
proof (cases "leaves = []")
  case True
  then have empty: "foldl hashPair (keccak256 pre) ss = keccak256 []" "[] \<in> set (funding_strings leaves)"
    using reached by (simp_all add: hs buildLevels_def funding_strings_def)
  have "\<exists>x \<in> set (pre # path_strings (keccak256 pre) ss). keccak256 x = keccak256 [] \<and> length x \<noteq> 0"
  proof (cases "ss = []")
    case False
    from path_end_length [OF this ss, of "keccak256 pre"] empty(1) show ?thesis by auto
  qed (use empty(1) pre in auto)
  then show ?thesis using nc empty(2) by fastforce
next
  case False
  then have "hs \<noteq> []" by (simp add: hs)
  from last_level [OF this] have node: "foldl hashPair (keccak256 pre) ss \<in> tree_nodes hs"
    using reached \<open>hs \<noteq> []\<close> by (auto simp: buildLevels_def)
  have strs: "set (funding_strings leaves) = insert [] (leaf_preimage ` set leaves \<union> set (concat (map pair_strings (levels_from hs))))"
    using \<open>hs \<noteq> []\<close> by (simp add: funding_strings_def hs [symmetric] buildLevels_def)
  have "\<forall>x \<in> set hs. \<exists>y. length x = 32 \<and> x = keccak256 y \<and> y \<in> set (funding_strings leaves) \<and> length y = 84"
    using len84 unfolding hs strs by auto
  then obtain f where f: "\<forall>x \<in> set hs. length x = 32 \<and> x = keccak256 (f x) \<and> f x \<in> set (funding_strings leaves) \<and> length (f x) = 84"
    by metis
  have "\<not> collision_between (path_strings (keccak256 pre) ss) (funding_strings leaves)"
    using nc unfolding collision_between_def list_ex_iff by (meson list.set_intros(2))
  then have "keccak256 pre \<in> tree_nodes hs"
    by (intro path_starts_in_tree [OF f _ ss _ node]) (unfold strs, auto)
  then show ?thesis by (rule leaf_node_is_leaf [OF hs len84 _ pre]) (use nc strs in auto)
qed

text \<open>C26. Only funded amounts can be claimed: when a claim proof made of 32-byte hashes verifies against the funded
  root, the claimed address and both amounts (as 256-bit words) are those of a funded leaf, unless two of the
  strings hashed by the proof and by the tree are a Keccak-256 collision.\<close>

theorem claims_are_funded:
  assumes "buildFundEpochCalldata epoch leaves = Inr call"
    "\<forall>s \<in> set path. \<exists>b. hexToBytes s = Inr b \<and> length b = 32"
    "verifyMinerClaimProof leaf path (fc_merkleRoot call) = Inr True"
  shows "(\<exists>l \<in> set leaves. leaf_address l = leaf_address leaf \<and> bonusBotcoin l mod 2 ^ 256 = bonusBotcoin leaf mod 2 ^ 256 \<and>
      capBotcoin l mod 2 ^ 256 = capBotcoin leaf mod 2 ^ 256)
    \<or> collision_between (claim_strings leaf path) (funding_strings leaves)"
proof (rule disjCI)
  assume none: "\<not> collision_between (claim_strings leaf path) (funding_strings leaves)"
  let ?pre = "leaf_preimage leaf" and ?h = "keccak256 (leaf_preimage leaf)"
  obtain hs where hs: "js_map computeLeafHash leaves = Inr hs" and rt: "fc_merkleRoot call = last (buildLevels hs) ! 0"
    using assms(1) by (auto simp: buildFundEpochCalldata_def computeBonusMerkleRoot_def js_bind_eq_Inr_iff Let_def)
  obtain ss where ss: "js_map hexToBytes path = Inr ss" "\<forall>s \<in> set ss. length s = 32" "fold_proof ?h path = Inr (foldl hashPair ?h ss)"
    using fold_proof_foldl [OF assms(2)] by blast
  have leafhash: "computeLeafHash leaf = Inr ?h" and reached: "foldl hashPair ?h ss = last (buildLevels hs) ! 0"
    using assms(3) ss(3) by (auto simp: verifyMinerClaimProof_def js_bind_eq_Inr_iff computeLeafHash_Inr rt)
  note hs_eq = leaf_hashes(1) [OF hs]
  have len84: "\<forall>l \<in> set leaves. length (leaf_preimage l) = 84" using hs length_leaf_preimage by (auto simp: js_map_Inr_nth in_set_conv_nth)
  have nc: "\<forall>x \<in> set (?pre # path_strings ?h ss). \<forall>y \<in> set (funding_strings leaves). keccak256 x = keccak256 y \<longrightarrow> x = y"
    using none by (auto simp: collision_between_def list_ex_iff claim_strings_def ss(1))
  have len: "length ?pre = 84" by (rule length_leaf_preimage [OF leafhash])
  have "?pre \<in> leaf_preimage ` set leaves"
    by (rule proof_reaches_leaf [OF hs_eq len84 ss(2) len reached nc])
  then obtain l where l: "l \<in> set leaves" "leaf_preimage l = ?pre" by force
  obtain h where "computeLeafHash l = Inr h" using hs l(1) by (auto simp: js_map_Inr_nth in_set_conv_nth)
  from leaf_preimage_inj [OF l(2) this leafhash]
show "\<exists>l \<in> set leaves. leaf_address l = leaf_address leaf \<and> bonusBotcoin l mod 2 ^ 256 = bonusBotcoin leaf mod 2 ^ 256 \<and>
      capBotcoin l mod 2 ^ 256 = capBotcoin leaf mod 2 ^ 256" using l(1) by blast
qed

theorem claims_are_funded_witness:
  "\<exists>call path l. buildFundEpochCalldata 9 demo_leaves = Inr call \<and> l \<in> set demo_leaves \<and> verifyMinerClaimProof l path (fc_merkleRoot call) = Inr True \<and>
     ((\<exists>m \<in> set demo_leaves. leaf_address m = leaf_address l \<and> bonusBotcoin m mod 2 ^ 256 = bonusBotcoin l mod 2 ^ 256 \<and>
        capBotcoin m mod 2 ^ 256 = capBotcoin l mod 2 ^ 256)
      \<or> collision_between (claim_strings l path) (funding_strings demo_leaves))"
proof -
  let ?l = "demo_leaves ! 2"
  obtain call hs where call: "buildFundEpochCalldata 9 demo_leaves = Inr call" and hs: "js_map computeLeafHash demo_leaves = Inr hs"
      and rt: "fc_merkleRoot call = last (buildLevels hs) ! 0"
    using buildFundEpochCalldata_returns demo_leaf_hash by blast
  have l: "?l \<in> set demo_leaves" "length hs = 3" "computeLeafHash ?l = Inr (hs ! 2)"
    using iffD1 [OF js_map_Inr_nth hs, THEN conjunct2, THEN spec, of 2] iffD1 [OF js_map_Inr_nth hs, THEN conjunct1] by (auto simp: demo_leaves_def)
  let ?path = "[bytesToHex (hashPair (hs ! 0) (hs ! 1))]"
  have "last (buildLevels hs) ! 0 = hashPair (hashPair (hs ! 0) (hs ! 1)) (hs ! 2)"
  proof -
    obtain a b c where "hs = [a, b, c]" using l(2) by (auto simp: length_Suc_conv numeral_3_eq_3)
    then show ?thesis by (simp add: buildLevels_def levels_from.simps)
  qed
  moreover have "length (hs ! 2) = 32" using leaf_hashes(2) [OF hs] l(2) by simp
  ultimately have ver: "verifyMinerClaimProof ?l ?path (fc_merkleRoot call) = Inr True"
    using hashPair_comm [of "hs ! 2" "hashPair (hs ! 0) (hs ! 1)"] by (simp add: verifyMinerClaimProof_def l(3) hexToBytes_bytesToHex rt)
  have "\<forall>s \<in> set ?path. \<exists>b. hexToBytes s = Inr b \<and> length b = 32" by (simp add: hexToBytes_bytesToHex)
  from claims_are_funded [OF call this ver] call l(1) ver show ?thesis by blast
qed

end
