(* ===== verification/Keccak_Spec.thy ===== *)
theory Keccak_Spec
  imports Keccak
begin

text \<open>
  A reference definition of Keccak-256 after FIPS 202 (lanes of 64 bits addressed by
  coordinates, generated tables, byte-string sponge with the padding of the original
  Keccak submission), and the proof that the two-halves, table-driven implementation
  of \<open>Keccak\<close> computes it.
\<close>

section \<open>Two 32-bit halves are one 64-bit lane\<close>

definition cat64 :: "u32 \<Rightarrow> u32 \<Rightarrow> u64" where
  "cat64 hi lo = word_cat hi lo"

lemma bit_cat64: "bit (cat64 hi lo) n \<longleftrightarrow> (if n < 32 then bit lo n else bit hi (n - 32))"
  by (auto simp: cat64_def bit_word_cat_iff dest: bit_imp_le_length)

lemma cat64_xor: "cat64 (a XOR b) (c XOR d) = cat64 a c XOR cat64 b d"
  by (rule bit_word_eqI) (simp add: bit_cat64 bit_xor_iff)

lemma cat64_and: "cat64 (a AND b) (c AND d) = cat64 a c AND cat64 b d"
  by (rule bit_word_eqI) (simp add: bit_cat64 bit_and_iff)

lemma cat64_not: "cat64 (NOT a) (NOT b) = NOT (cat64 a b)"
  by (rule bit_word_eqI) (auto simp: bit_cat64 bit_not_iff)

lemma cat64_0 [simp]: "cat64 0 0 = 0"
  by (rule bit_word_eqI) (simp add: bit_cat64)

lemma rotl_index:
  fixes k r :: nat
  assumes "k < 64" "r < 64"
  shows "(k + (64 - r)) mod 64 = (if r \<le> k then k - r else k + 64 - r)"
  using assms by (cases "r \<le> k") (auto simp: mod_if)

lemma bit_rotl64:
  fixes w :: u64
  assumes "k < 64"
  shows "bit (word_rotl n w) k = bit w (if n mod 64 \<le> k then k - n mod 64 else k + 64 - n mod 64)"
  using assms rotl_index [OF assms, of "n mod 64"] by (simp add: bit_word_rotl_iff)

lemma rot64_small:
  "0 < n \<Longrightarrow> n < 32 \<Longrightarrow> rot64 hi lo n =
     (push_bit n hi OR drop_bit (32 - n) lo, push_bit n lo OR drop_bit (32 - n) hi)"
  by (simp add: rot64_def)

lemma rot64_large:
  "32 < n \<Longrightarrow> n < 64 \<Longrightarrow> rot64 hi lo n =
     (push_bit (n - 32) lo OR drop_bit (32 - (n - 32)) hi,
      push_bit (n - 32) hi OR drop_bit (32 - (n - 32)) lo)"
  by (simp add: rot64_def Let_def)

lemma rot64_mod: "rot64 hi lo (n mod 64) = rot64 hi lo n"
  by (simp add: rot64_def)

lemma cat64_push_drop:
  assumes "0 < n" "n < 32"
  shows "cat64 (push_bit n hi OR drop_bit (32 - n) lo) (push_bit n lo OR drop_bit (32 - n) hi)
       = word_rotl n (cat64 hi lo)"
proof (rule bit_word_eqI)
  fix k assume "k < LENGTH(64)"
  then have k: "k < 64" by simp
  consider "n \<le> k" "k < 32" | "32 \<le> k" "k < 32 + n" | "k < n" | "32 + n \<le> k"
    by linarith
  then show "bit (cat64 (push_bit n hi OR drop_bit (32 - n) lo) (push_bit n lo OR drop_bit (32 - n) hi)) k
       = bit (word_rotl n (cat64 hi lo)) k"
    by cases (use assms k in \<open>auto simp: bit_cat64 bit_rotl64 bit_or_iff bit_push_bit_iff bit_drop_bit_eq
        Suc_diff_le algebra_simps dest: bit_imp_le_length\<close>)
qed

lemma cat64_swap: "cat64 lo hi = word_rotl 32 (cat64 hi lo)"
  by (rule bit_word_eqI) (auto simp: bit_cat64 bit_rotl64)

lemma rotl_rotl_32:
  fixes w :: u64
  assumes "32 \<le> n" "n < 64"
  shows "word_rotl (n - 32) (word_rotl 32 w) = word_rotl n w"
  by (rule bit_word_eqI) (use assms in \<open>auto simp: bit_rotl64 intro!: arg_cong [where f = "bit w"]\<close>)

lemma cat64_rot64_lt:
  assumes "n < 64"
  shows "(case rot64 hi lo n of (h, l) \<Rightarrow> cat64 h l) = word_rotl n (cat64 hi lo)"
proof -
  consider "n = 0" | "0 < n" "n < 32" | "n = 32" | "32 < n" by linarith
  then show ?thesis
  proof cases
    case 1
    have "word_rotl 0 (cat64 hi lo) = cat64 hi lo"
      by (rule bit_word_eqI) (simp add: bit_rotl64)
    with 1 show ?thesis by (simp add: rot64_def)
  next
    case 2
    then show ?thesis by (simp add: rot64_small cat64_push_drop)
  next
    case 3
    have "rot64 hi lo 32 = (lo, hi)" by (simp add: rot64_def)
    with 3 show ?thesis using cat64_swap [of lo hi] by simp
  next
    case 4
    have "cat64 (push_bit (n - 32) lo OR drop_bit (32 - (n - 32)) hi)
                (push_bit (n - 32) hi OR drop_bit (32 - (n - 32)) lo) = word_rotl (n - 32) (cat64 lo hi)"
      by (rule cat64_push_drop) (use 4 assms in auto)
    also have "\<dots> = word_rotl n (cat64 hi lo)"
      unfolding cat64_swap [of lo hi] by (rule rotl_rotl_32) (use 4 assms in auto)
    finally show ?thesis using 4 assms by (simp add: rot64_large)
  qed
qed

lemma word_rotl_mod64: "word_rotl (n mod 64) (w :: u64) = word_rotl n w"
  by (rule bit_word_eqI) (simp add: bit_rotl64)

text \<open>The rotation of a pair of halves is the rotation of the 64-bit lane, for any count.\<close>

lemma cat64_rot64: "cat64 (fst (rot64 hi lo n)) (snd (rot64 hi lo n)) = word_rotl n (cat64 hi lo)"
  using cat64_rot64_lt [of "n mod 64" hi lo]
  by (simp add: rot64_mod word_rotl_mod64 split_def)

section \<open>The reference permutation\<close>

type_synonym lanes = "nat \<Rightarrow> nat \<Rightarrow> u64"

definition theta_spec :: "lanes \<Rightarrow> lanes" where
  "theta_spec A = (let C = (\<lambda>x. A x 0 XOR A x 1 XOR A x 2 XOR A x 3 XOR A x 4)
     in (\<lambda>x y. A x y XOR (C ((x + 4) mod 5) XOR word_rotl 1 (C ((x + 1) mod 5)))))"

fun rho_pos :: "nat \<Rightarrow> nat \<times> nat" where
  "rho_pos 0 = (1, 0)"
| "rho_pos (Suc t) = (case rho_pos t of (x, y) \<Rightarrow> (y, (2 * x + 3 * y) mod 5))"

definition rho_offset :: "nat \<Rightarrow> nat \<Rightarrow> nat" where
  "rho_offset x y = (case find (\<lambda>t. rho_pos t = (x, y)) [0..<24] of
     None \<Rightarrow> 0 | Some t \<Rightarrow> ((t + 1) * (t + 2) div 2) mod 64)"

definition rho_spec :: "lanes \<Rightarrow> lanes" where
  "rho_spec A = (\<lambda>x y. word_rotl (rho_offset x y) (A x y))"

definition pi_spec :: "lanes \<Rightarrow> lanes" where
  "pi_spec A = (\<lambda>x y. A ((x + 3 * y) mod 5) x)"

definition chi_spec :: "lanes \<Rightarrow> lanes" where
  "chi_spec A = (\<lambda>x y. A x y XOR (NOT (A ((x + 1) mod 5) y) AND A ((x + 2) mod 5) y))"

text \<open>The round constants come from the linear feedback shift register of the standard.\<close>

type_synonym lfsr = "bool \<times> bool \<times> bool \<times> bool \<times> bool \<times> bool \<times> bool \<times> bool"

fun lfsr_step :: "lfsr \<Rightarrow> lfsr" where
  "lfsr_step (a, b, c, d, e, f, g, h) = (h, a, b, c, d \<noteq> h, e \<noteq> h, f \<noteq> h, g)"

fun rc_bits :: "nat \<Rightarrow> lfsr \<Rightarrow> bool list" where
  "rc_bits 0 R = []"
| "rc_bits (Suc n) R = fst R # rc_bits n (lfsr_step R)"

definition rc_table :: "bool list" where
  "rc_table = rc_bits 168 (True, False, False, False, False, False, False, False)"

definition RC_spec :: "nat \<Rightarrow> u64" where
  "RC_spec r = foldr (\<lambda>j w. if rc_table ! (j + 7 * r) then w OR push_bit (2 ^ j - 1) 1 else w) [0..<7] 0"

definition iota_spec :: "nat \<Rightarrow> lanes \<Rightarrow> lanes" where
  "iota_spec r A = (\<lambda>x y. if x = 0 \<and> y = 0 then A 0 0 XOR RC_spec r else A x y)"

definition keccak_f_spec :: "lanes \<Rightarrow> lanes" where
  "keccak_f_spec A = foldl (\<lambda>A r. iota_spec r (chi_spec (pi_spec (rho_spec (theta_spec A))))) A [0..<24]"

section \<open>Refinement: halves implement lanes\<close>

text \<open>The three tables are the constants that the standard's generators produce.\<close>

lemma RC_eq_spec: "map (\<lambda>(h, l). cat64 h l) RC = map RC_spec [0..<24]"
  by code_simp

lemma RHO_eq_spec: "map (\<lambda>i. rho_offset (i mod 5) (i div 5)) [0..<25] = RHO"
  by code_simp

lemma PI_eq_spec: "map (\<lambda>i. i div 5 + 5 * ((2 * (i mod 5) + 3 * (i div 5)) mod 5)) [0..<25] = PI"
  by code_simp

definition lanes_rel :: "halves \<Rightarrow> lanes \<Rightarrow> bool" where
  "lanes_rel s A \<longleftrightarrow> (case s of (hi, lo) \<Rightarrow> length hi = 25 \<and> length lo = 25 \<and>
     (\<forall>x<5. \<forall>y<5. cat64 (hi ! (x + 5 * y)) (lo ! (x + 5 * y)) = A x y))"

lemma lanes_relI:
  assumes "length hi = 25" "length lo = 25"
    and "\<And>x y. x < 5 \<Longrightarrow> y < 5 \<Longrightarrow> cat64 (hi ! (x + 5 * y)) (lo ! (x + 5 * y)) = A x y"
  shows "lanes_rel (hi, lo) A"
  using assms by (simp add: lanes_rel_def)

lemma lanes_relD:
  assumes "lanes_rel (hi, lo) A" "x < 5" "y < 5"
  shows "cat64 (hi ! (x + 5 * y)) (lo ! (x + 5 * y)) = A x y"
  using assms by (simp add: lanes_rel_def)

lemma lanes_rel_len: "lanes_rel (hi, lo) A \<Longrightarrow> length hi = 25 \<and> length lo = 25"
  by (simp add: lanes_rel_def)

lemma lane_index [simp]: "x < 5 \<Longrightarrow> y < 5 \<Longrightarrow> x + 5 * y < (25::nat)"
  by linarith

lemma lane_index_mod [simp]: "x < 5 \<Longrightarrow> (x + 5 * y) mod 5 = (x::nat)"
  by simp

lemma lane_index_div [simp]: "x < 5 \<Longrightarrow> (x + 5 * y) div 5 = (y::nat)"
  by simp

lemma cat64_theta_parity:
  assumes "lanes_rel (hi, lo) A" "x < 5"
  shows "cat64 (theta_parity hi x) (theta_parity lo x)
       = A x 0 XOR A x 1 XOR A x 2 XOR A x 3 XOR A x 4"
proof -
  have "cat64 (hi ! (x + 5 * y)) (lo ! (x + 5 * y)) = A x y" if "y < 5" for y
    using assms that by (rule lanes_relD)
  from this [of 0] this [of 1] this [of 2] this [of 3] this [of 4]
  show ?thesis
    by (simp add: theta_parity_def upt_rec [of 0] upt_rec [of "Suc _"] cat64_xor xor.assoc)
qed

lemma cat64_theta_d:
  assumes "lanes_rel (hi, lo) A" "x < 5"
  defines "d \<equiv> theta_d (map (theta_parity hi) [0..<5]) (map (theta_parity lo) [0..<5]) x"
  defines "C \<equiv> \<lambda>x. A x 0 XOR A x 1 XOR A x 2 XOR A x 3 XOR A x 4"
  shows "cat64 (fst d) (snd d) = C ((x + 4) mod 5) XOR word_rotl 1 (C ((x + 1) mod 5))"
  using cat64_theta_parity [OF assms(1)]
  by (simp add: d_def C_def theta_d_def split_def cat64_xor cat64_rot64)

lemma theta_refines:
  assumes "lanes_rel (hi, lo) A"
  shows "lanes_rel (theta (hi, lo)) (theta_spec A)"
proof -
  have "cat64 (hi ! (x + 5 * y)) (lo ! (x + 5 * y)) = A x y" if "x < 5" "y < 5" for x y
    using assms that by (rule lanes_relD)
  then show ?thesis
    using cat64_theta_d [OF assms]
    by (auto simp: theta_def Let_def theta_spec_def cat64_xor intro!: lanes_relI)
qed

text \<open>Rho and Pi: the loop scatters the rotated lanes along the permutation \<open>PI\<close>.\<close>

lemma rho_pi_scatter:
  assumes "length a = 25" "length b = 25" "n \<le> 25"
  shows "foldl (\<lambda>(tmpHi, tmpLo) i.
        let (rh, rl) = rot64 (hi ! i) (lo ! i) (RHO ! i)
        in (tmpHi[PI ! i := rh], tmpLo[PI ! i := rl])) (a, b) [0..<n]
    = (foldl (\<lambda>t i. t[PI ! i := fst (rot64 (hi ! i) (lo ! i) (RHO ! i))]) a [0..<n],
       foldl (\<lambda>t i. t[PI ! i := snd (rot64 (hi ! i) (lo ! i) (RHO ! i))]) b [0..<n])"
  by (induction n) (simp_all add: split_def Let_def)

lemma foldl_scatter_length [simp]: "length (foldl (\<lambda>t i. t[p i := f i]) a is) = length a"
  by (induction "is" arbitrary: a) simp_all

lemma foldl_scatter_nth:
  assumes "inj_on p (set is)" "i \<in> set is" "p i < length a" "distinct is"
  shows "foldl (\<lambda>t i. t[p i := f i]) a is ! p i = f i"
  using assms
proof (induction "is" rule: rev_induct)
  case (snoc j js)
  show ?case
  proof (cases "i = j")
    case False
    then have "p i \<noteq> p j" using snoc.prems by (auto simp: inj_on_def)
    then show ?thesis using snoc False by (auto simp: inj_on_def)
  qed (use snoc in auto)
qed simp

lemma rho_offset_RHO: "i < 25 \<Longrightarrow> rho_offset (i mod 5) (i div 5) = RHO ! i"
  using arg_cong [OF RHO_eq_spec, of "\<lambda>l. l ! i"] by simp

lemma PI_nth: "i < 25 \<Longrightarrow> PI ! i = i div 5 + 5 * ((2 * (i mod 5) + 3 * (i div 5)) mod 5)"
  using arg_cong [OF PI_eq_spec, of "\<lambda>l. l ! i"] by simp

lemma PI_inj: "inj_on ((!) PI) (set [0..<25])"
proof -
  have "distinct PI" "length PI = 25" by code_simp+
  then show ?thesis by (simp add: inj_on_nth)
qed


text \<open>The source index of position \<open>(x, y)\<close> under \<open>PI\<close> is \<open>((x + 3y) mod 5, x)\<close>.\<close>

lemma PI_source:
  assumes "x < 5" "y < 5"
  shows "PI ! ((x + 3 * y) mod 5 + 5 * x) = x + 5 * y"
proof -
  have "list_all (\<lambda>x. list_all (\<lambda>y. PI ! ((x + 3 * y) mod 5 + 5 * x) = x + 5 * y) [0..<5]) [0..<5]"
    by code_simp
  then show ?thesis using assms by (simp add: list_all_iff)
qed

lemma rho_pi_nth:
  assumes "x < 5" "y < 5"
  defines "i \<equiv> (x + 3 * y) mod 5 + 5 * x"
  shows "fst (rho_pi (hi, lo)) ! (x + 5 * y) = fst (rot64 (hi ! i) (lo ! i) (RHO ! i))"
    "snd (rho_pi (hi, lo)) ! (x + 5 * y) = snd (rot64 (hi ! i) (lo ! i) (RHO ! i))"
proof -
  have i: "i \<in> set [0..<25]" using assms by simp
  have *: "PI ! i = x + 5 * y" unfolding i_def using assms(1,2) by (rule PI_source)
  have "foldl (\<lambda>t i. t[PI ! i := f i]) (replicate 25 0) [0..<25] ! (x + 5 * y) = f i" for f :: "nat \<Rightarrow> u32"
    using foldl_scatter_nth [OF PI_inj i, of "replicate 25 0" f] assms(1,2) by (simp add: *)
  then show "fst (rho_pi (hi, lo)) ! (x + 5 * y) = fst (rot64 (hi ! i) (lo ! i) (RHO ! i))"
    "snd (rho_pi (hi, lo)) ! (x + 5 * y) = snd (rot64 (hi ! i) (lo ! i) (RHO ! i))"
    using rho_pi_scatter [of "replicate 25 0" "replicate 25 0" 25 hi lo] by (simp_all add: rho_pi_def)
qed

lemma rho_pi_refines:
  assumes "lanes_rel (hi, lo) A"
  shows "lanes_rel (rho_pi (hi, lo)) (pi_spec (rho_spec A))"
proof -
  have "cat64 (fst (rho_pi (hi, lo)) ! (x + 5 * y)) (snd (rho_pi (hi, lo)) ! (x + 5 * y))
      = pi_spec (rho_spec A) x y" if "x < 5" "y < 5" for x y
  proof -
    let ?i = "(x + 3 * y) mod 5 + 5 * x"
    have "rho_offset ((x + 3 * y) mod 5) x = RHO ! ?i"
      using rho_offset_RHO [of ?i] that by simp
    then show ?thesis
      using that lanes_relD [OF assms, of "(x + 3 * y) mod 5" x]
      by (simp add: rho_pi_nth cat64_rot64 pi_spec_def rho_spec_def)
  qed
  moreover have "length (fst (rho_pi (hi, lo))) = 25" "length (snd (rho_pi (hi, lo))) = 25"
    using rho_pi_scatter [of "replicate 25 0" "replicate 25 0" 25 hi lo] by (simp_all add: rho_pi_def)
  ultimately show ?thesis
    using lanes_relI [of "fst (rho_pi (hi, lo))" "snd (rho_pi (hi, lo))"] by simp
qed

lemma chi_refines:
  assumes "lanes_rel (hi, lo) A"
  shows "lanes_rel (chi (hi, lo)) (chi_spec A)"
  using lanes_relD [OF assms]
  by (auto simp: chi_def chi_lane_def Let_def chi_spec_def cat64_xor cat64_and cat64_not intro!: lanes_relI)

lemma RC_nth: "r < 24 \<Longrightarrow> cat64 (fst (RC ! r)) (snd (RC ! r)) = RC_spec r"
proof -
  assume "r < 24"
  moreover have "length RC = 24" by code_simp
  ultimately show ?thesis
    using arg_cong [OF RC_eq_spec, of "\<lambda>l. l ! r"] by (simp add: split_def)
qed

lemma iota_refines:
  assumes "lanes_rel (hi, lo) A" "r < 24"
  shows "lanes_rel (iota r (hi, lo)) (iota_spec r A)"
  using lanes_relD [OF assms(1)] lanes_relD [OF assms(1), of 0 0] lanes_rel_len [OF assms(1)]
  by (auto simp: iota_def iota_spec_def cat64_xor RC_nth assms(2) nth_list_update intro!: lanes_relI)

text \<open>The permutation over halves is the permutation over lanes.\<close>

lemma keccakF1600_refines:
  assumes "lanes_rel s A"
  shows "lanes_rel (keccakF1600 s) (keccak_f_spec A)"
proof -
  have "lanes_rel (foldl (\<lambda>s r. iota r (chi (rho_pi (theta s)))) s rs)
      (foldl (\<lambda>A r. iota_spec r (chi_spec (pi_spec (rho_spec (theta_spec A))))) A rs)"
    if "\<forall>r\<in>set rs. r < 24" "lanes_rel s A" for rs s A
    using that
  proof (induction rs arbitrary: s A)
    case (Cons r rs)
    obtain h1 l1 where s: "s = (h1, l1)" by (cases s)
    obtain h2 l2 where 2: "theta s = (h2, l2)" by (cases "theta s")
    obtain h3 l3 where 3: "rho_pi (theta s) = (h3, l3)" by (cases "rho_pi (theta s)")
    obtain h4 l4 where 4: "chi (rho_pi (theta s)) = (h4, l4)" by (cases "chi (rho_pi (theta s))")
    have "lanes_rel (h2, l2) (theta_spec A)"
      using theta_refines [of h1 l1 A] Cons.prems by (simp add: s 2 [unfolded s])
    then have "lanes_rel (h3, l3) (pi_spec (rho_spec (theta_spec A)))"
      using rho_pi_refines [of h2 l2] 2 3 by simp
    then have "lanes_rel (h4, l4) (chi_spec (pi_spec (rho_spec (theta_spec A))))"
      using chi_refines [of h3 l3] 3 4 by simp
    then show ?case using Cons iota_refines [of h4 l4 _ r] 4 by simp
  qed simp
  then show ?thesis using assms by (simp add: keccakF1600_def keccak_f_spec_def)
qed

section \<open>The reference sponge\<close>

definition le_word :: "bytes \<Rightarrow> u64" where
  "le_word bs = foldl (\<lambda>w b. w OR push_bit (b * 8) (ucast (bs ! b))) 0 [0..<8]"

definition le_bytes :: "u64 \<Rightarrow> bytes" where
  "le_bytes w = map (\<lambda>j. ucast (drop_bit (8 * j) w)) [0..<8]"

definition block_lanes :: "bytes \<Rightarrow> lanes" where
  "block_lanes blk = (\<lambda>x y. if x + 5 * y < 17 then le_word (take 8 (drop (8 * (x + 5 * y)) blk)) else 0)"

text \<open>Padding \<open>10*1\<close> with Keccak's original domain byte, to a multiple of the rate.\<close>

definition keccak_pad :: "nat \<Rightarrow> bytes" where
  "keccak_pad n = (let q = 136 - n mod 136 in
     if q = 1 then [0x81] else 0x01 # replicate (q - 2) 0 @ [0x80])"

fun rate_blocks :: "bytes \<Rightarrow> bytes list" where
  "rate_blocks bs = (if bs = [] then [] else take 136 bs # rate_blocks (drop 136 bs))"

declare rate_blocks.simps [simp del]

definition absorb_spec :: "lanes \<Rightarrow> bytes \<Rightarrow> lanes" where
  "absorb_spec A blk = keccak_f_spec (\<lambda>x y. A x y XOR block_lanes blk x y)"

definition keccak256_spec :: "bytes \<Rightarrow> bytes" where
  "keccak256_spec dat =
     (let A = foldl absorb_spec (\<lambda>_ _. 0) (rate_blocks (dat @ keccak_pad (length dat)))
      in concat (map (\<lambda>i. le_bytes (A i 0)) [0..<4]))"

section \<open>Refinement of the sponge\<close>

lemma bit_le_or:
  fixes f :: "nat \<Rightarrow> u8"
  assumes "n < LENGTH('a::len)"
  shows "bit (foldl (\<lambda>w b. w OR push_bit (b * 8) (ucast (f b))) (0 :: 'a word) [0..<m]) n
     \<longleftrightarrow> n < 8 * m \<and> bit (f (n div 8)) (n mod 8)"
proof (induction m)
  case (Suc m)
  have "bit (push_bit (m * 8) (ucast (f m)) :: 'a word) n \<longleftrightarrow> n div 8 = m \<and> bit (f m) (n mod 8)"
  proof (cases "n div 8 = m")
    case True
    then have "n - m * 8 = n mod 8" "m * 8 \<le> n" by (simp_all add: minus_div_mult_eq_mod [symmetric])
    then show ?thesis using True assms by (auto simp: bit_push_bit_iff bit_ucast_iff)
  next
    case False
    have "\<not> bit (f m) (n - m * 8)" if "m * 8 \<le> n"
    proof -
      have "8 \<le> n - m * 8" using False that by linarith
      then show ?thesis by (auto dest: bit_imp_le_length)
    qed
    then show ?thesis using False assms by (auto simp: bit_push_bit_iff bit_ucast_iff)
  qed
  moreover have "n < 8 * Suc m \<longleftrightarrow> n < 8 * m \<or> n div 8 = m"
    using div_less_iff_less_mult [of 8 n m] div_less_iff_less_mult [of 8 n "Suc m"] by (auto simp: mult.commute)
  ultimately show ?case using Suc.IH by (auto simp: bit_or_iff)
qed simp

lemma cat64_le_half:
  assumes "base + 8 \<le> length dat"
  shows "cat64 (le_half dat (base + 4)) (le_half dat base) = le_word (take 8 (drop base dat))"
proof (rule bit_word_eqI)
  fix n assume n: "n < LENGTH(64)"
  show "bit (cat64 (le_half dat (base + 4)) (le_half dat base)) n = bit (le_word (take 8 (drop base dat))) n"
  proof (cases "n < 32")
    case True
    then show ?thesis using assms n
      by (simp add: bit_cat64 le_half_def le_word_def bit_le_or)
  next
    case False
    then obtain k where k: "n = k + 4 * 8" using le_Suc_ex [of 32 n] by auto
    then have "(n - 32) div 8 + 4 = n div 8" "(n - 32) mod 8 = n mod 8" "n - 32 < 32" if "n < 64"
      using that mod_mult_self1 [of k 4 8] by simp_all
    with n show ?thesis using assms False
      by (simp add: bit_cat64 le_half_def le_word_def bit_le_or add.assoc add.commute [of 4])
  qed
qed

lemma absorb_prefix:
  assumes "length hi = 25" "length lo = 25" "n \<le> 25"
  shows "foldl (\<lambda>(hi, lo) i. let base = offset + i * 8 in
        (hi[i := hi ! i XOR le_half dat (base + 4)], lo[i := lo ! i XOR le_half dat base])) (hi, lo) [0..<n]
    = (map (\<lambda>i. if i < n then hi ! i XOR le_half dat (offset + i * 8 + 4) else hi ! i) [0..<25],
       map (\<lambda>i. if i < n then lo ! i XOR le_half dat (offset + i * 8) else lo ! i) [0..<25])"
  using assms(3)
proof (induction n)
  case 0
  then show ?case using assms map_nth [of hi] map_nth [of lo] by simp
next
  case (Suc n)
  then show ?case
    by (auto simp: Let_def less_Suc_eq nth_list_update intro!: nth_equalityI)
qed

lemma absorbBlock_refines:
  assumes "lanes_rel (hi, lo) A" "offset + 136 \<le> length dat"
  shows "lanes_rel (absorbBlock (hi, lo) dat offset 136)
     (\<lambda>x y. A x y XOR block_lanes (take 136 (drop offset dat)) x y)"
proof -
  have "cat64 (le_half dat (offset + i * 8 + 4)) (le_half dat (offset + i * 8))
      = le_word (take 8 (drop (8 * i) (take 136 (drop offset dat))))" if "i < 17" for i
  proof -
    have "take 8 (drop (8 * i) (take 136 (drop offset dat))) = take 8 (drop (offset + i * 8) dat)"
      using that by (simp add: drop_take min_def add.commute mult.commute)
    then show ?thesis using that assms(2) cat64_le_half [of "offset + i * 8" dat] by simp
  qed
  note lane = this
  have "lanes_rel
     (map (\<lambda>i. if i < 17 then hi ! i XOR le_half dat (offset + i * 8 + 4) else hi ! i) [0..<25],
      map (\<lambda>i. if i < 17 then lo ! i XOR le_half dat (offset + i * 8) else lo ! i) [0..<25])
     (\<lambda>x y. A x y XOR block_lanes (take 136 (drop offset dat)) x y)"
  proof (rule lanes_relI)
    fix x y :: nat assume "x < 5" "y < 5"
    then show "cat64 (map (\<lambda>i. if i < 17 then hi ! i XOR le_half dat (offset + i * 8 + 4) else hi ! i) [0..<25] ! (x + 5 * y))
       (map (\<lambda>i. if i < 17 then lo ! i XOR le_half dat (offset + i * 8) else lo ! i) [0..<25] ! (x + 5 * y))
       = A x y XOR block_lanes (take 136 (drop offset dat)) x y"
      using lanes_relD [OF assms(1), of x y] lane [of "x + 5 * y"]
      by (cases "x + 5 * y < 17") (simp_all del: distrib_left_numeral distrib_right_numeral add: block_lanes_def cat64_xor)
  qed simp_all
  then show ?thesis
    using lanes_rel_len [OF assms(1)] by (simp add: absorbBlock_def absorb_prefix)
qed

lemma absorb_step_refines:
  assumes "lanes_rel s A" "offset + 136 \<le> length dat"
  shows "lanes_rel (keccakF1600 (absorbBlock s dat offset 136)) (absorb_spec A (take 136 (drop offset dat)))"
  unfolding absorb_spec_def
  by (cases s, intro keccakF1600_refines) (use assms absorbBlock_refines in auto)

lemma rate_blocks_unfold: "bs \<noteq> [] \<Longrightarrow> rate_blocks bs = take 136 bs # rate_blocks (drop 136 bs)"
  by (simp add: rate_blocks.simps [of bs])

lemma rate_blocks_Nil [simp]: "rate_blocks [] = []"
  by (simp add: rate_blocks.simps)

lemma absorb_loop_refines:
  assumes "lanes_rel s A" "offset \<le> length dat" "136 dvd offset" "absorb_loop s dat offset = (s', offset')"
  shows "offset' = 136 * (length dat div 136) \<and>
    (\<exists>A'. lanes_rel s' A' \<and> (\<forall>pad. foldl absorb_spec A (rate_blocks (drop offset dat @ pad))
       = foldl absorb_spec A' (rate_blocks (drop offset' dat @ pad))))"
  using assms
proof (induction s dat offset arbitrary: A rule: absorb_loop.induct)
  case (1 s dat offset)
  show ?case
  proof (cases "offset + 136 \<le> length dat")
    case True
    let ?s = "keccakF1600 (absorbBlock s dat offset 136)"
    let ?A = "absorb_spec A (take 136 (drop offset dat))"
    have "lanes_rel ?s ?A" using 1(2) True by (rule absorb_step_refines)
    moreover have "absorb_loop ?s dat (offset + 136) = (s', offset')"
      using 1(5) True by (simp add: absorb_loop.simps [of s])
    moreover have "136 dvd offset + 136" using 1(4) by simp
    moreover have "foldl absorb_spec A (rate_blocks (drop offset dat @ pad))
        = foldl absorb_spec ?A (rate_blocks (drop (offset + 136) dat @ pad))" for pad
      using True by (subst rate_blocks_unfold) (auto simp: add.commute)
    ultimately show ?thesis using 1(1) [OF True, of ?A] True by metis
  next
    case False
    then have "s' = s" "offset' = offset" using 1(5) by (simp_all add: absorb_loop.simps [of s])
    moreover have "offset = 136 * (length dat div 136)"
    proof -
      obtain k where k: "offset = 136 * k" using 1(4) by blast
      then have "length dat div 136 = k" using False 1(3) by (intro div_nat_eqI) auto
      then show ?thesis using k by simp
    qed
    ultimately show ?thesis using 1(2) by blast
  qed
qed

lemma last_block_eq:
  assumes "offset = 136 * (length dat div 136)"
  shows "last_block dat offset = drop offset dat @ keccak_pad (length dat)"
proof -
  let ?r = "length dat mod 136"
  have r: "length dat - offset = ?r" "?r < 136"
    using assms by (simp_all add: minus_mult_div_eq_mod)
  have "replicate (136 - ?r) 0 = (0::u8) # replicate (135 - ?r) 0"
  proof -
    have "136 - ?r = Suc (135 - ?r)" using r(2) by linarith
    then show ?thesis by (simp only: replicate_Suc)
  qed
  then have "last_block dat offset =
      (let last = drop offset dat @ 1 # replicate (135 - ?r) 0 in last[135 := last ! 135 OR 0x80])"
    by (simp add: last_block_def r(1) list_update_append)
  also have "\<dots> = drop offset dat @ keccak_pad (length dat)"
  proof (cases "?r = 135")
    case True
    then show ?thesis using r by (simp add: Let_def list_update_append nth_append keccak_pad_def)
  next
    case False
    then obtain k where k: "135 - ?r = Suc k" "136 - ?r - 2 = k" "?r + Suc k = 135"
      using r(2) that [of "134 - ?r"] by auto
    let ?p = "drop offset dat @ 1 # replicate k (0::u8)"
    have "drop offset dat @ 1 # replicate (135 - ?r) (0::u8) = ?p @ 0 # []"
      by (simp only: k replicate_Suc replicate_append_same [symmetric] append_Cons append_assoc)
    moreover have "135 = length ?p" using r k by simp
    ultimately have "(let last = drop offset dat @ 1 # replicate (135 - ?r) (0::u8) in last[135 := last ! 135 OR 0x80])
        = ?p @ [0x80]"
      by (simp only: Let_def nth_append_length list_update_length or.left_neutral)
    also have "\<dots> = drop offset dat @ keccak_pad (length dat)"
      using k False by (simp add: keccak_pad_def Let_def)
    finally show ?thesis .
  qed
  finally show ?thesis .
qed

lemma length_last_block:
  assumes "offset = 136 * (length dat div 136)"
  shows "length (last_block dat offset) = 136"
proof -
  have "length dat - offset < 136" using assms by (simp add: minus_mult_div_eq_mod)
  then show ?thesis by (simp add: last_block_def Let_def)
qed

lemma byte_of_word: "(ucast (w AND 255) :: u8) = ucast (w :: u32)"
proof -
  have m: "w AND 255 = take_bit 8 w" by (simp add: take_bit_eq_mask mask_eq_exp_minus_1)
  show ?thesis unfolding m
    by (intro bit_word_eqI) (simp add: bit_ucast_iff bit_take_bit_iff)
qed

lemma byte_of_lane:
  "k + 8 \<le> 32 \<Longrightarrow> (ucast (drop_bit k lo) :: u8) = ucast (drop_bit k (cat64 hi lo))"
  "k + 8 \<le> 32 \<Longrightarrow> (ucast (drop_bit k hi) :: u8) = ucast (drop_bit (k + 32) (cat64 hi lo))"
  by (rule bit_word_eqI; auto simp: bit_ucast_iff bit_drop_bit_eq bit_cat64)+

lemma squeeze_lane_eq: "squeeze_lane hi lo = le_bytes (cat64 hi lo)"
  using byte_of_lane [of 0 lo hi] byte_of_lane [of 8 lo hi] byte_of_lane [of 16 lo hi] byte_of_lane [of 24 lo hi]
    byte_of_lane(2) [of 0 hi lo] byte_of_lane(2) [of 8 hi lo] byte_of_lane(2) [of 16 hi lo] byte_of_lane(2) [of 24 hi lo]
  by (simp add: squeeze_lane_def le_bytes_def byte_of_word upt_rec)

text \<open>C19. \<open>keccak256\<close> is Keccak-256: the implementation over 32-bit halves with literal
  round, rotation and permutation tables returns, for every input, the digest of the
  reference sponge over 64-bit lanes with generated constants and \<open>10*1\<close> padding.\<close>

theorem keccak256_refines: "keccak256 dat = keccak256_spec dat"
proof -
  obtain s offset where loop: "absorb_loop (replicate 25 0, replicate 25 0) dat 0 = (s, offset)"
    by fastforce
  have "lanes_rel (replicate 25 0, replicate 25 0) (\<lambda>_ _. 0)"
    by (rule lanes_relI) simp_all
  from absorb_loop_refines [OF this _ _ loop] obtain A where
    offset: "offset = 136 * (length dat div 136)" and A: "lanes_rel s A" and
    spec: "foldl absorb_spec (\<lambda>_ _. 0) (rate_blocks (dat @ pad)) = foldl absorb_spec A (rate_blocks (drop offset dat @ pad))" for pad
    by auto
  let ?last = "last_block dat offset"
  note len = length_last_block [OF offset]
  have "rate_blocks ?last = [?last]"
    using len by (subst rate_blocks_unfold) auto
  then have *: "foldl absorb_spec (\<lambda>_ _. 0) (rate_blocks (dat @ keccak_pad (length dat))) = absorb_spec A ?last"
    by (simp add: spec last_block_eq [OF offset, symmetric])
  obtain hi lo where out: "keccakF1600 (absorbBlock s ?last 0 136) = (hi, lo)" by fastforce
  have "lanes_rel (hi, lo) (absorb_spec A ?last)"
    using absorb_step_refines [OF A, of 0 ?last] len by (simp add: out)
  then have "squeeze_lane (hi ! i) (lo ! i) = le_bytes (absorb_spec A ?last i 0)" if "i < 4" for i
    using lanes_relD [of hi lo _ i 0] that by (simp add: squeeze_lane_eq)
  then have "map (\<lambda>i. squeeze_lane (hi ! i) (lo ! i)) [0..<4] = map (\<lambda>i. le_bytes (absorb_spec A ?last i 0)) [0..<4]"
    by simp
  then show ?thesis
    by (simp add: keccak256_def loop out keccak256_spec_def * del: map_eq_conv)
qed

end
