(* ===== verification/LiveEpoch.thy ===== *)
theory LiveEpoch
  imports Reducer WorkUnits
begin

text \<open>
  The live lane: \<open>packages/coretex/src/reducer/live-epoch.ts\<close>. Verified improvements are applied in arrival
  order; the state root is maintained incrementally through the Merkle cache.
\<close>

section \<open>Implementation\<close>

datatype LiveRejectionCode = Batch_code RejectionCode | L01_NOT_IMPROVEMENT

record LiveEpochInputPatch =
  li_miner :: string
  li_patch :: Patch
  li_patchBytes :: bytes
  li_scoreDelta :: bigint
  li_marginalEvaluator :: MarginalEvaluator

record StateAdvance =
  adv_miner :: string
  adv_patch :: Patch
  adv_patchBytes :: bytes
  adv_patchHash :: string
  adv_parentStateRoot :: string
  adv_newStateRoot :: string
  adv_marginalGain :: bigint
  adv_workUnitsBps :: bigint
  adv_creditUnits :: bigint
  adv_advanceIndex :: nat

record LiveRejectedPatch =
  lr_miner :: string
  lr_patch :: Patch
  lr_patchBytes :: bytes
  lr_reason :: LiveRejectionCode

record LiveEpochOutput =
  lo_newState :: CortexState
  lo_patchSetRoot :: bytes
  lo_patchSetRootHex :: string
  lo_newStateRoot :: bytes
  lo_newStateRootHex :: string
  lo_advances :: "StateAdvance list"
  lo_rejected :: "LiveRejectedPatch list"

record LiveEpochRewardOptions =
  lw_passes :: "js_arg option"
  lw_workPolicy :: "CoreTexWorkPolicy option"
  lw_policyAtomsMode :: bool

text \<open>This module's \<open>toBigInt\<close> takes any big integer as it is.\<close>

definition toBigInt_live :: "js_arg \<Rightarrow> bigint js" where
  "toBigInt_live value = (case value of ArgBig v \<Rightarrow> Inr v | _ \<Rightarrow> toBigInt value)"

definition live_codes :: "LiveRejectionCode AcceptStepCodes" where
  "live_codes = \<lparr>notImprovement = L01_NOT_IMPROVEMENT, wrongParent = Batch_code R03_WRONG_PARENT_ROOT,
     reservedBit = Batch_code R05_RESERVED_BIT_SET, invalidTarget = Batch_code R04_INVALID_TARGET\<rparr>"

definition live_reject :: "LiveEpochInputPatch \<Rightarrow> LiveRejectionCode \<Rightarrow> LiveRejectedPatch" where
  "live_reject item r = \<lparr>lr_miner = li_miner item, lr_patch = li_patch item, lr_patchBytes = li_patchBytes item, lr_reason = r\<rparr>"

definition patch_updates :: "Patch \<Rightarrow> MerkleWordUpdate list" where
  "patch_updates p = map (\<lambda>(i, ix). \<lparr>index = ix, word = nth_or 0 (newWords p) i\<rparr>) (zip [0..<length (indices p)] (indices p))"

definition advance_units :: "LiveEpochRewardOptions \<Rightarrow> nat \<Rightarrow> bigint js" where
  "advance_units opts n = js_bind (toBigInt_live (arg_or_zero (lw_passes opts))) (\<lambda>q.
     computeCoreTexWorkUnitsBps OUTCOME_CORETEX_STATE_ADVANCE (Some (ArgBig (q + int n))) (lw_workPolicy opts))"

fun live_loop :: "bigint \<Rightarrow> LiveEpochRewardOptions \<Rightarrow> LiveEpochInputPatch list \<Rightarrow> CortexState \<Rightarrow> MerkleTreeCache
    \<Rightarrow> StateAdvance list \<Rightarrow> LiveRejectedPatch list \<Rightarrow> (CortexState \<times> MerkleTreeCache \<times> StateAdvance list \<times> LiveRejectedPatch list) js" where
  "live_loop threshold opts [] current currentMerkle advances rejected = Inr (current, currentMerkle, advances, rejected)"
| "live_loop threshold opts (item # rest) current currentMerkle advances rejected =
     (if \<not> bytesEqual (parentStateRoot (li_patch item)) (root currentMerkle)
      then live_loop threshold opts rest current currentMerkle advances (rejected @ [live_reject item (Batch_code R03_WRONG_PARENT_ROOT)])
      else case evaluateAndApplyOntoCurrent current (li_patch item) (li_marginalEvaluator item) threshold True (lw_policyAtomsMode opts) live_codes of
          Inl r \<Rightarrow> live_loop threshold opts rest current currentMerkle advances (rejected @ [live_reject item r])
        | Inr (state, marginalGain) \<Rightarrow>
            js_bind (updateMerkleCache currentMerkle (patch_updates (li_patch item))) (\<lambda>newMerkle.
            js_bind (advance_units opts (length advances)) (\<lambda>units.
            live_loop threshold opts rest state newMerkle
              (advances @ [\<lparr>adv_miner = toLowerCase (li_miner item), adv_patch = li_patch item, adv_patchBytes = li_patchBytes item,
                 adv_patchHash = computePatchHash (li_patchBytes item), adv_parentStateRoot = bytesToHex (root currentMerkle),
                 adv_newStateRoot = bytesToHex (root newMerkle), adv_marginalGain = marginalGain, adv_workUnitsBps = units,
                 adv_creditUnits = units, adv_advanceIndex = length advances\<rparr>]) rejected)))"

definition accepted_for_root :: "StateAdvance \<Rightarrow> AcceptedPatch" where
  "accepted_for_root a = \<lparr>ap_patch = adv_patch a, ap_patchBytes = adv_patchBytes a, ap_marginalGain = adv_marginalGain a,
     ap_acceptanceIndex = adv_advanceIndex a\<rparr>"

definition advanceEpochState :: "CortexState \<Rightarrow> LiveEpochInputPatch list \<Rightarrow> bigint \<Rightarrow> LiveEpochRewardOptions \<Rightarrow> LiveEpochOutput js" where
  "advanceEpochState parentState patches threshold opts =
     js_bind (buildMerkleCache parentState) (\<lambda>c0.
     js_bind (live_loop threshold opts patches parentState c0 [] []) (\<lambda>(current, currentMerkle, advances, rejected).
     let patchSetRoot = computePatchSetRoot (map accepted_for_root advances); newStateRoot = root currentMerkle in
     Inr \<lparr>lo_newState = current, lo_patchSetRoot = patchSetRoot, lo_patchSetRootHex = bytesToHex patchSetRoot,
       lo_newStateRoot = newStateRoot, lo_newStateRootHex = bytesToHex newStateRoot, lo_advances = advances, lo_rejected = rejected\<rparr>))"

definition makeLiveEpochInput :: "string \<Rightarrow> Patch \<Rightarrow> bytes option \<Rightarrow> MarginalEvaluator \<Rightarrow> LiveEpochInputPatch js" where
  "makeLiveEpochInput miner patch patchBytes ev =
     js_bind (case patchBytes of Some bs \<Rightarrow> Inr bs | None \<Rightarrow> encodePatch patch) (\<lambda>bs.
     Inr \<lparr>li_miner = toLowerCase miner, li_patch = patch, li_patchBytes = bs, li_scoreDelta = scoreDelta patch, li_marginalEvaluator = ev\<rparr>)"

section \<open>The incremental root\<close>

lemma patch_updates_eq:
  "length (newWords p) = length (indices p) \<Longrightarrow> patch_updates p = map (\<lambda>(i, w). \<lparr>index = i, word = w\<rparr>) (zip (indices p) (newWords p))"
  by (rule nth_equalityI) (simp_all add: patch_updates_def nth_or_def)

lemma apply_patch_updates:
  assumes "well_sized p"
  shows "apply_updates (words s) (patch_updates p) = patched s p"
proof -
  have l: "length (newWords p) = length (indices p)" using assms by (simp add: well_sized_def)
  have "foldl (\<lambda>ws u. ws[nat (index u) := word u]) ws (map (\<lambda>(i, w). \<lparr>index = i, word = w\<rparr>) es)
      = foldl (\<lambda>ws (i, w). ws[nat i := w]) ws es" for ws es
    by (induction es arbitrary: ws) auto
  then show ?thesis by (simp add: patch_updates_eq [OF l] apply_updates_def patched_def)
qed

lemma updateMerkleCache_patch:
  assumes "wf_state s" "well_sized p" "applyPatchOntoCurrent s p m = Inr t" "buildMerkleCache s = Inr c"
  shows "updateMerkleCache c (patch_updates p) = buildMerkleCache t"
proof -
  have l: "length (newWords p) = length (indices p)" using assms(2) by (simp add: well_sized_def)
  have "valid_updates (patch_updates p)"
    using validatePatchType_indices [OF applyPatchOntoCurrent_valid [OF assms(3)]]
    by (force simp: valid_updates_def patch_updates_eq [OF l] list_all_iff dest: set_zip_leftD)
  moreover have "t = s\<lparr>words := patched s p\<rparr>" using applyPatchOntoCurrent_patched [OF assms(1-3)] by simp
  ultimately show ?thesis using update_is_rebuild [OF assms(4)] apply_patch_updates [OF assms(2)] by simp
qed

lemma merkle_root: "buildMerkleCache s = Inr c \<Longrightarrow> merkleizeState s = Inr (root c)"
  by (simp add: merkleizeState_def)

section \<open>The loop\<close>

text \<open>The \<open>k\<close>-th advance: an input for the root that the earlier advances reach, with its own gain, roots and payment.\<close>

definition advance_at :: "CortexState \<Rightarrow> bigint \<Rightarrow> LiveEpochRewardOptions \<Rightarrow> LiveEpochInputPatch list \<Rightarrow> StateAdvance list \<Rightarrow> nat \<Rightarrow> bool" where
  "advance_at s th opts items advs k \<longleftrightarrow> (\<exists>item t u rt ru units. item \<in> set items \<and>
     apply_chain (lw_policyAtomsMode opts) s (map adv_patch (take k advs)) = Inr t \<and> merkleizeState t = Inr rt \<and>
     applyPatchOntoCurrent t (li_patch item) (lw_policyAtomsMode opts) = Inr u \<and> merkleizeState u = Inr ru \<and>
     parentStateRoot (li_patch item) = rt \<and> th < li_marginalEvaluator item t (li_patch item) \<and> advance_units opts k = Inr units \<and>
     advs ! k = \<lparr>adv_miner = toLowerCase (li_miner item), adv_patch = li_patch item, adv_patchBytes = li_patchBytes item,
       adv_patchHash = computePatchHash (li_patchBytes item), adv_parentStateRoot = bytesToHex rt, adv_newStateRoot = bytesToHex ru,
       adv_marginalGain = li_marginalEvaluator item t (li_patch item), adv_workUnitsBps = units, adv_creditUnits = units, adv_advanceIndex = k\<rparr>)"

definition live_inv :: "CortexState \<Rightarrow> bigint \<Rightarrow> LiveEpochRewardOptions \<Rightarrow> LiveEpochInputPatch list \<Rightarrow> CortexState \<Rightarrow> MerkleTreeCache
    \<Rightarrow> StateAdvance list \<Rightarrow> bool" where
  "live_inv s th opts items cur c advs \<longleftrightarrow> apply_chain (lw_policyAtomsMode opts) s (map adv_patch advs) = Inr cur \<and>
     wf_state cur \<and> buildMerkleCache cur = Inr c \<and> (\<forall>k<length advs. advance_at s th opts items advs k)"

lemma advance_at_snoc: "k < length advs \<Longrightarrow> advance_at s th opts items (advs @ xs) k \<longleftrightarrow> advance_at s th opts items advs k"
  by (simp add: advance_at_def nth_append)

lemma live_inv_accept:
  assumes inv: "live_inv s th opts items cur c advs" and item: "item \<in> set items" "well_sized (li_patch item)" "parentStateRoot (li_patch item) = root c"
    and step: "evaluateAndApplyOntoCurrent cur (li_patch item) (li_marginalEvaluator item) th True (lw_policyAtomsMode opts) live_codes = Inr (t, g)"
    and units: "advance_units opts (length advs) = Inr units"
  shows "\<exists>c'. updateMerkleCache c (patch_updates (li_patch item)) = Inr c' \<and>
    live_inv s th opts items t c' (advs @ [\<lparr>adv_miner = toLowerCase (li_miner item), adv_patch = li_patch item, adv_patchBytes = li_patchBytes item,
       adv_patchHash = computePatchHash (li_patchBytes item), adv_parentStateRoot = bytesToHex (root c), adv_newStateRoot = bytesToHex (root c'),
       adv_marginalGain = g, adv_workUnitsBps = units, adv_creditUnits = units, adv_advanceIndex = length advs\<rparr>])"
proof -
  note i = inv [unfolded live_inv_def] and st = step [unfolded step_Inr]
  have ap: "applyPatchOntoCurrent cur (li_patch item) (lw_policyAtomsMode opts) = Inr t" using st by simp
  have wf: "wf_state t" using store.keeps_inv [OF _ item(2) ap] i by blast
  obtain c' where c': "buildMerkleCache t = Inr c'" using buildMerkleCache_eq [OF wf_state_length [OF wf]] by (simp add: Let_def)
  have up: "updateMerkleCache c (patch_updates (li_patch item)) = Inr c'"
    using updateMerkleCache_patch [OF _ item(2) ap] i c' by simp
  let ?a = "\<lparr>adv_miner = toLowerCase (li_miner item), adv_patch = li_patch item, adv_patchBytes = li_patchBytes item,
       adv_patchHash = computePatchHash (li_patchBytes item), adv_parentStateRoot = bytesToHex (root c), adv_newStateRoot = bytesToHex (root c'),
       adv_marginalGain = g, adv_workUnitsBps = units, adv_creditUnits = units, adv_advanceIndex = length advs\<rparr>"
  have "advance_at s th opts items (advs @ [?a]) (length advs)"
    unfolding advance_at_def using i st item units ap merkle_root [OF c'] merkle_root [of cur c]
    by (intro exI [of _ item] exI [of _ cur] exI [of _ t] exI [of _ "root c"] exI [of _ "root c'"] exI [of _ units]) simp
  then have "\<forall>k<length (advs @ [?a]). advance_at s th opts items (advs @ [?a]) k"
    using i by (auto simp: less_Suc_eq advance_at_snoc)
  moreover have "apply_chain (lw_policyAtomsMode opts) s (map adv_patch (advs @ [?a])) = Inr t"
    using i ap by (simp add: apply_all_snoc)
  ultimately show ?thesis using up wf c' unfolding live_inv_def by blast
qed

definition live_entries :: "StateAdvance list \<Rightarrow> LiveRejectedPatch list \<Rightarrow> (Patch \<times> bytes) multiset" where
  "live_entries advs rej = mset (map (\<lambda>a. (adv_patch a, adv_patchBytes a)) advs) + mset (map (\<lambda>r. (lr_patch r, lr_patchBytes r)) rej)"

lemma live_loop_runs:
  assumes "live_inv s th opts items cur c advs" "set xs \<subseteq> set items" "\<forall>x \<in> set items. well_sized (li_patch x)"
    "\<forall>n. \<exists>u. advance_units opts n = Inr u"
  shows "\<exists>cur' c' advs' rej'. live_loop th opts xs cur c advs rej = Inr (cur', c', advs', rej') \<and> live_inv s th opts items cur' c' advs' \<and>
    live_entries advs' rej' = live_entries advs rej + mset (map (\<lambda>x. (li_patch x, li_patchBytes x)) xs)"
  using assms(1,2)
proof (induction xs arbitrary: cur c advs rej)
  case (Cons x xs)
  show ?case
  proof (cases "parentStateRoot (li_patch x) = root c")
    case False
    then show ?thesis
      using Cons.IH [OF Cons.prems(1), of "rej @ [live_reject x (Batch_code R03_WRONG_PARENT_ROOT)]"] Cons.prems(2)
      by (auto simp: live_entries_def live_reject_def)
  next
    case par: True
    show ?thesis
    proof (cases "evaluateAndApplyOntoCurrent cur (li_patch x) (li_marginalEvaluator x) th True (lw_policyAtomsMode opts) live_codes")
      case (Inl e)
      then show ?thesis
        using par Cons.IH [OF Cons.prems(1), of "rej @ [live_reject x e]"] Cons.prems(2)
        by (auto simp: live_entries_def live_reject_def)
    next
      case (Inr tg)
      obtain t g where tg: "tg = (t, g)" by force
      obtain units where units: "advance_units opts (length advs) = Inr units" using assms(4) by blast
      have x: "x \<in> set items" "well_sized (li_patch x)" using Cons.prems(2) assms(3) by auto
      obtain c' where c': "updateMerkleCache c (patch_updates (li_patch x)) = Inr c'" and inv:
        "live_inv s th opts items t c' (advs @ [\<lparr>adv_miner = toLowerCase (li_miner x), adv_patch = li_patch x, adv_patchBytes = li_patchBytes x,
          adv_patchHash = computePatchHash (li_patchBytes x), adv_parentStateRoot = bytesToHex (root c), adv_newStateRoot = bytesToHex (root c'),
          adv_marginalGain = g, adv_workUnitsBps = units, adv_creditUnits = units, adv_advanceIndex = length advs\<rparr>])"
        using live_inv_accept [OF Cons.prems(1) x par Inr [unfolded tg] units] by blast
      show ?thesis
        using Cons.IH [OF inv, of rej] Cons.prems(2) par Inr tg units c' by (auto simp: live_entries_def)
    qed
  qed
qed simp

lemma live_epoch_run:
  assumes "wf_state s" "\<forall>x \<in> set ps. well_sized (li_patch x)" "\<forall>n. \<exists>u. advance_units opts n = Inr u"
  shows "\<exists>out. advanceEpochState s ps th opts = Inr out \<and>
    apply_all (\<lambda>s p. applyPatchOntoCurrent s p (lw_policyAtomsMode opts)) s (map adv_patch (lo_advances out)) = Inr (lo_newState out) \<and>
    wf_state (lo_newState out) \<and> merkleizeState (lo_newState out) = Inr (lo_newStateRoot out) \<and>
    (\<forall>k<length (lo_advances out). advance_at s th opts ps (lo_advances out) k) \<and>
    mset (map (\<lambda>a. (adv_patch a, adv_patchBytes a)) (lo_advances out)) + mset (map (\<lambda>r. (lr_patch r, lr_patchBytes r)) (lo_rejected out))
      = mset (map (\<lambda>x. (li_patch x, li_patchBytes x)) ps)"
proof -
  obtain c where c: "buildMerkleCache s = Inr c" using buildMerkleCache_eq [OF wf_state_length [OF assms(1)]] by (simp add: Let_def)
  have inv: "live_inv s th opts ps s c []" using assms(1) c by (simp add: live_inv_def)
  obtain cur' c' advs' rej' where run: "live_loop th opts ps s c [] [] = Inr (cur', c', advs', rej')"
      and inv': "live_inv s th opts ps cur' c' advs'" and ent: "live_entries advs' rej' = live_entries [] [] + mset (map (\<lambda>x. (li_patch x, li_patchBytes x)) ps)"
    using live_loop_runs [OF inv order_refl assms(2,3), of "[]"] by blast
  show ?thesis
    using run inv' ent c merkle_root [of cur' c'] by (auto simp: advanceEpochState_def Let_def live_inv_def live_entries_def)
qed

text \<open>The live lane is sound: with a valid payment policy it always returns; the new state is the parent with the
  accepted patches applied in order, well-formed, and its incrementally maintained root is the true
  Merkle root; every advance names the root before and after it, beats the threshold strictly and is
  paid for the initial pass counter plus the number of earlier advances; and no input is lost.\<close>

lemma live_epoch_sound:
  assumes "wf_state s" "\<forall>x \<in> set ps. well_sized (li_patch x)" "\<forall>n. \<exists>u. advance_units opts n = Inr u"
  shows "\<exists>out. advanceEpochState s ps th opts = Inr out \<and>
    apply_all (\<lambda>s p. applyPatchOntoCurrent s p (lw_policyAtomsMode opts)) s (map adv_patch (lo_advances out)) = Inr (lo_newState out) \<and>
    wf_state (lo_newState out) \<and> merkleizeState (lo_newState out) = Inr (lo_newStateRoot out) \<and>
    (\<forall>k<length (lo_advances out). advance_at s th opts ps (lo_advances out) k) \<and>
    mset (map (\<lambda>a. (adv_patch a, adv_patchBytes a)) (lo_advances out)) + mset (map (\<lambda>r. (lr_patch r, lr_patchBytes r)) (lo_rejected out))
      = mset (map (\<lambda>x. (li_patch x, li_patchBytes x)) ps)"
  using assms by (rule live_epoch_run)

lemma advance_units_total:
  assumes "toBigInt_live (arg_or_zero (lw_passes opts)) = Inr q" "0 \<le> q" "lw_workPolicy opts = None"
  shows "\<exists>u. advance_units opts n = Inr u"
proof -
  have q: "toBigInt (arg_or_zero (Some (ArgBig (q + int n)))) = Inr (q + int n)" using assms(2) by (simp add: arg_or_zero_def)
  have "computeCoreTexWorkUnitsBps 2 x None = computeCoreTexWorkUnitsBps 2 x (Some DEFAULT_CORETEX_WORK_POLICY)" for x
    by (simp add: computeCoreTexWorkUnitsBps_def)
  then show ?thesis using compute_advance [OF default_policy_valid q] assms by (auto simp: advance_units_def)
qed

definition demo_live :: "bytes \<Rightarrow> LiveEpochInputPatch" where
  "demo_live rt = \<lparr>li_miner = ''0xAb'', li_patch = slot_patch rt, li_patchBytes = [1, 2], li_scoreDelta = 10, li_marginalEvaluator = stubMarginalEvaluator\<rparr>"

definition demo_opts :: LiveEpochRewardOptions where
  "demo_opts = \<lparr>lw_passes = Some (ArgBig 24), lw_workPolicy = None, lw_policyAtomsMode = True\<rparr>"

text \<open>The counter is not reset by an advance: after 24 screener passes the second advance of the same run, with
  no pass in between, is already paid at the 25-pass tier.\<close>

lemma live_counter_not_reset: "advance_units demo_opts 0 = Inr 30000" "advance_units demo_opts 1 = Inr 40000"
  by code_simp+

end
