(* ===== verification/PerPatch.thy ===== *)
theory PerPatch
  imports Signing
begin

text \<open>
  The evaluation of one patch and its replay: \<open>coordinator/base-blockhash.ts\<close> (the wait for a block), \<open>eval/live-eval-admission.ts\<close>,
  \<open>coordinator/per-patch-evaluator.ts\<close>, \<open>coordinator/patch-received-notice.ts\<close> and \<open>replay/per-patch.ts\<close>, all under \<open>packages/coretex/src\<close>. The scorer and
  the RPC client are arguments and may fail. Scores are numbers that may be infinite or not a number; the finite ones
  come out of \<open>Math.round\<close>, so they are integers and their differences are exact. The hook that records a drawn seed works on a
  state of the caller.
\<close>

section \<open>Implementation\<close>

subsection \<open>Waiting for a block\<close>

record BaseBlockResponse =
  bb_number :: int
  bb_blockhash :: string
  bb_timestamp :: "int option"

text \<open>What the environment answers: the clock and the head at the \<open>n\<close>-th turn of the loop, and the block, with its members missing or not.
  A number is \<open>None\<close> when it is not a number.\<close>

record PollView =
  pv_clock :: "nat \<Rightarrow> int"
  pv_head :: "nat \<Rightarrow> string chain"
  pv_block :: "nat \<Rightarrow> (string option \<times> string option) option chain"

definition parseHexNumber :: "string \<Rightarrow> int option chain" where
  "parseHexNumber hex = (if take 2 hex \<noteq> ''0x'' then Inl (CoreFault (JsError ''base-rpc: expected hex string'')) else Inr (parseInt16 (drop 2 hex)))"

definition reached :: "int option \<Rightarrow> int \<Rightarrow> bool" where
  "reached head blockNumber = (case head of None \<Rightarrow> False | Some h \<Rightarrow> h \<ge> blockNumber)"

definition fetch_block :: "PollView \<Rightarrow> int \<Rightarrow> nat \<Rightarrow> BaseBlockResponse chain" where
  "fetch_block v blockNumber n = chain_bind (pv_block v n) (\<lambda>b. case b of
       Some (Some h, Some ts) \<Rightarrow> chain_bind (parseHexNumber ts) (\<lambda>timestamp.
         Inr \<lparr>bb_number = blockNumber, bb_blockhash = toLowerCase h, bb_timestamp = timestamp\<rparr>)
     | _ \<Rightarrow> Inl (CoreFault (JsError ''waitForBlock: block not found after head reached it'')))"

partial_function (option) wait_loop :: "PollView \<Rightarrow> int \<Rightarrow> int \<Rightarrow> nat \<Rightarrow> BaseBlockResponse chain option" where
  "wait_loop v blockNumber deadline n =
     (if pv_clock v n < deadline then
        (case chain_bind (pv_head v n) parseHexNumber of
           Inl e \<Rightarrow> Some (Inl e)
         | Inr head \<Rightarrow> if reached head blockNumber then Some (fetch_block v blockNumber n) else wait_loop v blockNumber deadline (Suc n))
      else Some (Inl (CoreFault (JsError ''waitForBlock: timed out''))))"

definition waitForBlock :: "PollView \<Rightarrow> int \<Rightarrow> int \<Rightarrow> int \<Rightarrow> BaseBlockResponse chain option" where
  "waitForBlock v startMs blockNumber timeoutMs = wait_loop v blockNumber (startMs + timeoutMs) 0"

subsection \<open>Admission\<close>

record LiveEvalAdmissionInput =
  la_minerAddress :: string
  la_patchHash :: string
  la_dedupKey :: string
  la_dedupedKeysThisEpoch :: "string set"
  la_minerAdmissionsThisEpoch :: int
  la_perMinerCap :: int
  la_structurallyValid :: bool

text \<open>\<open>None\<close> admits.\<close>

definition liveEvalAdmissionDecision :: "LiveEvalAdmissionInput \<Rightarrow> string option" where
  "liveEvalAdmissionDecision input =
     (if \<not> isAddress (la_minerAddress input) then Some ''malformed-input''
      else if \<not> isBytes32 (la_patchHash input) then Some ''malformed-input''
      else if \<not> isBytes32 (la_dedupKey input) then Some ''malformed-input''
      else if la_minerAdmissionsThisEpoch input < 0 then Some ''malformed-input''
      else if la_perMinerCap input < 1 then Some ''malformed-input''
      else if \<not> la_structurallyValid input then Some ''structurally-invalid''
      else if ''0x'' @ toLowerCase (strip_0x (la_dedupKey input)) \<in> la_dedupedKeysThisEpoch input then Some ''duplicate-key-collapsed''
      else if la_minerAdmissionsThisEpoch input \<ge> la_perMinerCap input then Some ''per-miner-cap-reached''
      else None)"

definition mapAdmissionReason :: "string \<Rightarrow> string" where
  "mapAdmissionReason reason = (if reason \<in> {''structurally-invalid'', ''duplicate-key-collapsed'', ''per-miner-cap-reached''} then reason
     else ''admit-malformed-input'')"

subsection \<open>Evaluation\<close>

record PerPatchRequest =
  rq_normalizedPatchBytes :: bytes
  rq_parentRoot :: string
  rq_minerAddress :: string
  rq_epochId :: int
  rq_structurallyValid :: bool

record PerPatchScoreResult =
  sr_scorePpm :: js_number
  sr_accepted :: bool
  sr_rejectionReason :: "string option"

datatype which_pack = GatePack | ConfirmPack

type_synonym PerPatchScorer = "bytes \<Rightarrow> string \<Rightarrow> string \<Rightarrow> which_pack \<Rightarrow> PerPatchScoreResult chain"

record PerPatchSeedContext =
  sd_receivedAtBlock :: int
  sd_targetBlock :: int
  sd_blockhash :: string

record BaseRpcClient =
  rc_latest :: "int chain"
  rc_getBlockHash :: "int \<Rightarrow> string chain"
  rc_waitForBlock :: "int \<Rightarrow> int \<Rightarrow> string chain"

record PerPatchReceipt =
  er_patchHash :: string
  er_dedupKey :: string
  er_parentRoot :: string
  er_minerAddress :: string
  er_epochId :: int
  er_receivedAtBlock :: int
  er_targetBlock :: int
  er_blockhash :: string
  er_gateSeed :: string
  er_confirmSeed :: string
  er_gateScorePpm :: js_number
  er_confirmScorePpm :: js_number
  er_accepted :: bool
  er_rejectionReason :: "string option"
  er_innerRejectionReason :: "string option"

record PerPatchEvaluatorDeps =
  pd_rpcClient :: BaseRpcClient
  pd_scorer :: PerPatchScorer
  pd_targetBlockOffset :: int
  pd_thresholdPpm :: int
  pd_perMinerCap :: int
  pd_epochSecret :: "string option"
  pd_corpusRoot :: string
  pd_bundleHash :: string
  pd_dedupCache :: "(string \<times> PerPatchReceipt) list"
  pd_minerAdmissions :: "(string \<times> int) list"
  pd_waitTimeoutMs :: "int option"
  pd_seedContext :: "PerPatchSeedContext option"
  pd_injectedSeeds :: "(string \<times> string) option"

definition cached_receipt :: "PerPatchReceipt \<Rightarrow> PerPatchReceipt" where
  "cached_receipt r = r\<lparr>er_rejectionReason := Some ''cached'', er_innerRejectionReason := None\<rparr>"

text \<open>The receipt of an evaluation that stopped; \<open>ctx\<close> and the seeds are zero before the draw.\<close>

definition rejected_receipt :: "PerPatchRequest \<Rightarrow> string \<Rightarrow> string \<Rightarrow> string \<Rightarrow> PerPatchReceipt" where
  "rejected_receipt request hash dedupKey reason =
     \<lparr>er_patchHash = hash, er_dedupKey = dedupKey, er_parentRoot = rq_parentRoot request, er_minerAddress = toLowerCase (rq_minerAddress request),
      er_epochId = rq_epochId request, er_receivedAtBlock = 0, er_targetBlock = 0, er_blockhash = ZERO_HASH, er_gateSeed = ZERO_HASH,
      er_confirmSeed = ZERO_HASH, er_gateScorePpm = Fin 0, er_confirmScorePpm = Fin 0, er_accepted = False,
      er_rejectionReason = Some (mapAdmissionReason reason), er_innerRejectionReason = None\<rparr>"

definition admission :: "PerPatchRequest \<Rightarrow> PerPatchEvaluatorDeps \<Rightarrow> string \<Rightarrow> string \<Rightarrow> string option" where
  "admission request deps hash dedupKey =
     (let miner = toLowerCase (rq_minerAddress request) in liveEvalAdmissionDecision
       \<lparr>la_minerAddress = miner, la_patchHash = hash, la_dedupKey = dedupKey, la_dedupedKeysThisEpoch = set (map fst (pd_dedupCache deps)),
        la_minerAdmissionsThisEpoch = or_else (map_of (pd_minerAdmissions deps) miner) 0, la_perMinerCap = pd_perMinerCap deps,
        la_structurallyValid = rq_structurallyValid request\<rparr>)"

definition draw_seed :: "PerPatchEvaluatorDeps \<Rightarrow> PerPatchSeedContext chain" where
  "draw_seed deps = (case pd_seedContext deps of
       Some ctx \<Rightarrow> Inr ctx
     | None \<Rightarrow>
         chain_bind (rc_latest (pd_rpcClient deps)) (\<lambda>receivedAtBlock.
         let targetBlock = receivedAtBlock + pd_targetBlockOffset deps in
         chain_bind (rc_waitForBlock (pd_rpcClient deps) targetBlock (or_else (pd_waitTimeoutMs deps) 120000)) (\<lambda>h.
         Inr \<lparr>sd_receivedAtBlock = receivedAtBlock, sd_targetBlock = targetBlock, sd_blockhash = h\<rparr>)))"

definition seed_input :: "string \<Rightarrow> string \<Rightarrow> int \<Rightarrow> string \<Rightarrow> string \<Rightarrow> string \<Rightarrow> string \<Rightarrow> EvalSeedInput" where
  "seed_input secret bh epoch hash parent corpus bundle =
     \<lparr>epochSecret = secret, blockhash = bh, epochId = epoch, patchHash = hash, parentRoot = parent, corpusRoot = corpus, bundleHash = bundle\<rparr>"

definition derive_seeds :: "PerPatchRequest \<Rightarrow> PerPatchEvaluatorDeps \<Rightarrow> string \<Rightarrow> string \<Rightarrow> (string \<times> string) chain" where
  "derive_seeds request deps hash bh = (case pd_injectedSeeds deps of
       Some (gateSeed, confirmSeed) \<Rightarrow>
         if pd_seedContext deps = None then Inl (CoreFault (JsError ''injectedSeeds require a pinned seedContext''))
         else if \<not> isBytes32 gateSeed then Inl (CoreFault (JsError ''injectedSeeds.gateSeed must be bytes32''))
         else if \<not> isBytes32 confirmSeed then Inl (CoreFault (JsError ''injectedSeeds.confirmSeed must be bytes32''))
         else Inr (toLowerCase gateSeed, toLowerCase confirmSeed)
     | None \<Rightarrow> (case pd_epochSecret deps of
           None \<Rightarrow> Inl (CoreFault (JsError ''epochSecret is required when no injectedSeeds are supplied''))
         | Some secret \<Rightarrow>
             if secret = [] then Inl (CoreFault (JsError ''epochSecret is required when no injectedSeeds are supplied''))
             else let input = seed_input secret bh (rq_epochId request) hash (rq_parentRoot request) (pd_corpusRoot deps) (pd_bundleHash deps) in
               chain_bind (of_js (deriveGateEvalSeed input)) (\<lambda>gateSeed.
               chain_bind (of_js (deriveConfirmEvalSeed input)) (\<lambda>confirmSeed. Inr (gateSeed, confirmSeed)))))"

text \<open>\<open>a >= b\<close> for an integer \<open>b\<close>.\<close>

fun at_least :: "js_number \<Rightarrow> int \<Rightarrow> bool" where
  "at_least (Fin r) b = (r \<ge> of_int b)"
| "at_least PosInf b = True"
| "at_least NegInf b = False"
| "at_least NaN b = False"

definition truthy_reason :: "bool \<Rightarrow> string option \<Rightarrow> string option" where
  "truthy_reason ok reason = (if ok \<or> reason = Some [] then None else reason)"

definition score_packs :: "PerPatchRequest \<Rightarrow> PerPatchEvaluatorDeps \<Rightarrow> string \<Rightarrow> string \<Rightarrow> PerPatchSeedContext \<Rightarrow> string \<Rightarrow> string \<Rightarrow> PerPatchReceipt chain" where
  "score_packs request deps hash dedupKey ctx gateSeed confirmSeed =
     (let receipt = (\<lambda>gateScore confirmScore ok reason inner.
        \<lparr>er_patchHash = hash, er_dedupKey = dedupKey, er_parentRoot = rq_parentRoot request, er_minerAddress = toLowerCase (rq_minerAddress request),
         er_epochId = rq_epochId request, er_receivedAtBlock = sd_receivedAtBlock ctx, er_targetBlock = sd_targetBlock ctx,
         er_blockhash = sd_blockhash ctx, er_gateSeed = gateSeed, er_confirmSeed = confirmSeed, er_gateScorePpm = gateScore,
         er_confirmScorePpm = confirmScore, er_accepted = ok, er_rejectionReason = reason, er_innerRejectionReason = inner\<rparr>) in
      chain_bind (pd_scorer deps (rq_normalizedPatchBytes request) (rq_parentRoot request) gateSeed GatePack) (\<lambda>gate.
      if \<not> (at_least (sr_scorePpm gate) (pd_thresholdPpm deps) \<and> sr_accepted gate)
      then Inr (receipt (sr_scorePpm gate) (Fin 0) False
        (Some (if \<not> sr_accepted gate then ''gate-acceptance-floor'' else ''gate-below-threshold''))
        (truthy_reason (sr_accepted gate) (sr_rejectionReason gate)))
      else chain_bind (pd_scorer deps (rq_normalizedPatchBytes request) (rq_parentRoot request) confirmSeed ConfirmPack) (\<lambda>confirm.
        let confirmPass = at_least (sr_scorePpm confirm) (pd_thresholdPpm deps) \<and> sr_accepted confirm in
        Inr (receipt (sr_scorePpm gate) (sr_scorePpm confirm) confirmPass
          (if confirmPass then None else Some (if \<not> sr_accepted confirm then ''confirm-acceptance-floor'' else ''confirm-below-threshold''))
          (if confirmPass then None else truthy_reason (sr_accepted confirm) (sr_rejectionReason confirm))))))"

text \<open>The whole evaluation. What the hook has stored stays stored when something later throws.\<close>

type_synonym 's seed_hook = "PerPatchSeedContext \<Rightarrow> 's \<Rightarrow> 's \<times> unit chain"

definition runPerPatchEvaluation :: "PerPatchRequest \<Rightarrow> PerPatchEvaluatorDeps \<Rightarrow> 's seed_hook option \<Rightarrow> 's \<Rightarrow> 's \<times> PerPatchReceipt chain" where
  "runPerPatchEvaluation request deps onSeedDerived st =
     (let hash = computePatchHash (rq_normalizedPatchBytes request) in
      case computeDedupKey (rq_parentRoot request) (rq_normalizedPatchBytes request) of
        Inl e \<Rightarrow> (st, Inl (CoreFault e))
      | Inr dedupKey \<Rightarrow> (case map_of (pd_dedupCache deps) dedupKey of
          Some cached \<Rightarrow> (st, Inr (cached_receipt cached))
        | None \<Rightarrow> (case admission request deps hash dedupKey of
            Some reason \<Rightarrow> (st, Inr (rejected_receipt request hash dedupKey reason))
          | None \<Rightarrow> (case draw_seed deps of
              Inl e \<Rightarrow> (st, Inl e)
            | Inr ctx \<Rightarrow> (case (case onSeedDerived of None \<Rightarrow> (st, Inr ()) | Some hook \<Rightarrow> hook ctx st) of
                (st', Inl e) \<Rightarrow> (st', Inl e)
              | (st', Inr _) \<Rightarrow> (st', chain_bind (derive_seeds request deps hash (sd_blockhash ctx)) (\<lambda>(gateSeed, confirmSeed).
                  score_packs request deps hash dedupKey ctx gateSeed confirmSeed)))))))"

subsection \<open>The dual-pack proof\<close>

text \<open>This file's \<open>hexToBytes\<close> checks the digits before it reads them.\<close>

definition hexToBytes_checked :: "string \<Rightarrow> bytes js" where
  "hexToBytes_checked hex =
     (let clean = strip_0x hex in
      if \<not> hex_chars clean \<or> length clean mod 2 \<noteq> 0 then Inl (JsError ''hexToBytes: malformed hex'')
      else Inr (map (\<lambda>i. case parseInt16 (take 2 (drop (i * 2) clean)) of None \<Rightarrow> 0 | Some v \<Rightarrow> word_of_int v) [0..<length clean div 2]))"

definition seedCommit :: "string \<Rightarrow> string js" where
  "seedCommit seed = js_bind (hexToBytes_checked seed) (\<lambda>bs. Inr (toLowerCase (bytesToHex (keccak256 bs))))"

record ProofContext =
  px_corpusRoot :: string
  px_coreVersionHash :: string
  px_hiddenSeedCommit :: string
  px_targetBlockOffset :: int

definition pack_proof :: "string \<Rightarrow> string \<Rightarrow> js_number \<Rightarrow> PackProof" where
  "pack_proof domain commit score = \<lparr>pk_domain = domain, pk_seedCommit = commit, pk_accepted = True, pk_scorePpm = score\<rparr>"

definition dualPackProofFromPerPatchReceipt :: "PerPatchReceipt \<Rightarrow> ProofContext \<Rightarrow> DualPackProof js" where
  "dualPackProofFromPerPatchReceipt receipt context =
     (if \<not> er_accepted receipt then Inl (JsError ''dualPackProofFromPerPatchReceipt: receipt was not accepted'')
      else js_bind (seedCommit (er_gateSeed receipt)) (\<lambda>gateCommit.
      js_bind (seedCommit (er_confirmSeed receipt)) (\<lambda>confirmCommit.
      Inr \<lparr>dp_kind = ''coretex-dual-pack-v1'', dp_mode = ''future_blockhash_dual_pack'', dp_epochId = Fin (of_int (er_epochId receipt)),
        dp_receivedAtBlock = Fin (of_int (er_receivedAtBlock receipt)), dp_targetBlock = Fin (of_int (er_targetBlock receipt)),
        dp_targetBlockOffset = Fin (of_int (px_targetBlockOffset context)), dp_blockhash = toLowerCase (er_blockhash receipt),
        dp_patchHash = toLowerCase (er_patchHash receipt), dp_parentStateRoot = toLowerCase (er_parentRoot receipt),
        dp_corpusRoot = toLowerCase (px_corpusRoot context), dp_coreVersionHash = toLowerCase (px_coreVersionHash context),
        dp_hiddenSeedCommit = toLowerCase (px_hiddenSeedCommit context), dp_epochSecretCommit = toLowerCase (px_hiddenSeedCommit context),
        dp_gate = Some (pack_proof ''gate'' gateCommit (er_gateScorePpm receipt)),
        dp_confirm = Some (pack_proof ''confirm'' confirmCommit (er_confirmScorePpm receipt))\<rparr>)))"

subsection \<open>Replay\<close>

record PerPatchVerificationDeps =
  vd_getBlockHash :: "int \<Rightarrow> string chain"
  vd_replayTolerancePpm :: int
  vd_scorer :: PerPatchScorer
  vd_epochSecret :: string
  vd_corpusRoot :: string
  vd_bundleHash :: string
  vd_normalizedPatchBytes :: bytes

definition hexEqual :: "string \<Rightarrow> string \<Rightarrow> bool" where
  "hexEqual a b \<longleftrightarrow> toLowerCase a = toLowerCase b"

text \<open>\<open>Math.abs(a - b)\<close>, and \<open>x > b\<close> for an integer \<open>b\<close>.\<close>

fun abs_diff :: "js_number \<Rightarrow> js_number \<Rightarrow> js_number" where
  "abs_diff (Fin r) (Fin s) = Fin \<bar>r - s\<bar>"
| "abs_diff PosInf PosInf = NaN"
| "abs_diff NegInf NegInf = NaN"
| "abs_diff NaN x = NaN"
| "abs_diff x NaN = NaN"
| "abs_diff x y = PosInf"

fun exceeds :: "js_number \<Rightarrow> int \<Rightarrow> bool" where
  "exceeds (Fin r) b = (r > of_int b)"
| "exceeds PosInf b = True"
| "exceeds NegInf b = False"
| "exceeds NaN b = False"

datatype PerPatchFailure =
  BLOCKHASH_MISMATCH | GATE_SEED_MISMATCH | CONFIRM_SEED_MISMATCH | PATCH_HASH_MISMATCH | DEDUP_KEY_MISMATCH
  | GATE_SCORE_BEYOND_TOLERANCE | CONFIRM_SCORE_BEYOND_TOLERANCE | RPC_ERROR

definition verify_scores :: "PerPatchReceipt \<Rightarrow> PerPatchVerificationDeps \<Rightarrow> (PerPatchFailure + js_number \<times> js_number) chain" where
  "verify_scores receipt deps =
     chain_bind (vd_scorer deps (vd_normalizedPatchBytes deps) (er_parentRoot receipt) (er_gateSeed receipt) GatePack) (\<lambda>gate.
     let gateDeltaPpm = abs_diff (sr_scorePpm gate) (er_gateScorePpm receipt) in
     if exceeds gateDeltaPpm (vd_replayTolerancePpm deps) then Inr (Inl GATE_SCORE_BEYOND_TOLERANCE)
     else chain_bind (vd_scorer deps (vd_normalizedPatchBytes deps) (er_parentRoot receipt) (er_confirmSeed receipt) ConfirmPack) (\<lambda>confirm.
       let confirmDeltaPpm = abs_diff (sr_scorePpm confirm) (er_confirmScorePpm receipt) in
       if exceeds confirmDeltaPpm (vd_replayTolerancePpm deps) then Inr (Inl CONFIRM_SCORE_BEYOND_TOLERANCE)
       else Inr (Inr (gateDeltaPpm, confirmDeltaPpm))))"

definition verify_seeds :: "PerPatchReceipt \<Rightarrow> PerPatchVerificationDeps \<Rightarrow> (PerPatchFailure + js_number \<times> js_number) chain" where
  "verify_seeds receipt deps =
     (let input = seed_input (vd_epochSecret deps) (er_blockhash receipt) (er_epochId receipt) (er_patchHash receipt) (er_parentRoot receipt)
        (vd_corpusRoot deps) (vd_bundleHash deps) in
      chain_bind (of_js (deriveGateEvalSeed input)) (\<lambda>replayGateSeed.
      if \<not> hexEqual replayGateSeed (er_gateSeed receipt) then Inr (Inl GATE_SEED_MISMATCH)
      else chain_bind (of_js (deriveConfirmEvalSeed input)) (\<lambda>replayConfirmSeed.
      if \<not> hexEqual replayConfirmSeed (er_confirmSeed receipt) then Inr (Inl CONFIRM_SEED_MISMATCH)
      else verify_scores receipt deps)))"

definition verifyPerPatchReceipt :: "PerPatchReceipt \<Rightarrow> PerPatchVerificationDeps \<Rightarrow> (PerPatchFailure + js_number \<times> js_number) chain" where
  "verifyPerPatchReceipt receipt deps =
     (if \<not> hexEqual (computePatchHash (vd_normalizedPatchBytes deps)) (er_patchHash receipt) then Inr (Inl PATCH_HASH_MISMATCH)
      else chain_bind (of_js (computeDedupKey (er_parentRoot receipt) (vd_normalizedPatchBytes deps))) (\<lambda>replayDedupKey.
        if \<not> hexEqual replayDedupKey (er_dedupKey receipt) then Inr (Inl DEDUP_KEY_MISMATCH)
        else if er_receivedAtBlock receipt = 0 then Inr (Inr (Fin 0, Fin 0))
        else (case vd_getBlockHash deps (er_targetBlock receipt) of
            Inl e \<Rightarrow> Inr (Inl RPC_ERROR)
          | Inr chainBlockhash \<Rightarrow>
              if \<not> hexEqual chainBlockhash (er_blockhash receipt) then Inr (Inl BLOCKHASH_MISMATCH)
              else verify_seeds receipt deps)))"

subsection \<open>Notices\<close>

record PatchReceivedNotice =
  nt_patchHash :: string
  nt_receivedAtBlock :: js_number
  nt_receivedAtTimestamp :: js_number
  nt_coordinatorAddress :: string

definition PATCH_RECEIVED_NOTICE_DOMAIN_PREFIX :: string where
  "PATCH_RECEIVED_NOTICE_DOMAIN_PREFIX = ''coretex-patch-received-notice-v1''"

definition assertAddressHex :: "string \<Rightarrow> unit js" where
  "assertAddressHex value =
     (let clean = strip_0x value in
      if length clean \<noteq> 40 then Inl (JsError ''must be 20 bytes hex'')
      else if \<not> hex_chars clean then Inl (JsError ''non-hex characters'')
      else Inr ())"

definition nonneg_integer :: "js_number \<Rightarrow> int option" where
  "nonneg_integer x = (case x of Fin r \<Rightarrow> if r = of_int \<lfloor>r\<rfloor> \<and> 0 \<le> \<lfloor>r\<rfloor> then Some \<lfloor>r\<rfloor> else None | _ \<Rightarrow> None)"

definition canonicalNoticeBytes :: "PatchReceivedNotice \<Rightarrow> bytes js" where
  "canonicalNoticeBytes notice =
     js_bind (assertBytes32Hex (nt_patchHash notice)) (\<lambda>_.
     js_bind (assertAddressHex (nt_coordinatorAddress notice)) (\<lambda>_.
     case nonneg_integer (nt_receivedAtBlock notice) of
       None \<Rightarrow> Inl (JsError ''receivedAtBlock must be a non-negative integer'')
     | Some block \<Rightarrow> (case nonneg_integer (nt_receivedAtTimestamp notice) of
         None \<Rightarrow> Inl (JsError ''receivedAtTimestamp must be a non-negative integer'')
       | Some timestamp \<Rightarrow>
           js_bind (hexToBytes_strict (nt_patchHash notice)) (\<lambda>h.
           js_bind (hexToBytes_strict (nt_coordinatorAddress notice)) (\<lambda>a.
           Inr (concatU8 [utf8 PATCH_RECEIVED_NOTICE_DOMAIN_PREFIX, h, u64BE block, u64BE timestamp, a]))))))"

definition computePatchReceivedNoticeHash :: "PatchReceivedNotice \<Rightarrow> string js" where
  "computePatchReceivedNoticeHash notice = js_bind (canonicalNoticeBytes notice) (\<lambda>bs. Inr (bytesToHex (keccak256 bs)))"

datatype NoticeFailure = NOTICE_MISSING | NOTICE_PATCH_HASH_MISMATCH | RECEIVED_AT_BLOCK_MISMATCH | NOTICE_HASH_MISMATCH

definition verifyPatchReceivedNotice :: "PatchReceivedNotice option \<Rightarrow> string \<Rightarrow> string \<Rightarrow> js_number \<Rightarrow> NoticeFailure option js" where
  "verifyPatchReceivedNotice notice storedNoticeHash receiptPatchHash receiptReceivedAtBlock = (case notice of
       None \<Rightarrow> Inr (Some NOTICE_MISSING)
     | Some nt \<Rightarrow>
         if \<not> hexEqual (nt_patchHash nt) receiptPatchHash then Inr (Some NOTICE_PATCH_HASH_MISMATCH)
         else if nt_receivedAtBlock nt = NaN \<or> nt_receivedAtBlock nt \<noteq> receiptReceivedAtBlock then Inr (Some RECEIVED_AT_BLOCK_MISMATCH)
         else js_bind (computePatchReceivedNoticeHash nt) (\<lambda>recomputed.
           if \<not> hexEqual recomputed storedNoticeHash then Inr (Some NOTICE_HASH_MISMATCH) else Inr None))"

section \<open>The wait ends\<close>

definition waiting :: "PollView \<Rightarrow> int \<Rightarrow> int \<Rightarrow> nat \<Rightarrow> bool" where
  "waiting v blockNumber deadline n \<longleftrightarrow> pv_clock v n < deadline \<and> (\<exists>head. chain_bind (pv_head v n) parseHexNumber = Inr head \<and> \<not> reached head blockNumber)"

definition poll_outcome :: "PollView \<Rightarrow> int \<Rightarrow> int \<Rightarrow> nat \<Rightarrow> BaseBlockResponse chain" where
  "poll_outcome v blockNumber deadline n =
     (if pv_clock v n < deadline then chain_bind (chain_bind (pv_head v n) parseHexNumber) (\<lambda>_. fetch_block v blockNumber n)
      else Inl (CoreFault (JsError ''waitForBlock: timed out'')))"

lemma wait_loop_step:
  "wait_loop v b d n = (if waiting v b d n then wait_loop v b d (Suc n) else Some (poll_outcome v b d n))"
  by (subst wait_loop.simps) (auto simp: waiting_def poll_outcome_def chain_bind_def split: sum.splits)

lemma wait_loop_turns:
  assumes "\<forall>m. n \<le> m \<and> m < n + k \<longrightarrow> waiting v b d m" "\<not> waiting v b d (n + k)"
  shows "wait_loop v b d n = Some (poll_outcome v b d (n + k))"
  using assms
proof (induction k arbitrary: n)
  case 0
  then show ?case using wait_loop_step [of v b d n] by simp
next
  case (Suc k)
  have "wait_loop v b d (Suc n) = Some (poll_outcome v b d (Suc n + k))" by (rule Suc.IH) (use Suc.prems in auto)
  then show ?case using Suc.prems(1) wait_loop_step [of v b d n] by simp
qed

text \<open>C15. The wait for a block always ends. If the clock moves between two polls, \<open>waitForBlock\<close> returns: after at most as many
  polls as milliseconds are left before its deadline, and with what the first poll says that is not a wait: the timeout once the clock
  has reached the deadline, the failure of the head request, or the block once the head has reached it.\<close>

theorem waitForBlock_terminates:
  assumes "\<And>n. pv_clock v n < pv_clock v (Suc n)"
  shows "\<exists>n. int n \<le> max 0 (startMs + timeoutMs - pv_clock v 0) \<and> (\<forall>m < n. waiting v blockNumber (startMs + timeoutMs) m) \<and>
    \<not> waiting v blockNumber (startMs + timeoutMs) n \<and>
    waitForBlock v startMs blockNumber timeoutMs = Some (poll_outcome v blockNumber (startMs + timeoutMs) n)"
proof -
  let ?d = "startMs + timeoutMs" and ?P = "\<lambda>n. \<not> waiting v blockNumber (startMs + timeoutMs) n"
  have clock: "pv_clock v 0 + int n \<le> pv_clock v n" for n
  proof (induction n)
    case (Suc n)
    then show ?case using assms [of n] by simp
  qed simp
  have stop: "?P (nat (max 0 (?d - pv_clock v 0)))"
    using clock [of "nat (max 0 (?d - pv_clock v 0))"] by (auto simp: waiting_def)
  define n where "n = (LEAST n. ?P n)"
  have n: "?P n" "\<forall>m < n. \<not> ?P m" "n \<le> nat (max 0 (?d - pv_clock v 0))"
    unfolding n_def using LeastI [of ?P, OF stop] not_less_Least [of _ ?P] Least_le [of ?P, OF stop] by blast+
  have "waitForBlock v startMs blockNumber timeoutMs = Some (poll_outcome v blockNumber ?d n)"
    using wait_loop_turns [of 0 n v blockNumber ?d] n by (simp add: waitForBlock_def)
  then show ?thesis using n by (intro exI [of _ n]) auto
qed

text \<open>The head reaches the block at the third poll.\<close>

definition demo_poll :: PollView where
  "demo_poll = \<lparr>pv_clock = (\<lambda>n. 1000 * int n), pv_head = (\<lambda>n. Inr (if n < 2 then ''0x9'' else ''0xa'')),
     pv_block = (\<lambda>n. Inr (Some (Some ''0xAB'', Some ''0x10'')))\<rparr>"

theorem waitForBlock_terminates_witness:
  "waitForBlock demo_poll 0 10 5000 = Some (Inr \<lparr>bb_number = 10, bb_blockhash = ''0xab'', bb_timestamp = Some 16\<rparr>)"
proof -
  have hex: "parseHexNumber ''0x9'' = Inr (Some 9)" "parseHexNumber ''0xa'' = Inr (Some 10)" "parseHexNumber ''0x10'' = Inr (Some 16)" "toLowerCase ''0xAB'' = ''0xab''"
    by code_simp+
  have wait: "waiting demo_poll 10 (0 + 5000) n \<longleftrightarrow> n < 2" for n by (auto simp: waiting_def chain_bind_def hex reached_def demo_poll_def)
  have "\<And>n. pv_clock demo_poll n < pv_clock demo_poll (Suc n)" by (simp add: demo_poll_def)
  from waitForBlock_terminates [of demo_poll 0 5000 10, OF this] obtain n where n: "\<forall>m < n. m < 2" "\<not> n < 2"
      "waitForBlock demo_poll 0 10 5000 = Some (poll_outcome demo_poll 10 (0 + 5000) n)" unfolding wait by blast
  moreover have "n = 2" using n(1,2) by (metis linorder_neqE_nat not_less_iff_gr_or_eq)
  ultimately show ?thesis by (simp add: poll_outcome_def fetch_block_def chain_bind_def hex demo_poll_def)
qed

section \<open>Evaluations\<close>

lemma hexEqual_refl [simp]: "hexEqual a a"
  by (simp add: hexEqual_def)

lemma score_packs_Inr:
  "score_packs request deps hash key ctx g c = Inr r \<longleftrightarrow>
    (\<exists>gate. pd_scorer deps (rq_normalizedPatchBytes request) (rq_parentRoot request) g GatePack = Inr gate \<and>
      er_patchHash r = hash \<and> er_dedupKey r = key \<and> er_parentRoot r = rq_parentRoot request \<and> er_minerAddress r = toLowerCase (rq_minerAddress request) \<and>
      er_epochId r = rq_epochId request \<and> er_receivedAtBlock r = sd_receivedAtBlock ctx \<and> er_targetBlock r = sd_targetBlock ctx \<and>
      er_blockhash r = sd_blockhash ctx \<and> er_gateSeed r = g \<and> er_confirmSeed r = c \<and> er_gateScorePpm r = sr_scorePpm gate \<and>
      (if at_least (sr_scorePpm gate) (pd_thresholdPpm deps) \<and> sr_accepted gate
       then \<exists>confirm. pd_scorer deps (rq_normalizedPatchBytes request) (rq_parentRoot request) c ConfirmPack = Inr confirm \<and>
         er_confirmScorePpm r = sr_scorePpm confirm \<and> er_accepted r = (at_least (sr_scorePpm confirm) (pd_thresholdPpm deps) \<and> sr_accepted confirm) \<and>
         er_rejectionReason r = (if er_accepted r then None else Some (if \<not> sr_accepted confirm then ''confirm-acceptance-floor'' else ''confirm-below-threshold'')) \<and>
         er_innerRejectionReason r = (if er_accepted r then None else truthy_reason (sr_accepted confirm) (sr_rejectionReason confirm))
       else er_confirmScorePpm r = Fin 0 \<and> \<not> er_accepted r \<and>
         er_rejectionReason r = Some (if \<not> sr_accepted gate then ''gate-acceptance-floor'' else ''gate-below-threshold'') \<and>
         er_innerRejectionReason r = truthy_reason (sr_accepted gate) (sr_rejectionReason gate)))"
  by (cases r) (auto simp: score_packs_def chain_bind_Inr Let_def)

lemma score_packs_total:
  assumes "\<And>bs p s w. \<exists>x. pd_scorer deps bs p s w = Inr x"
  shows "\<exists>r. score_packs request deps hash key ctx g c = Inr r"
proof -
  obtain x y where "pd_scorer deps (rq_normalizedPatchBytes request) (rq_parentRoot request) g GatePack = Inr x"
      "pd_scorer deps (rq_normalizedPatchBytes request) (rq_parentRoot request) c ConfirmPack = Inr y"
    using assms by metis
  then show ?thesis by (simp add: score_packs_def chain_bind_def Let_def)
qed

text \<open>What an evaluation that drew its packs went through.\<close>

definition evaluated :: "PerPatchRequest \<Rightarrow> PerPatchEvaluatorDeps \<Rightarrow> PerPatchReceipt \<Rightarrow> PerPatchSeedContext \<Rightarrow> bool" where
  "evaluated request deps r ctx \<longleftrightarrow> draw_seed deps = Inr ctx \<and>
     admission request deps (computePatchHash (rq_normalizedPatchBytes request)) (er_dedupKey r) = None \<and>
     computeDedupKey (rq_parentRoot request) (rq_normalizedPatchBytes request) = Inr (er_dedupKey r) \<and>
     derive_seeds request deps (computePatchHash (rq_normalizedPatchBytes request)) (sd_blockhash ctx) = Inr (er_gateSeed r, er_confirmSeed r) \<and>
     score_packs request deps (computePatchHash (rq_normalizedPatchBytes request)) (er_dedupKey r) ctx (er_gateSeed r) (er_confirmSeed r) = Inr r"

lemma run_Inr:
  assumes "runPerPatchEvaluation request deps hook st = (st', Inr r)" "pd_dedupCache deps = []"
  shows "(\<exists>ctx. evaluated request deps r ctx) \<or>
    (\<exists>key reason. computeDedupKey (rq_parentRoot request) (rq_normalizedPatchBytes request) = Inr key \<and>
      r = rejected_receipt request (computePatchHash (rq_normalizedPatchBytes request)) key reason)"
proof -
  obtain key where key: "computeDedupKey (rq_parentRoot request) (rq_normalizedPatchBytes request) = Inr key"
    using assms(1) by (cases "computeDedupKey (rq_parentRoot request) (rq_normalizedPatchBytes request)") (auto simp: runPerPatchEvaluation_def Let_def)
  show ?thesis
  proof (cases "admission request deps (computePatchHash (rq_normalizedPatchBytes request)) key")
    case None
    then obtain ctx where ctx: "draw_seed deps = Inr ctx" using assms key by (auto simp: runPerPatchEvaluation_def Let_def split: sum.splits)
    obtain g c where gc: "derive_seeds request deps (computePatchHash (rq_normalizedPatchBytes request)) (sd_blockhash ctx) = Inr (g, c)"
        "score_packs request deps (computePatchHash (rq_normalizedPatchBytes request)) key ctx g c = Inr r"
      using assms key None ctx by (auto simp: runPerPatchEvaluation_def Let_def chain_bind_Inr split: prod.splits sum.splits)
    moreover have "er_dedupKey r = key" "er_gateSeed r = g" "er_confirmSeed r = c" using gc(2) by (auto simp: score_packs_Inr)
    ultimately show ?thesis using key ctx None by (auto simp: evaluated_def)
  next
    case (Some reason)
    then show ?thesis using assms key by (auto simp: runPerPatchEvaluation_def Let_def)
  qed
qed

lemma rejected_not_accepted [simp]: "\<not> er_accepted (rejected_receipt request hash key reason)" "er_receivedAtBlock (rejected_receipt request hash key reason) = 0"
  by (simp_all add: rejected_receipt_def)

lemma evaluatedD:
  assumes "evaluated request deps r ctx"
  shows "er_patchHash r = computePatchHash (rq_normalizedPatchBytes request)" "er_parentRoot r = rq_parentRoot request" "er_epochId r = rq_epochId request"
    "er_receivedAtBlock r = sd_receivedAtBlock ctx" "er_targetBlock r = sd_targetBlock ctx" "er_blockhash r = sd_blockhash ctx"
  using assms by (auto simp: evaluated_def score_packs_Inr)

section \<open>Replay\<close>

text \<open>The verifier that replays the evaluations of a coordinator: the revealed secret, the same scorer, the patch bytes of the chain's log.\<close>

definition replay_deps :: "(int \<Rightarrow> string chain) \<Rightarrow> int \<Rightarrow> string \<Rightarrow> PerPatchEvaluatorDeps \<Rightarrow> bytes \<Rightarrow> PerPatchVerificationDeps" where
  "replay_deps blocks tolerance secret deps bs =
     \<lparr>vd_getBlockHash = blocks, vd_replayTolerancePpm = tolerance, vd_scorer = pd_scorer deps, vd_epochSecret = secret,
      vd_corpusRoot = pd_corpusRoot deps, vd_bundleHash = pd_bundleHash deps, vd_normalizedPatchBytes = bs\<rparr>"

definition chain_agrees :: "(int \<Rightarrow> string chain) \<Rightarrow> PerPatchSeedContext \<Rightarrow> bool" where
  "chain_agrees blocks ctx \<longleftrightarrow> (\<exists>h. blocks (sd_targetBlock ctx) = Inr h \<and> hexEqual h (sd_blockhash ctx))"

lemma verify_reaches_scores:
  assumes "evaluated request deps r ctx" "pd_injectedSeeds deps = None" "pd_epochSecret deps = Some secret"
    "chain_agrees blocks ctx" "er_receivedAtBlock r \<noteq> 0"
  shows "verifyPerPatchReceipt r (replay_deps blocks tol secret deps (rq_normalizedPatchBytes request))
    = verify_scores r (replay_deps blocks tol secret deps (rq_normalizedPatchBytes request))"
proof -
  note f = evaluatedD [OF assms(1)]
  obtain h where h: "blocks (er_targetBlock r) = Inr h" "hexEqual h (er_blockhash r)" using assms(4) f by (auto simp: chain_agrees_def)
  have key: "computeDedupKey (er_parentRoot r) (rq_normalizedPatchBytes request) = Inr (er_dedupKey r)" using assms(1) f by (simp add: evaluated_def)
  let ?i = "seed_input secret (er_blockhash r) (er_epochId r) (er_patchHash r) (er_parentRoot r) (pd_corpusRoot deps) (pd_bundleHash deps)"
  have "deriveGateEvalSeed ?i = Inr (er_gateSeed r) \<and> deriveConfirmEvalSeed ?i = Inr (er_confirmSeed r)"
    using assms(1-3) f by (auto simp: evaluated_def derive_seeds_def Let_def chain_bind_Inr split: if_splits)
  then show ?thesis
    using h key f assms(5) by (simp add: verifyPerPatchReceipt_def verify_seeds_def replay_deps_def Let_def chain_bind_def of_js_def)
qed

lemma abs_diff_self: "abs_diff x x \<in> {Fin 0, NaN}"
  by (cases x) simp_all

lemma exceeds_self [simp]: "0 \<le> tol \<Longrightarrow> \<not> exceeds (abs_diff x x) tol"
  by (cases x) simp_all

lemma scores_replay:
  assumes "evaluated request deps r ctx" "er_accepted r" "0 \<le> tol"
  shows "\<exists>d e. verify_scores r (replay_deps blocks tol secret deps (rq_normalizedPatchBytes request)) = Inr (Inr (d, e)) \<and> {d, e} \<subseteq> {Fin 0, NaN}"
proof -
  note f = evaluatedD [OF assms(1)]
  obtain gate confirm where sc: "pd_scorer deps (rq_normalizedPatchBytes request) (rq_parentRoot request) (er_gateSeed r) GatePack = Inr gate"
      "pd_scorer deps (rq_normalizedPatchBytes request) (rq_parentRoot request) (er_confirmSeed r) ConfirmPack = Inr confirm"
      "er_gateScorePpm r = sr_scorePpm gate" "er_confirmScorePpm r = sr_scorePpm confirm"
    using assms(1,2) by (auto simp: evaluated_def score_packs_Inr split: if_splits)
  then show ?thesis
    using assms(3) f abs_diff_self [of "sr_scorePpm gate"] abs_diff_self [of "sr_scorePpm confirm"]
    by (simp add: verify_scores_def replay_deps_def chain_bind_def Let_def)
qed

text \<open>An accepted evaluation can be replayed. The receipt of an evaluation that the coordinator accepted verifies for everyone who has the
  revealed secret, the same scorer and the chain's block hashes, under any tolerance, and the replayed scores agree exactly.\<close>

lemma accepted_receipt_verifies:
  assumes "runPerPatchEvaluation request deps hook st = (st', Inr r)" "er_accepted r" "pd_dedupCache deps = []"
    "pd_injectedSeeds deps = None" "pd_epochSecret deps = Some secret" "\<And>ctx. draw_seed deps = Inr ctx \<Longrightarrow> chain_agrees blocks ctx" "0 \<le> tol"
  shows "\<exists>d e. verifyPerPatchReceipt r (replay_deps blocks tol secret deps (rq_normalizedPatchBytes request)) = Inr (Inr (d, e)) \<and> {d, e} \<subseteq> {Fin 0, NaN}"
proof -
  obtain ctx where ev: "evaluated request deps r ctx" using run_Inr [OF assms(1,3)] assms(2) rejected_not_accepted(1) by blast
  show ?thesis
  proof (cases "er_receivedAtBlock r = 0")
    case True
    then show ?thesis using ev evaluatedD [OF ev]
      by (simp add: verifyPerPatchReceipt_def replay_deps_def evaluated_def chain_bind_def of_js_def)
  next
    case False
    have "draw_seed deps = Inr ctx" using ev by (simp add: evaluated_def)
    from verify_reaches_scores [OF ev assms(4,5) assms(6) [OF this] False] show ?thesis using scores_replay [OF ev assms(2,7)] by presburger
  qed
qed

text \<open>C40. An honest rejection at the gate does not verify. A receipt that stopped at the gate pack records the confirm score 0, which was never
  measured; the replay scores the confirm pack all the same and refuses the receipt whenever that score is beyond the tolerance.\<close>

theorem gate_rejection_unverifiable:
  assumes "runPerPatchEvaluation request deps hook st = (st', Inr r)" "pd_dedupCache deps = []"
    "er_rejectionReason r = Some ''gate-below-threshold''" "pd_injectedSeeds deps = None" "pd_epochSecret deps = Some secret"
    "\<And>ctx. draw_seed deps = Inr ctx \<Longrightarrow> chain_agrees blocks ctx \<and> sd_receivedAtBlock ctx \<noteq> 0" "0 \<le> tol"
    "pd_scorer deps (rq_normalizedPatchBytes request) (rq_parentRoot request) (er_confirmSeed r) ConfirmPack = Inr confirm" "sr_scorePpm confirm = Fin s" "of_int tol < \<bar>s\<bar>"
  shows "verifyPerPatchReceipt r (replay_deps blocks tol secret deps (rq_normalizedPatchBytes request)) = Inr (Inl CONFIRM_SCORE_BEYOND_TOLERANCE)"
proof -
  have "mapAdmissionReason reason \<noteq> ''gate-below-threshold''" for reason by (auto simp: mapAdmissionReason_def)
  then have "r \<noteq> rejected_receipt request hash key reason" for hash key reason using assms(3) by (auto simp: rejected_receipt_def)
  then obtain ctx where ev: "evaluated request deps r ctx" using run_Inr [OF assms(1,2)] by blast
  note f = evaluatedD [OF ev]
  have draw: "draw_seed deps = Inr ctx" using ev by (simp add: evaluated_def)
  obtain gate where "pd_scorer deps (rq_normalizedPatchBytes request) (rq_parentRoot request) (er_gateSeed r) GatePack = Inr gate"
      "er_gateScorePpm r = sr_scorePpm gate" "er_confirmScorePpm r = Fin 0"
    using ev assms(3) by (auto simp: evaluated_def score_packs_Inr split: if_splits)
  then have "verify_scores r (replay_deps blocks tol secret deps (rq_normalizedPatchBytes request)) = Inr (Inl CONFIRM_SCORE_BEYOND_TOLERANCE)"
    using assms(7-10) f by (simp add: verify_scores_def replay_deps_def chain_bind_def Let_def)
  then show ?thesis using verify_reaches_scores [OF ev assms(4,5), of blocks tol] assms(6) [OF draw] f(4) by simp
qed

text \<open>Case does not matter to the bytes of a hex string.\<close>

lemma hex_value_lower: "hex_value (js_lower_char c) = hex_value c \<or> hex_value c = None"
proof -
  have "(of_char c :: nat) < 256" by simp
  then show ?thesis by (auto simp: hex_value_def js_lower_char_def Let_def)
qed

lemma strip_asserted:
  assumes "assertBytes32Hex s = Inr u"
  shows "strip_0x s = drop (length s - 64) s" "length s \<ge> 64"
proof -
  have len: "length (strip_0x s) = 64" using assms by (simp add: assertBytes32Hex_Inr)
  have "length s - 64 = 2" if "strip_0x s = drop 2 s" using len that by simp
  then show "strip_0x s = drop (length s - 64) s" "length s \<ge> 64" using len by (auto simp: strip_0x_def split: if_splits)
qed

lemma hex_bytes_ci:
  assumes "assertBytes32Hex s = Inr ()" "assertBytes32Hex t = Inr ()" "hexEqual s t"
  shows "hex_bytes s = hex_bytes t"
proof -
  let ?c = "strip_0x s" and ?d = "strip_0x t"
  have lens: "length s = length t" using assms(3) unfolding hexEqual_def toLowerCase_def by (metis length_map)
  have c: "length ?c = 64" "\<forall>i < 64. hex_value (?c ! i) \<noteq> None" and d: "length ?d = 64" "\<forall>i < 64. hex_value (?d ! i) \<noteq> None"
    using assms(1,2) by (auto simp: assertBytes32Hex_Inr list_all_length)
  have low: "js_lower_char (s ! k) = js_lower_char (t ! k)" if "k < length s" for k
    using assms(3) lens that unfolding hexEqual_def toLowerCase_def by (metis nth_map)
  have vals: "hex_value (?c ! i) = hex_value (?d ! i)" if i: "i < 64" for i
  proof -
    have "js_lower_char (?c ! i) = js_lower_char (?d ! i)"
      using strip_asserted [OF assms(1)] strip_asserted [OF assms(2)] i lens low [of "length s - 64 + i"] by simp
    then show ?thesis using hex_value_lower [of "?c ! i"] hex_value_lower [of "?d ! i"] c(2) d(2) i by metis
  qed
  have pair: "parseInt16 (take 2 (drop (i * 2) ?c)) = parseInt16 (take 2 (drop (i * 2) ?d))" if i: "i < 32" for i
  proof -
    obtain v w where "hex_value (?c ! (i * 2)) = Some v" "hex_value (?c ! Suc (i * 2)) = Some w" using c(2) i by fastforce
    then show ?thesis using c(1) d(1) i vals [of "i * 2"] vals [of "Suc (i * 2)"] by (simp add: take2_drop parseInt16_hex_pair)
  qed
  have "hexToBytes_strict s = hexToBytes_strict t"
    unfolding hexToBytes_strict_def Let_def c(1) d(1) using pair by (auto intro!: js_map_cong simp del: upt_rec_numeral)
  then show ?thesis by (simp add: hex_bytes_def)
qed

lemma seeds_ci:
  assumes "deriveEvalSeedWithPrefix p (seed_input secret bh epoch h parent corpus bundle) = Inr a"
    "deriveEvalSeedWithPrefix p (seed_input secret bh' epoch h' parent corpus bundle) = Inr b" "hexEqual bh bh'" "hexEqual h h'"
  shows "a = b"
proof -
  have "hex_bytes bh = hex_bytes bh'" "hex_bytes h = hex_bytes h'"
    using assms by (auto simp: deriveEvalSeedWithPrefix_Inr seed_input_def seed_fields_def intro!: hex_bytes_ci)
  then show ?thesis using assms(1,2) by (simp add: deriveEvalSeedWithPrefix_Inr seed_preimage_def seed_input_def)
qed

lemma verify_scores_ok:
  "verify_scores r deps = Inr (Inr (d, e)) \<longleftrightarrow> (\<exists>gate confirm.
    vd_scorer deps (vd_normalizedPatchBytes deps) (er_parentRoot r) (er_gateSeed r) GatePack = Inr gate \<and>
    vd_scorer deps (vd_normalizedPatchBytes deps) (er_parentRoot r) (er_confirmSeed r) ConfirmPack = Inr confirm \<and>
    d = abs_diff (sr_scorePpm gate) (er_gateScorePpm r) \<and> e = abs_diff (sr_scorePpm confirm) (er_confirmScorePpm r) \<and>
    \<not> exceeds d (vd_replayTolerancePpm deps) \<and> \<not> exceeds e (vd_replayTolerancePpm deps))"
  unfolding verify_scores_def Let_def chain_bind_Inr by (auto simp: chain_bind_Inr split: if_splits)

lemma verify_seeds_ok:
  "verify_seeds r deps = Inr (Inr x) \<longleftrightarrow>
    (let input = seed_input (vd_epochSecret deps) (er_blockhash r) (er_epochId r) (er_patchHash r) (er_parentRoot r) (vd_corpusRoot deps) (vd_bundleHash deps)
     in \<exists>g c. deriveGateEvalSeed input = Inr g \<and> hexEqual g (er_gateSeed r) \<and> deriveConfirmEvalSeed input = Inr c \<and> hexEqual c (er_confirmSeed r)) \<and>
    verify_scores r deps = Inr (Inr x)"
  unfolding verify_seeds_def Let_def chain_bind_Inr by (auto simp: chain_bind_Inr split: if_splits)

lemma verify_ok:
  assumes "verifyPerPatchReceipt r deps = Inr (Inr x)" "er_receivedAtBlock r \<noteq> 0"
  shows "hexEqual (computePatchHash (vd_normalizedPatchBytes deps)) (er_patchHash r)"
    "\<exists>h. vd_getBlockHash deps (er_targetBlock r) = Inr h \<and> hexEqual h (er_blockhash r)" "verify_seeds r deps = Inr (Inr x)"
  using assms by (auto simp: verifyPerPatchReceipt_def chain_bind_Inr split: if_splits sum.splits)

text \<open>Two finite scores that a finite replayed score confirms.\<close>

lemma scores_close:
  assumes "\<not> exceeds (abs_diff (Fin q) (Fin a)) tol" "\<not> exceeds (abs_diff (Fin q) (Fin b)) tol"
  shows "\<bar>a - b\<bar> \<le> 2 * of_int tol"
  using assms by (simp add: abs_le_iff) linarith

text \<open>A coordinator cannot show two faces. Two receipts for the same patch bytes, parent, epoch and target block that verify and claim to have drawn their
  packs have the same seeds, up to the case of the digits; and where the replayed score of a pack is finite, the finite scores that the two receipts claim for it
  are within twice the tolerance.\<close>

lemma verified_receipts_agree:
  assumes "verifyPerPatchReceipt r deps = Inr (Inr x)" "verifyPerPatchReceipt s deps = Inr (Inr y)" "er_receivedAtBlock r \<noteq> 0" "er_receivedAtBlock s \<noteq> 0"
    "er_parentRoot r = er_parentRoot s" "er_epochId r = er_epochId s" "er_targetBlock r = er_targetBlock s"
  shows "hexEqual (er_gateSeed r) (er_gateSeed s) \<and> hexEqual (er_confirmSeed r) (er_confirmSeed s) \<and>
    (\<forall>gate q a b. er_gateSeed r = er_gateSeed s \<and> vd_scorer deps (vd_normalizedPatchBytes deps) (er_parentRoot r) (er_gateSeed r) GatePack = Inr gate \<and>
      sr_scorePpm gate = Fin q \<and> er_gateScorePpm r = Fin a \<and> er_gateScorePpm s = Fin b \<longrightarrow> \<bar>a - b\<bar> \<le> 2 * of_int (vd_replayTolerancePpm deps)) \<and>
    (\<forall>confirm q a b. er_confirmSeed r = er_confirmSeed s \<and> vd_scorer deps (vd_normalizedPatchBytes deps) (er_parentRoot r) (er_confirmSeed r) ConfirmPack = Inr confirm \<and>
      sr_scorePpm confirm = Fin q \<and> er_confirmScorePpm r = Fin a \<and> er_confirmScorePpm s = Fin b \<longrightarrow> \<bar>a - b\<bar> \<le> 2 * of_int (vd_replayTolerancePpm deps))"
proof -
  note r = verify_ok [OF assms(1,3)] and s = verify_ok [OF assms(2,4)]
  have same: "hexEqual (er_blockhash r) (er_blockhash s)" "hexEqual (er_patchHash r) (er_patchHash s)"
    using r(1,2) s(1,2) assms(7) by (auto simp: hexEqual_def)
  obtain g c where g: "deriveEvalSeedWithPrefix EVAL_SEED_GATE_DOMAIN_PREFIX (seed_input (vd_epochSecret deps) (er_blockhash r) (er_epochId r) (er_patchHash r)
        (er_parentRoot r) (vd_corpusRoot deps) (vd_bundleHash deps)) = Inr g" "hexEqual g (er_gateSeed r)"
      "deriveEvalSeedWithPrefix EVAL_SEED_CONFIRM_DOMAIN_PREFIX (seed_input (vd_epochSecret deps) (er_blockhash r) (er_epochId r) (er_patchHash r)
        (er_parentRoot r) (vd_corpusRoot deps) (vd_bundleHash deps)) = Inr c" "hexEqual c (er_confirmSeed r)"
    using r(3) by (auto simp: verify_seeds_ok Let_def deriveGateEvalSeed_def deriveConfirmEvalSeed_def)
  obtain g' c' where g': "deriveEvalSeedWithPrefix EVAL_SEED_GATE_DOMAIN_PREFIX (seed_input (vd_epochSecret deps) (er_blockhash s) (er_epochId r) (er_patchHash s)
        (er_parentRoot r) (vd_corpusRoot deps) (vd_bundleHash deps)) = Inr g'" "hexEqual g' (er_gateSeed s)"
      "deriveEvalSeedWithPrefix EVAL_SEED_CONFIRM_DOMAIN_PREFIX (seed_input (vd_epochSecret deps) (er_blockhash s) (er_epochId r) (er_patchHash s)
        (er_parentRoot r) (vd_corpusRoot deps) (vd_bundleHash deps)) = Inr c'" "hexEqual c' (er_confirmSeed s)"
    using s(3) assms(5,6) by (auto simp: verify_seeds_ok Let_def deriveGateEvalSeed_def deriveConfirmEvalSeed_def)
  have "g = g'" "c = c'" using seeds_ci [OF g(1) g'(1) same] seeds_ci [OF g(3) g'(3) same] by simp_all
  then have "hexEqual (er_gateSeed r) (er_gateSeed s) \<and> hexEqual (er_confirmSeed r) (er_confirmSeed s)" using g g' by (simp add: hexEqual_def)
  moreover obtain d e d' e' where xy: "x = (d, e)" "y = (d', e')" by fastforce
  moreover have sc: "verify_scores r deps = Inr (Inr (d, e))" "verify_scores s deps = Inr (Inr (d', e'))"
    using r(3) s(3) xy by (simp_all add: verify_seeds_ok)
  moreover have "\<not> exceeds (abs_diff (sr_scorePpm gate) (er_gateScorePpm r)) (vd_replayTolerancePpm deps)"
      "\<not> exceeds (abs_diff (sr_scorePpm gate) (er_gateScorePpm s)) (vd_replayTolerancePpm deps)"
    if "er_gateSeed r = er_gateSeed s" "vd_scorer deps (vd_normalizedPatchBytes deps) (er_parentRoot r) (er_gateSeed r) GatePack = Inr gate" for gate
    using that sc assms(5) by (auto simp: verify_scores_ok)
  moreover have "\<not> exceeds (abs_diff (sr_scorePpm confirm) (er_confirmScorePpm r)) (vd_replayTolerancePpm deps)"
      "\<not> exceeds (abs_diff (sr_scorePpm confirm) (er_confirmScorePpm s)) (vd_replayTolerancePpm deps)"
    if "er_confirmSeed r = er_confirmSeed s" "vd_scorer deps (vd_normalizedPatchBytes deps) (er_parentRoot r) (er_confirmSeed r) ConfirmPack = Inr confirm" for confirm
    using that sc assms(5) by (auto simp: verify_scores_ok)
  ultimately show ?thesis using scores_close by metis
qed

section \<open>Notices\<close>

lemma canonicalNoticeBytes_Inr:
  assumes "canonicalNoticeBytes n = Inr bs"
  shows "\<exists>block time a. nonneg_integer (nt_receivedAtBlock n) = Some block \<and> length (hex_bytes (nt_patchHash n)) = 32 \<and>
    bs = utf8 PATCH_RECEIVED_NOTICE_DOMAIN_PREFIX @ hex_bytes (nt_patchHash n) @ u64BE block @ u64BE time @ a"
  using assms hex_bytes_ok by (fastforce simp: canonicalNoticeBytes_def js_bind_eq_Inr_iff concatU8_def split: option.splits)

text \<open>A published notice supports one receipt. If the hash stored in the public log is the hash of two notices that pass the check for a
  receipt each, then both receipts are for the same patch hash and were received at the same block (block numbers below \<open>2^64\<close>), or the notices' canonical bytes are an explicit
  Keccak-256 collision.\<close>

lemma notice_binds_receipt:
  assumes "verifyPatchReceivedNotice (Some m) stored hash block = Inr None" "verifyPatchReceivedNotice (Some n) stored hash' block' = Inr None"
    "canonicalNoticeBytes m = Inr bs" "canonicalNoticeBytes n = Inr bs'" "block = Fin (of_int b)" "block' = Fin (of_int b')" "b < 2 ^ 64" "b' < 2 ^ 64"
  shows "hex_bytes (nt_patchHash m) = hex_bytes (nt_patchHash n) \<and> hexEqual (nt_patchHash m) hash \<and> hexEqual (nt_patchHash n) hash' \<and> b = b' \<or> collision_between [bs] [bs']"
proof -
  have mn: "hexEqual (nt_patchHash m) hash" "nt_receivedAtBlock m = block" "hexEqual (bytesToHex (keccak256 bs)) stored"
      "hexEqual (nt_patchHash n) hash'" "nt_receivedAtBlock n = block'" "hexEqual (bytesToHex (keccak256 bs')) stored"
    using assms(1-4) by (auto simp: verifyPatchReceivedNotice_def computePatchReceivedNoticeHash_def js_bind_eq_Inr_iff split: if_splits)
  have hash: "keccak256 bs = keccak256 bs'" using mn(3,6) bytesToHex_inj unfolding hexEqual_def toLowerCase_bytesToHex by metis
  show ?thesis
  proof (cases "bs = bs'")
    case True
    obtain time a time' a' where w: "nonneg_integer block = Some b" "nonneg_integer block' = Some b'" "length (hex_bytes (nt_patchHash m)) = 32"
        "length (hex_bytes (nt_patchHash n)) = 32" "bs = utf8 PATCH_RECEIVED_NOTICE_DOMAIN_PREFIX @ hex_bytes (nt_patchHash m) @ u64BE b @ u64BE time @ a"
        "bs' = utf8 PATCH_RECEIVED_NOTICE_DOMAIN_PREFIX @ hex_bytes (nt_patchHash n) @ u64BE b' @ u64BE time' @ a'"
      using canonicalNoticeBytes_Inr [OF assms(3)] canonicalNoticeBytes_Inr [OF assms(4)] mn(2,5) assms(5,6)
      by (auto simp: nonneg_integer_def split: if_splits)
    then have "hex_bytes (nt_patchHash m) = hex_bytes (nt_patchHash n)" "u64BE b = u64BE b'" using True by (simp_all add: u64BE_eq)
    moreover have "0 \<le> b" "0 \<le> b'" using w(1,2) assms(5,6) by (auto simp: nonneg_integer_def split: if_splits)
    ultimately show ?thesis using mn(1,4) assms(7,8) by (auto simp: u64BE_inj)
  qed (use hash in \<open>simp add: collision_between_def\<close>)
qed

section \<open>Examples\<close>

lemma isBytes32_assert: "isBytes32 s \<Longrightarrow> assertBytes32Hex s = Inr ()"
  by (auto simp: isBytes32_def isHex_def hex_chars_def assertBytes32Hex_def strip_0x_def Let_def)

lemma computeDedupKey_ok: "isBytes32 p \<Longrightarrow> \<exists>key. computeDedupKey p bs = Inr key \<and> isBytes32 key \<and> toLowerCase key = key"
  using isBytes32_assert [of p] hex_bytes_ok(1) [of p] by (simp add: computeDedupKey_def)

lemma seeds_exist:
  assumes "isBytes32 secret" "isBytes32 bh" "isBytes32 h" "isBytes32 parent" "isBytes32 corpus" "isBytes32 bundle" "\<not> zero_blockhash bh"
  shows "\<exists>g c. deriveGateEvalSeed (seed_input secret bh epoch h parent corpus bundle) = Inr g \<and>
    deriveConfirmEvalSeed (seed_input secret bh epoch h parent corpus bundle) = Inr c"
  using assms isBytes32_assert by (simp add: deriveGateEvalSeed_def deriveConfirmEvalSeed_def deriveEvalSeedWithPrefix_Inr seed_fields_def seed_input_def)

definition demo_request :: PerPatchRequest where
  "demo_request = \<lparr>rq_normalizedPatchBytes = [1, 2, 3], rq_parentRoot = demo_hash 7, rq_minerAddress = demo_miner, rq_epochId = 3, rq_structurallyValid = True\<rparr>"

definition demo_scorer :: "rat \<Rightarrow> rat \<Rightarrow> PerPatchScorer" where
  "demo_scorer a b = (\<lambda>_ _ _ pack. Inr \<lparr>sr_scorePpm = Fin (if pack = GatePack then a else b), sr_accepted = True, sr_rejectionReason = None\<rparr>)"

definition demo_eval_deps :: "rat \<Rightarrow> rat \<Rightarrow> PerPatchEvaluatorDeps" where
  "demo_eval_deps a b = \<lparr>pd_rpcClient = \<lparr>rc_latest = Inr 5, rc_getBlockHash = (\<lambda>_. Inr (demo_hash 9)), rc_waitForBlock = (\<lambda>_ _. Inr (demo_hash 9))\<rparr>,
     pd_scorer = demo_scorer a b, pd_targetBlockOffset = 15, pd_thresholdPpm = 100, pd_perMinerCap = 2, pd_epochSecret = Some (demo_hash 1),
     pd_corpusRoot = demo_hash 2, pd_bundleHash = demo_hash 3, pd_dedupCache = [], pd_minerAdmissions = [], pd_waitTimeoutMs = None,
     pd_seedContext = None, pd_injectedSeeds = None\<rparr>"

lemma demo_zero: "\<not> zero_blockhash (demo_hash 9)"
  by code_simp

lemma demo_hash_bytes32 [simp]: "isBytes32 (demo_hash b)"
  by (simp add: demo_hash_def)

lemma demo_deps_simps:
  "pd_dedupCache (demo_eval_deps a b) = []" "pd_injectedSeeds (demo_eval_deps a b) = None" "pd_epochSecret (demo_eval_deps a b) = Some (demo_hash 1)"
  "pd_scorer (demo_eval_deps a b) = demo_scorer a b" "pd_thresholdPpm (demo_eval_deps a b) = 100"
  by (simp_all add: demo_eval_deps_def)

lemma demo_request_simps: "rq_normalizedPatchBytes demo_request = [1, 2, 3]" "rq_parentRoot demo_request = demo_hash 7"
  by (simp_all add: demo_request_def)

lemma demo_scorer_total: "\<exists>x. pd_scorer (demo_eval_deps a b) bs p s w = Inr x"
  by (simp add: demo_eval_deps_def demo_scorer_def)

lemma demo_evaluates:
  "\<exists>r. runPerPatchEvaluation demo_request (demo_eval_deps a b) None () = ((), Inr r) \<and> evaluated demo_request (demo_eval_deps a b) r
    \<lparr>sd_receivedAtBlock = 5, sd_targetBlock = 20, sd_blockhash = demo_hash 9\<rparr>"
proof -
  let ?d = "demo_eval_deps a b" and ?ctx = "\<lparr>sd_receivedAtBlock = 5, sd_targetBlock = 20, sd_blockhash = demo_hash 9\<rparr>" and ?h = "computePatchHash [1, 2, 3]"
  obtain key where key: "computeDedupKey (demo_hash 7) [1, 2, 3] = Inr key" "isBytes32 key" using computeDedupKey_ok demo_hash_bytes32 by blast
  have miner: "toLowerCase demo_miner = demo_miner" "isAddress demo_miner" using demo_facts by simp_all
  have adm: "admission demo_request ?d ?h key = None"
    using key(2) miner by (simp add: admission_def liveEvalAdmissionDecision_def demo_request_def demo_eval_deps_def Let_def or_else_def)
  have draw: "draw_seed ?d = Inr ?ctx" by (simp add: draw_seed_def demo_eval_deps_def chain_bind_def Let_def)
  obtain g c where gc: "deriveGateEvalSeed (seed_input (demo_hash 1) (demo_hash 9) 3 ?h (demo_hash 7) (demo_hash 2) (demo_hash 3)) = Inr g"
      "deriveConfirmEvalSeed (seed_input (demo_hash 1) (demo_hash 9) 3 ?h (demo_hash 7) (demo_hash 2) (demo_hash 3)) = Inr c"
    using seeds_exist [of "demo_hash 1" "demo_hash 9" ?h "demo_hash 7" "demo_hash 2" "demo_hash 3" 3] demo_zero by auto
  have ne: "demo_hash 1 \<noteq> []" by (simp add: demo_hash_def bytesToHex_eq)
  have seeds: "derive_seeds demo_request ?d ?h (demo_hash 9) = Inr (g, c)"
    using gc ne by (simp add: derive_seeds_def demo_eval_deps_def demo_request_def Let_def chain_bind_def of_js_def)
  obtain r where r: "score_packs demo_request ?d ?h key ?ctx g c = Inr r"
    using score_packs_total [of ?d, OF demo_scorer_total] by blast
  then have "er_dedupKey r = key" "er_gateSeed r = g" "er_confirmSeed r = c" by (auto simp: score_packs_Inr)
  moreover have "runPerPatchEvaluation demo_request ?d None () = ((), Inr r)"
    using key adm draw seeds r by (simp add: runPerPatchEvaluation_def demo_request_simps demo_deps_simps Let_def chain_bind_def)
  ultimately show ?thesis using key adm draw seeds r by (auto simp: evaluated_def demo_request_simps)
qed

lemma demo_blocks_agree: "draw_seed (demo_eval_deps a b) = Inr ctx \<Longrightarrow> chain_agrees (rc_getBlockHash (pd_rpcClient (demo_eval_deps a b))) ctx \<and> sd_receivedAtBlock ctx \<noteq> 0"
  by (auto simp: draw_seed_def demo_eval_deps_def chain_bind_def Let_def chain_agrees_def)

theorem gate_rejection_unverifiable_witness:
  "\<exists>r. runPerPatchEvaluation demo_request (demo_eval_deps 50 900) None () = ((), Inr r) \<and> er_rejectionReason r = Some ''gate-below-threshold'' \<and>
    verifyPerPatchReceipt r (replay_deps (rc_getBlockHash (pd_rpcClient (demo_eval_deps 50 900))) 5 (demo_hash 1) (demo_eval_deps 50 900) [1, 2, 3])
      = Inr (Inl CONFIRM_SCORE_BEYOND_TOLERANCE)"
proof -
  obtain r where r: "runPerPatchEvaluation demo_request (demo_eval_deps 50 900) None () = ((), Inr r)"
      "evaluated demo_request (demo_eval_deps 50 900) r \<lparr>sd_receivedAtBlock = 5, sd_targetBlock = 20, sd_blockhash = demo_hash 9\<rparr>"
    using demo_evaluates by blast
  have reason: "er_rejectionReason r = Some ''gate-below-threshold''" using r(2) by (auto simp: evaluated_def score_packs_Inr demo_deps_simps demo_scorer_def)
  have bs: "rq_normalizedPatchBytes demo_request = [1, 2, 3]" by (simp add: demo_request_def)
  from gate_rejection_unverifiable [OF r(1) demo_deps_simps(1) reason demo_deps_simps(2,3),
      of "rc_getBlockHash (pd_rpcClient (demo_eval_deps 50 900))" 5 "\<lparr>sr_scorePpm = Fin 900, sr_accepted = True, sr_rejectionReason = None\<rparr>" 900]
  show ?thesis unfolding bs using r(1) reason demo_blocks_agree by (auto simp: demo_deps_simps demo_scorer_def)
qed

definition demo_notice :: PatchReceivedNotice where
  "demo_notice = \<lparr>nt_patchHash = demo_hash 7, nt_receivedAtBlock = Fin 5, nt_receivedAtTimestamp = Fin 1000, nt_coordinatorAddress = demo_miner\<rparr>"

end
