(* ===== verification/Evaluator.thy ===== *)
theory Evaluator
  imports PerPatch
begin

text \<open>
  \<open>packages/coretex/src/coordinator/production-evaluator.ts\<close>: the evaluator core with its grinding-dedup store, and \<open>replay/eval-report-artifact.ts\<close>: the
  artifact that an accepted evaluation publishes. The store is an interface that the host provides: a record of operations, with the
  in-memory store of the source as its instance; the locale \<open>dedup_store\<close> states what the evaluator relies on. The scorer, the RPC client, the loader of parent
  states and the publisher are arguments and may fail.
\<close>

section \<open>Implementation\<close>

subsection \<open>The dedup store\<close>

record CoreTexEvalDedupKey =
  dk_epochId :: int
  dk_parentStateRoot :: string
  dk_patchHash :: string

datatype eval_outcome = OutReject | OutScreenerPass | OutStateAdvance

record CoreTexEvalDedupRecord =
  dr_key :: CoreTexEvalDedupKey
  dr_outcome :: eval_outcome
  dr_code :: "string option"

datatype attempt_state = Drawn | AttemptRejected | AttemptAccepted

record CoreTexEvalAttemptRecord =
  ar_key :: CoreTexEvalDedupKey
  ar_state :: attempt_state
  ar_seedContext :: PerPatchSeedContext
  ar_minerAddress :: string
  ar_admissionCharged :: bool
  ar_outcome :: "eval_outcome option"
  ar_code :: "string option"

text \<open>The interface.\<close>

record 's CoreTexEvalDedupStore =
  op_get :: "CoreTexEvalDedupKey \<Rightarrow> 's \<Rightarrow> CoreTexEvalDedupRecord option"
  op_put :: "CoreTexEvalDedupRecord \<Rightarrow> 's \<Rightarrow> 's"
  op_minerAdmissions :: "int \<Rightarrow> string \<Rightarrow> 's \<Rightarrow> int"
  op_getAttempt :: "CoreTexEvalDedupKey \<Rightarrow> 's \<Rightarrow> CoreTexEvalAttemptRecord option"
  op_recordSeedDrawnAndAdmission :: "CoreTexEvalDedupKey \<Rightarrow> PerPatchSeedContext \<Rightarrow> string \<Rightarrow> 's \<Rightarrow> 's"
  op_recordAttemptOutcome :: "CoreTexEvalDedupKey \<Rightarrow> attempt_state \<Rightarrow> eval_outcome \<Rightarrow> string option \<Rightarrow> 's \<Rightarrow> 's chain"

text \<open>The in-memory store: two maps by the text of the key.\<close>

record memory_store =
  ms_records :: "(string \<times> CoreTexEvalDedupRecord) list"
  ms_attempts :: "(string \<times> CoreTexEvalAttemptRecord) list"

definition recordKey :: "CoreTexEvalDedupKey \<Rightarrow> string" where
  "recordKey k = join_bar [big_string (dk_epochId k), toLowerCase (dk_parentStateRoot k), toLowerCase (dk_patchHash k)]"

definition normalizeKey :: "CoreTexEvalDedupKey \<Rightarrow> CoreTexEvalDedupKey" where
  "normalizeKey k = \<lparr>dk_epochId = dk_epochId k, dk_parentStateRoot = toLowerCase (dk_parentStateRoot k), dk_patchHash = toLowerCase (dk_patchHash k)\<rparr>"

definition charged_to :: "int \<Rightarrow> string \<Rightarrow> CoreTexEvalAttemptRecord \<Rightarrow> bool" where
  "charged_to epoch miner a \<longleftrightarrow> dk_epochId (ar_key a) = epoch \<and> ar_admissionCharged a \<and> ar_minerAddress a = miner"

definition mem_minerAdmissions :: "int \<Rightarrow> string \<Rightarrow> memory_store \<Rightarrow> int" where
  "mem_minerAdmissions epoch miner s = int (length (filter (charged_to epoch (toLowerCase miner)) (map snd (ms_attempts s))))"

definition new_attempt :: "CoreTexEvalDedupKey \<Rightarrow> PerPatchSeedContext \<Rightarrow> string \<Rightarrow> CoreTexEvalAttemptRecord" where
  "new_attempt k ctx miner = \<lparr>ar_key = normalizeKey k, ar_state = Drawn, ar_seedContext = ctx\<lparr>sd_blockhash := toLowerCase (sd_blockhash ctx)\<rparr>,
     ar_minerAddress = toLowerCase miner, ar_admissionCharged = True, ar_outcome = None, ar_code = None\<rparr>"

definition mem_recordSeedDrawnAndAdmission :: "CoreTexEvalDedupKey \<Rightarrow> PerPatchSeedContext \<Rightarrow> string \<Rightarrow> memory_store \<Rightarrow> memory_store" where
  "mem_recordSeedDrawnAndAdmission k ctx miner s =
     (if map_of (ms_attempts s) (recordKey k) \<noteq> None then s
      else s\<lparr>ms_attempts := AList.update (recordKey k) (new_attempt k ctx miner) (ms_attempts s)\<rparr>)"

definition settled :: "attempt_state \<Rightarrow> eval_outcome \<Rightarrow> string option \<Rightarrow> CoreTexEvalAttemptRecord \<Rightarrow> CoreTexEvalAttemptRecord" where
  "settled state out code a = a\<lparr>ar_state := state, ar_outcome := Some out, ar_code := (if code = None \<or> code = Some [] then ar_code a else code)\<rparr>"

definition mem_recordAttemptOutcome :: "CoreTexEvalDedupKey \<Rightarrow> attempt_state \<Rightarrow> eval_outcome \<Rightarrow> string option \<Rightarrow> memory_store \<Rightarrow> memory_store chain" where
  "mem_recordAttemptOutcome k state out code s = (case map_of (ms_attempts s) (recordKey k) of
       None \<Rightarrow> Inl (CoreFault (JsError ''recordAttemptOutcome called before recordSeedDrawnAndAdmission''))
     | Some prior \<Rightarrow> Inr (s\<lparr>ms_attempts := AList.update (recordKey k) (settled state out code prior) (ms_attempts s)\<rparr>))"

definition createInMemoryDedupStore :: "memory_store CoreTexEvalDedupStore" where
  "createInMemoryDedupStore = \<lparr>op_get = (\<lambda>k s. map_of (ms_records s) (recordKey k)),
     op_put = (\<lambda>r s. s\<lparr>ms_records := AList.update (recordKey (dr_key r)) r (ms_records s)\<rparr>), op_minerAdmissions = mem_minerAdmissions,
     op_getAttempt = (\<lambda>k s. map_of (ms_attempts s) (recordKey k)), op_recordSeedDrawnAndAdmission = mem_recordSeedDrawnAndAdmission,
     op_recordAttemptOutcome = mem_recordAttemptOutcome\<rparr>"

definition empty_store :: memory_store where
  "empty_store = \<lparr>ms_records = [], ms_attempts = []\<rparr>"

subsection \<open>The artifact\<close>

record SeedDerivation =
  sv_mode :: string
  sv_epochId :: int
  sv_receivedAtBlock :: int
  sv_targetBlock :: int
  sv_targetBlockOffset :: int
  sv_blockhash :: string
  sv_patchHash :: string
  sv_parentStateRoot :: string
  sv_corpusRoot :: string
  sv_bundleHash :: string

record ArtifactContext =
  ac_parentStateRoot :: string
  ac_corpusRoot :: string
  ac_coreVersionHash :: string
  ac_hiddenSeedCommit :: string
  ac_replayTolerancePpm :: int

record ArtifactPayload =
  af_version :: string
  af_epochId :: int
  af_minerAddress :: string
  af_outcome :: string
  af_compactPatchBytesHex :: string
  af_thresholdPpm :: int
  af_seedDerivation :: SeedDerivation
  af_receipt :: PerPatchReceipt
  af_context :: ArtifactContext

record Artifact = ArtifactPayload +
  af_artifactHash :: string
  af_evalReportHash :: string

abbreviation (input) "JInt n \<equiv> JNumber (Fin (of_int n))"

definition opt_json :: "string option \<Rightarrow> js_value" where
  "opt_json x = (case x of None \<Rightarrow> JUndefined | Some s \<Rightarrow> JString s)"

definition receipt_json :: "PerPatchReceipt \<Rightarrow> js_value" where
  "receipt_json r = JObject [(''patchHash'', JString (er_patchHash r)), (''dedupKey'', JString (er_dedupKey r)), (''parentRoot'', JString (er_parentRoot r)),
     (''minerAddress'', JString (er_minerAddress r)), (''epochId'', JInt (er_epochId r)), (''receivedAtBlock'', JInt (er_receivedAtBlock r)),
     (''targetBlock'', JInt (er_targetBlock r)), (''blockhash'', JString (er_blockhash r)), (''gateSeed'', JString (er_gateSeed r)),
     (''confirmSeed'', JString (er_confirmSeed r)), (''gateScorePpm'', JNumber (er_gateScorePpm r)), (''confirmScorePpm'', JNumber (er_confirmScorePpm r)),
     (''accepted'', JBool (er_accepted r)), (''rejectionReason'', opt_json (er_rejectionReason r)), (''innerRejectionReason'', opt_json (er_innerRejectionReason r))]"

definition seed_json :: "SeedDerivation \<Rightarrow> js_value" where
  "seed_json d = JObject [(''mode'', JString (sv_mode d)), (''epochId'', JInt (sv_epochId d)), (''receivedAtBlock'', JInt (sv_receivedAtBlock d)),
     (''targetBlock'', JInt (sv_targetBlock d)), (''targetBlockOffset'', JInt (sv_targetBlockOffset d)), (''blockhash'', JString (sv_blockhash d)),
     (''patchHash'', JString (sv_patchHash d)), (''parentStateRoot'', JString (sv_parentStateRoot d)), (''corpusRoot'', JString (sv_corpusRoot d)),
     (''bundleHash'', JString (sv_bundleHash d))]"

definition context_json :: "ArtifactContext \<Rightarrow> js_value" where
  "context_json x = JObject [(''parentStateRoot'', JString (ac_parentStateRoot x)), (''corpusRoot'', JString (ac_corpusRoot x)),
     (''coreVersionHash'', JString (ac_coreVersionHash x)), (''hiddenSeedCommit'', JString (ac_hiddenSeedCommit x)),
     (''replayTolerancePpm'', JInt (ac_replayTolerancePpm x))]"

definition payload_json :: "'a ArtifactPayload_scheme \<Rightarrow> js_value" where
  "payload_json a = JObject [(''version'', JString (af_version a)), (''epochId'', JInt (af_epochId a)), (''minerAddress'', JString (af_minerAddress a)),
     (''outcome'', JString (af_outcome a)), (''compactPatchBytesHex'', JString (af_compactPatchBytesHex a)), (''thresholdPpm'', JInt (af_thresholdPpm a)),
     (''seedDerivation'', seed_json (af_seedDerivation a)), (''receipt'', receipt_json (af_receipt a)), (''context'', context_json (af_context a))]"

text \<open>\<open>TextEncoder.encode\<close> of code units below 256.\<close>

definition encode_unit :: "char \<Rightarrow> bytes" where
  "encode_unit c = (let n = of_char c :: nat in if n < 128 then [of_nat n] else [of_nat (192 + n div 64), of_nat (128 + n mod 64)])"

definition encode_text :: "string \<Rightarrow> bytes" where
  "encode_text s = concat (map encode_unit s)"

definition hashPostRevealEvalReportArtifact :: "(rat \<Rightarrow> string) \<Rightarrow> 'a ArtifactPayload_scheme \<Rightarrow> string js" where
  "hashPostRevealEvalReportArtifact fmt a =
     js_bind (canonicalJson fmt \<lparr>safeIntegers = False\<rparr> (payload_json a)) (\<lambda>s. Inr (toLowerCase (bytesToHex (keccak256 (encode_text s)))))"

definition buildPostRevealEvalReportArtifact :: "(rat \<Rightarrow> string) \<Rightarrow> ArtifactPayload \<Rightarrow> Artifact js" where
  "buildPostRevealEvalReportArtifact fmt a =
     js_bind (hashPostRevealEvalReportArtifact fmt a) (\<lambda>h. Inr (ArtifactPayload.extend a \<lparr>af_artifactHash = h, af_evalReportHash = h\<rparr>))"

subsection \<open>Verification of an artifact\<close>

text \<open>Members of the wrong type and missing members are ruled out by the types of the model; what is left of the shape check are ranges and formats.\<close>

definition safe_nonneg :: "int \<Rightarrow> bool" where
  "safe_nonneg n \<longleftrightarrow> 0 \<le> n \<and> n \<le> 2 ^ 53 - 1"

definition shape_ok :: "Artifact \<Rightarrow> bool" where
  "shape_ok a \<longleftrightarrow> (let d = af_seedDerivation a; x = af_context a; r = af_receipt a in
     af_version a = ''coretex-post-reveal-eval-report-v1'' \<and> isBytes32 (af_evalReportHash a) \<and> isBytes32 (af_artifactHash a) \<and> safe_nonneg (af_epochId a) \<and>
     isAddress (af_minerAddress a) \<and> af_outcome a \<in> {''SCREENER_PASS'', ''STATE_ADVANCE''} \<and>
     isHex (af_compactPatchBytesHex a) \<and> (length (af_compactPatchBytesHex a) - 2) mod 2 = 0 \<and> safe_nonneg (af_thresholdPpm a) \<and>
     sv_mode d = ''future_blockhash_dual_pack'' \<and> list_all safe_nonneg [sv_epochId d, sv_receivedAtBlock d, sv_targetBlock d, sv_targetBlockOffset d] \<and>
     list_all isBytes32 [sv_blockhash d, sv_patchHash d, sv_parentStateRoot d, sv_corpusRoot d, sv_bundleHash d] \<and>
     list_all isBytes32 [ac_parentStateRoot x, ac_corpusRoot x, ac_coreVersionHash x, ac_hiddenSeedCommit x] \<and> safe_nonneg (ac_replayTolerancePpm x) \<and>
     safe_nonneg (er_epochId r) \<and> isBytes32 (er_parentRoot r) \<and> isAddress (er_minerAddress r) \<and>
     safe_nat (er_gateScorePpm r) \<and> safe_nat (er_confirmScorePpm r) \<and> safe_nonneg (er_receivedAtBlock r) \<and> safe_nonneg (er_targetBlock r) \<and>
     list_all isBytes32 [er_blockhash r, er_patchHash r, er_gateSeed r, er_confirmSeed r] \<and>
     er_epochId r = af_epochId a \<and> hexEqual (er_parentRoot r) (ac_parentStateRoot x) \<and> hexEqual (er_minerAddress r) (af_minerAddress a))"

definition seed_binding_ok :: "Artifact \<Rightarrow> bool" where
  "seed_binding_ok a \<longleftrightarrow> (let d = af_seedDerivation a; x = af_context a; r = af_receipt a in
     sv_epochId d = af_epochId a \<and> sv_receivedAtBlock d = er_receivedAtBlock r \<and> sv_targetBlock d = er_targetBlock r \<and>
     sv_receivedAtBlock d + sv_targetBlockOffset d = sv_targetBlock d \<and> hexEqual (sv_blockhash d) (er_blockhash r) \<and>
     hexEqual (sv_patchHash d) (er_patchHash r) \<and> hexEqual (sv_parentStateRoot d) (er_parentRoot r) \<and>
     hexEqual (sv_parentStateRoot d) (ac_parentStateRoot x) \<and> hexEqual (sv_corpusRoot d) (ac_corpusRoot x) \<and> hexEqual (sv_bundleHash d) (ac_coreVersionHash x))"

fun js_min :: "js_number \<Rightarrow> js_number \<Rightarrow> js_number" where
  "js_min NaN y = NaN"
| "js_min x NaN = NaN"
| "js_min NegInf y = NegInf"
| "js_min x NegInf = NegInf"
| "js_min PosInf y = y"
| "js_min x PosInf = x"
| "js_min (Fin a) (Fin b) = Fin (min a b)"

fun less_int :: "js_number \<Rightarrow> int \<Rightarrow> bool" where
  "less_int (Fin r) b = (r < of_int b)"
| "less_int PosInf b = False"
| "less_int NegInf b = True"
| "less_int NaN b = False"

datatype ArtifactFailure =
  EVAL_ARTIFACT_MALFORMED | EVAL_ARTIFACT_HASH_MISMATCH | EVAL_REPORT_HASH_MISMATCH | EVAL_ARTIFACT_SEED_INPUTS_MISMATCH
  | EVAL_ARTIFACT_THRESHOLD_VIOLATION | EPOCH_SECRET_COMMIT_MISMATCH | ReplayFailed PerPatchFailure

record ArtifactVerificationDeps =
  xd_getBlockHash :: "int \<Rightarrow> string chain"
  xd_scorer :: PerPatchScorer
  xd_epochSecret :: string

definition artifact_replay_deps :: "ArtifactVerificationDeps \<Rightarrow> Artifact \<Rightarrow> bytes \<Rightarrow> PerPatchVerificationDeps" where
  "artifact_replay_deps deps a bs = \<lparr>vd_getBlockHash = xd_getBlockHash deps, vd_replayTolerancePpm = ac_replayTolerancePpm (af_context a), vd_scorer = xd_scorer deps,
     vd_epochSecret = xd_epochSecret deps, vd_corpusRoot = ac_corpusRoot (af_context a), vd_bundleHash = ac_coreVersionHash (af_context a), vd_normalizedPatchBytes = bs\<rparr>"

definition verifyPostRevealEvalReportArtifact :: "(rat \<Rightarrow> string) \<Rightarrow> Artifact \<Rightarrow> ArtifactVerificationDeps \<Rightarrow> (ArtifactFailure + string \<times> js_number \<times> js_number) chain" where
  "verifyPostRevealEvalReportArtifact fmt a deps =
     (if \<not> shape_ok a then Inr (Inl EVAL_ARTIFACT_MALFORMED)
      else chain_bind (of_js (hashPostRevealEvalReportArtifact fmt a)) (\<lambda>h.
        if h \<noteq> toLowerCase (af_artifactHash a) then Inr (Inl EVAL_ARTIFACT_HASH_MISMATCH)
        else if \<not> hexEqual (af_evalReportHash a) (af_artifactHash a) then Inr (Inl EVAL_REPORT_HASH_MISMATCH)
        else if \<not> seed_binding_ok a then Inr (Inl EVAL_ARTIFACT_SEED_INPUTS_MISMATCH)
        else if \<not> er_accepted (af_receipt a) then Inr (Inl EVAL_ARTIFACT_THRESHOLD_VIOLATION)
        else if less_int (js_min (er_gateScorePpm (af_receipt a)) (er_confirmScorePpm (af_receipt a))) (af_thresholdPpm a)
        then Inr (Inl EVAL_ARTIFACT_THRESHOLD_VIOLATION)
        else chain_bind (of_js (hexToBytes_checked (xd_epochSecret deps))) (\<lambda>secretBytes.
          if toLowerCase (bytesToHex (keccak256 secretBytes)) \<noteq> toLowerCase (ac_hiddenSeedCommit (af_context a)) then Inr (Inl EPOCH_SECRET_COMMIT_MISMATCH)
          else chain_bind (of_js (hexToBytes_checked (af_compactPatchBytesHex a))) (\<lambda>bs.
            chain_bind (verifyPerPatchReceipt (af_receipt a) (artifact_replay_deps deps a bs)) (\<lambda>replay. case replay of
                Inl code \<Rightarrow> Inr (Inl (ReplayFailed code))
              | Inr (gateDelta, confirmDelta) \<Rightarrow> Inr (Inr (h, gateDelta, confirmDelta)))))))"

subsection \<open>The evaluator\<close>

text \<open>The result of the canonical scorer; the composite score before the patch is kept as the result of \<open>ppm\<close>.\<close>

record PatchEvalResult =
  pe_accepted :: bool
  pe_reason :: "string option"
  pe_beforePpm :: js_number
  pe_deltaPpm :: js_number

record EvaluatorCoreDeps =
  ed_epochId :: int
  ed_epochSecret :: "string option"
  ed_hiddenSeedCommit :: "string option"
  ed_corpusRoot :: string
  ed_bundleHash :: string
  ed_stateThresholdPpm :: int
  ed_screenerThresholdPpm :: int
  ed_replayTolerancePpm :: int
  ed_targetBlockOffset :: int
  ed_perMinerCap :: int

text \<open>The services behind one call: the chain, the parent states, the scorer and the publisher.\<close>

record EvaluatorEnv =
  ev_rpcClient :: BaseRpcClient
  ev_parentStateLoader :: "string \<Rightarrow> CortexState chain"
  ev_seedScorer :: "CortexState \<Rightarrow> bytes \<Rightarrow> string \<Rightarrow> int \<Rightarrow> PatchEvalResult chain"
  ev_publishArtifact :: "Artifact \<Rightarrow> unit chain"
  ev_fmt :: "rat \<Rightarrow> string"

record ScoreInput =
  si_patchBytesHex :: string
  si_parentStateRoot :: string
  si_miner :: string
  si_parentState :: "CortexState option"
  si_screenerThresholdPpm :: "int option"
  si_seedContext :: "PerPatchSeedContext option"
  si_injectedSeeds :: "(string \<times> string) option"
  si_targetBlockOffset :: "int option"

record EvalAcceptedResult =
  pa_accepted :: EvalAccepted
  pa_scores :: "StateAdvanceScores option"
  pa_artifact :: Artifact

datatype ProductionEvalResult = ProdReject string "string option" | ProdAccepted EvalAcceptedResult

definition validatePerMinerCap :: "int \<Rightarrow> bool" where
  "validatePerMinerCap cap \<longleftrightarrow> 0 < cap \<and> cap < 2 ^ 53 - 1"

definition parseHex :: "string \<Rightarrow> bytes js" where
  "parseHex value = (if \<not> isHex value \<or> length value mod 2 \<noteq> 0 then Inl (JsError ''must be hex'') else Merkle.hexToBytes value)"

text \<open>The commitment to the epoch secret: computed from the secret, which has to agree with a configured commitment, or configured.\<close>

definition configured_commit :: "EvaluatorCoreDeps \<Rightarrow> string js" where
  "configured_commit deps = (case ed_hiddenSeedCommit deps of
       Some c \<Rightarrow> if isBytes32 c then Inr (toLowerCase c) else Inl (JsError ''requires epochSecret OR a bytes32 hiddenSeedCommit'')
     | None \<Rightarrow> Inl (JsError ''requires epochSecret OR a bytes32 hiddenSeedCommit''))"

definition derived_commit :: "EvaluatorCoreDeps \<Rightarrow> string \<Rightarrow> string js" where
  "derived_commit deps secret =
     js_bind (parseHex secret) (\<lambda>bs. let derived = toLowerCase (bytesToHex (keccak256 bs)) in
       case ed_hiddenSeedCommit deps of
         Some c \<Rightarrow> if c \<noteq> [] \<and> toLowerCase c \<noteq> derived then Inl (JsError ''hiddenSeedCommit != keccak256(epochSecret)'') else Inr derived
       | None \<Rightarrow> Inr derived)"

text \<open>The constructor; what it keeps is the commitment.\<close>

definition createCoreTexEvaluatorCore :: "EvaluatorCoreDeps \<Rightarrow> string js" where
  "createCoreTexEvaluatorCore deps =
     (if \<not> validatePerMinerCap (ed_perMinerCap deps) then Inl (JsError ''requires a finite perMinerCap'')
      else case ed_epochSecret deps of
        Some secret \<Rightarrow> if secret = [] then configured_commit deps else derived_commit deps secret
      | None \<Rightarrow> configured_commit deps)"

definition job_scorer :: "EvaluatorEnv \<Rightarrow> CortexState \<Rightarrow> int \<Rightarrow> PerPatchScorer" where
  "job_scorer env parent thresholdPpm bs _ evalSeed _ =
     chain_bind (ev_seedScorer env parent bs evalSeed thresholdPpm) (\<lambda>r.
     Inr \<lparr>sr_scorePpm = pe_deltaPpm r, sr_accepted = pe_accepted r, sr_rejectionReason = (if pe_reason r = Some [] then None else pe_reason r)\<rparr>)"

text \<open>What is decided from the store before a draw: a refusal, or the seed context to reuse, the admissions that the gate sees, and whether the draw is recorded.\<close>

datatype attempt_plan = Refuse string | Attempt "PerPatchSeedContext option" int bool

definition plan_attempt :: "'s CoreTexEvalDedupStore \<Rightarrow> CoreTexEvalDedupKey \<Rightarrow> string \<Rightarrow> PerPatchSeedContext option \<Rightarrow> 's \<Rightarrow> attempt_plan" where
  "plan_attempt ops key miner pinnedCtx st = (case pinnedCtx of
       Some ctx \<Rightarrow> Attempt (Some ctx) 0 False
     | None \<Rightarrow> (case op_get ops key st of
         Some prior \<Rightarrow> Refuse ''duplicate_submission''
       | None \<Rightarrow> (case op_getAttempt ops key st of
           Some a \<Rightarrow> if ar_minerAddress a \<noteq> miner then Refuse ''duplicate_in_flight'' else Attempt (Some (ar_seedContext a)) 0 False
         | None \<Rightarrow> Attempt None (op_minerAdmissions ops (dk_epochId key) miner st) True)))"

definition record_outcome :: "'s CoreTexEvalDedupStore \<Rightarrow> CoreTexEvalDedupKey \<Rightarrow> bool \<Rightarrow> eval_outcome \<Rightarrow> string option \<Rightarrow> 's \<Rightarrow> 's \<times> unit chain" where
  "record_outcome ops key pinnedCtx out code st =
     (if pinnedCtx then (st, Inr ())
      else case op_recordAttemptOutcome ops key (if out = OutReject then AttemptRejected else AttemptAccepted) out code st of
          Inl e \<Rightarrow> (st, Inl e)
        | Inr st' \<Rightarrow> (op_put ops \<lparr>dr_key = key, dr_outcome = out, dr_code = (if code = Some [] then None else code)\<rparr> st', Inr ()))"

fun js_le :: "js_number \<Rightarrow> js_number \<Rightarrow> bool" where
  "js_le NaN y = False"
| "js_le x NaN = False"
| "js_le NegInf y = True"
| "js_le x PosInf = True"
| "js_le PosInf y = False"
| "js_le x NegInf = False"
| "js_le (Fin a) (Fin b) = (a \<le> b)"

fun js_add :: "js_number \<Rightarrow> js_number \<Rightarrow> js_number" where
  "js_add (Fin a) (Fin b) = Fin (a + b)"
| "js_add NaN y = NaN"
| "js_add x NaN = NaN"
| "js_add PosInf NegInf = NaN"
| "js_add NegInf PosInf = NaN"
| "js_add PosInf y = PosInf"
| "js_add x PosInf = PosInf"
| "js_add NegInf y = NegInf"
| "js_add x NegInf = NegInf"

text \<open>\<open>BigInt(x)\<close> of a number.\<close>

definition number_to_big :: "js_number \<Rightarrow> bigint js" where
  "number_to_big x = (case x of Fin r \<Rightarrow> if r = of_int \<lfloor>r\<rfloor> then Inr \<lfloor>r\<rfloor> else Inl (RangeError ''cannot be converted to a BigInt'')
     | _ \<Rightarrow> Inl (RangeError ''cannot be converted to a BigInt''))"

text \<open>The results that the scorer left in \<open>perSeed\<close>: the scorer of a job answers the same for the same seed.\<close>

definition per_seed :: "EvaluatorEnv \<Rightarrow> CortexState \<Rightarrow> int \<Rightarrow> bytes \<Rightarrow> PerPatchReceipt \<Rightarrow> (string \<times> PatchEvalResult) list chain" where
  "per_seed env parent thresholdPpm bs dual =
     chain_bind (ev_seedScorer env parent bs (er_gateSeed dual) thresholdPpm) (\<lambda>g.
     chain_bind (ev_seedScorer env parent bs (er_confirmSeed dual) thresholdPpm) (\<lambda>c.
     Inr (AList.update (toLowerCase (er_confirmSeed dual)) c [(toLowerCase (er_gateSeed dual), g)])))"

definition chooseStateAdvanceScore :: "PerPatchReceipt \<Rightarrow> (string \<times> PatchEvalResult) list \<Rightarrow> PatchEvalResult chain" where
  "chooseStateAdvanceScore receipt perSeed =
     (case map_of perSeed (toLowerCase (if js_le (er_gateScorePpm receipt) (er_confirmScorePpm receipt) then er_gateSeed receipt else er_confirmSeed receipt)) of
        None \<Rightarrow> Inl (CoreFault (JsError ''production evaluator internal error: missing dual-pack score''))
      | Some chosen \<Rightarrow> Inr chosen)"

record EvalJob =
  jb_bytes :: bytes
  jb_patch :: Patch
  jb_thresholdPpm :: int
  jb_parent :: CortexState
  jb_key :: CoreTexEvalDedupKey
  jb_miner :: string
  jb_pinned :: "PerPatchSeedContext option"
  jb_targetBlockOffset :: int
  jb_injectedSeeds :: "(string \<times> string) option"

definition prepare_job :: "EvaluatorCoreDeps \<Rightarrow> EvaluatorEnv \<Rightarrow> ScoreInput \<Rightarrow> EvalJob chain" where
  "prepare_job deps env input =
     chain_bind (of_js (parseHex (si_patchBytesHex input))) (\<lambda>bs.
     chain_bind (of_js (decodePatch bs)) (\<lambda>patch.
     let thr = or_else (si_screenerThresholdPpm input) (ed_screenerThresholdPpm deps) in
     if \<not> safe_nonneg thr then Inl (CoreFault (JsError ''scorePatch: screenerThresholdPpm override must be a non-negative integer''))
     else chain_bind (case si_parentState input of Some s \<Rightarrow> Inr s | None \<Rightarrow> ev_parentStateLoader env (si_parentStateRoot input)) (\<lambda>parent.
     Inr \<lparr>jb_bytes = bs, jb_patch = patch, jb_thresholdPpm = thr, jb_parent = parent,
       jb_key = \<lparr>dk_epochId = ed_epochId deps, dk_parentStateRoot = toLowerCase (si_parentStateRoot input), dk_patchHash = toLowerCase (computePatchHash bs)\<rparr>,
       jb_miner = toLowerCase (si_miner input),
       jb_pinned = map_option (\<lambda>ctx. ctx\<lparr>sd_blockhash := toLowerCase (sd_blockhash ctx)\<rparr>) (si_seedContext input),
       jb_targetBlockOffset = or_else (si_targetBlockOffset input) (ed_targetBlockOffset deps), jb_injectedSeeds = si_injectedSeeds input\<rparr>)))"

definition job_request :: "EvalJob \<Rightarrow> PerPatchRequest" where
  "job_request job = \<lparr>rq_normalizedPatchBytes = jb_bytes job, rq_parentRoot = dk_parentStateRoot (jb_key job), rq_minerAddress = jb_miner job,
     rq_epochId = dk_epochId (jb_key job), rq_structurallyValid = True\<rparr>"

definition job_deps :: "EvaluatorCoreDeps \<Rightarrow> EvaluatorEnv \<Rightarrow> EvalJob \<Rightarrow> PerPatchSeedContext option \<Rightarrow> int \<Rightarrow> PerPatchEvaluatorDeps" where
  "job_deps deps env job ctx admissions = \<lparr>pd_rpcClient = ev_rpcClient env, pd_scorer = job_scorer env (jb_parent job) (jb_thresholdPpm job),
     pd_targetBlockOffset = jb_targetBlockOffset job, pd_thresholdPpm = jb_thresholdPpm job, pd_perMinerCap = ed_perMinerCap deps,
     pd_epochSecret = (if ed_epochSecret deps = Some [] then None else ed_epochSecret deps), pd_corpusRoot = ed_corpusRoot deps, pd_bundleHash = ed_bundleHash deps,
     pd_dedupCache = [], pd_minerAdmissions = [(jb_miner job, admissions)], pd_waitTimeoutMs = None, pd_seedContext = ctx, pd_injectedSeeds = jb_injectedSeeds job\<rparr>"

definition job_hook :: "'s CoreTexEvalDedupStore \<Rightarrow> EvalJob \<Rightarrow> bool \<Rightarrow> 's seed_hook option" where
  "job_hook ops job rec = (if rec then Some (\<lambda>ctx st. (op_recordSeedDrawnAndAdmission ops (jb_key job) ctx (jb_miner job) st, Inr ())) else None)"

definition job_payload :: "EvaluatorCoreDeps \<Rightarrow> string \<Rightarrow> EvalJob \<Rightarrow> PerPatchReceipt \<Rightarrow> bool \<Rightarrow> ArtifactPayload" where
  "job_payload deps commit job dual stateAdvance =
     \<lparr>af_version = ''coretex-post-reveal-eval-report-v1'', af_epochId = ed_epochId deps, af_minerAddress = jb_miner job,
      af_outcome = (if stateAdvance then ''STATE_ADVANCE'' else ''SCREENER_PASS''), af_compactPatchBytesHex = toLowerCase (bytesToHex (jb_bytes job)),
      af_thresholdPpm = jb_thresholdPpm job,
      af_seedDerivation = \<lparr>sv_mode = ''future_blockhash_dual_pack'', sv_epochId = ed_epochId deps, sv_receivedAtBlock = er_receivedAtBlock dual,
        sv_targetBlock = er_targetBlock dual, sv_targetBlockOffset = jb_targetBlockOffset job, sv_blockhash = toLowerCase (er_blockhash dual),
        sv_patchHash = dk_patchHash (jb_key job), sv_parentStateRoot = dk_parentStateRoot (jb_key job), sv_corpusRoot = toLowerCase (ed_corpusRoot deps),
        sv_bundleHash = toLowerCase (ed_bundleHash deps)\<rparr>,
      af_receipt = dual,
      af_context = \<lparr>ac_parentStateRoot = dk_parentStateRoot (jb_key job), ac_corpusRoot = toLowerCase (ed_corpusRoot deps),
        ac_coreVersionHash = toLowerCase (ed_bundleHash deps), ac_hiddenSeedCommit = commit, ac_replayTolerancePpm = ed_replayTolerancePpm deps\<rparr>\<rparr>"

text \<open>An accepted evaluation up to its record in the store: the artifact is built and published, then the proof and, for an advance, the rewritten patch.\<close>

definition accepted_result :: "EvaluatorCoreDeps \<Rightarrow> EvaluatorEnv \<Rightarrow> string \<Rightarrow> EvalJob \<Rightarrow> PerPatchReceipt \<Rightarrow> EvalAcceptedResult chain" where
  "accepted_result deps env commit job dual =
     chain_bind (per_seed env (jb_parent job) (jb_thresholdPpm job) (jb_bytes job) dual) (\<lambda>perSeed.
     chain_bind (chooseStateAdvanceScore dual perSeed) (\<lambda>chosen.
     let minDualDelta = js_min (er_gateScorePpm dual) (er_confirmScorePpm dual);
         stateAdvance = at_least minDualDelta (ed_stateThresholdPpm deps) \<and> pe_accepted chosen in
     chain_bind (of_js (buildPostRevealEvalReportArtifact (ev_fmt env) (job_payload deps commit job dual stateAdvance))) (\<lambda>artifact.
     chain_bind (ev_publishArtifact env artifact) (\<lambda>_.
     chain_bind (of_js (dualPackProofFromPerPatchReceipt dual \<lparr>px_corpusRoot = ed_corpusRoot deps, px_coreVersionHash = ed_bundleHash deps,
       px_hiddenSeedCommit = commit, px_targetBlockOffset = jb_targetBlockOffset job\<rparr>)) (\<lambda>proof.
     let acc = \<lparr>ea_deterministicDeltaPpm = minDualDelta, ea_evalReportHash = af_evalReportHash artifact, ea_artifactHash = af_artifactHash artifact,
           ea_evaluationProof = Some proof\<rparr> in
     if stateAdvance then
       chain_bind (of_js (number_to_big minDualDelta)) (\<lambda>delta.
       chain_bind (of_js (encodePatch ((jb_patch job)\<lparr>scoreDelta := delta\<rparr>))) (\<lambda>rewritten.
       Inr \<lparr>pa_accepted = acc, pa_scores = Some \<lparr>sx_scoreBeforePpm = pe_beforePpm chosen, sx_scoreAfterPpm = js_add (pe_beforePpm chosen) minDualDelta,
         sx_rewrittenPatchBytesHex = bytesToHex rewritten\<rparr>, pa_artifact = artifact\<rparr>))
     else Inr \<lparr>pa_accepted = acc, pa_scores = None, pa_artifact = artifact\<rparr>)))))"

definition settle_dual :: "'s CoreTexEvalDedupStore \<Rightarrow> EvaluatorCoreDeps \<Rightarrow> EvaluatorEnv \<Rightarrow> string \<Rightarrow> EvalJob \<Rightarrow> PerPatchReceipt \<Rightarrow> 's \<Rightarrow> 's \<times> ProductionEvalResult chain" where
  "settle_dual ops deps env commit job dual st =
     (let drewPacks = er_receivedAtBlock dual > 0; offset = er_targetBlock dual - er_receivedAtBlock dual; pinnedCtx = jb_pinned job \<noteq> None in
      if drewPacks \<and> (offset \<le> 0 \<or> offset \<noteq> jb_targetBlockOffset job) then (st, Inl (CoreFault (JsError ''targetBlockOffset mismatch'')))
      else if \<not> er_accepted dual then
        let code = or_else (er_rejectionReason dual) ''no_retrieval_improvement'';
            (st', r) = (if drewPacks then record_outcome ops (jb_key job) pinnedCtx OutReject (Some code) st else (st, Inr ()))
        in (st', chain_bind r (\<lambda>_. Inr (ProdReject code (er_innerRejectionReason dual))))
      else case accepted_result deps env commit job dual of
          Inl e \<Rightarrow> (st, Inl e)
        | Inr res \<Rightarrow>
            let (st', r) = record_outcome ops (jb_key job) pinnedCtx (if pa_scores res = None then OutScreenerPass else OutStateAdvance) None st
            in (st', chain_bind r (\<lambda>_. Inr (ProdAccepted res))))"

text \<open>One call up to the receipt: \<open>Inl\<close> is a refusal before any draw. Calls do not overlap: the coordinator runs them one at a time in its queue.\<close>

definition evaluate_job :: "'s CoreTexEvalDedupStore \<Rightarrow> EvaluatorCoreDeps \<Rightarrow> EvaluatorEnv \<Rightarrow> EvalJob \<Rightarrow> 's \<Rightarrow> 's \<times> (string + PerPatchReceipt) chain" where
  "evaluate_job ops deps env job st = (case plan_attempt ops (jb_key job) (jb_miner job) (jb_pinned job) st of
       Refuse code \<Rightarrow> (st, Inr (Inl code))
     | Attempt ctx admissions rec \<Rightarrow>
         if jb_targetBlockOffset job \<le> 0 \<or> 2 ^ 53 - 1 < jb_targetBlockOffset job then (st, Inl (CoreFault (JsError ''targetBlockOffset must be a positive integer'')))
         else (case runPerPatchEvaluation (job_request job) (job_deps deps env job ctx admissions) (job_hook ops job rec) st of
             (st', Inl e) \<Rightarrow> (st', Inl e)
           | (st', Inr dual) \<Rightarrow> (st', Inr (Inr dual))))"

definition scorePatch :: "'s CoreTexEvalDedupStore \<Rightarrow> EvaluatorCoreDeps \<Rightarrow> EvaluatorEnv \<Rightarrow> string \<Rightarrow> ScoreInput \<Rightarrow> 's \<Rightarrow> 's \<times> ProductionEvalResult chain" where
  "scorePatch ops deps env commit input st = (case prepare_job deps env input of
       Inl e \<Rightarrow> (st, Inl e)
     | Inr job \<Rightarrow> (case evaluate_job ops deps env job st of
         (st', Inl e) \<Rightarrow> (st', Inl e)
       | (st', Inr (Inl code)) \<Rightarrow> (st', Inr (ProdReject code None))
       | (st', Inr (Inr dual)) \<Rightarrow> settle_dual ops deps env commit job dual st'))"

end
