(* ===== verification/Grinding.thy ===== *)
theory Grinding
  imports Evaluator
begin

text \<open>
  Grinding: a miner who resubmits a patch, or whose evaluations crash, gets no second draw. The laws of the dedup store that the evaluator of
  \<open>coordinator/production-evaluator.ts\<close> relies on are the locale \<open>dedup_store\<close>, proved for the in-memory store of the source; the theorems
  are about every history of calls, with crashes at the places where the store has been written and nothing else has happened yet.
\<close>

section \<open>The contract of the store\<close>

locale dedup_store =
  fixes ops :: "'s CoreTexEvalDedupStore" and slot :: "CoreTexEvalDedupKey \<Rightarrow> 'k"
  assumes get_put: "op_get ops k (op_put ops r s) = (if slot k = slot (dr_key r) then Some r else op_get ops k s)"
    and attempt_put: "op_getAttempt ops k (op_put ops r s) = op_getAttempt ops k s"
    and admissions_put: "op_minerAdmissions ops e m (op_put ops r s) = op_minerAdmissions ops e m s"
    and get_draw: "op_get ops k (op_recordSeedDrawnAndAdmission ops k' ctx m s) = op_get ops k s"
    and attempt_draw: "op_getAttempt ops k (op_recordSeedDrawnAndAdmission ops k' ctx m s)
      = (if slot k = slot k' \<and> op_getAttempt ops k s = None then Some (new_attempt k' ctx m) else op_getAttempt ops k s)"
    and admissions_draw: "op_minerAdmissions ops e m (op_recordSeedDrawnAndAdmission ops k ctx m' s)
      = op_minerAdmissions ops e m s + (if op_getAttempt ops k s = None \<and> charged_to e (toLowerCase m) (new_attempt k ctx m') then 1 else 0)"
    and outcome_needs_attempt: "op_recordAttemptOutcome ops k state out code s = Inr s' \<Longrightarrow> op_getAttempt ops k s \<noteq> None"
    and get_outcome: "op_recordAttemptOutcome ops k' state out code s = Inr s' \<Longrightarrow> op_get ops k s' = op_get ops k s"
    and attempt_outcome: "op_recordAttemptOutcome ops k' state out code s = Inr s' \<Longrightarrow>
      op_getAttempt ops k s' = (if slot k = slot k' then map_option (settled state out code) (op_getAttempt ops k s) else op_getAttempt ops k s)"
    and admissions_outcome: "op_recordAttemptOutcome ops k state out code s = Inr s' \<Longrightarrow> op_minerAdmissions ops e m s' = op_minerAdmissions ops e m s"
    and get_slot: "slot k = slot k' \<Longrightarrow> op_get ops k s = op_get ops k' s"
    and admissions_lower: "op_minerAdmissions ops e (toLowerCase m) s = op_minerAdmissions ops e m s"
    and admissions_counted: "finite S \<Longrightarrow> (\<And>x. x \<in> S \<Longrightarrow> \<exists>k a. slot k = x \<and> op_getAttempt ops k s = Some a \<and> charged_to e m a) \<Longrightarrow>
      toLowerCase m = m \<Longrightarrow> int (card S) \<le> op_minerAdmissions ops e m s"

text \<open>A later store: every pinned seed and its miner are kept, and so is every recorded outcome.\<close>

definition keeps_pins :: "'s CoreTexEvalDedupStore \<Rightarrow> 's \<Rightarrow> 's \<Rightarrow> bool" where
  "keeps_pins ops s s' \<longleftrightarrow> (\<forall>k a. op_getAttempt ops k s = Some a \<longrightarrow>
     (\<exists>b. op_getAttempt ops k s' = Some b \<and> ar_seedContext b = ar_seedContext a \<and> ar_minerAddress b = ar_minerAddress a \<and>
       (\<forall>e m. charged_to e m b = charged_to e m a))) \<and>
     (\<forall>k. op_get ops k s \<noteq> None \<longrightarrow> op_get ops k s' \<noteq> None)"

lemma keeps_pins_refl [simp]: "keeps_pins ops s s"
  by (simp add: keeps_pins_def)

lemma keeps_pins_trans: "keeps_pins ops s t \<Longrightarrow> keeps_pins ops t u \<Longrightarrow> keeps_pins ops s u"
  unfolding keeps_pins_def by metis

lemma settled_keeps [simp]:
  "ar_seedContext (settled state out code a) = ar_seedContext a" "ar_minerAddress (settled state out code a) = ar_minerAddress a"
  "ar_key (settled state out code a) = ar_key a" "ar_admissionCharged (settled state out code a) = ar_admissionCharged a"
  by (simp_all add: settled_def)

lemma charged_settled [simp]: "charged_to e m (settled state out code a) = charged_to e m a"
  by (simp add: charged_to_def)

context dedup_store
begin

lemma draw_keeps: "keeps_pins ops s (op_recordSeedDrawnAndAdmission ops k ctx m s)"
  by (simp add: keeps_pins_def attempt_draw get_draw)

lemma put_keeps: "keeps_pins ops s (op_put ops r s)"
  by (simp add: keeps_pins_def attempt_put get_put)

lemma outcome_keeps: "op_recordAttemptOutcome ops k state out code s = Inr s' \<Longrightarrow> keeps_pins ops s s'"
  by (simp add: keeps_pins_def attempt_outcome get_outcome)

end

subsection \<open>The in-memory store keeps it\<close>

lemma alist_update_fresh: "k \<notin> fst ` set al \<Longrightarrow> AList.update k v al = al @ [(k, v)]"
  by (induction al) auto

lemma count_settle:
  assumes "map_of al k = Some a" "P (f a) = P a"
  shows "length (filter (P \<circ> snd) (AList.update k (f a) al)) = length (filter (P \<circ> snd) al)"
  using assms by (induction al) (auto split: if_splits)

lemma count_keys: "card {k. \<exists>a. map_of al k = Some a \<and> P a} \<le> length (filter (P \<circ> snd) al)"
proof -
  have "{k. \<exists>a. map_of al k = Some a \<and> P a} \<subseteq> fst ` set (filter (P \<circ> snd) al)" by (force dest: map_of_SomeD)
  then have "card {k. \<exists>a. map_of al k = Some a \<and> P a} \<le> card (fst ` set (filter (P \<circ> snd) al))" by (intro card_mono) auto
  also have "\<dots> \<le> card (set (filter (P \<circ> snd) al))" by (rule card_image_le) simp
  also have "\<dots> \<le> length (filter (P \<circ> snd) al)" by (rule card_length)
  finally show ?thesis .
qed

lemmas memory_ops = createInMemoryDedupStore_def mem_minerAdmissions_def mem_recordSeedDrawnAndAdmission_def mem_recordAttemptOutcome_def update_conv'

interpretation memory: dedup_store createInMemoryDedupStore recordKey
proof unfold_locales
  fix e k ctx and m m' :: string and s
  show "op_minerAdmissions createInMemoryDedupStore e m (op_recordSeedDrawnAndAdmission createInMemoryDedupStore k ctx m' s)
      = op_minerAdmissions createInMemoryDedupStore e m s
        + (if op_getAttempt createInMemoryDedupStore k s = None \<and> charged_to e (toLowerCase m) (new_attempt k ctx m') then 1 else 0)"
    by (auto simp: memory_ops alist_update_fresh map_of_eq_None_iff)
next
  fix e k state out code and m :: string and s s'
  assume "op_recordAttemptOutcome createInMemoryDedupStore k state out code s = Inr s'"
  then show "op_minerAdmissions createInMemoryDedupStore e m s' = op_minerAdmissions createInMemoryDedupStore e m s"
    by (auto simp: memory_ops count_settle split: option.splits)
next
  fix S :: "string set" and s e m
  assume S: "finite S" "\<And>x. x \<in> S \<Longrightarrow> \<exists>k a. recordKey k = x \<and> op_getAttempt createInMemoryDedupStore k s = Some a \<and> charged_to e m a" "toLowerCase m = m"
  let ?K = "{k. \<exists>a. map_of (ms_attempts s) k = Some a \<and> charged_to e m a}"
  have fin: "finite ?K" using finite_dom_map_of [of "ms_attempts s"] by (rule rev_finite_subset) auto
  have "S \<subseteq> ?K" using S(2) by (fastforce simp: createInMemoryDedupStore_def)
  then have "card S \<le> card ?K" using fin by (rule card_mono [rotated])
  also have "\<dots> \<le> length (filter (charged_to e m \<circ> snd) (ms_attempts s))" by (rule count_keys)
  finally show "int (card S) \<le> op_minerAdmissions createInMemoryDedupStore e m s" using S(3) by (simp add: memory_ops)
qed (auto simp: memory_ops split: option.splits if_splits)

section \<open>One call\<close>

lemma prepared_job:
  assumes "prepare_job deps env input = Inr job"
  shows "jb_miner job = toLowerCase (si_miner input)" "toLowerCase (jb_miner job) = jb_miner job" "jb_pinned job = None \<longleftrightarrow> si_seedContext input = None"
    "jb_injectedSeeds job = si_injectedSeeds input" "dk_patchHash (jb_key job) = computePatchHash (jb_bytes job)" "dk_epochId (jb_key job) = ed_epochId deps"
    "toLowerCase (dk_parentStateRoot (jb_key job)) = dk_parentStateRoot (jb_key job)" "safe_nonneg (jb_thresholdPpm job)"
  using assms by (auto simp: prepare_job_def chain_bind_Inr Let_def split: if_splits)

lemma run_effect:
  assumes "runPerPatchEvaluation request deps hook st = (st', res)"
  shows "st' = st \<or> (\<exists>h ctx key. hook = Some h \<and> draw_seed deps = Inr ctx \<and> st' = fst (h ctx st) \<and>
      admission request deps (computePatchHash (rq_normalizedPatchBytes request)) key = None)"
    and "res = Inr r \<Longrightarrow> evaluated request deps r ctx \<Longrightarrow> pd_dedupCache deps = [] \<Longrightarrow> st' = (case hook of None \<Rightarrow> st | Some h \<Rightarrow> fst (h ctx st))"
  using assms by (auto simp: runPerPatchEvaluation_def evaluated_def Let_def split: sum.splits option.splits prod.splits)

lemma admission_cap:
  "admission (job_request job) (job_deps deps env job ctx n) h key = None \<Longrightarrow> toLowerCase (jb_miner job) = jb_miner job \<Longrightarrow> n < ed_perMinerCap deps"
  by (auto simp: admission_def liveEvalAdmissionDecision_def job_request_def job_deps_def or_else_def Let_def split: if_splits)

definition drew_packs :: "PerPatchReceipt \<Rightarrow> bool" where
  "drew_packs r \<longleftrightarrow> er_receivedAtBlock r > 0"

definition receipt_context :: "PerPatchReceipt \<Rightarrow> PerPatchSeedContext" where
  "receipt_context r = \<lparr>sd_receivedAtBlock = er_receivedAtBlock r, sd_targetBlock = er_targetBlock r, sd_blockhash = toLowerCase (er_blockhash r)\<rparr>"

definition low_ctx :: "PerPatchSeedContext \<Rightarrow> PerPatchSeedContext" where
  "low_ctx ctx = ctx\<lparr>sd_blockhash := toLowerCase (sd_blockhash ctx)\<rparr>"

lemma low_ctx_new [simp]: "low_ctx (ar_seedContext (new_attempt k ctx m)) = low_ctx ctx"
  by (simp add: low_ctx_def new_attempt_def)

lemma evaluated_context: "evaluated request deps r ctx \<Longrightarrow> receipt_context r = low_ctx ctx"
  by (cases ctx) (simp add: receipt_context_def low_ctx_def evaluatedD)

lemma evaluated_miner: "evaluated request deps r ctx \<Longrightarrow> er_minerAddress r = toLowerCase (rq_minerAddress request)"
  by (auto simp: evaluated_def score_packs_Inr)

text \<open>A call without pinned seeds: either it leaves the store alone, or it is the first draw of its key, charged below the cap. A receipt with drawn packs
  used the seed that is on record afterwards, for the miner on record.\<close>

definition on_record :: "'s CoreTexEvalDedupStore \<Rightarrow> 's \<Rightarrow> CoreTexEvalDedupKey \<Rightarrow> PerPatchReceipt \<Rightarrow> bool" where
  "on_record ops st k r \<longleftrightarrow> (\<exists>a. op_getAttempt ops k st = Some a \<and> ar_minerAddress a = er_minerAddress r \<and> low_ctx (ar_seedContext a) = receipt_context r)"

lemma on_record_mono: "on_record ops s k r \<Longrightarrow> keeps_pins ops s t \<Longrightarrow> on_record ops t k r"
  unfolding on_record_def keeps_pins_def by metis

definition first_draw :: "'s CoreTexEvalDedupStore \<Rightarrow> EvaluatorCoreDeps \<Rightarrow> EvalJob \<Rightarrow> 's \<Rightarrow> 's \<Rightarrow> bool" where
  "first_draw ops deps job s s' \<longleftrightarrow> (\<exists>ctx. s' = op_recordSeedDrawnAndAdmission ops (jb_key job) ctx (jb_miner job) s \<and> op_getAttempt ops (jb_key job) s = None \<and>
     op_minerAdmissions ops (dk_epochId (jb_key job)) (jb_miner job) s < ed_perMinerCap deps)"

lemma plan_unpinned:
  assumes "plan_attempt ops key miner None st = Attempt ctx n rec"
  shows "op_get ops key st = None"
    "rec \<and> ctx = None \<and> op_getAttempt ops key st = None \<and> n = op_minerAdmissions ops (dk_epochId key) miner st \<or>
     \<not> rec \<and> (\<exists>a. op_getAttempt ops key st = Some a \<and> ar_minerAddress a = miner \<and> ctx = Some (ar_seedContext a))"
  using assms by (auto simp: plan_attempt_def split: option.splits if_splits)

lemma evaluate_job_run:
  assumes "evaluate_job ops deps env job st = (st', res)" "jb_pinned job = None"
  shows "st' = st \<and> (\<forall>r. res \<noteq> Inr (Inr r)) \<or> (\<exists>ctx n rec res'. plan_attempt ops (jb_key job) (jb_miner job) None st = Attempt ctx n rec \<and>
    runPerPatchEvaluation (job_request job) (job_deps deps env job ctx n) (job_hook ops job rec) st = (st', res') \<and> (\<forall>r. res = Inr (Inr r) \<longrightarrow> res' = Inr r))"
  using assms by (auto simp: evaluate_job_def split: attempt_plan.splits if_splits prod.splits sum.splits)

lemma job_deps_simps [simp]:
  "pd_dedupCache (job_deps deps env job ctx n) = []" "pd_seedContext (job_deps deps env job ctx n) = ctx" "pd_injectedSeeds (job_deps deps env job ctx n) = jb_injectedSeeds job"
  "pd_epochSecret (job_deps deps env job ctx n) = (if ed_epochSecret deps = Some [] then None else ed_epochSecret deps)"
  "pd_corpusRoot (job_deps deps env job ctx n) = ed_corpusRoot deps" "pd_bundleHash (job_deps deps env job ctx n) = ed_bundleHash deps"
  "pd_scorer (job_deps deps env job ctx n) = job_scorer env (jb_parent job) (jb_thresholdPpm job)" "pd_thresholdPpm (job_deps deps env job ctx n) = jb_thresholdPpm job"
  "pd_targetBlockOffset (job_deps deps env job ctx n) = jb_targetBlockOffset job" "pd_rpcClient (job_deps deps env job ctx n) = ev_rpcClient env"
  by (simp_all add: job_deps_def)

lemma job_request_simps [simp]:
  "rq_normalizedPatchBytes (job_request job) = jb_bytes job" "rq_parentRoot (job_request job) = dk_parentStateRoot (jb_key job)"
  "rq_minerAddress (job_request job) = jb_miner job" "rq_epochId (job_request job) = dk_epochId (jb_key job)" "rq_structurallyValid (job_request job)"
  by (simp_all add: job_request_def)

context dedup_store
begin

lemma evaluate_job_store:
  assumes "evaluate_job ops deps env job st = (st', res)" "jb_pinned job = None" "toLowerCase (jb_miner job) = jb_miner job"
  shows "st' = st \<or> first_draw ops deps job st st'"
proof -
  consider "st' = st" | ctx n rec res' where "plan_attempt ops (jb_key job) (jb_miner job) None st = Attempt ctx n rec"
      "runPerPatchEvaluation (job_request job) (job_deps deps env job ctx n) (job_hook ops job rec) st = (st', res')"
    using evaluate_job_run [OF assms(1,2)] by blast
  then show ?thesis
  proof cases
    case 2
    note pl = plan_unpinned [OF 2(1)]
    from run_effect(1) [OF 2(2)] show ?thesis
    proof
      assume "\<exists>h c key. job_hook ops job rec = Some h \<and> draw_seed (job_deps deps env job ctx n) = Inr c \<and> st' = fst (h c st) \<and>
        admission (job_request job) (job_deps deps env job ctx n) (computePatchHash (rq_normalizedPatchBytes (job_request job))) key = None"
      then obtain h c key where h: "job_hook ops job rec = Some h" "st' = fst (h c st)"
          "admission (job_request job) (job_deps deps env job ctx n) (computePatchHash (rq_normalizedPatchBytes (job_request job))) key = None" by blast
      have "rec" "st' = op_recordSeedDrawnAndAdmission ops (jb_key job) c (jb_miner job) st" using h(1,2) by (auto simp: job_hook_def split: if_splits)
      then show ?thesis using pl(2) admission_cap [OF h(3) assms(3)] by (auto simp: first_draw_def)
    qed simp
  qed simp
qed

lemma evaluate_job_receipt:
  assumes "evaluate_job ops deps env job st = (st', Inr (Inr r))" "jb_pinned job = None" "toLowerCase (jb_miner job) = jb_miner job" "drew_packs r"
  shows "on_record ops st' (jb_key job) r" "\<exists>ctx n c. evaluated (job_request job) (job_deps deps env job ctx n) r c"
proof -
  obtain ctx n rec where p: "plan_attempt ops (jb_key job) (jb_miner job) None st = Attempt ctx n rec"
      "runPerPatchEvaluation (job_request job) (job_deps deps env job ctx n) (job_hook ops job rec) st = (st', Inr r)"
    using evaluate_job_run [OF assms(1,2)] by blast
  obtain c where ev: "evaluated (job_request job) (job_deps deps env job ctx n) r c"
    using run_Inr [OF p(2)] assms(4) by (auto simp: drew_packs_def)
  have m: "er_minerAddress r = jb_miner job" using evaluated_miner [OF ev] assms(3) by simp
  have st': "st' = (case job_hook ops job rec of None \<Rightarrow> st | Some h \<Rightarrow> fst (h c st))" using run_effect(2) [OF p(2) _ ev] by simp
  from plan_unpinned(2) [OF p(1)] show "on_record ops st' (jb_key job) r"
  proof
    assume "rec \<and> ctx = None \<and> op_getAttempt ops (jb_key job) st = None \<and> n = op_minerAdmissions ops (dk_epochId (jb_key job)) (jb_miner job) st"
    then have "op_getAttempt ops (jb_key job) st' = Some (new_attempt (jb_key job) c (jb_miner job))" using st' by (simp add: job_hook_def attempt_draw)
    then show ?thesis using m evaluated_context [OF ev] assms(3) by (simp add: on_record_def) (simp add: new_attempt_def)
  next
    assume "\<not> rec \<and> (\<exists>a. op_getAttempt ops (jb_key job) st = Some a \<and> ar_minerAddress a = jb_miner job \<and> ctx = Some (ar_seedContext a))"
    then obtain a where a: "\<not> rec" "op_getAttempt ops (jb_key job) st = Some a" "ar_minerAddress a = jb_miner job" "ctx = Some (ar_seedContext a)" by blast
    have "st' = st" using st' a(1) by (simp add: job_hook_def)
    moreover have "c = ar_seedContext a" using ev a(4) by (simp add: evaluated_def draw_seed_def)
    ultimately show ?thesis using a m evaluated_context [OF ev] by (simp add: on_record_def)
  qed
  show "\<exists>ctx n c. evaluated (job_request job) (job_deps deps env job ctx n) r c" using ev by blast
qed

end

section \<open>Histories\<close>

datatype eval_event = Scored CoreTexEvalDedupKey PerPatchReceipt | Credited CoreTexEvalDedupKey

definition scored :: "EvalJob \<Rightarrow> (string + PerPatchReceipt) chain \<Rightarrow> eval_event list" where
  "scored job res = (case res of Inr (Inr r) \<Rightarrow> if drew_packs r then [Scored (jb_key job) r] else [] | _ \<Rightarrow> [])"

definition credited :: "EvalJob \<Rightarrow> ProductionEvalResult chain \<Rightarrow> eval_event list" where
  "credited job out = (case out of Inr (ProdAccepted _) \<Rightarrow> [Credited (jb_key job)] | _ \<Rightarrow> [])"

text \<open>Calls of the coordinator one after the other, newest event first. The services behind each call are arbitrary, and any of them may throw; the
  process may also die after the packs have been scored, or between the two writes that record an outcome.\<close>

inductive evaluations :: "'s CoreTexEvalDedupStore \<Rightarrow> EvaluatorCoreDeps \<Rightarrow> string \<Rightarrow> 's \<Rightarrow> eval_event list \<Rightarrow> 's \<Rightarrow> bool" for ops deps commit st0 where
  start: "evaluations ops deps commit st0 [] st0"
| call: "evaluations ops deps commit st0 es st \<Longrightarrow> prepare_job deps env input = Inr job \<Longrightarrow> si_seedContext input = None \<Longrightarrow> si_injectedSeeds input = None \<Longrightarrow>
    evaluate_job ops deps env job st = (st1, res) \<Longrightarrow> scorePatch ops deps env commit input st = (st2, out) \<Longrightarrow>
    evaluations ops deps commit st0 (credited job out @ scored job res @ es) st2"
| crash_scored: "evaluations ops deps commit st0 es st \<Longrightarrow> prepare_job deps env input = Inr job \<Longrightarrow> si_seedContext input = None \<Longrightarrow> si_injectedSeeds input = None \<Longrightarrow>
    evaluate_job ops deps env job st = (st1, res) \<Longrightarrow> evaluations ops deps commit st0 (scored job res @ es) st1"
| crash_recording: "evaluations ops deps commit st0 es st \<Longrightarrow> prepare_job deps env input = Inr job \<Longrightarrow> si_seedContext input = None \<Longrightarrow>
    si_injectedSeeds input = None \<Longrightarrow> evaluate_job ops deps env job st = (st1, res) \<Longrightarrow>
    op_recordAttemptOutcome ops (jb_key job) state outcome code st1 = Inr st2 \<Longrightarrow> evaluations ops deps commit st0 (scored job res @ es) st2"

lemma settle_store:
  assumes "settle_dual ops deps env commit job dual st = (st', out)" "jb_pinned job = None"
  shows "st' = st \<and> (\<forall>res. out \<noteq> Inr (ProdAccepted res)) \<or>
    (\<exists>state oc code s r. op_recordAttemptOutcome ops (jb_key job) state oc code st = Inr s \<and> st' = op_put ops r s \<and> dr_key r = jb_key job)"
  using assms unfolding settle_dual_def record_outcome_def Let_def
  by (auto simp: chain_bind_def split: if_splits sum.splits prod.splits) (metis CoreTexEvalDedupRecord.select_convs(1))+

text \<open>What one step of a history does to the store.\<close>

definition step_of :: "'s CoreTexEvalDedupStore \<Rightarrow> EvaluatorCoreDeps \<Rightarrow> EvalJob \<Rightarrow> 's \<Rightarrow> 's \<Rightarrow> bool" where
  "step_of ops deps job st st' \<longleftrightarrow> (\<exists>st1. (st1 = st \<or> first_draw ops deps job st st1) \<and>
     (st' = st1 \<or> (\<exists>state oc code s. op_recordAttemptOutcome ops (jb_key job) state oc code st1 = Inr s \<and> (st' = s \<or> (\<exists>r. st' = op_put ops r s)))))"

definition seeds_derived :: "EvaluatorCoreDeps \<Rightarrow> CoreTexEvalDedupKey \<Rightarrow> PerPatchReceipt \<Rightarrow> bool" where
  "seeds_derived deps k r \<longleftrightarrow> (\<exists>secret. ed_epochSecret deps = Some secret \<and>
     (let input = seed_input secret (er_blockhash r) (dk_epochId k) (dk_patchHash k) (dk_parentStateRoot k) (ed_corpusRoot deps) (ed_bundleHash deps)
      in deriveGateEvalSeed input = Inr (er_gateSeed r) \<and> deriveConfirmEvalSeed input = Inr (er_confirmSeed r)))"

lemma derived_unique:
  assumes "seeds_derived deps k r" "seeds_derived deps k s" "hexEqual (er_blockhash r) (er_blockhash s)"
  shows "er_gateSeed r = er_gateSeed s \<and> er_confirmSeed r = er_confirmSeed s"
  using assms seeds_ci unfolding seeds_derived_def Let_def deriveGateEvalSeed_def deriveConfirmEvalSeed_def by (metis hexEqual_refl option.inject)

lemma evaluated_derived:
  assumes "evaluated (job_request job) (job_deps deps env job ctx n) r c" "jb_injectedSeeds job = None" "dk_patchHash (jb_key job) = computePatchHash (jb_bytes job)"
  shows "seeds_derived deps (jb_key job) r"
  using assms evaluatedD(6) [OF assms(1)]
  by (auto simp: evaluated_def derive_seeds_def seeds_derived_def Let_def chain_bind_Inr split: if_splits option.splits)

text \<open>The events of a history are on record.\<close>

definition events_kept :: "'s CoreTexEvalDedupStore \<Rightarrow> EvaluatorCoreDeps \<Rightarrow> eval_event list \<Rightarrow> 's \<Rightarrow> bool" where
  "events_kept ops deps es st \<longleftrightarrow> (\<forall>k r. Scored k r \<in> set es \<longrightarrow> on_record ops st k r \<and> seeds_derived deps k r \<and> dk_epochId k = ed_epochId deps) \<and>
     (\<forall>k. Credited k \<in> set es \<longrightarrow> op_get ops k st \<noteq> None)"

fun credits :: "eval_event list \<Rightarrow> CoreTexEvalDedupKey list" where
  "credits [] = []"
| "credits (Credited k # es) = k # credits es"
| "credits (Scored k r # es) = credits es"

lemma credits_append [simp]: "credits (es @ fs) = credits es @ credits fs"
  by (induction es rule: credits.induct) simp_all

lemma credits_scored [simp]: "credits (scored job res) = []"
  by (simp add: scored_def split: sum.splits)

lemma in_credits: "k \<in> set (credits es) \<longleftrightarrow> Credited k \<in> set es"
  by (induction es rule: credits.induct) auto

definition charges_kept :: "'s CoreTexEvalDedupStore \<Rightarrow> EvaluatorCoreDeps \<Rightarrow> 's \<Rightarrow> bool" where
  "charges_kept ops deps st \<longleftrightarrow> (\<forall>m. op_minerAdmissions ops (ed_epochId deps) m st \<le> ed_perMinerCap deps) \<and>
     (\<forall>k a. op_getAttempt ops k st = Some a \<longrightarrow> charged_to (ed_epochId deps) (ar_minerAddress a) a \<and> toLowerCase (ar_minerAddress a) = ar_minerAddress a)"

context dedup_store
begin

lemma first_draw_keeps: "first_draw ops deps job st st' \<Longrightarrow> keeps_pins ops st st'"
  by (auto simp: first_draw_def draw_keeps)

lemma step_keeps: "step_of ops deps job st st' \<Longrightarrow> keeps_pins ops st st'"
  unfolding step_of_def by (metis first_draw_keeps keeps_pins_refl keeps_pins_trans outcome_keeps put_keeps)

lemma scorePatch_effect:
  assumes "prepare_job deps env input = Inr job" "si_seedContext input = None" "evaluate_job ops deps env job st = (st1, res)"
    "scorePatch ops deps env commit input st = (st2, out)"
  shows "step_of ops deps job st st2 \<and> keeps_pins ops st1 st2 \<and>
    (\<forall>a. out = Inr (ProdAccepted a) \<longrightarrow> op_get ops (jb_key job) st = None \<and> op_get ops (jb_key job) st2 \<noteq> None)"
proof -
  note j = prepared_job [OF assms(1)]
  have pin: "jb_pinned job = None" using j(3) assms(2) by simp
  have st1: "st1 = st \<or> first_draw ops deps job st st1" using evaluate_job_store [OF assms(3) pin j(2)] .
  show ?thesis
  proof (cases "\<exists>dual. res = Inr (Inr dual)")
    case True
    then obtain dual where dual: "res = Inr (Inr dual)" by blast
    obtain ctx n rec where "plan_attempt ops (jb_key job) (jb_miner job) None st = Attempt ctx n rec"
      using evaluate_job_run [OF assms(3) pin] dual by auto
    then have none: "op_get ops (jb_key job) st = None" by (rule plan_unpinned(1))
    have s: "settle_dual ops deps env commit job dual st1 = (st2, out)" using assms(1,3,4) dual by (simp add: scorePatch_def)
    from settle_store [OF s pin] show ?thesis
    proof
      assume "\<exists>state oc code s r. op_recordAttemptOutcome ops (jb_key job) state oc code st1 = Inr s \<and> st2 = op_put ops r s \<and> dr_key r = jb_key job"
      then obtain state oc code s r where w: "op_recordAttemptOutcome ops (jb_key job) state oc code st1 = Inr s" "st2 = op_put ops r s" "dr_key r = jb_key job" by blast
      have "keeps_pins ops st1 st2" using keeps_pins_trans [OF outcome_keeps [OF w(1)] put_keeps] w(2) by simp
      moreover have "step_of ops deps job st st2" using st1 w(1,2) unfolding step_of_def by blast
      ultimately show ?thesis using w(2,3) none by (simp add: get_put)
    qed (use st1 in \<open>auto simp: step_of_def\<close>)
  next
    case False
    then have "st2 = st1 \<and> (\<forall>a. out \<noteq> Inr (ProdAccepted a))"
      using assms(1,3,4) by (cases res) (auto simp: scorePatch_def split: sum.splits)
    then show ?thesis using st1 by (auto simp: step_of_def)
  qed
qed

lemmas scorePatch_step = scorePatch_effect [THEN conjunct1] and scorePatch_keeps = scorePatch_effect [THEN conjunct2, THEN conjunct1]
  and scorePatch_credits = scorePatch_effect [THEN conjunct2, THEN conjunct2, rule_format]

lemma events_mono: "events_kept ops deps es st \<Longrightarrow> keeps_pins ops st st' \<Longrightarrow> events_kept ops deps es st'"
  unfolding events_kept_def using on_record_mono by (metis keeps_pins_def)

lemma events_scored:
  assumes "events_kept ops deps es st" "prepare_job deps env input = Inr job" "si_seedContext input = None" "si_injectedSeeds input = None"
    "evaluate_job ops deps env job st = (st1, res)"
  shows "events_kept ops deps (scored job res @ es) st1"
proof -
  note j = prepared_job [OF assms(2)]
  have pin: "jb_pinned job = None" using j(3) assms(3) by simp
  have "keeps_pins ops st st1" using evaluate_job_store [OF assms(5) pin j(2)] first_draw_keeps by auto
  then have old: "events_kept ops deps es st1" using assms(1) events_mono by blast
  have "on_record ops st1 (jb_key job) r \<and> seeds_derived deps (jb_key job) r" if r: "res = Inr (Inr r)" "drew_packs r" for r
    using evaluate_job_receipt [OF assms(5) [unfolded r(1)] pin j(2) r(2)] evaluated_derived j(4,5) assms(4) by metis
  then show ?thesis using old j(6) by (auto simp: events_kept_def scored_def split: sum.splits if_splits)
qed

lemma history_kept: "evaluations ops deps commit st0 es st \<Longrightarrow> events_kept ops deps es st"
proof (induction rule: evaluations.induct)
  case start
  then show ?case by (simp add: events_kept_def)
next
  case (call es st env input job st1 res st2 out)
  have "events_kept ops deps (scored job res @ es) st2"
    using events_mono [OF events_scored [OF call.IH call.hyps(2-5)] scorePatch_keeps [OF call.hyps(2,3,5,6)]] .
  moreover have "op_get ops (jb_key job) st2 \<noteq> None" if "Credited k \<in> set (credited job out)" for k
    using that scorePatch_credits [OF call.hyps(2,3,5,6)] by (auto simp: credited_def split: sum.splits ProductionEvalResult.splits)
  ultimately show ?case by (auto simp: events_kept_def credited_def split: sum.splits ProductionEvalResult.splits)
next
  case (crash_scored es st env input job st1 res)
  then show ?case using events_scored by blast
next
  case (crash_recording es st env input job st1 res state outcome code st2)
  then show ?case using events_scored events_mono outcome_keeps by blast
qed

lemma history_credits: "evaluations ops deps commit st0 es st \<Longrightarrow> distinct (map slot (credits es))"
proof (induction rule: evaluations.induct)
  case (call es st env input job st1 res st2 out)
  have "op_get ops k st \<noteq> None" if "Credited k \<in> set es" for k using history_kept [OF call.hyps(1)] that by (simp add: events_kept_def)
  then have fresh: "slot (jb_key job) \<noteq> slot k" if "Credited k \<in> set es" "out = Inr (ProdAccepted a)" for k a
    using that scorePatch_credits [OF call.hyps(2,3,5,6)] get_slot by metis
  show ?case
  proof (cases "\<exists>a. out = Inr (ProdAccepted a)")
    case True
    then have "\<forall>k. Credited k \<in> set es \<longrightarrow> slot (jb_key job) \<noteq> slot k" using fresh by blast
    then show ?thesis using call.IH True by (auto simp: credited_def in_credits)
  qed (use call.IH in \<open>auto simp: credited_def split: sum.splits ProductionEvalResult.splits\<close>)
qed simp_all

text \<open>Every attempt is charged to its miner in this epoch, and no miner is charged more than the cap.\<close>

lemma draw_charged:
  assumes "first_draw ops deps job st st'" "charges_kept ops deps st" "dk_epochId (jb_key job) = ed_epochId deps" "toLowerCase (jb_miner job) = jb_miner job"
  shows "charges_kept ops deps st'"
proof -
  obtain ctx where d: "st' = op_recordSeedDrawnAndAdmission ops (jb_key job) ctx (jb_miner job) st" "op_getAttempt ops (jb_key job) st = None"
      "op_minerAdmissions ops (ed_epochId deps) (jb_miner job) st < ed_perMinerCap deps"
    using assms(1,3) by (auto simp: first_draw_def)
  have "charged_to (ed_epochId deps) (jb_miner job) (new_attempt (jb_key job) ctx (jb_miner job))" "ar_minerAddress (new_attempt (jb_key job) ctx (jb_miner job)) = jb_miner job"
    using assms(3,4) by (simp_all add: charged_to_def new_attempt_def normalizeKey_def)
  moreover have "toLowerCase m = jb_miner job" if "charged_to e (toLowerCase m) (new_attempt (jb_key job) ctx (jb_miner job))" for e m
    using that assms(4) by (simp add: charged_to_def new_attempt_def)
  then have "op_minerAdmissions ops (ed_epochId deps) m st < ed_perMinerCap deps" if "charged_to (ed_epochId deps) (toLowerCase m) (new_attempt (jb_key job) ctx (jb_miner job))" for m
    using that d(3) admissions_lower [of "ed_epochId deps" m st] by metis
  then have "\<forall>m. op_minerAdmissions ops (ed_epochId deps) m st' \<le> ed_perMinerCap deps"
    using assms(2) d(1) by (simp add: charges_kept_def admissions_draw add1_zle_eq)
  ultimately show ?thesis using assms(2,4) d(1) by (auto simp: charges_kept_def attempt_draw)
qed

lemma put_charged: "charges_kept ops deps st \<Longrightarrow> charges_kept ops deps (op_put ops r st)"
  by (simp add: charges_kept_def attempt_put admissions_put)

lemma outcome_charged: "charges_kept ops deps st \<Longrightarrow> op_recordAttemptOutcome ops k state oc code st = Inr st' \<Longrightarrow> charges_kept ops deps st'"
  by (auto simp: charges_kept_def attempt_outcome admissions_outcome)

lemma step_charged:
  assumes "step_of ops deps job st st'" "charges_kept ops deps st" "dk_epochId (jb_key job) = ed_epochId deps" "toLowerCase (jb_miner job) = jb_miner job"
  shows "charges_kept ops deps st'"
  using assms draw_charged put_charged outcome_charged unfolding step_of_def by metis

lemma evaluate_step:
  assumes "prepare_job deps env input = Inr job" "si_seedContext input = None" "evaluate_job ops deps env job st = (st1, res)"
  shows "step_of ops deps job st st1"
  using evaluate_job_store [OF assms(3)] prepared_job [OF assms(1)] assms(2) by (auto simp: step_of_def)

lemma history_charged: "evaluations ops deps commit st0 es st \<Longrightarrow> charges_kept ops deps st0 \<Longrightarrow> charges_kept ops deps st"
proof (induction rule: evaluations.induct)
  case (call es st env input job st1 res st2 out)
  then show ?case using step_charged [OF scorePatch_step [OF call.hyps(2,3,5,6)]] prepared_job [OF call.hyps(2)] by blast
next
  case (crash_scored es st env input job st1 res)
  then show ?case using step_charged [OF evaluate_step [OF crash_scored.hyps(2,3,5)]] prepared_job [OF crash_scored.hyps(2)] by blast
next
  case (crash_recording es st env input job st1 res state outcome code st2)
  have "charges_kept ops deps st1"
    using crash_recording step_charged [OF evaluate_step [OF crash_recording.hyps(2,3,5)]] prepared_job [OF crash_recording.hyps(2)] by blast
  then show ?case using outcome_charged crash_recording.hyps(6) by blast
qed simp

lemma history_draws:
  assumes "evaluations ops deps commit st0 es st" "charges_kept ops deps st0" "0 \<le> ed_perMinerCap deps"
  shows "int (card {slot k | k r. Scored k r \<in> set es \<and> er_minerAddress r = m}) \<le> ed_perMinerCap deps"
proof (cases "{slot k | k r. Scored k r \<in> set es \<and> er_minerAddress r = m} = {}")
  case False
  let ?S = "{slot k | k r. Scored k r \<in> set es \<and> er_minerAddress r = m}"
  note kept = history_kept [OF assms(1)] and ch = history_charged [OF assms(1,2)]
  have "?S \<subseteq> (\<lambda>e. case e of Scored k r \<Rightarrow> slot k | Credited k \<Rightarrow> slot k) ` set es" by force
  then have fin: "finite ?S" by (rule finite_subset) simp
  have att: "\<exists>k a. slot k = x \<and> op_getAttempt ops k st = Some a \<and> charged_to (ed_epochId deps) m a \<and> toLowerCase m = m" if x: "x \<in> ?S" for x
  proof -
    obtain k r where k: "x = slot k" "Scored k r \<in> set es" "er_minerAddress r = m" using x by blast
    then have "on_record ops st k r" using kept by (simp add: events_kept_def)
    then obtain a where "op_getAttempt ops k st = Some a" "ar_minerAddress a = m" using k(3) by (auto simp: on_record_def)
    then show ?thesis using ch k(1) by (metis charges_kept_def)
  qed
  then have "toLowerCase m = m" using False by blast
  then have "int (card ?S) \<le> op_minerAdmissions ops (ed_epochId deps) m st" using att by (intro admissions_counted [OF fin]) (fast, assumption)
  moreover have "op_minerAdmissions ops (ed_epochId deps) m st \<le> ed_perMinerCap deps" using ch by (simp add: charges_kept_def)
  ultimately show ?thesis by simp
next
  case True
  show ?thesis unfolding True using assms(3) by simp
qed

end

section \<open>Resubmissions draw nothing new\<close>

text \<open>C11. A patch is scored against one pair of packs, whatever is resubmitted and whatever crashes. In every history of the coordinator's evaluator, with
  services that may fail at any call and a process that may die before an outcome is recorded, all evaluations of one patch on one parent state that
  got as far as scoring used the same blocks and the same gate and confirm seeds, and were charged to one miner.\<close>

theorem resubmission_same_packs:
  assumes "evaluations createInMemoryDedupStore deps commit st0 es st" "Scored k r \<in> set es" "Scored k s \<in> set es"
  shows "er_gateSeed r = er_gateSeed s \<and> er_confirmSeed r = er_confirmSeed s \<and> er_receivedAtBlock r = er_receivedAtBlock s \<and>
    er_targetBlock r = er_targetBlock s \<and> er_minerAddress r = er_minerAddress s"
proof -
  have w: "on_record createInMemoryDedupStore st k r" "on_record createInMemoryDedupStore st k s" "seeds_derived deps k r" "seeds_derived deps k s"
    using memory.history_kept [OF assms(1)] assms(2,3) by (auto simp: events_kept_def)
  then have "receipt_context r = receipt_context s" "er_minerAddress r = er_minerAddress s" by (auto simp: on_record_def)
  then show ?thesis using derived_unique [OF w(3,4)] by (simp add: receipt_context_def hexEqual_def)
qed


section \<open>Examples\<close>

lemma isBytes32_nonempty: "isBytes32 s \<Longrightarrow> s \<noteq> []"
  by (auto simp: isBytes32_def)

text \<open>An evaluation runs to its end when the roots are well formed, the block is there and the scorer answers.\<close>

lemma run_evaluates:
  assumes "isBytes32 (rq_parentRoot request)" "pd_dedupCache deps = []"
    "\<And>key. isBytes32 key \<Longrightarrow> admission request deps (computePatchHash (rq_normalizedPatchBytes request)) key = None" "draw_seed deps = Inr ctx"
    "isBytes32 (sd_blockhash ctx)" "\<not> zero_blockhash (sd_blockhash ctx)" "pd_injectedSeeds deps = None" "pd_epochSecret deps = Some secret"
    "isBytes32 secret" "isBytes32 (pd_corpusRoot deps)" "isBytes32 (pd_bundleHash deps)" "\<And>bs p s w. \<exists>x. pd_scorer deps bs p s w = Inr x"
    "\<And>h. hook = Some h \<Longrightarrow> snd (h ctx st) = Inr ()"
  shows "\<exists>r. evaluated request deps r ctx \<and> runPerPatchEvaluation request deps hook st = ((case hook of None \<Rightarrow> st | Some h \<Rightarrow> fst (h ctx st)), Inr r)"
proof -
  let ?h = "computePatchHash (rq_normalizedPatchBytes request)"
  obtain key where key: "computeDedupKey (rq_parentRoot request) (rq_normalizedPatchBytes request) = Inr key" "isBytes32 key"
    using computeDedupKey_ok assms(1) by blast
  obtain g c where gc: "deriveGateEvalSeed (seed_input secret (sd_blockhash ctx) (rq_epochId request) ?h (rq_parentRoot request) (pd_corpusRoot deps) (pd_bundleHash deps)) = Inr g"
      "deriveConfirmEvalSeed (seed_input secret (sd_blockhash ctx) (rq_epochId request) ?h (rq_parentRoot request) (pd_corpusRoot deps) (pd_bundleHash deps)) = Inr c"
    using seeds_exist [OF assms(9,5) _ assms(1,10,11,6), of ?h "rq_epochId request"] by auto
  have seeds: "derive_seeds request deps ?h (sd_blockhash ctx) = Inr (g, c)"
    using gc assms(7,8) isBytes32_nonempty [OF assms(9)] by (simp add: derive_seeds_def Let_def chain_bind_def of_js_def)
  obtain r where r: "score_packs request deps ?h key ctx g c = Inr r" using score_packs_total [of deps, OF assms(12)] by blast
  then have "er_dedupKey r = key" "er_gateSeed r = g" "er_confirmSeed r = c" by (auto simp: score_packs_Inr)
  then have "evaluated request deps r ctx" using key assms(3,4) seeds r by (simp add: evaluated_def)
  moreover have "runPerPatchEvaluation request deps hook st = ((case hook of None \<Rightarrow> st | Some h \<Rightarrow> fst (h ctx st)), Inr r)"
    using key assms(2-4,13) seeds r by (auto simp: runPerPatchEvaluation_def Let_def chain_bind_def split: option.splits prod.splits)
  ultimately show ?thesis by blast
qed

text \<open>The root of the empty state.\<close>

definition demo_root :: string where
  "demo_root = (case merkleizeState zero_state of Inr rt \<Rightarrow> bytesToHex rt | Inl _ \<Rightarrow> [])"

lemma demo_root_zero: "\<exists>rt. merkleizeState zero_state = Inr rt \<and> length rt = 32 \<and> demo_root = bytesToHex rt"
proof -
  obtain rt where "merkleizeState zero_state = Inr rt" using merkleizeState_eq [OF zero_state_wf(2)] by blast
  then show ?thesis using length_root [OF _ zero_state_wf(2)] by (simp add: demo_root_def)
qed

lemma demo_root_hex [simp]: "isBytes32 demo_root" "toLowerCase demo_root = demo_root"
proof -
  obtain rt where rt: "length rt = 32" "demo_root = bytesToHex rt" using demo_root_zero by blast
  show "isBytes32 demo_root" "toLowerCase demo_root = demo_root" unfolding rt(2) using rt(1) by simp_all
qed

definition demo_core_deps :: EvaluatorCoreDeps where
  "demo_core_deps = \<lparr>ed_epochId = 3, ed_epochSecret = Some (demo_hash 1), ed_hiddenSeedCommit = None, ed_corpusRoot = demo_hash 2, ed_bundleHash = demo_hash 3,
     ed_stateThresholdPpm = 500, ed_screenerThresholdPpm = 100, ed_replayTolerancePpm = 5, ed_targetBlockOffset = 15, ed_perMinerCap = 2\<rparr>"

text \<open>Two packs with the same score; the chain has moved on at each call.\<close>

definition demo_env :: "int \<Rightarrow> u8 \<Rightarrow> rat \<Rightarrow> EvaluatorEnv" where
  "demo_env head b score = \<lparr>ev_rpcClient = \<lparr>rc_latest = Inr head, rc_getBlockHash = (\<lambda>_. Inr (demo_hash b)), rc_waitForBlock = (\<lambda>_ _. Inr (demo_hash b))\<rparr>,
     ev_parentStateLoader = (\<lambda>_. Inr zero_state),
     ev_seedScorer = (\<lambda>_ _ _ _. Inr \<lparr>pe_accepted = True, pe_reason = None, pe_beforePpm = Fin 400000, pe_deltaPpm = Fin score\<rparr>),
     ev_publishArtifact = (\<lambda>_. Inr ()), ev_fmt = (\<lambda>_. [])\<rparr>"

definition demo_input :: ScoreInput where
  "demo_input = \<lparr>si_patchBytesHex = bytesToHex (patch_bytes demo_patch), si_parentStateRoot = demo_root, si_miner = demo_miner, si_parentState = None,
     si_screenerThresholdPpm = None, si_seedContext = None, si_injectedSeeds = None, si_targetBlockOffset = None\<rparr>"

definition demo_job :: EvalJob where
  "demo_job = \<lparr>jb_bytes = patch_bytes demo_patch, jb_patch = demo_patch, jb_thresholdPpm = 100, jb_parent = zero_state,
     jb_key = \<lparr>dk_epochId = 3, dk_parentStateRoot = demo_root, dk_patchHash = computePatchHash (patch_bytes demo_patch)\<rparr>, jb_miner = demo_miner,
     jb_pinned = None, jb_targetBlockOffset = 15, jb_injectedSeeds = None\<rparr>"

lemma parseHex_bytesToHex [simp]: "parseHex (bytesToHex bs) = Inr bs"
  by (simp add: parseHex_def hexToBytes_bytesToHex)

lemma demo_prepared_job: "prepare_job demo_core_deps (demo_env head b score) demo_input = Inr demo_job"
  using decodePatch_patch_bytes [OF demo_patch_ok] demo_facts(2)
  by (simp add: prepare_job_def demo_input_def demo_core_deps_def demo_env_def demo_job_def chain_bind_def of_js_def or_else_def Let_def safe_nonneg_def demo_hash_def)

lemma demo_job_simps [simp]:
  "jb_key demo_job = \<lparr>dk_epochId = 3, dk_parentStateRoot = demo_root, dk_patchHash = computePatchHash (patch_bytes demo_patch)\<rparr>"
  "jb_miner demo_job = demo_miner" "jb_pinned demo_job = None" "jb_injectedSeeds demo_job = None" "jb_targetBlockOffset demo_job = 15" "jb_thresholdPpm demo_job = 100"
  "jb_bytes demo_job = patch_bytes demo_patch" "jb_patch demo_job = demo_patch"
  by (simp_all add: demo_job_def)

lemma demo_core_simps [simp]:
  "ed_epochSecret demo_core_deps = Some (demo_hash 1)" "ed_corpusRoot demo_core_deps = demo_hash 2" "ed_bundleHash demo_core_deps = demo_hash 3"
  "ed_perMinerCap demo_core_deps = 2" "ed_epochId demo_core_deps = 3" "ed_stateThresholdPpm demo_core_deps = 500" "ed_replayTolerancePpm demo_core_deps = 5"
  by (simp_all add: demo_core_deps_def)

definition demo_ctx :: "int \<Rightarrow> u8 \<Rightarrow> PerPatchSeedContext" where
  "demo_ctx head b = \<lparr>sd_receivedAtBlock = head, sd_targetBlock = head + 15, sd_blockhash = demo_hash b\<rparr>"

lemma demo_ne [simp]: "demo_hash b \<noteq> []"
  by (rule isBytes32_nonempty) simp

lemma demo_admission:
  assumes "n < 2" "0 \<le> n" "isBytes32 key"
  shows "admission (job_request demo_job) (job_deps demo_core_deps env demo_job ctx n) (computePatchHash (rq_normalizedPatchBytes (job_request demo_job))) key = None"
  using assms demo_facts(2,3) by (simp add: admission_def liveEvalAdmissionDecision_def job_deps_def or_else_def Let_def)

lemma job_hook_ok: "job_hook ops job rec = Some h \<Longrightarrow> snd (h ctx st) = Inr ()"
  by (auto simp: job_hook_def split: if_splits)

lemma demo_evaluate:
  assumes "plan_attempt ops (jb_key demo_job) demo_miner None st = Attempt ctx n rec" "n < 2" "0 \<le> n" "draw_seed (job_deps demo_core_deps (demo_env head b score) demo_job ctx n) = Inr (demo_ctx h 9)"
  shows "\<exists>r. evaluate_job ops demo_core_deps (demo_env head b score) demo_job st
      = ((if rec then op_recordSeedDrawnAndAdmission ops (jb_key demo_job) (demo_ctx h 9) demo_miner st else st), Inr (Inr r)) \<and>
    evaluated (job_request demo_job) (job_deps demo_core_deps (demo_env head b score) demo_job ctx n) r (demo_ctx h 9)"
proof -
  let ?d = "job_deps demo_core_deps (demo_env head b score) demo_job ctx n"
  have sc: "\<And>bs p s w. \<exists>x. pd_scorer ?d bs p s w = Inr x" by (simp add: job_scorer_def demo_env_def chain_bind_def)
  have bytes: "isBytes32 (rq_parentRoot (job_request demo_job))" "isBytes32 (sd_blockhash (demo_ctx h 9))" "isBytes32 (demo_hash 1)" "isBytes32 (pd_corpusRoot ?d)" "isBytes32 (pd_bundleHash ?d)"
    by (simp_all add: demo_ctx_def)
  have demo_zero': "\<not> zero_blockhash (sd_blockhash (demo_ctx h 9))" using demo_zero by (simp add: demo_ctx_def)
  have sec: "pd_dedupCache ?d = []" "pd_injectedSeeds ?d = None" "pd_epochSecret ?d = Some (demo_hash 1)" by simp_all
  have "\<exists>r. evaluated (job_request demo_job) ?d r (demo_ctx h 9) \<and> runPerPatchEvaluation (job_request demo_job) ?d (job_hook ops demo_job rec) st
      = ((case job_hook ops demo_job rec of None \<Rightarrow> st | Some h' \<Rightarrow> fst (h' (demo_ctx h 9) st)), Inr r)"
    by (rule run_evaluates [where secret = "demo_hash 1"]) (fact bytes sec sc assms(4) demo_zero' demo_admission [OF assms(2,3)] job_hook_ok)+
  then obtain r where r: "evaluated (job_request demo_job) ?d r (demo_ctx h 9)" "runPerPatchEvaluation (job_request demo_job) ?d (job_hook ops demo_job rec) st
      = ((case job_hook ops demo_job rec of None \<Rightarrow> st | Some h' \<Rightarrow> fst (h' (demo_ctx h 9) st)), Inr r)" by blast
  then have "evaluate_job ops demo_core_deps (demo_env head b score) demo_job st
      = ((if rec then op_recordSeedDrawnAndAdmission ops (jb_key demo_job) (demo_ctx h 9) demo_miner st else st), Inr (Inr r))"
    using assms(1) by (simp add: evaluate_job_def job_hook_def)
  then show ?thesis using r(1) by blast
qed

text \<open>A crash after the first evaluation, and a retry after the chain has moved on.\<close>

definition demo_store :: memory_store where
  "demo_store = op_recordSeedDrawnAndAdmission createInMemoryDedupStore (jb_key demo_job) (demo_ctx 5 9) demo_miner empty_store"

lemma demo_history:
  "\<exists>r s. evaluations createInMemoryDedupStore demo_core_deps commit empty_store [Scored (jb_key demo_job) s, Scored (jb_key demo_job) r] demo_store \<and>
    er_receivedAtBlock r = 5 \<and> er_minerAddress r = demo_miner"
proof -
  let ?mem = createInMemoryDedupStore
  have p1: "plan_attempt ?mem (jb_key demo_job) demo_miner None empty_store = Attempt None 0 True"
    by (simp add: plan_attempt_def memory_ops empty_store_def)
  have d1: "draw_seed (job_deps demo_core_deps (demo_env 5 9 700) demo_job None 0) = Inr (demo_ctx 5 9)"
    by (simp add: draw_seed_def demo_env_def demo_ctx_def chain_bind_def Let_def)
  obtain r where r: "evaluate_job ?mem demo_core_deps (demo_env 5 9 700) demo_job empty_store = (demo_store, Inr (Inr r))"
      "evaluated (job_request demo_job) (job_deps demo_core_deps (demo_env 5 9 700) demo_job None 0) r (demo_ctx 5 9)"
    using demo_evaluate [OF p1 _ _ d1] by (auto simp: demo_store_def)
  have att: "op_getAttempt ?mem (jb_key demo_job) demo_store = Some (new_attempt (jb_key demo_job) (demo_ctx 5 9) demo_miner)" "op_get ?mem (jb_key demo_job) demo_store = None"
    unfolding demo_store_def memory.attempt_draw memory.get_draw by (simp_all add: memory_ops empty_store_def)
  have low: "ar_minerAddress (new_attempt k c demo_miner) = demo_miner" "ar_seedContext (new_attempt k (demo_ctx 5 9) demo_miner) = demo_ctx 5 9" for k c
    using demo_facts(2) by (simp_all add: new_attempt_def demo_ctx_def demo_hash_def)
  have p2: "plan_attempt ?mem (jb_key demo_job) demo_miner None demo_store = Attempt (Some (demo_ctx 5 9)) 0 False"
    using att low by (simp add: plan_attempt_def)
  have d2: "draw_seed (job_deps demo_core_deps (demo_env 8 7 900) demo_job (Some (demo_ctx 5 9)) 0) = Inr (demo_ctx 5 9)" by (simp add: draw_seed_def)
  obtain s where s: "evaluate_job ?mem demo_core_deps (demo_env 8 7 900) demo_job demo_store = (demo_store, Inr (Inr s))"
      "evaluated (job_request demo_job) (job_deps demo_core_deps (demo_env 8 7 900) demo_job (Some (demo_ctx 5 9)) 0) s (demo_ctx 5 9)"
    using demo_evaluate [OF p2 _ _ d2] by auto
  have drew: "drew_packs r" "drew_packs s" using evaluatedD(4) [OF r(2)] evaluatedD(4) [OF s(2)] by (simp_all add: drew_packs_def demo_ctx_def)
  have inp: "si_seedContext demo_input = None" "si_injectedSeeds demo_input = None" by (simp_all add: demo_input_def)
  from evaluations.crash_scored [OF evaluations.crash_scored [OF evaluations.start demo_prepared_job inp r(1)] demo_prepared_job inp s(1)]
  have "evaluations ?mem demo_core_deps commit empty_store [Scored (jb_key demo_job) s, Scored (jb_key demo_job) r] demo_store"
    using drew by (simp add: scored_def)
  moreover have "er_receivedAtBlock r = 5 \<and> er_minerAddress r = demo_miner" using evaluatedD(4) [OF r(2)] evaluated_miner [OF r(2)] demo_facts(2) by (simp add: demo_ctx_def)
  ultimately show ?thesis by blast
qed

theorem resubmission_same_packs_witness:
  "\<exists>r s. evaluations createInMemoryDedupStore demo_core_deps (demo_hash 4) empty_store [Scored (jb_key demo_job) s, Scored (jb_key demo_job) r] demo_store \<and>
    er_gateSeed s = er_gateSeed r \<and> er_receivedAtBlock s = 5"
proof -
  obtain r s where h: "evaluations createInMemoryDedupStore demo_core_deps (demo_hash 4) empty_store [Scored (jb_key demo_job) s, Scored (jb_key demo_job) r] demo_store"
      "er_receivedAtBlock r = 5"
    using demo_history by blast
  from resubmission_same_packs [OF h(1), of "jb_key demo_job" s r] show ?thesis using h by auto
qed


end
