(* ===== verification/EvalReport.thy ===== *)
theory EvalReport
  imports Grinding
begin

text \<open>
  What the evaluator of \<open>coordinator/production-evaluator.ts\<close> publishes and what \<open>replay/eval-report-artifact.ts\<close> makes of it: an accepted evaluation can be
  replayed from its artifact, the keyless scorer and the coordinator agree, the hash of an artifact fixes the evaluation, and an artifact
  that names block 0 is never replayed.
\<close>

section \<open>Hex strings\<close>

lemma hexToBytes_checked_bytesToHex [simp]: "hexToBytes_checked (bytesToHex bs) = Inr bs"
proof -
  have "isHex (bytesToHex bs)" by simp
  then have "take 2 (bytesToHex bs) = ''0x''" "hex_chars (drop 2 (bytesToHex bs))" by (auto simp: isHex_def)
  then show ?thesis using hexToBytes_bytesToHex [of bs]
    by (auto simp: hexToBytes_checked_def hexToBytes_def strip_0x_def Let_def split: if_splits)
qed

lemma parseHex_checked:
  assumes "parseHex s = Inr bs"
  shows "hexToBytes_checked s = Inr bs"
proof -
  have "take 2 s = ''0x''" "hex_chars (drop 2 s)" using assms by (auto simp: parseHex_def isHex_def split: if_splits)
  then show ?thesis using assms by (auto simp: parseHex_def hexToBytes_checked_def hexToBytes_def strip_0x_def Let_def split: if_splits)
qed

lemma hex_value_lower_char: "hex_value c \<noteq> None \<Longrightarrow> hex_value (js_lower_char c) \<noteq> None"
  using hex_value_lower [of c] by auto

lemma isHex_lower: "isHex s \<Longrightarrow> isHex (toLowerCase s)"
proof -
  assume h: "isHex s"
  have "take 2 (toLowerCase s) = toLowerCase (take 2 s)" by (simp add: toLowerCase_def take_map)
  moreover have "toLowerCase ''0x'' = ''0x''" by code_simp
  moreover have "drop 2 (toLowerCase s) = map js_lower_char (drop 2 s)" by (simp add: toLowerCase_def drop_map)
  ultimately show ?thesis using h hex_value_lower_char by (auto simp: isHex_def hex_chars_def list_all_iff)
qed

lemma isBytes32_lower [simp]: "isBytes32 s \<Longrightarrow> isBytes32 (toLowerCase s)"
  using isHex_lower by (auto simp: isBytes32_def toLowerCase_def)

lemma isAddress_lower: "isAddress s \<Longrightarrow> isAddress (toLowerCase s)"
  using isHex_lower by (auto simp: isAddress_def toLowerCase_def)

lemma hexEqual_lower [simp]: "hexEqual (toLowerCase s) t = hexEqual s t" "hexEqual s (toLowerCase t) = hexEqual s t"
  by (simp_all add: hexEqual_def)

text \<open>Seeds do not depend on the case of the roots.\<close>

lemma seeds_lower:
  assumes "deriveEvalSeedWithPrefix p (seed_input secret bh epoch h parent corpus bundle) = Inr g" "isBytes32 corpus" "isBytes32 bundle"
  shows "deriveEvalSeedWithPrefix p (seed_input secret bh epoch h parent (toLowerCase corpus) (toLowerCase bundle)) = Inr g"
proof -
  have "assertBytes32Hex (toLowerCase corpus) = Inr ()" "assertBytes32Hex (toLowerCase bundle) = Inr ()" using assms(2,3) isBytes32_assert by simp_all
  moreover have "hex_bytes (toLowerCase corpus) = hex_bytes corpus" "hex_bytes (toLowerCase bundle) = hex_bytes bundle"
    using assms(2,3) isBytes32_assert by (auto intro!: hex_bytes_ci)
  ultimately show ?thesis using assms(1) by (simp add: deriveEvalSeedWithPrefix_Inr seed_fields_def seed_input_def seed_preimage_def)
qed

lemma seed_shape:
  assumes "deriveEvalSeedWithPrefix p i = Inr g"
  shows "isBytes32 g" "toLowerCase g = g"
  using assms by (simp_all add: deriveEvalSeedWithPrefix_Inr)

section \<open>Accepted results\<close>

lemma payload_extend [simp]:
  "payload_json (ArtifactPayload.extend a x) = payload_json a" "af_receipt (ArtifactPayload.extend a x) = af_receipt a"
  "af_context (ArtifactPayload.extend a x) = af_context a" "af_seedDerivation (ArtifactPayload.extend a x) = af_seedDerivation a"
  "af_thresholdPpm (ArtifactPayload.extend a x) = af_thresholdPpm a" "af_compactPatchBytesHex (ArtifactPayload.extend a x) = af_compactPatchBytesHex a"
  "af_epochId (ArtifactPayload.extend a x) = af_epochId a" "af_minerAddress (ArtifactPayload.extend a x) = af_minerAddress a"
  "af_outcome (ArtifactPayload.extend a x) = af_outcome a" "af_version (ArtifactPayload.extend a x) = af_version a"
  by (simp_all add: payload_json_def ArtifactPayload.extend_def)

lemma build_Inr:
  "buildPostRevealEvalReportArtifact fmt p = Inr a \<longleftrightarrow>
    (\<exists>h. hashPostRevealEvalReportArtifact fmt p = Inr h \<and> a = ArtifactPayload.extend p \<lparr>af_artifactHash = h, af_evalReportHash = h\<rparr>)"
  by (auto simp: buildPostRevealEvalReportArtifact_def js_bind_eq_Inr_iff)

lemma hash_extend [simp]: "hashPostRevealEvalReportArtifact fmt (ArtifactPayload.extend p x) = hashPostRevealEvalReportArtifact fmt p"
  by (simp add: hashPostRevealEvalReportArtifact_def)

lemma hash_shape:
  assumes "hashPostRevealEvalReportArtifact fmt p = Inr h"
  shows "isBytes32 h" "toLowerCase h = h"
  using assms by (auto simp: hashPostRevealEvalReportArtifact_def js_bind_eq_Inr_iff)

lemma accepted_result_Inr:
  assumes "accepted_result deps env commit job dual = Inr res"
  shows "\<exists>adv h. hashPostRevealEvalReportArtifact (ev_fmt env) (job_payload deps commit job dual adv) = Inr h \<and>
    pa_artifact res = ArtifactPayload.extend (job_payload deps commit job dual adv) \<lparr>af_artifactHash = h, af_evalReportHash = h\<rparr>"
proof -
  have "\<exists>adv. buildPostRevealEvalReportArtifact (ev_fmt env) (job_payload deps commit job dual adv) = Inr (pa_artifact res)"
    using assms by (auto simp: accepted_result_def chain_bind_Inr Let_def split: if_splits)
  then show ?thesis by (auto simp: build_Inr)
qed

lemma evaluate_job_evaluated:
  assumes "evaluate_job ops deps env job st = (st', Inr (Inr r))" "er_accepted r"
  shows "\<exists>ctx n c. evaluated (job_request job) (job_deps deps env job ctx n) r c" "0 < jb_targetBlockOffset job" "jb_targetBlockOffset job \<le> 2 ^ 53 - 1"
proof -
  obtain ctx n rec where "runPerPatchEvaluation (job_request job) (job_deps deps env job ctx n) (job_hook ops job rec) st = (st', Inr r)"
      and o: "0 < jb_targetBlockOffset job" "jb_targetBlockOffset job \<le> 2 ^ 53 - 1"
    using assms(1) by (auto simp: evaluate_job_def split: attempt_plan.splits if_splits prod.splits sum.splits)
  then show "\<exists>ctx n c. evaluated (job_request job) (job_deps deps env job ctx n) r c" "0 < jb_targetBlockOffset job" "jb_targetBlockOffset job \<le> 2 ^ 53 - 1"
    using run_Inr assms(2) rejected_not_accepted(1) by (metis job_deps_simps(1), simp_all)
qed

lemma settle_accepted:
  assumes "settle_dual ops deps env commit job dual st = (st', Inr (ProdAccepted res))"
  shows "er_accepted dual" "accepted_result deps env commit job dual = Inr res" "er_receivedAtBlock dual > 0 \<Longrightarrow> er_targetBlock dual = er_receivedAtBlock dual + jb_targetBlockOffset job"
  using assms unfolding settle_dual_def Let_def
  by (auto simp: chain_bind_Inr split: if_splits sum.splits prod.splits)

text \<open>What an accepted result went through.\<close>

lemma scorePatch_accepted:
  assumes "scorePatch ops deps env commit input st = (st', Inr (ProdAccepted res))"
  shows "\<exists>job dual ctx n c. prepare_job deps env input = Inr job \<and> evaluated (job_request job) (job_deps deps env job ctx n) dual c \<and> er_accepted dual \<and>
    accepted_result deps env commit job dual = Inr res \<and> 0 < jb_targetBlockOffset job \<and> jb_targetBlockOffset job \<le> 2 ^ 53 - 1 \<and>
    (er_receivedAtBlock dual > 0 \<longrightarrow> er_targetBlock dual = er_receivedAtBlock dual + jb_targetBlockOffset job)"
proof -
  obtain job st1 dual where j: "prepare_job deps env input = Inr job" "evaluate_job ops deps env job st = (st1, Inr (Inr dual))"
      "settle_dual ops deps env commit job dual st1 = (st', Inr (ProdAccepted res))"
    using assms by (auto simp: scorePatch_def split: sum.splits prod.splits)
  note s = settle_accepted [OF j(3)]
  from evaluate_job_evaluated [OF j(2) s(1)] show ?thesis using j(1) s by blast
qed

section \<open>An accepted evaluation can be replayed\<close>

lemma safe_nat_Fin: "safe_nat x \<longleftrightarrow> (\<exists>n. x = Fin (of_int n) \<and> safe_nonneg n)"
proof
  assume "safe_nat x"
  then obtain r where "x = Fin r" "is_safe_integer r" "0 \<le> \<lfloor>r\<rfloor>" by (cases x) (auto simp: safe_nat_def split: if_splits)
  then show "\<exists>n. x = Fin (of_int n) \<and> safe_nonneg n" by (intro exI [of _ "\<lfloor>r\<rfloor>"]) (auto simp: is_safe_integer_def safe_nonneg_def)
qed (auto simp: safe_nat_def is_safe_integer_def safe_nonneg_def)

lemma replay_from_artifact:
  assumes "evaluated request deps r ctx" "pd_injectedSeeds deps = None" "pd_epochSecret deps = Some secret" "isBytes32 (pd_corpusRoot deps)" "isBytes32 (pd_bundleHash deps)"
    "er_accepted r" "blocks (er_targetBlock r) = Inr h" "hexEqual h (er_blockhash r)" "0 \<le> tol" "er_receivedAtBlock r \<noteq> 0" "safe_nat (er_gateScorePpm r)" "safe_nat (er_confirmScorePpm r)"
  shows "verifyPerPatchReceipt r \<lparr>vd_getBlockHash = blocks, vd_replayTolerancePpm = tol, vd_scorer = pd_scorer deps, vd_epochSecret = secret,
    vd_corpusRoot = toLowerCase (pd_corpusRoot deps), vd_bundleHash = toLowerCase (pd_bundleHash deps), vd_normalizedPatchBytes = rq_normalizedPatchBytes request\<rparr> = Inr (Inr (Fin 0, Fin 0))"
proof -
  note f = evaluatedD [OF assms(1)]
  have key: "computeDedupKey (er_parentRoot r) (rq_normalizedPatchBytes request) = Inr (er_dedupKey r)" using assms(1) f by (simp add: evaluated_def)
  let ?i = "seed_input secret (er_blockhash r) (er_epochId r) (er_patchHash r) (er_parentRoot r)"
  have "deriveGateEvalSeed (?i (pd_corpusRoot deps) (pd_bundleHash deps)) = Inr (er_gateSeed r)" "deriveConfirmEvalSeed (?i (pd_corpusRoot deps) (pd_bundleHash deps)) = Inr (er_confirmSeed r)"
    using assms(1-3) f by (auto simp: evaluated_def derive_seeds_def Let_def chain_bind_Inr split: if_splits)
  then have seeds: "deriveGateEvalSeed (?i (toLowerCase (pd_corpusRoot deps)) (toLowerCase (pd_bundleHash deps))) = Inr (er_gateSeed r)"
      "deriveConfirmEvalSeed (?i (toLowerCase (pd_corpusRoot deps)) (toLowerCase (pd_bundleHash deps))) = Inr (er_confirmSeed r)"
    using seeds_lower assms(4,5) by (simp_all add: deriveGateEvalSeed_def deriveConfirmEvalSeed_def)
  obtain gate confirm where sc: "pd_scorer deps (rq_normalizedPatchBytes request) (er_parentRoot r) (er_gateSeed r) GatePack = Inr gate"
      "pd_scorer deps (rq_normalizedPatchBytes request) (er_parentRoot r) (er_confirmSeed r) ConfirmPack = Inr confirm"
      "er_gateScorePpm r = sr_scorePpm gate" "er_confirmScorePpm r = sr_scorePpm confirm"
    using assms(1,6) f by (auto simp: evaluated_def score_packs_Inr split: if_splits)
  have zero: "abs_diff (sr_scorePpm gate) (sr_scorePpm gate) = Fin 0" "abs_diff (sr_scorePpm confirm) (sr_scorePpm confirm) = Fin 0"
    using assms(11,12) sc by (auto simp: safe_nat_Fin)
  show ?thesis
    using key seeds sc zero assms(7-10) f by (simp add: verifyPerPatchReceipt_def verify_seeds_def verify_scores_def Let_def chain_bind_def of_js_def)
qed

lemma evaluated_address: "evaluated request deps r ctx \<Longrightarrow> isAddress (er_minerAddress r)"
  using evaluated_miner by (fastforce simp: evaluated_def admission_def liveEvalAdmissionDecision_def Let_def split: if_splits)

lemma evaluated_accepted:
  assumes "evaluated request deps r ctx" "er_accepted r"
  shows "at_least (er_gateScorePpm r) (pd_thresholdPpm deps)" "at_least (er_confirmScorePpm r) (pd_thresholdPpm deps)"
  using assms by (auto simp: evaluated_def score_packs_Inr split: if_splits)

lemma less_int_min: "safe_nat x \<Longrightarrow> safe_nat y \<Longrightarrow> less_int (js_min x y) b \<longleftrightarrow> \<not> (at_least x b \<and> at_least y b)"
  by (auto simp: safe_nat_Fin)

lemma job_payload_simps [simp]:
  "af_version (job_payload deps commit job dual adv) = ''coretex-post-reveal-eval-report-v1''" "af_epochId (job_payload deps commit job dual adv) = ed_epochId deps"
  "af_minerAddress (job_payload deps commit job dual adv) = jb_miner job" "af_outcome (job_payload deps commit job dual adv) = (if adv then ''STATE_ADVANCE'' else ''SCREENER_PASS'')"
  "af_compactPatchBytesHex (job_payload deps commit job dual adv) = bytesToHex (jb_bytes job)" "af_thresholdPpm (job_payload deps commit job dual adv) = jb_thresholdPpm job"
  "af_receipt (job_payload deps commit job dual adv) = dual"
  by (simp_all add: job_payload_def)

definition receipt_shape :: "PerPatchReceipt \<Rightarrow> bool" where
  "receipt_shape r \<longleftrightarrow> isBytes32 (er_blockhash r) \<and> 0 < er_receivedAtBlock r \<and> er_targetBlock r \<le> 2 ^ 53 - 1 \<and> safe_nat (er_gateScorePpm r) \<and> safe_nat (er_confirmScorePpm r)"

definition deps_shape :: "EvaluatorCoreDeps \<Rightarrow> bool" where
  "deps_shape deps \<longleftrightarrow> isBytes32 (ed_corpusRoot deps) \<and> isBytes32 (ed_bundleHash deps) \<and> safe_nonneg (ed_epochId deps) \<and> safe_nonneg (ed_replayTolerancePpm deps)"

lemma evaluated_seeds:
  assumes "evaluated request deps r ctx" "pd_injectedSeeds deps = None"
  shows "isBytes32 (er_gateSeed r)" "isBytes32 (er_confirmSeed r)" "toLowerCase (er_gateSeed r) = er_gateSeed r" "toLowerCase (er_confirmSeed r) = er_confirmSeed r"
  using assms seed_shape
  by (auto simp: evaluated_def derive_seeds_def deriveGateEvalSeed_def deriveConfirmEvalSeed_def Let_def chain_bind_Inr split: if_splits option.splits)

lemma artifact_wellformed:
  assumes "evaluated (job_request job) (job_deps deps env job ctx n) dual c" "jb_injectedSeeds job = None" "isBytes32 commit" "deps_shape deps"
    "isBytes32 (dk_parentStateRoot (jb_key job))" "toLowerCase (dk_parentStateRoot (jb_key job)) = dk_parentStateRoot (jb_key job)" "dk_epochId (jb_key job) = ed_epochId deps"
    "dk_patchHash (jb_key job) = computePatchHash (jb_bytes job)" "toLowerCase (jb_miner job) = jb_miner job" "safe_nonneg (jb_thresholdPpm job)"
    "0 < jb_targetBlockOffset job" "jb_targetBlockOffset job \<le> 2 ^ 53 - 1" "receipt_shape dual" "er_targetBlock dual = er_receivedAtBlock dual + jb_targetBlockOffset job"
    "isBytes32 h"
  shows "shape_ok (ArtifactPayload.extend (job_payload deps commit job dual adv) \<lparr>af_artifactHash = h, af_evalReportHash = h\<rparr>)"
    "seed_binding_ok (ArtifactPayload.extend (job_payload deps commit job dual adv) \<lparr>af_artifactHash = h, af_evalReportHash = h\<rparr>)"
proof -
  note f = evaluatedD [OF assms(1)] and sd = evaluated_seeds [OF assms(1)]
  have addr: "isAddress (jb_miner job)" "er_minerAddress dual = jb_miner job" using evaluated_address [OF assms(1)] evaluated_miner [OF assms(1)] assms(9) by simp_all
  have seedD: "af_seedDerivation (job_payload deps commit job dual adv) = \<lparr>sv_mode = ''future_blockhash_dual_pack'', sv_epochId = ed_epochId deps, sv_receivedAtBlock = er_receivedAtBlock dual,
        sv_targetBlock = er_targetBlock dual, sv_targetBlockOffset = jb_targetBlockOffset job, sv_blockhash = toLowerCase (er_blockhash dual),
        sv_patchHash = dk_patchHash (jb_key job), sv_parentStateRoot = dk_parentStateRoot (jb_key job), sv_corpusRoot = toLowerCase (ed_corpusRoot deps),
        sv_bundleHash = toLowerCase (ed_bundleHash deps)\<rparr>" by (simp add: job_payload_def)
  have ctxD: "af_context (job_payload deps commit job dual adv) = \<lparr>ac_parentStateRoot = dk_parentStateRoot (jb_key job), ac_corpusRoot = toLowerCase (ed_corpusRoot deps),
        ac_coreVersionHash = toLowerCase (ed_bundleHash deps), ac_hiddenSeedCommit = commit, ac_replayTolerancePpm = ed_replayTolerancePpm deps\<rparr>" by (simp add: job_payload_def)
  have hashes: "af_artifactHash (ArtifactPayload.extend p \<lparr>af_artifactHash = h, af_evalReportHash = h\<rparr>) = h" "af_evalReportHash (ArtifactPayload.extend p \<lparr>af_artifactHash = h, af_evalReportHash = h\<rparr>) = h" for p
    by (simp_all add: ArtifactPayload.extend_def)
  have even: "(length (bytesToHex (jb_bytes job)) - 2) mod 2 = 0" by simp
  show "shape_ok (ArtifactPayload.extend (job_payload deps commit job dual adv) \<lparr>af_artifactHash = h, af_evalReportHash = h\<rparr>)"
    using assms(2-15) f sd addr even by (simp add: shape_ok_def Let_def seedD ctxD hashes deps_shape_def receipt_shape_def safe_nonneg_def)
  show "seed_binding_ok (ArtifactPayload.extend (job_payload deps commit job dual adv) \<lparr>af_artifactHash = h, af_evalReportHash = h\<rparr>)"
    using assms(2-15) f by (simp add: seed_binding_ok_def Let_def seedD ctxD)
qed

lemma verify_artifact:
  assumes "shape_ok a" "seed_binding_ok a" "hashPostRevealEvalReportArtifact fmt a = Inr k" "af_artifactHash a = k" "af_evalReportHash a = k" "er_accepted (af_receipt a)"
    "\<not> less_int (js_min (er_gateScorePpm (af_receipt a)) (er_confirmScorePpm (af_receipt a))) (af_thresholdPpm a)" "hexToBytes_checked (xd_epochSecret deps) = Inr bs"
    "hexEqual (ac_hiddenSeedCommit (af_context a)) (bytesToHex (keccak256 bs))" "hexToBytes_checked (af_compactPatchBytesHex a) = Inr pb"
    "verifyPerPatchReceipt (af_receipt a) (artifact_replay_deps deps a pb) = Inr (Inr (d, e))"
  shows "verifyPostRevealEvalReportArtifact fmt a deps = Inr (Inr (k, d, e))"
  using assms hash_shape(2) [OF assms(3)] by (simp add: verifyPostRevealEvalReportArtifact_def chain_bind_def of_js_def hexEqual_def)

lemma core_commit:
  assumes "createCoreTexEvaluatorCore deps = Inr commit" "ed_epochSecret deps = Some secret" "secret \<noteq> []"
  shows "\<exists>bs. hexToBytes_checked secret = Inr bs \<and> commit = bytesToHex (keccak256 bs)"
  using assms parseHex_checked
  by (auto simp: createCoreTexEvaluatorCore_def derived_commit_def js_bind_eq_Inr_iff Let_def split: if_splits option.splits)

text \<open>C7. What the evaluator publishes can be replayed. If \<open>scorePatch\<close> accepts a patch, on a core with a well-formed configuration and
  with scores that are non-negative safe integers, then the published artifact passes \<open>verifyPostRevealEvalReportArtifact\<close> for everyone who has the revealed
  secret, the scorer and the block hash of the chain: its shape, its hash, the seed inputs, the threshold, the commitment, the patch and both packs, whose scores agree exactly.\<close>

theorem artifact_replays:
  assumes "createCoreTexEvaluatorCore deps = Inr commit" "ed_epochSecret deps = Some secret" "deps_shape deps"
    "scorePatch ops deps env commit input st = (st', Inr (ProdAccepted res))" "prepare_job deps env input = Inr job" "si_injectedSeeds input = None"
    "isBytes32 (si_parentStateRoot input)" "receipt_shape (af_receipt (pa_artifact res))"
    "blocks (er_targetBlock (af_receipt (pa_artifact res))) = Inr h" "hexEqual h (er_blockhash (af_receipt (pa_artifact res)))"
  shows "verifyPostRevealEvalReportArtifact (ev_fmt env) (pa_artifact res)
      \<lparr>xd_getBlockHash = blocks, xd_scorer = job_scorer env (jb_parent job) (jb_thresholdPpm job), xd_epochSecret = secret\<rparr>
    = Inr (Inr (af_artifactHash (pa_artifact res), Fin 0, Fin 0))"
proof -
  obtain dual ctx n c where s: "evaluated (job_request job) (job_deps deps env job ctx n) dual c" "er_accepted dual" "accepted_result deps env commit job dual = Inr res"
      "0 < jb_targetBlockOffset job" "jb_targetBlockOffset job \<le> 2 ^ 53 - 1" "er_receivedAtBlock dual > 0 \<longrightarrow> er_targetBlock dual = er_receivedAtBlock dual + jb_targetBlockOffset job"
    using scorePatch_accepted [OF assms(4)] assms(5) by auto
  obtain adv k where a: "hashPostRevealEvalReportArtifact (ev_fmt env) (job_payload deps commit job dual adv) = Inr k"
      "pa_artifact res = ArtifactPayload.extend (job_payload deps commit job dual adv) \<lparr>af_artifactHash = k, af_evalReportHash = k\<rparr>"
    using accepted_result_Inr [OF s(3)] by blast
  note j = prepared_job [OF assms(5)] and hs = hash_shape [OF a(1)]
  have inj: "jb_injectedSeeds job = None" using j(4) assms(6) by simp
  have rec: "af_receipt (pa_artifact res) = dual" by (simp add: a(2))
  have rs: "receipt_shape dual" "0 < er_receivedAtBlock dual" "safe_nat (er_gateScorePpm dual)" "safe_nat (er_confirmScorePpm dual)" using assms(8) rec by (auto simp: receipt_shape_def)
  have ne: "secret \<noteq> []" using s(1) inj assms(2) by (auto simp: evaluated_def derive_seeds_def)
  obtain bs where bs: "hexToBytes_checked secret = Inr bs" "commit = bytesToHex (keccak256 bs)" using core_commit [OF assms(1,2) ne] by blast
  have parent: "isBytes32 (dk_parentStateRoot (jb_key job))" using assms(5,7) by (auto simp: prepare_job_def chain_bind_Inr Let_def split: if_splits)
  have com: "isBytes32 commit" by (simp add: bs(2))
  note wf = artifact_wellformed [OF s(1) inj com assms(3) parent j(7,6,5,2,8) s(4,5) rs(1) s(6) [rule_format, OF rs(2)] hs(1), of adv, folded a(2)]
  have secret: "pd_epochSecret (job_deps deps env job ctx n) = Some secret" using assms(2) ne by simp
  have tol: "0 \<le> ed_replayTolerancePpm deps" and roots: "isBytes32 (pd_corpusRoot (job_deps deps env job ctx n))" "isBytes32 (pd_bundleHash (job_deps deps env job ctx n))"
    using assms(3) by (simp_all add: deps_shape_def safe_nonneg_def)
  have inj': "pd_injectedSeeds (job_deps deps env job ctx n) = None" using inj by simp
  have blk: "er_receivedAtBlock dual \<noteq> 0" using rs(2) by simp
  note rep = replay_from_artifact [where blocks = blocks, OF s(1) inj' secret roots s(2) assms(9,10) [unfolded rec] tol blk rs(3,4)]
  have rd: "artifact_replay_deps \<lparr>xd_getBlockHash = blocks, xd_scorer = job_scorer env (jb_parent job) (jb_thresholdPpm job), xd_epochSecret = secret\<rparr> (pa_artifact res) (jb_bytes job)
      = \<lparr>vd_getBlockHash = blocks, vd_replayTolerancePpm = ed_replayTolerancePpm deps, vd_scorer = pd_scorer (job_deps deps env job ctx n), vd_epochSecret = secret,
    vd_corpusRoot = toLowerCase (pd_corpusRoot (job_deps deps env job ctx n)), vd_bundleHash = toLowerCase (pd_bundleHash (job_deps deps env job ctx n)),
    vd_normalizedPatchBytes = rq_normalizedPatchBytes (job_request job)\<rparr>"
    by (simp add: artifact_replay_deps_def a(2)) (simp add: job_payload_def)
  have flds: "hashPostRevealEvalReportArtifact (ev_fmt env) (pa_artifact res) = Inr k" "af_artifactHash (pa_artifact res) = k" "af_evalReportHash (pa_artifact res) = k"
      "af_compactPatchBytesHex (pa_artifact res) = bytesToHex (jb_bytes job)" "ac_hiddenSeedCommit (af_context (pa_artifact res)) = commit" "af_thresholdPpm (pa_artifact res) = jb_thresholdPpm job"
    using a(1) by (simp_all add: a(2)) (simp_all add: ArtifactPayload.extend_def job_payload_def)
  have thr: "\<not> less_int (js_min (er_gateScorePpm dual) (er_confirmScorePpm dual)) (jb_thresholdPpm job)"
    using less_int_min [OF rs(3,4)] evaluated_accepted [OF s(1,2)] by simp
  from wf flds rep rec s(2) thr bs show ?thesis by (intro verify_artifact [where bs = bs and pb = "jb_bytes job"]) (simp_all add: rd)
qed

section \<open>The keyless scorer\<close>

text \<open>The host that scores for the coordinator has the commitment instead of the secret, and gets the seed context and the seeds with the job.\<close>

definition keyless :: "string \<Rightarrow> EvaluatorCoreDeps \<Rightarrow> EvaluatorCoreDeps" where
  "keyless commit deps = deps\<lparr>ed_epochSecret := None, ed_hiddenSeedCommit := Some commit\<rparr>"

definition pinned_input :: "PerPatchReceipt \<Rightarrow> ScoreInput \<Rightarrow> ScoreInput" where
  "pinned_input r input = input\<lparr>si_seedContext := Some \<lparr>sd_receivedAtBlock = er_receivedAtBlock r, sd_targetBlock = er_targetBlock r, sd_blockhash = er_blockhash r\<rparr>,
     si_injectedSeeds := Some (er_gateSeed r, er_confirmSeed r)\<rparr>"

definition pinned_job :: "PerPatchReceipt \<Rightarrow> EvalJob \<Rightarrow> EvalJob" where
  "pinned_job r job = job\<lparr>jb_pinned := Some \<lparr>sd_receivedAtBlock = er_receivedAtBlock r, sd_targetBlock = er_targetBlock r, sd_blockhash = er_blockhash r\<rparr>,
     jb_injectedSeeds := Some (er_gateSeed r, er_confirmSeed r)\<rparr>"

lemma prepare_keyless:
  assumes "prepare_job deps env input = Inr job" "toLowerCase (er_blockhash r) = er_blockhash r"
  shows "prepare_job (keyless commit deps) (env\<lparr>ev_rpcClient := rpc\<rparr>) (pinned_input r input) = Inr (pinned_job r job)"
  using assms by (auto simp: prepare_job_def keyless_def pinned_input_def pinned_job_def chain_bind_Inr Let_def split: if_splits option.splits)

lemma keyless_fields:
  "job_payload (keyless commit deps) c (pinned_job r job) dual adv = job_payload deps c job dual adv" "ed_stateThresholdPpm (keyless commit deps) = ed_stateThresholdPpm deps"
  "ed_corpusRoot (keyless commit deps) = ed_corpusRoot deps" "ed_bundleHash (keyless commit deps) = ed_bundleHash deps" "jb_parent (pinned_job r job) = jb_parent job"
  "jb_thresholdPpm (pinned_job r job) = jb_thresholdPpm job" "jb_bytes (pinned_job r job) = jb_bytes job" "jb_patch (pinned_job r job) = jb_patch job"
  "jb_targetBlockOffset (pinned_job r job) = jb_targetBlockOffset job" "per_seed (env\<lparr>ev_rpcClient := rpc\<rparr>) = per_seed env" "ev_fmt (env\<lparr>ev_rpcClient := rpc\<rparr>) = ev_fmt env"
  "ev_publishArtifact (env\<lparr>ev_rpcClient := rpc\<rparr>) = ev_publishArtifact env"
  by (simp_all add: job_payload_def keyless_def pinned_job_def per_seed_def fun_eq_iff)

lemma accepted_keyless: "accepted_result (keyless commit deps) (env\<lparr>ev_rpcClient := rpc\<rparr>) c (pinned_job r job) dual = accepted_result deps env c job dual"
  unfolding accepted_result_def keyless_fields ..

lemma admission_zero:
  assumes "admission (job_request job) (job_deps deps env job ctx n) h key = None" "toLowerCase (jb_miner job) = jb_miner job"
  shows "admission (job_request (pinned_job r job)) (job_deps (keyless commit deps) env' (pinned_job r job) ctx' 0) h key = None"
  using assms by (auto simp: admission_def liveEvalAdmissionDecision_def job_request_def job_deps_def keyless_def pinned_job_def or_else_def Let_def split: if_splits)

lemma evaluate_keyless:
  assumes "evaluated (job_request job) (job_deps deps env job ctx n) r c" "jb_injectedSeeds job = None" "toLowerCase (jb_miner job) = jb_miner job"
    "0 < jb_targetBlockOffset job" "jb_targetBlockOffset job \<le> 2 ^ 53 - 1"
  shows "evaluate_job ops (keyless commit deps) (env\<lparr>ev_rpcClient := rpc\<rparr>) (pinned_job r job) s = (s, Inr (Inr r))"
proof -
  let ?job = "pinned_job r job" and ?h = "computePatchHash (jb_bytes job)"
  let ?d = "job_deps (keyless commit deps) (env\<lparr>ev_rpcClient := rpc\<rparr>) ?job (jb_pinned ?job) 0"
  have req: "job_request ?job = job_request job" "jb_targetBlockOffset ?job = jb_targetBlockOffset job" "jb_pinned ?job = Some c"
    using evaluatedD [OF assms(1)] by (simp_all add: job_request_def pinned_job_def)
  have inj: "pd_injectedSeeds (job_deps deps env job ctx n) = None" using assms(2) by simp
  note sd = evaluated_seeds [OF assms(1) inj]
  have key: "computeDedupKey (rq_parentRoot (job_request job)) (jb_bytes job) = Inr (er_dedupKey r)" using assms(1) by (simp add: evaluated_def)
  have adm: "admission (job_request job) ?d ?h (er_dedupKey r) = None" 
    using admission_zero [where r = r and job = job and deps = deps and env = env and ctx = ctx and n = n] assms(1,3) unfolding evaluated_def req(1) by simp
  have seeds: "derive_seeds (job_request job) ?d ?h (sd_blockhash c) = Inr (er_gateSeed r, er_confirmSeed r)"
    using sd req(3) by (simp add: derive_seeds_def pinned_job_def)
  have sc: "pd_scorer ?d = pd_scorer (job_deps deps env job ctx n)" "pd_thresholdPpm ?d = pd_thresholdPpm (job_deps deps env job ctx n)"
    by (simp_all add: pinned_job_def job_scorer_def fun_eq_iff)
  have packs: "score_packs (job_request job) ?d ?h (er_dedupKey r) c (er_gateSeed r) (er_confirmSeed r) = Inr r"
  proof -
    have "score_packs (job_request job) (job_deps deps env job ctx n) ?h (er_dedupKey r) c (er_gateSeed r) (er_confirmSeed r) = Inr r" using assms(1) by (simp add: evaluated_def)
    then show ?thesis unfolding score_packs_def sc .
  qed
  have "runPerPatchEvaluation (job_request job) ?d None s = (s, Inr r)"
    using key adm seeds packs req(3) by (simp add: runPerPatchEvaluation_def draw_seed_def Let_def chain_bind_def)
  then show ?thesis using assms(4,5) req by (simp add: evaluate_job_def plan_attempt_def job_hook_def)
qed

text \<open>Whatever the input of the keyless host looks like, it runs the coordinator's job with the seeds pinned.\<close>

lemma keyless_run:
  assumes "scorePatch ops deps env commit input st = (st', Inr (ProdAccepted res))" "prepare_job deps env input = Inr job" "si_injectedSeeds input = None"
    "prepare_job (keyless commit deps) (env\<lparr>ev_rpcClient := rpc\<rparr>) input' = Inr (pinned_job (af_receipt (pa_artifact res)) job)"
  shows "scorePatch ops' (keyless commit deps) (env\<lparr>ev_rpcClient := rpc\<rparr>) commit input' s = (s, Inr (ProdAccepted res))"
proof -
  obtain dual ctx n c where s: "evaluated (job_request job) (job_deps deps env job ctx n) dual c" "er_accepted dual"
      "accepted_result deps env commit job dual = Inr res"
      "0 < jb_targetBlockOffset job" "jb_targetBlockOffset job \<le> 2 ^ 53 - 1" "er_receivedAtBlock dual > 0 \<longrightarrow> er_targetBlock dual = er_receivedAtBlock dual + jb_targetBlockOffset job"
    using scorePatch_accepted [OF assms(1)] assms(2) by auto
  note j = prepared_job [OF assms(2)]
  have rec: "af_receipt (pa_artifact res) = dual" using accepted_result_Inr [OF s(3)] by auto
  have inj: "jb_injectedSeeds job = None" using j(4) assms(3) by simp
  have settle: "settle_dual ops' (keyless commit deps) (env\<lparr>ev_rpcClient := rpc\<rparr>) commit (pinned_job dual job) dual s = (s, Inr (ProdAccepted res))"
    using s(2-6) by (simp add: settle_dual_def accepted_keyless record_outcome_def chain_bind_def Let_def) (simp add: pinned_job_def)
  have ev: "evaluate_job ops' (keyless commit deps) (env\<lparr>ev_rpcClient := rpc\<rparr>) (pinned_job dual job) s = (s, Inr (Inr dual))"
    by (rule evaluate_keyless [OF s(1) inj j(2) s(4,5)])
  show ?thesis using assms(4) rec ev settle by (simp add: scorePatch_def)
qed

text \<open>The keyless scorer returns what the coordinator would. A host that has the commitment but not the epoch secret, is sent the coordinator's seed context and seeds with
  the job and asks no chain, can be constructed, and returns for an accepted patch exactly the coordinator's result: the same scores, proof, hashes and artifact. It leaves its own
  store untouched, whatever is in it.\<close>

lemma keyless_scorer_agrees:
  assumes "createCoreTexEvaluatorCore deps = Inr commit" "ed_epochSecret deps = Some secret"
    "scorePatch ops deps env commit input st = (st', Inr (ProdAccepted res))" "si_injectedSeeds input = None"
    "toLowerCase (er_blockhash (af_receipt (pa_artifact res))) = er_blockhash (af_receipt (pa_artifact res))"
  shows "createCoreTexEvaluatorCore (keyless commit deps) = Inr commit \<and>
    scorePatch ops' (keyless commit deps) (env\<lparr>ev_rpcClient := rpc\<rparr>) commit (pinned_input (af_receipt (pa_artifact res)) input) s = (s, Inr (ProdAccepted res))"
proof -
  obtain job dual ctx n c where s: "prepare_job deps env input = Inr job" "evaluated (job_request job) (job_deps deps env job ctx n) dual c"
      "accepted_result deps env commit job dual = Inr res"
    using scorePatch_accepted [OF assms(3)] by auto
  have rec: "af_receipt (pa_artifact res) = dual" using accepted_result_Inr [OF s(3)] by auto
  have inj: "jb_injectedSeeds job = None" using prepared_job(4) [OF s(1)] assms(4) by simp
  have ne: "secret \<noteq> []" using s(2) inj assms(2) by (auto simp: evaluated_def derive_seeds_def)
  obtain bs where bs: "commit = bytesToHex (keccak256 bs)" using core_commit [OF assms(1,2) ne] by blast
  have core: "createCoreTexEvaluatorCore (keyless commit deps) = Inr commit"
    using assms(1) by (auto simp: createCoreTexEvaluatorCore_def keyless_def validatePerMinerCap_def configured_commit_def bs split: if_splits)
  have prep: "prepare_job (keyless commit deps) (env\<lparr>ev_rpcClient := rpc\<rparr>) (pinned_input dual input) = Inr (pinned_job dual job)"
    using prepare_keyless [OF s(1)] assms(5) rec by simp
  show ?thesis using core keyless_run [OF assms(3) s(1) assms(4) prep [folded rec]] rec by simp
qed

section \<open>Block zero\<close>

text \<open>C39. An artifact that names block 0 is not replayed. Whatever seeds, block hash and scores an accepted receipt claims, if it claims to have been received at block 0 and the
  rest of the artifact is consistent with itself, it passes the verification with zero score differences for every scorer and every chain.\<close>

theorem block_zero_unchecked:
  assumes "buildPostRevealEvalReportArtifact fmt p = Inr a" "shape_ok a" "seed_binding_ok a" "er_accepted (af_receipt p)" "er_receivedAtBlock (af_receipt p) = 0"
    "at_least (er_gateScorePpm (af_receipt p)) (af_thresholdPpm p)" "at_least (er_confirmScorePpm (af_receipt p)) (af_thresholdPpm p)"
    "hexToBytes_checked secret = Inr bs" "hexEqual (ac_hiddenSeedCommit (af_context p)) (bytesToHex (keccak256 bs))"
    "hexToBytes_checked (af_compactPatchBytesHex p) = Inr pb" "hexEqual (computePatchHash pb) (er_patchHash (af_receipt p))"
    "computeDedupKey (er_parentRoot (af_receipt p)) pb = Inr key" "hexEqual key (er_dedupKey (af_receipt p))"
  shows "verifyPostRevealEvalReportArtifact fmt a \<lparr>xd_getBlockHash = blocks, xd_scorer = scorer, xd_epochSecret = secret\<rparr> = Inr (Inr (af_artifactHash a, Fin 0, Fin 0))"
proof -
  obtain h where h: "hashPostRevealEvalReportArtifact fmt p = Inr h" "a = ArtifactPayload.extend p \<lparr>af_artifactHash = h, af_evalReportHash = h\<rparr>"
    using assms(1) by (auto simp: build_Inr)
  have hs: "af_artifactHash a = h" "af_evalReportHash a = h" by (simp_all add: h(2) ArtifactPayload.extend_def)
  have "safe_nat (er_gateScorePpm (af_receipt p))" "safe_nat (er_confirmScorePpm (af_receipt p))" using assms(2) by (simp_all add: shape_ok_def Let_def h(2))
  then have thr: "\<not> less_int (js_min (er_gateScorePpm (af_receipt p)) (er_confirmScorePpm (af_receipt p))) (af_thresholdPpm p)"
    using less_int_min assms(6,7) by blast
  have rep: "verifyPerPatchReceipt (af_receipt p) (artifact_replay_deps \<lparr>xd_getBlockHash = blocks, xd_scorer = scorer, xd_epochSecret = secret\<rparr> a pb) = Inr (Inr (Fin 0, Fin 0))"
    using assms(5,11-13) by (simp add: verifyPerPatchReceipt_def artifact_replay_deps_def chain_bind_def of_js_def)
  show ?thesis
    unfolding hs(1) by (rule verify_artifact [OF assms(2,3) _ hs, of fmt _ bs pb])
      (use h thr rep assms(4,8-10) in simp_all)
qed

section \<open>The hash fixes the evaluation\<close>

definition plain_int :: "int \<Rightarrow> bool" where
  "plain_int n \<longleftrightarrow> \<bar>n\<bar> < 10 ^ 21"

lemma plain_JInt: "plain (JNumber (Fin (of_int n))) \<longleftrightarrow> plain_int n"
proof -
  have "\<bar>of_int n :: rat\<bar> < 10 ^ 21 \<longleftrightarrow> \<bar>n\<bar> < 10 ^ 21" by (metis of_int_abs of_int_less_iff of_int_numeral of_int_power)
  then show ?thesis by (simp add: plain_int_def)
qed

definition plain_numbers :: "'a ArtifactPayload_scheme \<Rightarrow> bool" where
  "plain_numbers a \<longleftrightarrow> (let d = af_seedDerivation a; r = af_receipt a in
     list_all plain_int [af_epochId a, af_thresholdPpm a, sv_epochId d, sv_receivedAtBlock d, sv_targetBlock d, sv_targetBlockOffset d,
       er_epochId r, er_receivedAtBlock r, er_targetBlock r, ac_replayTolerancePpm (af_context a)] \<and>
     list_all (\<lambda>x. \<exists>n. x = Fin (of_int n) \<and> plain_int n) [er_gateScorePpm r, er_confirmScorePpm r])"

lemma plain_opt: "opt_json x = JUndefined \<or> plain (opt_json x)"
  by (cases x) (simp_all add: opt_json_def)

lemma plain_payload: "plain_numbers a \<Longrightarrow> plain (payload_json a)"
  using plain_opt
  by (auto simp del: plain.simps(5) simp: payload_json_def receipt_json_def seed_json_def context_json_def plain_JInt plain_numbers_def Let_def)

lemma byte_of_nat: "m < 256 \<Longrightarrow> n < 256 \<Longrightarrow> (of_nat m :: u8) = of_nat n \<longleftrightarrow> m = n"
  by (simp add: of_nat_eq_iff take_bit_eq_mod word_of_nat_eq_iff)

lemma encode_unit_read:
  assumes "encode_unit c @ xs = encode_unit d @ ys"
  shows "c = d \<and> xs = ys"
proof -
  let ?m = "of_char c :: nat" and ?n = "of_char d :: nat"
  have lt: "?m < 256" "?n < 256" by simp_all
  have "192 + x div 64 < 256 \<and> 128 + x mod 64 < 256" if "x < 256" for x :: nat
  proof -
    have "x div 64 < 4" using that by (simp add: less_mult_imp_div_less)
    moreover have "x mod 64 < 64" by simp
    ultimately show ?thesis by simp
  qed
  then have div: "192 + ?m div 64 < 256" "192 + ?n div 64 < 256" "128 + ?m mod 64 < 256" "128 + ?n mod 64 < 256" using lt by blast+
  consider "?m < 128" "?n < 128" | "?m < 128" "\<not> ?n < 128" | "\<not> ?m < 128" "?n < 128" | "\<not> ?m < 128" "\<not> ?n < 128" by blast
  then have "?m = ?n \<and> xs = ys"
  proof cases
    case 1
    then show ?thesis using assms lt by (simp add: encode_unit_def Let_def byte_of_nat)
  next
    case 2
    then have "(of_nat ?m :: u8) = of_nat (192 + ?n div 64)" using assms by (simp add: encode_unit_def Let_def)
    then show ?thesis using 2 lt div byte_of_nat [of ?m "192 + ?n div 64"] by simp
  next
    case 3
    then have "(of_nat ?n :: u8) = of_nat (192 + ?m div 64)" using assms by (simp add: encode_unit_def Let_def)
    then show ?thesis using 3 lt div byte_of_nat [of ?n "192 + ?m div 64"] by simp
  next
    case 4
    then have "(of_nat (192 + ?m div 64) :: u8) = of_nat (192 + ?n div 64)" "(of_nat (128 + ?m mod 64) :: u8) = of_nat (128 + ?n mod 64)" "xs = ys"
      using assms by (simp_all add: encode_unit_def Let_def)
    then have "?m div 64 = ?n div 64" "?m mod 64 = ?n mod 64" "xs = ys" using div by (simp_all only: byte_of_nat)
    then show ?thesis by (metis mult_div_mod_eq)
  qed
  then show ?thesis by simp
qed

lemma encode_unit_ne [simp]: "encode_unit c \<noteq> []"
  by (simp add: encode_unit_def Let_def)

lemma encode_text_inj: "encode_text s = encode_text t \<Longrightarrow> s = t"
proof (induction s arbitrary: t)
  case Nil
  then show ?case by (cases t) (auto simp: encode_text_def)
next
  case (Cons c s)
  then obtain d u where t: "t = d # u" by (cases t) (auto simp: encode_text_def)
  then show ?case using Cons encode_unit_read [of c "encode_text s" d "encode_text u"] by (simp add: encode_text_def)
qed

text \<open>Two members that the text does not tell apart.\<close>

definition same :: "js_value \<Rightarrow> js_value \<Rightarrow> bool" where
  "same v w \<longleftrightarrow> (v = JUndefined \<longleftrightarrow> w = JUndefined) \<and> meaning v = meaning w"

lemma lookup_member:
  assumes "distinct (map fst kvs)" "(k, v) \<in> set kvs"
  shows "map_of (map (\<lambda>(k, v). (k, meaning v)) (defined_members kvs)) k = (if v = JUndefined then None else Some (meaning v))"
proof -
  have mem: "(k, x) \<in> set (map (\<lambda>(k, v). (k, meaning v)) (defined_members kvs)) \<longleftrightarrow> v \<noteq> JUndefined \<and> x = meaning v" for x
    using assms eq_key_imp_eq_value [OF assms(1)] by (auto simp: defined_members_def image_iff)
  have dist: "distinct (map fst (map (\<lambda>(k, v). (k, meaning v)) (defined_members kvs)))"
    using assms(1) by (simp add: defined_members_def comp_def case_prod_unfold distinct_map_filter)
  show ?thesis
  proof (cases "v = JUndefined")
    case True
    then have "k \<notin> fst ` set (map (\<lambda>(k, v). (k, meaning v)) (defined_members kvs))" using mem by force
    then show ?thesis using True by (simp add: map_of_eq_None_iff)
  next
    case False
    then show ?thesis using map_of_is_SomeI [OF dist] mem by simp
  qed
qed

lemma object_members:
  assumes "meaning (JObject kvs) = meaning (JObject kws)" "map fst kvs = map fst kws" "distinct (map fst kvs)"
  shows "list_all2 same (map snd kvs) (map snd kws)"
proof -
  have len: "length kvs = length kws" using assms(2) by (metis length_map)
  have "same (snd (kvs ! i)) (snd (kws ! i))" if i: "i < length kvs" for i
  proof -
    have "fst (kvs ! i) = fst (kws ! i)" using assms(2) len i by (metis nth_map)
    then obtain k v w where kv: "kvs ! i = (k, v)" "kws ! i = (k, w)" by (metis prod.collapse)
    have mem: "(k, v) \<in> set kvs" "(k, w) \<in> set kws" using kv i len by (metis nth_mem)+
    have "distinct (map fst kws)" using assms(2,3) by simp
    then have "(if v = JUndefined then None else Some (meaning v)) = (if w = JUndefined then None else Some (meaning w))"
      using lookup_member [OF assms(3) mem(1)] lookup_member [of kws, OF _ mem(2)] assms(1) by simp
    then show ?thesis using kv by (auto simp: same_def split: if_splits)
  qed
  then show ?thesis using len by (simp add: list_all2_conv_all_nth)
qed

lemma same_simps [simp]:
  "same (JString s) (JString t) \<longleftrightarrow> s = t" "same (JBool a) (JBool b) \<longleftrightarrow> a = b" "same (JNumber (Fin (of_int m))) (JNumber (Fin (of_int n))) \<longleftrightarrow> m = n"
  "same (opt_json x) (opt_json y) \<longleftrightarrow> x = y"
  by (auto simp: same_def opt_json_def split: option.splits)

lemma same_object:
  assumes "same (JObject kvs) (JObject kws)" "map fst kvs = map fst kws" "distinct (map fst kvs)"
  shows "list_all2 same (map snd kvs) (map snd kws)"
  using object_members [OF _ assms(2,3)] assms(1) by (simp add: same_def del: meaning.simps)

lemma same_seed: "same (seed_json d) (seed_json e) \<Longrightarrow> d = e"
  unfolding seed_json_def by (drule same_object) (simp_all add: SeedDerivation.equality)

lemma same_context: "same (context_json d) (context_json e) \<Longrightarrow> d = e"
  unfolding context_json_def by (drule same_object) (simp_all add: ArtifactContext.equality)

lemma same_receipt:
  assumes "same (receipt_json r) (receipt_json s)" "er_gateScorePpm r = Fin (of_int a)" "er_confirmScorePpm r = Fin (of_int b)"
    "er_gateScorePpm s = Fin (of_int c)" "er_confirmScorePpm s = Fin (of_int d)"
  shows "r = s"
  using assms(1) unfolding receipt_json_def by (rule same_object [THEN rev_mp]) (use assms(2-5) in \<open>simp_all add: PerPatchReceipt.equality\<close>)

lemma payload_members:
  assumes "meaning (payload_json a) = meaning (payload_json b)" "plain_numbers a" "plain_numbers b"
  shows "ArtifactPayload.truncate a = ArtifactPayload.truncate b"
proof -
  have m: "af_version a = af_version b" "af_epochId a = af_epochId b" "af_minerAddress a = af_minerAddress b" "af_outcome a = af_outcome b"
      "af_compactPatchBytesHex a = af_compactPatchBytesHex b" "af_thresholdPpm a = af_thresholdPpm b"
      "same (seed_json (af_seedDerivation a)) (seed_json (af_seedDerivation b))" "same (receipt_json (af_receipt a)) (receipt_json (af_receipt b))"
      "same (context_json (af_context a)) (context_json (af_context b))"
    using object_members [OF assms(1) [unfolded payload_json_def]] by simp_all
  have "af_receipt a = af_receipt b" using same_receipt [OF m(8)] assms(2,3) by (auto simp: plain_numbers_def Let_def)
  then show ?thesis using m same_seed [OF m(7)] same_context [OF m(9)] by (simp add: ArtifactPayload.truncate_def)
qed

text \<open>C13. The hash that goes on chain fixes the evaluation. Two artifacts, with numbers that are integers below \<open>10^21\<close>, that have the same hash are the same artifact: the patch bytes, the miner, the
  outcome, the threshold, every seed input, the whole receipt with both scores, and the context; otherwise their canonical texts are an explicit Keccak-256 collision.\<close>

theorem artifact_hash_binds:
  assumes "hashPostRevealEvalReportArtifact fmt a = Inr h" "hashPostRevealEvalReportArtifact fmt' b = Inr h" "plain_numbers a" "plain_numbers b"
  shows "ArtifactPayload.truncate a = ArtifactPayload.truncate b \<or>
    (\<exists>s t. canonicalJson fmt \<lparr>safeIntegers = False\<rparr> (payload_json a) = Inr s \<and> canonicalJson fmt' \<lparr>safeIntegers = False\<rparr> (payload_json b) = Inr t \<and>
      collision_between [encode_text s] [encode_text t])"
proof -
  let ?o = "\<lparr>safeIntegers = False\<rparr>"
  obtain s t where st: "canonicalJson fmt ?o (payload_json a) = Inr s" "canonicalJson fmt' ?o (payload_json b) = Inr t"
      "bytesToHex (keccak256 (encode_text s)) = h" "bytesToHex (keccak256 (encode_text t)) = h"
    using assms(1,2) by (auto simp: hashPostRevealEvalReportArtifact_def js_bind_eq_Inr_iff)
  then have k: "keccak256 (encode_text s) = keccak256 (encode_text t)" by (metis bytesToHex_inj)
  have pl: "plain (payload_json a)" "plain (payload_json b)" using plain_payload assms(3,4) by blast+
  show ?thesis
  proof (cases "s = t")
    case True
    have "s = render (nf (payload_json a))" "t = render (nf (payload_json b))"
      using st(1,2) pl serialize_text by (auto simp: canonicalJson_def split: if_splits)
    then have "nf (payload_json a) = nf (payload_json b)" using True render_inj by metis
    then have "meaning (payload_json a) = meaning (payload_json b)" using text_value_nf [OF pl(1)] text_value_nf [OF pl(2)] by metis
    then show ?thesis using payload_members assms(3,4) by blast
  next
    case False
    then have "encode_text s \<noteq> encode_text t" using encode_text_inj by blast
    then show ?thesis using st(1,2) k by (auto simp: collision_between_def)
  qed
qed

section \<open>Examples\<close>

lemma hexToBytes_checked_ok: "isBytes32 s \<Longrightarrow> \<exists>bs. hexToBytes_checked s = Inr bs"
  by (auto simp: isBytes32_def isHex_def hexToBytes_checked_def strip_0x_def Let_def)

lemma proof_total:
  assumes "er_accepted r" "isBytes32 (er_gateSeed r)" "isBytes32 (er_confirmSeed r)"
  shows "\<exists>pr. dualPackProofFromPerPatchReceipt r x = Inr pr"
  using assms hexToBytes_checked_ok [OF assms(2)] hexToBytes_checked_ok [OF assms(3)] by (auto simp: dualPackProofFromPerPatchReceipt_def seedCommit_def)

lemma hash_total:
  assumes "plain_numbers p"
  shows "\<exists>h. hashPostRevealEvalReportArtifact fmt p = Inr h"
proof -
  have "serialize fmt \<lparr>safeIntegers = False\<rparr> (payload_json p) = Inr (render (nf (payload_json p)))"
    using serialize_finite [OF plain_payload [OF assms], of "\<lparr>safeIntegers = False\<rparr>" fmt] by simp
  moreover have "payload_json p \<noteq> JUndefined" by (simp add: payload_json_def)
  ultimately show ?thesis by (simp add: hashPostRevealEvalReportArtifact_def canonicalJson_def)
qed

lemma demo_scores:
  assumes "evaluated (job_request demo_job) (job_deps demo_core_deps (demo_env head b 700) demo_job ctx n) r c"
  shows "er_accepted r" "er_gateScorePpm r = Fin 700" "er_confirmScorePpm r = Fin 700"
  using assms by (auto simp: evaluated_def score_packs_Inr job_scorer_def demo_env_def chain_bind_def)

lemma demo_accepted_result:
  assumes "evaluated (job_request demo_job) (job_deps demo_core_deps (demo_env head b 700) demo_job ctx n) r (demo_ctx 5 9)"
  shows "\<exists>res. accepted_result demo_core_deps (demo_env head b 700) commit demo_job r = Inr res \<and> pa_scores res \<noteq> None \<and> af_receipt (pa_artifact res) = r"
proof -
  let ?res = "\<lparr>pe_accepted = True, pe_reason = None, pe_beforePpm = Fin 400000, pe_deltaPpm = Fin 700\<rparr>"
  note sc = demo_scores [OF assms] and f = evaluatedD [OF assms]
  have inj: "pd_injectedSeeds (job_deps demo_core_deps (demo_env head b 700) demo_job ctx n) = None" by simp
  note sd = evaluated_seeds [OF assms inj]
  have ps: "per_seed (demo_env head b 700) (jb_parent demo_job) (jb_thresholdPpm demo_job) (jb_bytes demo_job) r
      = Inr (AList.update (er_confirmSeed r) ?res [(er_gateSeed r, ?res)])"
    using sd by (simp add: per_seed_def demo_env_def chain_bind_def)
  have ch: "chooseStateAdvanceScore r (AList.update (er_confirmSeed r) ?res [(er_gateSeed r, ?res)]) = Inr ?res"
    using sc sd by (simp add: chooseStateAdvanceScore_def)
  have "plain_numbers (job_payload demo_core_deps commit demo_job r True)"
    using sc f by (simp add: plain_numbers_def Let_def plain_int_def job_payload_def demo_ctx_def)
  then obtain h where h: "hashPostRevealEvalReportArtifact (ev_fmt (demo_env head b 700)) (job_payload demo_core_deps commit demo_job r True) = Inr h"
    using hash_total by blast
  obtain pr where pr: "dualPackProofFromPerPatchReceipt r \<lparr>px_corpusRoot = ed_corpusRoot demo_core_deps, px_coreVersionHash = ed_bundleHash demo_core_deps,
       px_hiddenSeedCommit = commit, px_targetBlockOffset = jb_targetBlockOffset demo_job\<rparr> = Inr pr"
    using proof_total [OF sc(1) sd(1,2)] by blast
  have big: "number_to_big (Fin 700) = Inr 700" by (simp add: number_to_big_def)
  have enc: "encodePatch (jb_patch demo_job\<lparr>scoreDelta := 700\<rparr>) = Inr (patch_bytes (demo_patch\<lparr>scoreDelta := 700\<rparr>))"
    using wire_ok_delta [OF demo_patch_ok(1), of 700] by simp
  have pub: "ev_publishArtifact (demo_env head b 700) a = Inr ()" for a by (simp add: demo_env_def)
  show ?thesis
    unfolding accepted_result_def ps using ch sc h pr big enc pub
    by (simp add: chain_bind_def of_js_def Let_def buildPostRevealEvalReportArtifact_def del: demo_job_simps demo_core_simps(1-3))
qed

lemma demo_accepts:
  "\<exists>st res ctx n. scorePatch createInMemoryDedupStore demo_core_deps (demo_env 5 9 700) commit demo_input empty_store = (st, Inr (ProdAccepted res)) \<and>
    evaluated (job_request demo_job) (job_deps demo_core_deps (demo_env 5 9 700) demo_job ctx n) (af_receipt (pa_artifact res)) (demo_ctx 5 9)"
proof -
  let ?mem = createInMemoryDedupStore
  have plan: "plan_attempt ?mem (jb_key demo_job) demo_miner None empty_store = Attempt None 0 True"
    by (simp add: plan_attempt_def memory_ops empty_store_def)
  have draw: "draw_seed (job_deps demo_core_deps (demo_env 5 9 700) demo_job None 0) = Inr (demo_ctx 5 9)"
    by (simp add: draw_seed_def demo_env_def demo_ctx_def chain_bind_def Let_def)
  obtain r where r: "evaluate_job ?mem demo_core_deps (demo_env 5 9 700) demo_job empty_store = (demo_store, Inr (Inr r))"
      "evaluated (job_request demo_job) (job_deps demo_core_deps (demo_env 5 9 700) demo_job None 0) r (demo_ctx 5 9)"
    using demo_evaluate [OF plan _ _ draw] by (auto simp: demo_store_def)
  have "op_getAttempt ?mem (jb_key demo_job) demo_store \<noteq> None"
    unfolding demo_store_def memory.attempt_draw by (simp add: memory_ops empty_store_def)
  then obtain s where s: "op_recordAttemptOutcome ?mem (jb_key demo_job) AttemptAccepted OutStateAdvance None demo_store = Inr s"
    by (auto simp: createInMemoryDedupStore_def mem_recordAttemptOutcome_def)
  obtain res where res: "accepted_result demo_core_deps (demo_env 5 9 700) commit demo_job r = Inr res" "pa_scores res \<noteq> None" "af_receipt (pa_artifact res) = r"
    using demo_accepted_result [OF r(2)] by blast
  obtain sx where sx: "pa_scores res = Some sx" using res(2) by blast
  have acc: "er_accepted r" "er_receivedAtBlock r = 5" "er_targetBlock r = 20" using demo_scores [OF r(2)] evaluatedD [OF r(2)] by (simp_all add: demo_ctx_def)
  have "\<exists>st. settle_dual ?mem demo_core_deps (demo_env 5 9 700) commit demo_job r demo_store = (st, Inr (ProdAccepted res))"
    using acc res(1) sx s by (simp add: settle_dual_def record_outcome_def Let_def chain_bind_def del: demo_job_simps(1))
  then show ?thesis using demo_prepared_job r res(3) by (auto simp: scorePatch_def)
qed

lemma demo_core: "\<exists>commit. createCoreTexEvaluatorCore demo_core_deps = Inr commit"
proof -
  have "parseHex (demo_hash 1) = Inr (replicate 32 1)" by (simp add: demo_hash_def)
  then show ?thesis by (simp add: createCoreTexEvaluatorCore_def validatePerMinerCap_def derived_commit_def) (simp add: demo_core_deps_def Let_def)
qed

lemma demo_receipt_shape:
  assumes "evaluated (job_request demo_job) (job_deps demo_core_deps (demo_env 5 9 700) demo_job ctx n) r (demo_ctx 5 9)"
  shows "receipt_shape r" "er_blockhash r = demo_hash 9" "er_targetBlock r = 20"
  using demo_scores [OF assms] evaluatedD [OF assms]
  by (simp_all add: receipt_shape_def demo_ctx_def safe_nat_def is_safe_integer_def)

theorem artifact_replays_witness:
  "\<exists>commit st res. scorePatch createInMemoryDedupStore demo_core_deps (demo_env 5 9 700) commit demo_input empty_store = (st, Inr (ProdAccepted res)) \<and>
    verifyPostRevealEvalReportArtifact (ev_fmt (demo_env 5 9 700)) (pa_artifact res)
      \<lparr>xd_getBlockHash = (\<lambda>_. Inr (demo_hash 9)), xd_scorer = job_scorer (demo_env 5 9 700) (jb_parent demo_job) (jb_thresholdPpm demo_job), xd_epochSecret = demo_hash 1\<rparr>
    = Inr (Inr (af_artifactHash (pa_artifact res), Fin 0, Fin 0))"
proof -
  obtain commit where c: "createCoreTexEvaluatorCore demo_core_deps = Inr commit" using demo_core by blast
  obtain st res ctx n where run: "scorePatch createInMemoryDedupStore demo_core_deps (demo_env 5 9 700) commit demo_input empty_store = (st, Inr (ProdAccepted res))"
      "evaluated (job_request demo_job) (job_deps demo_core_deps (demo_env 5 9 700) demo_job ctx n) (af_receipt (pa_artifact res)) (demo_ctx 5 9)"
    using demo_accepts by blast
  note rs = demo_receipt_shape [OF run(2)]
  have shape: "deps_shape demo_core_deps" "isBytes32 (si_parentStateRoot demo_input)" "si_injectedSeeds demo_input = None"
    by (simp_all add: deps_shape_def safe_nonneg_def demo_input_def)
  have blk: "hexEqual (demo_hash 9) (er_blockhash (af_receipt (pa_artifact res)))" by (simp add: rs(2))
  from artifact_replays [OF c demo_core_simps(1) shape(1) run(1) demo_prepared_job shape(3,2) rs(1), of "\<lambda>_. Inr (demo_hash 9)" "demo_hash 9", OF refl blk]
  show ?thesis using run(1) by blast
qed

text \<open>Invented seeds, an invented block hash and invented scores, at block 0.\<close>

definition forged_receipt :: "string \<Rightarrow> PerPatchReceipt" where
  "forged_receipt key = \<lparr>er_patchHash = computePatchHash (patch_bytes demo_patch), er_dedupKey = key, er_parentRoot = demo_root, er_minerAddress = demo_miner,
     er_epochId = 3, er_receivedAtBlock = 0, er_targetBlock = 15, er_blockhash = demo_hash 8, er_gateSeed = demo_hash 7, er_confirmSeed = demo_hash 6,
     er_gateScorePpm = Fin 999999, er_confirmScorePpm = Fin 999999, er_accepted = True, er_rejectionReason = None, er_innerRejectionReason = None\<rparr>"

definition forged_payload :: "string \<Rightarrow> ArtifactPayload" where
  "forged_payload key = job_payload demo_core_deps (bytesToHex (keccak256 (replicate 32 1))) demo_job (forged_receipt key) True"

lemma forged_shape:
  assumes "isBytes32 h"
  shows "shape_ok (ArtifactPayload.extend (forged_payload key) \<lparr>af_artifactHash = h, af_evalReportHash = h\<rparr>)"
    "seed_binding_ok (ArtifactPayload.extend (forged_payload key) \<lparr>af_artifactHash = h, af_evalReportHash = h\<rparr>)"
proof -
  have hs: "af_artifactHash (ArtifactPayload.extend p \<lparr>af_artifactHash = h, af_evalReportHash = h\<rparr>) = h" "af_evalReportHash (ArtifactPayload.extend p \<lparr>af_artifactHash = h, af_evalReportHash = h\<rparr>) = h" for p
    by (simp_all add: ArtifactPayload.extend_def)
  have low: "toLowerCase (demo_hash b) = demo_hash b" for b by (simp add: demo_hash_def)
  show "shape_ok (ArtifactPayload.extend (forged_payload key) \<lparr>af_artifactHash = h, af_evalReportHash = h\<rparr>)"
    using assms demo_facts(3)
    by (simp add: shape_ok_def hs forged_payload_def Let_def) (simp add: job_payload_def forged_receipt_def safe_nonneg_def safe_nat_def is_safe_integer_def low)
  show "seed_binding_ok (ArtifactPayload.extend (forged_payload key) \<lparr>af_artifactHash = h, af_evalReportHash = h\<rparr>)"
    by (simp add: seed_binding_ok_def forged_payload_def Let_def) (simp add: job_payload_def forged_receipt_def low)
qed

lemma forged_plain: "plain_numbers (forged_payload key)"
proof -
  have "\<exists>n. Fin 999999 = Fin (of_int n) \<and> plain_int n" by (intro exI [of _ 999999]) (simp add: plain_int_def)
  then show ?thesis by (simp add: plain_numbers_def forged_payload_def Let_def) (simp add: job_payload_def forged_receipt_def plain_int_def)
qed

theorem block_zero_unchecked_witness:
  "\<exists>a r. af_receipt a = r \<and> er_gateSeed r = demo_hash 7 \<and> er_gateScorePpm r = Fin 999999 \<and> verifyPostRevealEvalReportArtifact (\<lambda>_. []) a
      \<lparr>xd_getBlockHash = (\<lambda>_. Inl (CoreFault (JsError []))), xd_scorer = (\<lambda>_ _ _ _. Inl (CoreFault (JsError []))), xd_epochSecret = demo_hash 1\<rparr>
    = Inr (Inr (af_artifactHash a, Fin 0, Fin 0))"
proof -
  obtain key where key: "computeDedupKey demo_root (patch_bytes demo_patch) = Inr key" using computeDedupKey_ok demo_root_hex(1) by blast
  obtain h where h: "hashPostRevealEvalReportArtifact (\<lambda>_. []) (forged_payload key) = Inr h" using hash_total [OF forged_plain] by blast
  let ?a = "ArtifactPayload.extend (forged_payload key) \<lparr>af_artifactHash = h, af_evalReportHash = h\<rparr>"
  have b: "buildPostRevealEvalReportArtifact (\<lambda>_. []) (forged_payload key) = Inr ?a" using h by (simp add: build_Inr)
  have flds: "af_receipt (forged_payload key) = forged_receipt key" "af_thresholdPpm (forged_payload key) = 100" "af_compactPatchBytesHex (forged_payload key) = bytesToHex (patch_bytes demo_patch)"
    by (simp_all add: forged_payload_def)
  have com: "ac_hiddenSeedCommit (af_context (forged_payload key)) = bytesToHex (keccak256 (replicate 32 1))" by (simp add: forged_payload_def job_payload_def)
  have sec: "hexToBytes_checked (demo_hash 1) = Inr (replicate 32 1)" by (simp add: demo_hash_def)
  have rcp: "er_accepted (forged_receipt key)" "er_receivedAtBlock (forged_receipt key) = 0" "er_gateScorePpm (forged_receipt key) = Fin 999999" "er_confirmScorePpm (forged_receipt key) = Fin 999999"
      "er_patchHash (forged_receipt key) = computePatchHash (patch_bytes demo_patch)" "er_parentRoot (forged_receipt key) = demo_root" "er_dedupKey (forged_receipt key) = key"
      "er_gateSeed (forged_receipt key) = demo_hash 7"
    by (simp_all add: forged_receipt_def)
  from block_zero_unchecked [OF b forged_shape(1) [OF hash_shape(1) [OF h]] forged_shape(2) [OF hash_shape(1) [OF h]] _ _ _ _ sec, of "patch_bytes demo_patch" key
      "\<lambda>_. Inl (CoreFault (JsError []))" "\<lambda>_ _ _ _. Inl (CoreFault (JsError []))"]
  show ?thesis using key flds com rcp by (intro exI [of _ ?a] exI [of _ "forged_receipt key"]) simp
qed

theorem artifact_hash_binds_witness:
  "\<exists>h. hashPostRevealEvalReportArtifact (\<lambda>_. []) (forged_payload []) = Inr h \<and> ArtifactPayload.truncate (forged_payload []) = ArtifactPayload.truncate (forged_payload [])"
proof -
  obtain h where h: "hashPostRevealEvalReportArtifact (\<lambda>_. []) (forged_payload []) = Inr h" using hash_total [OF forged_plain] by blast
  from artifact_hash_binds [OF h h forged_plain forged_plain] show ?thesis using h by (auto simp: collision_between_def)
qed

end
