(* ===== verification/ScorerServer.thy ===== *)
theory ScorerServer
  imports EvalReport
begin

text \<open>
  \<open>packages/coretex/src/scorer-server-cli.ts\<close> and \<open>coordinator/scorer-pair-trace.ts\<close>: the keyless host that scores patches for the coordinator. A job is
  checked (shape, pins, parent state, seeds) before the evaluator runs; jobs wait in a bounded queue; the reranker records what it scored. The hash function of the
  platform, its number formatting, the reranker and the evaluator are arguments. Numbers that arrive in a job are arbitrary numbers until they are checked, and
  \<open>None\<close> is a member that is missing or has another type. The texts of refusals are shortened.
\<close>

section \<open>Implementation\<close>

subsection \<open>The trace of scored pairs\<close>

record RerankPair =
  pr_query :: "string option"
  pr_document :: "string option"

text \<open>A score of the reranker: the numbers of the model have one zero, the negative one is apart.\<close>

datatype js_score = NegZero | Score js_number

record trace_env =
  tv_sha256 :: "string \<Rightarrow> string"
  tv_toPrecision17 :: "rat \<Rightarrow> string"

text \<open>A hash object is the text it has been fed.\<close>

record trace_state =
  tr_pairOrder :: nat
  tr_scoredPairCount :: nat
  tr_promptHashChain :: string
  tr_scoreChain :: string

record ScorerPairTraceSnapshot =
  ts_totalScoredPairCount :: nat
  ts_pairTraceHash :: string
  ts_scoreArrayHash :: string

fun canonScore :: "trace_env \<Rightarrow> js_score \<Rightarrow> string option" where
  "canonScore tv NegZero = Some ''0''"
| "canonScore tv (Score (Fin r)) = Some (tv_toPrecision17 tv r)"
| "canonScore tv (Score _) = None"

text \<open>The canonical text of a pair: its members in the order of their names.\<close>

definition promptHashOf :: "trace_env \<Rightarrow> RerankPair \<Rightarrow> string" where
  "promptHashOf tv p = ''0x'' @ tv_sha256 tv (''{'' @ json_string ''document'' @ '':'' @ json_string (or_else (pr_document p) []) @ '','' @
     json_string ''query'' @ '':'' @ json_string (or_else (pr_query p) []) @ ''}'')"

definition trace_line :: "nat \<Rightarrow> string \<Rightarrow> string" where
  "trace_line i s = dec_digits i @ [CHR 0x00] @ s @ [CHR 0x0A]"

definition fold_pair :: "trace_env \<Rightarrow> RerankPair \<Rightarrow> string \<Rightarrow> trace_state \<Rightarrow> trace_state" where
  "fold_pair tv p s t = t\<lparr>tr_promptHashChain := tr_promptHashChain t @ trace_line (tr_pairOrder t) (promptHashOf tv p),
     tr_scoreChain := tr_scoreChain t @ trace_line (tr_pairOrder t) s, tr_pairOrder := tr_pairOrder t + 1\<rparr>"

fun fold_pairs :: "trace_env \<Rightarrow> (RerankPair \<times> js_score) list \<Rightarrow> trace_state \<Rightarrow> trace_state \<times> unit chain" where
  "fold_pairs tv [] t = (t, Inr ())"
| "fold_pairs tv ((p, x) # rest) t = (case canonScore tv x of
      None \<Rightarrow> (t, Inl (CoreFault (JsError ''traced reranker got non-finite score'')))
    | Some s \<Rightarrow> fold_pairs tv rest (fold_pair tv p s t))"

text \<open>\<open>score\<close> of the wrapped reranker. A score that is not finite stops it in the middle of the batch.\<close>

definition traced_score :: "trace_env \<Rightarrow> (RerankPair list \<Rightarrow> js_score list chain) \<Rightarrow> RerankPair list \<Rightarrow> trace_state \<Rightarrow> trace_state \<times> js_score list chain" where
  "traced_score tv score pairs t =
     (if pairs = [] then (t, Inr [])
      else case score pairs of
          Inl e \<Rightarrow> (t, Inl e)
        | Inr out \<Rightarrow>
            if length out \<noteq> length pairs then (t, Inl (CoreFault (JsError ''traced reranker expected as many scores as pairs'')))
            else (case fold_pairs tv (zip pairs out) t of
                (t', Inl e) \<Rightarrow> (t', Inl e)
              | (t', Inr _) \<Rightarrow> (t'\<lparr>tr_scoredPairCount := tr_pairOrder t'\<rparr>, Inr out)))"

definition traceSnapshot :: "trace_env \<Rightarrow> trace_state \<Rightarrow> ScorerPairTraceSnapshot" where
  "traceSnapshot tv t = \<lparr>ts_totalScoredPairCount = tr_scoredPairCount t, ts_pairTraceHash = ''0x'' @ tv_sha256 tv (tr_promptHashChain t),
     ts_scoreArrayHash = ''0x'' @ tv_sha256 tv (tr_scoreChain t)\<rparr>"

definition resetTrace :: trace_state where
  "resetTrace = \<lparr>tr_pairOrder = 0, tr_scoredPairCount = 0, tr_promptHashChain = [], tr_scoreChain = []\<rparr>"

subsection \<open>Jobs\<close>

text \<open>The hashes of the scorer's code by their names, in the order of the object; a hash may be \<open>null\<close>.\<close>

type_synonym ScorerCodeHealth = "(string \<times> string option) list"

record ScorerExpectedPins =
  xp_modelId :: string
  xp_revision :: string
  xp_promptTemplateHash :: string
  xp_bundleHash :: string
  xp_corpusRoot :: string
  xp_code :: "ScorerCodeHealth option"

record ScorerPublicEvalContext =
  pc_receivedAtBlock :: "js_number option"
  pc_targetBlock :: "js_number option"
  pc_blockhash :: "string option"
  pc_gateSeed :: "string option"
  pc_confirmSeed :: "string option"
  pc_targetBlockOffset :: "js_number option"
  pc_hiddenSeedCommit :: "string option"

record ScorerJobRequest =
  jr_jobId :: string
  jr_epochId :: js_number
  jr_parentStateRoot :: string
  jr_packedParentStateHex :: string
  jr_patchHash :: string
  jr_corpusRoot :: string
  jr_bundleHash :: string
  jr_coreVersionHash :: string
  jr_thresholdPpm :: js_number
  jr_policyHash :: string
  jr_publicEvalContext :: "ScorerPublicEvalContext option"
  jr_compactPatchBytesHex :: string
  jr_miner :: string
  jr_expectedScorerPins :: "ScorerExpectedPins option"

record ScorerHealth =
  sh_commit :: string
  sh_modelId :: string
  sh_revision :: string
  sh_promptTemplateHash :: string
  sh_dtype :: string
  sh_tf32 :: bool
  sh_cuda :: bool
  sh_device :: string
  sh_torch :: "string option"
  sh_transformers :: "string option"
  sh_python :: "string option"
  sh_code :: "ScorerCodeHealth option"

record ScorerJobResult =
  rr_jobId :: string
  rr_accepted :: "bool option"
  rr_rejectionReason :: "string option"
  rr_innerRejectionReason :: "string option"
  rr_scoreBeforePpm :: "js_number option"
  rr_scoreAfterPpm :: "js_number option"
  rr_deltaPpm :: js_number
  rr_gateScorePpm :: js_number
  rr_confirmScorePpm :: js_number
  rr_thresholdPpmUsed :: js_number
  rr_policyHash :: string
  rr_evalReportHash :: "string option"
  rr_artifactHash :: "string option"
  rr_artifact :: "Artifact option"
  rr_evaluationProof :: "DualPackProof option"
  rr_rewrittenPatchBytesHex :: "string option"
  rr_pairTraceHash :: "string option"
  rr_scoreArrayHash :: "string option"
  rr_totalScoredPairCount :: nat
  rr_wallMs :: int
  rr_telemetry :: js_value
  rr_scorerHealth :: "ScorerHealth option"

record ScorerLoadedPins =
  lp_modelId :: string
  lp_revision :: string
  lp_promptTemplateHash :: string
  lp_bundleHash :: string
  lp_corpusRoot :: string
  lp_coreVersionHash :: string
  lp_hiddenSeedCommit :: "string option"
  lp_code :: "ScorerCodeHealth option"

definition hexEq_opt :: "string option \<Rightarrow> string option \<Rightarrow> bool" where
  "hexEq_opt a b \<longleftrightarrow> (case (a, b) of (Some x, Some y) \<Rightarrow> toLowerCase x = toLowerCase y | _ \<Rightarrow> False)"

text \<open>The name of the first hash that differs. Both files have this function.\<close>

definition code_differs :: "ScorerCodeHealth \<Rightarrow> string \<times> string option \<Rightarrow> bool" where
  "code_differs actual = (\<lambda>(key, want). case want of
       Some w \<Rightarrow> (case map_of actual key of Some (Some got) \<Rightarrow> toLowerCase got \<noteq> toLowerCase w | _ \<Rightarrow> True)
     | None \<Rightarrow> map_of actual key \<noteq> Some None)"

definition compareScorerCodeHealth :: "ScorerCodeHealth option \<Rightarrow> ScorerCodeHealth option \<Rightarrow> string option" where
  "compareScorerCodeHealth expected actual = (case expected of
       None \<Rightarrow> None
     | Some es \<Rightarrow> (case actual of None \<Rightarrow> Some ''missing'' | Some xs \<Rightarrow> map_option fst (find (code_differs xs) es)))"

definition checkScorerJobPins :: "ScorerJobRequest \<Rightarrow> ScorerLoadedPins \<Rightarrow> string option" where
  "checkScorerJobPins job loaded = (case jr_expectedScorerPins job of
       None \<Rightarrow> Some ''expectedScorerPins missing''
     | Some p \<Rightarrow> first_failure
         [(xp_modelId p \<noteq> lp_modelId loaded, ''expectedScorerPins.modelId''),
          (xp_revision p \<noteq> lp_revision loaded, ''expectedScorerPins.revision''),
          (\<not> hexEqual (xp_promptTemplateHash p) (lp_promptTemplateHash loaded), ''expectedScorerPins.promptTemplateHash''),
          (\<not> hexEqual (xp_bundleHash p) (lp_bundleHash loaded), ''expectedScorerPins.bundleHash''),
          (\<not> hexEqual (xp_corpusRoot p) (lp_corpusRoot loaded), ''expectedScorerPins.corpusRoot''),
          (compareScorerCodeHealth (xp_code p) (lp_code loaded) \<noteq> None, ''expectedScorerPins.code''),
          (\<not> hexEqual (jr_corpusRoot job) (lp_corpusRoot loaded), ''job.corpusRoot''),
          (\<not> hexEqual (jr_bundleHash job) (lp_bundleHash loaded), ''job.bundleHash''),
          (\<not> hexEqual (jr_coreVersionHash job) (lp_coreVersionHash loaded), ''job.coreVersionHash''),
          ((case (Option.bind (jr_publicEvalContext job) pc_hiddenSeedCommit, lp_hiddenSeedCommit loaded) of
              (Some jobCommit, Some commit) \<Rightarrow> \<not> hexEqual jobCommit commit | _ \<Rightarrow> False), ''publicEvalContext.hiddenSeedCommit'')])"

definition verifyJobParentState :: "ScorerJobRequest \<Rightarrow> (string + CortexState) js" where
  "verifyJobParentState job = (case js_bind (Merkle.hexToBytes (jr_packedParentStateHex job)) unpack of
       Inl e \<Rightarrow> Inr (Inl ''packedParentStateHex did not unpack'')
     | Inr state \<Rightarrow> js_bind (merkleizeState state) (\<lambda>root.
         if toLowerCase (bytesToHex root) \<noteq> toLowerCase (jr_parentStateRoot job) then Inr (Inl ''packedParentStateHex merkles to another root'')
         else Inr (Inr state)))"

text \<open>\<open>Number.isSafeInteger(x) && x > 0\<close>.\<close>

definition positive_int :: "js_number option \<Rightarrow> int option" where
  "positive_int x = (case Option.bind x safe_int of Some n \<Rightarrow> if 0 < n then Some n else None | None \<Rightarrow> None)"

definition some_bytes32 :: "string option \<Rightarrow> bool" where
  "some_bytes32 x \<longleftrightarrow> (case x of Some s \<Rightarrow> isBytes32 s | None \<Rightarrow> False)"

text \<open>The sum of two safe integers, rounded to a double, equals a safe integer exactly when the integers do.\<close>

definition resolveJobSeedContext :: "ScorerJobRequest \<Rightarrow> string + PerPatchSeedContext \<times> (string \<times> string)" where
  "resolveJobSeedContext job = (case jr_publicEvalContext job of
       None \<Rightarrow> Inl ''publicEvalContext is required''
     | Some ctx \<Rightarrow>
         (case positive_int (pc_receivedAtBlock ctx) of None \<Rightarrow> Inl ''publicEvalContext.receivedAtBlock must be a positive integer''
     | Some received \<Rightarrow>
         (case positive_int (pc_targetBlock ctx) of None \<Rightarrow> Inl ''publicEvalContext.targetBlock must be a positive integer''
     | Some target \<Rightarrow>
         (case positive_int (pc_targetBlockOffset ctx) of None \<Rightarrow> Inl ''publicEvalContext.targetBlockOffset must be a positive integer''
     | Some offset \<Rightarrow>
         if target \<noteq> received + offset then Inl ''publicEvalContext.targetBlock != receivedAtBlock + targetBlockOffset''
         else if \<not> some_bytes32 (pc_blockhash ctx) then Inl ''publicEvalContext.blockhash must be bytes32''
         else if \<not> some_bytes32 (pc_gateSeed ctx) then Inl ''publicEvalContext.gateSeed must be bytes32''
         else if \<not> some_bytes32 (pc_confirmSeed ctx) then Inl ''publicEvalContext.confirmSeed must be bytes32''
         else Inr (\<lparr>sd_receivedAtBlock = received, sd_targetBlock = target, sd_blockhash = toLowerCase (the (pc_blockhash ctx))\<rparr>,
                   (toLowerCase (the (pc_gateSeed ctx)), toLowerCase (the (pc_confirmSeed ctx))))))))"

definition validateJobShape :: "ScorerJobRequest option \<Rightarrow> string option" where
  "validateJobShape posted = (case posted of
       None \<Rightarrow> Some ''job must be an object''
     | Some job \<Rightarrow> first_failure
         [(jr_jobId job = [], ''jobId required''),
          (safe_int (jr_epochId job) = None, ''epochId must be an integer''),
          (\<not> isBytes32 (jr_parentStateRoot job), ''parentStateRoot must be bytes32''),
          (\<not> isBytes32 (jr_patchHash job), ''patchHash must be bytes32''),
          (\<not> isBytes32 (jr_corpusRoot job), ''corpusRoot must be bytes32''),
          (\<not> isBytes32 (jr_bundleHash job), ''bundleHash must be bytes32''),
          (\<not> isBytes32 (jr_coreVersionHash job), ''coreVersionHash must be bytes32''),
          (\<not> isHex (jr_compactPatchBytesHex job), ''compactPatchBytesHex must be hex''),
          (\<not> isHex (jr_packedParentStateHex job), ''packedParentStateHex must be hex''),
          (length (jr_packedParentStateHex job) - 2 \<noteq> 2 * PACKED_SIZE, ''packedParentStateHex must be PACKED_SIZE bytes''),
          (\<not> isAddress (jr_miner job), ''miner must be an address''),
          (\<not> safe_nat (jr_thresholdPpm job), ''thresholdPpm must be a non-negative integer''),
          (\<not> isBytes32 (jr_policyHash job), ''policyHash must be bytes32''),
          (jr_expectedScorerPins job = None, ''expectedScorerPins required'')])"

subsection \<open>The job handler\<close>

text \<open>The evaluator, the traced reranker, the clock and the telemetry share a state.\<close>

record 's ScorerJobHandlerDeps =
  hd_scorePatch :: "ScoreInput \<Rightarrow> 's \<Rightarrow> 's \<times> ProductionEvalResult chain"
  hd_resetTrace :: "'s \<Rightarrow> 's"
  hd_traceSnapshot :: "'s \<Rightarrow> ScorerPairTraceSnapshot"
  hd_loadedPins :: ScorerLoadedPins
  hd_scorerHealth :: ScorerHealth
  hd_telemetry :: "('s \<Rightarrow> js_value) option"
  hd_now :: "'s \<Rightarrow> int"

datatype ScorerJobResponse = JobResult ScorerJobResult | JobError int string

definition job_input :: "ScorerJobRequest \<Rightarrow> CortexState \<Rightarrow> PerPatchSeedContext \<Rightarrow> string \<times> string \<Rightarrow> ScoreInput" where
  "job_input job state ctx seeds = \<lparr>si_patchBytesHex = jr_compactPatchBytesHex job, si_parentStateRoot = jr_parentStateRoot job, si_miner = jr_miner job,
     si_parentState = Some state, si_screenerThresholdPpm = Some (num (jr_thresholdPpm job)), si_seedContext = Some ctx, si_injectedSeeds = Some seeds,
     si_targetBlockOffset = Option.bind (jr_publicEvalContext job) (\<lambda>c. positive_int (pc_targetBlockOffset c))\<rparr>"

text \<open>The members that accepted and rejected results share; the others as in a rejection.\<close>

definition result_base :: "'s ScorerJobHandlerDeps \<Rightarrow> ScorerJobRequest \<Rightarrow> int \<Rightarrow> 's \<Rightarrow> ScorerJobResult" where
  "result_base deps job start st = (let trace = hd_traceSnapshot deps st in
     \<lparr>rr_jobId = jr_jobId job, rr_accepted = Some False, rr_rejectionReason = None, rr_innerRejectionReason = None, rr_scoreBeforePpm = None, rr_scoreAfterPpm = None,
      rr_deltaPpm = Fin 0, rr_gateScorePpm = Fin 0, rr_confirmScorePpm = Fin 0, rr_thresholdPpmUsed = jr_thresholdPpm job, rr_policyHash = toLowerCase (jr_policyHash job),
      rr_evalReportHash = None, rr_artifactHash = None, rr_artifact = None, rr_evaluationProof = None, rr_rewrittenPatchBytesHex = None,
      rr_pairTraceHash = Some (ts_pairTraceHash trace), rr_scoreArrayHash = Some (ts_scoreArrayHash trace), rr_totalScoredPairCount = ts_totalScoredPairCount trace,
      rr_wallMs = hd_now deps st - start, rr_telemetry = (case hd_telemetry deps of Some f \<Rightarrow> f st | None \<Rightarrow> JNull), rr_scorerHealth = Some (hd_scorerHealth deps)\<rparr>)"

definition pack_score :: "PackProof option \<Rightarrow> js_number" where
  "pack_score p = (case p of Some g \<Rightarrow> pk_scorePpm g | None \<Rightarrow> Fin 0)"

fun job_result :: "ScorerJobResult \<Rightarrow> ProductionEvalResult \<Rightarrow> ScorerJobResult" where
  "job_result base (ProdReject code inner) = base\<lparr>rr_rejectionReason := Some code, rr_innerRejectionReason := (if inner = Some [] then None else inner)\<rparr>"
| "job_result base (ProdAccepted res) =
     (let proof = ea_evaluationProof (pa_accepted res) in
      base\<lparr>rr_accepted := Some True, rr_scoreBeforePpm := map_option sx_scoreBeforePpm (pa_scores res), rr_scoreAfterPpm := map_option sx_scoreAfterPpm (pa_scores res),
        rr_deltaPpm := ea_deterministicDeltaPpm (pa_accepted res), rr_gateScorePpm := pack_score (Option.bind proof dp_gate),
        rr_confirmScorePpm := pack_score (Option.bind proof dp_confirm), rr_evalReportHash := Some (ea_evalReportHash (pa_accepted res)),
        rr_artifactHash := Some (ea_artifactHash (pa_accepted res)), rr_artifact := Some (pa_artifact res), rr_evaluationProof := proof,
        rr_rewrittenPatchBytesHex := map_option sx_rewrittenPatchBytesHex (pa_scores res)\<rparr>)"

definition run_job :: "ScorerJobRequest \<Rightarrow> 's ScorerJobHandlerDeps \<Rightarrow> ScoreInput \<Rightarrow> 's \<Rightarrow> 's \<times> ScorerJobResponse" where
  "run_job job deps input st =
     (let st0 = hd_resetTrace deps st; start = hd_now deps st0 in
      case hd_scorePatch deps input st0 of
          (st', Inl e) \<Rightarrow> (st', JobError 500 ''eval-failure'')
        | (st', Inr res) \<Rightarrow> (st', JobResult (job_result (result_base deps job start st') res)))"

text \<open>The handler; \<open>Inl\<close> is an exception outside its own \<open>try\<close>.\<close>

definition handleScoreJob :: "ScorerJobRequest option \<Rightarrow> 's ScorerJobHandlerDeps \<Rightarrow> 's \<Rightarrow> 's \<times> ScorerJobResponse js" where
  "handleScoreJob posted deps st = (case validateJobShape posted of
       Some why \<Rightarrow> (st, Inr (JobError 400 ''invalid-job''))
     | None \<Rightarrow> let job = the posted in
         if checkScorerJobPins job (hd_loadedPins deps) \<noteq> None then (st, Inr (JobError 409 ''pin-mismatch''))
         else (case verifyJobParentState job of
             Inl e \<Rightarrow> (st, Inl e)
           | Inr (Inl why) \<Rightarrow> (st, Inr (JobError 422 ''SCORER_PARENT_STATE_MISMATCH''))
           | Inr (Inr state) \<Rightarrow> (case resolveJobSeedContext job of
               Inl why \<Rightarrow> (st, Inr (JobError 422 ''SCORER_SEED_CONTEXT_INVALID''))
             | Inr (ctx, seeds) \<Rightarrow> let (st', response) = run_job job deps (job_input job state ctx seeds) st in (st', Inr response))))"

subsection \<open>The job queue\<close>

record 'j ScorerJobQueue =
  jq_maxQueueDepth :: nat
  jq_concurrency :: nat
  jq_queue :: "'j list"
  jq_active :: nat

definition createScorerJobQueue :: "rat option \<Rightarrow> rat option \<Rightarrow> 'j ScorerJobQueue" where
  "createScorerJobQueue maxQueueDepth concurrency = \<lparr>jq_maxQueueDepth = nat (max 0 \<lfloor>or_else maxQueueDepth 8\<rfloor>),
     jq_concurrency = nat (max 1 \<lfloor>or_else concurrency 1\<rfloor>), jq_queue = [], jq_active = 0\<rparr>"

text \<open>The jobs that \<open>drain\<close> starts, in order. \<open>run\<close> is asynchronous: its \<open>finally\<close> comes later, as an event of its own.\<close>

fun drain_loop :: "nat \<Rightarrow> nat \<Rightarrow> 'j list \<Rightarrow> nat \<times> 'j list \<times> 'j list" where
  "drain_loop conc active [] = (active, [], [])"
| "drain_loop conc active (item # queue) =
     (if active < conc then (let (a, q, started) = drain_loop conc (active + 1) queue in (a, q, item # started)) else (active, item # queue, []))"

definition drain :: "'j ScorerJobQueue \<Rightarrow> 'j ScorerJobQueue \<times> 'j list" where
  "drain s = (let (a, q, started) = drain_loop (jq_concurrency s) (jq_active s) (jq_queue s) in (s\<lparr>jq_active := a, jq_queue := q\<rparr>, started))"

text \<open>\<open>None\<close> is the answer 503, \<open>scorer-queue-full\<close>.\<close>

definition enqueue :: "'j \<Rightarrow> 'j ScorerJobQueue \<Rightarrow> ('j ScorerJobQueue \<times> 'j list) option" where
  "enqueue job s = (if jq_maxQueueDepth s \<le> length (jq_queue s) then None else Some (drain (s\<lparr>jq_queue := jq_queue s @ [job]\<rparr>)))"

definition job_finished :: "'j ScorerJobQueue \<Rightarrow> 'j ScorerJobQueue \<times> 'j list" where
  "job_finished s = drain (s\<lparr>jq_active := jq_active s - 1\<rparr>)"

subsection \<open>Access\<close>

definition js_trim :: "string \<Rightarrow> string" where
  "js_trim s = rev (dropWhile js_space (rev (dropWhile js_space s)))"

definition LOOPBACK_HOSTS :: "string list" where
  "LOOPBACK_HOSTS = [''127.0.0.1'', ''localhost'', ''::1'']"

definition resolveScorerAuth :: "string option \<Rightarrow> string option \<Rightarrow> (string \<times> string option) js" where
  "resolveScorerAuth hostVar tokenVar =
     (let host = or_else hostVar ''127.0.0.1'';
          token = (case map_option js_trim tokenVar of Some t \<Rightarrow> if t = [] then None else Some t | None \<Rightarrow> None)
      in if host \<notin> set LOOPBACK_HOSTS \<and> token = None then Inl (JsError ''CORETEX_SCORER_AUTH_TOKEN is required'') else Inr (host, token))"

text \<open>The group of \<open>/^Bearer\s+(.+)$/\<close>; the header is trimmed, so the group starts at the first character that is not a space.\<close>

definition bearer_credential :: "string \<Rightarrow> string option" where
  "bearer_credential header =
     (let rest = drop 6 header; cred = dropWhile js_space rest in
      if take 6 header = ''Bearer'' \<and> takeWhile js_space rest \<noteq> [] \<and> cred \<noteq> [] \<and> CHR 0x0A \<notin> set cred \<and> CHR 0x0D \<notin> set cred then Some cred else None)"

definition scorerRequestAuthorized :: "string option \<Rightarrow> string option \<Rightarrow> bool" where
  "scorerRequestAuthorized authorizationHeader token = (case token of
       None \<Rightarrow> True
     | Some t \<Rightarrow> t = [] \<or> (case Option.bind authorizationHeader (\<lambda>h. bearer_credential (js_trim h)) of
         None \<Rightarrow> False
       | Some cred \<Rightarrow> keccak256 (encode_text cred) = keccak256 (encode_text t)))"

section \<open>What the trace records\<close>

text \<open>The stream of all the pairs of a job, numbered from zero.\<close>

definition stream_from :: "nat \<Rightarrow> string list \<Rightarrow> string" where
  "stream_from i xs = concat (map2 trace_line [i..<i + length xs] xs)"

definition trace_of :: "trace_env \<Rightarrow> RerankPair list \<Rightarrow> string list \<Rightarrow> ScorerPairTraceSnapshot" where
  "trace_of tv pairs scores = \<lparr>ts_totalScoredPairCount = length pairs, ts_pairTraceHash = ''0x'' @ tv_sha256 tv (stream_from 0 (map (promptHashOf tv) pairs)),
     ts_scoreArrayHash = ''0x'' @ tv_sha256 tv (stream_from 0 scores)\<rparr>"

lemma stream_from_Nil [simp]: "stream_from i [] = []"
  by (simp add: stream_from_def)

lemma stream_from_Cons [simp]: "stream_from i (x # xs) = trace_line i x @ stream_from (Suc i) xs"
proof -
  have "[i..<i + length (x # xs)] = i # [Suc i..<Suc i + length xs]" by (simp add: upt_rec)
  then show ?thesis by (simp add: stream_from_def)
qed

lemma stream_from_append: "stream_from i (xs @ ys) = stream_from i xs @ stream_from (i + length xs) ys"
  by (induction xs arbitrary: i) simp_all

text \<open>A state in which the pairs and scores so far have been recorded.\<close>

definition recorded :: "trace_env \<Rightarrow> RerankPair list \<Rightarrow> string list \<Rightarrow> trace_state \<Rightarrow> bool" where
  "recorded tv pairs scores t \<longleftrightarrow> length scores = length pairs \<and> tr_pairOrder t = length pairs \<and>
     tr_promptHashChain t = stream_from 0 (map (promptHashOf tv) pairs) \<and> tr_scoreChain t = stream_from 0 scores"

lemma recorded_fold:
  assumes "fold_pairs tv ps t = (t', Inr ())" "recorded tv pairs scores t"
  shows "recorded tv (pairs @ map fst ps) (scores @ map (the \<circ> canonScore tv \<circ> snd) ps) t' \<and> list_all (\<lambda>(_, x). canonScore tv x \<noteq> None) ps"
  using assms
proof (induction ps arbitrary: t pairs scores)
  case (Cons q ps)
  obtain p x where q: "q = (p, x)" by (cases q)
  obtain s where s: "canonScore tv x = Some s" "fold_pairs tv ps (fold_pair tv p s t) = (t', Inr ())" using Cons.prems(1) q by (auto split: option.splits)
  have "recorded tv (pairs @ [p]) (scores @ [s]) (fold_pair tv p s t)"
    using Cons.prems(2) by (simp add: recorded_def fold_pair_def stream_from_append)
  from Cons.IH [OF s(2) this] show ?case using q s(1) by simp
qed simp

text \<open>The calls of a job in order, each with the answer of the reranker at that moment; the first exception ends them.\<close>

fun traced_calls :: "trace_env \<Rightarrow> ((RerankPair list \<Rightarrow> js_score list chain) \<times> RerankPair list) list \<Rightarrow> trace_state \<Rightarrow> trace_state \<times> js_score list chain" where
  "traced_calls tv [] t = (t, Inr [])"
| "traced_calls tv ((score, pairs) # calls) t = (case traced_score tv score pairs t of
      (t', Inl e) \<Rightarrow> (t', Inl e)
    | (t', Inr out) \<Rightarrow> (case traced_calls tv calls t' of (t'', Inl e) \<Rightarrow> (t'', Inl e) | (t'', Inr outs) \<Rightarrow> (t'', Inr (out @ outs))))"

lemma traced_score_recorded:
  assumes "traced_score tv score ps t = (t', Inr out)" "recorded tv pairs scores t" "tr_scoredPairCount t = tr_pairOrder t"
  shows "recorded tv (pairs @ ps) (scores @ map (the \<circ> canonScore tv) out) t'" "tr_scoredPairCount t' = tr_pairOrder t'"
proof -
  have "recorded tv (pairs @ ps) (scores @ map (the \<circ> canonScore tv) out) t' \<and> tr_scoredPairCount t' = tr_pairOrder t'"
  proof (cases "ps = []")
    case False
    then obtain t1 where f: "length out = length ps" "fold_pairs tv (zip ps out) t = (t1, Inr ())" "t' = t1\<lparr>tr_scoredPairCount := tr_pairOrder t1\<rparr>"
      using assms(1) by (auto simp: traced_score_def split: sum.splits if_splits prod.splits)
    have "map fst (zip ps out) = ps" "map (the \<circ> canonScore tv \<circ> snd) (zip ps out) = map (the \<circ> canonScore tv) out"
      using f(1) by (simp_all flip: map_map)
    then show ?thesis using recorded_fold [OF f(2) assms(2)] f(3) by (simp add: recorded_def)
  qed (use assms in \<open>simp add: traced_score_def\<close>)
  then show "recorded tv (pairs @ ps) (scores @ map (the \<circ> canonScore tv) out) t'" "tr_scoredPairCount t' = tr_pairOrder t'" by simp_all
qed

lemma traced_calls_recorded:
  assumes "traced_calls tv calls t = (t', Inr outs)" "recorded tv pairs scores t" "tr_scoredPairCount t = tr_pairOrder t"
  shows "recorded tv (pairs @ concat (map snd calls)) (scores @ map (the \<circ> canonScore tv) outs) t' \<and> tr_scoredPairCount t' = tr_pairOrder t'"
  using assms
proof (induction calls arbitrary: t pairs scores outs)
  case (Cons q calls)
  obtain score ps where q: "q = (score, ps)" by (cases q)
  obtain t1 out rest where c: "traced_score tv score ps t = (t1, Inr out)" "traced_calls tv calls t1 = (t', Inr rest)" "outs = out @ rest"
    using Cons.prems(1) q by (auto split: sum.splits prod.splits)
  note r = traced_score_recorded [OF c(1) Cons.prems(2,3)]
  from Cons.IH [OF c(2) r] show ?case by (simp add: q c(3) comp_def)
qed simp

text \<open>The trace of a job does not depend on how the evaluator batches its pairs: after the reset at the start of a job and any sequence of calls that all succeed, the snapshot
  counts the pairs of all the calls and hashes exactly the stream of their prompt hashes and of the returned scores, numbered in the order of scoring.\<close>

lemma trace_is_stream:
  assumes "traced_calls tv calls resetTrace = (t, Inr outs)"
  shows "traceSnapshot tv t = trace_of tv (concat (map snd calls)) (map (the \<circ> canonScore tv) outs)"
proof -
  have "recorded tv [] [] resetTrace" "tr_scoredPairCount resetTrace = tr_pairOrder resetTrace" by (simp_all add: recorded_def resetTrace_def)
  from traced_calls_recorded [OF assms this] show ?thesis by (simp add: recorded_def traceSnapshot_def trace_of_def)
qed

section \<open>What the queue guarantees\<close>

text \<open>The jobs accepted and started so far and the number of jobs finished. A refused job changes nothing.\<close>

inductive queue_run :: "rat option \<Rightarrow> rat option \<Rightarrow> 'j list \<Rightarrow> 'j list \<Rightarrow> nat \<Rightarrow> 'j ScorerJobQueue \<Rightarrow> bool" for depth conc where
  boot: "queue_run depth conc [] [] 0 (createScorerJobQueue depth conc)"
| accept: "queue_run depth conc acc started n s \<Longrightarrow> enqueue j s = Some (s', now) \<Longrightarrow> queue_run depth conc (acc @ [j]) (started @ now) n s'"
| finish: "queue_run depth conc acc started n s \<Longrightarrow> 0 < jq_active s \<Longrightarrow> job_finished s = (s', now) \<Longrightarrow> queue_run depth conc acc (started @ now) (n + 1) s'"

lemma drain_loop_spec:
  assumes "drain_loop conc active queue = (a, q, now)" "active \<le> conc"
  shows "queue = now @ q" "a = active + length now" "a \<le> conc" "q \<noteq> [] \<Longrightarrow> a = conc"
proof -
  have "queue = now @ q \<and> a = active + length now \<and> a \<le> conc \<and> (q \<noteq> [] \<longrightarrow> a = conc)"
    using assms
  proof (induction conc active queue arbitrary: a q now rule: drain_loop.induct)
    case (2 conc active item queue)
    show ?case
    proof (cases "active < conc")
      case True
      then obtain now' where n: "drain_loop conc (active + 1) queue = (a, q, now')" "now = item # now'"
        using "2.prems"(1) by (auto split: prod.splits)
      from "2.IH" [OF True n(1)] show ?thesis using True n(2) by auto
    qed (use 2 in auto)
  qed simp
  then show "queue = now @ q" "a = active + length now" "a \<le> conc" "q \<noteq> [] \<Longrightarrow> a = conc" by simp_all
qed

definition queue_inv :: "'j list \<Rightarrow> 'j list \<Rightarrow> nat \<Rightarrow> 'j ScorerJobQueue \<Rightarrow> bool" where
  "queue_inv acc started n s \<longleftrightarrow> acc = started @ jq_queue s \<and> length started = jq_active s + n \<and> jq_active s \<le> jq_concurrency s \<and>
     length (jq_queue s) \<le> jq_maxQueueDepth s \<and> (jq_queue s \<noteq> [] \<longrightarrow> jq_active s = jq_concurrency s)"

lemma drain_keeps:
  assumes "drain s = (s', now)" "acc = started @ jq_queue s" "length started = jq_active s + n" "jq_active s \<le> jq_concurrency s"
  shows "acc = (started @ now) @ jq_queue s'" "length (started @ now) = jq_active s' + n" "jq_active s' \<le> jq_concurrency s'"
    "jq_queue s' \<noteq> [] \<Longrightarrow> jq_active s' = jq_concurrency s'" "length (jq_queue s') + length now = length (jq_queue s)"
    "jq_concurrency s' = jq_concurrency s" "jq_maxQueueDepth s' = jq_maxQueueDepth s" "jq_active s < jq_concurrency s \<Longrightarrow> jq_queue s \<noteq> [] \<Longrightarrow> now \<noteq> []"
proof -
  obtain a q where d: "drain_loop (jq_concurrency s) (jq_active s) (jq_queue s) = (a, q, now)" "s' = s\<lparr>jq_active := a, jq_queue := q\<rparr>"
    using assms(1) by (auto simp: drain_def split: prod.splits)
  note l = drain_loop_spec [OF d(1) assms(4)]
  show "acc = (started @ now) @ jq_queue s'" "length (started @ now) = jq_active s' + n" "jq_active s' \<le> jq_concurrency s'" "length (jq_queue s') + length now = length (jq_queue s)"
    "jq_concurrency s' = jq_concurrency s" "jq_maxQueueDepth s' = jq_maxQueueDepth s"
    using l(1-3) assms(2,3) d(2) by simp_all
  show "jq_queue s' \<noteq> [] \<Longrightarrow> jq_active s' = jq_concurrency s'" using l(4) d(2) by simp
  show "jq_active s < jq_concurrency s \<Longrightarrow> jq_queue s \<noteq> [] \<Longrightarrow> now \<noteq> []" using l d(2) by auto
qed

lemma enqueue_keeps:
  assumes "queue_inv acc started n s" "enqueue j s = Some (s', now)" "0 < jq_concurrency s"
  shows "queue_inv (acc @ [j]) (started @ now) n s' \<and> 0 < jq_concurrency s'"
proof -
  let ?s = "s\<lparr>jq_queue := jq_queue s @ [j]\<rparr>"
  have d: "drain ?s = (s', now)" "length (jq_queue s) < jq_maxQueueDepth s" using assms(2) by (auto simp: enqueue_def split: if_splits)
  have i: "acc @ [j] = started @ jq_queue ?s" "length started = jq_active ?s + n" "jq_active ?s \<le> jq_concurrency ?s" using assms(1) by (simp_all add: queue_inv_def)
  note k = drain_keeps [OF d(1) i]
  then show ?thesis using d(2) assms(3) by (simp add: queue_inv_def)
qed

lemma finished_keeps:
  assumes "queue_inv acc started n s" "job_finished s = (s', now)" "0 < jq_active s" "0 < jq_concurrency s"
  shows "queue_inv acc (started @ now) (n + 1) s' \<and> 0 < jq_concurrency s' \<and> jq_maxQueueDepth s' = jq_maxQueueDepth s \<and> jq_concurrency s' = jq_concurrency s"
proof -
  let ?s = "s\<lparr>jq_active := jq_active s - 1\<rparr>"
  have d: "drain ?s = (s', now)" using assms(2) by (simp add: job_finished_def)
  have i: "acc = started @ jq_queue ?s" "length started = jq_active ?s + (n + 1)" "jq_active ?s \<le> jq_concurrency ?s" using assms(1,3) by (auto simp: queue_inv_def)
  note k = drain_keeps [OF d i]
  then show ?thesis using assms(1,4) by (simp add: queue_inv_def)
qed

lemma queue_run_inv: "queue_run depth conc acc started n s \<Longrightarrow> queue_inv acc started n s \<and> 0 < jq_concurrency s"
proof (induction rule: queue_run.induct)
  case boot
  then show ?case by (simp add: queue_inv_def createScorerJobQueue_def)
next
  case (accept acc started n s j s' now)
  then show ?case using enqueue_keeps [of acc started n s j s' now] by simp
next
  case (finish acc started n s s' now)
  then show ?case using finished_keeps [of acc started n s s' now] by simp
qed

lemma queue_run_config:
  "queue_run depth conc acc started n s \<Longrightarrow> jq_maxQueueDepth s = nat (max 0 \<lfloor>or_else depth 8\<rfloor>) \<and> jq_concurrency s = nat (max 1 \<lfloor>or_else conc 1\<rfloor>)"
proof (induction rule: queue_run.induct)
  case (accept acc started n s j s' now)
  then show ?case by (auto simp: enqueue_def drain_def Let_def split: if_splits prod.splits)
next
  case (finish acc started n s s' now)
  then show ?case by (auto simp: job_finished_def drain_def Let_def split: prod.splits)
qed (simp add: createScorerJobQueue_def)

text \<open>The same queue after \<open>k\<close> more jobs have finished, with the jobs started meanwhile.\<close>

fun finish_jobs :: "nat \<Rightarrow> 'j ScorerJobQueue \<Rightarrow> 'j ScorerJobQueue \<times> 'j list" where
  "finish_jobs 0 s = (s, [])"
| "finish_jobs (Suc k) s = (let (s', now) = job_finished s; (s'', more) = finish_jobs k s' in (s'', now @ more))"

lemma finish_jobs_all:
  assumes "queue_inv acc started n s" "0 < jq_concurrency s" "length acc = n + k"
  shows "fst (finish_jobs k s) = s\<lparr>jq_queue := [], jq_active := 0\<rparr> \<and> snd (finish_jobs k s) = jq_queue s"
  using assms
proof (induction k arbitrary: started n s)
  case 0
  then have "jq_queue s = []" "jq_active s = 0" by (auto simp: queue_inv_def)
  then show ?case by simp
next
  case (Suc k)
  have act: "0 < jq_active s"
  proof (rule ccontr)
    assume "\<not> 0 < jq_active s"
    then have "jq_queue s = []" using Suc.prems by (auto simp: queue_inv_def)
    then show False using Suc.prems \<open>\<not> 0 < jq_active s\<close> by (simp add: queue_inv_def)
  qed
  obtain s' now where f: "job_finished s = (s', now)" by (cases "job_finished s")
  note k = finished_keeps [OF Suc.prems(1) f act Suc.prems(2)]
  have len: "length acc = (n + 1) + k" using Suc.prems(3) by simp
  have split: "jq_queue s = now @ jq_queue s'" using k Suc.prems(1) by (auto simp: queue_inv_def)
  have same: "s'\<lparr>jq_queue := [], jq_active := 0\<rparr> = s\<lparr>jq_queue := [], jq_active := 0\<rparr>" using k by (cases s; cases s') auto
  from Suc.IH [of "started @ now" "n + 1" s'] k len have "fst (finish_jobs k s') = s'\<lparr>jq_queue := [], jq_active := 0\<rparr> \<and> snd (finish_jobs k s') = jq_queue s'" by simp
  then show ?case using split same by (cases "finish_jobs k s'") (simp add: f)
qed

text \<open>C33. The scorer's queue loses nothing and keeps its bounds. In every run of accepted jobs and completions, the accepted jobs are the started ones followed by the waiting ones
  in order of arrival, the active ones are the started ones that have not finished, at most \<open>concurrency\<close> jobs are active and at most \<open>maxQueueDepth\<close> wait, and a job waits only while
  every slot is taken. Once as many jobs have finished as were accepted, every accepted job has been started, in order, and the queue is idle.\<close>

theorem scorer_queue_serves:
  assumes "queue_run depth conc acc started n s"
  shows "acc = started @ jq_queue s \<and> length started = jq_active s + n \<and> jq_active s \<le> nat (max 1 \<lfloor>or_else conc 1\<rfloor>) \<and>
    length (jq_queue s) \<le> nat (max 0 \<lfloor>or_else depth 8\<rfloor>) \<and> (jq_queue s \<noteq> [] \<longrightarrow> jq_active s = nat (max 1 \<lfloor>or_else conc 1\<rfloor>)) \<and>
    (\<exists>s'. finish_jobs (length acc - n) s = (s', jq_queue s) \<and> jq_queue s' = [] \<and> jq_active s' = 0)"
proof -
  note i = queue_run_inv [OF assms] and c = queue_run_config [OF assms]
  have "length acc = n + (length acc - n)" using i by (auto simp: queue_inv_def)
  from finish_jobs_all [OF _ _ this, of started s] i
  have "finish_jobs (length acc - n) s = (s\<lparr>jq_queue := [], jq_active := 0\<rparr>, jq_queue s)" by (simp add: prod_eq_iff)
  then show ?thesis using i c by (simp add: queue_inv_def)
qed

theorem scorer_queue_serves_witness:
  "\<exists>s. queue_run None None [''a'', ''b'', ''c''] [''a'', ''b''] 1 s \<and> jq_queue s = [''c''] \<and> jq_active s = 1"
proof -
  let ?q = "\<lambda>w. \<lparr>jq_maxQueueDepth = 8, jq_concurrency = 1, jq_queue = w, jq_active = 1\<rparr> :: string ScorerJobQueue"
  have b: "createScorerJobQueue None None = \<lparr>jq_maxQueueDepth = 8, jq_concurrency = 1, jq_queue = [], jq_active = 0\<rparr>" by (simp add: createScorerJobQueue_def or_else_def)
  have e: "enqueue ''a'' (createScorerJobQueue None None) = Some (?q [], [''a''])" "enqueue ''b'' (?q []) = Some (?q [''b''], [])" "enqueue ''c'' (?q [''b'']) = Some (?q [''b'', ''c''], [])"
    by (simp_all add: b enqueue_def drain_def)
  have f: "job_finished (?q [''b'', ''c'']) = (?q [''c''], [''b''])" by (simp add: job_finished_def drain_def)
  have "queue_run None None [''a''] [''a''] 0 (?q [])" using queue_run.accept [OF queue_run.boot e(1)] by simp
  from queue_run.accept [OF queue_run.accept [OF this e(2)] e(3)] have "queue_run None None [''a'', ''b'', ''c''] [''a''] 0 (?q [''b'', ''c''])" by simp
  from queue_run.finish [OF this _ f] have run: "queue_run None None [''a'', ''b'', ''c''] [''a'', ''b''] 1 (?q [''c''])" by simp
  from scorer_queue_serves [OF run] show ?thesis using run by auto
qed

section \<open>What is scored\<close>

lemma unpack_wf: "unpack bs = Inr s \<Longrightarrow> wf_state s"
  using pack_unpacked [of bs] by (auto simp: unpack_def split: if_splits)

lemma shape_ok_job: "validateJobShape posted = None \<Longrightarrow> \<exists>job. posted = Some job"
  by (cases posted) (auto simp: validateJobShape_def)

lemma verifyJobParentState_total: "\<exists>r. verifyJobParentState job = Inr r"
proof (cases "js_bind (Merkle.hexToBytes (jr_packedParentStateHex job)) unpack")
  case (Inr state)
  then have "wf_state state" using unpack_wf by (auto simp: js_bind_eq_Inr_iff)
  then have "\<exists>root. merkleizeState state = Inr root" using merkleizeState_eq [of state] by (auto simp: wf_state_def)
  then show ?thesis using Inr by (auto simp: verifyJobParentState_def)
qed (simp add: verifyJobParentState_def)

lemma verifyJobParentState_ok:
  assumes "verifyJobParentState job = Inr (Inr state)"
  shows "wf_state state" "\<exists>root. merkleizeState state = Inr root \<and> bytesToHex root = toLowerCase (jr_parentStateRoot job)"
proof -
  have u: "js_bind (Merkle.hexToBytes (jr_packedParentStateHex job)) unpack = Inr state"
    and m: "\<exists>root. merkleizeState state = Inr root \<and> bytesToHex root = toLowerCase (jr_parentStateRoot job)"
    using assms by (auto simp: verifyJobParentState_def js_bind_eq_Inr_iff split: sum.splits if_splits)
  show "wf_state state" using u unpack_wf by (auto simp: js_bind_eq_Inr_iff)
  show "\<exists>root. merkleizeState state = Inr root \<and> bytesToHex root = toLowerCase (jr_parentStateRoot job)" by (fact m)
qed

lemma positive_int_Some: "positive_int x = Some n \<longleftrightarrow> 0 < n \<and> safe_nonneg n \<and> x = Some (Fin (of_int n))"
proof
  assume p: "positive_int x = Some n"
  then obtain y where y: "x = Some y" "safe_int y = Some n" "0 < n" by (cases x) (auto simp: positive_int_def split: option.splits if_splits)
  then have "safe_nat y" "num y = n" by (simp_all add: safe_nat_def num_def)
  then obtain m where "y = Fin (of_int m)" "safe_nonneg m" using safe_nat_Fin by blast
  then show "0 < n \<and> safe_nonneg n \<and> x = Some (Fin (of_int n))" using y by (auto split: if_splits)
next
  assume p: "0 < n \<and> safe_nonneg n \<and> x = Some (Fin (of_int n))"
  then have "is_safe_integer (of_int n)" using safe_nat_Fin [of "Fin (of_int n)"] by (auto simp: safe_nat_def split: if_splits)
  then show "positive_int x = Some n" using p by (simp add: positive_int_def)
qed

lemma resolve_Inr:
  assumes "resolveJobSeedContext job = Inr (ctx, g, c)"
  shows "isBytes32 g" "isBytes32 c" "toLowerCase g = g" "toLowerCase c = c" "isBytes32 (sd_blockhash ctx)" "toLowerCase (sd_blockhash ctx) = sd_blockhash ctx"
    "0 < sd_receivedAtBlock ctx" "\<exists>pc off. jr_publicEvalContext job = Some pc \<and> positive_int (pc_targetBlockOffset pc) = Some off \<and> sd_targetBlock ctx = sd_receivedAtBlock ctx + off"
proof -
  obtain pc rc tg off where o: "jr_publicEvalContext job = Some pc" "positive_int (pc_receivedAtBlock pc) = Some rc" "positive_int (pc_targetBlock pc) = Some tg"
      "positive_int (pc_targetBlockOffset pc) = Some off" "tg = rc + off" "some_bytes32 (pc_blockhash pc)" "some_bytes32 (pc_gateSeed pc)" "some_bytes32 (pc_confirmSeed pc)"
      "ctx = \<lparr>sd_receivedAtBlock = rc, sd_targetBlock = tg, sd_blockhash = toLowerCase (the (pc_blockhash pc))\<rparr>"
      "g = toLowerCase (the (pc_gateSeed pc))" "c = toLowerCase (the (pc_confirmSeed pc))"
    using assms by (auto simp: resolveJobSeedContext_def split: option.splits if_splits)
  have b: "isBytes32 (the x)" if "some_bytes32 x" for x using that by (auto simp: some_bytes32_def split: option.splits)
  show "isBytes32 g" "isBytes32 c" "toLowerCase g = g" "toLowerCase c = c" "isBytes32 (sd_blockhash ctx)" "toLowerCase (sd_blockhash ctx) = sd_blockhash ctx"
    using b [OF o(6)] b [OF o(7)] b [OF o(8)] o(9-11) by simp_all
  show "0 < sd_receivedAtBlock ctx" using o(2,9) by (simp add: positive_int_Some)
  show "\<exists>pc off. jr_publicEvalContext job = Some pc \<and> positive_int (pc_targetBlockOffset pc) = Some off \<and> sd_targetBlock ctx = sd_receivedAtBlock ctx + off"
    using o(1,4,5,9) by simp
qed

lemma handleScoreJob_total: "\<exists>response. snd (handleScoreJob posted deps st) = Inr response"
proof (cases "validateJobShape posted")
  case None
  obtain r where "verifyJobParentState (the posted) = Inr r" using verifyJobParentState_total by blast
  then show ?thesis using None by (auto simp: handleScoreJob_def Let_def split: sum.splits prod.splits)
qed (simp add: handleScoreJob_def)

lemma handleScoreJob_cases:
  assumes "handleScoreJob posted deps st = (st', Inr response)"
  shows "(\<exists>code err. response = JobError code err \<and> code \<in> {400, 409, 422} \<and> st' = st) \<or>
    (\<exists>job state ctx g c. posted = Some job \<and> validateJobShape (Some job) = None \<and> checkScorerJobPins job (hd_loadedPins deps) = None \<and>
      verifyJobParentState job = Inr (Inr state) \<and> resolveJobSeedContext job = Inr (ctx, g, c) \<and> run_job job deps (job_input job state ctx (g, c)) st = (st', response))"
proof (cases "validateJobShape posted")
  case None
  then obtain job where p: "posted = Some job" using shape_ok_job by blast
  show ?thesis using assms None p
    by (auto simp: handleScoreJob_def Let_def split: if_splits sum.splits prod.splits)
qed (use assms in \<open>auto simp: handleScoreJob_def\<close>)

section \<open>Who may post\<close>

lemma scorer_access:
  assumes "resolveScorerAuth hostVar tokenVar = Inr (host, token)" "scorerRequestAuthorized header token"
  shows "token = None \<and> host \<in> set LOOPBACK_HOSTS \<or>
    (\<exists>t h cred. token = Some t \<and> header = Some h \<and> bearer_credential (js_trim h) = Some cred \<and> (cred = t \<or> collision_between [encode_text cred] [encode_text t]))"
proof (cases token)
  case (Some t)
  then have "t \<noteq> []" using assms(1) by (auto simp: resolveScorerAuth_def Let_def split: option.splits if_splits)
  then obtain h cred where "header = Some h" "bearer_credential (js_trim h) = Some cred" "keccak256 (encode_text cred) = keccak256 (encode_text t)"
    using assms(2) Some by (cases header) (auto simp: scorerRequestAuthorized_def split: option.splits)
  then show ?thesis using Some encode_text_inj by (auto simp: collision_between_def)
qed (use assms in \<open>auto simp: resolveScorerAuth_def Let_def split: if_splits\<close>)

end
