(* ===== verification/RemoteScorer.thy ===== *)
theory RemoteScorer
  imports ScorerServer
begin

text \<open>
  \<open>packages/coretex/src/coordinator/remote-scorer-verify.ts\<close>: what the coordinator checks of a result of the keyless scorer before it signs, and the parts of
  \<open>scorer-server-cli.ts\<close> that make the host's pins and health. The reasons of refusals are left out, their codes are kept. Members of an artifact and of a proof have their types.
\<close>

section \<open>Implementation\<close>

record RemoteScorerActiveContext =
  ax_epochId :: int
  ax_parentStateRoot :: string
  ax_corpusRoot :: string
  ax_bundleHash :: string
  ax_coreVersionHash :: string
  ax_workPolicyHash :: string
  ax_thresholdPpm :: int

record RemoteScorerExpectedHealth =
  eh_modelId :: string
  eh_revision :: string
  eh_promptTemplateHash :: string
  eh_code :: "ScorerCodeHealth option"

datatype VerifyScorerResult = Verified EvalResult Artifact | Refused string

definition checkArtifactSeedEcho :: "Artifact option \<Rightarrow> PerPatchSeedContext \<Rightarrow> (string \<times> string) option \<Rightarrow> string option" where
  "checkArtifactSeedEcho artifact pins expectedSeeds = (case artifact of
       None \<Rightarrow> None
     | Some a \<Rightarrow> let d = af_seedDerivation a; r = af_receipt a in first_failure
         [(sv_receivedAtBlock d \<noteq> sd_receivedAtBlock pins, ''artifact seedDerivation.receivedAtBlock''),
          (sv_targetBlock d \<noteq> sd_targetBlock pins, ''artifact seedDerivation.targetBlock''),
          (\<not> hexEqual (sv_blockhash d) (sd_blockhash pins), ''artifact seedDerivation.blockhash''),
          (\<not> opt_all (\<lambda>(g, _). hexEqual (er_gateSeed r) g) expectedSeeds, ''artifact receipt.gateSeed''),
          (\<not> opt_all (\<lambda>(_, c). hexEqual (er_confirmSeed r) c) expectedSeeds, ''artifact receipt.confirmSeed'')])"

text \<open>This file's \<open>seedCommit\<close>: \<open>null\<close> for what is not 32 bytes.\<close>

definition remote_seedCommit :: "string option \<Rightarrow> string option" where
  "remote_seedCommit seed = (case seed of
       None \<Rightarrow> None
     | Some s \<Rightarrow> if \<not> isBytes32 s then None
         else (case hexToBytes_checked s of Inl _ \<Rightarrow> None | Inr bs \<Rightarrow> Some (toLowerCase (bytesToHex (keccak256 bs)))))"

fun is_finite :: "js_number \<Rightarrow> bool" where
  "is_finite (Fin _) = True"
| "is_finite _ = False"

definition validateResultSchema :: "ScorerJobResult \<Rightarrow> string option" where
  "validateResultSchema rr =
     (let acc = (rr_accepted rr = Some True) in first_failure
     [(rr_accepted rr = None, ''accepted must be boolean''),
      (\<not> is_finite (rr_deltaPpm rr), ''deltaPpm invalid''),
      (safe_int (rr_gateScorePpm rr) = None \<or> safe_int (rr_confirmScorePpm rr) = None, ''gate/confirm score invalid''),
      (\<not> safe_nat (rr_thresholdPpmUsed rr), ''thresholdPpmUsed invalid''),
      (\<not> isBytes32 (rr_policyHash rr), ''policyHash must be bytes32''),
      (rr_pairTraceHash rr = None \<or> rr_scoreArrayHash rr = None, ''trace hashes missing''),
      (rr_scorerHealth rr = None, ''scorerHealth missing''),
      (acc \<and> \<not> some_bytes32 (rr_evalReportHash rr), ''accepted result missing evalReportHash''),
      (acc \<and> \<not> some_bytes32 (rr_artifactHash rr), ''accepted result missing artifactHash''),
      (acc \<and> \<not> opt_all (\<lambda>p. dp_kind p = ''coretex-dual-pack-v1'') (rr_evaluationProof rr), ''evaluationProof kind invalid'')])"

definition context_checks :: "ScorerJobRequest \<Rightarrow> RemoteScorerActiveContext \<Rightarrow> (bool \<times> string) list" where
  "context_checks job active =
     [(jr_epochId job \<noteq> Fin (of_int (ax_epochId active)), ''SCORER_STALE_CONTEXT''),
      (\<not> hexEqual (jr_parentStateRoot job) (ax_parentStateRoot active), ''SCORER_STALE_CONTEXT''),
      (\<not> hexEqual (jr_corpusRoot job) (ax_corpusRoot active), ''SCORER_STALE_CONTEXT''),
      (\<not> hexEqual (jr_bundleHash job) (ax_bundleHash active), ''SCORER_STALE_CONTEXT''),
      (\<not> hexEqual (jr_coreVersionHash job) (ax_coreVersionHash active), ''SCORER_STALE_CONTEXT''),
      (\<not> hexEqual (jr_policyHash job) (ax_workPolicyHash active), ''SCORER_STALE_CONTEXT'')]"

definition health_checks :: "ScorerHealth \<Rightarrow> RemoteScorerExpectedHealth \<Rightarrow> (bool \<times> string) list" where
  "health_checks h expected =
     [(sh_modelId h \<noteq> eh_modelId expected, ''SCORER_HEALTH_MISMATCH''),
      (sh_revision h \<noteq> eh_revision expected, ''SCORER_HEALTH_MISMATCH''),
      (\<not> hexEqual (sh_promptTemplateHash h) (eh_promptTemplateHash expected), ''SCORER_HEALTH_MISMATCH''),
      (sh_dtype h \<noteq> ''fp32'', ''SCORER_HEALTH_MISMATCH''),
      (sh_tf32 h, ''SCORER_HEALTH_MISMATCH''),
      (\<not> sh_cuda h, ''SCORER_HEALTH_MISMATCH''),
      (compareScorerCodeHealth (eh_code expected) (sh_code h) \<noteq> None, ''SCORER_CODE_HASH_MISMATCH'')]"

definition proof_checks :: "ScorerJobResult \<Rightarrow> ScorerJobRequest \<Rightarrow> RemoteScorerActiveContext \<Rightarrow> DualPackProof \<Rightarrow> (bool \<times> string) list" where
  "proof_checks rr job active p =
     (let gateCommit = remote_seedCommit (Option.bind (jr_publicEvalContext job) pc_gateSeed);
          confirmCommit = remote_seedCommit (Option.bind (jr_publicEvalContext job) pc_confirmSeed) in
     [(\<not> hexEqual (dp_corpusRoot p) (ax_corpusRoot active), ''SCORER_PIN_MISMATCH''),
      (\<not> hexEqual (dp_coreVersionHash p) (ax_coreVersionHash active), ''SCORER_PIN_MISMATCH''),
      (\<not> hexEqual (dp_parentStateRoot p) (ax_parentStateRoot active), ''SCORER_PIN_MISMATCH''),
      (gateCommit = None \<or> confirmCommit = None, ''SCORER_SEED_COMMIT_MISMATCH''),
      (\<not> hexEq_opt (map_option pk_seedCommit (dp_gate p)) gateCommit, ''SCORER_SEED_COMMIT_MISMATCH''),
      (\<not> hexEq_opt (map_option pk_seedCommit (dp_confirm p)) confirmCommit, ''SCORER_SEED_COMMIT_MISMATCH''),
      (map_option pk_scorePpm (dp_gate p) \<noteq> Some (rr_gateScorePpm rr) \<or> map_option pk_scorePpm (dp_confirm p) \<noteq> Some (rr_confirmScorePpm rr), ''SCORER_SCORE_PROOF_MISMATCH'')])"

definition decision_checks :: "ScorerJobResult \<Rightarrow> ScorerJobRequest \<Rightarrow> RemoteScorerActiveContext \<Rightarrow> (bool \<times> string) list" where
  "decision_checks rr job active =
     [(rr_thresholdPpmUsed rr \<noteq> jr_thresholdPpm job, ''SCORER_THRESHOLD_ECHO_MISMATCH''),
      (\<not> hexEqual (rr_policyHash rr) (jr_policyHash job), ''SCORER_POLICY_ECHO_MISMATCH''),
      (rr_accepted rr \<noteq> Some True, ''SCORER_REJECTED''),
      (less_int (js_min (rr_gateScorePpm rr) (rr_confirmScorePpm rr)) (ax_thresholdPpm active), ''SCORER_BELOW_THRESHOLD''),
      (rr_artifact rr = None, ''SCORER_ARTIFACT_MISSING'')]"

definition artifact_checks :: "string \<Rightarrow> ScorerJobResult \<Rightarrow> RemoteScorerActiveContext \<Rightarrow> Artifact \<Rightarrow> (bool \<times> string) list" where
  "artifact_checks recomputed rr active a =
     [(\<not> hexEq_opt (Some recomputed) (rr_artifactHash rr) \<or> \<not> hexEq_opt (Some recomputed) (rr_evalReportHash rr), ''SCORER_ARTIFACT_HASH_MISMATCH''),
      (\<not> hexEqual (ac_parentStateRoot (af_context a)) (ax_parentStateRoot active), ''SCORER_ARTIFACT_CONTEXT_MISMATCH''),
      (\<not> hexEqual (ac_corpusRoot (af_context a)) (ax_corpusRoot active), ''SCORER_ARTIFACT_CONTEXT_MISMATCH''),
      (\<not> hexEqual (ac_coreVersionHash (af_context a)) (ax_coreVersionHash active), ''SCORER_ARTIFACT_CONTEXT_MISMATCH'')]"

text \<open>The result that the coordinator core consumes.\<close>

definition remote_accepted :: "ScorerJobResult \<Rightarrow> EvalAccepted" where
  "remote_accepted rr = \<lparr>ea_deterministicDeltaPpm = rr_deltaPpm rr, ea_evalReportHash = the (rr_evalReportHash rr), ea_artifactHash = the (rr_artifactHash rr),
     ea_evaluationProof = rr_evaluationProof rr\<rparr>"

definition reconstruct :: "ScorerJobResult \<Rightarrow> EvalResult" where
  "reconstruct rr = (case (rr_scoreBeforePpm rr, rr_scoreAfterPpm rr, rr_rewrittenPatchBytesHex rr) of
       (Some before, Some after, Some rewritten) \<Rightarrow>
         EvalStateAdvance (remote_accepted rr) \<lparr>sx_scoreBeforePpm = before, sx_scoreAfterPpm = after, sx_rewrittenPatchBytesHex = rewritten\<rparr>
     | _ \<Rightarrow> EvalScreenerPass (remote_accepted rr))"

text \<open>The checks between the schema and the artifact, in order.\<close>

definition result_checks :: "ScorerJobResult \<Rightarrow> ScorerJobRequest \<Rightarrow> RemoteScorerActiveContext \<Rightarrow> RemoteScorerExpectedHealth \<Rightarrow> (bool \<times> string) list" where
  "result_checks rr job active expectedHealth = context_checks job active @ health_checks (the (rr_scorerHealth rr)) expectedHealth @
     (case rr_evaluationProof rr of None \<Rightarrow> [] | Some p \<Rightarrow> proof_checks rr job active p) @ decision_checks rr job active"

definition verifyScorerResult ::
  "(rat \<Rightarrow> string) \<Rightarrow> ScorerJobResult option \<Rightarrow> ScorerJobRequest \<Rightarrow> string set \<Rightarrow> RemoteScorerActiveContext \<Rightarrow> RemoteScorerExpectedHealth \<Rightarrow> VerifyScorerResult" where
  "verifyScorerResult fmt posted job outstandingJobIds active expectedHealth = (case posted of
       None \<Rightarrow> Refused ''SCORER_RESULT_MALFORMED''
     | Some rr \<Rightarrow>
         if rr_jobId rr \<noteq> jr_jobId job then Refused ''SCORER_JOB_ID_MISMATCH''
         else if jr_jobId job \<notin> outstandingJobIds then Refused ''SCORER_JOB_NOT_OUTSTANDING''
         else if validateResultSchema rr \<noteq> None then Refused ''SCORER_RESULT_MALFORMED''
         else (case first_failure (result_checks rr job active expectedHealth) of
             Some code \<Rightarrow> Refused code
           | None \<Rightarrow> let artifact = the (rr_artifact rr) in
               (case hashPostRevealEvalReportArtifact fmt artifact of
                  Inl e \<Rightarrow> Refused ''SCORER_ARTIFACT_MALFORMED''
                | Inr recomputed \<Rightarrow> (case first_failure (artifact_checks recomputed rr active artifact) of
                    Some code \<Rightarrow> Refused code
                  | None \<Rightarrow> Verified (reconstruct rr) artifact))))"

text \<open>What the host announces after its start: its attestation, its runtime and the hashes of its code.\<close>

record BootAttestation =
  ba_rerankerModelId :: string
  ba_rerankerRevision :: string
  ba_promptTemplateHash :: string

record ScorerRuntime =
  rt_cuda :: bool
  rt_device :: string
  rt_torch :: "string option"
  rt_transformers :: "string option"
  rt_python :: "string option"

definition boot_loadedPins :: "BootAttestation \<Rightarrow> string \<Rightarrow> string \<Rightarrow> string \<Rightarrow> ScorerCodeHealth \<Rightarrow> ScorerLoadedPins" where
  "boot_loadedPins att bundle corpus seedHash code = \<lparr>lp_modelId = ba_rerankerModelId att, lp_revision = ba_rerankerRevision att,
     lp_promptTemplateHash = toLowerCase (ba_promptTemplateHash att), lp_bundleHash = toLowerCase bundle, lp_corpusRoot = toLowerCase corpus,
     lp_coreVersionHash = toLowerCase bundle, lp_hiddenSeedCommit = Some seedHash, lp_code = Some code\<rparr>"

definition boot_scorerHealth :: "ScorerLoadedPins \<Rightarrow> ScorerRuntime \<Rightarrow> string \<Rightarrow> ScorerCodeHealth \<Rightarrow> ScorerHealth" where
  "boot_scorerHealth loaded runtime commitId code = \<lparr>sh_commit = commitId, sh_modelId = lp_modelId loaded, sh_revision = lp_revision loaded,
     sh_promptTemplateHash = lp_promptTemplateHash loaded, sh_dtype = ''fp32'', sh_tf32 = False, sh_cuda = rt_cuda runtime, sh_device = rt_device runtime,
     sh_torch = rt_torch runtime, sh_transformers = rt_transformers runtime, sh_python = rt_python runtime, sh_code = Some code\<rparr>"

section \<open>What a verified result guarantees\<close>

abbreviation passed :: "(bool \<times> string) list \<Rightarrow> bool" where
  "passed checks \<equiv> first_failure checks = None"

lemma passed_append [simp]: "passed (xs @ ys) \<longleftrightarrow> passed xs \<and> passed ys"
  by (simp add: first_failure_None)

lemma passed_proof [simp]: "passed (case p of None \<Rightarrow> [] | Some q \<Rightarrow> f q) \<longleftrightarrow> (\<forall>q. p = Some q \<longrightarrow> passed (f q))"
  by (cases p) (simp_all add: first_failure_def)

lemma passed_result:
  "passed (result_checks rr job active expected) \<longleftrightarrow> passed (context_checks job active) \<and> passed (health_checks (the (rr_scorerHealth rr)) expected) \<and>
    (\<forall>p. rr_evaluationProof rr = Some p \<longrightarrow> passed (proof_checks rr job active p)) \<and> passed (decision_checks rr job active)"
  by (simp add: result_checks_def)

lemma result_artifact: "passed (result_checks rr job active expected) \<Longrightarrow> \<exists>a. rr_artifact rr = Some a"
  by (simp add: passed_result) (simp add: decision_checks_def first_failure_None)

lemma verify_Verified:
  "verifyScorerResult fmt posted job outstanding active expected = Verified er a \<longleftrightarrow>
    (\<exists>rr h. posted = Some rr \<and> rr_jobId rr = jr_jobId job \<and> jr_jobId job \<in> outstanding \<and> validateResultSchema rr = None \<and>
      passed (result_checks rr job active expected) \<and> rr_artifact rr = Some a \<and> hashPostRevealEvalReportArtifact fmt a = Inr h \<and> passed (artifact_checks h rr active a) \<and> er = reconstruct rr)"
  (is "?l \<longleftrightarrow> ?r")
proof
  assume l: ?l
  then obtain rr where rr: "posted = Some rr" by (cases posted) (auto simp: verifyScorerResult_def)
  show ?r using l rr result_artifact [of rr job active expected]
    by (auto simp: verifyScorerResult_def Let_def split: if_splits option.splits sum.splits)
next
  assume ?r
  then show ?l by (auto simp: verifyScorerResult_def)
qed

definition eval_accepted :: "EvalResult \<Rightarrow> EvalAccepted option" where
  "eval_accepted er = (case er of EvalReject _ \<Rightarrow> None | EvalScreenerPass a \<Rightarrow> Some a | EvalStateAdvance a _ \<Rightarrow> Some a)"

lemma reconstruct_accepted [simp]: "eval_accepted (reconstruct rr) = Some (remote_accepted rr)"
  by (simp add: reconstruct_def eval_accepted_def split: option.splits)

lemma less_int_js_min:
  assumes "safe_int x \<noteq> None" "safe_int y \<noteq> None" "\<not> less_int (js_min x y) b"
  shows "b \<le> num x" "b \<le> num y"
proof -
  have f: "\<exists>m. z = Fin (of_int m) \<and> num z = m" if "safe_int z \<noteq> None" for z
    using that by (cases z) (auto simp: num_def is_safe_integer_def split: if_splits)
  obtain m n where "x = Fin (of_int m)" "num x = m" "y = Fin (of_int n)" "num y = n" using f assms(1,2) by blast
  then show "b \<le> num x" "b \<le> num y" using assms(3) by (auto simp: min_def split: if_splits)
qed

lemma remote_seedCommit_Some:
  "remote_seedCommit x = Some k \<longleftrightarrow> (\<exists>s bs. x = Some s \<and> isBytes32 s \<and> hexToBytes_checked s = Inr bs \<and> k = bytesToHex (keccak256 bs))"
  by (auto simp: remote_seedCommit_def split: option.splits if_splits sum.splits)

text \<open>C9. What the coordinator signs on the word of a remote scorer. If a result verifies, its job is outstanding and still belongs to the live epoch, parent, corpus, bundle and policy; the scorer
  used the threshold of the job; both scores are integers that clear the live threshold of the coordinator, whatever the scorer claims; the result handed to the core is accepted and
  carries two hashes that are the hash of the artifact to be spooled, whose context is the live one; and a dual-pack proof, if there is one, commits to the two seeds that were
  shipped with the job, has exactly the two scores, and is for the live context.\<close>

theorem verified_result_bound:
  assumes "verifyScorerResult fmt (Some rr) job outstanding active expected = Verified er a"
  shows "jr_jobId job \<in> outstanding \<and> jr_epochId job = Fin (of_int (ax_epochId active)) \<and> hexEqual (jr_parentStateRoot job) (ax_parentStateRoot active) \<and>
    hexEqual (jr_corpusRoot job) (ax_corpusRoot active) \<and> hexEqual (jr_bundleHash job) (ax_bundleHash active) \<and> hexEqual (jr_policyHash job) (ax_workPolicyHash active) \<and>
    rr_thresholdPpmUsed rr = jr_thresholdPpm job \<and> ax_thresholdPpm active \<le> num (rr_gateScorePpm rr) \<and> ax_thresholdPpm active \<le> num (rr_confirmScorePpm rr) \<and>
    (\<exists>acc h. eval_accepted er = Some acc \<and> hashPostRevealEvalReportArtifact fmt a = Inr h \<and> hexEqual (ea_artifactHash acc) h \<and> hexEqual (ea_evalReportHash acc) h \<and>
      hexEqual (ac_parentStateRoot (af_context a)) (ax_parentStateRoot active) \<and> hexEqual (ac_corpusRoot (af_context a)) (ax_corpusRoot active) \<and>
      (\<forall>p. ea_evaluationProof acc = Some p \<longrightarrow> (\<exists>pc g c gate confirm gbs cbs. jr_publicEvalContext job = Some pc \<and> pc_gateSeed pc = Some g \<and> pc_confirmSeed pc = Some c \<and>
        hexToBytes_checked g = Inr gbs \<and> hexToBytes_checked c = Inr cbs \<and> dp_gate p = Some gate \<and> dp_confirm p = Some confirm \<and>
        hexEqual (pk_seedCommit gate) (bytesToHex (keccak256 gbs)) \<and> hexEqual (pk_seedCommit confirm) (bytesToHex (keccak256 cbs)) \<and>
        pk_scorePpm gate = rr_gateScorePpm rr \<and> pk_scorePpm confirm = rr_confirmScorePpm rr \<and> hexEqual (dp_parentStateRoot p) (ax_parentStateRoot active))))"
proof -
  obtain h where v: "jr_jobId job \<in> outstanding" "validateResultSchema rr = None" "passed (context_checks job active)" "passed (decision_checks rr job active)"
      "\<And>p. rr_evaluationProof rr = Some p \<Longrightarrow> passed (proof_checks rr job active p)" "hashPostRevealEvalReportArtifact fmt a = Inr h" "passed (artifact_checks h rr active a)"
      "er = reconstruct rr"
    using assms by (auto simp: verify_Verified passed_result)
  have thr: "ax_thresholdPpm active \<le> num (rr_gateScorePpm rr)" "ax_thresholdPpm active \<le> num (rr_confirmScorePpm rr)"
    using less_int_js_min [of "rr_gateScorePpm rr" "rr_confirmScorePpm rr"] v(2,4) by (auto simp: validateResultSchema_def decision_checks_def first_failure_None Let_def)
  have hs: "hexEqual (the (rr_artifactHash rr)) h" "hexEqual (the (rr_evalReportHash rr)) h"
      "hexEqual (ac_parentStateRoot (af_context a)) (ax_parentStateRoot active)" "hexEqual (ac_corpusRoot (af_context a)) (ax_corpusRoot active)"
    using v(7) by (auto simp: artifact_checks_def first_failure_None hexEq_opt_def hexEqual_def split: option.splits)
  have pf: "\<exists>pc g c gate confirm gbs cbs. jr_publicEvalContext job = Some pc \<and> pc_gateSeed pc = Some g \<and> pc_confirmSeed pc = Some c \<and>
        hexToBytes_checked g = Inr gbs \<and> hexToBytes_checked c = Inr cbs \<and> dp_gate p = Some gate \<and> dp_confirm p = Some confirm \<and>
        hexEqual (pk_seedCommit gate) (bytesToHex (keccak256 gbs)) \<and> hexEqual (pk_seedCommit confirm) (bytesToHex (keccak256 cbs)) \<and>
        pk_scorePpm gate = rr_gateScorePpm rr \<and> pk_scorePpm confirm = rr_confirmScorePpm rr \<and> hexEqual (dp_parentStateRoot p) (ax_parentStateRoot active)"
    if p: "rr_evaluationProof rr = Some p" for p
  proof -
    have c: "hexEqual (dp_parentStateRoot p) (ax_parentStateRoot active)" "map_option pk_scorePpm (dp_gate p) = Some (rr_gateScorePpm rr)" "map_option pk_scorePpm (dp_confirm p) = Some (rr_confirmScorePpm rr)"
        "hexEq_opt (map_option pk_seedCommit (dp_gate p)) (remote_seedCommit (Option.bind (jr_publicEvalContext job) pc_gateSeed))"
        "hexEq_opt (map_option pk_seedCommit (dp_confirm p)) (remote_seedCommit (Option.bind (jr_publicEvalContext job) pc_confirmSeed))"
      using v(5) [OF p] by (simp_all add: proof_checks_def first_failure_None Let_def)
    then obtain gk ck where k: "remote_seedCommit (Option.bind (jr_publicEvalContext job) pc_gateSeed) = Some gk" "remote_seedCommit (Option.bind (jr_publicEvalContext job) pc_confirmSeed) = Some ck"
      by (auto simp: hexEq_opt_def split: option.splits)
    show ?thesis using c k unfolding remote_seedCommit_Some by (auto simp: bind_eq_Some_conv hexEq_opt_def hexEqual_def remote_seedCommit_def)
  qed
  show ?thesis using v(1,3,4,6,8) thr hs pf by (auto simp: context_checks_def decision_checks_def first_failure_None remote_accepted_def)
qed

section \<open>What it does not\<close>

text \<open>Another artifact in place of the one that was verified, with its own hash.\<close>

definition swap_artifact :: "Artifact \<Rightarrow> string \<Rightarrow> ScorerJobResult \<Rightarrow> ScorerJobResult" where
  "swap_artifact b h rr = rr\<lparr>rr_artifact := Some b, rr_artifactHash := Some h, rr_evalReportHash := Some h\<rparr>"

lemma swap_checks:
  assumes "isBytes32 h"
  shows "validateResultSchema rr = None \<Longrightarrow> validateResultSchema (swap_artifact b h rr) = None"
    "passed (decision_checks rr job active) \<Longrightarrow> passed (decision_checks (swap_artifact b h rr) job active)"
    "proof_checks (swap_artifact b h rr) job active p = proof_checks rr job active p"
  using assms by (auto simp: swap_artifact_def validateResultSchema_def decision_checks_def proof_checks_def first_failure_None some_bytes32_def Let_def)

text \<open>C38. The artifact is not tied to the result. If a result verifies, so does the result in which the artifact is replaced by any other artifact with the same context and rehashed, be it for another
  patch, miner, outcome or threshold, or with a receipt of other scores; the coordinator then signs the same scores and the same proof with the hash of that other artifact. If the other artifact
  repeats the seed derivation and the two seeds, the check of the seed echo does not notice either.\<close>

theorem artifact_not_bound:
  assumes "verifyScorerResult fmt (Some rr) job outstanding active expected = Verified er a" "hashPostRevealEvalReportArtifact fmt b = Inr h" "af_context b = af_context a"
  shows "\<exists>er' acc acc'. verifyScorerResult fmt (Some (swap_artifact b h rr)) job outstanding active expected = Verified er' b \<and>
    eval_accepted er = Some acc \<and> eval_accepted er' = Some acc' \<and> acc' = acc\<lparr>ea_evalReportHash := h, ea_artifactHash := h\<rparr> \<and>
    (af_seedDerivation b = af_seedDerivation a \<and> er_gateSeed (af_receipt b) = er_gateSeed (af_receipt a) \<and> er_confirmSeed (af_receipt b) = er_confirmSeed (af_receipt a) \<longrightarrow>
      checkArtifactSeedEcho (Some b) pins seeds = checkArtifactSeedEcho (Some a) pins seeds)"
proof -
  let ?rr = "swap_artifact b h rr"
  have b32: "isBytes32 h" using hash_shape(1) [OF assms(2)] .
  have chk: "passed (artifact_checks h ?rr active b)" if "passed (artifact_checks k rr active a)" for k
    using that assms(3) by (simp add: artifact_checks_def first_failure_None swap_artifact_def hexEq_opt_def)
  have same: "rr_jobId ?rr = rr_jobId rr" "rr_scorerHealth ?rr = rr_scorerHealth rr" "rr_evaluationProof ?rr = rr_evaluationProof rr" "rr_artifact ?rr = Some b"
    by (simp_all add: swap_artifact_def)
  have "verifyScorerResult fmt (Some ?rr) job outstanding active expected = Verified (reconstruct ?rr) b"
    using assms(1,2) chk by (auto simp: verify_Verified passed_result same swap_checks [OF b32])
  moreover have "er = reconstruct rr" using assms(1) by (auto simp: verify_Verified)
  moreover have "remote_accepted ?rr = remote_accepted rr\<lparr>ea_evalReportHash := h, ea_artifactHash := h\<rparr>" by (simp add: remote_accepted_def swap_artifact_def)
  moreover have "af_seedDerivation b = af_seedDerivation a \<and> er_gateSeed (af_receipt b) = er_gateSeed (af_receipt a) \<and> er_confirmSeed (af_receipt b) = er_confirmSeed (af_receipt a) \<longrightarrow>
      checkArtifactSeedEcho (Some b) pins seeds = checkArtifactSeedEcho (Some a) pins seeds" by (simp add: checkArtifactSeedEcho_def Let_def)
  ultimately show ?thesis by simp
qed

section \<open>The honest scorer\<close>

text \<open>The job that the coordinator ships for an evaluation it has prepared, with the seeds of its receipt; the live context and the health it expects of a host it has attested.\<close>

definition shipped_context :: "EvalJob \<Rightarrow> PerPatchReceipt \<Rightarrow> string \<Rightarrow> ScorerPublicEvalContext" where
  "shipped_context job r commit = \<lparr>pc_receivedAtBlock = Some (Fin (of_int (er_receivedAtBlock r))), pc_targetBlock = Some (Fin (of_int (er_targetBlock r))),
     pc_blockhash = Some (er_blockhash r), pc_gateSeed = Some (er_gateSeed r), pc_confirmSeed = Some (er_confirmSeed r),
     pc_targetBlockOffset = Some (Fin (of_int (jb_targetBlockOffset job))), pc_hiddenSeedCommit = Some commit\<rparr>"

definition shipped_job :: "string \<Rightarrow> string \<Rightarrow> EvaluatorCoreDeps \<Rightarrow> EvalJob \<Rightarrow> bytes \<Rightarrow> PerPatchReceipt \<Rightarrow> string \<Rightarrow> BootAttestation \<Rightarrow> ScorerCodeHealth \<Rightarrow> ScorerJobRequest" where
  "shipped_job jid policy deps job packed r commit att code = \<lparr>jr_jobId = jid, jr_epochId = Fin (of_int (ed_epochId deps)), jr_parentStateRoot = dk_parentStateRoot (jb_key job),
     jr_packedParentStateHex = bytesToHex packed, jr_patchHash = dk_patchHash (jb_key job), jr_corpusRoot = ed_corpusRoot deps, jr_bundleHash = ed_bundleHash deps,
     jr_coreVersionHash = ed_bundleHash deps, jr_thresholdPpm = Fin (of_int (jb_thresholdPpm job)), jr_policyHash = policy, jr_publicEvalContext = Some (shipped_context job r commit),
     jr_compactPatchBytesHex = bytesToHex (jb_bytes job), jr_miner = jb_miner job,
     jr_expectedScorerPins = Some \<lparr>xp_modelId = ba_rerankerModelId att, xp_revision = ba_rerankerRevision att, xp_promptTemplateHash = ba_promptTemplateHash att,
       xp_bundleHash = ed_bundleHash deps, xp_corpusRoot = ed_corpusRoot deps, xp_code = Some code\<rparr>\<rparr>"

definition live_context :: "EvaluatorCoreDeps \<Rightarrow> ScorerJobRequest \<Rightarrow> int \<Rightarrow> RemoteScorerActiveContext" where
  "live_context deps job thr = \<lparr>ax_epochId = ed_epochId deps, ax_parentStateRoot = jr_parentStateRoot job, ax_corpusRoot = jr_corpusRoot job, ax_bundleHash = jr_bundleHash job,
     ax_coreVersionHash = jr_coreVersionHash job, ax_workPolicyHash = jr_policyHash job, ax_thresholdPpm = thr\<rparr>"

definition attested_health :: "BootAttestation \<Rightarrow> ScorerCodeHealth \<Rightarrow> RemoteScorerExpectedHealth" where
  "attested_health att code = \<lparr>eh_modelId = ba_rerankerModelId att, eh_revision = ba_rerankerRevision att, eh_promptTemplateHash = ba_promptTemplateHash att, eh_code = Some code\<rparr>"

text \<open>A keyless host for the same bundle and corpus, with any store and any clock, and no use of a chain.\<close>

definition keyless_host ::
  "'s CoreTexEvalDedupStore \<Rightarrow> EvaluatorCoreDeps \<Rightarrow> EvaluatorEnv \<Rightarrow> string \<Rightarrow> BootAttestation \<Rightarrow> ScorerRuntime \<Rightarrow> string \<Rightarrow> ScorerCodeHealth \<Rightarrow> 's ScorerJobHandlerDeps \<Rightarrow> bool" where
  "keyless_host ops deps env commit att runtime cid code host \<longleftrightarrow>
     hd_scorePatch host = scorePatch ops (keyless commit deps) env commit \<and>
     hd_loadedPins host = boot_loadedPins att (ed_bundleHash deps) (ed_corpusRoot deps) commit code \<and>
     hd_scorerHealth host = boot_scorerHealth (hd_loadedPins host) runtime cid code \<and> rt_cuda runtime \<and> distinct (map fst code)"

definition prod_eval_result :: "EvalAcceptedResult \<Rightarrow> EvalResult" where
  "prod_eval_result res = (case pa_scores res of None \<Rightarrow> EvalScreenerPass (pa_accepted res) | Some sx \<Rightarrow> EvalStateAdvance (pa_accepted res) sx)"

lemma compare_self: "distinct (map fst code) \<Longrightarrow> compareScorerCodeHealth (Some code) (Some code) = None"
proof -
  assume "distinct (map fst code)"
  then have "\<not> code_differs code kv" if "kv \<in> set code" for kv
    using that by (cases kv) (auto simp: code_differs_def split: option.splits)
  then show ?thesis by (auto simp: compareScorerCodeHealth_def find_None_iff)
qed

lemma shipped_pins:
  assumes "keyless_host ops deps env commit att runtime cid code host"
  shows "checkScorerJobPins (shipped_job jid policy deps job packed r commit att code) (hd_loadedPins host) = None"
    "passed (health_checks (hd_scorerHealth host) (attested_health att code))"
  using assms compare_self
  by (auto simp: keyless_host_def checkScorerJobPins_def shipped_job_def shipped_context_def boot_loadedPins_def boot_scorerHealth_def health_checks_def attested_health_def first_failure_None)

lemma safe_Fin: "safe_nonneg n \<Longrightarrow> safe_nat (Fin (of_int n)) \<and> safe_int (Fin (of_int n)) = Some n \<and> num (Fin (of_int n)) = n"
proof -
  assume "safe_nonneg n"
  then have s: "safe_nat (Fin (of_int n))" by (auto simp: safe_nat_Fin)
  then have "safe_int (Fin (of_int n)) = Some n" by (auto simp: safe_nat_def split: if_splits)
  then show ?thesis using s by (simp add: num_def)
qed

lemma shipped_shape:
  assumes "deps_shape deps" "jid \<noteq> []" "isBytes32 policy" "isBytes32 (dk_parentStateRoot (jb_key job))" "isBytes32 (dk_patchHash (jb_key job))" "isAddress (jb_miner job)"
    "safe_nonneg (jb_thresholdPpm job)" "length packed = PACKED_SIZE"
  shows "validateJobShape (Some (shipped_job jid policy deps job packed r commit att code)) = None"
  using assms safe_Fin [of "ed_epochId deps"] safe_Fin [of "jb_thresholdPpm job"]
  by (simp add: validateJobShape_def shipped_job_def first_failure_None deps_shape_def del: safe_int.simps)

lemma shipped_parent:
  assumes "wf_state (jb_parent job)" "pack (jb_parent job) = Inr packed" "merkleizeState (jb_parent job) = Inr rt" "dk_parentStateRoot (jb_key job) = bytesToHex rt"
  shows "verifyJobParentState (shipped_job jid policy deps job packed r commit att code) = Inr (Inr (jb_parent job))"
  using unpack_packed [OF assms(1)] assms(2-4) by (simp add: verifyJobParentState_def shipped_job_def hexToBytes_bytesToHex)

lemma shipped_seeds:
  assumes "receipt_shape r" "toLowerCase (er_blockhash r) = er_blockhash r" "isBytes32 (er_gateSeed r)" "isBytes32 (er_confirmSeed r)" "toLowerCase (er_gateSeed r) = er_gateSeed r"
    "toLowerCase (er_confirmSeed r) = er_confirmSeed r" "0 < jb_targetBlockOffset job" "er_targetBlock r = er_receivedAtBlock r + jb_targetBlockOffset job"
  shows "resolveJobSeedContext (shipped_job jid policy deps job packed r commit att code) =
      Inr (\<lparr>sd_receivedAtBlock = er_receivedAtBlock r, sd_targetBlock = er_targetBlock r, sd_blockhash = er_blockhash r\<rparr>, (er_gateSeed r, er_confirmSeed r))"
    "positive_int (Some (Fin (of_int (jb_targetBlockOffset job)))) = Some (jb_targetBlockOffset job)"
proof -
  have p: "positive_int (Some (Fin (of_int n))) = Some n" if "0 < n" "n \<le> er_targetBlock r" for n
    using that assms(1) by (simp add: positive_int_Some receipt_shape_def safe_nonneg_def)
  have b: "positive_int (Some (Fin (of_int (er_receivedAtBlock r)))) = Some (er_receivedAtBlock r)" "positive_int (Some (Fin (of_int (er_targetBlock r)))) = Some (er_targetBlock r)"
      "positive_int (Some (Fin (of_int (jb_targetBlockOffset job)))) = Some (jb_targetBlockOffset job)"
    by (rule p; use assms(1,7,8) in \<open>simp add: receipt_shape_def\<close>)+
  show "positive_int (Some (Fin (of_int (jb_targetBlockOffset job)))) = Some (jb_targetBlockOffset job)" by (fact b)
  show "resolveJobSeedContext (shipped_job jid policy deps job packed r commit att code) =
      Inr (\<lparr>sd_receivedAtBlock = er_receivedAtBlock r, sd_targetBlock = er_targetBlock r, sd_blockhash = er_blockhash r\<rparr>, (er_gateSeed r, er_confirmSeed r))"
    using b assms(1-6,8) by (simp add: resolveJobSeedContext_def shipped_job_def shipped_context_def some_bytes32_def receipt_shape_def)
qed

lemma prepare_shipped:
  assumes "prepare_job deps env input = Inr job" "positive_int (Some (Fin (of_int (jb_targetBlockOffset job)))) = Some (jb_targetBlockOffset job)"
    "toLowerCase (er_blockhash r) = er_blockhash r"
  shows "prepare_job (keyless commit deps) env' (job_input (shipped_job jid policy deps job packed r commit att code) (jb_parent job)
      \<lparr>sd_receivedAtBlock = er_receivedAtBlock r, sd_targetBlock = er_targetBlock r, sd_blockhash = er_blockhash r\<rparr> (er_gateSeed r, er_confirmSeed r)) = Inr (pinned_job r job)"
proof -
  note j = prepared_job [OF assms(1)]
  have d: "decodePatch (jb_bytes job) = Inr (jb_patch job)" using assms(1) by (auto simp: prepare_job_def chain_bind_Inr Let_def of_js_def split: if_splits sum.splits)
  have thr: "num (Fin (of_int (jb_thresholdPpm job))) = jb_thresholdPpm job" using safe_Fin [OF j(8)] by simp
  show ?thesis using j d thr assms(2,3)
    by (simp add: prepare_job_def job_input_def shipped_job_def shipped_context_def keyless_def pinned_job_def chain_bind_def of_js_def or_else_def Let_def)
qed

text \<open>What an accepted result consists of.\<close>

lemma accepted_fields:
  assumes "accepted_result deps env commit job dual = Inr res"
  shows "\<exists>adv h pr. hashPostRevealEvalReportArtifact (ev_fmt env) (pa_artifact res) = Inr h \<and> af_receipt (pa_artifact res) = dual \<and>
    af_seedDerivation (pa_artifact res) = af_seedDerivation (job_payload deps commit job dual adv) \<and> af_context (pa_artifact res) = af_context (job_payload deps commit job dual adv) \<and>
    ea_evalReportHash (pa_accepted res) = h \<and> ea_artifactHash (pa_accepted res) = h \<and> ea_evaluationProof (pa_accepted res) = Some pr \<and>
    ea_deterministicDeltaPpm (pa_accepted res) = js_min (er_gateScorePpm dual) (er_confirmScorePpm dual) \<and>
    dualPackProofFromPerPatchReceipt dual \<lparr>px_corpusRoot = ed_corpusRoot deps, px_coreVersionHash = ed_bundleHash deps, px_hiddenSeedCommit = commit,
      px_targetBlockOffset = jb_targetBlockOffset job\<rparr> = Inr pr"
proof -
  obtain adv art pr where o: "buildPostRevealEvalReportArtifact (ev_fmt env) (job_payload deps commit job dual adv) = Inr art" "pa_artifact res = art"
      "pa_accepted res = \<lparr>ea_deterministicDeltaPpm = js_min (er_gateScorePpm dual) (er_confirmScorePpm dual), ea_evalReportHash = af_evalReportHash art, ea_artifactHash = af_artifactHash art,
         ea_evaluationProof = Some pr\<rparr>"
      "dualPackProofFromPerPatchReceipt dual \<lparr>px_corpusRoot = ed_corpusRoot deps, px_coreVersionHash = ed_bundleHash deps, px_hiddenSeedCommit = commit,
        px_targetBlockOffset = jb_targetBlockOffset job\<rparr> = Inr pr"
    using assms by (auto simp: accepted_result_def chain_bind_Inr Let_def of_js_Inr split: if_splits)
  obtain h where h: "hashPostRevealEvalReportArtifact (ev_fmt env) (job_payload deps commit job dual adv) = Inr h"
      "art = ArtifactPayload.extend (job_payload deps commit job dual adv) \<lparr>af_artifactHash = h, af_evalReportHash = h\<rparr>"
    using o(1) by (auto simp: build_Inr)
  have "af_artifactHash art = h" "af_evalReportHash art = h" using h(2) by (simp_all add: ArtifactPayload.extend_def)
  then show ?thesis using o(2-4) h by (intro exI [of _ adv] exI [of _ h] exI [of _ pr]) simp
qed

lemma at_least_mono: "at_least x b \<Longrightarrow> a \<le> b \<Longrightarrow> at_least x a"
  by (cases x; simp)

text \<open>The scores in the result of a job are those of the proof, hence those of the receipt.\<close>

lemma honest_checks:
  assumes "accepted_result deps env commit job dual = Inr res" "er_accepted dual" "er_parentRoot dual = dk_parentStateRoot (jb_key job)" "isBytes32 (er_gateSeed dual)" "isBytes32 (er_confirmSeed dual)"
    "safe_nat (er_gateScorePpm dual)" "safe_nat (er_confirmScorePpm dual)" "at_least (er_gateScorePpm dual) (jb_thresholdPpm job)" "at_least (er_confirmScorePpm dual) (jb_thresholdPpm job)"
    "safe_nonneg (jb_thresholdPpm job)" "isBytes32 policy" "thr \<le> jb_thresholdPpm job" "hd_scorerHealth host = hl"
    "wire = shipped_job jid policy deps job packed dual commit att code" "rr = job_result (result_base host wire start st) (ProdAccepted res)"
  shows "validateResultSchema rr = None" "passed (context_checks wire (live_context deps wire thr))" "rr_evaluationProof rr = Some p \<Longrightarrow> passed (proof_checks rr wire (live_context deps wire thr) p)"
    "passed (decision_checks rr wire (live_context deps wire thr))" "the (rr_scorerHealth rr) = hl" "rr_artifact rr = Some (pa_artifact res)" "reconstruct rr = prod_eval_result res"
    "hashPostRevealEvalReportArtifact (ev_fmt env) (pa_artifact res) = Inr h \<Longrightarrow> passed (artifact_checks h rr (live_context deps wire thr) (pa_artifact res))"
proof -
  obtain adv h' pr where f: "hashPostRevealEvalReportArtifact (ev_fmt env) (pa_artifact res) = Inr h'" "af_context (pa_artifact res) = af_context (job_payload deps commit job dual adv)"
      "ea_evalReportHash (pa_accepted res) = h'" "ea_artifactHash (pa_accepted res) = h'" "ea_evaluationProof (pa_accepted res) = Some pr"
      "ea_deterministicDeltaPpm (pa_accepted res) = js_min (er_gateScorePpm dual) (er_confirmScorePpm dual)"
      "dualPackProofFromPerPatchReceipt dual \<lparr>px_corpusRoot = ed_corpusRoot deps, px_coreVersionHash = ed_bundleHash deps, px_hiddenSeedCommit = commit,
        px_targetBlockOffset = jb_targetBlockOffset job\<rparr> = Inr pr"
    using accepted_fields [OF assms(1)] by auto
  obtain gbs cbs where sb: "hexToBytes_checked (er_gateSeed dual) = Inr gbs" "hexToBytes_checked (er_confirmSeed dual) = Inr cbs"
    using hexToBytes_checked_ok assms(4,5) by blast
  then have pr: "dp_gate pr = Some (pack_proof ''gate'' (bytesToHex (keccak256 gbs)) (er_gateScorePpm dual))" "dp_confirm pr = Some (pack_proof ''confirm'' (bytesToHex (keccak256 cbs)) (er_confirmScorePpm dual))"
      "dp_kind pr = ''coretex-dual-pack-v1''" "dp_corpusRoot pr = toLowerCase (ed_corpusRoot deps)" "dp_coreVersionHash pr = toLowerCase (ed_bundleHash deps)"
      "dp_parentStateRoot pr = toLowerCase (dk_parentStateRoot (jb_key job))"
    using f(7) assms(2,3) by (auto simp: dualPackProofFromPerPatchReceipt_def seedCommit_def)
  have rr: "rr_accepted rr = Some True" "rr_deltaPpm rr = js_min (er_gateScorePpm dual) (er_confirmScorePpm dual)" "rr_gateScorePpm rr = er_gateScorePpm dual" "rr_confirmScorePpm rr = er_confirmScorePpm dual"
      "rr_thresholdPpmUsed rr = Fin (of_int (jb_thresholdPpm job))" "rr_policyHash rr = toLowerCase policy" "rr_evalReportHash rr = Some h'" "rr_artifactHash rr = Some h'" "rr_evaluationProof rr = Some pr"
      "rr_pairTraceHash rr \<noteq> None" "rr_scoreArrayHash rr \<noteq> None" "rr_scorerHealth rr = Some hl"
    using f pr assms(13-15) by (simp_all add: result_base_def shipped_job_def Let_def pack_score_def pack_proof_def)
  have art: "rr_artifact rr = Some (pa_artifact res)" using assms(15) by (simp add: Let_def)
  have fin: "is_finite (js_min (er_gateScorePpm dual) (er_confirmScorePpm dual))" using assms(6,7) by (auto simp: safe_nat_Fin)
  have si: "safe_int (er_gateScorePpm dual) \<noteq> None" "safe_int (er_confirmScorePpm dual) \<noteq> None" using assms(6,7) by (auto simp: safe_nat_def split: option.splits)
  show "validateResultSchema rr = None"
    using fin si safe_Fin [OF assms(10)] assms(11) hash_shape(1) [OF f(1)] pr(3) by (simp add: validateResultSchema_def rr first_failure_None Let_def some_bytes32_def opt_all_def)
  have w: "jr_jobId wire = jid" "jr_epochId wire = Fin (of_int (ed_epochId deps))" "jr_parentStateRoot wire = dk_parentStateRoot (jb_key job)" "jr_corpusRoot wire = ed_corpusRoot deps"
      "jr_bundleHash wire = ed_bundleHash deps" "jr_coreVersionHash wire = ed_bundleHash deps" "jr_thresholdPpm wire = Fin (of_int (jb_thresholdPpm job))" "jr_policyHash wire = policy"
      "jr_publicEvalContext wire = Some (shipped_context job dual commit)"
    unfolding assms(14) by (simp_all add: shipped_job_def)
  have lc: "live_context deps wire thr = \<lparr>ax_epochId = ed_epochId deps, ax_parentStateRoot = dk_parentStateRoot (jb_key job), ax_corpusRoot = ed_corpusRoot deps, ax_bundleHash = ed_bundleHash deps,
      ax_coreVersionHash = ed_bundleHash deps, ax_workPolicyHash = policy, ax_thresholdPpm = thr\<rparr>"
    by (simp add: live_context_def w)
  have sc: "pc_gateSeed (shipped_context job dual commit) = Some (er_gateSeed dual)" "pc_confirmSeed (shipped_context job dual commit) = Some (er_confirmSeed dual)"
    by (simp_all add: shipped_context_def)
  show "passed (context_checks wire (live_context deps wire thr))" unfolding lc by (simp add: context_checks_def first_failure_None hexEqual_def w)
  have com: "remote_seedCommit (Some (er_gateSeed dual)) = Some (bytesToHex (keccak256 gbs))" "remote_seedCommit (Some (er_confirmSeed dual)) = Some (bytesToHex (keccak256 cbs))"
    using sb assms(4,5) by (simp_all add: remote_seedCommit_def)
  show "passed (proof_checks rr wire (live_context deps wire thr) p)" if "rr_evaluationProof rr = Some p"
  proof -
    have "p = pr" using that rr(9) by simp
    then show ?thesis unfolding lc by (simp add: proof_checks_def rr(3,4) w(9) sc com pr first_failure_None Let_def hexEqual_def hexEq_opt_def pack_proof_def)
  qed
  have "\<not> less_int (js_min (er_gateScorePpm dual) (er_confirmScorePpm dual)) thr"
    using less_int_min [OF assms(6,7), of thr] at_least_mono [OF assms(8,12)] at_least_mono [OF assms(9,12)] by blast
  then show "passed (decision_checks rr wire (live_context deps wire thr))"
    unfolding lc by (simp add: decision_checks_def rr art w first_failure_None hexEqual_def)
  show "the (rr_scorerHealth rr) = hl" "rr_artifact rr = Some (pa_artifact res)" using rr art by simp_all
  show "reconstruct rr = prod_eval_result res"
    using assms(15) f(5) by (cases "pa_scores res"; cases "pa_accepted res") (simp_all add: reconstruct_def prod_eval_result_def remote_accepted_def Let_def result_base_def)
  show "passed (artifact_checks h rr (live_context deps wire thr) (pa_artifact res))" if "hashPostRevealEvalReportArtifact (ev_fmt env) (pa_artifact res) = Inr h"
    using that f(1,2) unfolding lc by (simp add: artifact_checks_def rr first_failure_None hexEq_opt_def hexEqual_def job_payload_def)
qed

lemma honest_scorer:
  assumes "scorePatch ops deps env commit input st = (st', Inr (ProdAccepted res))" "prepare_job deps env input = Inr job" "si_injectedSeeds input = None" "deps_shape deps"
    "receipt_shape (af_receipt (pa_artifact res))" "toLowerCase (er_blockhash (af_receipt (pa_artifact res))) = er_blockhash (af_receipt (pa_artifact res))"
    "wf_state (jb_parent job)" "pack (jb_parent job) = Inr packed" "merkleizeState (jb_parent job) = Inr rt" "dk_parentStateRoot (jb_key job) = bytesToHex rt"
    "jid \<noteq> []" "jid \<in> outstanding" "isBytes32 policy" "thr \<le> jb_thresholdPpm job"
    "keyless_host ops' deps (env\<lparr>ev_rpcClient := rpc\<rparr>) commit att runtime cid code host"
    "wire = shipped_job jid policy deps job packed (af_receipt (pa_artifact res)) commit att code"
  shows "\<exists>rr. handleScoreJob (Some wire) host s = (hd_resetTrace host s, Inr (JobResult rr)) \<and>
    verifyScorerResult (ev_fmt env) (Some rr) wire outstanding (live_context deps wire thr) (attested_health att code) = Verified (prod_eval_result res) (pa_artifact res) \<and>
    (\<exists>ctx seeds. resolveJobSeedContext wire = Inr (ctx, seeds) \<and> checkArtifactSeedEcho (Some (pa_artifact res)) ctx (Some seeds) = None)"
proof -
  obtain dual ctx n c where ev: "evaluated (job_request job) (job_deps deps env job ctx n) dual c" "er_accepted dual" "accepted_result deps env commit job dual = Inr res"
      "0 < jb_targetBlockOffset job" "er_receivedAtBlock dual > 0 \<longrightarrow> er_targetBlock dual = er_receivedAtBlock dual + jb_targetBlockOffset job"
    using scorePatch_accepted [OF assms(1)] assms(2) by auto
  note j = prepared_job [OF assms(2)]
  obtain adv h where f: "hashPostRevealEvalReportArtifact (ev_fmt env) (pa_artifact res) = Inr h" "af_receipt (pa_artifact res) = dual"
      "af_seedDerivation (pa_artifact res) = af_seedDerivation (job_payload deps commit job dual adv)"
    using accepted_fields [OF ev(3)] by auto
  have rs: "receipt_shape dual" "toLowerCase (er_blockhash dual) = er_blockhash dual" using assms(5,6) f(2) by simp_all
  have inj: "pd_injectedSeeds (job_deps deps env job ctx n) = None" using j(4) assms(3) by simp
  note sd = evaluated_seeds [OF ev(1) inj]
  have off: "er_targetBlock dual = er_receivedAtBlock dual + jb_targetBlockOffset job" using ev(5) rs(1) by (simp add: receipt_shape_def)
  have wire: "wire = shipped_job jid policy deps job packed dual commit att code" using assms(16) f(2) by simp
  note off' = shipped_seeds(2) [OF rs sd ev(4) off]
  let ?ctx = "\<lparr>sd_receivedAtBlock = er_receivedAtBlock dual, sd_targetBlock = er_targetBlock dual, sd_blockhash = er_blockhash dual\<rparr>"
  have len: "length packed = PACKED_SIZE" using unpack_packed [OF assms(7)] assms(8) by (simp add: unpack_def split: if_splits)
  have addr: "isAddress (jb_miner job)" using evaluated_address [OF ev(1)] evaluated_miner [OF ev(1)] j(2) by (simp add: job_request_def)
  have root32: "isBytes32 (dk_parentStateRoot (jb_key job))" using assms(10) length_root [OF assms(9) wf_state_length [OF assms(7)]] by simp
  have seeds: "resolveJobSeedContext wire = Inr (?ctx, (er_gateSeed dual, er_confirmSeed dual))" unfolding wire by (rule shipped_seeds(1) [OF rs sd ev(4) off])
  have shape: "validateJobShape (Some wire) = None"
    unfolding wire by (rule shipped_shape) (fact assms(4,11,13) root32 addr j(8) len | simp add: j(5))+
  have prep: "prepare_job (keyless commit deps) (env\<lparr>ev_rpcClient := rpc\<rparr>) (job_input wire (jb_parent job) ?ctx (er_gateSeed dual, er_confirmSeed dual)) = Inr (pinned_job (af_receipt (pa_artifact res)) job)"
    unfolding wire f(2) by (rule prepare_shipped [OF assms(2) off' rs(2)])
  have run: "scorePatch ops' (keyless commit deps) (env\<lparr>ev_rpcClient := rpc\<rparr>) commit (job_input wire (jb_parent job) ?ctx (er_gateSeed dual, er_confirmSeed dual)) (hd_resetTrace host s)
      = (hd_resetTrace host s, Inr (ProdAccepted res))"
    by (rule keyless_run [OF assms(1,2,3) prep])
  let ?rr = "job_result (result_base host wire (hd_now host (hd_resetTrace host s)) (hd_resetTrace host s)) (ProdAccepted res)"
  have hp: "hd_scorePatch host = scorePatch ops' (keyless commit deps) (env\<lparr>ev_rpcClient := rpc\<rparr>) commit" using assms(15) by (simp add: keyless_host_def)
  have pins: "checkScorerJobPins wire (hd_loadedPins host) = None" "passed (health_checks (hd_scorerHealth host) (attested_health att code))"
    unfolding wire using shipped_pins [OF assms(15)] by simp_all
  have par: "verifyJobParentState wire = Inr (Inr (jb_parent job))" unfolding wire by (rule shipped_parent [OF assms(7-10)])
  have "handleScoreJob (Some wire) host s = (hd_resetTrace host s, Inr (JobResult ?rr))"
    using shape pins(1) par seeds run by (simp add: handleScoreJob_def run_job_def hp Let_def del: job_result.simps)
  moreover have "verifyScorerResult (ev_fmt env) (Some ?rr) wire outstanding (live_context deps wire thr) (attested_health att code) = Verified (prod_eval_result res) (pa_artifact res)"
  proof -
    have par': "er_parentRoot dual = dk_parentStateRoot (jb_key job)" using evaluatedD(2) [OF ev(1)] by (simp add: job_request_def)
    have sc: "safe_nat (er_gateScorePpm dual)" "safe_nat (er_confirmScorePpm dual)" using rs(1) by (simp_all add: receipt_shape_def)
    have al: "at_least (er_gateScorePpm dual) (jb_thresholdPpm job)" "at_least (er_confirmScorePpm dual) (jb_thresholdPpm job)" using evaluated_accepted [OF ev(1,2)] by simp_all
    note hc = honest_checks [where host = host and start = "hd_now host (hd_resetTrace host s)" and st = "hd_resetTrace host s" and hl = "hd_scorerHealth host" and rr = ?rr,
        OF ev(3,2) par' sd(1,2) sc al j(8) assms(13,14) refl wire refl]
    have ids: "rr_jobId ?rr = jr_jobId wire" "jr_jobId wire = jid" by (simp_all add: result_base_def Let_def wire) (simp add: shipped_job_def)
    show ?thesis unfolding verify_Verified passed_result
      by (intro exI [of _ ?rr] exI [of _ h] conjI allI impI)
        (use hc f(1) ids assms(12) pins(2) in \<open>simp_all del: job_result.simps\<close>)
  qed
  moreover have "checkArtifactSeedEcho (Some (pa_artifact res)) ?ctx (Some (er_gateSeed dual, er_confirmSeed dual)) = None"
    using f(2,3) by (simp add: checkArtifactSeedEcho_def first_failure_None Let_def opt_all_def job_payload_def hexEqual_def)
  ultimately show ?thesis using seeds by blast
qed

text \<open>C8. The round trip to the keyless scorer gives what the coordinator would have computed. If the coordinator's own evaluator accepts a patch, and it ships the job with its packed parent, its pins, its seed
  context and its seeds to a host that was attested for the same bundle and corpus and has the commitment instead of the secret, then the host does not refuse the job, and the coordinator
  verifies the answer, for every live threshold up to that of the job: it obtains exactly its own result and artifact, and the seed echo is in order. The host needs no chain and no secret, and
  nothing but its trace changes.\<close>

theorem honest_scorer_verified:
  assumes "scorePatch ops deps env commit input st = (st', Inr (ProdAccepted res))" "prepare_job deps env input = Inr job" "si_injectedSeeds input = None" "deps_shape deps"
    "receipt_shape (af_receipt (pa_artifact res))" "toLowerCase (er_blockhash (af_receipt (pa_artifact res))) = er_blockhash (af_receipt (pa_artifact res))"
    "wf_state (jb_parent job)" "pack (jb_parent job) = Inr packed" "merkleizeState (jb_parent job) = Inr rt" "dk_parentStateRoot (jb_key job) = bytesToHex rt"
    "jid \<noteq> []" "jid \<in> outstanding" "isBytes32 policy" "thr \<le> jb_thresholdPpm job"
    "keyless_host ops' deps (env\<lparr>ev_rpcClient := rpc\<rparr>) commit att runtime cid code host"
    "wire = shipped_job jid policy deps job packed (af_receipt (pa_artifact res)) commit att code"
  shows "\<exists>rr. handleScoreJob (Some wire) host s = (hd_resetTrace host s, Inr (JobResult rr)) \<and>
    verifyScorerResult (ev_fmt env) (Some rr) wire outstanding (live_context deps wire thr) (attested_health att code) = Verified (prod_eval_result res) (pa_artifact res) \<and>
    (\<exists>ctx seeds. resolveJobSeedContext wire = Inr (ctx, seeds) \<and> checkArtifactSeedEcho (Some (pa_artifact res)) ctx (Some seeds) = None)"
  by (rule honest_scorer) (fact assms)+

section \<open>What is scored\<close>

text \<open>C10. The scorer scores the pinned parent with the coordinator's seeds or nothing. Whatever is posted, the handler does not throw; it refuses the job without touching the evaluator, or it
  runs the evaluator once, on a trace that was just reset, for the posted patch and miner with the posted threshold, on a state whose Merkle root is the posted parent root, with bytes32
  seeds, a block hash and a target block that is the received block plus the offset, under the corpus and the bundle it has loaded. If the coordinator's parent has the posted root, that
  state is the coordinator's parent, or two strings hashed for them are an explicit Keccak-256 collision.\<close>

theorem scorer_scores_pinned_parent:
  assumes "handleScoreJob posted deps st = (st', response)"
  shows "\<exists>r. response = Inr r \<and> ((\<exists>code err. r = JobError code err \<and> code \<in> {400, 409, 422} \<and> st' = st) \<or>
    (\<exists>job state ctx g c root. posted = Some job \<and> run_job job deps (job_input job state ctx (g, c)) st = (st', r) \<and>
      merkleizeState state = Inr root \<and> bytesToHex root = toLowerCase (jr_parentStateRoot job) \<and> list_all isBytes32 [g, c, sd_blockhash ctx] \<and>
      si_targetBlockOffset (job_input job state ctx (g, c)) = Some (sd_targetBlock ctx - sd_receivedAtBlock ctx) \<and> sd_receivedAtBlock ctx < sd_targetBlock ctx \<and>
      hexEqual (jr_corpusRoot job) (lp_corpusRoot (hd_loadedPins deps)) \<and> hexEqual (jr_bundleHash job) (lp_bundleHash (hd_loadedPins deps)) \<and>
      (\<forall>parent. wf_state parent \<and> merkleizeState parent = Inr root \<longrightarrow> state = parent \<or> collision_between (hash_inputs state) (hash_inputs parent))))"
proof -
  obtain r where r: "response = Inr r" using handleScoreJob_total [of posted deps st] assms by auto
  from handleScoreJob_cases [OF assms [unfolded r]] show ?thesis
  proof (elim disjE exE conjE)
    fix job state ctx g c
    assume h: "posted = Some job" "checkScorerJobPins job (hd_loadedPins deps) = None" "verifyJobParentState job = Inr (Inr state)"
      "resolveJobSeedContext job = Inr (ctx, g, c)" "run_job job deps (job_input job state ctx (g, c)) st = (st', r)"
    obtain root where root: "merkleizeState state = Inr root" "bytesToHex root = toLowerCase (jr_parentStateRoot job)" using verifyJobParentState_ok(2) [OF h(3)] by blast
    note c = resolve_Inr [OF h(4)]
    obtain pc off where off: "jr_publicEvalContext job = Some pc" "positive_int (pc_targetBlockOffset pc) = Some off" "sd_targetBlock ctx = sd_receivedAtBlock ctx + off"
      using c(8) by blast
    then have t: "si_targetBlockOffset (job_input job state ctx (g, c)) = Some (sd_targetBlock ctx - sd_receivedAtBlock ctx)" "sd_receivedAtBlock ctx < sd_targetBlock ctx"
      by (simp_all add: job_input_def positive_int_Some)
    have pins: "hexEqual (jr_corpusRoot job) (lp_corpusRoot (hd_loadedPins deps))" "hexEqual (jr_bundleHash job) (lp_bundleHash (hd_loadedPins deps))"
      using h(2) by (simp_all add: checkScorerJobPins_def first_failure_None split: option.splits)
    have bind: "\<forall>parent. wf_state parent \<and> merkleizeState parent = Inr root \<longrightarrow> state = parent \<or> collision_between (hash_inputs state) (hash_inputs parent)"
      using state_root_binds [OF verifyJobParentState_ok(1) [OF h(3)]] root(1) by simp
    have "list_all isBytes32 [g, c, sd_blockhash ctx]" using c by simp
    with r h(1,5) root t pins bind show ?thesis by blast
  qed (use r in blast)
qed

section \<open>Witnesses\<close>

definition demo_att :: BootAttestation where
  "demo_att = \<lparr>ba_rerankerModelId = ''qwen3'', ba_rerankerRevision = ''r1'', ba_promptTemplateHash = demo_hash 11\<rparr>"

definition demo_code :: ScorerCodeHealth where
  "demo_code = [(''pipelineVersion'', Some ''coretex-scorer-payload-v1''), (''rerankerRunnerSha256'', None)]"

definition demo_runtime :: ScorerRuntime where
  "demo_runtime = \<lparr>rt_cuda = True, rt_device = ''gpu'', rt_torch = None, rt_transformers = None, rt_python = None\<rparr>"

definition demo_commit :: string where
  "demo_commit = bytesToHex (keccak256 (replicate 32 1))"

abbreviation (input) "no_chain \<equiv> \<lparr>rc_latest = Inl (CoreFault (JsError [])), rc_getBlockHash = (\<lambda>_. Inl (CoreFault (JsError []))), rc_waitForBlock = (\<lambda>_ _. Inl (CoreFault (JsError [])))\<rparr>"

definition demo_host :: "memory_store ScorerJobHandlerDeps" where
  "demo_host = \<lparr>hd_scorePatch = scorePatch createInMemoryDedupStore (keyless demo_commit demo_core_deps) (demo_env 5 9 700\<lparr>ev_rpcClient := no_chain\<rparr>) demo_commit, hd_resetTrace = (\<lambda>s. s),
     hd_traceSnapshot = (\<lambda>_. \<lparr>ts_totalScoredPairCount = 0, ts_pairTraceHash = ''0x'', ts_scoreArrayHash = ''0x''\<rparr>),
     hd_loadedPins = boot_loadedPins demo_att (demo_hash 3) (demo_hash 2) demo_commit demo_code,
     hd_scorerHealth = boot_scorerHealth (boot_loadedPins demo_att (demo_hash 3) (demo_hash 2) demo_commit demo_code) demo_runtime ''abc'' demo_code,
     hd_telemetry = None, hd_now = (\<lambda>_. 0)\<rparr>"

lemma demo_keyless: "keyless_host createInMemoryDedupStore demo_core_deps (demo_env 5 9 700\<lparr>ev_rpcClient := no_chain\<rparr>) demo_commit demo_att demo_runtime ''abc'' demo_code demo_host"
  by (simp add: keyless_host_def demo_host_def demo_runtime_def demo_code_def)

definition demo_wire :: "bytes \<Rightarrow> PerPatchReceipt \<Rightarrow> ScorerJobRequest" where
  "demo_wire packed r = shipped_job ''job-1'' (demo_hash 4) demo_core_deps demo_job packed r demo_commit demo_att demo_code"

text \<open>The premises at the demonstration: an accepted evaluation on the empty state.\<close>

lemma demo_honest:
  "\<exists>st' res packed rt. scorePatch createInMemoryDedupStore demo_core_deps (demo_env 5 9 700) demo_commit demo_input empty_store = (st', Inr (ProdAccepted res)) \<and>
    si_injectedSeeds demo_input = None \<and> deps_shape demo_core_deps \<and> receipt_shape (af_receipt (pa_artifact res)) \<and>
    toLowerCase (er_blockhash (af_receipt (pa_artifact res))) = er_blockhash (af_receipt (pa_artifact res)) \<and>
    wf_state (jb_parent demo_job) \<and> pack (jb_parent demo_job) = Inr packed \<and> merkleizeState (jb_parent demo_job) = Inr rt \<and> dk_parentStateRoot (jb_key demo_job) = bytesToHex rt"
proof -
  obtain st' res ctx n where run: "scorePatch createInMemoryDedupStore demo_core_deps (demo_env 5 9 700) demo_commit demo_input empty_store = (st', Inr (ProdAccepted res))"
      "evaluated (job_request demo_job) (job_deps demo_core_deps (demo_env 5 9 700) demo_job ctx n) (af_receipt (pa_artifact res)) (demo_ctx 5 9)"
    using demo_accepts by blast
  note rs = demo_receipt_shape [OF run(2)]
  obtain rt where rt: "merkleizeState zero_state = Inr rt" "demo_root = bytesToHex rt" using demo_root_zero by blast
  obtain packed where p: "pack zero_state = Inr packed" using pack_eq [OF zero_state_wf(2)] by blast
  have par: "jb_parent demo_job = zero_state" by (simp add: demo_job_def)
  have dep: "deps_shape demo_core_deps" "si_injectedSeeds demo_input = None" by (simp_all add: deps_shape_def safe_nonneg_def demo_input_def)
  show ?thesis using run(1) rs rt p dep by (intro exI [of _ st'] exI [of _ res] exI [of _ packed] exI [of _ rt]) (simp add: par)
qed

theorem honest_scorer_verified_witness:
  "\<exists>packed res rr. handleScoreJob (Some (demo_wire packed (af_receipt (pa_artifact res)))) demo_host empty_store = (empty_store, Inr (JobResult rr)) \<and>
    verifyScorerResult (\<lambda>_. []) (Some rr) (demo_wire packed (af_receipt (pa_artifact res))) {''job-1''} (live_context demo_core_deps (demo_wire packed (af_receipt (pa_artifact res))) 50)
      (attested_health demo_att demo_code) = Verified (prod_eval_result res) (pa_artifact res)"
proof -
  obtain st' res packed rt where d: "scorePatch createInMemoryDedupStore demo_core_deps (demo_env 5 9 700) demo_commit demo_input empty_store = (st', Inr (ProdAccepted res))"
      "si_injectedSeeds demo_input = None" "deps_shape demo_core_deps" "receipt_shape (af_receipt (pa_artifact res))"
      "toLowerCase (er_blockhash (af_receipt (pa_artifact res))) = er_blockhash (af_receipt (pa_artifact res))"
      "wf_state (jb_parent demo_job)" "pack (jb_parent demo_job) = Inr packed" "merkleizeState (jb_parent demo_job) = Inr rt" "dk_parentStateRoot (jb_key demo_job) = bytesToHex rt"
    using demo_honest by blast
  have x: "''job-1'' \<noteq> []" "''job-1'' \<in> {''job-1''}" "isBytes32 (demo_hash 4)" "50 \<le> jb_thresholdPpm demo_job" "ev_fmt (demo_env 5 9 700) = (\<lambda>_. [])" "hd_resetTrace demo_host empty_store = empty_store"
    by (simp_all add: demo_env_def demo_host_def)
  from honest_scorer_verified [OF d(1) demo_prepared_job d(2-9) x(1-4) demo_keyless demo_wire_def, of empty_store] show ?thesis unfolding x(5,6) by blast
qed

lemma demo_verified:
  "\<exists>packed res rr. handleScoreJob (Some (demo_wire packed (af_receipt (pa_artifact res)))) demo_host empty_store = (empty_store, Inr (JobResult rr)) \<and>
    verifyScorerResult (\<lambda>_. []) (Some rr) (demo_wire packed (af_receipt (pa_artifact res))) {''job-1''} (live_context demo_core_deps (demo_wire packed (af_receipt (pa_artifact res))) 50)
      (attested_health demo_att demo_code) = Verified (prod_eval_result res) (pa_artifact res) \<and>
    af_context (pa_artifact res) = af_context (forged_payload [])"
proof -
  obtain st' res packed rt where d: "scorePatch createInMemoryDedupStore demo_core_deps (demo_env 5 9 700) demo_commit demo_input empty_store = (st', Inr (ProdAccepted res))"
      "si_injectedSeeds demo_input = None" "deps_shape demo_core_deps" "receipt_shape (af_receipt (pa_artifact res))"
      "toLowerCase (er_blockhash (af_receipt (pa_artifact res))) = er_blockhash (af_receipt (pa_artifact res))"
      "wf_state (jb_parent demo_job)" "pack (jb_parent demo_job) = Inr packed" "merkleizeState (jb_parent demo_job) = Inr rt" "dk_parentStateRoot (jb_key demo_job) = bytesToHex rt"
    using demo_honest by blast
  have x: "''job-1'' \<noteq> []" "''job-1'' \<in> {''job-1''}" "isBytes32 (demo_hash 4)" "50 \<le> jb_thresholdPpm demo_job" "ev_fmt (demo_env 5 9 700) = (\<lambda>_. [])" "hd_resetTrace demo_host empty_store = empty_store"
    by (simp_all add: demo_env_def demo_host_def)
  obtain job dual where "prepare_job demo_core_deps (demo_env 5 9 700) demo_input = Inr job" "accepted_result demo_core_deps (demo_env 5 9 700) demo_commit job dual = Inr res"
    using scorePatch_accepted [OF d(1)] by blast
  then have "accepted_result demo_core_deps (demo_env 5 9 700) demo_commit demo_job dual = Inr res" using demo_prepared_job by simp
  then have "af_context (pa_artifact res) = af_context (forged_payload [])" using accepted_fields by (fastforce simp: forged_payload_def job_payload_def demo_commit_def)
  with honest_scorer [OF d(1) demo_prepared_job d(2-9) x(1-4) demo_keyless demo_wire_def, of empty_store] show ?thesis unfolding x(5,6) by blast
qed

theorem scorer_scores_pinned_parent_witness:
  "\<exists>wire rr state ctx g c. handleScoreJob (Some wire) demo_host empty_store = (empty_store, Inr (JobResult rr)) \<and> run_job wire demo_host (job_input wire state ctx (g, c)) empty_store = (empty_store, JobResult rr) \<and>
    list_all isBytes32 [g, c, sd_blockhash ctx]"
proof -
  obtain wire rr where h: "handleScoreJob (Some wire) demo_host empty_store = (empty_store, Inr (JobResult rr))" using demo_verified by blast
  obtain state ctx g c where "run_job wire demo_host (job_input wire state ctx (g, c)) empty_store = (empty_store, JobResult rr)" "list_all isBytes32 [g, c, sd_blockhash ctx]"
    using scorer_scores_pinned_parent [OF h] by auto
  then show ?thesis using h by blast
qed

theorem verified_result_bound_witness:
  "\<exists>rr job active er a. verifyScorerResult (\<lambda>_. []) (Some rr) job {''job-1''} active (attested_health demo_att demo_code) = Verified er a \<and> ax_thresholdPpm active = 50 \<and> 50 \<le> num (rr_gateScorePpm rr)"
proof -
  obtain rr job er a where v: "verifyScorerResult (\<lambda>_. []) (Some rr) job {''job-1''} (live_context demo_core_deps job 50) (attested_health demo_att demo_code) = Verified er a"
    using demo_verified by blast
  have t: "ax_thresholdPpm (live_context demo_core_deps job 50) = 50" by (simp add: live_context_def)
  from verified_result_bound [OF v] show ?thesis using v t by fastforce
qed

text \<open>The artifact of an invented evaluation at block 0 takes the place of the real one.\<close>

theorem artifact_not_bound_witness:
  "\<exists>rr job active er b h. verifyScorerResult (\<lambda>_. []) (Some (swap_artifact b h rr)) job {''job-1''} active (attested_health demo_att demo_code) = Verified er b \<and> af_receipt b = forged_receipt []"
proof -
  obtain rr job active res where v: "verifyScorerResult (\<lambda>_. []) (Some rr) job {''job-1''} active (attested_health demo_att demo_code) = Verified (prod_eval_result res) (pa_artifact res)"
      "af_context (pa_artifact res) = af_context (forged_payload [])"
    using demo_verified by blast
  obtain h where h: "hashPostRevealEvalReportArtifact (\<lambda>_. []) (forged_payload []) = Inr h" using hash_total [OF forged_plain] by blast
  let ?b = "ArtifactPayload.extend (forged_payload []) \<lparr>af_artifactHash = h, af_evalReportHash = h\<rparr>"
  have b: "hashPostRevealEvalReportArtifact (\<lambda>_. []) ?b = Inr h" "af_context ?b = af_context (pa_artifact res)" "af_receipt ?b = forged_receipt []"
    using h v(2) by (simp_all add: forged_payload_def)
  from artifact_not_bound [OF v(1) b(1,2)] show ?thesis using b(3) by blast
qed

end
