(* ===== verification/Substrate.thy ===== *)
theory Substrate
  imports Encoder
begin

text \<open>
  Properties of the whole decoded substrate that cross regions, and the write cursor of
  \<open>packages/coretex/src/substrate/slot-policy.ts\<close>.
\<close>

section \<open>Regions of the state\<close>

lemma decodeTemporal_region: "decodeTemporal s = temporal.region (words s)"
  by (simp add: decodeTemporal_def temporal.region_def)

lemma decodeRelations_region: "decodeRelations s = relation.region (words s)"
  by (simp add: decodeRelations_def relation.region_def)

lemma decodeMemoryIndex_region: "decodeMemoryIndex s = memory.region (words s)"
  by (simp add: decodeMemoryIndex_def memory.region_def)

lemma decodePolicyAtomRegion_region: "decodePolicyAtomRegion s family = atom.region family (words s)"
  by (simp add: decodePolicyAtomRegion_def atom.region_def Let_def)

lemmas decode_regions = decodeTemporal_region decodeRelations_region decodeMemoryIndex_region decodePolicyAtomRegion_region

lemma set_decoded_list: "a \<in> set (decoded_list os) \<longleftrightarrow> Decoded a \<in> set os"
  by (force simp: decoded_list_def map_filter_def slot_of_def split: outcome.splits)

lemma decoded_list_single:
  assumes "k < n"
  shows "decoded_list ((replicate n Empty)[k := Decoded a]) = [a]"
proof -
  have "decoded_list (replicate m Empty) = []" for m :: nat
    by (induction m) (simp_all add: decoded_list_def map_filter_simps slot_of_def)
  then show ?thesis using assms
    by (simp add: upd_conv_take_nth_drop decoded_list_def map_filter_def slot_of_def)
qed

section \<open>What the decoded substrate guarantees\<close>

lemma memory_slot_sound:
  "decode_memory_word k w = Decoded m \<Longrightarrow> mi_slotIndex m = k \<and> mi_valid m \<and> mi_recordId m \<noteq> 0 \<and> mi_retrievalSlot m < 36"
  by (auto simp: decode_memory_word_def Let_def split: if_splits option.splits)

lemma temporal_record_sound:
  "decode_temporal_word k w = Decoded r \<Longrightarrow> tr_recordIndex r = k \<and> tr_validFromEpoch r \<le> tr_validUntilEpoch r"
  by (auto simp: decode_temporal_word_def Let_def split: if_splits)

lemma decodeSubstrate_memoryIndex:
  "memoryIndex (decodeSubstrate s opts) = map slot_of (memory.region (words s))"
  by (simp add: decodeSubstrate_def Let_def decode_regions)

lemma decodeSubstrate_temporal:
  "temporal (decodeSubstrate s opts) = filter (temporal_cross_ok (memoryIndex (decodeSubstrate s opts)))
     (decoded_list (temporal.region (words s)))"
  by (simp add: decodeSubstrate_def Let_def decode_regions)

lemma decodeSubstrate_relations:
  "relations (decodeSubstrate s opts) = filter (\<lambda>e. relationEdgeValid e (memoryIndex (decodeSubstrate s opts)))
     (relation_edges (relation.region (words s)))"
  by (simp add: decodeSubstrate_def Let_def decode_regions)

definition active_slot :: "DecodedSubstrate \<Rightarrow> int \<Rightarrow> MemoryIndexSlot \<Rightarrow> bool" where
  "active_slot d i m \<longleftrightarrow> nat i < length (memoryIndex d) \<and> memoryIndex d ! nat i = Some m"

lemma nth_or_Some: "nth_or None xs i = Some y \<longleftrightarrow> i < length xs \<and> xs ! i = Some y"
  by (simp add: nth_or_def)

lemma active_slot_sound:
  assumes "active_slot (decodeSubstrate s opts) i m"
  shows "mi_slotIndex m = nat i \<and> mi_valid m \<and> mi_recordId m \<noteq> 0 \<and> mi_retrievalSlot m < 36"
proof -
  have "slot_of (decode_memory_word (nat i) (nth_or 0 (words s) (32 + nat i))) = Some m"
    using assms by (auto simp: active_slot_def decodeSubstrate_memoryIndex memory.region_def)
  then show ?thesis
    using memory_slot_sound by (auto simp: slot_of_def split: outcome.splits)
qed

text \<open>The decoded substrate is internally consistent in either mode: a temporal record points at
  an active MemoryIndex slot, has a window that is not inverted, and marks it stale only if that
  slot is revoked; a relation edge joins two active slots that share a domain bit; an active slot
  is valid, names a record and carries its own index.\<close>

lemma decodeSubstrate_consistent:
  "(\<forall>t \<in> set (temporal (decodeSubstrate s opts)). tr_validFromEpoch t \<le> tr_validUntilEpoch t \<and>
     (\<exists>m. active_slot (decodeSubstrate s opts) (tr_memorySlot t) m \<and> (tr_currentStaleFlag t \<longrightarrow> mi_revoked m))) \<and>
   (\<forall>e \<in> set (relations (decodeSubstrate s opts)). \<exists>a b. active_slot (decodeSubstrate s opts) (re_sourceSlot e) a \<and>
     active_slot (decodeSubstrate s opts) (re_targetSlot e) b \<and> mi_domainBits a AND mi_domainBits b \<noteq> 0) \<and>
   (\<forall>i m. active_slot (decodeSubstrate s opts) i m \<longrightarrow>
     mi_slotIndex m = nat i \<and> mi_valid m \<and> mi_recordId m \<noteq> 0 \<and> mi_retrievalSlot m < 36)"
proof (intro conjI ballI allI impI)
  let ?d = "decodeSubstrate s opts"
  fix t assume t: "t \<in> set (temporal ?d)"
  then have "Decoded t \<in> set (temporal.region (words s))" and cross: "temporal_cross_ok (memoryIndex ?d) t"
    by (auto simp: decodeSubstrate_temporal set_decoded_list)
  then show "tr_validFromEpoch t \<le> tr_validUntilEpoch t"
    using temporal_record_sound by (force simp: temporal.region_def)
  show "\<exists>m. active_slot ?d (tr_memorySlot t) m \<and> (tr_currentStaleFlag t \<longrightarrow> mi_revoked m)"
    using cross by (auto simp: temporal_cross_ok_def active_slot_def nth_or_Some split: option.splits)
next
  let ?d = "decodeSubstrate s opts"
  fix e assume "e \<in> set (relations ?d)"
  then have "relationEdgeValid e (memoryIndex ?d)" by (simp add: decodeSubstrate_relations)
  then show "\<exists>a b. active_slot ?d (re_sourceSlot e) a \<and> active_slot ?d (re_targetSlot e) b \<and>
      mi_domainBits a AND mi_domainBits b \<noteq> 0"
    by (auto simp: relationEdgeValid_def active_slot_def nth_or_Some split: option.splits if_splits)
qed (use active_slot_sound in auto)

text \<open>A state with one temporal record, in slot 0, pointing at a revoked MemoryIndex slot 0.\<close>

definition demo_slot :: MemoryIndexSlot where
  "demo_slot = \<lparr>mi_slotIndex = 0, mi_recordId = 5, mi_family = temporal_family, mi_domainBits = 3, mi_valid = True,
     mi_revoked = True, mi_protected = False, mi_policyAnchor = False, mi_retrievalSlot = 0, mi_expiryEpoch = 0\<rparr>"

definition demo_record :: TemporalRecord where
  "demo_record = \<lparr>tr_recordIndex = 0, tr_memorySlot = 0, tr_supersededBy = 1, tr_validFromEpoch = 2,
     tr_validUntilEpoch = 9, tr_currentStaleFlag = True\<rparr>"

lemma demo_words: "\<exists>w v. temporal.region ((replicate 1024 0)[800 := v, 32 := w]) = (replicate 96 Empty)[0 := Decoded demo_record] \<and>
    memory.region ((replicate 1024 0)[800 := v, 32 := w]) = (replicate 352 Empty)[0 := Decoded demo_slot]"
proof -
  let ?z = "replicate 1024 (0::int)"
  have "temporal_ok 0 demo_record" by (simp add: temporal_ok_def demo_record_def fits_iff)
  from temporal.write_read [OF _ _ this, of ?z]
  obtain v where v: "temporal.region (?z[800 := v]) = (replicate 96 Empty)[0 := Decoded demo_record]"
    by (auto simp: temporal.region_empty)
  have "memory_ok 0 demo_slot" by (simp add: memory_ok_def demo_slot_def fits_iff)
  from memory.write_read [OF _ _ this, of "?z[800 := v]"]
  obtain w where "memory.region (?z[800 := v, 32 := w]) = (memory.region (?z[800 := v]))[0 := Decoded demo_slot]"
    by auto
  moreover have "memory.region (?z[800 := v]) = replicate 352 Empty"
    by (simp add: memory.region_frame memory.region_empty)
  moreover have "temporal.region (?z[800 := v, 32 := w]) = temporal.region (?z[800 := v])"
    by (rule temporal.region_frame) simp
  ultimately show ?thesis using v by metis
qed

section \<open>The write cursor\<close>

datatype SubstrateSlotRegion = memory_index | retrieval_keys

fun SUBSTRATE_SLOT_CAPACITY :: "SubstrateSlotRegion \<Rightarrow> nat" where
  "SUBSTRATE_SLOT_CAPACITY memory_index = 352"
| "SUBSTRATE_SLOT_CAPACITY retrieval_keys = 36"

fun SUBSTRATE_WORDS_PER_SLOT :: "SubstrateSlotRegion \<Rightarrow> nat" where
  "SUBSTRATE_WORDS_PER_SLOT memory_index = 1"
| "SUBSTRATE_WORDS_PER_SLOT retrieval_keys = 8"

definition js_safe_integer :: "int \<Rightarrow> bool" where
  "js_safe_integer n \<longleftrightarrow> \<bar>n\<bar> \<le> 2 ^ 53 - 1"

definition wordIndexForSubstrateSlot :: "SubstrateSlotRegion \<Rightarrow> int \<Rightarrow> int \<Rightarrow> int js" where
  "wordIndexForSubstrateSlot rg slotIndex wordOffset =
     (let capacity = int (SUBSTRATE_SLOT_CAPACITY rg) in
      if \<not> js_safe_integer slotIndex \<or> slotIndex < 0 \<or> slotIndex \<ge> capacity then Inl (JsError ''slotIndex out of range'')
      else let wordsPerSlot = int (SUBSTRATE_WORDS_PER_SLOT rg) in
      if \<not> js_safe_integer wordOffset \<or> wordOffset < 0 \<or> wordOffset \<ge> wordsPerSlot then Inl (JsError ''wordOffset out of range'')
      else let start = (case rg of memory_index \<Rightarrow> MEMORY_INDEX_START | retrieval_keys \<Rightarrow> RETRIEVAL_KEYS_START)
      in Inr (start + slotIndex * wordsPerSlot + wordOffset))"

fun normalize_loop :: "int \<Rightarrow> int list \<Rightarrow> int list \<Rightarrow> int list js" where
  "normalize_loop capacity [] out = Inr out"
| "normalize_loop capacity (slot # slots) out =
     (if \<not> js_safe_integer slot \<or> slot < 0 \<or> slot \<ge> capacity then Inl (JsError ''protected slot out of range'')
      else normalize_loop capacity slots (js_set_add out slot))"

definition normalizeProtectedSlots :: "int list option \<Rightarrow> int \<Rightarrow> int list js" where
  "normalizeProtectedSlots slots capacity =
     (case slots of None \<Rightarrow> Inr [] | Some slots \<Rightarrow> normalize_loop capacity slots [])"

record SelectedSubstrateSlot =
  sel_region :: SubstrateSlotRegion
  sel_slotIndex :: int
  sel_wordIndex :: int
  sel_capacity :: int
  sel_wrapped :: bool

fun find_slot :: "nat \<Rightarrow> int list \<Rightarrow> int \<Rightarrow> int \<Rightarrow> int option" where
  "find_slot 0 protected capacity slotIndex = None"
| "find_slot (Suc tries) protected capacity slotIndex =
     (if slotIndex \<notin> set protected then Some slotIndex
      else find_slot tries protected capacity ((slotIndex + 1) mod capacity))"

definition selectSubstrateSlot :: "SubstrateSlotRegion \<Rightarrow> int \<Rightarrow> int list option \<Rightarrow> SelectedSubstrateSlot js" where
  "selectSubstrateSlot rg advanceIndex protectedSlots =
     (let capacity = int (SUBSTRATE_SLOT_CAPACITY rg) in
      if \<not> js_safe_integer advanceIndex \<or> advanceIndex < 0
        then Inl (JsError ''advanceIndex must be a non-negative safe integer'')
      else js_bind (normalizeProtectedSlots protectedSlots capacity) (\<lambda>protected.
        case find_slot (SUBSTRATE_SLOT_CAPACITY rg) protected capacity (advanceIndex mod capacity) of
          None \<Rightarrow> Inl (JsError ''no writable slots remain'')
        | Some slotIndex \<Rightarrow> js_bind (wordIndexForSubstrateSlot rg slotIndex 0) (\<lambda>wordIndex.
            Inr \<lparr>sel_region = rg, sel_slotIndex = slotIndex, sel_wordIndex = wordIndex, sel_capacity = capacity,
              sel_wrapped = (advanceIndex \<ge> capacity)\<rparr>)))"

lemma find_slot_ring:
  assumes "0 < capacity" "0 \<le> i" "i < capacity"
  shows "find_slot n protected capacity i =
    map_option (\<lambda>j. (i + int j) mod capacity) (find (\<lambda>j. (i + int j) mod capacity \<notin> set protected) [0..<n])"
  using assms
proof (induction n arbitrary: i)
  case (Suc n)
  have IH: "find_slot n protected capacity ((i + 1) mod capacity) =
    map_option (\<lambda>j. ((i + 1) mod capacity + int j) mod capacity)
      (find (\<lambda>j. ((i + 1) mod capacity + int j) mod capacity \<notin> set protected) [0..<n])"
    using Suc.prems by (intro Suc.IH) simp_all
  have shift: "((i + 1) mod capacity + int j) mod capacity = (i + int (Suc j)) mod capacity" for j
    by (simp add: mod_simps algebra_simps)
  have upt: "[0..<Suc n] = 0 # map Suc [0..<n]" by (simp add: upt_conv_Cons map_Suc_upt del: upt_Suc)
  have find_map: "find P (map Suc xs) = map_option Suc (find (\<lambda>j. P (Suc j)) xs)" for P xs
    by (induction xs) auto
  show ?case
    using Suc.prems by (simp add: IH shift upt find_map option.map_comp comp_def del: upt_Suc)
qed simp

lemma normalize_loop_Inr:
  "normalize_loop capacity slots out = Inr p \<longleftrightarrow>
     list_all (\<lambda>s. js_safe_integer s \<and> 0 \<le> s \<and> s < capacity) slots \<and> p = foldl js_set_add out slots"
  by (induction slots arbitrary: out) auto

lemma wordIndex_in_region:
  assumes "0 \<le> s" "s < int (SUBSTRATE_SLOT_CAPACITY rg)"
  shows "\<exists>w. wordIndexForSubstrateSlot rg s 0 = Inr w \<and>
    (case rg of memory_index \<Rightarrow> 32 \<le> w \<and> w \<le> 383 | retrieval_keys \<Rightarrow> 384 \<le> w \<and> w + 7 \<le> 671)"
  using assms by (cases rg) (simp_all add: wordIndexForSubstrateSlot_def Let_def js_safe_integer_def)

definition valid_protected :: "SubstrateSlotRegion \<Rightarrow> int list \<Rightarrow> bool" where
  "valid_protected rg slots \<longleftrightarrow> list_all (\<lambda>s. js_safe_integer s \<and> 0 \<le> s \<and> s < int (SUBSTRATE_SLOT_CAPACITY rg)) slots"

text \<open>The write cursor finds a slot whenever one is free: for a valid request the selected slot is
  the first slot of the ring, counted from \<open>advanceIndex mod capacity\<close>, that is not protected, and its
  word lies inside the region; the selection fails exactly when every slot is protected.\<close>

lemma selectSubstrateSlot_correct:
  assumes "js_safe_integer adv" "0 \<le> adv" "valid_protected rg slots"
  defines "cap \<equiv> int (SUBSTRATE_SLOT_CAPACITY rg)"
  shows "case selectSubstrateSlot rg adv (Some slots) of
      Inl _ \<Rightarrow> {0..<cap} \<subseteq> set slots
    | Inr r \<Rightarrow> (\<exists>j<SUBSTRATE_SLOT_CAPACITY rg. sel_slotIndex r = (adv + int j) mod cap \<and> sel_slotIndex r \<notin> set slots \<and>
          (\<forall>i<j. (adv + int i) mod cap \<in> set slots)) \<and>
        (case rg of memory_index \<Rightarrow> 32 \<le> sel_wordIndex r \<and> sel_wordIndex r \<le> 383
         | retrieval_keys \<Rightarrow> 384 \<le> sel_wordIndex r \<and> sel_wordIndex r + 7 \<le> 671)"
proof -
  have cap: "0 < cap" by (cases rg) (simp_all add: cap_def)
  have norm: "normalizeProtectedSlots (Some slots) cap = Inr (foldl js_set_add [] slots)"
    using assms(3) by (simp add: normalizeProtectedSlots_def normalize_loop_Inr valid_protected_def cap_def)
  have set: "set (foldl js_set_add [] slots) = set slots"
    using set_foldl_js_set_add [of "\<lambda>x. x" "[]" slots] by simp
  let ?P = "\<lambda>j. (adv + int j) mod cap \<notin> set slots"
  have fs: "find_slot (SUBSTRATE_SLOT_CAPACITY rg) (foldl js_set_add [] slots) cap (adv mod cap)
      = map_option (\<lambda>j. (adv + int j) mod cap) (find ?P [0..<SUBSTRATE_SLOT_CAPACITY rg])"
    using cap by (subst find_slot_ring) (simp_all add: set mod_simps)
  show ?thesis
  proof (cases "find ?P [0..<SUBSTRATE_SLOT_CAPACITY rg]")
    case None
    have "x \<in> set slots" if "0 \<le> x" "x < cap" for x
    proof -
      let ?j = "nat ((x - adv) mod cap)"
      have "?j < SUBSTRATE_SLOT_CAPACITY rg"
        using cap pos_mod_bound [of cap "x - adv"] by (simp add: cap_def nat_less_iff)
      then have "(adv + int ?j) mod cap \<in> set slots"
        using None by (auto simp: find_None_iff)
      then show ?thesis using cap that by (simp add: mod_simps)
    qed
    then have "{0..<cap} \<subseteq> set slots" by auto
    moreover have "selectSubstrateSlot rg adv (Some slots) = Inl (JsError ''no writable slots remain'')"
      using assms(1,2) None by (simp add: selectSubstrateSlot_def norm fs cap_def [symmetric])
    ultimately show ?thesis by simp
  next
    case (Some j)
    then have j: "j < SUBSTRATE_SLOT_CAPACITY rg" "?P j" "\<forall>i<j. \<not> ?P i"
      by (auto simp: find_Some_iff)
    let ?s = "(adv + int j) mod cap"
    have s: "0 \<le> ?s" "?s < cap" using cap by simp_all
    obtain w where w: "wordIndexForSubstrateSlot rg ?s 0 = Inr w"
      "case rg of memory_index \<Rightarrow> 32 \<le> w \<and> w \<le> 383 | retrieval_keys \<Rightarrow> 384 \<le> w \<and> w + 7 \<le> 671"
      using wordIndex_in_region [of ?s rg] s unfolding cap_def by blast
    have "selectSubstrateSlot rg adv (Some slots) = Inr \<lparr>sel_region = rg, sel_slotIndex = ?s, sel_wordIndex = w,
        sel_capacity = cap, sel_wrapped = (adv \<ge> cap)\<rparr>"
      using assms(1,2) Some w(1) by (simp add: selectSubstrateSlot_def norm fs cap_def [symmetric])
    then show ?thesis using w(2) j by (cases rg) auto
  qed
qed

end
