(* ===== verification/WorkerPool.thy ===== *)
theory WorkerPool
  imports JsValues
begin

text \<open>
  The evaluator's worker pool: \<open>packages/coretex/src/workers/pool.ts\<close>. Workers are numbered by creation, promises
  by the call of \<open>eval\<close> that made them; \<open>settled\<close> records how each promise was settled and \<open>outbox\<close> the
  messages posted to workers. What the worker threads do is the environment of a step relation.
\<close>

section \<open>Implementation\<close>

definition defaultPoolSize :: "nat \<Rightarrow> nat" where
  "defaultPoolSize cpus = (if cpus \<le> 4 then 1 else max 1 (min 8 (cpus - 2)))"

record EvalRequest =
  er_stateBytes :: bytes
  er_patchWireBytes :: bytes
  er_shardId :: bytes
  er_corpusRoot :: string

record EvalWorkerRequest = EvalRequest +
  rq_id :: nat

datatype EvalWorkerMessage = EvalWorkerResponse nat string | EvalWorkerError nat string

datatype settlement = Resolved string | Rejected string

type_synonym worker = nat
type_synonym promise = nat

record WorkerPool =
  workers :: "worker list"
  idle :: "worker list"
  queue :: "(EvalWorkerRequest \<times> promise) list"
  pending :: "(worker \<times> (nat \<times> promise) list) list"
  maxQueueSize :: "nat option"
  nextId :: nat
  closed :: bool
  spawned :: nat
  calls :: nat
  settled :: "(promise \<times> settlement) list"
  outbox :: "(worker \<times> EvalWorkerRequest) list"

text \<open>\<open>new Worker\<close>, a fresh number, registered and idle.\<close>

definition spawnWorker :: "WorkerPool \<Rightarrow> WorkerPool" where
  "spawnWorker p = (let worker = spawned p in
     p\<lparr>spawned := spawned p + 1, pending := AList.update worker [] (pending p), workers := workers p @ [worker], idle := idle p @ [worker]\<rparr>)"

definition empty_pool :: "nat option \<Rightarrow> WorkerPool" where
  "empty_pool q = \<lparr>workers = [], idle = [], queue = [], pending = [], maxQueueSize = q, nextId = 0, closed = False, spawned = 0,
     calls = 0, settled = [], outbox = []\<rparr>"

definition newWorkerPool :: "nat \<Rightarrow> js_number option \<Rightarrow> WorkerPool js" where
  "newWorkerPool poolSize opt =
     (let maxQ = (case opt of None \<Rightarrow> PosInf | Some n \<Rightarrow> n) in
      if maxQ = NaN \<or> maxQ = NegInf then Inl (RangeError ''WorkerPool: maxQueueSize must be finite or Infinity'')
      else case maxQ of
        Fin r \<Rightarrow> if r < 0 \<or> of_int \<lfloor>r\<rfloor> \<noteq> r then Inl (RangeError ''WorkerPool: maxQueueSize must be a non-negative integer'')
          else Inr ((spawnWorker ^^ poolSize) (empty_pool (Some (nat \<lfloor>r\<rfloor>))))
      | _ \<Rightarrow> Inr ((spawnWorker ^^ poolSize) (empty_pool None)))"

definition dispatch :: "worker \<Rightarrow> EvalWorkerRequest \<Rightarrow> promise \<Rightarrow> WorkerPool \<Rightarrow> WorkerPool" where
  "dispatch worker req entry p = (case map_of (pending p) worker of
       None \<Rightarrow> p
     | Some pendingMap \<Rightarrow> p\<lparr>pending := AList.update worker (AList.update (rq_id req) entry pendingMap) (pending p),
         outbox := outbox p @ [(worker, req)]\<rparr>)"

definition queue_saturated :: "WorkerPool \<Rightarrow> bool" where
  "queue_saturated p = (case maxQueueSize p of None \<Rightarrow> False | Some m \<Rightarrow> length (queue p) \<ge> m)"

text \<open>\<open>eval\<close> returns the promise \<open>calls p\<close> of the state before.\<close>

definition pool_eval :: "EvalRequest \<Rightarrow> WorkerPool \<Rightarrow> WorkerPool" where
  "pool_eval req p = (let entry = calls p; p = p\<lparr>calls := calls p + 1\<rparr> in
     if closed p then p\<lparr>settled := settled p @ [(entry, Rejected ''WorkerPool: pool is closed'')]\<rparr>
     else let fullReq = EvalRequest.extend req \<lparr>rq_id = nextId p\<rparr>; p = p\<lparr>nextId := nextId p + 1\<rparr> in
       if idle p \<noteq> [] then dispatch (last (idle p)) fullReq entry (p\<lparr>idle := butlast (idle p)\<rparr>)
       else if queue_saturated p then p\<lparr>settled := settled p @ [(entry, Rejected ''WorkerPool: queue is saturated'')]\<rparr>
       else p\<lparr>queue := queue p @ [(fullReq, entry)]\<rparr>)"

definition msg_id :: "EvalWorkerMessage \<Rightarrow> nat" where
  "msg_id msg = (case msg of EvalWorkerResponse i _ \<Rightarrow> i | EvalWorkerError i _ \<Rightarrow> i)"

definition msg_settlement :: "EvalWorkerMessage \<Rightarrow> settlement" where
  "msg_settlement msg = (case msg of EvalWorkerResponse _ reportJson \<Rightarrow> Resolved reportJson | EvalWorkerError _ err \<Rightarrow> Rejected err)"

definition onMessage :: "worker \<Rightarrow> EvalWorkerMessage \<Rightarrow> WorkerPool \<Rightarrow> WorkerPool" where
  "onMessage worker msg p = (case map_of (pending p) worker of
       None \<Rightarrow> p
     | Some pendingMap \<Rightarrow> (case map_of pendingMap (msg_id msg) of
           None \<Rightarrow> p
         | Some entry \<Rightarrow>
             let p = p\<lparr>pending := AList.update worker (AList.delete (msg_id msg) pendingMap) (pending p),
               settled := settled p @ [(entry, msg_settlement msg)]\<rparr> in
             (case queue p of
                (req, e) # rest \<Rightarrow> dispatch worker req e (p\<lparr>queue := rest\<rparr>)
              | [] \<Rightarrow> p\<lparr>idle := idle p @ [worker]\<rparr>)))"

definition onWorkerError :: "worker \<Rightarrow> string \<Rightarrow> WorkerPool \<Rightarrow> WorkerPool" where
  "onWorkerError worker err p =
     (let p = (case map_of (pending p) worker of
            None \<Rightarrow> p
          | Some pendingMap \<Rightarrow> p\<lparr>settled := settled p @ map (\<lambda>(_, entry). (entry, Rejected err)) pendingMap,
              pending := AList.update worker [] (pending p)\<rparr>) in
      if worker \<in> set (workers p)
      then spawnWorker (p\<lparr>workers := remove1 worker (workers p), pending := AList.delete worker (pending p), idle := remove1 worker (idle p)\<rparr>)
      else p)"

definition pool_close :: "WorkerPool \<Rightarrow> WorkerPool" where
  "pool_close p = p\<lparr>closed := True\<rparr>"

definition pool_size :: "WorkerPool \<Rightarrow> nat" where
  "pool_size p = length (workers p)"

definition queueDepth :: "WorkerPool \<Rightarrow> nat" where
  "queueDepth p = length (queue p)"

definition inFlight :: "WorkerPool \<Rightarrow> nat" where
  "inFlight p = foldl (\<lambda>total (_, m). total + length m) 0 (pending p)"

section \<open>Events\<close>

datatype pool_event = Call EvalRequest | Message worker EvalWorkerMessage | Failure worker string | Close

fun pool_handle :: "pool_event \<Rightarrow> WorkerPool \<Rightarrow> WorkerPool" where
  "pool_handle (Call req) p = pool_eval req p"
| "pool_handle (Message w msg) p = onMessage w msg p"
| "pool_handle (Failure w err) p = onWorkerError w err p"
| "pool_handle Close p = pool_close p"

inductive pool_reach :: "nat \<Rightarrow> js_number option \<Rightarrow> pool_event list \<Rightarrow> WorkerPool \<Rightarrow> bool" for sz opt where
  start: "newWorkerPool sz opt = Inr p \<Longrightarrow> pool_reach sz opt [] p"
| event: "pool_reach sz opt evs p \<Longrightarrow> pool_reach sz opt (evs @ [ev]) (pool_handle ev p)"

section \<open>Pending entries\<close>

definition entries :: "('a \<times> ('b \<times> 'c) list) list \<Rightarrow> ('b \<times> 'c) multiset" where
  "entries al = mset (concat (map snd al))"

lemma entries_update:
  "map_of al w = Some m0 \<Longrightarrow> entries (AList.update w m al) + mset m0 = entries al + mset m"
  by (induction al) (auto simp: entries_def)

lemma entries_update_new: "w \<notin> fst ` set al \<Longrightarrow> entries (AList.update w m al) = entries al + mset m"
  by (induction al) (auto simp: entries_def)

lemma entries_delete:
  "distinct (map fst al) \<Longrightarrow> map_of al w = Some m0 \<Longrightarrow> entries (AList.delete w al) + mset m0 = entries al"
proof (induction al)
  case (Cons x al)
  obtain k m where x: "x = (k, m)" by fastforce
  show ?case
  proof (cases "k = w")
    case True
    then have "AList.delete w al = al" using Cons.prems(1) x by (simp add: delete_conv' AList.delete_notin_dom)
    then show ?thesis using True Cons.prems x by (simp add: entries_def)
  next
    case False
    then show ?thesis using Cons x by (simp add: entries_def)
  qed
qed simp

section \<open>The invariant\<close>

definition promises_of :: "WorkerPool \<Rightarrow> promise multiset" where
  "promises_of p = mset (map fst (settled p)) + image_mset snd (entries (pending p)) + mset (map snd (queue p))"

definition pool_inv :: "nat \<Rightarrow> WorkerPool \<Rightarrow> bool" where
  "pool_inv sz p \<longleftrightarrow> length (workers p) = sz \<and> distinct (workers p) \<and> distinct (idle p) \<and> distinct (map fst (pending p)) \<and>
     fst ` set (pending p) = set (workers p) \<and> set (idle p) \<subseteq> set (workers p) \<and> (\<forall>w \<in> set (workers p). w < spawned p) \<and>
     (\<forall>w \<in> set (idle p). map_of (pending p) w = Some []) \<and>
     (\<forall>w \<in> set (workers p) - set (idle p). \<exists>e. map_of (pending p) w = Some [e]) \<and>
     promises_of p = mset [0..<calls p] \<and>
     (\<forall>m. maxQueueSize p = Some m \<longrightarrow> length (queue p) \<le> m)"

lemmas alist_simps = update_conv' dom_update distinct_update

declare map_of_eq_Some_iff [simp del]

lemma spawn_inv: "pool_inv sz p \<Longrightarrow> pool_inv (Suc sz) (spawnWorker p)"
proof -
  assume inv: "pool_inv sz p"
  have new: "spawned p \<notin> set (workers p)" using inv by (auto simp: pool_inv_def)
  then have "entries (AList.update (spawned p) [] (pending p)) = entries (pending p)"
    using inv entries_update_new [of "spawned p" "pending p" "[]"] by (auto simp: pool_inv_def)
  then show ?thesis
    using inv new by (auto simp: pool_inv_def spawnWorker_def promises_of_def Let_def alist_simps less_Suc_eq)
qed

lemma new_pool_inv: "newWorkerPool sz opt = Inr p \<Longrightarrow> pool_inv sz p"
proof -
  have "pool_inv 0 (empty_pool q)" for q by (auto simp: pool_inv_def empty_pool_def promises_of_def entries_def)
  then have "pool_inv n ((spawnWorker ^^ n) (empty_pool q))" for n q by (induction n) (auto intro: spawn_inv)
  then show "newWorkerPool sz opt = Inr p \<Longrightarrow> pool_inv sz p"
    by (auto simp: newWorkerPool_def Let_def split: if_splits option.splits js_number.splits)
qed

text \<open>A free worker takes one request.\<close>

lemma dispatch_free:
  "map_of (pending p) w = Some [] \<Longrightarrow> dispatch w req e p
    = p\<lparr>pending := AList.update w [(rq_id req, e)] (pending p), outbox := outbox p @ [(w, req)]\<rparr>"
  by (simp add: dispatch_def)

lemma entries_dispatch: "map_of al w = Some [] \<Longrightarrow> entries (AList.update w [(i, e)] al) = add_mset (i, e) (entries al)"
  using entries_update [of al w "[]" "[(i, e)]"] by simp

lemma butlast_idle: "distinct xs \<Longrightarrow> xs \<noteq> [] \<Longrightarrow> set (butlast xs) = set xs - {last xs}"
  by (cases xs rule: rev_cases) auto

lemma calls_Suc [simp]: "mset_set {0..<Suc n} = add_mset n (mset_set {0..<n})"
  by (simp add: atLeast0_lessThan_Suc)

lemma eval_inv:
  assumes "pool_inv sz p"
  shows "pool_inv sz (pool_eval req p)"
proof (cases "closed p \<or> idle p = []")
  case True
  then show ?thesis
    using assms by (auto simp: pool_inv_def pool_eval_def promises_of_def queue_saturated_def Let_def split: option.splits)
next
  case False
  let ?w = "last (idle p)"
  have w: "?w \<in> set (idle p)" "?w \<in> set (workers p)" using False assms by (auto simp: pool_inv_def)
  have free: "map_of (pending p) ?w = Some []" using assms w by (simp add: pool_inv_def)
  have idle: "set (butlast (idle p)) = set (idle p) - {?w}" using False assms butlast_idle by (auto simp: pool_inv_def)
  show ?thesis
    using assms False w free idle
    by (auto simp: pool_inv_def pool_eval_def promises_of_def Let_def dispatch_free entries_dispatch alist_simps distinct_butlast)
qed

lemma busy_worker: "pool_inv sz p \<Longrightarrow> w \<in> set (workers p) \<Longrightarrow> w \<notin> set (idle p) \<Longrightarrow> \<exists>i e. map_of (pending p) w = Some [(i, e)]"
  unfolding pool_inv_def by (metis DiffI surj_pair)

lemma idle_worker: "pool_inv sz p \<Longrightarrow> w \<in> set (idle p) \<Longrightarrow> map_of (pending p) w = Some []"
  by (simp add: pool_inv_def)

lemma pending_lookup:
  assumes "pool_inv sz p" "(w, m) \<in> set (pending p)"
  shows "map_of (pending p) w = Some m" "w \<in> set (workers p)"
proof -
  have "distinct (map fst (pending p))" "fst ` set (pending p) = set (workers p)" using assms(1) by (simp_all add: pool_inv_def)
  then show "map_of (pending p) w = Some m" "w \<in> set (workers p)" using assms(2) map_of_is_SomeI by force+
qed

lemma mset_exchange: "add_mset e X = add_mset e' Y \<Longrightarrow> add_mset e' (A + Y + C) = M \<Longrightarrow> add_mset e (A + X + C) = M"
  by (metis union_mset_add_mset_left union_mset_add_mset_right)

lemma message_ignored:
  "map_of (pending p) w = None \<or> (\<exists>m. map_of (pending p) w = Some m \<and> map_of m (msg_id msg) = None) \<Longrightarrow> onMessage w msg p = p"
  by (auto simp: onMessage_def)

text \<open>An answer to a request in flight settles its promise; the worker takes the next request or becomes idle.\<close>

lemma message_answered:
  assumes "pool_inv sz p" "map_of (pending p) w = Some m" "map_of m (msg_id msg) = Some e"
  shows "m = [(msg_id msg, e)] \<and> w \<in> set (workers p) - set (idle p) \<and> onMessage w msg p = (case queue p of
      [] \<Rightarrow> p\<lparr>pending := AList.update w [] (pending p), settled := settled p @ [(e, msg_settlement msg)], idle := idle p @ [w]\<rparr>
    | (req, e') # rest \<Rightarrow> p\<lparr>pending := AList.update w [(rq_id req, e')] (AList.update w [] (pending p)), settled := settled p @ [(e, msg_settlement msg)],
        queue := rest, outbox := outbox p @ [(w, req)]\<rparr>)"
proof -
  have "fst ` set (pending p) = set (workers p)" using assms(1) by (simp add: pool_inv_def)
  then have w: "w \<in> set (workers p)" using map_of_SomeD [OF assms(2)] by force
  moreover have "w \<notin> set (idle p)" using assms by (auto simp: pool_inv_def)
  ultimately obtain i e' where "map_of (pending p) w = Some [(i, e')]" using busy_worker [OF assms(1)] by blast
  then have "m = [(i, e')]" using assms(2) by simp
  then have m: "m = [(msg_id msg, e)]" using assms(3) by (simp split: if_splits)
  show ?thesis
    using w \<open>w \<notin> set (idle p)\<close> m assms(2) by (auto simp: onMessage_def dispatch_def update_conv' Let_def split: list.splits)
qed

lemma message_inv:
  assumes "pool_inv sz p"
  shows "pool_inv sz (onMessage w msg p)"
proof (cases "\<exists>m e. map_of (pending p) w = Some m \<and> map_of m (msg_id msg) = Some e")
  case False
  then have "onMessage w msg p = p" by (intro message_ignored) (auto simp: not_Some_eq)
  then show ?thesis using assms by simp
next
  case True
  then obtain m e where me: "map_of (pending p) w = Some m" "map_of m (msg_id msg) = Some e" by blast
  note ans = message_answered [OF assms me]
  have ent: "entries (pending p) = add_mset (msg_id msg, e) (entries (AList.update w [] (pending p)))"
    using entries_update [of "pending p" w m "[]"] me ans by simp
  show ?thesis
  proof (cases "queue p")
    case Nil
    then show ?thesis using assms ans me ent by (auto simp: pool_inv_def promises_of_def alist_simps)
  next
    case (Cons q rest)
    obtain req e' where q: "q = (req, e')" by fastforce
    have "add_mset (msg_id msg, e) (entries (AList.update w [(rq_id req, e')] (pending p))) = add_mset (rq_id req, e') (entries (pending p))"
      using entries_update [of "pending p" w m "[(rq_id req, e')]"] me ans by simp
    from arg_cong [OF this, of "image_mset snd"] have "add_mset e (image_mset snd (entries (AList.update w [(rq_id req, e')] (pending p))))
      = add_mset e' (image_mset snd (entries (pending p)))" by simp
    then show ?thesis
      using assms ans me Cons q by (auto simp: pool_inv_def promises_of_def alist_simps intro: mset_exchange)
  qed
qed

lemma failure_inv:
  assumes "pool_inv sz p"
  shows "pool_inv sz (onWorkerError w err p)"
proof (cases "w \<in> set (workers p)")
  case False
  then have "map_of (pending p) w = None" using assms by (auto simp: pool_inv_def map_of_eq_None_iff)
  then show ?thesis using False assms by (simp add: onWorkerError_def)
next
  case True
  then obtain m where m: "map_of (pending p) w = Some m" using busy_worker [OF assms] idle_worker [OF assms] by blast
  let ?al = "AList.delete w (AList.update w [] (pending p))"
  have "entries ?al = entries (AList.update w [] (pending p))"
    using entries_delete [of "AList.update w [] (pending p)" w "[]"] assms by (simp add: pool_inv_def alist_simps)
  then have ent: "entries (pending p) = entries ?al + mset m" using entries_update [OF m, of "[]"] by simp
  let ?p = "p\<lparr>settled := settled p @ map (\<lambda>(_, entry). (entry, Rejected err)) m, workers := remove1 w (workers p), pending := ?al, idle := remove1 w (idle p)\<rparr>"
  have "set (map fst ?al) = set (workers p) - {w}"
    using assms True unfolding delete_keys set_removeAll set_map dom_update by (auto simp: pool_inv_def)
  then have keys: "fst ` set ?al = set (workers p) - {w}" by simp
  have "pool_inv (sz - 1) ?p"
    using assms True ent keys m
    by (auto simp: pool_inv_def promises_of_def alist_simps delete_conv' distinct_delete length_remove1 case_prod_beta comp_def)
      (simp add: ac_simps)
  moreover have "0 < sz" using True assms by (auto simp: pool_inv_def)
  ultimately have "pool_inv sz (spawnWorker ?p)" using spawn_inv [of "sz - 1" ?p] by simp
  moreover have "onWorkerError w err p = spawnWorker ?p" using True m by (simp add: onWorkerError_def Let_def)
  ultimately show ?thesis by simp
qed

lemma reach_inv: "pool_reach sz opt evs p \<Longrightarrow> pool_inv sz p"
proof (induction rule: pool_reach.induct)
  case (event evs p ev)
  then show ?case by (cases ev) (simp_all add: eval_inv message_inv failure_inv, simp add: pool_close_def pool_inv_def promises_of_def)
qed (rule new_pool_inv)

section \<open>Progress\<close>

definition answering :: "worker \<Rightarrow> EvalWorkerMessage \<Rightarrow> WorkerPool \<Rightarrow> bool" where
  "answering w msg p \<longleftrightarrow> (case map_of (pending p) w of None \<Rightarrow> False | Some m \<Rightarrow> map_of m (msg_id msg) \<noteq> None)"

fun answers :: "(worker \<times> EvalWorkerMessage) list \<Rightarrow> WorkerPool \<Rightarrow> bool" where
  "answers [] p = True"
| "answers ((w, msg) # rest) p = (answering w msg p \<and> answers rest (onMessage w msg p))"

definition deliver :: "(worker \<times> EvalWorkerMessage) list \<Rightarrow> WorkerPool \<Rightarrow> WorkerPool" where
  "deliver msgs p = foldl (\<lambda>p (w, msg). onMessage w msg p) p msgs"

abbreviation unanswered :: "WorkerPool \<Rightarrow> nat" where
  "unanswered p \<equiv> inFlight p + queueDepth p"

lemma inFlight_entries: "inFlight p = size (entries (pending p))"
proof -
  have "foldl (\<lambda>total (_, m). total + length m) n al = n + size (entries al)" for n :: nat and al :: "(worker \<times> (nat \<times> promise) list) list"
    by (induction al arbitrary: n) (auto simp: entries_def)
  then show ?thesis by (simp add: inFlight_def)
qed

lemma calls_split: "pool_inv sz p \<Longrightarrow> length (settled p) + unanswered p = calls p"
proof -
  assume "pool_inv sz p"
  then have "size (promises_of p) = calls p" by (simp add: pool_inv_def)
  then show ?thesis by (simp add: promises_of_def inFlight_entries queueDepth_def)
qed

lemma answer_step:
  assumes "pool_inv sz p" "answering w msg p"
  shows "calls (onMessage w msg p) = calls p \<and> length (settled (onMessage w msg p)) = Suc (length (settled p))"
proof -
  obtain m e where me: "map_of (pending p) w = Some m" "map_of m (msg_id msg) = Some e"
    using assms(2) by (auto simp: answering_def split: option.splits)
  show ?thesis using message_answered [OF assms(1) me] by (auto split: list.splits)
qed

lemma deliver_answers:
  "pool_inv sz p \<Longrightarrow> answers msgs p \<Longrightarrow> pool_inv sz (deliver msgs p) \<and> calls (deliver msgs p) = calls p \<and>
    length (settled (deliver msgs p)) = length (settled p) + length msgs"
proof (induction msgs arbitrary: p)
  case (Cons x msgs)
  obtain w msg where x: "x = (w, msg)" by fastforce
  have "pool_inv sz (onMessage w msg p)" "answers msgs (onMessage w msg p)" using Cons.prems x message_inv by auto
  from Cons.IH [OF this] answer_step [OF Cons.prems(1), of w msg] Cons.prems(2) x show ?case by (simp add: deliver_def)
qed (simp add: deliver_def)

text \<open>Without worker failures no request waits while a worker is idle.\<close>

definition is_failure :: "pool_event \<Rightarrow> bool" where
  "is_failure ev = (case ev of Failure _ _ \<Rightarrow> True | _ \<Rightarrow> False)"

lemma work_conserving: "pool_reach sz opt evs p \<Longrightarrow> \<not> list_ex is_failure evs \<Longrightarrow> queue p \<noteq> [] \<Longrightarrow> idle p = []"
proof (induction rule: pool_reach.induct)
  case (start p)
  have "queue ((spawnWorker ^^ n) (empty_pool q)) = []" for n q
    by (induction n) (auto simp: empty_pool_def spawnWorker_def Let_def)
  with start show ?case by (auto simp: newWorkerPool_def Let_def split: if_splits option.splits js_number.splits)
next
  case (event evs p ev)
  have IH: "queue p \<noteq> [] \<Longrightarrow> idle p = []" using event.IH event.prems(1) by simp
  have inv: "pool_inv sz p" by (rule reach_inv [OF event.hyps])
  show ?case
  proof (cases ev)
    case (Call req)
    then show ?thesis
      using event.prems IH by (auto simp: pool_eval_def dispatch_def queue_saturated_def Let_def split: option.splits if_splits)
  next
    case (Message w msg)
    show ?thesis
    proof (cases "answering w msg p")
      case True
      then obtain m e where "map_of (pending p) w = Some m" "map_of m (msg_id msg) = Some e" by (auto simp: answering_def split: option.splits)
      from message_answered [OF inv this] show ?thesis using event.prems(2) Message IH by (auto split: list.splits)
    next
      case False
      then have "onMessage w msg p = p" by (intro message_ignored) (auto simp: answering_def split: option.splits)
      then show ?thesis using IH event.prems(2) Message by simp
    qed
  next
    case Close
    then show ?thesis using event.prems(2) IH by (simp add: pool_close_def)
  qed (use event.prems in \<open>simp add: is_failure_def\<close>)
qed

lemma someone_answers:
  assumes "pool_reach sz opt evs p" "\<not> list_ex is_failure evs" "0 < sz" "0 < unanswered p"
  shows "\<exists>w msg. answering w msg p"
proof -
  have inv: "pool_inv sz p" by (rule reach_inv [OF assms(1)])
  have "\<exists>w \<in> set (workers p). w \<notin> set (idle p)"
  proof (cases "queue p = []")
    case False
    then have "idle p = []" using work_conserving [OF assms(1,2)] by blast
    moreover have "workers p \<noteq> []" using inv assms(3) by (auto simp: pool_inv_def)
    ultimately show ?thesis by (cases "workers p") auto
  next
    case True
    then have "entries (pending p) \<noteq> {#}" using assms(4) by (auto simp: inFlight_entries queueDepth_def)
    then obtain w m x where m: "(w, m) \<in> set (pending p)" "x \<in> set m" by (auto simp: entries_def) (metis list.set_intros(1) neq_Nil_conv surj_pair)
    then have "map_of (pending p) w = Some m" "w \<in> set (workers p)" using pending_lookup [OF inv] by simp_all
    then show ?thesis using idle_worker [OF inv] m(2) by force
  qed
  then obtain w i e where "map_of (pending p) w = Some [(i, e)]" using busy_worker [OF inv] by blast
  then have "answering w (EvalWorkerResponse i []) p" by (simp add: answering_def msg_id_def)
  then show ?thesis by blast
qed

lemma reach_deliver:
  "pool_reach sz opt evs p \<Longrightarrow> \<not> list_ex is_failure evs \<Longrightarrow> \<exists>evs'. pool_reach sz opt evs' (deliver msgs p) \<and> \<not> list_ex is_failure evs'"
proof (induction msgs arbitrary: evs p)
  case (Cons x msgs)
  obtain w msg where x: "x = (w, msg)" by fastforce
  have "pool_reach sz opt (evs @ [Message w msg]) (onMessage w msg p)" using pool_reach.event [OF Cons.prems(1), of "Message w msg"] by simp
  from Cons.IH [OF this] Cons.prems(2) x show ?case by (simp add: deliver_def is_failure_def)
qed (auto simp: deliver_def)

text \<open>The pool keeps its promises: in every reachable state, whatever the callers, the workers and failures do, the pool
  has its configured number of workers, each with at most one request in flight, the queue is within
  its limit, and every promise handed out is settled exactly once, in flight or queued.\<close>

lemma pool_conserves:
  assumes "pool_reach sz opt evs p"
  shows "pool_size p = sz \<and> mset (map fst (settled p)) + image_mset snd (mset (concat (map snd (pending p)))) + mset (map snd (queue p)) = mset [0..<calls p] \<and>
    (\<forall>m. maxQueueSize p = Some m \<longrightarrow> queueDepth p \<le> m) \<and>
    distinct (map fst (pending p)) \<and> fst ` set (pending p) = set (workers p) \<and> (\<forall>w m. (w, m) \<in> set (pending p) \<longrightarrow> length m \<le> 1) \<and>
    inFlight p \<le> sz"
proof -
  have inv: "pool_inv sz p" by (rule reach_inv [OF assms])
  have one: "length m \<le> 1" if "(w, m) \<in> set (pending p)" for w m
  proof -
    have "map_of (pending p) w = Some m" "w \<in> set (workers p)" using pending_lookup [OF inv that] by simp_all
    then show ?thesis using busy_worker [OF inv, of w] idle_worker [OF inv, of w] by (cases "w \<in> set (idle p)") auto
  qed
  have "length (concat (map snd al)) \<le> length al" if "\<forall>(w, m) \<in> set al. length m \<le> 1" for al :: "(worker \<times> (nat \<times> promise) list) list"
    using that by (induction al) auto
  moreover have "length (pending p) = sz" using inv distinct_card [of "map fst (pending p)"] distinct_card [of "workers p"] by (simp add: pool_inv_def)
  ultimately have "inFlight p \<le> sz" using one by (fastforce simp: inFlight_entries entries_def)
  then show ?thesis using inv one by (auto simp: pool_inv_def pool_size_def queueDepth_def promises_of_def entries_def)
qed


definition demo_request :: EvalRequest where
  "demo_request = \<lparr>er_stateBytes = [], er_patchWireBytes = [1], er_shardId = [], er_corpusRoot = ''0x''\<rparr>"

definition demo_pool :: "pool_event list \<Rightarrow> WorkerPool" where
  "demo_pool evs = foldl (\<lambda>p ev. pool_handle ev p) (spawnWorker (empty_pool None)) evs"

lemma demo_reach: "pool_reach 1 None evs (demo_pool evs)"
proof (induction evs rule: rev_induct)
  case Nil
  show ?case by (rule pool_reach.start) (simp add: newWorkerPool_def demo_pool_def)
next
  case (snoc ev evs)
  from pool_reach.event [OF snoc, of ev] show ?case by (simp add: demo_pool_def)
qed



declare map_of_eq_Some_iff [simp]

end
