(* ===== verification/Spec2Isabelle.thy ===== *)
theory Spec2Isabelle
  imports CoordSystem EpochFrontier FundingTx Keccak_Spec LiveEpoch RemoteScorer Substrate WorkerPool RegistryReplay
begin

text \<open>
  A verification library for CoreTex, the state machine that keeps the shared memory state of the
  BOTCOIN network. The sources are the TypeScript files of \<open>src/packages/coretex/src\<close>; the
  file names below are relative to that directory.

  \<^bold>\<open>The program.\<close> A CoreTex state is 1024 words of 256 bits. Miners submit patches that
  overwrite a few words. A patch is bytes on the wire (\<open>state/patch.ts\<close>); it is applied
  under a type grammar and a set of guards, and the state is committed to by a Keccak-256 Merkle root
  (\<open>state/keccak256.ts\<close>, \<open>state/merkle.ts\<close>). An epoch collects patches: the batch reducer
  (\<open>reducer/reducer.ts\<close>) orders them and accepts greedily, the live lane
  (\<open>reducer/live-epoch.ts\<close>) accepts in arrival order and pays work units
  (\<open>rewards/work-units.ts\<close>). The registry contract logs what was accepted, and anyone can replay
  the logs (\<open>verify-epoch/index.ts\<close>, \<open>replay/coretex-registry.ts\<close>). Rewards are a tree of
  leaves (\<open>reducer/eligibility.ts\<close>, \<open>reducer/multiplier-cap.ts\<close>,
  \<open>reducer/funding-tx.ts\<close>). The state's words are read as regions of typed records
  (\<open>substrate/*.ts\<close>). A submitted patch is scored twice, on a gate and on a confirm pack whose seeds come from a block hash that
  does not exist yet when the patch arrives (\<open>coordinator/per-patch-evaluator.ts\<close>, \<open>coordinator/production-evaluator.ts\<close>); what is accepted is published as
  an artifact whose hash goes on chain, and is verified after the epoch's secret is revealed (\<open>replay/per-patch.ts\<close>, \<open>replay/eval-report-artifact.ts\<close>).
  The scoring itself may run on a remote host that holds no key and no secret (\<open>scorer-server-cli.ts\<close>); the coordinator verifies what it returns before it signs
  (\<open>coordinator/remote-scorer-verify.ts\<close>).

  \<^bold>\<open>The theories.\<close>
    \<^item> \<open>Prelude\<close>: the error type, results as sums with \<open>js_bind\<close>, lemma collections and facts
      on lists, bits and bytes that the components share. \<open>JsSort\<close>: \<open>Array.prototype.sort\<close> as
      the stable insertion sort, with a locale for comparators that order keys. \<open>JsValues\<close>:
      addresses, \<open>BigInt\<close> and \<open>Number\<close> parsing, and the numbers of the language.
    \<^item> \<open>Keccak\<close>, \<open>Keccak_Spec\<close>: \<open>state/keccak256.ts\<close> over pairs of 32-bit words, and the
      reference sponge over 64-bit lanes that it refines.
    \<^item> \<open>State_Types\<close>, \<open>Codec\<close>, \<open>Merkle\<close>, \<open>Validate\<close>: the state record and
      word ranges, the packed form, the tree with its incremental update, the must-be-zero bits and the policy regions.
    \<^item> \<open>Patch\<close>: LEB128, the wire format, the type grammar and the application of patches.
    \<^item> \<open>Decoder\<close>, \<open>Encoder\<close>, \<open>Substrate\<close>: \<open>substrate/retrieval-decoder.ts\<close> (per
      region, then composite), \<open>structural-validity.ts\<close> and \<open>slot-policy.ts\<close>.
    \<^item> \<open>Seed\<close>: \<open>eval/seed-derivation.ts\<close>. \<open>Reducer\<close>: \<open>reducer/accept-core.ts\<close> and
      \<open>reducer/reducer.ts\<close>. \<open>LiveEpoch\<close>: \<open>reducer/live-epoch.ts\<close>. \<open>WorkUnits\<close>:
      \<open>rewards/work-units.ts\<close>. \<open>Rewards\<close>, \<open>FundingTx\<close>: eligibility, bonus leaves, the
      claim tree and the calldata.
    \<^item> \<open>VerifyEpoch\<close>, \<open>RegistryReplay\<close>: the two replays from chain logs.
    \<^item> \<open>WorkerPool\<close>: \<open>workers/pool.ts\<close> as a state machine over calls, messages and failures.
    \<^item> \<open>EpochFrontier\<close>: \<open>coordinator/epoch-frontier.ts\<close>, the rotating window of active
      evaluation events.
    \<^item> \<open>Coordinator\<close>, \<open>Watcher\<close>: the core of \<open>coordinator/coretex-coordinator-core.ts\<close>: its state, boot, the
      chain watcher with reorganisations and the parity gate, receipts and their expiry; then the invariants that
      every tick keeps. \<open>Submit\<close>: the submit path of the same file, from the request body through the two mutex sections
      (\<open>prepareSubmitEvaluation\<close>, \<open>finishSubmitAfterEvaluation\<close>) to the recorded receipt. \<open>Signing\<close>: what a signature
      implies, with locales for what a handler leaves alone. \<open>CoordSystem\<close>: the intake queue and a step relation that
      interleaves submissions with ticks, lookups, freezes and baseline updates; a step is a section that the source runs
      under the core's mutex or a call that it runs at once.
    \<^item> \<open>CanonicalJson\<close>: \<open>canonical/json.ts\<close>, with the normal form that the text stands for. \<open>PerPatch\<close>: the wait for a block
      (\<open>coordinator/base-blockhash.ts\<close>), admission (\<open>eval/live-eval-admission.ts\<close>), the evaluation of one patch and its replay, and the notices of
      \<open>coordinator/patch-received-notice.ts\<close>. \<open>Evaluator\<close>: the evaluator core of \<open>coordinator/production-evaluator.ts\<close> and the artifacts of
      \<open>replay/eval-report-artifact.ts\<close>. \<open>Grinding\<close>: the contract of the dedup store as a locale, interpreted on the in-memory store, and the histories
      of evaluator calls with crashes. \<open>EvalReport\<close>: what is published and what its verification makes of it.
    \<^item> \<open>ScorerServer\<close>: the keyless host: job checks, handler, queue and access of \<open>scorer-server-cli.ts\<close>, and the trace of
      \<open>coordinator/scorer-pair-trace.ts\<close>. \<open>RemoteScorer\<close>: the checks of \<open>coordinator/remote-scorer-verify.ts\<close>, and the round trip of a job.

  \<^bold>\<open>What is shown.\<close> The hash equals its reference; the incremental tree equals the rebuilt
  one and its root binds the state up to an explicit collision; the wire and packed formats are
  bijections; an accepted patch writes exactly its words and keeps every invariant of the state; each
  region codec is exact; the reducer conserves its inputs, returns a state that is exactly the accepted
  patches, and does not depend on arrival order; both replays accept honest histories, and what they
  accept is an honest history; credits, bonuses and claims are exact and backed by the funded tree; the pool settles every promise.
  The coordinator core follows the chain under every interleaving; what it hands to the signer applies to the live state and lands when
  the chain announces it; its intake is bounded, and a miner's solve index is not signed twice while a receipt is valid.
  An accepted evaluation replays from its artifact, the artifact's hash fixes it, a remote scorer without the secret gives the coordinator its own result back, and neither resubmission nor
  crashes give a miner a second draw or more draws than the cap; the canonical text determines its value.
  This theory composes the live lane with the registry replay: what the
  coordinator accepts and publishes, everyone reproduces.

  \<^bold>\<open>Modelling.\<close> Functions that may throw return a sum whose left side is the error; message
  texts are not modelled, their codes are. BigInts are \<open>int\<close>, bytes are 8-bit words, the hash
  uses 32-bit words with wrap-around. Maps with an iteration order are association lists. Every
  function of the model is total: loops are structural recursions or have a measure, so no fuel bounds a result; the wait for a block alone is a partial function,
  with a theorem that it returns.
  A statement on hashes names its collision (\<open>collision_between\<close>) instead of assuming that there is none.

  \<^bold>\<open>Parameters.\<close> Marginal evaluators are functions of the input patch, pure as the source
  demands of them. SHA-256 and the results of floating-point expressions, where a component rounds them, are
  arguments of the definitions that use them. The worker threads of the pool are the environment of the
  state machine. The evaluator, the signer and the chain client of the coordinator core are arguments of its operations and may answer anything,
  failures included. The scorer of the evaluator is a function of the parent, the patch, the seed and the threshold; the RPC client, the loader of states and
  the publisher may fail at any call.

  \<^bold>\<open>Not modelled.\<close> The retrieval benchmark, the neural rerankers and encoders (floating point over
  trained models), the corpus tooling and the bundle (file system), the reports of the coordinator core and the services around it, the start of the scorer host, the
  handler and the command lines (network, storage and process glue), the construction of the production evaluator (environment, files, models), the fetching of logs over RPC, the canonical JSON hash of
  the work policy, and everything under \<open>src/scripts\<close> (experiments).
\<close>

section \<open>From the live lane to public replay\<close>

text \<open>What the coordinator publishes for an advance of the live lane.\<close>

definition publishes :: "bigint \<Rightarrow> StateAdvance \<Rightarrow> CoreTexStateAdvancedEvent \<Rightarrow> bool" where
  "publishes e adv ev \<longleftrightarrow> ca_epoch ev = e \<and> ca_transitionIndex ev = int (adv_advanceIndex adv) \<and>
     ca_parentStateRoot ev = adv_parentStateRoot adv \<and> ca_newStateRoot ev = adv_newStateRoot adv \<and>
     ca_patchHash ev = adv_patchHash adv \<and> ca_compactPatchBytes ev = adv_patchBytes adv"

lemma publishes_epoch: "list_all2 (publishes e) advs evs \<Longrightarrow> ev \<in> set evs \<Longrightarrow> ca_epoch ev = e"
  by (induction rule: list_all2_induct) (auto simp: publishes_def)

lemma registry_run_snoc:
  "registry_run opts as c c' \<Longrightarrow> registry_step opts a c' c'' \<Longrightarrow> registry_run opts (as @ [a]) c c''"
  by (induction rule: registry_run.induct) (auto intro: registry_run.intros)

definition next_after :: "bigint \<Rightarrow> nat \<Rightarrow> (bigint \<rightharpoonup> bigint)" where
  "next_after e k = (if k = 0 then Map.empty else Map.empty(e \<mapsto> int k))"

lemma published_step:
  assumes "advance_at s th lopts items advs k" "k < length advs" "publishes e (advs ! k) ev"
    "pins_match (resolveEpochPins ropts (ca_epoch ev)) ev" "op_policyAtomsMode ropts = lw_policyAtomsMode lopts"
    "\<forall>x \<in> set items. decodePatch (li_patchBytes x) = Inr (li_patch x)"
  shows "\<exists>t u. apply_chain (lw_policyAtomsMode lopts) s (map adv_patch (take k advs)) = Inr t \<and>
    apply_chain (lw_policyAtomsMode lopts) s (map adv_patch (take (Suc k) advs)) = Inr u \<and>
    registry_step ropts ev (t, next_after e k) (u, next_after e (Suc k))"
proof -
  obtain item t u rt ru units where a: "item \<in> set items" "apply_chain (lw_policyAtomsMode lopts) s (map adv_patch (take k advs)) = Inr t"
      "merkleizeState t = Inr rt" "applyPatchOntoCurrent t (li_patch item) (lw_policyAtomsMode lopts) = Inr u" "merkleizeState u = Inr ru"
      "parentStateRoot (li_patch item) = rt"
      "advs ! k = \<lparr>adv_miner = toLowerCase (li_miner item), adv_patch = li_patch item, adv_patchBytes = li_patchBytes item,
         adv_patchHash = computePatchHash (li_patchBytes item), adv_parentStateRoot = bytesToHex rt, adv_newStateRoot = bytesToHex ru,
         adv_marginalGain = li_marginalEvaluator item t (li_patch item), adv_workUnitsBps = units, adv_creditUnits = units, adv_advanceIndex = k\<rparr>"
    using assms(1) unfolding advance_at_def by blast
  have ev: "ca_epoch ev = e" "ca_transitionIndex ev = int k" "ca_parentStateRoot ev = bytesToHex rt" "ca_newStateRoot ev = bytesToHex ru"
      "ca_patchHash ev = computePatchHash (li_patchBytes item)" "ca_compactPatchBytes ev = li_patchBytes item"
    using assms(3) by (simp_all add: publishes_def a(7))
  have "registry_step ropts ev (t, next_after e k) (u, (next_after e k)(ca_epoch ev \<mapsto> ca_transitionIndex ev + 1))"
    by (rule registry_step.advance [where p = "li_patch item" and rt = rt and rt' = ru])
      (use a assms(4-6) in \<open>simp_all add: ev next_after_def eqHex_def\<close>)
  moreover have "(next_after e k)(ca_epoch ev \<mapsto> ca_transitionIndex ev + 1) = next_after e (Suc k)"
    by (auto simp: ev next_after_def)
  moreover have "apply_chain (lw_policyAtomsMode lopts) s (map adv_patch (take (Suc k) advs)) = Inr u"
    using apply_all_snoc [OF a(2), of "li_patch item"] a(4,7) assms(2) by (simp add: take_Suc_conv_app_nth)
  ultimately show ?thesis using a(2) by auto
qed

lemma published_run:
  assumes "\<forall>k < length advs. advance_at s th lopts items advs k" "list_all2 (publishes e) advs evs"
    "list_all (\<lambda>ev. pins_match (resolveEpochPins ropts (ca_epoch ev)) ev) evs" "op_policyAtomsMode ropts = lw_policyAtomsMode lopts"
    "\<forall>x \<in> set items. decodePatch (li_patchBytes x) = Inr (li_patch x)"
    "k \<le> length advs"
  shows "\<exists>t. apply_chain (lw_policyAtomsMode lopts) s (map adv_patch (take k advs)) = Inr t \<and>
    registry_run ropts (take k evs) (s, Map.empty) (t, next_after e k)"
  using assms(6)
proof (induction k)
  case 0
  then show ?case using registry_run.stop [of ropts "(s, Map.empty)"] by (simp add: next_after_def)
next
  case (Suc k)
  then obtain t where t: "apply_chain (lw_policyAtomsMode lopts) s (map adv_patch (take k advs)) = Inr t"
      "registry_run ropts (take k evs) (s, Map.empty) (t, next_after e k)" by auto
  have k: "k < length advs" "k < length evs" using Suc.prems list_all2_lengthD [OF assms(2)] by simp_all
  have "publishes e (advs ! k) (evs ! k)" "pins_match (resolveEpochPins ropts (ca_epoch (evs ! k))) (evs ! k)"
    using list_all2_nthD [OF assms(2) k(1)] assms(3) k(2) by (simp_all add: list_all_length)
  from published_step [OF _ k(1) this assms(4,5)] assms(1) k(1) t(1)
  obtain u where u: "apply_chain (lw_policyAtomsMode lopts) s (map adv_patch (take (Suc k) advs)) = Inr u"
      "registry_step ropts (evs ! k) (t, next_after e k) (u, next_after e (Suc k))" by (metis sum.inject(2))
  have "registry_run ropts (take (Suc k) evs) (s, Map.empty) (u, next_after e (Suc k))"
    using registry_run_snoc [OF t(2) u(2)] k(2) by (simp add: take_Suc_conv_app_nth)
  then show ?case using u(1) by blast
qed

text \<open>C1. What the live lane accepts, everyone can replay: for every parent state and every list of submissions whose bytes
  spell their patches, the live lane returns; and when each of its advances is published under the
  epoch's pins, any arrangement of the registry's logs replays from the same parent to exactly the
  state root that the live lane reported.\<close>

theorem live_epoch_replays:
  assumes "wf_state s" "\<forall>x \<in> set ps. decodePatch (li_patchBytes x) = Inr (li_patch x)" "\<forall>n. \<exists>u. advance_units lopts n = Inr u"
    "op_policyAtomsMode ropts = lw_policyAtomsMode lopts"
  shows "\<exists>out. advanceEpochState s ps th lopts = Inr out \<and>
    (\<forall>xs e logs. list_all2 (publishes e) (lo_advances out) (map snd xs) \<and> list_all (\<lambda>(l, ev). advance_logged l ev) xs \<and>
      list_all (\<lambda>ev. pins_match (resolveEpochPins ropts (ca_epoch ev)) ev) (map snd xs) \<and> mset logs = mset (map fst xs) \<longrightarrow>
      (\<exists>r. replayCoreTexFromLogs s logs ropts = Inr r \<and> rr_ok r \<and> rr_reproducedFinalRoot r = Some (lo_newStateRootHex out) \<and>
        rr_transitions r = int (length (lo_advances out)))
      \<or> collision_between [utf8 SIG_STATE_ADVANCED] [utf8 SIG_EPOCH_FINALIZED])"
proof -
  have sized: "\<forall>x \<in> set ps. well_sized (li_patch x)" using assms(2) decodePatch_well_sized by blast
  obtain out where out: "advanceEpochState s ps th lopts = Inr out"
      "apply_chain (lw_policyAtomsMode lopts) s (map adv_patch (lo_advances out)) = Inr (lo_newState out)"
      "merkleizeState (lo_newState out) = Inr (lo_newStateRoot out)" "\<forall>k < length (lo_advances out). advance_at s th lopts ps (lo_advances out) k"
    using live_epoch_run [OF assms(1) sized assms(3), of th] by blast
  have hex: "lo_newStateRootHex out = bytesToHex (lo_newStateRoot out)"
    using out(1) by (auto simp: advanceEpochState_def js_bind_eq_Inr_iff Let_def)
  have "(\<exists>r. replayCoreTexFromLogs s logs ropts = Inr r \<and> rr_ok r \<and> rr_reproducedFinalRoot r = Some (lo_newStateRootHex out) \<and>
      rr_transitions r = int (length (lo_advances out))) \<or> collision_between [utf8 SIG_STATE_ADVANCED] [utf8 SIG_EPOCH_FINALIZED]"
    if pub: "list_all2 (publishes e) (lo_advances out) (map snd xs)" and lg: "list_all (\<lambda>(l, ev). advance_logged l ev) xs"
      and pins: "list_all (\<lambda>ev. pins_match (resolveEpochPins ropts (ca_epoch ev)) ev) (map snd xs)" and perm: "mset logs = mset (map fst xs)" for xs e logs
  proof -
    have len: "length xs = length (lo_advances out)" using list_all2_lengthD [OF pub] by simp
    from published_run [OF out(4) pub pins assms(4,2) order_refl] out(2) len
    have run: "registry_run ropts (map snd xs) (s, Map.empty) (lo_newState out, next_after e (length (lo_advances out)))" by auto
    have "\<forall>ev \<in> set (map snd xs). ca_epoch ev = e" using publishes_epoch [OF pub] by blast
    then have "sorted_wrt (\<lambda>a b. ca_epoch a \<le> ca_epoch b) (map snd xs)" by (simp add: sorted_wrt_iff_nth_less)
    from replay_accepts [OF assms(1) run this lg, of "[]" logs] perm out(3) hex len show ?thesis by fastforce
  qed
  then show ?thesis using out(1) by blast
qed

definition demo_submission :: "bytes \<Rightarrow> LiveEpochInputPatch" where
  "demo_submission rt = \<lparr>li_miner = ''0xAb'', li_patch = slot_patch rt, li_patchBytes = patch_bytes (slot_patch rt), li_scoreDelta = 10,
     li_marginalEvaluator = stubMarginalEvaluator\<rparr>"

lemma demo_publishes:
  assumes "merkleizeState zero_state = Inr rt" "advanceEpochState zero_state [demo_submission rt] 5 demo_opts = Inr out"
  shows "\<exists>rt'. length rt' = 32 \<and> list_all2 (publishes 3) (lo_advances out) [demo_advance rt rt']"
proof -
  define t where "t = \<lparr>words = (replicate 1024 0)[33 := push_bit 128 9 :: int]\<rparr>"
  have ap: "applyPatchOntoCurrent zero_state (slot_patch rt) True = Inr t" using slot_patch_applies [of rt] by (simp add: t_def)
  have lt: "length (words t) = WORD_COUNT" by (simp add: t_def)
  obtain c where c: "buildMerkleCache zero_state = Inr c" "root c = rt" using assms(1) by (auto simp: merkleizeState_def js_bind_eq_Inr_iff)
  obtain c' where c': "buildMerkleCache t = Inr c'" using buildMerkleCache_eq [OF lt] by (simp add: Let_def)
  have len: "length (root c') = 32" using length_root [OF merkle_root [OF c'] lt] .
  have up: "updateMerkleCache c (patch_updates (slot_patch rt)) = Inr c'"
    using updateMerkleCache_patch [OF zero_state_wf(1) slot_patch_sized ap c(1)] c' by simp
  have gain: "stubMarginalEvaluator zero_state (slot_patch rt) = 10" by (simp add: stubMarginalEvaluator_def slot_patch_def)
  have parent: "parentStateRoot (slot_patch rt) = rt" by (simp add: slot_patch_def)
  have units: "advance_units demo_opts 0 = Inr 30000" by (rule live_counter_not_reset(1))
  have mode: "lw_policyAtomsMode demo_opts" by (simp add: demo_opts_def)
  have "lo_advances out = [\<lparr>adv_miner = toLowerCase ''0xAb'', adv_patch = slot_patch rt, adv_patchBytes = patch_bytes (slot_patch rt),
      adv_patchHash = computePatchHash (patch_bytes (slot_patch rt)), adv_parentStateRoot = bytesToHex rt, adv_newStateRoot = bytesToHex (root c'),
      adv_marginalGain = 10, adv_workUnitsBps = 30000, adv_creditUnits = 30000, adv_advanceIndex = 0\<rparr>]"
    using assms(2) c up units ap gain mode
    by (auto simp: advanceEpochState_def demo_submission_def evaluateAndApplyOntoCurrent_def bytesEqual_iff parent Let_def)
  then show ?thesis using len by (auto simp: publishes_def demo_advance_def)
qed

theorem live_epoch_replays_witness:
  "(\<exists>rt out logs r. advanceEpochState zero_state [demo_submission rt] 5 demo_opts = Inr out \<and> length logs = 1 \<and>
      replayCoreTexFromLogs zero_state logs demo_options = Inr r \<and> rr_ok r \<and> rr_reproducedFinalRoot r = Some (lo_newStateRootHex out))
   \<or> collision_between [utf8 SIG_STATE_ADVANCED] [utf8 SIG_EPOCH_FINALIZED]"
proof -
  obtain rt where rt: "merkleizeState zero_state = Inr rt" using demo_root by blast
  have len: "length rt = 32" by (rule length_root [OF rt zero_state_wf(2)])
  have dec: "\<forall>x \<in> set [demo_submission rt]. decodePatch (li_patchBytes x) = Inr (li_patch x)"
    using demo_wire_item_ok(1) [OF len] by (simp add: demo_submission_def demo_wire_item_def wire_item_def)
  have units: "\<forall>n. \<exists>u. advance_units demo_opts n = Inr u"
    using advance_units_total [of demo_opts 24] by (simp add: demo_opts_def toBigInt_live_def arg_or_zero_def)
  have mode: "op_policyAtomsMode demo_options = lw_policyAtomsMode demo_opts" by (simp add: demo_options_def demo_opts_def)
  obtain out where out: "advanceEpochState zero_state [demo_submission rt] 5 demo_opts = Inr out"
      and rep: "\<And>xs e logs. list_all2 (publishes e) (lo_advances out) (map snd xs) \<Longrightarrow> list_all (\<lambda>(l, ev). advance_logged l ev) xs \<Longrightarrow>
        list_all (\<lambda>ev. pins_match (resolveEpochPins demo_options (ca_epoch ev)) ev) (map snd xs) \<Longrightarrow> mset logs = mset (map fst xs) \<Longrightarrow>
        (\<exists>r. replayCoreTexFromLogs zero_state logs demo_options = Inr r \<and> rr_ok r \<and> rr_reproducedFinalRoot r = Some (lo_newStateRootHex out))
        \<or> collision_between [utf8 SIG_STATE_ADVANCED] [utf8 SIG_EPOCH_FINALIZED]"
    using live_epoch_replays [OF zero_state_wf(1) dec units mode, of 5] by blast
  obtain rt' where rt': "length rt' = 32" "list_all2 (publishes 3) (lo_advances out) [demo_advance rt rt']" using demo_publishes [OF rt out] by blast
  have pins: "pins_match (resolveEpochPins demo_options (ca_epoch (demo_advance rt rt'))) (demo_advance rt rt')"
    by (simp add: demo_advance_def demo_options_def eqHex_def pins_match_def resolveEpochPins_def pin_mismatch_def truthy_def)
  from rep [of 3 "[(demo_advance_log rt rt', demo_advance rt rt')]" "[demo_advance_log rt rt']"] rt' pins demo_advance_logged [OF len rt'(1)]
  have "(\<exists>r. replayCoreTexFromLogs zero_state [demo_advance_log rt rt'] demo_options = Inr r \<and> rr_ok r \<and> rr_reproducedFinalRoot r = Some (lo_newStateRootHex out))
    \<or> collision_between [utf8 SIG_STATE_ADVANCED] [utf8 SIG_EPOCH_FINALIZED]" by simp
  moreover have "length [demo_advance_log rt rt'] = 1" by simp
  ultimately show ?thesis using out by blast
qed

end
